(* ===== verification/Div0_Prelude.thy ===== *)
theory Div0_Prelude
  imports "HOL-Library.Word"
begin

text \<open>
  The shared vocabulary of the development.

  \<^item> names for the C integer types and for the casts between them;
  \<^item> the collection \<open>uint_simps\<close>, which reads word operations as integer operations with the
    wrap-around written out, and the collection \<open>nowrap\<close>, which does so without the
    wrap-around where the operands are small enough;
  \<^item> the builtins of the compiler the sources use (\<open>__builtin_addcll\<close>, \<open>__builtin_subcll\<close>,
    \<open>__builtin_clzll\<close>) with their arithmetic meaning;
  \<^item> the value \<open>limbs_val\<close> of a segment of an array of 64-bit limbs.
\<close>

unbundle bit_operations_syntax

type_synonym u8 = "8 word"

type_synonym u16 = "16 word"

type_synonym u32 = "32 word"

type_synonym u64 = "64 word"

type_synonym u128 = "128 word"

type_synonym u256 = "256 word"

abbreviation to_u128 :: "u64 \<Rightarrow> u128" where "to_u128 \<equiv> ucast"

abbreviation lo64 :: "u128 \<Rightarrow> u64" where "lo64 \<equiv> ucast"

abbreviation to_u32 :: "u64 \<Rightarrow> u32" where "to_u32 \<equiv> ucast"

abbreviation to_u8 :: "u64 \<Rightarrow> u8" where "to_u8 \<equiv> ucast"

abbreviation u8_to_u64 :: "u8 \<Rightarrow> u64" where "u8_to_u64 \<equiv> ucast"

named_theorems uint_simps

named_theorems nowrap

section \<open>Compiler builtins and limb arrays\<close>

text \<open>
  \<open>__builtin_addcll (x, y, carryin, &carryout)\<close> and \<open>__builtin_subcll\<close>: the wrapped result
  and the carry (borrow) of either of the two additions (subtractions).
\<close>

definition addcll :: "u64 \<Rightarrow> u64 \<Rightarrow> u64 \<Rightarrow> u64 \<times> u64" where
  "addcll x y carryin =
     (let s = x + y; r = s + carryin
      in (r, if s < x \<or> r < carryin then 1 else 0))"

definition subcll :: "u64 \<Rightarrow> u64 \<Rightarrow> u64 \<Rightarrow> u64 \<times> u64" where
  "subcll x y borrowin =
     (let d = x - y; r = d - borrowin
      in (r, if x < y \<or> d < borrowin then 1 else 0))"

text \<open>\<open>__builtin_clzll\<close>, the number of leading zero bits (its argument is never zero).\<close>

fun clz_from :: "nat \<Rightarrow> u64 \<Rightarrow> nat" where
  "clz_from 0 x = 0"
| "clz_from (Suc k) x = (if bit x k then 0 else Suc (clz_from k x))"

definition clzll :: "u64 \<Rightarrow> nat" where
  "clzll x = clz_from 64 x"

text \<open>The value of the segment of \<open>n\<close> limbs of an array that starts at index \<open>j\<close>.\<close>

definition limbs_val :: "u64 list \<Rightarrow> nat \<Rightarrow> nat \<Rightarrow> int" where
  "limbs_val u j n = (\<Sum>k<n. uint (u ! (j + k)) * 2 ^ (64 * k))"

section \<open>Words as integers\<close>

lemma uint_to_u128 [uint_simps, simp]: "uint (to_u128 x) = uint x"
  by (simp add: unsigned_ucast_eq take_bit_eq_mod uint_lt2p [of x, THEN order_less_trans])

lemma uint_lo64 [uint_simps]: "uint (lo64 x) = uint x mod 2 ^ 64"
  by (simp add: unsigned_ucast_eq take_bit_eq_mod)

lemma uint_shr [uint_simps]: "uint (drop_bit n x) = uint x div 2 ^ n" for x :: "'a::len word"
  by (subst unsigned_drop_bit_eq) (simp add: drop_bit_eq_div take_bit_eq_mod mod_pos_pos_trivial)

lemma uint_shl [uint_simps]:
  "uint (push_bit n x) = uint x * 2 ^ n mod 2 ^ LENGTH('a)" for x :: "'a::len word"
  by (subst unsigned_push_bit_eq) (simp add: push_bit_eq_mult take_bit_eq_mod)

lemmas uint_arith_simps [uint_simps] = uint_word_ariths uint_div_distrib uint_mod_distrib

lemma uint64_bounds: "0 \<le> uint x" "uint x < 18446744073709551616" for x :: u64
  using uint_lt2p [of x] by simp_all

lemma uint128_bounds:
  "0 \<le> uint x" "uint x < 340282366920938463463374607431768211456" for x :: u128
  using uint_lt2p [of x] by simp_all

lemma uint64_le: "uint x \<le> 18446744073709551615" for x :: u64
  using uint64_bounds(2) [of x] by linarith

lemma mult_bound64:
  fixes a b :: int
  assumes "0 \<le> a" "a < 2 ^ 64" "0 \<le> b" "b < 2 ^ 64"
  shows "0 \<le> a * b" "a * b \<le> (2 ^ 64 - 1) * (2 ^ 64 - 1)"
proof -
  show "0 \<le> a * b" using assms by simp
  show "a * b \<le> (2 ^ 64 - 1) * (2 ^ 64 - 1)"
    using assms by (intro mult_mono) auto
qed

lemma uint_mul128 [nowrap]:
  "uint (x * y) = uint x * uint y" if "uint x < 2 ^ 64" "uint y < 2 ^ 64" for x y :: u128
  using mult_bound64 [of "uint x" "uint y"] that by (simp add: uint_word_ariths)

lemma uint_add_nowrap [nowrap]:
  "uint (x + y) = uint x + uint y" if "uint x + uint y < 2 ^ LENGTH('a)" for x y :: "'a::len word"
  using that by (simp add: uint_word_ariths)

lemma uint_sub_nowrap [nowrap]:
  "uint (x - y) = uint x - uint y" if "uint y \<le> uint x" for x y :: "'a::len word"
  using that uint_lt2p [of x] uint_ge_0 [of y]
  by (simp add: uint_word_ariths mod_pos_pos_trivial)

lemma uint_shl_nowrap [nowrap]:
  "uint (push_bit n x) = uint x * 2 ^ n" if "uint x * 2 ^ n < 2 ^ LENGTH('a)"
  for x :: "'a::len word"
  using that by (simp add: uint_shl)

lemma word_eq_uintI: "uint x = uint y \<Longrightarrow> x = y"
  by (simp add: word_uint_eq_iff)

lemma zle_div_iff:
  fixes a b c :: int
  assumes "0 < c"
  shows "b \<le> a div c \<longleftrightarrow> b * c \<le> a"
proof
  assume "b \<le> a div c"
  then have "b * c \<le> a div c * c" using assms by (simp add: mult_right_mono)
  also have "\<dots> \<le> a" using assms by (metis div_mult_mod_eq le_add_same_cancel1 pos_mod_sign)
  finally show "b * c \<le> a" .
next
  assume "b * c \<le> a"
  then have "b * c div c \<le> a div c" using assms by (rule zdiv_mono1)
  then show "b \<le> a div c" using assms by simp
qed

lemma zdiv_less_iff: "0 < c \<Longrightarrow> a div c < b \<longleftrightarrow> a < b * c" for a b c :: int
  using zle_div_iff [of c b a] by linarith

text \<open>Joining the bits of two words whose set bits do not overlap is adding them.\<close>

lemma or_disjoint_add:
  fixes a b :: "'a::len word"
  assumes "uint b < 2 ^ n" and "2 ^ n dvd uint a"
  shows "a OR b = a + b"
proof -
  have *: "\<not> (bit a i \<and> bit b i)" for i
  proof
    assume h: "bit a i \<and> bit b i"
    then have "bit (uint b) i" "bit (uint a) i" by (auto simp: bit_uint_iff bit_imp_le_length)
    have "i < n"
    proof (rule ccontr)
      assume "\<not> i < n"
      then have "(2::int) ^ n \<le> 2 ^ i" by simp
      with assms(1) have "uint b < 2 ^ i" by linarith
      then have "uint b div 2 ^ i = 0" by (simp add: div_pos_pos_trivial)
      with \<open>bit (uint b) i\<close> show False by (simp add: bit_iff_odd)
    qed
    from assms(2) obtain k where "uint a = 2 ^ n * k" ..
    then have "uint a = push_bit n k" by (simp add: push_bit_eq_mult)
    with \<open>i < n\<close> \<open>bit (uint a) i\<close> show False by (simp add: bit_push_bit_iff)
  qed
  show ?thesis
    by (rule disjunctive_add_eq_or [symmetric])
      (use * in \<open>auto simp: bit_eq_iff bit_simps\<close>)
qed

text \<open>A 64-bit half put above another one, as the sources write it.\<close>

lemma uint_join128:
  fixes h l :: u128
  assumes "uint l < 2 ^ 64"
  shows "uint (push_bit 64 h OR l) = (uint h * 2 ^ 64) mod 2 ^ 128 + uint l"
proof -
  have dv: "2 ^ 64 dvd uint (push_bit 64 h)"
    by (simp add: uint_shl dvd_mod_iff dvd_mod)
  have "push_bit 64 h OR l = push_bit 64 h + l"
    using or_disjoint_add [OF assms dv] .
  moreover from dv obtain k where k: "uint (push_bit 64 h) = 2 ^ 64 * k" ..
  moreover have "uint (push_bit 64 h) < 2 ^ 128" using uint_lt2p [of "push_bit 64 h"] by simp
  ultimately show ?thesis using assms
    by (simp add: uint_add_nowrap uint_shl)
qed

lemma word_xor_0_iff: "x XOR y = 0 \<longleftrightarrow> x = y" for x y :: "'a::len word"
  by (auto simp: bit_eq_iff bit_simps)

lemma digit_less_iff:
  fixes h h' l l' m :: int
  assumes "0 \<le> l" "l < m" "0 \<le> l'" "l' < m"
  shows "l + m * h < l' + m * h' \<longleftrightarrow> (if h = h' then l < l' else h < h')"
proof -
  have "l + m * x < l' + m * y" if "0 \<le> l" "l < m" "0 \<le> l'" "x < y" for l l' x y
  proof -
    have "m * (x + 1) \<le> m * y" using that by (intro mult_left_mono) auto
    with that show ?thesis by (simp add: algebra_simps)
  qed
  from this [of l l' h h'] this [of l' l h' h] show ?thesis
    using assms by (cases h h' rule: linorder_cases) auto
qed

lemma digit_eq_iff:
  fixes h h' l l' m :: int
  assumes "0 \<le> l" "l < m" "0 \<le> l'" "l' < m"
  shows "l + m * h = l' + m * h' \<longleftrightarrow> l = l' \<and> h = h'"
  using digit_less_iff [OF assms, of h h'] digit_less_iff [OF assms(3,4,1,2), of h' h]
  by (cases h h' rule: linorder_cases) auto

lemma mod_congI: "x = y + m * k \<Longrightarrow> x mod m = y mod m" for x y m k :: int
  by simp

lemma uint_lo64_shr64: "uint (lo64 (drop_bit 64 x)) = uint x div 2 ^ 64"
proof -
  have "uint x div 2 ^ 64 < 2 ^ 64" using uint128_bounds(2) [of x] by (simp add: zdiv_less_iff)
  moreover have "0 \<le> uint x div 2 ^ 64" by (simp add: pos_imp_zdiv_nonneg_iff)
  ultimately show ?thesis by (simp add: uint_lo64 uint_shr mod_pos_pos_trivial)
qed

lemma uint_shr64_less: "uint (drop_bit 64 x) < 2 ^ 64" for x :: u128
  using uint_lt2p [of x] by (simp add: uint_shr zdiv_less_iff)

lemma uint_mult_to_u128: "uint (to_u128 x * to_u128 y) = uint x * uint y"
  by (rule uint_mul128 [THEN trans]) (simp_all add: uint64_bounds)

lemma unat_div_mod_64: "unat (x div 64) = unat x div 64" "unat (x mod 64) = unat x mod 64" for x :: u64
  by (simp_all add: unat_div_distrib unat_mod_distrib)

lemma bit_u64_out: "64 \<le> i \<Longrightarrow> \<not> bit x i" for x :: u64
  using bit_imp_le_length [of x i] by auto

lemma bit_high_mask: "bit (NOT (2 ^ b - 1) :: u64) i \<longleftrightarrow> i < 64 \<and> b \<le> i"
proof -
  have "2 ^ b - 1 = (mask b :: u64)" by (simp add: mask_eq_exp_minus_1)
  then show ?thesis by (auto simp: bit_not_iff bit_mask_iff)
qed

lemma bit_low_mask: "bit (2 ^ b - 1 :: u64) i \<longleftrightarrow> i < 64 \<and> i < b"
proof -
  have "2 ^ b - 1 = (mask b :: u64)" by (simp add: mask_eq_exp_minus_1)
  then show ?thesis by (auto simp: bit_mask_iff)
qed

lemmas bit_low_mask_Suc = bit_low_mask [of "Suc b" for b, simplified]

lemma bit_and_1_iff: "x AND 1 \<noteq> 0 \<longleftrightarrow> bit x 0" for x :: u64
  by (simp add: and_one_eq bit_0 mod_2_eq_odd)

lemma and_ff: "x AND 0xFF = take_bit 8 x" for x :: u64
  by (simp add: take_bit_eq_mask mask_eq_exp_minus_1)

lemma byte_of_limb: "u8_to_u64 (to_u8 (x AND 0xFF)) = take_bit 8 x"
  by (rule bit_word_eqI) (auto simp: bit_ucast_iff bit_take_bit_iff and_ff)

section \<open>Meaning of the builtins\<close>

lemma addcll_sound:
  assumes "addcll x y c = (r, c')" and "uint c \<le> 1"
  shows "uint r + 2 ^ 64 * uint c' = uint x + uint y + uint c \<and> uint c' \<le> 1"
  using assms uint64_bounds(2) [of x] uint64_bounds(2) [of y]
  by (auto simp: addcll_def Let_def word_less_def uint_plus_if' split: if_splits)
    (use uint_ge_0 [of x] uint_ge_0 [of y] in linarith)

lemma subcll_sound:
  assumes "subcll x y c = (r, c')" and "uint c \<le> 1"
  shows "uint r = uint x - uint y - uint c + 2 ^ 64 * uint c' \<and> uint c' \<le> 1"
  using assms uint64_bounds(2) [of y]
  by (auto simp: subcll_def Let_def word_less_def uint_sub_if' split: if_splits)
    (use uint_ge_0 [of x] in linarith)

lemma clz_from_sound:
  assumes "0 < uint x" and "uint x < 2 ^ k"
  shows "clz_from k x < k \<and> 2 ^ (k - 1) \<le> uint x * 2 ^ clz_from k x \<and>
         uint x * 2 ^ clz_from k x < 2 ^ k"
  using assms
proof (induction k)
  case 0
  then show ?case by simp
next
  case (Suc k)
  have bit: "bit x k \<longleftrightarrow> 2 ^ k \<le> uint x"
  proof -
    have "bit x k \<longleftrightarrow> odd (uint x div 2 ^ k)"
      by (metis bit_iff_odd bit_uint_iff bit_imp_le_length)
    moreover have "0 \<le> uint x div 2 ^ k" "uint x div 2 ^ k < 2"
      using Suc.prems by (simp_all add: zdiv_less_iff pos_imp_zdiv_nonneg_iff)
    then have "uint x div 2 ^ k = 0 \<or> uint x div 2 ^ k = 1" by linarith
    moreover have "uint x div 2 ^ k = 0 \<longleftrightarrow> uint x < 2 ^ k"
      using Suc.prems by (simp add: zdiv_eq_0_iff)
    ultimately show ?thesis by auto
  qed
  show ?case
  proof (cases "bit x k")
    case True
    then show ?thesis using bit Suc.prems by simp
  next
    case False
    then have "uint x < 2 ^ k" using bit by simp
    then have ih: "clz_from k x < k" "2 ^ (k - 1) \<le> uint x * 2 ^ clz_from k x"
      "uint x * 2 ^ clz_from k x < 2 ^ k" using Suc by auto
    then obtain k' where "k = Suc k'" by (cases k) auto
    then show ?thesis using ih False by (simp add: mult.assoc)
  qed
qed

lemma clzll_sound:
  assumes "x \<noteq> 0"
  shows "clzll x < 64" "2 ^ 63 \<le> uint x * 2 ^ clzll x" "uint x * 2 ^ clzll x < 2 ^ 64"
proof -
  have "0 < uint x" using assms uint_ge_0 [of x] by (simp add: word_uint_eq_iff order_less_le)
  then have "clz_from 64 x < 64 \<and> 2 ^ (64 - 1) \<le> uint x * 2 ^ clz_from 64 x \<and>
      uint x * 2 ^ clz_from 64 x < 2 ^ 64"
    using uint64_bounds(2) [of x] by (intro clz_from_sound) simp_all
  then show "clzll x < 64" "2 ^ 63 \<le> uint x * 2 ^ clzll x" "uint x * 2 ^ clzll x < 2 ^ 64"
    by (simp_all add: clzll_def)
qed

section \<open>The value of a segment of an array of limbs\<close>

lemma limbs_val_0 [simp]: "limbs_val u j 0 = 0"
  by (simp add: limbs_val_def)

lemma limbs_val_Suc: "limbs_val u j (Suc n) = limbs_val u j n + uint (u ! (j + n)) * 2 ^ (64 * n)"
  by (simp add: limbs_val_def)

lemma limbs_val_Suc_low:
  "limbs_val u j (Suc n) = uint (u ! j) + 2 ^ 64 * limbs_val u (Suc j) n"
  by (simp add: limbs_val_def sum.lessThan_Suc_shift sum_distrib_left sum_distrib_right power_add
      algebra_simps del: sum.lessThan_Suc)

lemma limbs_val_bounds: "0 \<le> limbs_val u j n" "limbs_val u j n < 2 ^ (64 * n)"
proof -
  show "0 \<le> limbs_val u j n" by (simp add: limbs_val_def sum_nonneg)
  show "limbs_val u j n < 2 ^ (64 * n)"
  proof (induction n)
    case (Suc n)
    have "uint (u ! (j + n)) * 2 ^ (64 * n) \<le> (2 ^ 64 - 1) * 2 ^ (64 * n)"
      by (intro mult_right_mono) (simp_all add: uint64_le)
    moreover have "(2::int) ^ (64 * Suc n) = 2 ^ 64 * 2 ^ (64 * n)" by (simp add: power_add)
    ultimately show ?case using Suc unfolding limbs_val_Suc left_diff_distrib by linarith
  qed simp
qed

lemma limbs_val_cong:
  "(\<And>k. k < n \<Longrightarrow> u ! (j + k) = u' ! (j' + k)) \<Longrightarrow> limbs_val u j n = limbs_val u' j' n"
  by (simp add: limbs_val_def)

lemma limbs_val_upd [simp]: "i < j \<or> j + n \<le> i \<Longrightarrow> limbs_val (u[i := x]) j n = limbs_val u j n"
  by (intro limbs_val_cong) auto

lemma limbs_val_add:
  "limbs_val u j (m + n) = limbs_val u j m + 2 ^ (64 * m) * limbs_val u (j + m) n"
  by (induction n) (simp_all add: limbs_val_Suc algebra_simps power_add)

lemma limbs_val_inj:
  assumes "limbs_val u j n = limbs_val u' j' n" and "k < n"
  shows "u ! (j + k) = u' ! (j' + k)"
  using assms
proof (induction n arbitrary: j j' k)
  case (Suc n)
  have eq: "uint (u ! j) + 2 ^ 64 * limbs_val u (Suc j) n =
      uint (u' ! j') + 2 ^ 64 * limbs_val u' (Suc j') n"
    using Suc.prems(1) by (simp add: limbs_val_Suc_low)
  from arg_cong [OF eq, of "\<lambda>z. z mod 2 ^ 64"] have lo: "uint (u ! j) = uint (u' ! j')"
    by (simp add: mod_mult_self2 mod_pos_pos_trivial uint64_bounds)
  with eq have "limbs_val u (Suc j) n = limbs_val u' (Suc j') n" by simp
  with Suc.IH [of "Suc j" "Suc j'"] have hi: "k' < n \<Longrightarrow> u ! (Suc j + k') = u' ! (Suc j' + k')" for k'
    by blast
  show ?case using lo hi Suc.prems(2) by (cases k) (auto simp: word_uint_eq_iff)
qed simp

section \<open>Bit positions and limbs\<close>

lemma four_Suc: "(4::nat) = Suc (Suc (Suc (Suc 0)))"
  by simp

lemma bit_add_shifted:
  fixes x V :: int
  assumes "0 \<le> x" "x < 2 ^ k"
  shows "bit (x + 2 ^ k * V) i \<longleftrightarrow> (if i < k then bit x i else bit V (i - k))"
proof -
  have "x + 2 ^ k * V = concat_bit k x V"
    using assms by (simp add: concat_bit_eq push_bit_eq_mult take_bit_int_eq_self)
  then show ?thesis by (simp add: bit_concat_bit_iff)
qed

lemma bit_limbs_val:
  "bit (limbs_val u j n) i \<longleftrightarrow> i < 64 * n \<and> bit (u ! (j + i div 64)) (i mod 64)"
proof (induction n arbitrary: j i)
  case (Suc n)
  have bnd: "0 \<le> uint (u ! j)" "uint (u ! j) < 2 ^ 64" by (simp_all add: uint64_bounds)
  show ?case
  proof (cases "i < 64")
    case True
    then show ?thesis
      by (simp add: limbs_val_Suc_low bit_add_shifted [OF bnd, simplified] bit_uint_iff)
  next
    case False
    then have "i div 64 = Suc ((i - 64) div 64)" "i mod 64 = (i - 64) mod 64"
      by (simp_all add: le_div_geq le_mod_geq)
    with False show ?thesis
      by (auto simp add: limbs_val_Suc_low bit_add_shifted [OF bnd, simplified] Suc.IH)
  qed
qed simp

lemma div64_cases:
  fixes i :: nat
  assumes "i < 256"
  obtains "i div 64 = 0" | "i div 64 = 1" | "i div 64 = 2" | "i div 64 = 3"
proof -
  have "i div 64 < 4" using assms by (simp add: less_mult_imp_div_less)
  then have "i div 64 = 0 \<or> i div 64 = 1 \<or> i div 64 = 2 \<or> i div 64 = 3" by linarith
  then show thesis using that by blast
qed

lemma foldl_upd_length [simp]: "length (foldl (\<lambda>r i. r[i := f i]) r is) = length r"
  by (induction "is" arbitrary: r) auto

lemma foldl_upd_nth:
  "k < length r \<Longrightarrow> foldl (\<lambda>r i. r[i := f i]) r is ! k = (if k \<in> set is then f k else r ! k)"
  by (induction "is" arbitrary: r) (auto simp: nth_list_update)

lemma nth_zeros: "k < 4 \<Longrightarrow> [0, 0, 0, 0] ! k = (0::u64)"
  by (auto simp: less_Suc_eq four_Suc)

lemma bit_index_add:
  fixes i n :: nat
  shows "(i + n) div 64 =
      (if i mod 64 + n mod 64 < 64 then i div 64 + n div 64 else i div 64 + n div 64 + 1)"
    "(i + n) mod 64 =
      (if i mod 64 + n mod 64 < 64 then i mod 64 + n mod 64 else i mod 64 + n mod 64 - 64)"
proof -
  define r s where "r = i mod 64" and "s = n mod 64"
  have rs: "r < 64" "s < 64" by (simp_all add: r_def s_def)
  have "(r + s) div 64 = (if r + s < 64 then 0 else 1)" "(r + s) mod 64 = (if r + s < 64 then r + s else r + s - 64)"
    using rs by (auto simp: div_if mod_if)
  then show "(i + n) div 64 =
      (if i mod 64 + n mod 64 < 64 then i div 64 + n div 64 else i div 64 + n div 64 + 1)"
    "(i + n) mod 64 =
      (if i mod 64 + n mod 64 < 64 then i mod 64 + n mod 64 else i mod 64 + n mod 64 - 64)"
    unfolding r_def s_def by (simp_all add: div_add1_eq [of i n] mod_add_eq [of i 64 n, symmetric])
qed

lemma bit_index_sub:
  fixes i n :: nat
  assumes "n \<le> i"
  shows "(i - n) div 64 =
      (if n mod 64 \<le> i mod 64 then i div 64 - n div 64 else i div 64 - n div 64 - 1)"
    "(i - n) mod 64 =
      (if n mod 64 \<le> i mod 64 then i mod 64 - n mod 64 else 64 + i mod 64 - n mod 64)"
proof -
  define m where "m = i - n"
  have i: "i = m + n" using assms by (simp add: m_def)
  have "m mod 64 < 64" "n mod 64 < 64" by simp_all
  then show "(i - n) div 64 =
      (if n mod 64 \<le> i mod 64 then i div 64 - n div 64 else i div 64 - n div 64 - 1)"
    "(i - n) mod 64 =
      (if n mod 64 \<le> i mod 64 then i mod 64 - n mod 64 else 64 + i mod 64 - n mod 64)"
    unfolding m_def [symmetric] unfolding i bit_index_add [of m n] by (auto split: if_splits)
qed

lemma div64_less: "i < 256 \<Longrightarrow> i div 64 < (4::nat)"
  by (simp add: less_mult_imp_div_less)

lemma shl_limb_bit:
  fixes x y :: u64
  assumes "bs < 64" "ib < 64"
  shows "bit (push_bit bs x OR (if bs \<noteq> 0 \<and> P then drop_bit (64 - bs) y else 0)) ib \<longleftrightarrow>
    (if bs \<le> ib then bit x (ib - bs) else P \<and> bit y (64 + ib - bs))"
  using assms by (auto simp: bit_or_iff bit_push_bit_iff bit_drop_bit_eq bit_u64_out)

lemma shr_limb_bit:
  fixes x y :: u64
  assumes "bs < 64" "ib < 64"
  shows "bit (drop_bit bs x OR (if bs \<noteq> 0 \<and> P then push_bit (64 - bs) y else 0)) ib \<longleftrightarrow>
    (if ib + bs < 64 then bit x (ib + bs) else P \<and> bit y (ib + bs - 64))"
  using assms by (auto simp: bit_or_iff bit_push_bit_iff bit_drop_bit_eq bit_u64_out add.commute)

lemma index_le_iff: "(m::nat) \<le> i \<longleftrightarrow> m div 64 < i div 64 \<or> m div 64 = i div 64 \<and> m mod 64 \<le> i mod 64"
proof -
  have "i = 64 * (i div 64) + i mod 64" "m = 64 * (m div 64) + m mod 64" "i mod 64 < 64" "m mod 64 < 64"
    by simp_all
  then show ?thesis by linarith
qed

lemma nth_upd_in: "j < length xs \<Longrightarrow> xs[i := x] ! j = (if i = j then x else xs ! j)"
  by (cases "i = j") auto

lemma byte_index:
  fixes le i :: nat
  assumes "i < 8"
  shows "(8 * le + i) div 64 = le div 8" "(8 * le + i) mod 64 = le mod 8 * 8 + i"
proof -
  have eq: "8 * le + i = 64 * (le div 8) + (le mod 8 * 8 + i)"
    using mult_div_mod_eq [of 8 le] by linarith
  have "le mod 8 * 8 + i < 64" using assms mod_less_divisor [of 8 le] by linarith
  then show "(8 * le + i) div 64 = le div 8" "(8 * le + i) mod 64 = le mod 8 * 8 + i"
    unfolding eq by simp_all
qed

section \<open>Shifted limbs\<close>

lemma uint_of_int64: "0 \<le> i \<Longrightarrow> i < 2 ^ 64 \<Longrightarrow> uint (of_int i :: u64) = i"
  by (simp add: uint_word_of_int mod_pos_pos_trivial)

lemma uint_ucast_u16: "uint (ucast (x :: u16) :: u64) = uint x"
  by (simp add: unsigned_ucast_eq take_bit_int_eq_self uint_lt2p [of x, THEN order_less_trans])

lemma uint_to_u32: "uint (ucast (to_u32 x) :: u64) = uint x mod 2 ^ 32"
  by (simp add: unsigned_ucast_eq take_bit_take_bit) (simp add: take_bit_eq_mod uint_mod_distrib)

lemma uint_eq_int64: "w = of_int i \<Longrightarrow> 0 \<le> i \<Longrightarrow> i < 2 ^ 64 \<Longrightarrow> uint w = i" for w :: u64
  by (simp add: uint_of_int64)

lemma uint_and_1: "uint (d AND 1) = uint d mod 2" for d :: u64
  by (simp add: and_one_eq uint_mod_distrib)

lemma partial_sums_less:
  fixes a b c l B M :: int
  assumes "a + b + c + B < M" "l < B" "0 \<le> a" "0 \<le> b" "0 \<le> c" "0 \<le> l"
  shows "a < M" "a + l < M" "a + l + b < M"
  using assms by linarith+

lemma limb_shift_split:
  fixes x :: u64
  assumes "s < 64"
  shows "uint x * 2 ^ s = uint (push_bit s x) + 2 ^ 64 * (uint x div 2 ^ (64 - s))"
proof -
  have p: "(2::int) ^ 64 = 2 ^ s * 2 ^ (64 - s)" using assms by (simp flip: power_add)
  have "uint x * 2 ^ s div 2 ^ 64 = uint x div 2 ^ (64 - s)"
    unfolding p mult.commute [of "uint x"] by simp
  moreover have "uint x * 2 ^ s = uint x * 2 ^ s mod 2 ^ 64 + 2 ^ 64 * (uint x * 2 ^ s div 2 ^ 64)"
    by simp
  ultimately show ?thesis by (simp add: uint_shl)
qed

lemma limb_join:
  fixes x c :: u64
  assumes "s < 64" "uint c < 2 ^ s"
  shows "uint (push_bit s x OR c) = uint (push_bit s x) + uint c"
proof -
  have dv: "2 ^ s dvd uint (push_bit s x)"
  proof -
    have "2 ^ s dvd (2 :: int) ^ 64" using assms(1) by (intro le_imp_power_dvd) simp
    then have "2 ^ s dvd uint x * 2 ^ s mod 2 ^ 64" by (intro dvd_mod) simp_all
    then show ?thesis by (simp add: uint_shl)
  qed
  have "push_bit s x OR c = push_bit s x + c"
    by (rule or_disjoint_add [OF assms(2) dv])
  moreover have "uint (push_bit s x) + uint c < 2 ^ 64"
  proof -
    obtain k where k: "uint (push_bit s x) = 2 ^ s * k" using dv ..
    have p: "(2::int) ^ 64 = 2 ^ s * 2 ^ (64 - s)" using assms(1) by (simp flip: power_add)
    have "2 ^ s * k < 2 ^ s * 2 ^ (64 - s)"
      using uint64_bounds(2) [of "push_bit s x"] unfolding k [symmetric] p [symmetric] by simp
    then have "k + 1 \<le> 2 ^ (64 - s)" by simp
    then have "2 ^ s * (k + 1) \<le> 2 ^ 64" unfolding p by (intro mult_left_mono) simp_all
    then show ?thesis using assms(2) by (simp add: k algebra_simps)
  qed
  ultimately show ?thesis by (simp add: uint_add_nowrap)
qed

lemma limb_carry: "s < 64 \<Longrightarrow> 0 < s \<Longrightarrow> uint (drop_bit (64 - s) x) < 2 ^ s" for x :: u64
  using uint64_bounds(2) [of x] power_add [of "2 :: int" s "64 - s"]
  by (simp add: uint_shr zdiv_less_iff)

lemma limbs_val_upd_in:
  assumes "j \<le> k" "k < j + n" "k < length u"
  shows "limbs_val (u[k := x]) j n = limbs_val u j n + 2 ^ (64 * (k - j)) * (uint x - uint (u ! k))"
  using assms
proof (induction n)
  case (Suc n)
  show ?case
  proof (cases "k = j + n")
    case True
    then show ?thesis using Suc.prems by (simp add: limbs_val_Suc algebra_simps)
  next
    case False
    then show ?thesis using Suc by (simp add: limbs_val_Suc)
  qed
qed simp

lemma limbs_val_zero_tail:
  assumes "\<And>k. n \<le> k \<Longrightarrow> k < m \<Longrightarrow> u ! k = 0" "n \<le> m"
  shows "limbs_val u 0 m = limbs_val u 0 n"
proof -
  have "limbs_val u n (m - n) = 0" using assms(1) by (simp add: limbs_val_def)
  then show ?thesis using limbs_val_add [of u 0 n "m - n"] assms(2) by simp
qed

lemma shr_join:
  fixes x y :: u64
  assumes "0 < s" "s < 64"
  shows "2 ^ s * uint (drop_bit s x OR push_bit (64 - s) y) =
    uint x - uint x mod 2 ^ s + 2 ^ 64 * (uint y mod 2 ^ s)"
proof -
  have p: "(2::int) ^ 64 = 2 ^ (64 - s) * 2 ^ s" using assms by (simp flip: power_add)
  have "uint (push_bit (64 - s) y) = 2 ^ (64 - s) * (uint y mod 2 ^ s)"
  proof -
    have "uint y * 2 ^ (64 - s) mod 2 ^ 64 = 2 ^ (64 - s) * (uint y mod 2 ^ s)"
      unfolding p mult_mod_right by (simp only: mult.commute)
    then show ?thesis by (simp add: uint_shl)
  qed
  moreover have "uint (drop_bit s x) < 2 ^ (64 - s)"
    using uint64_bounds(2) [of x] p by (simp add: uint_shr zdiv_less_iff)
  then have "uint (push_bit (64 - s) y OR drop_bit s x) = uint (push_bit (64 - s) y) + uint (drop_bit s x)"
    using assms by (intro limb_join) auto
  ultimately have "2 ^ s * uint (drop_bit s x OR push_bit (64 - s) y) =
      2 ^ s * (2 ^ (64 - s) * (uint y mod 2 ^ s) + uint x div 2 ^ s)"
    by (simp add: or.commute uint_shr)
  also have "\<dots> = 2 ^ 64 * (uint y mod 2 ^ s) + 2 ^ s * (uint x div 2 ^ s)"
    unfolding p by (simp add: algebra_simps)
  finally show ?thesis by (simp add: minus_mod_eq_mult_div)
qed

lemma zeros_upd_nth:
  "k < 4 \<Longrightarrow> foldl (\<lambda>r i. r[i := f i]) [0, 0, 0, 0] is ! k = (if k \<in> set is then f k else (0 :: u64))"
  using foldl_upd_nth [of k "[0, 0, 0, 0]" f "is"] nth_zeros [of k] by simp


section \<open>Big-endian bytes\<close>

text \<open>The number a byte string stands for.\<close>

definition be_val :: "u8 list \<Rightarrow> int" where
  "be_val bs = foldl (\<lambda>v b. v * 256 + uint b) 0 bs"

lemma be_val_Nil [simp]: "be_val [] = 0"
  by (simp add: be_val_def)

lemma be_val_snoc [simp]: "be_val (bs @ [b]) = be_val bs * 256 + uint b"
  by (simp add: be_val_def)

lemma be_val_append: "be_val (xs @ ys) = be_val xs * 256 ^ length ys + be_val ys"
proof (induction ys rule: rev_induct)
  case (snoc y ys)
  show ?case unfolding append_assoc [symmetric] be_val_snoc snoc by (simp add: algebra_simps)
qed simp

lemma be_val_Cons: "be_val (b # bs) = uint b * 256 ^ length bs + be_val bs"
  using be_val_append [of "[b]" bs] by (simp add: be_val_def)

lemma uint8_bounds: "0 \<le> uint b" "uint b < 256" for b :: u8
  using uint_lt2p [of b] by simp_all

lemma be_val_bounds: "0 \<le> be_val bs" "be_val bs < 256 ^ length bs"
proof -
  show "0 \<le> be_val bs" by (induction bs) (simp_all add: be_val_Cons)
  show "be_val bs < 256 ^ length bs"
  proof (induction bs rule: rev_induct)
    case (snoc b bs)
    then have "(be_val bs + 1) * 256 \<le> 256 ^ length bs * 256" by (intro mult_right_mono) simp_all
    then show ?case using uint8_bounds(2) [of b] by simp
  qed simp
qed

lemma be_val_zeros [simp]: "be_val (replicate n 0) = 0"
  by (induction n) (simp_all add: be_val_Cons)

lemma be_val_inj: "length xs = length ys \<Longrightarrow> be_val xs = be_val ys \<Longrightarrow> xs = ys"
proof (induction xs arbitrary: ys rule: rev_induct)
  case (snoc x xs)
  then obtain y ys' where y: "ys = ys' @ [y]" by (cases ys rule: rev_cases) auto
  have e: "uint x + 256 * be_val xs = uint y + 256 * be_val ys'" using snoc.prems y by simp
  then have "uint x = uint y \<and> be_val xs = be_val ys'"
    using uint8_bounds [of x] uint8_bounds [of y] by (subst (asm) digit_eq_iff) simp_all
  then show ?case using snoc y by (simp add: word_uint_eq_iff)
qed simp

lemma be_val_drop: "n \<le> length d \<Longrightarrow> be_val (drop n d) = be_val d mod 256 ^ (length d - n)"
  using be_val_append [of "take n d" "drop n d"] be_val_bounds [of "drop n d"]
  by (simp add: mod_pos_pos_trivial)

end
