(* ===== verification/Uint256.thy ===== *)
theory Uint256
  imports Div0_Prelude
begin

text \<open>
  The 256-bit integer of \<open>include/div0/types/uint256.h\<close> and the operations of
  \<open>src/types/uint256.c\<close> that do not divide: construction, comparison, addition, subtraction,
  multiplication, bitwise operations, shifts, sign extension and byte conversions.  The C struct
  is an array of four 64-bit limbs, least significant first; it is abstracted to its value
  \<open>uval\<close> (an integer) and to a \<open>256 word\<close> by \<open>w256\<close>.  Every operation is proved to be
  the operation of the same name on \<open>256 word\<close>, by the contract \<open>word_binop\<close>.
\<close>

section \<open>The type\<close>

record uint256_t =
  limb0 :: u64
  limb1 :: u64
  limb2 :: u64
  limb3 :: u64

definition uint256_from_limbs :: "u64 \<Rightarrow> u64 \<Rightarrow> u64 \<Rightarrow> u64 \<Rightarrow> uint256_t" where
  "uint256_from_limbs l0 l1 l2 l3 = \<lparr>limb0 = l0, limb1 = l1, limb2 = l2, limb3 = l3\<rparr>"

text \<open>The member array \<open>limbs\<close>, read and written as a whole by the loops of the code.\<close>

definition limbs :: "uint256_t \<Rightarrow> u64 list" where
  "limbs a = [limb0 a, limb1 a, limb2 a, limb3 a]"

definition of_limbs :: "u64 list \<Rightarrow> uint256_t" where
  "of_limbs ls = uint256_from_limbs (ls ! 0) (ls ! 1) (ls ! 2) (ls ! 3)"

definition uint256_zero :: uint256_t where
  "uint256_zero = uint256_from_limbs 0 0 0 0"

definition uint256_from_u64 :: "u64 \<Rightarrow> uint256_t" where
  "uint256_from_u64 v = uint256_from_limbs v 0 0 0"

definition uint256_is_zero :: "uint256_t \<Rightarrow> bool" where
  "uint256_is_zero a \<longleftrightarrow> (limb0 a OR limb1 a OR limb2 a OR limb3 a) = 0"

definition uint256_fits_u64 :: "uint256_t \<Rightarrow> bool" where
  "uint256_fits_u64 a \<longleftrightarrow> (limb1 a OR limb2 a OR limb3 a) = 0"

definition uint256_to_u64_unsafe :: "uint256_t \<Rightarrow> u64" where
  "uint256_to_u64_unsafe a = limb0 a"

definition uint256_eq :: "uint256_t \<Rightarrow> uint256_t \<Rightarrow> bool" where
  "uint256_eq a b \<longleftrightarrow>
     ((limb0 a XOR limb0 b) OR (limb1 a XOR limb1 b) OR
      (limb2 a XOR limb2 b) OR (limb3 a XOR limb3 b)) = 0"

section \<open>Addition, subtraction, comparison\<close>

text \<open>The carry chain, with the carry out of the top limb (\<open>uint256_addmod\<close> reads it).\<close>

definition add_chain :: "uint256_t \<Rightarrow> uint256_t \<Rightarrow> uint256_t \<times> u64" where
  "add_chain a b =
     (let (r0, carry) = addcll (limb0 a) (limb0 b) 0;
          (r1, carry) = addcll (limb1 a) (limb1 b) carry;
          (r2, carry) = addcll (limb2 a) (limb2 b) carry;
          (r3, carry) = addcll (limb3 a) (limb3 b) carry
      in (uint256_from_limbs r0 r1 r2 r3, carry))"

definition uint256_add :: "uint256_t \<Rightarrow> uint256_t \<Rightarrow> uint256_t" where
  "uint256_add a b = fst (add_chain a b)"

definition uint256_sub :: "uint256_t \<Rightarrow> uint256_t \<Rightarrow> uint256_t" where
  "uint256_sub a b =
     (let (r0, borrow) = subcll (limb0 a) (limb0 b) 0;
          (r1, borrow) = subcll (limb1 a) (limb1 b) borrow;
          (r2, borrow) = subcll (limb2 a) (limb2 b) borrow;
          (r3, borrow) = subcll (limb3 a) (limb3 b) borrow
      in uint256_from_limbs r0 r1 r2 r3)"

definition uint256_lt :: "uint256_t \<Rightarrow> uint256_t \<Rightarrow> bool" where
  "uint256_lt a b =
     (if limb3 a \<noteq> limb3 b then limb3 a < limb3 b
      else if limb2 a \<noteq> limb2 b then limb2 a < limb2 b
      else if limb1 a \<noteq> limb1 b then limb1 a < limb1 b
      else limb0 a < limb0 b)"

definition uint256_gt :: "uint256_t \<Rightarrow> uint256_t \<Rightarrow> bool" where
  "uint256_gt a b = uint256_lt b a"

definition uint256_is_negative :: "uint256_t \<Rightarrow> bool" where
  "uint256_is_negative a \<longleftrightarrow> drop_bit 63 (limb3 a) \<noteq> 0"

definition uint256_slt :: "uint256_t \<Rightarrow> uint256_t \<Rightarrow> bool" where
  "uint256_slt a b =
     (let a_neg = uint256_is_negative a; b_neg = uint256_is_negative b
      in if a_neg \<noteq> b_neg then a_neg else uint256_lt a b)"

definition uint256_sgt :: "uint256_t \<Rightarrow> uint256_t \<Rightarrow> bool" where
  "uint256_sgt a b = uint256_slt b a"

section \<open>Multiplication\<close>

definition uint256_mul :: "uint256_t \<Rightarrow> uint256_t \<Rightarrow> uint256_t" where
  "uint256_mul a b =
     (let p00 = to_u128 (limb0 a) * to_u128 (limb0 b);
          p01 = to_u128 (limb0 a) * to_u128 (limb1 b);
          p10 = to_u128 (limb1 a) * to_u128 (limb0 b);
          p02 = to_u128 (limb0 a) * to_u128 (limb2 b);
          p11 = to_u128 (limb1 a) * to_u128 (limb1 b);
          p20 = to_u128 (limb2 a) * to_u128 (limb0 b);
          r0 = lo64 p00;
          col1 = drop_bit 64 p00 + to_u128 (lo64 p01) + to_u128 (lo64 p10);
          r1 = lo64 col1;
          col2 = drop_bit 64 col1 + drop_bit 64 p01 + drop_bit 64 p10 +
                 to_u128 (lo64 p02) + to_u128 (lo64 p11) + to_u128 (lo64 p20);
          r2 = lo64 col2;
          r3 = lo64 (drop_bit 64 col2) + lo64 (drop_bit 64 p02) + lo64 (drop_bit 64 p11) +
               lo64 (drop_bit 64 p20) + (limb0 a * limb3 b) + (limb1 a * limb2 b) +
               (limb2 a * limb1 b) + (limb3 a * limb0 b)
      in uint256_from_limbs r0 r1 r2 r3)"

section \<open>Bitwise operations\<close>

definition uint256_and :: "uint256_t \<Rightarrow> uint256_t \<Rightarrow> uint256_t" where
  "uint256_and a b = uint256_from_limbs (limb0 a AND limb0 b) (limb1 a AND limb1 b)
     (limb2 a AND limb2 b) (limb3 a AND limb3 b)"

definition uint256_or :: "uint256_t \<Rightarrow> uint256_t \<Rightarrow> uint256_t" where
  "uint256_or a b = uint256_from_limbs (limb0 a OR limb0 b) (limb1 a OR limb1 b)
     (limb2 a OR limb2 b) (limb3 a OR limb3 b)"

definition uint256_xor :: "uint256_t \<Rightarrow> uint256_t \<Rightarrow> uint256_t" where
  "uint256_xor a b = uint256_from_limbs (limb0 a XOR limb0 b) (limb1 a XOR limb1 b)
     (limb2 a XOR limb2 b) (limb3 a XOR limb3 b)"

definition uint256_not :: "uint256_t \<Rightarrow> uint256_t" where
  "uint256_not a = uint256_from_limbs (NOT (limb0 a)) (NOT (limb1 a)) (NOT (limb2 a))
     (NOT (limb3 a))"

definition uint256_byte :: "uint256_t \<Rightarrow> uint256_t \<Rightarrow> uint256_t" where
  "uint256_byte index v =
     (if \<not> uint256_fits_u64 index \<or> limb0 index \<ge> 32 then uint256_zero
      else
        let idx = limb0 index;
            le_byte_idx = 31 - idx;
            limb_idx = le_byte_idx div 8;
            byte_in_limb = le_byte_idx mod 8;
            byte_val = to_u8 (drop_bit (unat (byte_in_limb * 8)) (limbs v ! unat limb_idx) AND 0xFF)
        in uint256_from_u64 (u8_to_u64 byte_val))"

definition uint256_negate :: "uint256_t \<Rightarrow> uint256_t" where
  "uint256_negate a =
     (let not_a = uint256_from_limbs (NOT (limb0 a)) (NOT (limb1 a)) (NOT (limb2 a)) (NOT (limb3 a))
      in uint256_add not_a (uint256_from_u64 1))"

section \<open>Shifts\<close>

text \<open>The loops run over an index, writing the limbs of a result that starts at zero.\<close>

definition uint256_shl :: "uint256_t \<Rightarrow> uint256_t \<Rightarrow> uint256_t" where
  "uint256_shl shift v =
     (if \<not> uint256_fits_u64 shift \<or> limb0 shift \<ge> 256 then uint256_zero
      else if limb0 shift = 0 then v
      else
        let s = limb0 shift;
            limb_shift = unat (s div 64);
            bit_shift = unat (s mod 64);
            inv_bit_shift = 64 - bit_shift
        in of_limbs
             (if bit_shift = 0
              then foldl (\<lambda>r i. r[i := limbs v ! (i - limb_shift)]) [0, 0, 0, 0] [limb_shift..<4]
              else foldl (\<lambda>r i.
                     let src_idx = i - limb_shift;
                         x = push_bit bit_shift (limbs v ! src_idx);
                         x = (if src_idx > 0
                              then x OR drop_bit inv_bit_shift (limbs v ! (src_idx - 1)) else x)
                     in r[i := x]) [0, 0, 0, 0] [limb_shift..<4]))"

definition uint256_shr :: "uint256_t \<Rightarrow> uint256_t \<Rightarrow> uint256_t" where
  "uint256_shr shift v =
     (if \<not> uint256_fits_u64 shift \<or> limb0 shift \<ge> 256 then uint256_zero
      else if limb0 shift = 0 then v
      else
        let s = limb0 shift;
            limb_shift = unat (s div 64);
            bit_shift = unat (s mod 64);
            inv_bit_shift = 64 - bit_shift
        in of_limbs
             (if bit_shift = 0
              then foldl (\<lambda>r i. r[i := limbs v ! (i + limb_shift)]) [0, 0, 0, 0] [0..<4 - limb_shift]
              else foldl (\<lambda>r i.
                     let src_idx = i + limb_shift;
                         x = drop_bit bit_shift (limbs v ! src_idx);
                         x = (if src_idx + 1 < 4
                              then x OR push_bit inv_bit_shift (limbs v ! (src_idx + 1)) else x)
                     in r[i := x]) [0, 0, 0, 0] [0..<4 - limb_shift]))"

definition uint256_sar :: "uint256_t \<Rightarrow> uint256_t \<Rightarrow> uint256_t" where
  "uint256_sar shift v =
     (let is_negative = uint256_is_negative v
      in if \<not> uint256_fits_u64 shift \<or> limb0 shift \<ge> 256
         then (if is_negative then uint256_from_limbs (NOT 0) (NOT 0) (NOT 0) (NOT 0)
               else uint256_zero)
         else if limb0 shift = 0 then v
         else
           let result = uint256_shr shift v
           in if is_negative
              then let s = limb0 shift
                   in if s > 0 \<and> s < 256
                      then let first_clear_bit = 255 - s + 1;
                               first_limb = unat (first_clear_bit div 64);
                               bit_in_limb = unat (first_clear_bit mod 64);
                               ls = (if bit_in_limb > 0
                                     then let mask = NOT (push_bit bit_in_limb 1 - 1)
                                          in (limbs result)
                                               [first_limb := (limbs result ! first_limb) OR mask]
                                     else limbs result)
                           in of_limbs (foldl (\<lambda>r i. r[i := NOT 0]) ls
                                [first_limb + (if bit_in_limb > 0 then 1 else 0)..<4])
                      else result
              else result)"

definition uint256_signextend :: "uint256_t \<Rightarrow> uint256_t \<Rightarrow> uint256_t" where
  "uint256_signextend byte_pos x =
     (if limb1 byte_pos \<noteq> 0 \<or> limb2 byte_pos \<noteq> 0 \<or> limb3 byte_pos \<noteq> 0 \<or> limb0 byte_pos \<ge> 31
      then x
      else
        let pos = limb0 byte_pos;
            bit_index = unat (8 * pos + 7);
            limb_index = bit_index div 64;
            bit_in_limb = bit_index mod 64;
            sign_bit = (drop_bit bit_in_limb (limbs x ! limb_index) AND 1) \<noteq> 0
        in if \<not> sign_bit
           then let limb_mask = (if bit_in_limb = 63 then NOT 0
                                 else push_bit (bit_in_limb + 1) 1 - 1);
                    ls = (limbs x)[limb_index := (limbs x ! limb_index) AND limb_mask]
                in of_limbs (foldl (\<lambda>r i. r[i := 0]) ls [limb_index + 1..<4])
           else let limb_mask = (if bit_in_limb = 63 then 0
                                 else NOT (push_bit (bit_in_limb + 1) 1 - 1));
                    ls = (limbs x)[limb_index := (limbs x ! limb_index) OR limb_mask]
                in of_limbs (foldl (\<lambda>r i. r[i := NOT 0]) ls [limb_index + 1..<4]))"

text \<open>The \<open>while\<close> loop of \<open>uint256_byte_length\<close> over the bytes of a limb, then the limbs.\<close>

fun byte_pos_from :: "nat \<Rightarrow> u64 \<Rightarrow> int" where
  "byte_pos_from 0 limb = - 1"
| "byte_pos_from (Suc k) limb =
     (if drop_bit (k * 8) limb AND 0xFF = 0 then byte_pos_from k limb else int k)"

definition uint256_byte_length :: "uint256_t \<Rightarrow> nat" where
  "uint256_byte_length v =
     (if limb3 v \<noteq> 0 then nat (3 * 8 + byte_pos_from 8 (limb3 v) + 1)
      else if limb2 v \<noteq> 0 then nat (2 * 8 + byte_pos_from 8 (limb2 v) + 1)
      else if limb1 v \<noteq> 0 then nat (1 * 8 + byte_pos_from 8 (limb1 v) + 1)
      else if limb0 v \<noteq> 0 then nat (0 * 8 + byte_pos_from 8 (limb0 v) + 1)
      else 0)"

section \<open>Abstraction\<close>

definition uval :: "uint256_t \<Rightarrow> int" where
  "uval a = uint (limb0 a) + 2 ^ 64 * uint (limb1 a) + 2 ^ 128 * uint (limb2 a) +
     2 ^ 192 * uint (limb3 a)"

definition w256 :: "uint256_t \<Rightarrow> u256" where
  "w256 a = word_of_int (uval a)"

section \<open>The value of a 256-bit integer\<close>

lemma limbs_sel [simp]:
  "limb0 (uint256_from_limbs a b c d) = a" "limb1 (uint256_from_limbs a b c d) = b"
  "limb2 (uint256_from_limbs a b c d) = c" "limb3 (uint256_from_limbs a b c d) = d"
  by (simp_all add: uint256_from_limbs_def)

lemma length_limbs [simp]: "length (limbs a) = 4"
  by (simp add: limbs_def)

lemma limbs_nth:
  "limbs a ! 0 = limb0 a" "limbs a ! Suc 0 = limb1 a" "limbs a ! 1 = limb1 a"
  "limbs a ! 2 = limb2 a" "limbs a ! 3 = limb3 a"
  by (simp_all add: limbs_def)

lemma limbs_of_limbs: "length ls = 4 \<Longrightarrow> limbs (of_limbs ls) = ls"
  by (auto simp: limbs_def of_limbs_def four_Suc length_Suc_conv)

lemma of_limbs_limbs [simp]: "of_limbs (limbs a) = a"
  by (simp add: limbs_def of_limbs_def uint256_from_limbs_def)

lemma uval_limbs: "uval a = limbs_val (limbs a) 0 4"
  by (simp add: uval_def limbs_def four_Suc limbs_val_Suc)

lemma uval_of_limbs: "length ls = 4 \<Longrightarrow> uval (of_limbs ls) = limbs_val ls 0 4"
  by (simp add: uval_limbs limbs_of_limbs)

lemma uval_bounds: "0 \<le> uval a" "uval a < 2 ^ 256"
  using limbs_val_bounds [of "limbs a" 0 4] by (simp_all add: uval_limbs)

lemma uint_w256 [simp]: "uint (w256 a) = uval a"
  using uval_bounds [of a] by (simp add: w256_def uint_word_of_int mod_pos_pos_trivial)

lemma uval_inject: "uval a = uval b \<longleftrightarrow> a = b"
proof
  assume "uval a = uval b"
  then have "limbs a ! k = limbs b ! k" if "k < 4" for k
    using that limbs_val_inj [of "limbs a" 0 4 "limbs b" 0 k] by (simp add: uval_limbs)
  then have "limbs a = limbs b" by (simp add: list_eq_iff_nth_eq)
  then show "a = b" by (metis of_limbs_limbs)
qed simp

lemma w256_inject: "w256 a = w256 b \<longleftrightarrow> a = b"
  by (metis uint_w256 uval_inject)

lemma w256_eqI: "uval a = uint w \<Longrightarrow> w256 a = w"
  by (simp add: word_uint_eq_iff)

lemma limb_bounds:
  "uint (limb0 a) < 2 ^ 64" "uint (limb1 a) < 2 ^ 64" "uint (limb2 a) < 2 ^ 64"
  "uint (limb3 a) < 2 ^ 64"
  by (simp_all add: uint64_bounds)

text \<open>The bits of the value are the bits of the limbs.\<close>

lemma bit_w256: "bit (w256 a) i \<longleftrightarrow> i < 256 \<and> bit (limbs a ! (i div 64)) (i mod 64)"
  by (simp add: w256_def bit_word_of_int_iff uval_limbs bit_limbs_val)

section \<open>The contract of a binary operation\<close>

text \<open>
  An operation on the C struct implements an operation on 256-bit words.  The operations below
  are instances; the stack machine uses the contract to lift its own operations.
\<close>

locale word_binop =
  fixes f :: "uint256_t \<Rightarrow> uint256_t \<Rightarrow> uint256_t"
    and g :: "u256 \<Rightarrow> u256 \<Rightarrow> u256"
  assumes refines: "w256 (f a b) = g (w256 a) (w256 b)"
begin

lemma uval_op: "uval (f a b) = uint (g (w256 a) (w256 b))"
  by (metis refines uint_w256)

lemma op_commute:
  assumes "\<And>x y. g x y = g y x"
  shows "f a b = f b a"
  by (metis assms refines w256_inject)

lemma op_assoc:
  assumes "\<And>x y z. g (g x y) z = g x (g y z)"
  shows "f (f a b) c = f a (f b c)"
  by (metis assms refines w256_inject)

end

section \<open>Construction and tests\<close>

lemma uval_from_limbs:
  "uval (uint256_from_limbs l0 l1 l2 l3) =
     uint l0 + 2 ^ 64 * uint l1 + 2 ^ 128 * uint l2 + 2 ^ 192 * uint l3"
  by (simp add: uval_def)

lemma uval_zero [simp]: "uval uint256_zero = 0"
  by (simp add: uint256_zero_def uval_from_limbs)

lemma w256_zero [simp]: "w256 uint256_zero = 0"
  by (rule w256_eqI) simp

lemma uval_from_u64 [simp]: "uval (uint256_from_u64 x) = uint x"
  by (simp add: uint256_from_u64_def uval_from_limbs)

lemma uval_0_limbs:
  "uval a = 0 \<longleftrightarrow> limb0 a = 0 \<and> limb1 a = 0 \<and> limb2 a = 0 \<and> limb3 a = 0"
proof -
  have "uval a = 0 \<longleftrightarrow> a = uint256_zero"
    by (metis uval_inject uval_zero)
  then show ?thesis by (auto simp: uint256_zero_def uint256_from_limbs_def)
qed

lemma uint256_is_zero_iff [simp]: "uint256_is_zero a \<longleftrightarrow> uval a = 0"
  by (simp add: uint256_is_zero_def uval_0_limbs or_eq_0_iff)

lemma uval_lt_64_limbs: "uval a < 2 ^ 64 \<longleftrightarrow> limb1 a = 0 \<and> limb2 a = 0 \<and> limb3 a = 0"
proof
  assume h: "uval a < 2 ^ 64"
  note le = uint_ge_0 [of "limb0 a"] uint_ge_0 [of "limb1 a"] uint_ge_0 [of "limb2 a"]
    uint_ge_0 [of "limb3 a"] and h = h [unfolded uval_def, simplified]
  have "uint (limb1 a) = 0" using h le by linarith
  moreover have "uint (limb2 a) = 0" using h le by linarith
  moreover have "uint (limb3 a) = 0" using h le by linarith
  ultimately show "limb1 a = 0 \<and> limb2 a = 0 \<and> limb3 a = 0"
    by (simp add: word_uint_eq_iff)
qed (use limb_bounds(1) [of a] in \<open>simp add: uval_def\<close>)

lemma uint256_fits_u64_iff: "uint256_fits_u64 a \<longleftrightarrow> uval a < 2 ^ 64"
  unfolding uint256_fits_u64_def uval_lt_64_limbs by (simp add: or_eq_0_iff)

lemma fits_u64_uval: "uint256_fits_u64 a \<Longrightarrow> uval a = uint (limb0 a)"
  unfolding uint256_fits_u64_iff uval_lt_64_limbs by (simp add: uval_def)

lemma uint256_eq_iff [simp]: "uint256_eq a b \<longleftrightarrow> a = b"
  by (auto simp: uint256_eq_def or_eq_0_iff xor_self_eq word_xor_0_iff)

section \<open>Addition, subtraction, comparison\<close>

lemma add_chain_sound:
  assumes "add_chain a b = (r, carry)"
  shows "uval r + 2 ^ 256 * uint carry = uval a + uval b \<and> uint carry \<le> 1"
proof -
  obtain r0 c0 where e0: "addcll (limb0 a) (limb0 b) 0 = (r0, c0)" by fastforce
  obtain r1 c1 where e1: "addcll (limb1 a) (limb1 b) c0 = (r1, c1)" by fastforce
  obtain r2 c2 where e2: "addcll (limb2 a) (limb2 b) c1 = (r2, c2)" by fastforce
  obtain r3 c3 where e3: "addcll (limb3 a) (limb3 b) c2 = (r3, c3)" by fastforce
  have r: "r = uint256_from_limbs r0 r1 r2 r3" "carry = c3"
    using assms by (simp_all add: add_chain_def e0 e1 e2 e3)
  note s0 = addcll_sound [OF e0, simplified]
  note s1 = addcll_sound [OF e1 conjunct2 [OF s0], simplified]
  note s2 = addcll_sound [OF e2 conjunct2 [OF s1], simplified]
  note s3 = addcll_sound [OF e3 conjunct2 [OF s2], simplified]
  show ?thesis using s0 s1 s2 s3 by (simp add: r uval_from_limbs uval_def)
qed

lemma uval_add: "uval (uint256_add a b) = (uval a + uval b) mod 2 ^ 256"
proof -
  obtain r c where e: "add_chain a b = (r, c)" by fastforce
  have "(uval a + uval b) mod 2 ^ 256 = (uval r + 2 ^ 256 * uint c) mod 2 ^ 256"
    using add_chain_sound [OF e] by simp
  also have "\<dots> = uval r" using uval_bounds [of r] by (simp add: mod_pos_pos_trivial)
  finally show ?thesis by (simp add: uint256_add_def e)
qed

lemma uval_sub: "uval (uint256_sub a b) = (uval a - uval b) mod 2 ^ 256"
proof -
  obtain r0 c0 where e0: "subcll (limb0 a) (limb0 b) 0 = (r0, c0)" by fastforce
  obtain r1 c1 where e1: "subcll (limb1 a) (limb1 b) c0 = (r1, c1)" by fastforce
  obtain r2 c2 where e2: "subcll (limb2 a) (limb2 b) c1 = (r2, c2)" by fastforce
  obtain r3 c3 where e3: "subcll (limb3 a) (limb3 b) c2 = (r3, c3)" by fastforce
  define r where "r = uint256_from_limbs r0 r1 r2 r3"
  have r: "uint256_sub a b = r"
    by (simp add: uint256_sub_def e0 e1 e2 e3 r_def)
  note s0 = subcll_sound [OF e0, simplified]
  note s1 = subcll_sound [OF e1 conjunct2 [OF s0], simplified]
  note s2 = subcll_sound [OF e2 conjunct2 [OF s1], simplified]
  note s3 = subcll_sound [OF e3 conjunct2 [OF s2], simplified]
  have eq: "uval a - uval b = uval r + 2 ^ 256 * (- uint c3)"
    using s0 s1 s2 s3 by (simp add: r_def uval_from_limbs uval_def)
  show ?thesis
    unfolding r eq mod_mult_self2 using uval_bounds [of r] by (simp add: mod_pos_pos_trivial)
qed

interpretation add: word_binop uint256_add "(+)"
  by unfold_locales (rule w256_eqI, simp add: uval_add uint_word_ariths)

interpretation sub: word_binop uint256_sub "(-)"
  by unfold_locales (rule w256_eqI, simp add: uval_sub uint_word_ariths)

text \<open>Radix comparison: the most significant differing digit decides.\<close>

lemma uint256_lt_iff: "uint256_lt a b \<longleftrightarrow> uval a < uval b"
proof -
  have uval: "uval x = uint (limb0 x) + 2 ^ 64 * (uint (limb1 x) + 2 ^ 64 * (uint (limb2 x) +
      2 ^ 64 * uint (limb3 x)))" for x
    by (simp add: uval_def)
  have less: "uint x + 2 ^ 64 * h < uint y + 2 ^ 64 * h' \<longleftrightarrow>
      (if h = h' then uint x < uint y else h < h')" for x y :: u64 and h h'
    by (rule digit_less_iff) (simp_all add: uint64_bounds)
  have eq: "uint x + 2 ^ 64 * h = uint y + 2 ^ 64 * h' \<longleftrightarrow> x = y \<and> h = h'"
    for x y :: u64 and h h'
    using digit_eq_iff [of "uint x" "2 ^ 64" "uint y" h h']
    by (simp add: uint64_bounds word_uint_eq_iff)
  show ?thesis
    unfolding uint256_lt_def uval less eq by (auto simp: word_less_def word_uint_eq_iff)
qed

lemma uint256_lt_word: "uint256_lt a b \<longleftrightarrow> w256 a < w256 b"
  by (simp add: uint256_lt_iff word_less_def)

lemma is_negative_bit: "uint256_is_negative a \<longleftrightarrow> bit (w256 a) 255"
proof -
  have "drop_bit 63 (limb3 a) \<noteq> 0 \<longleftrightarrow> bit (limb3 a) 63"
  proof
    assume "drop_bit 63 (limb3 a) \<noteq> 0"
    then obtain i where "bit (drop_bit 63 (limb3 a)) i" by (auto simp: bit_eq_iff)
    then have "bit (limb3 a) (63 + i)" by (simp add: bit_drop_bit_eq)
    moreover from this have "63 + i < 64" using bit_imp_le_length by fastforce
    ultimately show "bit (limb3 a) 63" by simp
  next
    assume "bit (limb3 a) 63"
    then have "bit (drop_bit 63 (limb3 a)) 0" by (simp add: bit_drop_bit_eq)
    then show "drop_bit 63 (limb3 a) \<noteq> 0" by auto
  qed
  then show ?thesis by (simp add: uint256_is_negative_def bit_w256 limbs_nth)
qed

lemma sint_w256: "sint (w256 a) = (if uint256_is_negative a then uval a - 2 ^ 256 else uval a)"
proof -
  have "sint (w256 a) = signed_take_bit 255 (uval a)"
    by (simp add: sint_uint)
  also have "\<dots> = (if bit (uval a) 255 then uval a - 2 ^ 256 else uval a)"
    using uval_bounds [of a]
    by (auto simp: signed_take_bit_eq_take_bit_minus take_bit_int_eq_self)
  finally show ?thesis by (simp add: is_negative_bit w256_def bit_word_of_int_iff)
qed

lemma is_negative_uval: "uint256_is_negative a \<longleftrightarrow> 2 ^ 255 \<le> uval a"
  using sint_w256 [of a] sint_lt [of "w256 a"] sint_ge [of "w256 a"] uval_bounds [of a]
  by (auto split: if_splits)

lemma uint256_slt_word: "uint256_slt a b \<longleftrightarrow> w256 a <s w256 b"
  using uval_bounds [of a] uval_bounds [of b]
  by (auto simp: uint256_slt_def Let_def word_sless_alt sint_w256 uint256_lt_iff is_negative_uval)

section \<open>Multiplication\<close>

lemma radix_columns:
  fixes p00 p01 p10 p02 p11 p20 t B :: int
  assumes c1: "c1 = p00 div B + p01 mod B + p10 mod B"
    and c2: "c2 = c1 div B + p01 div B + p10 div B + p02 mod B + p11 mod B + p20 mod B"
    and c3: "c3 = c2 div B + p02 div B + p11 div B + p20 div B + t"
  shows "(p00 mod B + B * (c1 mod B) + B ^ 2 * (c2 mod B) + B ^ 3 * (c3 mod B)) mod B ^ 4 =
    (p00 + B * (p01 + p10) + B ^ 2 * (p02 + p11 + p20) + B ^ 3 * t) mod B ^ 4"
proof (rule mod_congI)
  have m: "x mod B = x - B * (x div B)" for x by (simp add: minus_mult_div_eq_mod)
  have "c1 = p00 div B + (p01 - B * (p01 div B)) + (p10 - B * (p10 div B))"
    unfolding c1 m by simp
  moreover have "c2 = c1 div B + p01 div B + p10 div B + (p02 - B * (p02 div B)) +
      (p11 - B * (p11 div B)) + (p20 - B * (p20 div B))"
    unfolding c2 m by simp
  ultimately show "p00 mod B + B * (c1 mod B) + B ^ 2 * (c2 mod B) + B ^ 3 * (c3 mod B) =
    p00 + B * (p01 + p10) + B ^ 2 * (p02 + p11 + p20) + B ^ 3 * t + B ^ 4 * (- (c3 div B))"
    using c3 unfolding m by algebra
qed

lemma uval_mul: "uval (uint256_mul a b) = uval a * uval b mod 2 ^ 256"
proof -
  define B :: int where "B = 2 ^ 64"
  define P where "P i j = uint (limbs a ! i) * uint (limbs b ! j)" for i j
  define p :: "nat \<Rightarrow> nat \<Rightarrow> u128" where "p i j = to_u128 (limbs a ! i) * to_u128 (limbs b ! j)" for i j
  have p: "uint (p i j) = P i j" for i j by (simp add: p_def P_def uint_mult_to_u128)
  define col1 where "col1 = drop_bit 64 (p 0 0) + to_u128 (lo64 (p 0 1)) + to_u128 (lo64 (p 1 0))"
  define col2 where "col2 = drop_bit 64 col1 + drop_bit 64 (p 0 1) + drop_bit 64 (p 1 0) +
    to_u128 (lo64 (p 0 2)) + to_u128 (lo64 (p 1 1)) + to_u128 (lo64 (p 2 0))"
  define t where "t = P 0 3 + P 1 2 + P 2 1 + P 3 0"
  define c3 where "c3 = uint col2 div B + P 0 2 div B + P 1 1 div B + P 2 0 div B + t"
  have lo: "uint (lo64 x) = uint x mod B" "uint (drop_bit 64 x) = uint x div B" for x
    by (simp_all add: uint_lo64 uint_shr B_def)
  have small: "uint (lo64 x) < 2 ^ 64" "uint (drop_bit 64 x) < 2 ^ 64" for x
    by (simp_all add: uint64_bounds uint_shr64_less [simplified])
  have c1: "uint col1 = P 0 0 div B + P 0 1 mod B + P 1 0 mod B"
    unfolding col1_def using small(1) [of "p 0 1"] small(1) [of "p 1 0"] small(2) [of "p 0 0"]
    by (simp add: uint_add_nowrap lo p)
  have c2: "uint col2 = uint col1 div B + P 0 1 div B + P 1 0 div B + P 0 2 mod B +
      P 1 1 mod B + P 2 0 mod B"
    unfolding col2_def using small(1) [of "p 0 2"] small(1) [of "p 1 1"] small(1) [of "p 2 0"]
      small(2) [of "col1"] small(2) [of "p 0 1"] small(2) [of "p 1 0"]
    by (simp add: uint_add_nowrap lo p)
  define s where "s = lo64 (drop_bit 64 col2) + lo64 (drop_bit 64 (p 0 2)) +
      lo64 (drop_bit 64 (p 1 1)) + lo64 (drop_bit 64 (p 2 0)) + limb0 a * limb3 b +
      limb1 a * limb2 b + limb2 a * limb1 b + limb3 a * limb0 b"
  have "s = of_int c3"
    unfolding s_def c3_def B_def p [symmetric] uint_lo64_shr64 [symmetric]
    by (simp add: t_def P_def limbs_nth)
  then have r3: "uint s = c3 mod B" by (simp add: uint_word_of_int B_def)
  have "uval (uint256_mul a b) = P 0 0 mod B + B * (uint col1 mod B) + B ^ 2 * (uint col2 mod B) +
      B ^ 3 * (c3 mod B)" (is "_ = ?r")
    unfolding uint256_mul_def Let_def uval_from_limbs r3 [symmetric]
    by (simp add: s_def col1_def col2_def p [symmetric] uint_lo64 p_def limbs_nth B_def)
  moreover have "uval a * uval b = P 0 0 + B * (P 0 1 + P 1 0) + B ^ 2 * (P 0 2 + P 1 1 + P 2 0) +
      B ^ 3 * t + B ^ 4 * (P 1 3 + P 2 2 + P 3 1 + B * (P 2 3 + P 3 2) + B ^ 2 * P 3 3)"
    by (simp add: uval_def P_def t_def B_def limbs_nth algebra_simps)
  ultimately have "uval (uint256_mul a b) mod B ^ 4 = uval a * uval b mod B ^ 4"
    using radix_columns [OF c1 c2 c3_def] by simp
  then show ?thesis
    using uval_bounds [of "uint256_mul a b"] by (simp add: B_def mod_pos_pos_trivial)
qed

interpretation mul: word_binop uint256_mul "(*)"
  by unfold_locales (rule w256_eqI, simp add: uval_mul uint_word_ariths)

section \<open>Bitwise operations\<close>

lemma limbs_from_limbs: "limbs (uint256_from_limbs a b c d) = [a, b, c, d]"
  by (simp add: limbs_def)

lemma limbs_map2:
  assumes "k < 4"
  shows "[f (limb0 a) (limb0 b), f (limb1 a) (limb1 b), f (limb2 a) (limb2 b),
    f (limb3 a) (limb3 b)] ! k = f (limbs a ! k) (limbs b ! k)"
  using assms by (auto simp: limbs_def less_Suc_eq four_Suc)

lemma w256_limbwise:
  assumes "\<And>k. k < 4 \<Longrightarrow> limbs r ! k = f (limbs a ! k) (limbs b ! k)"
    and "\<And>i. i < 256 \<Longrightarrow> bit (g (w256 a) (w256 b)) i \<longleftrightarrow> F (bit (w256 a) i) (bit (w256 b) i)"
    and "\<And>x y i. i < 64 \<Longrightarrow> bit (f x y) i \<longleftrightarrow> F (bit x i) (bit y i)"
  shows "w256 r = g (w256 a) (w256 b)"
proof (rule bit_word_eqI)
  fix i assume "i < LENGTH(256)"
  then show "bit (w256 r) i = bit (g (w256 a) (w256 b)) i"
    by (simp add: assms bit_w256 less_mult_imp_div_less)
qed

interpretation and_: word_binop uint256_and "(AND)"
  by unfold_locales (rule w256_limbwise [where f = "(AND)" and F = "(\<and>)"],
    simp_all add: bit_and_iff uint256_and_def limbs_map2 limbs_from_limbs)

interpretation or_: word_binop uint256_or "(OR)"
  by unfold_locales (rule w256_limbwise [where f = "(OR)" and F = "(\<or>)"],
    simp_all add: bit_or_iff uint256_or_def limbs_map2 limbs_from_limbs)

interpretation xor_: word_binop uint256_xor "(XOR)"
  by unfold_locales (rule w256_limbwise [where f = "(XOR)" and F = "(\<noteq>)"],
    simp_all add: bit_xor_iff uint256_xor_def limbs_map2 limbs_from_limbs)

lemma w256_not: "w256 (uint256_not a) = NOT (w256 a)"
  by (rule w256_limbwise [where f = "\<lambda>x _. NOT x" and F = "\<lambda>x _. \<not> x" and g = "\<lambda>x _. NOT x"
        and b = uint256_zero])
    (simp_all add: bit_not_iff uint256_not_def limbs_map2 [where f = "\<lambda>x _. NOT x" and b = uint256_zero] limbs_from_limbs)

lemma w256_negate: "w256 (uint256_negate a) = - w256 a"
proof -
  have "uint256_negate a = uint256_add (uint256_not a) (uint256_from_u64 1)"
    by (simp add: uint256_negate_def uint256_not_def)
  moreover have "w256 (uint256_from_u64 1) = 1" by (rule w256_eqI) simp
  ultimately show ?thesis by (simp add: add.refines w256_not minus_eq_not_plus_1)
qed

lemma uval_negate: "uval (uint256_negate a) = (- uval a) mod 2 ^ 256"
  using arg_cong [OF w256_negate [of a], of uint] by (simp add: uint_word_ariths)

section \<open>Shifts\<close>

lemma unat_w256: "unat (w256 a) = nat (uval a)"
  by (metis nat_uint_eq uint_w256)

lemma unat_w256_small: "uint256_fits_u64 a \<Longrightarrow> unat (w256 a) = unat (limb0 a)"
  by (simp add: unat_w256 fits_u64_uval)

text \<open>The shift guard: either the count is a small one, or shifting leaves nothing.\<close>

lemma shift_guard_gen:
  "\<not> uint256_fits_u64 s \<or> c \<le> limb0 s \<longleftrightarrow> unat c \<le> unat (w256 s)"
proof (cases "uint256_fits_u64 s")
  case True
  then show ?thesis by (simp add: unat_w256_small word_le_nat_alt)
next
  case False
  then have "2 ^ 64 \<le> uval s" by (simp add: uint256_fits_u64_iff)
  moreover have "uint c < 2 ^ 64" using uint64_bounds(2) [of c] by simp
  ultimately have "unat c \<le> nat (uval s)" by (simp add: le_nat_iff)
  with False show ?thesis by (simp add: unat_w256)
qed

lemmas shift_guard = shift_guard_gen [of _ 256, simplified]

lemma shift_small: "unat (w256 s) < 256 \<Longrightarrow> unat (limb0 s) = unat (w256 s)"
  using shift_guard [of s] by (auto simp: unat_w256_small)

lemma limbs_foldl_upd:
  "length r = 4 \<Longrightarrow> k < 4 \<Longrightarrow> limbs (of_limbs (foldl (\<lambda>r i. r[i := f i]) r is)) ! k =
     (if k \<in> set is then f k else r ! k)"
  by (simp add: limbs_of_limbs foldl_upd_nth)

lemma limbs_foldl_upd0:
  "k < 4 \<Longrightarrow> limbs (of_limbs (foldl (\<lambda>r i. r[i := f i]) [0, 0, 0, 0] is)) ! k =
     (if k \<in> set is then f k else 0)"
  using limbs_foldl_upd [of "[0, 0, 0, 0]" k f "is"] nth_zeros [of k] by simp

lemma shl_limb:
  assumes "unat (w256 s) < 256" "limb0 s \<noteq> 0" "k < 4"
  shows "limbs (uint256_shl s v) ! k =
    (let n = unat (w256 s); ls = n div 64; bs = n mod 64
     in if k < ls then 0
        else push_bit bs (limbs v ! (k - ls)) OR
             (if bs \<noteq> 0 \<and> ls < k then drop_bit (64 - bs) (limbs v ! (k - ls - 1)) else 0))"
  using assms shift_guard [of s]
  by (auto simp: uint256_shl_def Let_def unat_div_mod_64 shift_small limbs_foldl_upd0)

lemma shr_limb:
  assumes "unat (w256 s) < 256" "limb0 s \<noteq> 0" "k < 4"
  shows "limbs (uint256_shr s v) ! k =
    (let n = unat (w256 s); ls = n div 64; bs = n mod 64
     in if 4 \<le> k + ls then 0
        else drop_bit bs (limbs v ! (k + ls)) OR
             (if bs \<noteq> 0 \<and> k + ls < 3 then push_bit (64 - bs) (limbs v ! (k + ls + 1)) else 0))"
  using assms shift_guard [of s]
  by (auto simp: uint256_shr_def Let_def unat_div_mod_64 shift_small limbs_foldl_upd0)

lemma limb0_zero_shift: "unat (w256 s) < 256 \<Longrightarrow> limb0 s = 0 \<longleftrightarrow> unat (w256 s) = 0"
  using shift_small [of s] by (metis unat_0 unat_eq_zero)

lemma bit_shl:
  assumes n: "unat (w256 s) < 256" "limb0 s \<noteq> 0" and i: "i < 256"
  shows "bit (limbs (uint256_shl s v) ! (i div 64)) (i mod 64) \<longleftrightarrow>
    unat (w256 s) \<le> i \<and> bit (w256 v) (i - unat (w256 s))"
proof -
  define n where "n = unat (w256 s)"
  have bits: "n mod 64 < 64" "i mod 64 < 64" by simp_all
  have split: "i = 64 * (i div 64) + i mod 64" "n = 64 * (n div 64) + n mod 64" by simp_all
  show ?thesis
  proof (cases "n \<le> i")
    case True
    then have le: "\<not> i div 64 < n div 64" by (simp add: div_le_mono not_less)
    have lt: "n div 64 < i div 64" if "\<not> n mod 64 \<le> i mod 64" using that True split by linarith
    have "i - n < 256" using i by simp
    then show ?thesis
      unfolding shl_limb [OF n div64_less [OF i]] n_def [symmetric] Let_def bit_w256
      by (simp only: le if_False shl_limb_bit [OF bits] bit_index_sub [OF True])
        (simp add: True lt)
  next
    case False
    then consider "i div 64 < n div 64" | "\<not> i div 64 < n div 64" "\<not> n div 64 < i div 64"
      "\<not> n mod 64 \<le> i mod 64"
      using split by linarith
    then show ?thesis
      unfolding shl_limb [OF n div64_less [OF i]] n_def [symmetric] Let_def
      by cases (simp_all add: False bit_push_bit_iff)
  qed
qed

lemma w256_shl: "w256 (uint256_shl s v) = push_bit (unat (w256 s)) (w256 v)"
proof (cases "unat (w256 s) < 256")
  case False
  then have "uint256_shl s v = uint256_zero"
    using shift_guard [of s] by (simp add: uint256_shl_def)
  with False show ?thesis by (simp add: push_bit_word_beyond)
next
  case True
  show ?thesis
  proof (cases "limb0 s = 0")
    case zero: True
    then have "uint256_shl s v = v" using True shift_guard [of s] by (simp add: uint256_shl_def)
    with zero True show ?thesis by (simp add: limb0_zero_shift)
  next
    case False
    show ?thesis
      by (rule bit_word_eqI) (simp add: bit_w256 [of "uint256_shl s v"] bit_shl [OF True False]
          bit_push_bit_iff)
  qed
qed

interpretation shl: word_binop uint256_shl "\<lambda>n v. push_bit (unat n) v"
  by unfold_locales (rule w256_shl)

lemma bit_shr:
  assumes n: "unat (w256 s) < 256" "limb0 s \<noteq> 0" and i: "i < 256"
  shows "bit (limbs (uint256_shr s v) ! (i div 64)) (i mod 64) \<longleftrightarrow> bit (w256 v) (i + unat (w256 s))"
proof -
  define n where "n = unat (w256 s)"
  have bits: "n mod 64 < 64" "i mod 64 < 64" by simp_all
  have lt: "i + n < 256 \<longleftrightarrow> (i + n) div 64 < 4" by linarith
  show ?thesis
    unfolding shr_limb [OF n div64_less [OF i]] n_def [symmetric] Let_def bit_w256 lt
    by (cases "4 \<le> i div 64 + n div 64")
      (simp add: bit_index_add, simp only: if_False shr_limb_bit [OF bits] bit_index_add, simp)
qed

lemma w256_shr: "w256 (uint256_shr s v) = drop_bit (unat (w256 s)) (w256 v)"
proof (cases "unat (w256 s) < 256")
  case False
  then have "uint256_shr s v = uint256_zero"
    using shift_guard [of s] by (simp add: uint256_shr_def)
  with False show ?thesis by (simp add: drop_bit_word_beyond)
next
  case True
  show ?thesis
  proof (cases "limb0 s = 0")
    case zero: True
    then have "uint256_shr s v = v" using True shift_guard [of s] by (simp add: uint256_shr_def)
    with zero True show ?thesis by (simp add: limb0_zero_shift)
  next
    case False
    show ?thesis
      by (rule bit_word_eqI) (simp add: bit_w256 [of "uint256_shr s v"] bit_shr [OF True False]
          bit_drop_bit_eq add.commute)
  qed
qed

interpretation shr: word_binop uint256_shr "\<lambda>n v. drop_bit (unat n) v"
  by unfold_locales (rule w256_shr)

text \<open>Writing ones from bit \<open>m\<close> on, as \<open>uint256_sar\<close> and \<open>uint256_signextend\<close> do.\<close>

lemma fill_high_bits:
  fixes ls :: "u64 list"
  assumes ls: "length ls = 4" and m: "fl = m div 64" "bl = m mod 64" and i: "i < 256"
    and part: "ls' = (if bl > 0 then ls[fl := (ls ! fl) OR NOT (push_bit bl 1 - 1)] else ls)"
  shows "bit (foldl (\<lambda>r i. r[i := NOT 0]) ls' [fl + (if bl > 0 then 1 else 0)..<4] ! (i div 64)) (i mod 64)
    \<longleftrightarrow> m \<le> i \<or> bit (ls ! (i div 64)) (i mod 64)"
proof -
  have len: "length ls' = 4" by (simp add: part ls)
  have k: "i div 64 < 4" using div64_less [OF i] .
  have hb: "i mod 64 < 64" by simp
  show ?thesis
    unfolding index_le_iff [of m i] m [symmetric]
    using k hb ls by (cases "bl > 0")
      (auto simp: foldl_upd_nth len part nth_upd_in bit_or_iff bit_low_mask bit_not_iff)
qed

lemma clear_high_bits:
  fixes ls :: "u64 list"
  assumes ls: "length ls = 4" and m: "fl = m div 64" "bl = m mod 64" and i: "i < 256"
    and part: "ls' = ls[fl := (ls ! fl) AND (if bl = 63 then NOT 0 else push_bit (bl + 1) 1 - 1)]"
  shows "bit (foldl (\<lambda>r i. r[i := 0]) ls' [fl + 1..<4] ! (i div 64)) (i mod 64)
    \<longleftrightarrow> i \<le> m \<and> bit (ls ! (i div 64)) (i mod 64)"
proof -
  have len: "length ls' = 4" by (simp add: part ls)
  have k: "i div 64 < 4" using div64_less [OF i] .
  have hb: "i mod 64 < 64" by simp
  show ?thesis
    unfolding index_le_iff [of i m] m [symmetric]
    using k hb ls by (cases "bl = 63")
      (auto simp: foldl_upd_nth len part nth_upd_in bit_and_iff bit_low_mask_Suc bit_not_iff)
qed

lemma set_high_bits:
  fixes ls :: "u64 list"
  assumes ls: "length ls = 4" and m: "fl = m div 64" "bl = m mod 64" and i: "i < 256"
    and part: "ls' = ls[fl := (ls ! fl) OR (if bl = 63 then 0 else NOT (push_bit (bl + 1) 1 - 1))]"
  shows "bit (foldl (\<lambda>r i. r[i := NOT 0]) ls' [fl + 1..<4] ! (i div 64)) (i mod 64)
    \<longleftrightarrow> m < i \<or> bit (ls ! (i div 64)) (i mod 64)"
proof -
  have len: "length ls' = 4" by (simp add: part ls)
  have k: "i div 64 < 4" using div64_less [OF i] .
  have hb: "i mod 64 < 64" by simp
  have "bl < 64" by (simp add: m)
  then show ?thesis
    unfolding not_le [symmetric] index_le_iff [of i m] m [symmetric]
    using k hb ls by (cases "bl = 63")
      (auto simp: foldl_upd_nth len part nth_upd_in bit_or_iff bit_low_mask_Suc bit_not_iff)
qed

lemma w256_eq_bitI:
  assumes "\<And>i. i < 256 \<Longrightarrow> bit (limbs a ! (i div 64)) (i mod 64) \<longleftrightarrow> bit w i"
  shows "w256 a = w"
  by (rule bit_word_eqI) (simp add: bit_w256 assms)

lemma bit_all_ones: "i < 256 \<Longrightarrow>
  bit (limbs (uint256_from_limbs (NOT 0) (NOT 0) (NOT 0) (NOT 0)) ! (i div 64)) (i mod 64)"
  by (rule div64_cases [of i]) (simp_all add: limbs_from_limbs bit_not_iff)

lemma first_clear_bit: "s < 256 \<Longrightarrow> unat (255 - s + 1 :: u64) = 256 - unat s"
  by (simp add: unat_word_ariths word_less_nat_alt unat_sub_if' ) 

lemma bit_signed_drop_bit_256:
  fixes w :: u256
  assumes "i < 256"
  shows "bit (signed_drop_bit n w) i \<longleftrightarrow> (if 256 \<le> i + n then bit w 255 else bit w (i + n))"
proof -
  have "bit (signed_drop_bit n w) i \<longleftrightarrow> bit w (if 256 - n \<le> i \<and> i < 256 then 255 else n + i)"
    by (subst bit_signed_drop_bit_iff) (simp only: len_num0 len_bit0 len_bit1 len_num1, simp)
  moreover have "256 - n \<le> i \<longleftrightarrow> 256 \<le> i + n" by linarith
  ultimately show ?thesis using assms by (simp add: add.commute)
qed

lemma sar_negative_limbs:
  assumes "unat (w256 s) < 256" "limb0 s \<noteq> 0" "uint256_is_negative v" "i < 256"
  shows "bit (limbs (uint256_sar s v) ! (i div 64)) (i mod 64) \<longleftrightarrow>
    256 - unat (w256 s) \<le> i \<or> bit (limbs (uint256_shr s v) ! (i div 64)) (i mod 64)"
proof -
  have lt: "limb0 s < 256" and fc: "unat (255 - limb0 s + 1) = 256 - unat (w256 s)"
    using assms(1) shift_guard [of s] first_clear_bit [of "limb0 s"] shift_small [of s] by auto
  have pos: "limb0 s > 0" using assms(2) by (simp add: word_gt_0)
  show ?thesis
    using assms shift_guard [of s] pos lt fill_high_bits
      [OF length_limbs [of "uint256_shr s v"] refl refl assms(4) refl, of "256 - unat (w256 s)"]
    unfolding uint256_sar_def Let_def
    by (simp only: unat_div_mod_64 fc) (simp add: limbs_of_limbs split: if_splits)
qed

lemma w256_sar: "w256 (uint256_sar s v) = signed_drop_bit (unat (w256 s)) (w256 v)"
proof (rule w256_eq_bitI)
  fix i :: nat assume i: "i < 256"
  define n where "n = unat (w256 s)"
  have neg: "uint256_is_negative v \<longleftrightarrow> bit (w256 v) 255" by (rule is_negative_bit)
  note rhs = bit_signed_drop_bit_256 [OF i, of n "w256 v"]
  show "bit (limbs (uint256_sar s v) ! (i div 64)) (i mod 64) \<longleftrightarrow>
      bit (signed_drop_bit (unat (w256 s)) (w256 v)) i"
    unfolding n_def [symmetric] rhs
  proof (cases "n < 256")
    case False
    then show "bit (limbs (uint256_sar s v) ! (i div 64)) (i mod 64) \<longleftrightarrow>
        (if 256 \<le> i + n then bit (w256 v) 255 else bit (w256 v) (i + n))"
      using shift_guard [of s] i bit_all_ones [OF i]
      by (auto simp: n_def uint256_sar_def neg uint256_zero_def limbs_from_limbs nth_zeros div64_less)
  next
    case True
    note shr = bit_shr [OF True [unfolded n_def] _ i]
    show "bit (limbs (uint256_sar s v) ! (i div 64)) (i mod 64) \<longleftrightarrow>
        (if 256 \<le> i + n then bit (w256 v) 255 else bit (w256 v) (i + n))"
    proof (cases "limb0 s = 0")
      case True
      with \<open>n < 256\<close> show ?thesis
        using shift_guard [of s] i limb0_zero_shift [of s]
        by (simp add: n_def uint256_sar_def Let_def bit_w256)
    next
      case False
      have out: "256 \<le> i + n \<Longrightarrow> \<not> bit (w256 v) (i + n)" by (simp add: bit_w256)
      show ?thesis
      proof (cases "uint256_is_negative v")
        case True
        have "256 - n \<le> i \<longleftrightarrow> 256 \<le> i + n" by linarith
        with True show ?thesis
          using sar_negative_limbs [OF \<open>n < 256\<close> [unfolded n_def] False True i] shr [OF False]
          by (auto simp: n_def neg)
      next
        case nonneg: False
        then have "uint256_sar s v = uint256_shr s v"
          using \<open>n < 256\<close> shift_guard [of s] False by (simp add: uint256_sar_def Let_def n_def)
        with nonneg shr [OF False] out show ?thesis by (auto simp: n_def neg)
      qed
    qed
  qed
qed

interpretation sar: word_binop uint256_sar "\<lambda>n v. signed_drop_bit (unat n) v"
  by unfold_locales (rule w256_sar)

section \<open>Sign extension and bytes\<close>

lemma signextend_guard:
  "limb1 b \<noteq> 0 \<or> limb2 b \<noteq> 0 \<or> limb3 b \<noteq> 0 \<or> 31 \<le> limb0 b \<longleftrightarrow> 31 \<le> unat (w256 b)"
proof (cases "uint256_fits_u64 b")
  case True
  then have "limb1 b = 0 \<and> limb2 b = 0 \<and> limb3 b = 0"
    by (simp add: uint256_fits_u64_def or_eq_0_iff)
  with True show ?thesis by (simp add: unat_w256_small word_le_nat_alt)
next
  case False
  then have "2 ^ 64 \<le> uval b" by (simp add: uint256_fits_u64_iff)
  then have "31 \<le> nat (uval b)" by simp
  with False show ?thesis by (auto simp: unat_w256 uint256_fits_u64_def or_eq_0_iff)
qed

lemma signextend_bit_index: "limb0 b < 31 \<Longrightarrow> unat (8 * limb0 b + 7) = 8 * unat (limb0 b) + 7"
  by (simp add: unat_word_ariths word_less_nat_alt)

lemma w256_signextend:
  "w256 (uint256_signextend b x) = signed_take_bit (8 * unat (w256 b) + 7) (w256 x)"
proof (cases "31 \<le> unat (w256 b)")
  case True
  then have "uint256_signextend b x = x"
    using signextend_guard [of b] by (auto simp: uint256_signextend_def)
  moreover have "signed_take_bit (8 * unat (w256 b) + 7) (w256 x) = w256 x"
  proof (rule bit_word_eqI)
    fix i assume i: "i < LENGTH(256)"
    then have "min (8 * unat (w256 b) + 7) i = i" using True by simp
    with i show "bit (signed_take_bit (8 * unat (w256 b) + 7) (w256 x)) i = bit (w256 x) i"
      by (simp add: bit_signed_take_bit_iff possible_bit_def)
  qed
  ultimately show ?thesis by simp
next
  case False
  define m where "m = 8 * unat (w256 b) + 7"
  have g: "\<not> (limb1 b \<noteq> 0 \<or> limb2 b \<noteq> 0 \<or> limb3 b \<noteq> 0 \<or> 31 \<le> limb0 b)"
    using False signextend_guard [of b] by blast
  then have "uint256_fits_u64 b" by (simp add: uint256_fits_u64_def)
  then have m: "unat (8 * limb0 b + 7) = m"
    using g signextend_bit_index [of b] by (simp add: m_def unat_w256_small not_le)
  have m256: "m < 256" using False by (simp add: m_def)
  have sign: "drop_bit (m mod 64) (limbs x ! (m div 64)) AND 1 \<noteq> 0 \<longleftrightarrow> bit (w256 x) m"
    by (simp only: bit_and_1_iff) (simp add: bit_drop_bit_eq bit_w256 m256)
  show ?thesis
    unfolding m_def [symmetric]
  proof (rule w256_eq_bitI)
    fix i :: nat assume i: "i < 256"
    have rhs: "bit (signed_take_bit m (w256 x)) i \<longleftrightarrow> bit (w256 x) (min m i)"
      using i by (simp add: bit_signed_take_bit_iff possible_bit_def)
    show "bit (limbs (uint256_signextend b x) ! (i div 64)) (i mod 64) \<longleftrightarrow>
        bit (signed_take_bit m (w256 x)) i"
      unfolding uint256_signextend_def if_not_P [OF g] Let_def m sign rhs
      using clear_high_bits [OF length_limbs [of x] refl refl i refl, of m]
        set_high_bits [OF length_limbs [of x] refl refl i refl, of m] i
      by (cases "bit (w256 x) m") (auto simp: limbs_of_limbs bit_w256 min_def)
  qed
qed

interpretation signextend: word_binop uint256_signextend
    "\<lambda>b x. signed_take_bit (8 * unat b + 7) x"
  by unfold_locales (rule w256_signextend)

lemma unat_31_minus: "i < 32 \<Longrightarrow> unat (31 - i :: u64) = 31 - unat i"
  by (simp add: word_less_nat_alt unat_sub_if')

lemma w256_from_u64: "w256 (uint256_from_u64 x) = ucast x"
  by (rule w256_eqI) (simp add: unsigned_ucast_eq take_bit_int_eq_self
      uint64_bounds(2) [THEN order_less_trans])

lemma w256_byte:
  "w256 (uint256_byte i v) =
    (if unat (w256 i) < 32 then take_bit 8 (drop_bit (8 * (31 - unat (w256 i))) (w256 v)) else 0)"
proof -
  have guard: "\<not> uint256_fits_u64 i \<or> 32 \<le> limb0 i \<longleftrightarrow> 32 \<le> unat (w256 i)"
    using shift_guard_gen [of i 32] by simp
  show ?thesis
  proof (cases "unat (w256 i) < 32")
    case False
    then show ?thesis using guard by (simp add: uint256_byte_def)
  next
    case True
    define le where "le = 31 - unat (w256 i)"
    have "uint256_fits_u64 i" "limb0 i < 32" using True guard by auto
    then have le: "unat (31 - limb0 i) = le" by (simp add: le_def unat_31_minus unat_w256_small)
    have b8: "unat ((31 - limb0 i) mod 8 * 8) = le mod 8 * 8"
      by (simp add: unat_word_ariths unat_mod_distrib le)
    have "uint256_byte i v =
        uint256_from_u64 (take_bit 8 (drop_bit (le mod 8 * 8) (limbs v ! (le div 8))))"
      using True guard
      by (simp add: uint256_byte_def byte_of_limb Let_def b8 unat_div_distrib le)
    moreover have "ucast (take_bit 8 (drop_bit (le mod 8 * 8) (limbs v ! (le div 8)))) =
        take_bit 8 (drop_bit (8 * le) (w256 v))"
    proof (rule bit_word_eqI)
      fix j assume "j < LENGTH(256)"
      show "bit (ucast (take_bit 8 (drop_bit (le mod 8 * 8) (limbs v ! (le div 8)))) :: u256) j =
          bit (take_bit 8 (drop_bit (8 * le) (w256 v))) j"
        using byte_index [of j le]
        by (auto simp: bit_ucast_iff bit_take_bit_iff bit_drop_bit_eq bit_w256 le_def)
    qed
    ultimately show ?thesis using True by (simp add: w256_from_u64 le_def)
  qed
qed

interpretation byte: word_binop uint256_byte
    "\<lambda>i v. if unat i < 32 then take_bit 8 (drop_bit (8 * (31 - unat i)) v) else 0"
  by unfold_locales (rule w256_byte)

lemma drop_byte_zero_iff:
  fixes x :: u64
  assumes "uint x < 256 ^ Suc k"
  shows "drop_bit (k * 8) x AND 0xFF = 0 \<longleftrightarrow> uint x < 256 ^ k"
proof -
  have "uint (drop_bit (k * 8) x) = uint x div 256 ^ k"
    by (simp add: uint_shr power_mult mult.commute [of k])
  moreover from assms have "uint x div 256 ^ k < 256"
    by (simp add: zdiv_less_iff mult.commute)
  ultimately have "uint (drop_bit (k * 8) x AND 0xFF) = uint x div 256 ^ k"
    by (simp add: and_ff take_bit_eq_mod uint_mod_distrib mod_pos_pos_trivial pos_imp_zdiv_nonneg_iff)
  then show ?thesis
    using uint_ge_0 [of x] by (auto simp: word_uint_eq_iff zdiv_eq_0_iff)
qed

lemma byte_pos_from_sound:
  assumes "0 < uint x" "uint x < 256 ^ k"
  shows "0 \<le> byte_pos_from k x \<and> byte_pos_from k x < int k \<and>
    256 ^ nat (byte_pos_from k x) \<le> uint x \<and> uint x < 256 ^ Suc (nat (byte_pos_from k x))"
  using assms
proof (induction k)
  case (Suc k)
  then show ?case using drop_byte_zero_iff [of x k] by auto
qed simp

lemma byte_pos_from_8:
  assumes "x \<noteq> 0"
  obtains p where "byte_pos_from 8 x = int p" "p < 8" "256 ^ p \<le> uint x" "uint x < 256 ^ Suc p"
proof -
  have "0 < uint x" using assms by (simp add: word_uint_eq_iff order_less_le)
  from byte_pos_from_sound [OF this, of 8] uint64_bounds(2) [of x] that [of "nat (byte_pos_from 8 x)"]
  show thesis by auto
qed

lemma top_limb_bytes:
  assumes "x \<noteq> 0" and "0 \<le> L" "L < 2 ^ (64 * k)" and v: "v = L + 2 ^ (64 * k) * uint x"
  shows "let n = nat (int k * 8 + byte_pos_from 8 x + 1) in
    256 ^ (n - 1) \<le> v \<and> v < 256 ^ n \<and> 0 < n \<and> n \<le> 8 * k + 8"
proof -
  from byte_pos_from_8 [OF assms(1)] obtain p where p: "byte_pos_from 8 x = int p" "p < 8"
    "256 ^ p \<le> uint x" "uint x < 256 ^ Suc p" by metis
  have n: "nat (int k * 8 + byte_pos_from 8 x + 1) = Suc (8 * k + p)" using p(1) by simp
  have pow: "(256::int) ^ (8 * k + q) = 2 ^ (64 * k) * 256 ^ q" for q
    by (simp add: power_add power_mult)
  have "2 ^ (64 * k) * 256 ^ p \<le> 2 ^ (64 * k) * uint x" using p(3) by simp
  moreover have "2 ^ (64 * k) * (uint x + 1) \<le> 2 ^ (64 * k) * 256 ^ Suc p"
    using p(4) by (intro mult_left_mono) auto
  ultimately have "256 ^ (8 * k + p) \<le> v" "v < 256 ^ (8 * k + Suc p)"
    unfolding pow v distrib_left using assms(2,3) by linarith+
  then show ?thesis unfolding n Let_def using p(2) by simp
qed

lemma byte_length_sound:
  assumes "0 < uval v"
  shows "256 ^ (uint256_byte_length v - 1) \<le> uval v \<and> uval v < 256 ^ uint256_byte_length v \<and>
    0 < uint256_byte_length v \<and> uint256_byte_length v \<le> 32"
proof -
  have L: "0 \<le> limbs_val (limbs v) 0 k" "limbs_val (limbs v) 0 k < 2 ^ (64 * k)" for k
    by (rule limbs_val_bounds)+
  have val: "limbs_val (limbs v) 0 (Suc 0) = uint (limb0 v)"
    "limbs_val (limbs v) 0 2 = uint (limb0 v) + 2 ^ 64 * uint (limb1 v)"
    "limbs_val (limbs v) 0 3 = uint (limb0 v) + 2 ^ 64 * uint (limb1 v) + 2 ^ 128 * uint (limb2 v)"
    by (simp_all add: numeral_2_eq_2 numeral_3_eq_3 limbs_val_Suc limbs_def)
  consider (3) "limb3 v \<noteq> 0" | (2) "limb3 v = 0" "limb2 v \<noteq> 0"
    | (1) "limb3 v = 0" "limb2 v = 0" "limb1 v \<noteq> 0"
    | (0) "limb3 v = 0" "limb2 v = 0" "limb1 v = 0" "limb0 v \<noteq> 0"
    using assms uval_0_limbs [of v] by auto
  then show ?thesis
  proof cases
    case 3
    then show ?thesis using top_limb_bytes [OF 3 L [of 3] refl]
      by (simp add: uint256_byte_length_def Let_def uval_def val)
  next
    case 2
    then show ?thesis using top_limb_bytes [OF 2(2) L [of 2] refl]
      by (simp add: uint256_byte_length_def Let_def uval_def val)
  next
    case 1
    then show ?thesis using top_limb_bytes [OF 1(3) L [of 1] refl]
      by (simp add: uint256_byte_length_def Let_def uval_def val)
  next
    case 0
    then show ?thesis using top_limb_bytes [OF 0(4) L [of 0] refl]
      by (simp add: uint256_byte_length_def Let_def uval_def)
  qed
qed


section \<open>Properties\<close>

text \<open>
  C22: the carry and borrow chains and the 128-bit columns compute addition, subtraction,
  multiplication, negation and complement of 256-bit words, for every input.
\<close>

theorem uint256_ring_ops:
  "w256 (uint256_add a b) = w256 a + w256 b \<and> w256 (uint256_sub a b) = w256 a - w256 b \<and>
   w256 (uint256_mul a b) = w256 a * w256 b \<and> w256 (uint256_negate a) = - w256 a \<and>
   w256 (uint256_not a) = NOT (w256 a)"
  by (simp add: add.refines sub.refines mul.refines w256_negate w256_not)

text \<open>
  The limb comparisons decide equality and the unsigned and two's complement orders of the
  256-bit words.
\<close>

theorem uint256_orders:
  "(uint256_eq a b \<longleftrightarrow> w256 a = w256 b) \<and> (uint256_lt a b \<longleftrightarrow> w256 a < w256 b) \<and>
   (uint256_gt a b \<longleftrightarrow> w256 a > w256 b) \<and> (uint256_slt a b \<longleftrightarrow> sint (w256 a) < sint (w256 b)) \<and>
   (uint256_sgt a b \<longleftrightarrow> sint (w256 b) < sint (w256 a))"
  by (simp add: uint256_lt_word uint256_gt_def uint256_slt_word uint256_sgt_def word_sless_alt w256_inject)

text \<open>
  C23: the shifts that move whole limbs and then bits are the logical and arithmetic shifts of the
  256-bit word, for every shift amount, also those of 256 and more; sign extension and byte
  selection are those of the word for every index, also those out of range.
\<close>

theorem uint256_shift_ops:
  "w256 (uint256_shl s v) = push_bit (unat (w256 s)) (w256 v) \<and>
   w256 (uint256_shr s v) = drop_bit (unat (w256 s)) (w256 v) \<and>
   w256 (uint256_sar s v) = signed_drop_bit (unat (w256 s)) (w256 v) \<and>
   w256 (uint256_signextend s v) = signed_take_bit (8 * unat (w256 s) + 7) (w256 v) \<and>
   w256 (uint256_byte s v) =
     (if unat (w256 s) < 32 then take_bit 8 (drop_bit (8 * (31 - unat (w256 s))) (w256 v)) else 0)"
  by (simp add: w256_shl w256_shr w256_sar w256_signextend w256_byte)

end
