(* ===== verification/Uint256_Div.thy ===== *)
theory Uint256_Div
  imports Uint256
begin

text \<open>
  Unsigned division of \<open>src/types/uint256.c\<close>: the reciprocal-based division by one limb
  (\<open>reciprocal_2by1\<close>, \<open>udivrem_2by1\<close>, \<open>divmod_single_limb\<close>) and Knuth's algorithm D
  for longer divisors (\<open>uint256_divmod\<close>).  The arrays of the code are lists of limbs and its
  loops are recursions over the loop index.  The results are quotient and remainder of the
  values, and zero for a zero divisor.
\<close>

section \<open>Reciprocal-based division\<close>

definition RECIPROCAL_TABLE :: "u16 list" where
  "RECIPROCAL_TABLE = [
    2045, 2037, 2029, 2021, 2013, 2005, 1998, 1990, 1983, 1975, 1968, 1960, 1953, 1946, 1938, 1931,
    1924, 1917, 1910, 1903, 1896, 1889, 1883, 1876, 1869, 1863, 1856, 1849, 1843, 1836, 1830, 1824,
    1817, 1811, 1805, 1799, 1792, 1786, 1780, 1774, 1768, 1762, 1756, 1750, 1745, 1739, 1733, 1727,
    1722, 1716, 1710, 1705, 1699, 1694, 1688, 1683, 1677, 1672, 1667, 1661, 1656, 1651, 1646, 1641,
    1636, 1630, 1625, 1620, 1615, 1610, 1605, 1600, 1596, 1591, 1586, 1581, 1576, 1572, 1567, 1562,
    1558, 1553, 1548, 1544, 1539, 1535, 1530, 1526, 1521, 1517, 1513, 1508, 1504, 1500, 1495, 1491,
    1487, 1483, 1478, 1474, 1470, 1466, 1462, 1458, 1454, 1450, 1446, 1442, 1438, 1434, 1430, 1426,
    1422, 1418, 1414, 1411, 1407, 1403, 1399, 1396, 1392, 1388, 1384, 1381, 1377, 1374, 1370, 1366,
    1363, 1359, 1356, 1352, 1349, 1345, 1342, 1338, 1335, 1332, 1328, 1325, 1322, 1318, 1315, 1312,
    1308, 1305, 1302, 1299, 1295, 1292, 1289, 1286, 1283, 1280, 1276, 1273, 1270, 1267, 1264, 1261,
    1258, 1255, 1252, 1249, 1246, 1243, 1240, 1237, 1234, 1231, 1228, 1226, 1223, 1220, 1217, 1214,
    1211, 1209, 1206, 1203, 1200, 1197, 1195, 1192, 1189, 1187, 1184, 1181, 1179, 1176, 1173, 1171,
    1168, 1165, 1163, 1160, 1158, 1155, 1153, 1150, 1148, 1145, 1143, 1140, 1138, 1135, 1133, 1130,
    1128, 1125, 1123, 1121, 1118, 1116, 1113, 1111, 1109, 1106, 1104, 1102, 1099, 1097, 1095, 1092,
    1090, 1088, 1086, 1083, 1081, 1079, 1077, 1074, 1072, 1070, 1068, 1066, 1064, 1061, 1059, 1057,
    1055, 1053, 1051, 1049, 1047, 1044, 1042, 1040, 1038, 1036, 1034, 1032, 1030, 1028, 1026, 1024]"

definition umul128 :: "u64 \<Rightarrow> u64 \<Rightarrow> u64 \<times> u64" where
  "umul128 x y =
     (let p = to_u128 x * to_u128 y
      in (lo64 p, lo64 (drop_bit 64 p)))"

definition reciprocal_2by1 :: "u64 \<Rightarrow> u64" where
  "reciprocal_2by1 d =
     (let d9 = drop_bit 55 d;
          v0 = ucast (RECIPROCAL_TABLE ! unat (d9 - 256)) :: u64;
          d40 = drop_bit 24 d + 1;
          v1 = push_bit 11 v0 - ucast (to_u32 (drop_bit 40 (ucast (to_u32 (v0 * v0)) * d40))) - 1;
          v2 = push_bit 13 v1 + drop_bit 47 (v1 * (0x1000000000000000 - v1 * d40));
          d0 = d AND 1;
          d63 = drop_bit 1 d + d0;
          e = (drop_bit 1 v2 AND (0 - d0)) - v2 * d63;
          (e_lo, e_hi) = umul128 v2 e;
          v3 = drop_bit 1 e_hi + push_bit 31 v2;
          (p_lo, p_hi) = umul128 v3 d;
          p_plus_d = to_u128 p_lo + push_bit 64 (to_u128 p_hi) + to_u128 d;
          v4 = v3 - lo64 (drop_bit 64 p_plus_d) - d
      in v4)"

text \<open>The result is the pair of quotient and remainder.\<close>

definition udivrem_2by1 :: "u64 \<Rightarrow> u64 \<Rightarrow> u64 \<Rightarrow> u64 \<Rightarrow> u64 \<times> u64" where
  "udivrem_2by1 u_lo u_hi d v =
     (let (q_lo, q_hi) = umul128 v u_hi;
          q = to_u128 q_lo + push_bit 64 (to_u128 q_hi) + to_u128 u_lo + push_bit 64 (to_u128 u_hi);
          q_lo = lo64 q;
          q_hi = lo64 (drop_bit 64 q);
          q_hi = q_hi + 1;
          r = u_lo - q_hi * d;
          (q_hi, r) = (if r > q_lo then (q_hi - 1, r + d) else (q_hi, r));
          (q_hi, r) = (if r \<ge> d then (q_hi + 1, r - d) else (q_hi, r))
      in (q_hi, r))"

definition top_limb_index :: "u64 list \<Rightarrow> int" where
  "top_limb_index ls =
     (if ls ! 3 \<noteq> 0 then 3
      else if ls ! 2 \<noteq> 0 then 2
      else if ls ! 1 \<noteq> 0 then 1
      else if ls ! 0 \<noteq> 0 then 0
      else - 1)"

definition divmod_single_limb :: "u64 list \<Rightarrow> u64 \<Rightarrow> uint256_t \<times> uint256_t" where
  "divmod_single_limb dividend divisor =
     (let shift = clzll divisor;
          d_norm = push_bit shift divisor;
          u = (if shift = 0
               then [dividend ! 0, dividend ! 1, dividend ! 2, dividend ! 3, 0]
               else let rshift = 64 - shift
                    in [push_bit shift (dividend ! 0),
                        push_bit shift (dividend ! 1) OR drop_bit rshift (dividend ! 0),
                        push_bit shift (dividend ! 2) OR drop_bit rshift (dividend ! 1),
                        push_bit shift (dividend ! 3) OR drop_bit rshift (dividend ! 2),
                        drop_bit rshift (dividend ! 3)]);
          reciprocal = reciprocal_2by1 d_norm;
          rem = u ! 4;
          (q3, rem) = udivrem_2by1 (u ! 3) rem d_norm reciprocal;
          (q2, rem) = udivrem_2by1 (u ! 2) rem d_norm reciprocal;
          (q1, rem) = udivrem_2by1 (u ! 1) rem d_norm reciprocal;
          (q0, rem) = udivrem_2by1 (u ! 0) rem d_norm reciprocal;
          rem = drop_bit shift rem
      in (uint256_from_limbs q0 q1 q2 q3, uint256_from_u64 rem))"

section \<open>Knuth's algorithm D\<close>

text \<open>The loops that shift the operands left, limb by limb, with the bits carried over.\<close>

function shl_loop :: "nat \<Rightarrow> u64 list \<Rightarrow> nat \<Rightarrow> nat \<Rightarrow> u64 list \<Rightarrow> u64 \<Rightarrow> u64 list \<times> u64" where
  "shl_loop shift src n i dst carry =
     (if i < n
      then shl_loop shift src n (i + 1) (dst[i := push_bit shift (src ! i) OR carry])
             (drop_bit (64 - shift) (src ! i))
      else (dst, carry))"
  by pat_completeness auto
termination
  by (relation "measure (\<lambda>(shift, src, n, i, dst, carry). n - i)") auto

definition copy_loop :: "u64 list \<Rightarrow> nat \<Rightarrow> u64 list \<Rightarrow> u64 list" where
  "copy_loop src n dst = foldl (\<lambda>d i. d[i := src ! i]) dst [0..<n]"

text \<open>D3: the estimate is lowered while the first two digits show that it is too large.\<close>

function refine_q_hat :: "u64 \<Rightarrow> u64 \<Rightarrow> u64 \<Rightarrow> u128 \<Rightarrow> u128 \<Rightarrow> u128" where
  "refine_q_hat v1 v2 u2 q_hat r_hat =
     (if q_hat \<ge> push_bit 64 1 \<or> q_hat * to_u128 v2 > (push_bit 64 r_hat OR to_u128 u2)
      then let q_hat = q_hat - 1; r_hat = r_hat + to_u128 v1
           in if r_hat \<ge> push_bit 64 1 then q_hat else refine_q_hat v1 v2 u2 q_hat r_hat
      else q_hat)"
  by pat_completeness auto
termination
proof (relation "measure (\<lambda>(v1, v2, u2, q_hat, r_hat). unat q_hat)", goal_cases)
  case (2 v1 v2 u2 q_hat r_hat x xa)
  then have "q_hat \<noteq> 0" by (auto simp: word_le_nat_alt)
  with 2 show ?case by (simp add: unat_minus_one unat_gt_0)
qed simp

text \<open>D4: multiply and subtract, digit by digit.\<close>

function mul_sub_loop ::
  "u128 \<Rightarrow> u64 list \<Rightarrow> nat \<Rightarrow> nat \<Rightarrow> nat \<Rightarrow> u64 list \<Rightarrow> u128 \<Rightarrow> u128 \<Rightarrow> u64 list \<times> u128 \<times> u128" where
  "mul_sub_loop q_hat v j n i u carry borrow =
     (if i < n
      then let prod = q_hat * to_u128 (v ! i) + carry;
               carry = drop_bit 64 prod;
               sub = (prod AND (push_bit 64 1 - 1)) + borrow;
               diff = to_u128 (u ! (j + i)) + push_bit 64 1 - sub;
               u = u[j + i := lo64 diff];
               borrow = 1 - drop_bit 64 diff
           in mul_sub_loop q_hat v j n (i + 1) u carry borrow
      else (u, carry, borrow))"
  by pat_completeness auto
termination
  by (relation "measure (\<lambda>(q_hat, v, j, n, i, u, carry, borrow). n - i)") auto

text \<open>D6: add the divisor back.\<close>

function add_back_loop ::
  "u64 list \<Rightarrow> nat \<Rightarrow> nat \<Rightarrow> nat \<Rightarrow> u64 list \<Rightarrow> u64 \<Rightarrow> u64 list \<times> u64" where
  "add_back_loop v j n i u add_carry =
     (if i < n
      then let sum = to_u128 (u ! (j + i)) + to_u128 (v ! i) + to_u128 add_carry
           in add_back_loop v j n (i + 1) (u[j + i := lo64 sum]) (lo64 (drop_bit 64 sum))
      else (u, add_carry))"
  by pat_completeness auto
termination
  by (relation "measure (\<lambda>(v, j, n, i, u, add_carry). n - i)") auto

text \<open>
  D4 to D6 for one quotient digit: the digit, from its estimate, and the array that holds the
  partial remainder.
\<close>

definition sub_digit :: "u64 list \<Rightarrow> nat \<Rightarrow> nat \<Rightarrow> u128 \<Rightarrow> u64 list \<Rightarrow> u64 \<times> u64 list" where
  "sub_digit v n j q_hat u =
     (let (u, carry, borrow) = mul_sub_loop q_hat v j n 0 u 0 0;
          sub_final = carry + borrow;
          diff_final = to_u128 (u ! (j + n)) + push_bit 64 1 - sub_final;
          u = u[j + n := lo64 diff_final];
          final_borrow = lo64 (1 - drop_bit 64 diff_final);
          q = lo64 q_hat
      in if final_borrow \<noteq> 0
         then let (u, add_carry) = add_back_loop v j n 0 u 0
              in (q - 1, u[j + n := u ! (j + n) + add_carry])
         else (q, u))"

definition knuth_step :: "u64 list \<Rightarrow> nat \<Rightarrow> nat \<Rightarrow> u64 list \<times> u64 list \<Rightarrow> u64 list \<times> u64 list" where
  "knuth_step v n j = (\<lambda>(u, q_limbs).
     let tmp = push_bit 64 (to_u128 (u ! (j + n))) OR to_u128 (u ! (j + n - 1));
         q_hat = tmp div to_u128 (v ! (n - 1));
         r_hat = tmp mod to_u128 (v ! (n - 1));
         q_hat = refine_q_hat (v ! (n - 1)) (v ! (n - 2)) (u ! (j + n - 2)) q_hat r_hat;
         (q, u) = sub_digit v n j q_hat u
     in (u, q_limbs[j := q]))"

text \<open>The loop \<open>for (j = m + 1; j-- > 0;)\<close>.\<close>

fun knuth_loop :: "u64 list \<Rightarrow> nat \<Rightarrow> nat \<Rightarrow> u64 list \<times> u64 list \<Rightarrow> u64 list \<times> u64 list" where
  "knuth_loop v n 0 s = s"
| "knuth_loop v n (Suc j) s = knuth_loop v n j (knuth_step v n j s)"

text \<open>D8: shift the remainder back.\<close>

definition denormalize :: "nat \<Rightarrow> nat \<Rightarrow> u64 list \<Rightarrow> u64 list" where
  "denormalize shift n u =
     (if shift = 0
      then copy_loop u n [0, 0, 0, 0]
      else let r = foldl (\<lambda>r i. r[i := drop_bit shift (u ! i) OR push_bit (64 - shift) (u ! (i + 1))])
                     [0, 0, 0, 0] [0..<n - 1]
           in r[n - 1 := drop_bit shift (u ! (n - 1))])"

definition uint256_divmod :: "uint256_t \<Rightarrow> uint256_t \<Rightarrow> uint256_t \<times> uint256_t" where
  "uint256_divmod dividend divisor =
     (if uint256_is_zero divisor then (uint256_zero, uint256_zero)
      else if uint256_lt dividend divisor then (uint256_zero, dividend)
      else if (limb1 dividend OR limb2 dividend OR limb3 dividend) = 0 \<and>
              (limb1 divisor OR limb2 divisor OR limb3 divisor) = 0
      then (uint256_from_u64 (limb0 dividend div limb0 divisor),
            uint256_from_u64 (limb0 dividend mod limb0 divisor))
      else
        let div_top = top_limb_index (limbs divisor)
        in if div_top = 0 then divmod_single_limb (limbs dividend) (limb0 divisor)
           else
             let div_top_u = nat div_top;
                 shift = clzll (limbs divisor ! div_top_u);
                 v = (if shift = 0 then copy_loop (limbs divisor) (div_top_u + 1) [0, 0, 0, 0]
                      else fst (shl_loop shift (limbs divisor) (div_top_u + 1) 0 [0, 0, 0, 0] 0));
                 u = (if shift = 0 then copy_loop (limbs dividend) 4 [0, 0, 0, 0, 0]
                      else let (u, carry) = shl_loop shift (limbs dividend) 4 0 [0, 0, 0, 0, 0] 0
                           in u[4 := carry]);
                 n = div_top_u + 1;
                 m = 4 - n;
                 (u, q_limbs) = knuth_loop v n (m + 1) (u, [0, 0, 0, 0]);
                 r_limbs = denormalize shift n u
             in (of_limbs q_limbs, of_limbs r_limbs))"

definition uint256_div :: "uint256_t \<Rightarrow> uint256_t \<Rightarrow> uint256_t" where
  "uint256_div a b = fst (uint256_divmod a b)"

definition uint256_mod :: "uint256_t \<Rightarrow> uint256_t \<Rightarrow> uint256_t" where
  "uint256_mod a b = snd (uint256_divmod a b)"

section \<open>Vocabulary of the proofs\<close>

text \<open>The divisor after normalisation: its leading digit has its top bit set.\<close>

definition normalized :: "u64 list \<Rightarrow> nat \<Rightarrow> bool" where
  "normalized v n \<longleftrightarrow> 0 < n \<and> 2 ^ 63 \<le> uint (v ! (n - 1))"

text \<open>
  What one step of the loop promises; the loops of the 256-bit and of the 512-bit division
  both rest on it.
\<close>

definition digit_step :: "u64 list \<Rightarrow> nat \<Rightarrow> nat \<Rightarrow> u64 list \<Rightarrow> u64 \<Rightarrow> u64 list \<Rightarrow> bool" where
  "digit_step v n j u q u' \<longleftrightarrow>
     uint q = limbs_val u j (n + 1) div limbs_val v 0 n \<and>
     limbs_val u' j (n + 1) = limbs_val u j (n + 1) mod limbs_val v 0 n \<and>
     length u' = length u \<and> (\<forall>k. k < j \<or> j + n < k \<longrightarrow> u' ! k = u ! k)"

text \<open>Shifting an operand whose leading limb has room for the shift.\<close>

definition shifted :: "nat \<Rightarrow> u64 list \<Rightarrow> nat \<Rightarrow> u64 list \<Rightarrow> u64 list" where
  "shifted s src n dst =
     (if s = 0 then copy_loop src n dst else fst (shl_loop s src n 0 dst 0))"

section \<open>The reciprocal\<close>

text \<open>The table against its defining bound: the first approximation is good to ten bits.\<close>

lemma table_checked:
  "list_all (\<lambda>(i, v). 1024 \<le> uint v \<and> uint v \<le> 2045 \<and>
      - (5 * 2 ^ 39) \<le> 2 ^ 50 - uint v * ((int i + 257) * 2 ^ 31) \<and>
      2 ^ 50 - uint v * ((int i + 256) * 2 ^ 31) \<le> 5 * 2 ^ 39)
    (enumerate 0 RECIPROCAL_TABLE)"
  by (simp add: RECIPROCAL_TABLE_def)

lemma length_table: "length RECIPROCAL_TABLE = 256"
  by (simp add: RECIPROCAL_TABLE_def)

lemma table_entry:
  assumes "i < 256"
  shows "1024 \<le> uint (RECIPROCAL_TABLE ! i)" "uint (RECIPROCAL_TABLE ! i) \<le> 2045"
    "- (5 * 2 ^ 39) \<le> 2 ^ 50 - uint (RECIPROCAL_TABLE ! i) * ((int i + 257) * 2 ^ 31)"
    "2 ^ 50 - uint (RECIPROCAL_TABLE ! i) * ((int i + 256) * 2 ^ 31) \<le> 5 * 2 ^ 39"
proof -
  have "(i, RECIPROCAL_TABLE ! i) \<in> set (enumerate 0 RECIPROCAL_TABLE)"
    using assms by (simp add: in_set_enumerate_eq length_table)
  then show "1024 \<le> uint (RECIPROCAL_TABLE ! i)" "uint (RECIPROCAL_TABLE ! i) \<le> 2045"
    "- (5 * 2 ^ 39) \<le> 2 ^ 50 - uint (RECIPROCAL_TABLE ! i) * ((int i + 257) * 2 ^ 31)"
    "2 ^ 50 - uint (RECIPROCAL_TABLE ! i) * ((int i + 256) * 2 ^ 31) \<le> 5 * 2 ^ 39"
    using table_checked by (auto simp: list_all_iff)
qed

text \<open>The refinement steps over the integers: each squares the relative error.\<close>

lemma newton_step1:
  fixes v0 d40 v1 :: int
  assumes v1: "v1 = 2 ^ 11 * v0 - v0 * v0 * d40 div 2 ^ 40 - 1"
    and e0: "\<bar>2 ^ 50 - v0 * d40\<bar> \<le> 5 * 2 ^ 39" and d40: "2 ^ 39 < d40" "d40 \<le> 2 ^ 40"
  shows "0 < 2 ^ 60 - v1 * d40" "2 ^ 60 - v1 * d40 \<le> 29 * 2 ^ 38" "0 < v1" "v1 < 2 ^ 21"
proof -
  define e0 where "e0 = 2 ^ 50 - v0 * d40"
  define e1 where "e1 = 2 ^ 60 - v1 * d40"
  define t where "t = 2 ^ 40 - v0 * v0 * d40 mod 2 ^ 40"
  have t: "0 < t" "t \<le> 2 ^ 40" by (simp_all add: t_def)
  have q: "2 ^ 40 * (v0 * v0 * d40 div 2 ^ 40) = v0 * v0 * d40 - 2 ^ 40 + t"
    by (simp add: t_def minus_mod_eq_mult_div [symmetric])
  have e1: "2 ^ 40 * e1 = e0 * e0 + t * d40"
    using q unfolding e1_def v1 e0_def by (simp add: algebra_simps) algebra
  define s where "s = e0 * e0"
  have sq: "0 \<le> s" by (simp add: s_def)
  have "s = \<bar>e0\<bar> * \<bar>e0\<bar>" by (simp add: s_def)
  also have "\<dots> \<le> (5 * 2 ^ 39) * (5 * 2 ^ 39)"
    using e0 by (intro mult_mono) (simp_all add: e0_def)
  finally have sq2: "s \<le> 25 * 2 ^ 78" by simp
  have "0 < t * d40" using t d40 by simp
  moreover have "t * d40 \<le> 2 ^ 40 * 2 ^ 40" using t d40 by (intro mult_mono) auto
  ultimately have e1b: "0 < e1" "e1 \<le> 29 * 2 ^ 38" using e1 [folded s_def] sq sq2 by simp_all
  then show "0 < 2 ^ 60 - v1 * d40" "2 ^ 60 - v1 * d40 \<le> 29 * 2 ^ 38" by (simp_all add: e1_def)
  have pos: "0 < v1 * d40" using e1b by (simp add: e1_def)
  then show "0 < v1" using d40 by (simp add: zero_less_mult_iff)
  then have "v1 * 2 ^ 39 \<le> v1 * d40" using d40 by (intro mult_left_mono) auto
  then show "v1 < 2 ^ 21" using e1b by (simp add: e1_def)
qed

lemma newton_step2:
  fixes v1 d40 d v2 :: int
  assumes v2: "v2 = 2 ^ 13 * v1 + v1 * (2 ^ 60 - v1 * d40) div 2 ^ 47"
    and e1: "0 < 2 ^ 60 - v1 * d40" "2 ^ 60 - v1 * d40 \<le> 29 * 2 ^ 38"
    and v1: "0 < v1" and d40: "2 ^ 39 < d40" "d40 \<le> 2 ^ 40"
    and d: "d < 2 ^ 24 * d40" "2 ^ 24 * d40 \<le> d + 2 ^ 24"
  shows "0 < 2 ^ 97 - v2 * d" "2 ^ 97 - v2 * d \<le> d + 7 * 2 ^ 60" "0 < v2" "v2 < 2 ^ 34"
proof -
  define e1 where "e1 = 2 ^ 60 - v1 * d40"
  define E where "E = 2 ^ 73 - v2 * d40"
  define t where "t = v1 * e1 mod 2 ^ 47"
  have t: "0 \<le> t" "t < 2 ^ 47" by (simp_all add: t_def)
  have q: "2 ^ 47 * (v1 * e1 div 2 ^ 47) = v1 * e1 - t"
    by (simp add: t_def minus_mod_eq_mult_div [symmetric])
  have E: "2 ^ 47 * E = e1 * e1 + t * d40"
    using q unfolding E_def v2 e1_def by (simp add: algebra_simps) algebra
  have e1b: "0 < e1" "e1 \<le> 29 * 2 ^ 38" using e1 by (simp_all add: e1_def)
  have sq: "0 < e1 * e1" using e1b by simp
  have sq2: "e1 * e1 \<le> (29 * 2 ^ 38) * (29 * 2 ^ 38)" using e1b by (intro mult_mono) auto
  have td: "0 \<le> t * d40" "t * d40 \<le> 2 ^ 47 * d40" using t d40 by (auto intro: mult_mono)
  have Eb: "0 < E" "E \<le> 841 * 2 ^ 29 + d40" using E sq sq2 td by simp_all
  have "0 \<le> v1 * e1 div 2 ^ 47" using v1 e1b by (simp add: pos_imp_zdiv_nonneg_iff)
  then show v2p: "0 < v2" using v1 by (simp add: v2 e1_def)
  have "v2 * 2 ^ 39 \<le> v2 * d40" using d40 v2p by (intro mult_left_mono) auto
  then show v2b: "v2 < 2 ^ 34" using Eb by (simp add: E_def)
  define g where "g = 2 ^ 24 * d40 - d"
  have g: "0 < g" "g \<le> 2 ^ 24" using d by (simp_all add: g_def)
  have e2: "2 ^ 97 - v2 * d = 2 ^ 24 * E + v2 * g" by (simp add: E_def g_def algebra_simps)
  have vg: "0 < v2 * g" using v2p g by simp
  have vg2: "v2 * g \<le> 2 ^ 34 * 2 ^ 24" using v2p v2b g by (intro mult_mono) auto
  show "0 < 2 ^ 97 - v2 * d" "2 ^ 97 - v2 * d \<le> d + 7 * 2 ^ 60"
    unfolding e2 using Eb vg vg2 d by simp_all
qed

lemma newton_step3:
  fixes v2 d V3 e2 :: int
  assumes V3: "V3 = 2 ^ 31 * v2 + v2 * (e2 div 2) div 2 ^ 65" and e2: "e2 = 2 ^ 97 - v2 * d"
    and e2b: "0 < e2" "e2 \<le> d + 7 * 2 ^ 60" and v2: "0 < v2" "v2 < 2 ^ 34"
    and d: "2 ^ 63 \<le> d" "d < 2 ^ 64"
  shows "0 < 2 ^ 128 - V3 * d" "2 ^ 128 - V3 * d \<le> 2 * d" "2 ^ 64 \<le> V3" "V3 < 2 ^ 65"
proof -
  define t where "t = v2 * (e2 div 2) mod 2 ^ 65"
  define b where "b = e2 mod 2"
  have t: "0 \<le> t" "t \<le> 2 ^ 65 - 1" by (simp_all add: t_def)
  have b: "0 \<le> b" "b \<le> 1" by (simp_all add: b_def)
  have q: "2 ^ 65 * (v2 * (e2 div 2) div 2 ^ 65) = v2 * (e2 div 2) - t"
    by (simp add: t_def minus_mod_eq_mult_div [symmetric])
  have h: "2 * (e2 div 2) = e2 - b" by (simp add: b_def minus_mod_eq_mult_div [symmetric])
  have V: "2 ^ 66 * V3 = 2 ^ 97 * v2 + v2 * e2 - v2 * b - 2 * t"
    using q h unfolding V3 by algebra
  have e3: "2 ^ 66 * (2 ^ 128 - V3 * d) = e2 * e2 + (v2 * b + 2 * t) * d"
    using V e2 by algebra
  have sq: "0 < e2 * e2" using e2b by simp
  have vb: "0 \<le> v2 * b" "v2 * b \<le> 2 ^ 34" using v2 b mult_mono [of v2 "2 ^ 34" b 1] by auto
  define w where "w = (v2 * b + 2 * t) * d"
  have lo: "0 \<le> w" using vb t d by (simp add: w_def)
  have hi: "w \<le> (2 ^ 34 + 2 ^ 66) * d" unfolding w_def using vb t d by (intro mult_right_mono) auto
  have "8 * e2 \<le> 15 * d" using e2b d by simp
  then have "(8 * e2) * (8 * e2) \<le> (15 * d) * (15 * d)" using e2b(1) d
    by - (rule mult_mono, simp_all)
  also have "\<dots> = 225 * d * d" by simp
  also have "\<dots> \<le> 225 * d * 2 ^ 64" using d by (intro mult_left_mono) auto
  finally have sq2: "e2 * e2 * 64 \<le> 225 * 2 ^ 64 * d" by simp
  show e3b: "0 < 2 ^ 128 - V3 * d" "2 ^ 128 - V3 * d \<le> 2 * d"
    using e3 [folded w_def] sq lo hi sq2 by simp_all
  have "(2 ^ 64 + 1) * d \<le> (2 ^ 64 + 1) * (2 ^ 64 - 1)" using d by (intro mult_left_mono) auto
  also have "\<dots> < (V3 + 2) * d" using e3b by (simp add: algebra_simps)
  finally have "2 ^ 64 + 1 < V3 + 2" using d by (simp add: mult_less_cancel_right)
  then show "2 ^ 64 \<le> V3" by simp
  show "V3 < 2 ^ 65"
  proof (rule ccontr)
    assume "\<not> V3 < 2 ^ 65"
    then have "2 ^ 65 * 2 ^ 63 \<le> V3 * d" using d by (intro mult_mono) auto
    then show False using e3b by simp
  qed
qed

text \<open>A word computed by ring operations is the image of the same integer expression.\<close>

lemma umul128_eq: "umul128 x y = (lo, hi) \<Longrightarrow> uint lo + 2 ^ 64 * uint hi = uint x * uint y"
  using uint_lo64_shr64 [of "to_u128 x * to_u128 y"]
  by (auto simp: umul128_def Let_def uint_mult_to_u128 uint_lo64 [of "to_u128 x * to_u128 y"])

lemma umul128_hi: "uint (snd (umul128 x y)) = uint x * uint y div 2 ^ 64"
  by (simp add: umul128_def Let_def uint_lo64_shr64 uint_mult_to_u128)

lemma recip_v0:
  fixes d :: u64
  assumes "2 ^ 63 \<le> uint d"
  defines "d40 \<equiv> uint d div 2 ^ 24 + 1"
    and "v0 \<equiv> uint (RECIPROCAL_TABLE ! unat (drop_bit 55 d - 256))"
  shows "\<bar>2 ^ 50 - v0 * d40\<bar> \<le> 5 * 2 ^ 39" "1024 \<le> v0" "v0 \<le> 2045"
proof -
  define d9 where "d9 = uint d div 2 ^ 55"
  define i where "i = unat (drop_bit 55 d - 256)"
  have d9: "256 \<le> d9" "d9 < 512"
    using assms(1) uint64_bounds(2) [of d] by (simp_all add: d9_def zle_div_iff zdiv_less_iff)
  have "uint (drop_bit 55 d - 256) = d9 - 256"
    using d9 by (subst uint_sub_nowrap) (simp_all add: uint_shr d9_def)
  then have i: "int i = d9 - 256" by (simp add: i_def flip: uint_nat)
  then have "i < 256" using d9 by simp
  note t = table_entry [OF this]
  have "uint d div 2 ^ 24 div 2 ^ 31 = d9" by (simp add: d9_def zdiv_zmult2_eq [symmetric])
  then have "d9 * 2 ^ 31 \<le> uint d div 2 ^ 24" "uint d div 2 ^ 24 < (d9 + 1) * 2 ^ 31"
    using zle_div_iff [of "2 ^ 31" d9 "uint d div 2 ^ 24"]
      zdiv_less_iff [of "2 ^ 31" "uint d div 2 ^ 24" "d9 + 1"] by simp_all
  then have d40: "(int i + 256) * 2 ^ 31 \<le> d40" "d40 \<le> (int i + 257) * 2 ^ 31"
    by (simp_all add: d40_def i)
  have v0: "v0 = uint (RECIPROCAL_TABLE ! i)" by (simp add: v0_def i_def)
  show "1024 \<le> v0" "v0 \<le> 2045" using t by (simp_all add: v0)
  then have "v0 * ((int i + 256) * 2 ^ 31) \<le> v0 * d40" "v0 * d40 \<le> v0 * ((int i + 257) * 2 ^ 31)"
    using d40 by (simp_all add: mult_left_mono)
  then show "\<bar>2 ^ 50 - v0 * d40\<bar> \<le> 5 * 2 ^ 39" using t(3,4) by (simp add: v0 abs_le_iff)
qed

lemma recip_v1:
  fixes v0 d40 :: u64
  assumes "\<bar>2 ^ 50 - uint v0 * uint d40\<bar> \<le> 5 * 2 ^ 39" "1024 \<le> uint v0" "uint v0 \<le> 2045"
    and "2 ^ 39 < uint d40" "uint d40 \<le> 2 ^ 40"
  shows "uint (push_bit 11 v0 - ucast (to_u32 (drop_bit 40 (ucast (to_u32 (v0 * v0)) * d40))) - 1) =
    2 ^ 11 * uint v0 - uint v0 * uint v0 * uint d40 div 2 ^ 40 - 1" (is "uint ?w = ?i")
proof -
  have sq: "0 \<le> uint v0 * uint v0" "uint v0 * uint v0 \<le> 2045 * 2045"
    using assms(2,3) by (simp, intro mult_mono, simp_all)
  have vv: "uint (ucast (to_u32 (v0 * v0)) :: u64) = uint v0 * uint v0"
    using sq by (simp add: uint_to_u32 uint_word_ariths mod_pos_pos_trivial)
  have pb: "0 \<le> uint v0 * uint v0 * uint d40" "uint v0 * uint v0 * uint d40 \<le> 2045 * 2045 * 2 ^ 40"
    using sq assms by (simp, intro mult_mono, simp_all)
  then have pd: "uint (ucast (to_u32 (v0 * v0)) * d40) = uint v0 * uint v0 * uint d40"
    by (simp add: uint_word_ariths vv mod_pos_pos_trivial)
  have qb: "0 \<le> uint v0 * uint v0 * uint d40 div 2 ^ 40" "uint v0 * uint v0 * uint d40 div 2 ^ 40 < 2 ^ 32"
    using pb by (simp_all add: pos_imp_zdiv_nonneg_iff zdiv_less_iff)
  have q: "ucast (to_u32 (drop_bit 40 (ucast (to_u32 (v0 * v0)) * d40))) =
      (of_int (uint v0 * uint v0 * uint d40 div 2 ^ 40) :: u64)"
    using qb by (intro word_eq_uintI) (simp add: uint_to_u32 uint_shr pd uint_of_int64 mod_pos_pos_trivial)
  have "?w = of_int ?i" unfolding q by (simp add: push_bit_eq_mult)
  moreover have "0 < ?i" "?i < 2 ^ 21" using newton_step1 [OF refl assms(1,4,5)] by simp_all
  ultimately show ?thesis by (simp only: ) (rule uint_of_int64, simp_all)
qed

lemma recip_v2:
  fixes v1 d40 :: u64
  assumes "0 < 2 ^ 60 - uint v1 * uint d40" "2 ^ 60 - uint v1 * uint d40 \<le> 29 * 2 ^ 38"
    and "0 < uint v1" "uint v1 < 2 ^ 21"
    and i: "i = 2 ^ 13 * uint v1 + uint v1 * (2 ^ 60 - uint v1 * uint d40) div 2 ^ 47" "0 < i" "i < 2 ^ 34"
  shows "uint (push_bit 13 v1 + drop_bit 47 (v1 * (0x1000000000000000 - v1 * d40))) = i" (is "uint ?w = _")
proof -
  define e1 where "e1 = 2 ^ 60 - uint v1 * uint d40"
  have "0 \<le> uint v1 * e1" "uint v1 * e1 \<le> 2 ^ 21 * (29 * 2 ^ 38)"
    using assms(1-4) by (simp add: e1_def, intro mult_mono, simp_all add: e1_def)
  moreover have "v1 * (0x1000000000000000 - v1 * d40) = of_int (uint v1 * e1)"
    by (simp add: e1_def)
  ultimately have m: "uint (v1 * (0x1000000000000000 - v1 * d40)) = uint v1 * e1"
    by (intro uint_eq_int64) simp_all
  have "drop_bit 47 (v1 * (0x1000000000000000 - v1 * d40)) = of_int (uint v1 * e1 div 2 ^ 47)"
    by (metis m uint_shr word_of_int_uint)
  then have "?w = of_int i"
    unfolding i(1) e1_def [symmetric] by (simp add: push_bit_eq_mult)
  then show ?thesis using i(2,3) by (intro uint_eq_int64) simp_all
qed

lemma recip_e:
  fixes v2 d :: u64
  assumes e2: "e2 = 2 ^ 97 - uint v2 * uint d" "0 < e2" "e2 < 2 ^ 65"
  shows "uint ((drop_bit 1 v2 AND (0 - (d AND 1))) - v2 * (drop_bit 1 d + (d AND 1))) = e2 div 2"
    (is "uint ?w = _")
proof -
  define k where "k = uint d div 2"
  have half: "drop_bit 1 x = of_int (uint x div 2)" for x :: u64
    by (metis uint_shr power_one_right word_of_int_uint)
  have z: "(of_int (2 ^ 96) :: u64) = 0" by (simp add: word_uint_eq_iff uint_word_of_int)
  have "?w = of_int (e2 div 2)"
  proof (cases "even (uint d)")
    case True
    then have d: "uint d = 2 * k" by (simp add: k_def)
    have "d AND 1 = 0" using True by (intro word_eq_uintI) (simp add: uint_and_1)
    then have w: "?w = - (v2 * of_int k)" by (simp add: half [simplified] k_def)
    have "e2 = 2 * (2 ^ 96 - uint v2 * k)" unfolding e2 d by simp
    then have "e2 div 2 = 2 ^ 96 - uint v2 * k" by simp
    then show ?thesis unfolding w by (simp only: of_int_diff z of_int_mult) simp
  next
    case False
    then have d: "uint d = 2 * k + 1" by (simp add: k_def)
    have one: "d AND 1 = 1" using False by (intro word_eq_uintI) (simp add: uint_and_1 mod_2_eq_odd)
    have w: "?w = of_int (uint v2 div 2) - v2 * (of_int k + 1)"
      unfolding one by (simp add: half [simplified] k_def)
    have "e2 = 2 * (2 ^ 96 - uint v2 * k) + - uint v2" unfolding e2 d by (simp add: algebra_simps)
    then have "e2 div 2 = 2 ^ 96 - uint v2 * k + (- uint v2) div 2"
      by (simp only: div_mult_self4)
    also have "(- uint v2) div 2 = uint v2 div 2 - uint v2" by presburger
    finally have e: "e2 div 2 = 2 ^ 96 - uint v2 * k + (uint v2 div 2 - uint v2)" .
    show ?thesis unfolding w e by (simp only: of_int_diff of_int_add z of_int_mult) (simp add: algebra_simps)
  qed
  moreover have "0 \<le> e2 div 2" "e2 div 2 < 2 ^ 64" using e2(2,3) by simp_all
  ultimately show ?thesis by (rule uint_eq_int64)
qed

lemma recip_v3:
  assumes "V3 = 2 ^ 31 * uint v2 + uint v2 * uint e div 2 ^ 65" "2 ^ 64 \<le> V3" "V3 < 2 ^ 65"
  shows "uint (drop_bit 1 (snd (umul128 v2 e)) + push_bit 31 v2) = V3 - 2 ^ 64" (is "uint ?w = _")
proof -
  have "uint (drop_bit 1 (snd (umul128 v2 e))) = uint v2 * uint e div 2 ^ 65"
    by (simp add: uint_shr umul128_hi zdiv_zmult2_eq [symmetric])
  then have "drop_bit 1 (snd (umul128 v2 e)) = of_int (uint v2 * uint e div 2 ^ 65)"
    by (metis word_of_int_uint)
  moreover have "(of_int (2 ^ 64) :: u64) = 0" by (simp add: word_uint_eq_iff uint_word_of_int)
  ultimately have "?w = of_int (V3 - 2 ^ 64)"
    unfolding assms(1) by (simp only: of_int_diff of_int_add) (simp add: push_bit_eq_mult)
  then show ?thesis using assms(2,3) by (intro uint_eq_int64) simp_all
qed

lemma recip_v4:
  fixes v3 d :: u64
  assumes V3: "uint v3 = V3 - 2 ^ 64" and e3: "0 < 2 ^ 128 - V3 * uint d" "2 ^ 128 - V3 * uint d \<le> 2 * uint d"
    and um: "umul128 v3 d = (p_lo, p_hi)" and d: "2 ^ 63 \<le> uint d"
    and v4: "v4 = v3 - lo64 (drop_bit 64 (to_u128 p_lo + push_bit 64 (to_u128 p_hi) + to_u128 d)) - d"
  shows "(uint v4 + 2 ^ 64) * uint d < 2 ^ 128 \<and> 2 ^ 128 \<le> (uint v4 + 2 ^ 64 + 1) * uint d"
proof -
  define h where "h = (uint v3 + 1) * uint d div 2 ^ 64"
  have p: "uint p_lo + 2 ^ 64 * uint p_hi = uint v3 * uint d" by (rule umul128_eq [OF um])
  have bnd: "(uint v3 + 1) * uint d \<le> 2 ^ 64 * (2 ^ 64 - 1)"
    using uint64_bounds(2) [of v3] uint64_bounds(2) [of d] by (intro mult_mono) auto
  have s1: "uint (push_bit 64 (to_u128 p_hi)) = 2 ^ 64 * uint p_hi"
    using uint64_bounds(2) [of p_hi] by (subst uint_shl_nowrap) simp_all
  have s2: "uint (to_u128 p_lo + push_bit 64 (to_u128 p_hi)) = uint v3 * uint d"
  proof -
    have "uint v3 * uint d \<le> (uint v3 + 1) * uint d" by (intro mult_right_mono) simp_all
    with bnd have "uint v3 * uint d < 2 ^ 128" by simp
    then show ?thesis using p by (subst uint_add_nowrap) (simp_all add: s1)
  qed
  have s3: "uint (to_u128 p_lo + push_bit 64 (to_u128 p_hi) + to_u128 d) = (uint v3 + 1) * uint d"
    using bnd by (subst uint_add_nowrap) (simp_all add: s2 algebra_simps)
  have hw: "lo64 (drop_bit 64 (to_u128 p_lo + push_bit 64 (to_u128 p_hi) + to_u128 d)) = of_int h"
    unfolding h_def s3 [symmetric] uint_lo64_shr64 [symmetric] by simp
  have v4i: "v4 = of_int (uint v3 - h - uint d)" unfolding v4 hw by simp
  define e3 where "e3 = 2 ^ 128 - V3 * uint d"
  have "(uint v3 + 1) * uint d = 2 ^ 64 * (2 ^ 64 - uint d) + (uint d - e3)"
    by (simp add: e3_def V3 algebra_simps)
  then have h: "h = 2 ^ 64 - uint d + (uint d - e3) div 2 ^ 64"
    unfolding h_def by (simp add: div_mult_self4)
  have z: "(of_int (2 ^ 64) :: u64) = 0" by (simp add: word_uint_eq_iff uint_word_of_int)
  have dlt: "uint d < 2 ^ 64" using uint64_bounds(2) [of d] by simp
  show ?thesis
  proof (cases "e3 \<le> uint d")
    case True
    then have "(uint d - e3) div 2 ^ 64 = 0" using e3 dlt by (simp add: zdiv_eq_0_iff e3_def)
    then have "v4 = of_int (uint v3 - 2 ^ 64)" using v4i h by simp
    then have "v4 = v3" by (simp only: of_int_diff z) simp
    with V3 e3 True show ?thesis by (simp add: e3_def algebra_simps)
  next
    case False
    have "(uint d - e3) div 2 ^ 64 = - 1"
    proof -
      have "(uint d - e3) div 2 ^ 64 < 0" "- 1 \<le> (uint d - e3) div 2 ^ 64"
        using False e3 dlt by (simp_all add: zdiv_less_iff zle_div_iff e3_def)
      then show ?thesis by linarith
    qed
    then have "v4 = of_int (uint v3 + 1 - 2 ^ 64)" using v4i h by simp
    then have v4e: "v4 = of_int (uint v3 + 1)" by (simp only: of_int_diff z) simp
    have lt: "(V3 + 1) * uint d < 2 ^ 128" using False by (simp add: e3_def algebra_simps)
    have "V3 + 1 < 2 ^ 65"
    proof (rule ccontr)
      assume "\<not> V3 + 1 < 2 ^ 65"
      then have "2 ^ 65 * 2 ^ 63 \<le> (V3 + 1) * uint d" using d by (intro mult_mono) auto
      then show False using lt by simp
    qed
    then have "uint v3 + 1 < 2 ^ 64" using V3 by simp
    then have "uint v4 = uint v3 + 1" unfolding v4e by (intro uint_of_int64) simp_all
    with V3 e3 lt show ?thesis by (simp add: algebra_simps)
  qed
qed

lemma reciprocal_sound:
  assumes d: "2 ^ 63 \<le> uint d"
  shows "(uint (reciprocal_2by1 d) + 2 ^ 64) * uint d < 2 ^ 128 \<and>
    2 ^ 128 \<le> (uint (reciprocal_2by1 d) + 2 ^ 64 + 1) * uint d"
proof -
  define v0 :: u64 where "v0 = ucast (RECIPROCAL_TABLE ! unat (drop_bit 55 d - 256))"
  define d40 where "d40 = drop_bit 24 d + 1"
  have dlt: "uint d < 2 ^ 64" using uint64_bounds(2) [of d] by simp
  have "uint d div 2 ^ 24 < 2 ^ 40" "2 ^ 39 \<le> uint d div 2 ^ 24"
    using d dlt by (simp_all add: zdiv_less_iff zle_div_iff)
  then have d40: "uint d40 = uint d div 2 ^ 24 + 1" "2 ^ 39 < uint d40" "uint d40 \<le> 2 ^ 40"
    unfolding d40_def by (simp_all add: uint_add_nowrap uint_shr)
  have dd: "uint d < 2 ^ 24 * uint d40" "2 ^ 24 * uint d40 \<le> uint d + 2 ^ 24"
    unfolding d40(1) using mult_div_mod_eq [of "2 ^ 24" "uint d"] pos_mod_bound [of "2 ^ 24" "uint d"]
      pos_mod_sign [of "2 ^ 24" "uint d"] by simp_all
  note v0 = recip_v0 [OF d, folded d40(1) uint_ucast_u16, folded v0_def]
  define v1 where "v1 = push_bit 11 v0 - ucast (to_u32 (drop_bit 40 (ucast (to_u32 (v0 * v0)) * d40))) - 1"
  note n1 = newton_step1 [OF recip_v1 [OF v0 d40(2,3), folded v1_def] v0(1) d40(2,3)]
  define v2 where "v2 = push_bit 13 v1 + drop_bit 47 (v1 * (0x1000000000000000 - v1 * d40))"
  note n2' = newton_step2 [OF refl n1(1,2,3) d40(2,3) dd]
  have v2: "uint v2 = 2 ^ 13 * uint v1 + uint v1 * (2 ^ 60 - uint v1 * uint d40) div 2 ^ 47"
    unfolding v2_def by (intro recip_v2 n1 refl n2'(3,4))
  note n2 = newton_step2 [OF v2 n1(1,2,3) d40(2,3) dd]
  define e where "e = (drop_bit 1 v2 AND (0 - (d AND 1))) - v2 * (drop_bit 1 d + (d AND 1))"
  define e2 where "e2 = 2 ^ 97 - uint v2 * uint d"
  have "e2 < 2 ^ 65" using n2(2) dlt by (simp add: e2_def)
  then have e: "uint e = e2 div 2"
    unfolding e_def by (intro recip_e) (use n2(1) in \<open>simp_all add: e2_def\<close>)
  define V3 where "V3 = 2 ^ 31 * uint v2 + uint v2 * uint e div 2 ^ 65"
  note n3 = newton_step3 [OF V3_def [unfolded e] e2_def n2(1,2) [folded e2_def] n2(3,4) d dlt]
  define v3 where "v3 = drop_bit 1 (snd (umul128 v2 e)) + push_bit 31 v2"
  have v3: "uint v3 = V3 - 2 ^ 64" unfolding v3_def by (rule recip_v3 [OF V3_def n3(3,4)])
  obtain p_lo p_hi where um: "umul128 v3 d = (p_lo, p_hi)" by fastforce
  have "reciprocal_2by1 d =
      v3 - lo64 (drop_bit 64 (to_u128 p_lo + push_bit 64 (to_u128 p_hi) + to_u128 d)) - d"
    using um by (simp add: reciprocal_2by1_def Let_def case_prod_beta v0_def d40_def v1_def v2_def
        e_def v3_def)
  then show ?thesis by (rule recip_v4 [OF v3 n3(1,2) um d])
qed

text \<open>The candidate remainder of the two-by-one division is off by at most one divisor.\<close>

lemma candidate_bounds:
  fixes B d V u1 u0 Q q0 r :: int
  assumes "V * d < B * B" "B * B \<le> (V + 1) * d" and u: "0 \<le> u1" "u1 < d" "0 \<le> u0" "u0 < B"
    and d: "0 < d" "d < B" and q: "V * u1 + u0 = B * Q + q0" "0 \<le> q0" "q0 < B"
    and r: "r = B * u1 + u0 - (Q + 1) * d"
  shows "- d \<le> r" "q0 - B < r" "r < max (B - d) q0"
proof -
  define k where "k = B * B - V * d"
  have k: "0 < k" "k \<le> d" using assms(1,2) by (simp_all add: k_def algebra_simps)
  have Br: "B * r = u1 * k + u0 * (B - d) + q0 * d - B * d"
    using q(1) unfolding r k_def by algebra
  have n: "0 \<le> u1 * k" "0 \<le> u0 * (B - d)" "0 \<le> q0 * d" using u k d q by simp_all
  have "B * (- d) \<le> B * r" using Br n by simp
  then show "- d \<le> r" using d mult_le_cancel_left_pos [of B "- d" r] by simp
  have "(B - q0) * d < (B - q0) * B" using d q by (intro mult_strict_left_mono) auto
  then have "B * (q0 - B) < B * r" using Br n by (simp add: algebra_simps)
  then show "q0 - B < r" using d by simp
  have "u1 * k \<le> (d - 1) * d" using u k d by (intro mult_mono) auto
  moreover have "u0 * (B - d) \<le> B * (B - d)" using u d by (intro mult_right_mono) auto
  ultimately have "B * r < (B - d) * (B - d) + q0 * d" using Br d by (simp add: algebra_simps)
  also have "\<dots> \<le> max (B - d) q0 * (B - d) + max (B - d) q0 * d"
    using d by (intro add_mono mult_right_mono) auto
  also have "\<dots> = B * max (B - d) q0" by (simp add: algebra_simps)
  finally show "r < max (B - d) q0" using d by simp
qed

lemma divrem_words:
  fixes q r d :: u64
  assumes "q = of_int qs" "r = of_int rs" "0 \<le> rs" "rs < uint d" "qs * uint d + rs = U"
    and "0 \<le> U" "U < 2 ^ 64 * uint d"
  shows "uint q * uint d + uint r = U \<and> uint r < uint d"
proof -
  have "uint r = rs" using assms(2,3,4) uint64_bounds(2) [of d] by (intro uint_eq_int64) simp_all
  moreover have "uint q = qs"
  proof (intro uint_eq_int64 assms(1))
    have d: "0 < uint d" using assms(3,4) by simp
    have "- 1 * uint d < qs * uint d" using assms(4-6) by simp
    then show "0 \<le> qs" using d mult_less_cancel_right_pos [of "uint d" "- 1" qs] by simp
    have "qs * uint d < 2 ^ 64 * uint d" using assms(3,5,7) by simp
    then show "qs < 2 ^ 64" using d mult_less_cancel_right_pos [of "uint d" qs "2 ^ 64"] by simp
  qed
  ultimately show ?thesis using assms(4,5) by simp
qed

lemma udivrem_sum:
  fixes u_lo u_hi d v :: u64
  assumes V: "(uint v + 2 ^ 64) * uint d < 2 ^ 128" and u: "uint u_hi < uint d"
    and um: "umul128 v u_hi = (q_lo, q_hi)"
  shows "uint (to_u128 q_lo + push_bit 64 (to_u128 q_hi) + to_u128 u_lo + push_bit 64 (to_u128 u_hi)) =
    (uint v + 2 ^ 64) * uint u_hi + uint u_lo"
proof -
  have s1: "uint (push_bit 64 (to_u128 x)) = 2 ^ 64 * uint x" for x
    using uint64_bounds(2) [of x] by (subst uint_shl_nowrap) simp_all
  have p: "uint q_lo + 2 ^ 64 * uint q_hi = uint v * uint u_hi" by (rule umul128_eq [OF um])
  have "(uint v + 2 ^ 64) * (uint u_hi + 1) \<le> (uint v + 2 ^ 64) * uint d"
    using u by (intro mult_left_mono) auto
  then have b: "uint v * uint u_hi + 2 ^ 64 * uint u_hi + uint v + 2 ^ 64 < 2 ^ 128"
    using V by (simp add: algebra_simps)
  have lo: "uint u_lo < 2 ^ 64" using uint64_bounds(2) [of u_lo] by simp
  note b' = partial_sums_less [OF b lo, simplified]
  have t1: "uint (to_u128 q_lo + push_bit 64 (to_u128 q_hi)) = uint v * uint u_hi"
    using b' p by (subst uint_add_nowrap) (simp_all add: s1)
  have t2: "uint (to_u128 q_lo + push_bit 64 (to_u128 q_hi) + to_u128 u_lo) = uint v * uint u_hi + uint u_lo"
    using b' by (subst uint_add_nowrap) (simp_all add: t1)
  show ?thesis
    using b' by (subst uint_add_nowrap) (simp_all add: t2 s1, simp_all add: algebra_simps)
qed

text \<open>The two corrections turn a candidate within these bounds into the exact result.\<close>

lemma divrem_adjust:
  fixes qh rw q0 d q r :: u64
  assumes qh: "qh = of_int (Q + 1)" and rw: "rw = of_int rt" and rt: "rt = U - (Q + 1) * uint d"
    and cand: "- uint d \<le> rt" "uint q0 - 2 ^ 64 < rt" "rt < max (2 ^ 64 - uint d) (uint q0)"
    and d: "2 ^ 63 \<le> uint d" and U: "0 \<le> U" "U < 2 ^ 64 * uint d"
    and res: "(q, r) = (let (qh, rw) = (if rw > q0 then (qh - 1, rw + d) else (qh, rw))
      in if rw \<ge> d then (qh + 1, rw - d) else (qh, rw))"
  shows "uint q * uint d + uint r = U \<and> uint r < uint d"
proof -
  note res' = res [unfolded Let_def word_less_def word_le_def]
  have lt: "uint d < 2 ^ 64" "uint q0 < 2 ^ 64"
    using uint64_bounds(2) [of d] uint64_bounds(2) [of q0] by simp_all
  show ?thesis
  proof (cases "0 \<le> rt")
    case True
    have "rt < 2 ^ 64" using cand(3) lt d by (auto simp: less_max_iff_disj)
    with True have urw: "uint rw = rt" by (rule uint_eq_int64 [OF rw])
    consider "uint q0 < rt" | "rt \<le> uint q0" "uint d \<le> rt" | "rt \<le> uint q0" "rt < uint d" by linarith
    then show ?thesis
    proof cases
      case 1
      then have small: "rt < 2 ^ 64 - uint d" using cand(3) by simp
      then have "uint (rw + d) = rt + uint d" using True by (intro uint_eq_int64) (simp_all add: rw)
      then have "q = qh" "r = rw" using 1 res' True by (simp_all add: urw)
      then have eq: "q = of_int (Q + 1)" "r = of_int rt" by (simp_all add: qh rw)
      show ?thesis by (rule divrem_words [OF eq _ _ _ U]) (use True small d in \<open>auto simp: rt\<close>)
    next
      case 2
      then have "q = qh + 1" "r = rw - d" using res' by (simp_all add: urw)
      then have eq: "q = of_int (Q + 2)" "r = of_int (rt - uint d)" by (simp_all add: qh rw)
      show ?thesis
        by (rule divrem_words [OF eq _ _ _ U]) (use 2 lt d in \<open>auto simp: rt algebra_simps\<close>)
    next
      case 3
      then have "q = qh" "r = rw" using res' by (simp_all add: urw)
      then have eq: "q = of_int (Q + 1)" "r = of_int rt" by (simp_all add: qh rw)
      show ?thesis by (rule divrem_words [OF eq _ _ _ U]) (use True 3 in \<open>auto simp: rt\<close>)
    qed
  next
    case False
    have "rw = of_int (rt + 2 ^ 64)" by (simp add: rw word_uint_eq_iff uint_word_ariths uint_word_of_int)
    then have "uint rw = rt + 2 ^ 64" by (rule uint_eq_int64) (use False cand(1) lt in auto)
    moreover have "uint (rw + d) = rt + uint d"
      using False cand(1) lt by (intro uint_eq_int64) (simp_all add: rw)
    ultimately have "q = qh - 1" "r = rw + d" using res' False cand(2) by simp_all
    then have eq: "q = of_int Q" "r = of_int (rt + uint d)" by (simp_all add: qh rw)
    show ?thesis
      by (rule divrem_words [OF eq _ _ _ U]) (use False cand(1) in \<open>auto simp: rt algebra_simps\<close>)
  qed
qed

lemma udivrem_2by1_sound:
  assumes d: "2 ^ 63 \<le> uint d" and u: "uint u_hi < uint d"
    and V: "(uint v + 2 ^ 64) * uint d < 2 ^ 128" "2 ^ 128 \<le> (uint v + 2 ^ 64 + 1) * uint d"
    and res: "udivrem_2by1 u_lo u_hi d v = (q, r)"
  shows "uint q * uint d + uint r = 2 ^ 64 * uint u_hi + uint u_lo \<and> uint r < uint d"
proof -
  obtain q_lo q_hi where um: "umul128 v u_hi = (q_lo, q_hi)" by fastforce
  define q128 where "q128 = to_u128 q_lo + push_bit 64 (to_u128 q_hi) + to_u128 u_lo + push_bit 64 (to_u128 u_hi)"
  define Q where "Q = uint (lo64 (drop_bit 64 q128))"
  define U where "U = 2 ^ 64 * uint u_hi + uint u_lo"
  define rt where "rt = U - (Q + 1) * uint d"
  have lt: "uint d < 2 ^ 64" "uint u_lo < 2 ^ 64" "uint (lo64 q128) < 2 ^ 64"
    using uint64_bounds(2) [of d] uint64_bounds(2) [of u_lo] uint64_bounds(2) [of "lo64 q128"]
    by simp_all
  have sum: "(uint v + 2 ^ 64) * uint u_hi + uint u_lo = 2 ^ 64 * Q + uint (lo64 q128)"
    using udivrem_sum [OF V(1) u um, of u_lo, folded q128_def] uint_lo64_shr64 [of q128]
      uint_lo64 [of q128] by (simp add: Q_def)
  have cand: "- uint d \<le> rt" "uint (lo64 q128) - 2 ^ 64 < rt" "rt < max (2 ^ 64 - uint d) (uint (lo64 q128))"
    by (rule candidate_bounds [of "uint v + 2 ^ 64" "uint d" "2 ^ 64" "uint u_hi" "uint u_lo" Q];
        use V u lt sum d in \<open>simp add: rt_def U_def\<close>)+
  have U: "0 \<le> U" "U < 2 ^ 64 * uint d" using u lt(2) by (simp_all add: U_def)
  have rw: "u_lo - (lo64 (drop_bit 64 q128) + 1) * d = of_int rt"
    by (simp add: rt_def U_def Q_def word_uint_eq_iff uint_word_ariths uint_word_of_int mod_simps)
  have qh: "lo64 (drop_bit 64 q128) + 1 = of_int (Q + 1)" by (simp add: Q_def)
  have "uint q * uint d + uint r = U \<and> uint r < uint d"
    by (rule divrem_adjust [OF qh rw rt_def cand d U])
      (use um in \<open>simp add: res [symmetric] udivrem_2by1_def Let_def q128_def case_prod_beta\<close>)
  then show ?thesis by (simp add: U_def)
qed

section \<open>Division by one limb\<close>

text \<open>Undoing the normalisation: quotients agree and the remainder is shifted.\<close>

lemma denorm_divmod:
  fixes Q R D A :: int
  assumes "Q * (D * 2 ^ s) + R = 2 ^ s * A" "0 \<le> R" "R < D * 2 ^ s"
  shows "Q * D + R div 2 ^ s = A" "R div 2 ^ s < D" "0 \<le> R div 2 ^ s" "R mod 2 ^ s = 0"
proof -
  have R: "R = 2 ^ s * (A - Q * D)" using assms(1) by (simp add: algebra_simps)
  then show "Q * D + R div 2 ^ s = A" "R mod 2 ^ s = 0" by simp_all
  show "R div 2 ^ s < D" using assms(3) by (simp add: zdiv_less_iff)
  show "0 \<le> R div 2 ^ s" using assms(2) by (simp add: pos_imp_zdiv_nonneg_iff)
qed

lemma divmod_single_limb_sound:
  assumes d: "divisor \<noteq> 0" and res: "divmod_single_limb (limbs a) divisor = (q, r)"
  shows "uval q * uint divisor + uval r = uval a \<and> uval r < uint divisor"
proof -
  define s where "s = clzll divisor"
  define dn where "dn = push_bit s divisor"
  note clz = clzll_sound [OF d, folded s_def]
  have dn: "uint dn = uint divisor * 2 ^ s" "2 ^ 63 \<le> uint dn"
    using clz by (simp_all add: dn_def uint_shl_nowrap)
  define u where "u = (if s = 0 then [limb0 a, limb1 a, limb2 a, limb3 a, 0]
    else [push_bit s (limb0 a), push_bit s (limb1 a) OR drop_bit (64 - s) (limb0 a),
      push_bit s (limb2 a) OR drop_bit (64 - s) (limb1 a),
      push_bit s (limb3 a) OR drop_bit (64 - s) (limb2 a), drop_bit (64 - s) (limb3 a)])"
  have u: "uint (u ! 0) + 2 ^ 64 * uint (u ! 1) + 2 ^ 128 * uint (u ! 2) + 2 ^ 192 * uint (u ! 3) +
      2 ^ 256 * uint (u ! 4) = 2 ^ s * uval a \<and> uint (u ! 4) < uint dn"
  proof (cases "s = 0")
    case True
    then show ?thesis using dn(2) by (simp add: u_def uval_def)
  next
    case False
    note sp = limb_shift_split [OF clz(1)]
    have c: "uint (drop_bit (64 - s) x) < 2 ^ s" for x :: u64 using limb_carry [of s x] clz(1) False by simp
    have "(2::int) ^ s \<le> 2 ^ 63" using clz(1) power_increasing [of s 63 "2 :: int"] by simp
    then have "uint (u ! 4) < uint dn" using c [of "limb3 a"] dn(2) False by (simp add: u_def)
    moreover have "uint (u ! 0) + 2 ^ 64 * uint (u ! 1) + 2 ^ 128 * uint (u ! 2) +
        2 ^ 192 * uint (u ! 3) + 2 ^ 256 * uint (u ! 4) = 2 ^ s * uval a"
      using False sp [of "limb0 a"] sp [of "limb1 a"] sp [of "limb2 a"] sp [of "limb3 a"]
      by (simp add: u_def limb_join [OF clz(1) c] uint_shr uval_def algebra_simps)
    ultimately show ?thesis by simp
  qed
  define v where "v = reciprocal_2by1 dn"
  note V = reciprocal_sound [OF dn(2), folded v_def]
  obtain q3 r3 where 3: "udivrem_2by1 (u ! 3) (u ! 4) dn v = (q3, r3)" by fastforce
  obtain q2 r2 where 2: "udivrem_2by1 (u ! 2) r3 dn v = (q2, r2)" by fastforce
  obtain q1 r1 where 1: "udivrem_2by1 (u ! 1) r2 dn v = (q1, r1)" by fastforce
  obtain q0 r0 where 0: "udivrem_2by1 (u ! 0) r1 dn v = (q0, r0)" by fastforce
  note s3 = udivrem_2by1_sound [OF dn(2) conjunct2 [OF u] conjunct1 [OF V] conjunct2 [OF V] 3]
  note s2 = udivrem_2by1_sound [OF dn(2) conjunct2 [OF s3] conjunct1 [OF V] conjunct2 [OF V] 2]
  note s1 = udivrem_2by1_sound [OF dn(2) conjunct2 [OF s2] conjunct1 [OF V] conjunct2 [OF V] 1]
  note s0 = udivrem_2by1_sound [OF dn(2) conjunct2 [OF s1] conjunct1 [OF V] conjunct2 [OF V] 0]
  have qr: "q = uint256_from_limbs q0 q1 q2 q3" "r = uint256_from_u64 (drop_bit s r0)"
    using res 0 1 2 3
    by (simp_all add: divmod_single_limb_def Let_def limbs_nth s_def dn_def v_def u_def split: if_splits)
  have tot: "uval q * uint dn + uint r0 = 2 ^ s * uval a"
    using s0 s1 s2 s3 u by (simp add: qr uval_from_limbs algebra_simps)
  show ?thesis
    using denorm_divmod [OF tot [unfolded dn(1)] uint_ge_0 conjunct2 [OF s0, unfolded dn(1)]]
    by (simp add: qr uint_shr)
qed

declare shl_loop.simps [simp del] refine_q_hat.simps [simp del] mul_sub_loop.simps [simp del]
  add_back_loop.simps [simp del]

section \<open>The loops of algorithm D\<close>

lemma shl_step_value:
  fixes y S P B c k X L :: int
  assumes "y * S = P + B * c"
  shows "(P + k) * X + X * B * (c + S * L) = X * (k + S * (y + B * L))"
  using assms by algebra

lemma shl_loop_sound:
  assumes "shl_loop s src n i dst carry = (dst', carry')" and "0 < s" "s < 64"
    and "i \<le> n" "n \<le> length dst" "uint carry < 2 ^ s"
  shows "limbs_val dst' 0 n + 2 ^ (64 * n) * uint carry' =
      limbs_val dst 0 i + 2 ^ (64 * i) * (uint carry + 2 ^ s * limbs_val src i (n - i)) \<and>
    uint carry' < 2 ^ s \<and> length dst' = length dst \<and> (\<forall>k\<ge>n. dst' ! k = dst ! k)"
  using assms
proof (induction s src n i dst carry rule: shl_loop.induct)
  case (1 s src n i dst carry)
  show ?case
  proof (cases "i < n")
    case True
    define x where "x = push_bit s (src ! i) OR carry"
    define c where "c = drop_bit (64 - s) (src ! i)"
    have "shl_loop s src n (i + 1) (dst[i := x]) c = (dst', carry')"
      using 1(2) True by (simp add: shl_loop.simps [of s src n i] x_def c_def)
    moreover have c: "uint c < 2 ^ s" unfolding c_def using 1 by (intro limb_carry) auto
    ultimately have ih: "limbs_val dst' 0 n + 2 ^ (64 * n) * uint carry' =
        limbs_val (dst[i := x]) 0 (i + 1) +
        2 ^ (64 * (i + 1)) * (uint c + 2 ^ s * limbs_val src (i + 1) (n - (i + 1)))"
      "uint carry' < 2 ^ s" "length dst' = length dst" "\<forall>k\<ge>n. dst' ! k = dst ! k"
      using 1(1) [OF True, folded x_def c_def] 1(3-6) True by auto
    have x: "uint x = uint (push_bit s (src ! i)) + uint carry"
      unfolding x_def by (rule limb_join) (use 1 in auto)
    have sp: "uint (src ! i) * 2 ^ s = uint (push_bit s (src ! i)) + 2 ^ 64 * uint c"
      unfolding c_def uint_shr by (rule limb_shift_split) (use 1 in auto)
    have low: "limbs_val src i (n - i) = uint (src ! i) + 2 ^ 64 * limbs_val src (i + 1) (n - (i + 1))"
      using True limbs_val_Suc_low [of src i "n - (i + 1)"] by (simp add: Suc_diff_Suc)
    have "limbs_val (dst[i := x]) 0 (i + 1) = limbs_val dst 0 i + uint x * 2 ^ (64 * i)"
      using 1(6) True by (simp add: limbs_val_Suc)
    with ih(1) have "limbs_val dst' 0 n + 2 ^ (64 * n) * uint carry' =
        limbs_val dst 0 i + uint x * 2 ^ (64 * i) +
        2 ^ (64 * i) * 2 ^ 64 * (uint c + 2 ^ s * limbs_val src (i + 1) (n - (i + 1)))"
      by (simp add: power_add)
    also have "\<dots> = limbs_val dst 0 i + 2 ^ (64 * i) * (uint carry + 2 ^ s * limbs_val src i (n - i))"
      unfolding x low using shl_step_value [OF sp, of "uint carry"] by simp
    finally show ?thesis using ih by simp
  next
    case False
    with 1 show ?thesis by (simp add: shl_loop.simps [of s src n i])
  qed
qed

lemma copy_loop_length [simp]: "length (copy_loop src n dst) = length dst"
  by (simp add: copy_loop_def)

lemma copy_loop_nth:
  "k < length dst \<Longrightarrow> copy_loop src n dst ! k = (if k < n then src ! k else dst ! k)"
  by (simp add: copy_loop_def foldl_upd_nth)

lemma limbs_val_copy:
  "n \<le> length dst \<Longrightarrow> limbs_val (copy_loop src n dst) 0 n = limbs_val src 0 n"
  by (intro limbs_val_cong) (simp add: copy_loop_nth)

text \<open>One digit of a subtraction: the new digit and the borrow.\<close>

lemma borrow_digit:
  fixes ui :: u64 and sub :: u128
  assumes sub: "uint sub \<le> 2 ^ 64"
  defines "diff \<equiv> to_u128 ui + push_bit 64 1 - sub"
  shows "uint (lo64 diff) = uint ui - uint sub + 2 ^ 64 * uint (1 - drop_bit 64 diff)"
    "uint (1 - drop_bit 64 diff) \<le> 1"
proof -
  have ui: "uint ui < 2 ^ 64" using uint64_bounds(2) [of ui] by simp
  have t: "uint (to_u128 ui + push_bit 64 1) = uint ui + 2 ^ 64"
    using ui by (subst uint_add_nowrap) (simp_all add: uint_shl)
  have "uint sub \<le> uint ui + 2 ^ 64" using sub uint_ge_0 [of ui] by linarith
  then have diff: "uint diff = uint ui + 2 ^ 64 - uint sub"
    unfolding diff_def by (subst uint_sub_nowrap) (use t in simp_all)
  have "uint diff < 2 * 2 ^ 64" using diff ui uint_ge_0 [of sub] by linarith
  then have Db: "0 \<le> uint diff div 2 ^ 64" "uint diff div 2 ^ 64 < 2"
    by (simp_all add: pos_imp_zdiv_nonneg_iff zdiv_less_iff)
  then have b1: "uint (1 - drop_bit 64 diff) = 1 - uint diff div 2 ^ 64"
    by (subst uint_sub_nowrap) (simp_all add: uint_shr)
  show "uint (1 - drop_bit 64 diff) \<le> 1" using Db by (simp add: b1)
  have "uint (lo64 diff) = uint diff - 2 ^ 64 * (uint diff div 2 ^ 64)"
    by (simp add: uint_lo64 minus_mult_div_eq_mod)
  then show "uint (lo64 diff) = uint ui - uint sub + 2 ^ 64 * uint (1 - drop_bit 64 diff)"
    unfolding b1 using diff by simp
qed

lemma mul_sub_digit:
  fixes q c b :: u128 and vi ui :: u64
  assumes "uint q < 2 ^ 64" "uint c < 2 ^ 64" "uint b \<le> 1"
  defines "pr \<equiv> q * to_u128 vi + c"
  defines "diff \<equiv> to_u128 ui + push_bit 64 1 - ((pr AND (push_bit 64 1 - 1)) + b)"
  shows "uint (lo64 diff) = uint ui - uint q * uint vi - uint c - uint b +
      2 ^ 64 * (uint (drop_bit 64 pr) + uint (1 - drop_bit 64 diff))"
    "uint (drop_bit 64 pr) < 2 ^ 64" "uint (1 - drop_bit 64 diff) \<le> 1"
proof -
  have vi: "uint vi < 2 ^ 64" using uint64_bounds(2) [of vi] by simp
  have qv: "uint (q * to_u128 vi) = uint q * uint vi" using assms vi by (simp add: uint_mul128)
  have "uint q * uint vi \<le> (2 ^ 64 - 1) * (2 ^ 64 - 1)"
    using mult_bound64 [of "uint q" "uint vi"] assms vi by simp
  then have pr: "uint pr = uint q * uint vi + uint c"
    unfolding pr_def using assms(2) by (subst uint_add_nowrap) (simp_all add: qv)
  define sub where "sub = (pr AND (push_bit 64 1 - 1)) + b"
  have low: "uint (pr AND (push_bit 64 1 - 1)) = uint pr mod 2 ^ 64"
  proof -
    have "pr AND (push_bit 64 1 - 1) = take_bit 64 pr"
      by (simp add: take_bit_eq_mask mask_eq_exp_minus_1)
    then show ?thesis by (simp add: take_bit_eq_mod uint_mod_distrib)
  qed
  have m: "uint pr mod 2 ^ 64 < 2 ^ 64" by simp
  have sub: "uint sub = uint pr mod 2 ^ 64 + uint b"
    unfolding sub_def using assms(3) m by (subst uint_add_nowrap) (simp_all add: low [simplified])
  then have "uint sub \<le> 2 ^ 64" using m assms(3) by linarith
  note dig = borrow_digit [OF this, of ui, unfolded sub_def, folded diff_def, folded sub_def]
  show "uint (1 - drop_bit 64 diff) \<le> 1" by (rule dig(2))
  show "uint (drop_bit 64 pr) < 2 ^ 64" by (rule uint_shr64_less)
  have "uint pr mod 2 ^ 64 = uint q * uint vi + uint c - 2 ^ 64 * uint (drop_bit 64 pr)"
    by (simp add: uint_shr minus_mult_div_eq_mod [symmetric] pr)
  then show "uint (lo64 diff) = uint ui - uint q * uint vi - uint c - uint b +
      2 ^ 64 * (uint (drop_bit 64 pr) + uint (1 - drop_bit 64 diff))"
    unfolding dig(1) sub by simp
qed

lemma mul_sub_loop_sound:
  assumes "mul_sub_loop q v j n i u c b = (u', c', b')"
    and "uint q < 2 ^ 64" "uint c < 2 ^ 64" "uint b \<le> 1" "i \<le> n" "j + n \<le> length u"
  shows "limbs_val u' j n = limbs_val u j n - uint q * (limbs_val v 0 n - limbs_val v 0 i) -
      2 ^ (64 * i) * (uint c + uint b) + 2 ^ (64 * n) * (uint c' + uint b') \<and>
    uint c' < 2 ^ 64 \<and> uint b' \<le> 1 \<and> length u' = length u \<and>
    (\<forall>k. k < j + i \<or> j + n \<le> k \<longrightarrow> u' ! k = u ! k)"
  using assms
proof (induction q v j n i u c b rule: mul_sub_loop.induct)
  case (1 q v j n i u c b)
  show ?case
  proof (cases "i < n")
    case True
    define pr where "pr = q * to_u128 (v ! i) + c"
    define diff where "diff = to_u128 (u ! (j + i)) + push_bit 64 1 - ((pr AND (push_bit 64 1 - 1)) + b)"
    note digit = mul_sub_digit(1) [OF 1(3-5), of "u ! (j + i)" "v ! i", folded pr_def, folded diff_def]
      mul_sub_digit(2) [OF 1(3-5), of "v ! i", folded pr_def]
      mul_sub_digit(3) [OF 1(3-5), of "u ! (j + i)" "v ! i", folded pr_def, folded diff_def]
    have "mul_sub_loop q v j n (i + 1) (u[j + i := lo64 diff]) (drop_bit 64 pr) (1 - drop_bit 64 diff) =
        (u', c', b')"
      using 1(2) True by (simp add: mul_sub_loop.simps [of q v j n i] Let_def pr_def diff_def)
    then have ih: "limbs_val u' j n = limbs_val (u[j + i := lo64 diff]) j n -
        uint q * (limbs_val v 0 n - limbs_val v 0 (i + 1)) -
        2 ^ (64 * (i + 1)) * (uint (drop_bit 64 pr) + uint (1 - drop_bit 64 diff)) +
        2 ^ (64 * n) * (uint c' + uint b')"
      "uint c' < 2 ^ 64" "uint b' \<le> 1" "length u' = length u"
      "\<forall>k. k < j + (i + 1) \<or> j + n \<le> k \<longrightarrow> u' ! k = u[j + i := lo64 diff] ! k"
      using 1(1) [OF True refl refl refl refl refl refl, folded pr_def, folded diff_def] 1(3,6,7) True
        digit(2,3) by auto
    have upd: "limbs_val (u[j + i := lo64 diff]) j n =
        limbs_val u j n + 2 ^ (64 * i) * (uint (lo64 diff) - uint (u ! (j + i)))"
      using limbs_val_upd_in [of j "j + i" n u "lo64 diff"] True 1(7) by simp
    have "limbs_val u' j n = limbs_val u j n - uint q * (limbs_val v 0 n - limbs_val v 0 i) -
        2 ^ (64 * i) * (uint c + uint b) + 2 ^ (64 * n) * (uint c' + uint b')"
      unfolding ih(1) upd digit(1) by (simp add: limbs_val_Suc power_add algebra_simps)
    with ih True show ?thesis by auto
  next
    case False
    with 1 show ?thesis by (simp add: mul_sub_loop.simps [of q v j n i])
  qed
qed

lemma add_back_loop_sound:
  assumes "add_back_loop v j n i u c = (u', c')" and "uint c \<le> 1" "i \<le> n" "j + n \<le> length u"
  shows "limbs_val u' j n + 2 ^ (64 * n) * uint c' =
      limbs_val u j n + (limbs_val v 0 n - limbs_val v 0 i) + 2 ^ (64 * i) * uint c \<and>
    uint c' \<le> 1 \<and> length u' = length u \<and> (\<forall>k. k < j + i \<or> j + n \<le> k \<longrightarrow> u' ! k = u ! k)"
  using assms
proof (induction v j n i u c rule: add_back_loop.induct)
  case (1 v j n i u c)
  show ?case
  proof (cases "i < n")
    case True
    define sm where "sm = to_u128 (u ! (j + i)) + to_u128 (v ! i) + to_u128 c"
    have b: "uint (u ! (j + i)) < 2 ^ 64" "uint (v ! i) < 2 ^ 64"
      using uint64_bounds(2) [of "u ! (j + i)"] uint64_bounds(2) [of "v ! i"] by simp_all
    have sm: "uint sm = uint (u ! (j + i)) + uint (v ! i) + uint c"
      unfolding sm_def using b 1(3) by (simp add: uint_add_nowrap)
    have "uint sm < 2 * 2 ^ 64" using sm b 1(3) by linarith
    then have hi: "uint (lo64 (drop_bit 64 sm)) \<le> 1"
      using zdiv_less_iff [of "2 ^ 64" "uint sm" 2] by (simp add: uint_lo64_shr64)
    have sp: "uint (lo64 sm) + 2 ^ 64 * uint (lo64 (drop_bit 64 sm)) = uint (u ! (j + i)) + uint (v ! i) + uint c"
      unfolding sm [symmetric] uint_lo64_shr64 uint_lo64 [of sm] by simp
    have "add_back_loop v j n (i + 1) (u[j + i := lo64 sm]) (lo64 (drop_bit 64 sm)) = (u', c')"
      using 1(2) True by (simp add: add_back_loop.simps [of v j n i] Let_def sm_def)
    then have ih: "limbs_val u' j n + 2 ^ (64 * n) * uint c' =
        limbs_val (u[j + i := lo64 sm]) j n + (limbs_val v 0 n - limbs_val v 0 (i + 1)) +
        2 ^ (64 * (i + 1)) * uint (lo64 (drop_bit 64 sm))"
      "uint c' \<le> 1" "length u' = length u"
      "\<forall>k. k < j + (i + 1) \<or> j + n \<le> k \<longrightarrow> u' ! k = u[j + i := lo64 sm] ! k"
      using 1(1) [OF True refl, folded sm_def] 1(4,5) True hi by auto
    have upd: "limbs_val (u[j + i := lo64 sm]) j n =
        limbs_val u j n + 2 ^ (64 * i) * (uint (lo64 sm) - uint (u ! (j + i)))"
      using limbs_val_upd_in [of j "j + i" n u "lo64 sm"] True 1(5) by simp
    have lo: "uint (lo64 sm) = uint (u ! (j + i)) + uint (v ! i) + uint c - 2 ^ 64 * uint (lo64 (drop_bit 64 sm))"
      using sp by simp
    have "limbs_val u' j n + 2 ^ (64 * n) * uint c' =
        limbs_val u j n + (limbs_val v 0 n - limbs_val v 0 i) + 2 ^ (64 * i) * uint c"
      unfolding ih(1) upd lo by (simp add: limbs_val_Suc power_add algebra_simps)
    with ih True show ?thesis by auto
  next
    case False
    with 1 show ?thesis by (simp add: add_back_loop.simps [of v j n i])
  qed
qed

section \<open>The quotient digit\<close>

text \<open>The test of the loop compares the estimate with the leading digits.\<close>

lemma refine_test:
  fixes q r :: u128 and v2 u2 :: u64
  assumes "uint r < 2 ^ 64" and T: "uint q * v1 + uint r = tmp"
  shows "q \<ge> push_bit 64 1 \<or> q * to_u128 v2 > (push_bit 64 r OR to_u128 u2) \<longleftrightarrow>
    2 ^ 64 \<le> uint q \<or> tmp * 2 ^ 64 + uint u2 < uint q * (v1 * 2 ^ 64 + uint v2)"
proof (cases "2 ^ 64 \<le> uint q")
  case True
  then show ?thesis by (simp add: word_le_def uint_shl)
next
  case False
  have j: "uint (push_bit 64 r OR to_u128 u2) = uint r * 2 ^ 64 + uint u2"
    using assms(1) uint64_bounds(2) [of u2] by (simp add: uint_join128)
  have q: "uint (q * to_u128 v2) = uint q * uint v2"
    using False uint64_bounds(2) [of v2] by (simp add: uint_mul128)
  have "(q \<ge> push_bit 64 1) = False" using False by (simp add: word_le_def uint_shl)
  moreover have "uint r * 2 ^ 64 + uint u2 < uint q * uint v2 \<longleftrightarrow>
      tmp * 2 ^ 64 + uint u2 < uint q * (v1 * 2 ^ 64 + uint v2)"
    unfolding T [symmetric] by (simp add: algebra_simps)
  ultimately show ?thesis using False unfolding word_less_def j q by simp
qed

lemma refine_q_hat_sound:
  fixes q_hat r_hat :: u128 and v1 v2 u2 :: u64
  assumes "uint q_hat * uint v1 + uint r_hat = tmp" "uint r_hat < 2 ^ 64" "0 < uint v1"
    and "tmp < (uint v1 + 1) * 2 ^ 64"
    and m: "m = min ((tmp * 2 ^ 64 + uint u2) div (uint v1 * 2 ^ 64 + uint v2)) (2 ^ 64 - 1)"
    and "m \<le> uint q_hat"
  shows "uint (refine_q_hat v1 v2 u2 q_hat r_hat) = m"
  using assms
proof (induction v1 v2 u2 q_hat r_hat rule: refine_q_hat.induct)
  case (1 v1 v2 u2 q_hat r_hat)
  define W where "W = uint v1 * 2 ^ 64 + uint v2"
  define T where "T = tmp * 2 ^ 64 + uint u2"
  have W: "0 < W" using 1(4) uint_ge_0 [of v2] by (simp add: W_def add_pos_nonneg)
  have test: "q_hat \<ge> push_bit 64 1 \<or> q_hat * to_u128 v2 > (push_bit 64 r_hat OR to_u128 u2) \<longleftrightarrow>
      2 ^ 64 \<le> uint q_hat \<or> T < uint q_hat * W"
    unfolding W_def T_def by (rule refine_test [OF 1(3,2)])
  show ?case
  proof (cases "2 ^ 64 \<le> uint q_hat \<or> T < uint q_hat * W")
    case True
    have dec: "m \<le> uint q_hat - 1"
    proof -
      have "T < uint q_hat * W \<Longrightarrow> T div W < uint q_hat" using W by (simp add: zdiv_less_iff)
      then show ?thesis using True unfolding 1(6) W_def [symmetric] T_def [symmetric] by auto
    qed
    have m0: "0 \<le> m"
      using W 1(2) uint_ge_0 [of u2] unfolding 1(6) W_def [symmetric]
      by (auto simp: pos_imp_zdiv_nonneg_iff min_def)
    have q1: "uint (q_hat - 1) = uint q_hat - 1"
      using dec m0 by (subst uint_sub_nowrap) simp_all
    have r1: "uint (r_hat + to_u128 v1) = uint r_hat + uint v1"
      using 1(3) uint64_bounds(2) [of v1] by (subst uint_add_nowrap) simp_all
    have inv: "uint (q_hat - 1) * uint v1 + uint (r_hat + to_u128 v1) = tmp"
      using 1(2) by (simp add: q1 r1 algebra_simps)
    have step: "refine_q_hat v1 v2 u2 q_hat r_hat =
        (if r_hat + to_u128 v1 \<ge> push_bit 64 1 then q_hat - 1
         else refine_q_hat v1 v2 u2 (q_hat - 1) (r_hat + to_u128 v1))"
      unfolding refine_q_hat.simps [of v1 v2 u2 q_hat r_hat] test using True by (simp add: Let_def)
    show ?thesis
    proof (cases "r_hat + to_u128 v1 \<ge> push_bit 64 1")
      case brk: True
      then have rb: "2 ^ 64 \<le> uint (r_hat + to_u128 v1)" by (simp add: word_le_def uint_shl)
      have "uint (q_hat - 1) * uint v1 < 2 ^ 64 * uint v1"
        using inv rb 1(5) by (simp add: algebra_simps)
      then have qb: "uint (q_hat - 1) < 2 ^ 64" using 1(4) by simp
      have "uint (q_hat - 1) * uint v2 \<le> 2 ^ 64 * 2 ^ 64"
        using qb uint64_bounds(2) [of v2] by (intro mult_mono) auto
      also have "\<dots> \<le> uint (r_hat + to_u128 v1) * 2 ^ 64" using rb by simp
      also have "\<dots> \<le> uint (r_hat + to_u128 v1) * 2 ^ 64 + uint u2" by simp
      finally have "uint (q_hat - 1) * W \<le> T"
        unfolding W_def T_def inv [symmetric] by (simp add: algebra_simps)
      then have "uint (q_hat - 1) \<le> T div W" using W by (simp add: zle_div_iff)
      then have "uint (q_hat - 1) \<le> m"
        using qb unfolding 1(6) W_def [symmetric] T_def [symmetric] by simp
      then show ?thesis using step brk dec by (simp add: q1)
    next
      case False
      then have "uint (r_hat + to_u128 v1) < 2 ^ 64" by (simp add: word_le_def uint_shl)
      then show ?thesis
        unfolding step if_not_P [OF False]
        by (rule 1(1) [OF test [THEN iffD2, OF True] refl refl False inv _ 1(4-6)])
          (use dec q1 in simp_all)
    qed
  next
    case False
    then have "uint q_hat \<le> T div W" "uint q_hat \<le> 2 ^ 64 - 1"
      using W by (auto simp: zle_div_iff)
    moreover have "refine_q_hat v1 v2 u2 q_hat r_hat = q_hat"
      unfolding refine_q_hat.simps [of v1 v2 u2 q_hat r_hat] test using False by simp
    ultimately show ?thesis using 1(7) unfolding 1(6) W_def [symmetric] T_def [symmetric] by simp
  qed
qed

text \<open>
  Knuth's bound: with the leading digit of the divisor at least one, the quotient of the leading
  digits is at most one too large.
\<close>

lemma leading_quotient:
  fixes U V T W E q :: int
  assumes "T * E \<le> U" "U < (T + 1) * E" "W * E \<le> V" "V < (W + 1) * E" and B: "B * E \<le> V"
    and pos: "0 < E" "0 < W" "0 \<le> U" "0 < B" and U: "U < B * V"
    and m: "m = min (T div W) (B - 1)"
  shows "U div V \<le> m" "m \<le> U div V + 1" "m < B"
proof -
  have V: "0 < V" using assms(3) pos by (meson less_le_trans mult_pos_pos)
  define q where "q = U div V"
  have q: "0 \<le> q" "q * V \<le> U" "U < (q + 1) * V"
    using V pos zle_div_iff [OF V, of q U] zdiv_less_iff [OF V, of U "q + 1"]
    by (simp_all add: q_def pos_imp_zdiv_nonneg_iff)
  have qB: "q < B" using U V by (simp add: q_def zdiv_less_iff)
  have "q * W * E \<le> q * V" using q(1) assms(3) by (simp add: mult.assoc mult_left_mono)
  also have "\<dots> < (T + 1) * E" using q(2) assms(2) by simp
  finally have "q * W < T + 1" using pos(1) by simp
  then have "q \<le> T div W" using pos(2) by (simp add: zle_div_iff)
  then show "U div V \<le> m" using qB by (simp add: m q_def)
  then have m0: "0 \<le> m" using q(1) by (simp add: q_def)
  show mB: "m < B" by (simp add: m)
  have "m \<le> T div W" by (simp add: m)
  then have "m * W \<le> T" using pos(2) by (simp add: zle_div_iff)
  then have "m * W * E \<le> T * E" using pos(1) by simp
  then have "m * V < U + B * E"
  proof -
    have "m * V \<le> m * ((W + 1) * E)" using assms(4) m0 by (intro mult_left_mono) auto
    also have "\<dots> = m * W * E + m * E" by (simp add: algebra_simps)
    also have "\<dots> < U + B * E"
    proof (rule add_le_less_mono)
      show "m * W * E \<le> U" using \<open>m * W * E \<le> T * E\<close> assms(1) by (rule order_trans)
      show "m * E < B * E" using mB pos(1) by simp
    qed
    finally show ?thesis .
  qed
  also have "\<dots> \<le> (q + 2) * V" using q(3) B by (simp add: algebra_simps)
  finally have "m < q + 2" using V by simp
  then show "m \<le> U div V + 1" by (simp add: q_def)
qed

lemma sub_digit_sound:
  assumes V: "V = limbs_val v 0 n" and U: "U = limbs_val u j (n + 1)" and len: "j + n < length u"
    and q: "uint q_hat < 2 ^ 64" "U div V \<le> uint q_hat" "uint q_hat \<le> U div V + 1" and V0: "0 < V"
    and res: "sub_digit v n j q_hat u = (q, u')"
  shows "uint q = U div V \<and> limbs_val u' j (n + 1) = U mod V \<and> length u' = length u \<and>
    (\<forall>k. k < j \<or> j + n < k \<longrightarrow> u' ! k = u ! k)"
proof -
  define M :: int where "M = 2 ^ (64 * n)"
  have M: "0 < M" by (simp add: M_def)
  obtain u1 c b where ms: "mul_sub_loop q_hat v j n 0 u 0 0 = (u1, c, b)" by (metis prod_cases3)
  have s: "limbs_val u1 j n = limbs_val u j n - uint q_hat * V + M * (uint c + uint b)"
    "uint c < 2 ^ 64" "uint b \<le> 1" "length u1 = length u"
    "\<And>k. k < j \<or> j + n \<le> k \<Longrightarrow> u1 ! k = u ! k"
    using mul_sub_loop_sound [OF ms q(1)] len by (auto simp: V M_def)
  define ut where "ut = u ! (j + n)"
  have ut: "u1 ! (j + n) = ut" using s(5) [of "j + n"] by (simp add: ut_def)
  define diff where "diff = to_u128 ut + push_bit 64 1 - (c + b)"
  define fb where "fb = lo64 (1 - drop_bit 64 diff)"
  have cb: "uint (c + b) = uint c + uint b"
    using s(2,3) by (subst uint_add_nowrap) simp_all
  have "uint (c + b) \<le> 2 ^ 64" using cb s(2,3) by linarith
  note dig = borrow_digit [OF this, of ut, folded diff_def]
  have fb: "uint fb = uint (1 - drop_bit 64 diff)" "0 \<le> uint fb" "uint fb \<le> 1"
    using dig(2) by (simp_all add: fb_def uint_lo64 mod_pos_pos_trivial)
  define u2 where "u2 = u1[j + n := lo64 diff]"
  have u2: "limbs_val u2 j (n + 1) = U - uint q_hat * V + M * 2 ^ 64 * uint fb"
  proof -
    have "limbs_val u2 j (n + 1) = limbs_val u1 j n + uint (lo64 diff) * M"
      using len s(4) by (simp add: u2_def limbs_val_Suc M_def)
    moreover have "U = limbs_val u j n + uint ut * M" by (simp add: U limbs_val_Suc M_def ut_def)
    ultimately show ?thesis unfolding s(1) dig(1) cb fb(1) by (simp add: algebra_simps)
  qed
  have rng: "0 \<le> limbs_val x j (n + 1)" "limbs_val x j (n + 1) < M * 2 ^ 64" for x
    using limbs_val_bounds [of x j "n + 1"] by (simp_all add: M_def power_add mult.commute)
  have VM: "V < M * 2 ^ 64"
  proof -
    have "V < M" using limbs_val_bounds(2) [of v 0 n] by (simp add: V M_def)
    then show ?thesis using M by simp
  qed
  define q0 where "q0 = U div V"
  have qd: "0 \<le> U mod V" "U mod V < V" "U = q0 * V + U mod V"
    using V0 by (simp_all add: q0_def)
  have q0B: "0 \<le> q0" using V0 rng(1) [of u] by (simp add: q0_def U pos_imp_zdiv_nonneg_iff)
  have lq: "uint (lo64 q_hat) = uint q_hat" using q(1) by (simp add: uint_lo64 mod_pos_pos_trivial)
  have keep2: "length u2 = length u" "\<And>k. k < j \<or> j + n < k \<Longrightarrow> u2 ! k = u ! k"
    using s(4,5) by (auto simp: u2_def)
  have res1: "(q, u') = (if fb \<noteq> 0 then case add_back_loop v j n 0 u2 0 of
      (u, ac) \<Rightarrow> (lo64 q_hat - 1, u[j + n := u ! (j + n) + ac]) else (lo64 q_hat, u2))"
    unfolding res [symmetric] by (simp add: sub_digit_def ms Let_def ut diff_def fb_def u2_def)
  show ?thesis
  proof (cases "uint q_hat = q0")
    case True
    have "uint fb = 0"
    proof (rule ccontr)
      assume "uint fb \<noteq> 0"
      then have "uint fb = 1" using fb(2,3) by linarith
      then show False using u2 rng(2) [of u2] qd True by simp
    qed
    then have "fb = 0" by (simp add: word_uint_eq_iff)
    then show ?thesis using res1 u2 True keep2 by (simp add: lq q0_def minus_div_mult_eq_mod)
  next
    case False
    then have q1: "uint q_hat = q0 + 1" using q(2,3) by (simp add: q0_def)
    have "uint fb \<noteq> 0"
      using u2 rng(1) [of u2] qd unfolding q1 by (auto simp: algebra_simps)
    then have fb1: "uint fb = 1" "fb \<noteq> 0" using fb(2,3) by (linarith, auto)
    obtain u3 ac where ab: "add_back_loop v j n 0 u2 0 = (u3, ac)" by fastforce
    have a: "limbs_val u3 j n + M * uint ac = limbs_val u2 j n + V" "uint ac \<le> 1" "length u3 = length u2"
      "\<And>k. k < j \<or> j + n \<le> k \<Longrightarrow> u3 ! k = u2 ! k"
      using add_back_loop_sound [OF ab] len keep2 by (auto simp: V M_def)
    have u': "u' = u3[j + n := u3 ! (j + n) + ac]" and qq: "q = lo64 q_hat - 1"
      using res1 fb1 ab by simp_all
    define top where "top = u2 ! (j + n)"
    have top3: "u3 ! (j + n) = top" using a(4) by (simp add: top_def)
    have val': "limbs_val u' j (n + 1) = limbs_val u3 j n + uint (top + ac) * M"
      using len keep2 a(3) by (simp add: u' top3 limbs_val_Suc M_def)
    have "limbs_val u2 j (n + 1) = limbs_val u2 j n + uint top * M"
      by (simp add: limbs_val_Suc M_def top_def)
    then have "limbs_val u3 j n + (uint top + uint ac) * M = U mod V + M * 2 ^ 64"
      using a(1) u2 qd(3) unfolding q1 fb1 by (simp add: algebra_simps)
    moreover have L3: "0 \<le> limbs_val u3 j n" "limbs_val u3 j n < M"
      using limbs_val_bounds [of u3 j n] by (simp_all add: M_def)
    moreover have "U mod V < M" using qd(2) limbs_val_bounds(2) [of v 0 n] by (simp add: V M_def)
    ultimately have t: "uint top + uint ac = 2 ^ 64" "limbs_val u3 j n = U mod V"
      using digit_eq_iff [of "limbs_val u3 j n" M "U mod V" "uint top + uint ac" "2 ^ 64"] qd(1)
      by (simp_all add: mult.commute)
    have "uint (top + ac) = 0" using t(1) by (simp add: uint_word_ariths)
    moreover have "uint q = q0" unfolding qq using q1 q0B
      by (subst uint_sub_nowrap) (simp_all add: lq)
    ultimately show ?thesis using val' t(2) keep2 a(3,4) by (simp add: q0_def u')
  qed
qed

section \<open>Algorithm D\<close>

lemma limbs_val_top2:
  assumes "2 \<le> n"
  shows "limbs_val v j n = limbs_val v j (n - 2) +
    2 ^ (64 * (n - 2)) * (uint (v ! (j + n - 2)) + 2 ^ 64 * uint (v ! (j + n - 1)))"
proof -
  obtain k where "n = Suc (Suc k)" using assms by (metis add_2_eq_Suc le_Suc_ex)
  then show ?thesis by (simp add: limbs_val_Suc power_add algebra_simps)
qed

lemma limbs_val_top3:
  assumes "2 \<le> n"
  shows "limbs_val u j (n + 1) = limbs_val u j (n - 2) + 2 ^ (64 * (n - 2)) *
    (uint (u ! (j + n - 2)) + 2 ^ 64 * (uint (u ! (j + n - 1)) + 2 ^ 64 * uint (u ! (j + n))))"
proof -
  obtain k where "n = Suc (Suc k)" using assms by (metis add_2_eq_Suc le_Suc_ex)
  then show ?thesis by (simp add: limbs_val_Suc power_add algebra_simps)
qed

lemma estimate_sound:
  assumes n: "2 \<le> n" and nv: "normalized v n" and V: "V = limbs_val v 0 n"
    and U: "U = limbs_val u j (n + 1)" "U < 2 ^ 64 * V"
  defines "tmp \<equiv> push_bit 64 (to_u128 (u ! (j + n))) OR to_u128 (u ! (j + n - 1))"
  defines "q \<equiv> refine_q_hat (v ! (n - 1)) (v ! (n - 2)) (u ! (j + n - 2))
      (tmp div to_u128 (v ! (n - 1))) (tmp mod to_u128 (v ! (n - 1)))"
  shows "U div V \<le> uint q" "uint q \<le> U div V + 1" "uint q < 2 ^ 64"
proof -
  define u2 u1 u0 where "u2 = uint (u ! (j + n))" and "u1 = uint (u ! (j + n - 1))"
    and "u0 = uint (u ! (j + n - 2))"
  define v1 v2 where "v1 = uint (v ! (n - 1))" and "v2 = uint (v ! (n - 2))"
  define E :: int where "E = 2 ^ (64 * (n - 2))"
  have b: "0 \<le> u2" "u2 < 2 ^ 64" "0 \<le> u1" "u1 < 2 ^ 64" "0 \<le> u0" "u0 < 2 ^ 64"
    "2 ^ 63 \<le> v1" "v1 < 2 ^ 64" "0 \<le> v2" "v2 < 2 ^ 64" "0 < E"
    using nv by (simp_all add: u2_def u1_def u0_def v1_def v2_def uint64_bounds normalized_def E_def)
  have tmp: "uint tmp = u2 * 2 ^ 64 + u1"
    unfolding tmp_def using b by (simp add: uint_join128 u2_def u1_def)
  define lv lu where "lv = limbs_val v 0 (n - 2)" and "lu = limbs_val u j (n - 2)"
  have l: "0 \<le> lv" "lv < E" "0 \<le> lu" "lu < E"
    by (simp_all add: lv_def lu_def E_def limbs_val_bounds)
  define W T where "W = v1 * 2 ^ 64 + v2" and "T = (u2 * 2 ^ 64 + u1) * 2 ^ 64 + u0"
  have VW: "V = lv + E * W" using limbs_val_top2 [OF n, of v 0]
    by (simp add: V W_def lv_def E_def v1_def v2_def algebra_simps)
  have UT: "U = lu + E * T" using limbs_val_top3 [OF n, of u j]
    by (simp add: U(1) T_def lu_def E_def u2_def u1_def u0_def algebra_simps)
  define m where "m = min (T div W) (2 ^ 64 - 1)"
  have W: "0 < W" using b by (simp add: W_def)
  have B: "2 ^ 64 * E \<le> V"
  proof -
    have "E * (2 ^ 64) \<le> E * W" using b by (intro mult_left_mono) (simp_all add: W_def)
    then show ?thesis using VW l(1) by (simp add: mult.commute)
  qed
  have lead: "U div V \<le> m" "m \<le> U div V + 1" "m < 2 ^ 64"
    by (rule leading_quotient [OF _ _ _ _ B _ _ _ _ U(2) m_def];
        use l b W in \<open>simp add: VW UT algebra_simps T_def\<close>)+
  have q0: "uint (tmp div to_u128 (v ! (n - 1))) = uint tmp div v1"
    "uint (tmp mod to_u128 (v ! (n - 1))) = uint tmp mod v1"
    by (simp_all add: uint_div_distrib uint_mod_distrib v1_def)
  have "uint q = m"
    unfolding q_def
  proof (rule refine_q_hat_sound)
    show "uint (tmp div to_u128 (v ! (n - 1))) * uint (v ! (n - 1)) +
        uint (tmp mod to_u128 (v ! (n - 1))) = uint tmp"
      unfolding q0 v1_def [symmetric] by simp
    have "uint tmp mod v1 < v1" using b by (intro pos_mod_bound) simp
    then show "uint (tmp mod to_u128 (v ! (n - 1))) < 2 ^ 64"
      unfolding q0 using b(8) by (rule order_less_trans)
    show "0 < uint (v ! (n - 1))" unfolding v1_def [symmetric] using b by simp
    have "E * 2 ^ 128 * u2 \<le> U" using b l by (simp add: UT T_def algebra_simps)
    also have "\<dots> < 2 ^ 64 * V" by (rule U(2))
    also have "\<dots> \<le> 2 ^ 64 * (E * (2 ^ 64 * (v1 + 1)))"
    proof -
      have "V \<le> E * (W + 1)" using l by (simp add: VW algebra_simps)
      also have "\<dots> \<le> E * (2 ^ 64 * (v1 + 1))" using b by (intro mult_left_mono) (simp_all add: W_def)
      finally show ?thesis by simp
    qed
    also have "\<dots> = E * 2 ^ 128 * (v1 + 1)" by simp
    finally have "u2 < v1 + 1" using b by simp
    then show "uint tmp < (uint (v ! (n - 1)) + 1) * 2 ^ 64"
      unfolding tmp v1_def [symmetric] using b by simp
    show "m = min ((uint tmp * 2 ^ 64 + uint (u ! (j + n - 2))) div
        (uint (v ! (n - 1)) * 2 ^ 64 + uint (v ! (n - 2)))) (2 ^ 64 - 1)"
      unfolding m_def T_def W_def tmp v1_def v2_def u0_def ..
    have "m \<le> T div W" by (simp add: m_def)
    then have "m * W \<le> T" using W by (simp add: zle_div_iff)
    moreover have "0 \<le> U div V"
      using limbs_val_bounds(1) [of u j "n + 1"] limbs_val_bounds(1) [of v 0 n]
      by (simp add: U(1) V div_int_pos_iff)
    then have "0 \<le> m" using lead(1) by simp
    then have "0 \<le> m * v2" using b by simp
    ultimately have "m * v1 * 2 ^ 64 < (uint tmp + 1) * 2 ^ 64"
      using b by (simp add: W_def T_def tmp algebra_simps)
    then have "m * v1 \<le> uint tmp" by simp
    then show "m \<le> uint (tmp div to_u128 (v ! (n - 1)))" unfolding q0 using b by (simp add: zle_div_iff)
  qed
  then show "U div V \<le> uint q" "uint q \<le> U div V + 1" "uint q < 2 ^ 64" using lead by simp_all
qed

lemma normalized_pos: "normalized v n \<Longrightarrow> 0 < limbs_val v 0 n"
proof -
  assume h: "normalized v n"
  then obtain k where k: "n = Suc k" by (cases n) (auto simp: normalized_def)
  have "0 < uint (v ! k) * 2 ^ (64 * k)" using h by (simp add: normalized_def k)
  then show ?thesis using limbs_val_bounds(1) [of v 0 k] by (simp add: k limbs_val_Suc)
qed

lemma knuth_step_sound:
  assumes "2 \<le> n" "normalized v n" "j + n < length u" "limbs_val u j (n + 1) < 2 ^ 64 * limbs_val v 0 n"
    and res: "knuth_step v n j (u, ql) = (u', ql')"
  obtains q where "ql' = ql[j := q]" "digit_step v n j u q u'"
proof -
  define q_hat where "q_hat = (let tmp = push_bit 64 (to_u128 (u ! (j + n))) OR to_u128 (u ! (j + n - 1))
    in refine_q_hat (v ! (n - 1)) (v ! (n - 2)) (u ! (j + n - 2))
      (tmp div to_u128 (v ! (n - 1))) (tmp mod to_u128 (v ! (n - 1))))"
  note est = estimate_sound [OF assms(1,2) refl refl assms(4), folded q_hat_def [unfolded Let_def]]
  obtain q u2 where sd: "sub_digit v n j q_hat u = (q, u2)" by fastforce
  have "ql' = ql[j := q]" "u' = u2" using res sd by (simp_all add: knuth_step_def Let_def q_hat_def)
  moreover have "digit_step v n j u q u2"
    unfolding digit_step_def
    by (rule sub_digit_sound [OF refl refl assms(3) est(3,1,2) normalized_pos [OF assms(2)] sd])
  ultimately show thesis using that by blast
qed

lemma digit_step_pre:
  assumes "limbs_val u (Suc j) n < limbs_val v 0 n"
  shows "limbs_val u j (n + 1) < 2 ^ 64 * limbs_val v 0 n"
proof -
  have "2 ^ 64 * (limbs_val u (Suc j) n + 1) \<le> 2 ^ 64 * limbs_val v 0 n"
    using assms by (intro mult_left_mono) auto
  then show ?thesis using uint64_bounds(2) [of "u ! j"] by (simp add: limbs_val_Suc_low)
qed

lemma digit_step_value:
  assumes "digit_step v n j u q u'" "0 < limbs_val v 0 n"
  shows "limbs_val u 0 (Suc j + n) = limbs_val u' 0 (j + n) + 2 ^ (64 * j) * uint q * limbs_val v 0 n"
    "limbs_val u' j n < limbs_val v 0 n" "length u' = length u"
proof -
  define V where "V = limbs_val v 0 n"
  define R where "R = limbs_val u j (n + 1) mod V"
  have st: "uint q = limbs_val u j (n + 1) div V" "limbs_val u' j (n + 1) = R"
    "\<And>k. k < j \<Longrightarrow> u' ! k = u ! k"
    using assms(1) by (simp_all add: digit_step_def V_def R_def)
  show "length u' = length u" using assms(1) by (simp add: digit_step_def)
  have R: "0 \<le> R" "R < V" using assms(2) by (simp_all add: R_def V_def)
  have "R = limbs_val u' j n + uint (u' ! (j + n)) * 2 ^ (64 * n)"
    using st(2) by (simp add: limbs_val_Suc)
  moreover have "V < 2 ^ (64 * n)" by (simp add: V_def limbs_val_bounds)
  ultimately have Rn: "limbs_val u' j n = R"
    using digit_eq_iff [of "limbs_val u' j n" "2 ^ (64 * n)" R "uint (u' ! (j + n))" 0] R
      limbs_val_bounds [of u' j n] by (simp add: mult.commute)
  then show "limbs_val u' j n < limbs_val v 0 n" using R by (simp add: V_def)
  have low: "limbs_val u' 0 j = limbs_val u 0 j" by (intro limbs_val_cong) (simp add: st)
  have "limbs_val u 0 (Suc j + n) = limbs_val u 0 j + 2 ^ (64 * j) * limbs_val u j (n + 1)"
    using limbs_val_add [of u 0 j "n + 1"] by simp
  also have "limbs_val u j (n + 1) = uint q * V + R" by (simp add: st R_def)
  finally show "limbs_val u 0 (Suc j + n) =
      limbs_val u' 0 (j + n) + 2 ^ (64 * j) * uint q * limbs_val v 0 n"
    using limbs_val_add [of u' 0 j n] low Rn by (simp add: V_def algebra_simps)
qed

text \<open>
  The contract of a loop that produces one digit per iteration, from the highest position down.
  Both divisions run such a loop; what it leaves is the remainder.
\<close>

locale digit_loop =
  fixes step :: "u64 list \<Rightarrow> nat \<Rightarrow> nat \<Rightarrow> 's \<Rightarrow> 's"
    and loop :: "u64 list \<Rightarrow> nat \<Rightarrow> nat \<Rightarrow> 's \<Rightarrow> 's"
    and arr :: "'s \<Rightarrow> u64 list"
    and least :: nat
  assumes loop_0: "loop v n 0 s = s"
    and loop_Suc: "loop v n (Suc j) s = loop v n j (step v n j s)"
    and step_digit: "least \<le> n \<Longrightarrow> normalized v n \<Longrightarrow> j + n < length (arr s) \<Longrightarrow>
      limbs_val (arr s) j (n + 1) < 2 ^ 64 * limbs_val v 0 n \<Longrightarrow>
      \<exists>q. digit_step v n j (arr s) q (arr (step v n j s))"
begin

lemma loop_remainder:
  assumes "least \<le> n" "normalized v n" "j + n \<le> length (arr s)"
    and "limbs_val (arr s) j n < limbs_val v 0 n"
  shows "limbs_val (arr (loop v n j s)) 0 n = limbs_val (arr s) 0 (j + n) mod limbs_val v 0 n"
  using assms(3,4)
proof (induction j arbitrary: s)
  case 0
  then show ?case by (simp add: loop_0 mod_pos_pos_trivial limbs_val_bounds)
next
  case (Suc j)
  obtain q where q: "digit_step v n j (arr s) q (arr (step v n j s))"
    using step_digit [OF assms(1,2)] digit_step_pre [OF Suc.prems(2)] Suc.prems(1) by fastforce
  note val = digit_step_value [OF q normalized_pos [OF assms(2)]]
  have "limbs_val (arr (loop v n j (step v n j s))) 0 n =
      limbs_val (arr (step v n j s)) 0 (j + n) mod limbs_val v 0 n"
    using Suc.prems(1) val(2,3) by (intro Suc.IH) simp_all
  then show ?case unfolding loop_Suc val(1) by simp
qed

end

interpretation d256: digit_loop knuth_step knuth_loop fst 2
proof
  fix v n j and s :: "u64 list \<times> u64 list"
  assume "2 \<le> n" "normalized v n" "j + n < length (fst s)"
    "limbs_val (fst s) j (n + 1) < 2 ^ 64 * limbs_val v 0 n"
  then show "\<exists>q. digit_step v n j (fst s) q (fst (knuth_step v n j s))"
    by (cases s; cases "knuth_step v n j s") (auto elim: knuth_step_sound)
qed simp_all

lemma knuth_loop_quotient:
  assumes "2 \<le> n" "normalized v n" "j + n \<le> length u" "j \<le> length ql"
    and "limbs_val u j n < limbs_val v 0 n" and "knuth_loop v n j (u, ql) = (u', ql')"
  shows "limbs_val u 0 (j + n) = limbs_val ql' 0 j * limbs_val v 0 n + limbs_val u' 0 n \<and>
    (\<forall>k\<ge>j. ql' ! k = ql ! k) \<and> length ql' = length ql"
  using assms(3-)
proof (induction j arbitrary: u ql)
  case (Suc j)
  obtain u1 ql1 where s1: "knuth_step v n j (u, ql) = (u1, ql1)" by fastforce
  obtain q where q: "ql1 = ql[j := q]" "digit_step v n j u q u1"
    using knuth_step_sound [OF assms(1,2) _ digit_step_pre [OF Suc.prems(3)] s1] Suc.prems by auto
  note val = digit_step_value [OF q(2) normalized_pos [OF assms(2)]]
  have ih: "limbs_val u1 0 (j + n) = limbs_val ql' 0 j * limbs_val v 0 n + limbs_val u' 0 n"
    "\<forall>k\<ge>j. ql' ! k = ql1 ! k" "length ql' = length ql1"
    using Suc.IH [of u1 ql1] Suc.prems s1 val q(1) by auto
  have "ql' ! j = q" using ih(2) q(1) Suc.prems(2) by simp
  then show ?case
    using ih val(1) q(1) by (auto simp: limbs_val_Suc algebra_simps)
qed simp

section \<open>Undoing the normalisation\<close>

lemma denormalize_shift:
  assumes "0 < s" "s < 64" and "\<And>i. j \<le> i \<Longrightarrow> Suc i < j + Suc m \<Longrightarrow>
      r ! i = drop_bit s (u ! i) OR push_bit (64 - s) (u ! (i + 1))"
    and "r ! (j + m) = drop_bit s (u ! (j + m))"
  shows "2 ^ s * limbs_val r j (Suc m) + uint (u ! j) mod 2 ^ s = limbs_val u j (Suc m)"
  using assms
proof (induction m arbitrary: j)
  case 0
  then show ?case by (simp add: limbs_val_Suc uint_shr)
next
  case (Suc m)
  have "2 ^ s * limbs_val r (Suc j) (Suc m) + uint (u ! Suc j) mod 2 ^ s = limbs_val u (Suc j) (Suc m)"
    using Suc.prems by (intro Suc.IH) auto
  moreover have "2 ^ s * uint (r ! j) = uint (u ! j) - uint (u ! j) mod 2 ^ s +
      2 ^ 64 * (uint (u ! Suc j) mod 2 ^ s)"
    using Suc.prems(3) [of j] shr_join [OF assms(1,2)] by simp
  ultimately show ?case
    using limbs_val_Suc_low [of r j "Suc m"] limbs_val_Suc_low [of u j "Suc m"]
    by (simp add: distrib_left)
qed

lemma denormalize_sound:
  assumes "0 < n" "n \<le> 4" "s < 64" "limbs_val u 0 n mod 2 ^ s = 0"
  shows "limbs_val (denormalize s n u) 0 4 = limbs_val u 0 n div 2 ^ s \<and> length (denormalize s n u) = 4"
proof (cases "s = 0")
  case True
  have "limbs_val (copy_loop u n [0, 0, 0, 0]) 0 4 = limbs_val (copy_loop u n [0, 0, 0, 0]) 0 n"
    using assms(2) by (intro limbs_val_zero_tail) (simp_all add: copy_loop_nth nth_zeros)
  then show ?thesis using True assms(2) limbs_val_copy [of n "[0, 0, 0, 0]" u] by (simp add: denormalize_def)
next
  case False
  define r where "r = denormalize s n u"
  define r0 where "r0 = foldl (\<lambda>r i. r[i := drop_bit s (u ! i) OR push_bit (64 - s) (u ! (i + 1))])
    [0, 0, 0, 0] [0..<n - 1]"
  have r: "r = r0[n - 1 := drop_bit s (u ! (n - 1))]" using False by (simp add: r_def r0_def denormalize_def)
  have len: "length r = 4" by (simp add: r r0_def)
  have nth: "r ! k = (if k = n - 1 then drop_bit s (u ! (n - 1))
      else if k < n - 1 then drop_bit s (u ! k) OR push_bit (64 - s) (u ! (k + 1)) else 0)" if "k < 4" for k
    using that by (simp add: r r0_def nth_upd_in zeros_upd_nth)
  have tail: "limbs_val r 0 4 = limbs_val r 0 n"
    using assms(1,2) by (intro limbs_val_zero_tail) (auto simp: nth)
  have "2 ^ s * limbs_val r 0 (Suc (n - 1)) + uint (u ! 0) mod 2 ^ s = limbs_val u 0 (Suc (n - 1))"
    by (rule denormalize_shift) (use False assms nth in auto)
  then have eq: "limbs_val u 0 n = 2 ^ s * limbs_val r 0 n + uint (u ! 0) mod 2 ^ s"
    using assms(1) by simp
  have "uint (u ! 0) mod 2 ^ s = 0"
    using assms(4) unfolding eq by simp
  then show ?thesis using eq tail len by (simp add: r_def)
qed

section \<open>The division\<close>

lemma shifted_divisor:
  assumes "n \<le> 4" "0 < n" "src ! (n - 1) \<noteq> 0" "s = clzll (src ! (n - 1))"
  shows "limbs_val (shifted s src n [0, 0, 0, 0]) 0 n = 2 ^ s * limbs_val src 0 n"
    "normalized (shifted s src n [0, 0, 0, 0]) n"
proof -
  define top where "top = uint (src ! (n - 1))"
  define M :: int where "M = 2 ^ (64 * (n - 1))"
  define v where "v = shifted s src n [0, 0, 0, 0]"
  note clz = clzll_sound [OF assms(3), folded assms(4) top_def]
  obtain k where n: "n = Suc k" using assms(2) by (cases n) auto
  have src: "limbs_val src 0 n = limbs_val src 0 k + top * M" by (simp add: n limbs_val_Suc top_def M_def)
  have L: "0 \<le> limbs_val src 0 k" "limbs_val src 0 k < M" by (simp_all add: M_def n limbs_val_bounds)
  have full: "2 ^ (64 * n) = 2 ^ 64 * M" by (simp add: M_def n power_add)
  show val: "limbs_val (shifted s src n [0, 0, 0, 0]) 0 n = 2 ^ s * limbs_val src 0 n"
  proof (cases "s = 0")
    case True
    then show ?thesis using assms(1) by (simp add: shifted_def limbs_val_copy)
  next
    case False
    obtain c where e: "shl_loop s src n 0 [0, 0, 0, 0] 0 = (v, c)"
      using False by (cases "shl_loop s src n 0 [0, 0, 0, 0] 0") (simp add: v_def shifted_def)
    have sh: "limbs_val v 0 n + 2 ^ 64 * M * uint c = 2 ^ s * limbs_val src 0 n"
      using shl_loop_sound [OF e] False clz(1) assms(1) by (simp add: full)
    have p: "(2::int) ^ 64 = 2 ^ s * 2 ^ (64 - s)" using clz(1) by (simp flip: power_add)
    have "2 ^ s * top < 2 ^ s * 2 ^ (64 - s)" using clz(3) unfolding p [symmetric] by (simp add: mult.commute)
    then have "top + 1 \<le> 2 ^ (64 - s)" by simp
    then have "2 ^ s * ((top + 1) * M) \<le> 2 ^ s * (2 ^ (64 - s) * M)"
      by (intro mult_left_mono mult_right_mono) (simp_all add: M_def)
    moreover have "2 ^ s * limbs_val src 0 n < 2 ^ s * ((top + 1) * M)"
      using L by (simp add: src algebra_simps)
    ultimately have lt: "2 ^ s * limbs_val src 0 n < 2 ^ 64 * M" unfolding p by simp
    have "uint c = 0"
    proof (rule ccontr)
      assume "uint c \<noteq> 0"
      then have "1 \<le> uint c" using uint_ge_0 [of c] by linarith
      then have "2 ^ 64 * M * 1 \<le> 2 ^ 64 * M * uint c" by (intro mult_left_mono) (simp_all add: M_def)
      then show False using sh lt limbs_val_bounds(1) [of v 0 n] by linarith
    qed
    then show ?thesis using sh by (simp add: v_def)
  qed
  have "2 ^ 63 \<le> uint (v ! (n - 1))"
  proof (rule ccontr)
    assume "\<not> 2 ^ 63 \<le> uint (v ! (n - 1))"
    then have "uint (v ! k) * M \<le> (2 ^ 63 - 1) * M" by (intro mult_right_mono) (simp_all add: n M_def)
    moreover have "limbs_val v 0 n = limbs_val v 0 k + uint (v ! k) * M"
      by (simp add: n limbs_val_Suc M_def)
    moreover have "limbs_val v 0 k < M" by (simp add: M_def n limbs_val_bounds)
    ultimately have "limbs_val v 0 n < 2 ^ 63 * M" by (simp add: left_diff_distrib)
    moreover have "2 ^ 63 * M \<le> 2 ^ s * top * M" using clz(2) by (simp add: M_def mult.commute)
    moreover have "2 ^ s * top * M \<le> 2 ^ s * limbs_val src 0 n" using L by (simp add: src algebra_simps)
    ultimately show False using val by (simp add: v_def)
  qed
  then show "normalized (shifted s src n [0, 0, 0, 0]) n" using assms(2) by (simp add: normalized_def v_def)
qed

lemma top_segment_less:
  assumes "src ! k \<noteq> 0" and v: "limbs_val v 0 (Suc k) = 2 ^ s * limbs_val src 0 (Suc k)"
    and "j + k = t" and u: "limbs_val u 0 (Suc t) = 2 ^ s * A" and A: "A < 2 ^ (64 * t)"
  shows "limbs_val u j (Suc k) < limbs_val v 0 (Suc k)"
proof (rule ccontr)
  assume "\<not> limbs_val u j (Suc k) < limbs_val v 0 (Suc k)"
  then have ge: "2 ^ s * limbs_val src 0 (Suc k) \<le> limbs_val u j (Suc k)" using v by simp
  have "1 \<le> uint (src ! k)" using assms(1) uint_ge_0 [of "src ! k"]
    by (simp add: word_uint_eq_iff order_less_le int_one_le_iff_zero_less)
  then have "1 * 2 ^ (64 * k) \<le> uint (src ! k) * 2 ^ (64 * k)" by (intro mult_right_mono) simp_all
  then have "2 ^ (64 * k) \<le> limbs_val src 0 (Suc k)"
    using limbs_val_bounds(1) [of src 0 k] unfolding limbs_val_Suc add_0 by linarith
  then have "2 ^ s * 2 ^ (64 * k) \<le> limbs_val u j (Suc k)"
    by (intro order_trans [OF mult_left_mono ge]) simp_all
  then have "2 ^ (64 * j) * (2 ^ s * 2 ^ (64 * k)) \<le> 2 ^ (64 * j) * limbs_val u j (Suc k)"
    by (intro mult_left_mono) simp_all
  also have "\<dots> \<le> 2 ^ s * A"
    using limbs_val_add [of u 0 j "Suc k"] limbs_val_bounds(1) [of u 0 j] u assms(3) by simp
  also have "\<dots> < 2 ^ s * 2 ^ (64 * t)" using A by (intro mult_strict_left_mono) simp_all
  also have "\<dots> = 2 ^ (64 * j) * (2 ^ s * 2 ^ (64 * k))"
    by (simp add: assms(3) [symmetric] distrib_left power_add mult.left_commute)
  finally show False by simp
qed

lemma shifted_operand:
  fixes s src dst t
  defines "u \<equiv> (if s = 0 then copy_loop src t dst
      else let (u, carry) = shl_loop s src t 0 dst 0 in u[t := carry])"
  assumes "s < 64" "length dst = Suc t" "dst ! t = 0"
  shows "limbs_val u 0 (Suc t) = 2 ^ s * limbs_val src 0 t \<and> length u = Suc t"
proof (cases "s = 0")
  case True
  then show ?thesis
    using assms(3,4) unfolding u_def limbs_val_Suc by (simp add: limbs_val_copy copy_loop_nth)
next
  case False
  obtain x c where e: "shl_loop s src t 0 dst 0 = (x, c)" by fastforce
  then show ?thesis
    using shl_loop_sound [OF e] False assms(2,3) unfolding u_def limbs_val_Suc by (simp add: mult.commute)
qed

lemma top_limb_index_sound:
  assumes "2 ^ 64 \<le> uval b"
  obtains k where "top_limb_index (limbs b) = int k" "0 < k" "k < 4" "limbs b ! k \<noteq> 0"
    "uval b = limbs_val (limbs b) 0 (Suc k)"
proof -
  have "limb1 b \<noteq> 0 \<or> limb2 b \<noteq> 0 \<or> limb3 b \<noteq> 0"
    using assms uval_lt_64_limbs [of b] by auto
  then consider "limb3 b \<noteq> 0" | "limb3 b = 0" "limb2 b \<noteq> 0" | "limb3 b = 0" "limb2 b = 0" "limb1 b \<noteq> 0"
    by blast
  then show thesis
  proof cases
    case 1
    then show ?thesis by (intro that [of 3]) (simp_all add: top_limb_index_def limbs_nth uval_limbs)
  next
    case 2
    then show ?thesis
      by (intro that [of 2]) (simp_all add: top_limb_index_def limbs_def uval_def limbs_val_Suc numeral_2_eq_2)
  next
    case 3
    then show ?thesis
      by (intro that [of 1]) (simp_all add: top_limb_index_def limbs_nth uval_def limbs_val_Suc)
  qed
qed

lemma multi_limb_sound:
  assumes k: "0 < k" "k < 4" "limbs b ! k \<noteq> 0" "uval b = limbs_val (limbs b) 0 (Suc k)"
    and s: "s = clzll (limbs b ! k)"
    and v: "v = shifted s (limbs b) (Suc k) [0, 0, 0, 0]"
    and u: "limbs_val u 0 5 = 2 ^ s * uval a" "length u = 5"
    and res: "knuth_loop v (Suc k) (4 - k) (u, [0, 0, 0, 0]) = (u', ql)"
  shows "uval (of_limbs ql) * uval b + uval (of_limbs (denormalize s (Suc k) u')) = uval a \<and>
    uval (of_limbs (denormalize s (Suc k) u')) < uval b"
proof -
  define n j where "n = Suc k" and "j = 4 - k"
  have n: "2 \<le> n" "n \<le> 4" "j + n = 5" using k by (simp_all add: n_def j_def)
  have nz: "limbs b ! (n - 1) \<noteq> 0" and s': "s = clzll (limbs b ! (n - 1))"
    using k s by (simp_all add: n_def)
  note clz = clzll_sound [OF nz, folded s']
  have V: "limbs_val v 0 n = 2 ^ s * uval b" "normalized v n"
    using shifted_divisor [OF n(2) _ nz s'] k(4) by (simp_all add: v n_def)
  have lt: "limbs_val u j n < limbs_val v 0 n"
    using top_segment_less [of "limbs b" k v s j 4 u "uval a"] k V(1) u(1) uval_bounds(2) [of a]
    by (simp add: n_def j_def)
  have loop: "knuth_loop v n j (u, [0, 0, 0, 0]) = (u', ql)" using res by (simp add: n_def j_def)
  have R: "limbs_val u' 0 n = limbs_val u 0 5 mod limbs_val v 0 n"
    using d256.loop_remainder [OF n(1) V(2), of j "(u, [0, 0, 0, 0])"] lt n u(2) loop by simp
  have Q: "limbs_val u 0 5 = limbs_val ql 0 j * limbs_val v 0 n + limbs_val u' 0 n"
    "\<forall>i\<ge>j. ql ! i = [0, 0, 0, 0] ! i" "length ql = 4"
    using knuth_loop_quotient [OF n(1) V(2) _ _ lt loop] n u(2) k by (auto simp: j_def)
  have pos: "0 < limbs_val v 0 n" by (rule normalized_pos [OF V(2)])
  have ql: "uval (of_limbs ql) = limbs_val ql 0 j"
  proof -
    have "ql ! i = 0" if "j \<le> i" "i < 4" for i using Q(2) that nth_zeros [of i] by metis
    then show ?thesis using limbs_val_zero_tail [of j 4 ql] Q(3) by (simp add: uval_of_limbs j_def)
  qed
  have tot: "limbs_val ql 0 j * (uval b * 2 ^ s) + limbs_val u' 0 n = 2 ^ s * uval a"
    using Q(1) u(1) V(1) by (simp add: mult.commute)
  have Rb: "0 \<le> limbs_val u' 0 n" "limbs_val u' 0 n < uval b * 2 ^ s"
    using R pos V(1) by (simp_all add: mult.commute limbs_val_bounds)
  note den = denorm_divmod [OF tot Rb]
  have "uval (of_limbs (denormalize s n u')) = limbs_val u' 0 n div 2 ^ s"
    using denormalize_sound [OF _ n(2) clz(1) den(4)] n(1) by (simp add: uval_of_limbs)
  then show ?thesis using den(1,2) ql by (simp add: n_def)
qed

lemma uint256_divmod_sound:
  assumes b: "uval b \<noteq> 0" and res: "uint256_divmod a b = (q, r)"
  shows "uval q * uval b + uval r = uval a \<and> uval r < uval b"
proof (cases "uval a < uval b")
  case True
  then show ?thesis using b res by (auto simp: uint256_divmod_def uint256_lt_iff)
next
  case ge: False
  have guard: "(limb1 x OR limb2 x OR limb3 x) = 0 \<longleftrightarrow> uval x < 2 ^ 64" for x
    using uint256_fits_u64_iff [of x] by (simp add: uint256_fits_u64_def)
  show ?thesis
  proof (cases "uval a < 2 ^ 64 \<and> uval b < 2 ^ 64")
    case True
    then have "uval a = uint (limb0 a)" "uval b = uint (limb0 b)"
      using fits_u64_uval [of a] fits_u64_uval [of b] by (simp_all add: uint256_fits_u64_iff)
    then show ?thesis
      using b res ge True pos_mod_bound [of "uint (limb0 b)" "uint (limb0 a)"] uint_ge_0 [of "limb0 b"]
      by (auto simp: uint256_divmod_def uint256_lt_iff guard uint_div_distrib uint_mod_distrib
          order_less_le)
  next
    case False
    show ?thesis
    proof (cases "uval b < 2 ^ 64")
      case True
      then have b0: "uval b = uint (limb0 b)" "limb0 b \<noteq> 0"
        using b fits_u64_uval [of b] by (auto simp: uint256_fits_u64_iff)
      have "top_limb_index (limbs b) = 0"
        using True b0 uval_lt_64_limbs [of b] by (simp add: top_limb_index_def limbs_nth)
      then have "divmod_single_limb (limbs a) (limb0 b) = (q, r)"
        using res b ge False True by (simp add: uint256_divmod_def uint256_lt_iff guard)
      then show ?thesis using divmod_single_limb_sound [OF b0(2)] b0(1) by simp
    next
      case big: False
      then obtain k where k: "top_limb_index (limbs b) = int k" "0 < k" "k < 4" "limbs b ! k \<noteq> 0"
        "uval b = limbs_val (limbs b) 0 (Suc k)"
        using top_limb_index_sound [of b] by auto
      define s where "s = clzll (limbs b ! k)"
      define u where "u = (if s = 0 then copy_loop (limbs a) 4 [0, 0, 0, 0, 0]
        else let (u, carry) = shl_loop s (limbs a) 4 0 [0, 0, 0, 0, 0] 0 in u[4 := carry])"
      obtain u' ql where l: "knuth_loop (shifted s (limbs b) (k + 1) [0, 0, 0, 0]) (k + 1) (4 - k)
          (u, [0, 0, 0, 0]) = (u', ql)" by fastforce
      have m: "4 - (k + 1) + 1 = 4 - k" using k(3) by simp
      have "(q, r) = (of_limbs ql, of_limbs (denormalize s (k + 1) u'))"
        unfolding res [symmetric] uint256_divmod_def uint256_is_zero_iff uint256_lt_iff guard k(1)
          Let_def nat_int m s_def [symmetric] shifted_def [symmetric] u_def [unfolded Let_def, symmetric] l
        using b ge False big k(2) by simp
      moreover have "limbs_val u 0 5 = 2 ^ s * uval a" "length u = 5"
        using shifted_operand [of s "[0, 0, 0, 0, 0]" 4 "limbs a"] clzll_sound(1) [OF k(4)]
        by (simp_all add: u_def s_def uval_limbs)
      ultimately show ?thesis using multi_limb_sound [OF k(2-5) s_def refl _ _ l [folded Suc_eq_plus1]] by simp
    qed
  qed
qed

lemma uval_div: "uval (uint256_div a b) = uval a div uval b"
proof (cases "uval b = 0")
  case True
  then show ?thesis by (simp add: uint256_div_def uint256_divmod_def)
next
  case False
  then have "0 < uval b" using uval_bounds(1) [of b] by simp
  moreover obtain q r where "uint256_divmod a b = (q, r)" by fastforce
  ultimately show ?thesis
    using uint256_divmod_sound [OF False, of a q r] uval_bounds(1) [of r]
      int_div_pos_eq [of "uval a" "uval b" "uval q" "uval r"]
    by (simp add: uint256_div_def mult.commute)
qed

lemma uval_mod: "uval (uint256_mod a b) = (if uval b = 0 then 0 else uval a mod uval b)"
proof (cases "uval b = 0")
  case True
  then show ?thesis by (simp add: uint256_mod_def uint256_divmod_def)
next
  case False
  obtain q r where "uint256_divmod a b = (q, r)" by fastforce
  then show ?thesis
    using uint256_divmod_sound [OF False, of a q r] uval_bounds(1) [of r] False
      int_mod_pos_eq [of "uval a" "uval b" "uval q" "uval r"]
    by (simp add: uint256_mod_def mult.commute)
qed

interpretation div_: word_binop uint256_div "(div)"
  by unfold_locales (rule w256_eqI, simp add: uval_div uint_div_distrib)

interpretation mod_: word_binop uint256_mod "\<lambda>x y. if y = 0 then 0 else x mod y"
  by unfold_locales (rule w256_eqI, simp add: uval_mod uint_mod_distrib word_uint_eq_iff)


section \<open>Properties\<close>

text \<open>
  C4: division of 256-bit numbers, through all its paths (single limbs, the reciprocal and
  algorithm D): the results are the quotient and the remainder of the values, and both are zero
  for a zero divisor.
\<close>

theorem uint256_divmod_correct:
  "uval (uint256_div a b) = uval a div uval b \<and>
   uval (uint256_mod a b) = (if uval b = 0 then 0 else uval a mod uval b)"
  by (simp add: uval_div uval_mod)

text \<open>
  The table and the Newton steps give the reciprocal of every normalised divisor exactly, the
  word of the floor of (2^128 - 1) / d less 2^64.
\<close>

theorem reciprocal_2by1_exact:
  assumes "2 ^ 63 \<le> uint d"
  shows "uint (reciprocal_2by1 d) = (2 ^ 128 - 1) div uint d - 2 ^ 64"
proof -
  define v where "v = uint (reciprocal_2by1 d) + 2 ^ 64"
  have "v * uint d \<le> 2 ^ 128 - 1" "2 ^ 128 - 1 < (v + 1) * uint d"
    using reciprocal_sound [OF assms] by (simp_all add: v_def algebra_simps)
  then have "(2 ^ 128 - 1) div uint d = v"
    using assms by (intro int_div_pos_eq [of _ _ _ "2 ^ 128 - 1 - v * uint d"]) (simp_all add: algebra_simps)
  then show ?thesis by (simp add: v_def)
qed

theorem reciprocal_2by1_exact_witness:
  "uint (reciprocal_2by1 0x8000000000000001) = (2 ^ 128 - 1) div 0x8000000000000001 - 2 ^ 64"
  using reciprocal_2by1_exact [of "0x8000000000000001"] by simp

text \<open>
  With that reciprocal, the two-by-one division returns the quotient and the remainder of the
  double-word dividend, whenever the quotient fits a word.
\<close>

theorem udivrem_2by1_correct:
  assumes "2 ^ 63 \<le> uint d" "uint u_hi < uint d"
  shows "map_prod uint uint (udivrem_2by1 u_lo u_hi d (reciprocal_2by1 d)) =
    ((2 ^ 64 * uint u_hi + uint u_lo) div uint d, (2 ^ 64 * uint u_hi + uint u_lo) mod uint d)"
proof -
  obtain q r where e: "udivrem_2by1 u_lo u_hi d (reciprocal_2by1 d) = (q, r)" by fastforce
  have s: "uint q * uint d + uint r = 2 ^ 64 * uint u_hi + uint u_lo" "uint r < uint d"
    using udivrem_2by1_sound [OF assms _ _ e] reciprocal_sound [OF assms(1)] by simp_all
  show ?thesis unfolding e s(1) [symmetric] using s(2) assms(1)
    by (simp add: div_pos_pos_trivial mod_pos_pos_trivial)
qed

theorem udivrem_2by1_correct_witness:
  "map_prod uint uint (udivrem_2by1 5 7 0x8000000000000001 (reciprocal_2by1 0x8000000000000001)) =
    ((2 ^ 64 * 7 + 5) div 0x8000000000000001, (2 ^ 64 * 7 + 5) mod 0x8000000000000001)"
  using udivrem_2by1_correct [of "0x8000000000000001" 7 5] by simp

end
