(* ===== verification/Uint256_Arith.thy ===== *)
theory Uint256_Arith
  imports Uint256_Div "HOL-Library.Signed_Division"
begin

text \<open>
  The rest of \<open>src/types/uint256.c\<close>: signed division, modular addition and multiplication
  (with the 512-bit product and its remainder), exponentiation and the conversions to and from
  big-endian bytes.  Each operation is related to its mathematical definition on the values.
\<close>

section \<open>Signed division\<close>

definition MIN_NEGATIVE_VALUE :: uint256_t where
  "MIN_NEGATIVE_VALUE = uint256_from_limbs 0 0 0 0x8000000000000000"

definition MINUS_ONE :: uint256_t where
  "MINUS_ONE = uint256_from_limbs (NOT 0) (NOT 0) (NOT 0) (NOT 0)"

definition uint256_sdiv :: "uint256_t \<Rightarrow> uint256_t \<Rightarrow> uint256_t" where
  "uint256_sdiv a b =
     (if uint256_is_zero b then uint256_zero
      else if uint256_eq a MIN_NEGATIVE_VALUE \<and> uint256_eq b MINUS_ONE then MIN_NEGATIVE_VALUE
      else
        let a_neg = uint256_is_negative a;
            b_neg = uint256_is_negative b;
            abs_a = (if a_neg then uint256_negate a else a);
            abs_b = (if b_neg then uint256_negate b else b)
        in if (limb1 abs_a OR limb2 abs_a OR limb3 abs_a) = 0 \<and>
              (limb1 abs_b OR limb2 abs_b OR limb3 abs_b) = 0
           then let q = limb0 abs_a div limb0 abs_b
                in if a_neg \<noteq> b_neg then uint256_negate (uint256_from_u64 q)
                   else uint256_from_u64 q
           else let quotient = uint256_div abs_a abs_b
                in if a_neg \<noteq> b_neg then uint256_negate quotient else quotient)"

definition uint256_smod :: "uint256_t \<Rightarrow> uint256_t \<Rightarrow> uint256_t" where
  "uint256_smod a b =
     (if uint256_is_zero b then uint256_zero
      else
        let a_neg = uint256_is_negative a;
            b_neg = uint256_is_negative b;
            abs_a = (if a_neg then uint256_negate a else a);
            abs_b = (if b_neg then uint256_negate b else b)
        in if (limb1 abs_a OR limb2 abs_a OR limb3 abs_a) = 0 \<and>
              (limb1 abs_b OR limb2 abs_b OR limb3 abs_b) = 0
           then let r = limb0 abs_a mod limb0 abs_b
                in if a_neg then uint256_negate (uint256_from_u64 r) else uint256_from_u64 r
           else let remainder = uint256_mod abs_a abs_b
                in if a_neg then uint256_negate remainder else remainder)"


section \<open>Modular addition\<close>

definition uint256_addmod :: "uint256_t \<Rightarrow> uint256_t \<Rightarrow> uint256_t \<Rightarrow> uint256_t" where
  "uint256_addmod a b n =
     (if uint256_is_zero n then uint256_zero
      else
        let (sum, carry) = add_chain a b
        in if carry = 0 then uint256_mod sum n
           else
             let max_val = uint256_from_limbs (NOT 0) (NOT 0) (NOT 0) (NOT 0);
                 pow_256_mod_n =
                   uint256_mod (uint256_add (uint256_sub max_val n) (uint256_from_u64 1)) n;
                 sum_mod_n = uint256_mod sum n;
                 partial = uint256_add pow_256_mod_n sum_mod_n
             in if uint256_lt partial pow_256_mod_n then uint256_mod partial n
                else if \<not> uint256_lt partial n then uint256_sub partial n
                else partial)"


section \<open>Modular multiplication\<close>

text \<open>The 512-bit product: an array of eight limbs, filled row by row.\<close>

function mul_full_inner :: "u64 \<Rightarrow> u64 list \<Rightarrow> nat \<Rightarrow> nat \<Rightarrow> u64 list \<Rightarrow> u128 \<Rightarrow> u64 list \<times> u128" where
  "mul_full_inner ai b i j result carry =
     (if j < 4
      then let prd = to_u128 ai * to_u128 (b ! j) + to_u128 (result ! (i + j)) + carry
           in mul_full_inner ai b i (j + 1) (result[i + j := lo64 prd]) (drop_bit 64 prd)
      else (result, carry))"
  by pat_completeness auto
termination
  by (relation "measure (\<lambda>(ai, b, i, j, result, carry). 4 - j)") auto

definition mul_full_row :: "u64 list \<Rightarrow> u64 list \<Rightarrow> nat \<Rightarrow> u64 list \<Rightarrow> u64 list" where
  "mul_full_row a b i result =
     (let (result, carry) = mul_full_inner (a ! i) b i 0 result 0
      in result[i + 4 := lo64 carry])"

definition uint256_mul_full :: "uint256_t \<Rightarrow> uint256_t \<Rightarrow> u64 list" where
  "uint256_mul_full a b =
     foldl (\<lambda>r i. mul_full_row (limbs a) (limbs b) i r) [0, 0, 0, 0, 0, 0, 0, 0] [0..<4]"

definition uint512_is_zero :: "u64 list \<Rightarrow> bool" where
  "uint512_is_zero a \<longleftrightarrow>
     (a ! 0 OR a ! 1 OR a ! 2 OR a ! 3 OR a ! 4 OR a ! 5 OR a ! 6 OR a ! 7) = 0"

text \<open>
  The remainder of a 512-bit number: algorithm D again, without the quotient digits and with a
  divisor of one limb allowed.
\<close>

function refine_q_hat_512 :: "nat \<Rightarrow> u64 list \<Rightarrow> u64 \<Rightarrow> u128 \<Rightarrow> u128 \<Rightarrow> u128" where
  "refine_q_hat_512 n v u2 q_hat r_hat =
     (if q_hat \<ge> push_bit 64 1 \<or>
         (n \<ge> 2 \<and> q_hat * to_u128 (v ! (n - 2)) > (push_bit 64 r_hat OR to_u128 u2))
      then let q_hat = q_hat - 1; r_hat = r_hat + to_u128 (v ! (n - 1))
           in if r_hat \<ge> push_bit 64 1 then q_hat else refine_q_hat_512 n v u2 q_hat r_hat
      else q_hat)"
  by pat_completeness auto
termination
proof (relation "measure (\<lambda>(n, v, u2, q_hat, r_hat). unat q_hat)", goal_cases)
  case (2 n v u2 q_hat r_hat x xa)
  then have "q_hat \<noteq> 0" by (auto simp: word_le_nat_alt)
  with 2 show ?case by (simp add: unat_minus_one unat_gt_0)
qed simp

definition knuth_step_512 :: "u64 list \<Rightarrow> nat \<Rightarrow> nat \<Rightarrow> u64 list \<Rightarrow> u64 list" where
  "knuth_step_512 v n j u =
     (let tmp = push_bit 64 (to_u128 (u ! (j + n))) OR to_u128 (u ! (j + n - 1));
          q_hat = tmp div to_u128 (v ! (n - 1));
          r_hat = tmp mod to_u128 (v ! (n - 1));
          q_hat = refine_q_hat_512 n v (u ! (j + n - 2)) q_hat r_hat
      in snd (sub_digit v n j q_hat u))"

fun knuth_loop_512 :: "u64 list \<Rightarrow> nat \<Rightarrow> nat \<Rightarrow> u64 list \<Rightarrow> u64 list" where
  "knuth_loop_512 v n 0 u = u"
| "knuth_loop_512 v n (Suc j) u = knuth_loop_512 v n j (knuth_step_512 v n j u)"

definition uint512_mod_256 :: "u64 list \<Rightarrow> uint256_t \<Rightarrow> uint256_t" where
  "uint512_mod_256 a b =
     (if uint256_is_zero b then uint256_zero
      else if uint512_is_zero a then uint256_zero
      else if (a ! 4 OR a ! 5 OR a ! 6 OR a ! 7) = 0
      then uint256_mod (uint256_from_limbs (a ! 0) (a ! 1) (a ! 2) (a ! 3)) b
      else
        let div_top = nat (top_limb_index (limbs b));
            shift = clzll (limbs b ! div_top);
            v = (if shift = 0 then limbs b
                 else fst (shl_loop shift (limbs b) (div_top + 1) 0 [0, 0, 0, 0] 0));
            u = (if shift = 0 then copy_loop a 8 [0, 0, 0, 0, 0, 0, 0, 0, 0]
                 else let (u, carry) = shl_loop shift a 8 0 [0, 0, 0, 0, 0, 0, 0, 0, 0] 0
                      in u[8 := carry]);
            n = div_top + 1;
            m = 8 - n;
            u = knuth_loop_512 v n (m + 1) u
        in of_limbs (denormalize shift n u))"

definition uint256_mulmod :: "uint256_t \<Rightarrow> uint256_t \<Rightarrow> uint256_t \<Rightarrow> uint256_t" where
  "uint256_mulmod a b n =
     (if uint256_is_zero n then uint256_zero
      else if uint256_is_zero a \<or> uint256_is_zero b then uint256_zero
      else
        let product = uint256_mul_full a b
        in if (product ! 4 OR product ! 5 OR product ! 6 OR product ! 7) = 0
           then uint256_mod
             (uint256_from_limbs (product ! 0) (product ! 1) (product ! 2) (product ! 3)) n
           else uint512_mod_256 product n)"


section \<open>Exponentiation\<close>

text \<open>The right shift by one that the loop applies to the exponent, limb by limb.\<close>

definition exp_shr1 :: "uint256_t \<Rightarrow> uint256_t" where
  "exp_shr1 e = uint256_from_limbs
     (drop_bit 1 (limb0 e) OR push_bit 63 (limb1 e))
     (drop_bit 1 (limb1 e) OR push_bit 63 (limb2 e))
     (drop_bit 1 (limb2 e) OR push_bit 63 (limb3 e))
     (drop_bit 1 (limb3 e))"

lemma uval_exp_shr1: "uval e = 2 * uval (exp_shr1 e) + uint (limb0 e) mod 2"
proof -
  have j: "2 * uint (drop_bit 1 x OR push_bit 63 y) = uint x - uint x mod 2 + 2 ^ 64 * (uint y mod 2)"
    for x y :: u64
    using shr_join [of 1 x y] by simp
  have t: "2 * uint (drop_bit 1 x) = uint x - uint x mod 2" for x :: u64
    by (simp only: uint_shr power_one_right minus_mod_eq_mult_div)
  show ?thesis
    using j [of "limb0 e" "limb1 e"] j [of "limb1 e" "limb2 e"] j [of "limb2 e" "limb3 e"] t [of "limb3 e"]
    by (simp add: exp_shr1_def uval_from_limbs uval_def)
qed

function exp_loop :: "uint256_t \<Rightarrow> uint256_t \<Rightarrow> uint256_t \<Rightarrow> uint256_t" where
  "exp_loop result multiplier e =
     (if \<not> uint256_is_zero e
      then let result = (if limb0 e AND 1 \<noteq> 0 then uint256_mul result multiplier else result)
           in exp_loop result (uint256_mul multiplier multiplier) (exp_shr1 e)
      else result)"
  by pat_completeness auto
termination
proof (relation "measure (\<lambda>(result, multiplier, e). nat (uval e))", goal_cases)
  case (2 result multiplier e x)
  then have "0 < uval e" using uval_bounds(1) [of e] by simp
  moreover have "0 \<le> uint (limb0 e) mod 2" "0 \<le> uval (exp_shr1 e)" by (simp_all add: uval_bounds)
  ultimately have "uval (exp_shr1 e) < uval e" using uval_exp_shr1 [of e] by linarith
  then show ?case using \<open>0 < uval e\<close> by simp
qed simp

definition uint256_exp :: "uint256_t \<Rightarrow> uint256_t \<Rightarrow> uint256_t" where
  "uint256_exp base exponent =
     (if uint256_is_zero exponent then uint256_from_u64 1
      else if uint256_is_zero base then uint256_zero
      else if uint256_eq base (uint256_from_u64 1) then uint256_from_u64 1
      else if (limb0 base AND 1) = 0 \<and> (limb0 exponent > 255 \<or> limb1 exponent \<noteq> 0 \<or>
              limb2 exponent \<noteq> 0 \<or> limb3 exponent \<noteq> 0)
      then uint256_zero
      else exp_loop (uint256_from_u64 1) base exponent)"


section \<open>Bytes\<close>

text \<open>Big-endian bytes of one limb, read by shifting in and written from the last byte on.\<close>

definition limb_of_bytes :: "u8 list \<Rightarrow> u64" where
  "limb_of_bytes p = foldl (\<lambda>limb b. push_bit 8 limb OR u8_to_u64 b) 0 p"

fun limb_to_bytes :: "nat \<Rightarrow> u64 \<Rightarrow> u8 list \<Rightarrow> u8 list" where
  "limb_to_bytes 0 limb acc = acc"
| "limb_to_bytes (Suc k) limb acc =
     limb_to_bytes k (drop_bit 8 limb) (to_u8 (limb AND 0xFF) # acc)"

definition uint256_from_bytes_be :: "u8 list \<Rightarrow> uint256_t" where
  "uint256_from_bytes_be data =
     (if length data = 0 then uint256_zero
      else
        let data = (if length data > 32 then drop (length data - 32) data else data);
            padded = replicate (32 - length data) 0 @ data;
            limb = (\<lambda>i. limb_of_bytes (take 8 (drop ((3 - i) * 8) padded)))
        in uint256_from_limbs (limb 0) (limb 1) (limb 2) (limb 3))"

definition uint256_to_bytes_be :: "uint256_t \<Rightarrow> u8 list" where
  "uint256_to_bytes_be v =
     concat (map (\<lambda>i. limb_to_bytes 8 (limbs v ! (3 - i)) []) [0..<4])"


section \<open>Signed division: correctness\<close>

lemma neg_mod: "0 < n \<Longrightarrow> n < M \<Longrightarrow> (- n) mod M = M - n" for n M :: int
  by (simp add: zmod_zminus1_eq_if)

lemma uval_abs:
  "uval (if uint256_is_negative a then uint256_negate a else a) = \<bar>sint (w256 a)\<bar>"
proof (cases "uint256_is_negative a")
  case True
  then have neg: "2 ^ 255 \<le> uval a" by (simp add: is_negative_uval)
  then have "(- uval a) mod 2 ^ 256 = 2 ^ 256 - uval a"
    using uval_bounds(2) [of a] by (intro neg_mod) simp_all
  then show ?thesis using True neg uval_bounds(2) [of a] by (simp add: uval_negate sint_w256)
next
  case False
  then show ?thesis by (simp add: sint_w256 uval_bounds)
qed

lemma fast_guard: "(limb1 x OR limb2 x OR limb3 x) = 0 \<longleftrightarrow> uval x < 2 ^ 64"
  using uint256_fits_u64_iff [of x] by (simp add: uint256_fits_u64_def)

lemma fast_div:
  assumes "uval x < 2 ^ 64" "uval y < 2 ^ 64"
  shows "uint256_from_u64 (limb0 x div limb0 y) = uint256_div x y"
proof -
  have "uval x = uint (limb0 x)" "uval y = uint (limb0 y)"
    using assms fits_u64_uval [of x] fits_u64_uval [of y] by (simp_all add: uint256_fits_u64_iff)
  then show ?thesis by (simp add: uval_div uint_div_distrib flip: uval_inject)
qed

lemma fast_mod:
  assumes "uval x < 2 ^ 64" "uval y < 2 ^ 64" "uval y \<noteq> 0"
  shows "uint256_from_u64 (limb0 x mod limb0 y) = uint256_mod x y"
proof -
  have "uval x = uint (limb0 x)" "uval y = uint (limb0 y)"
    using assms fits_u64_uval [of x] fits_u64_uval [of y] by (simp_all add: uint256_fits_u64_iff)
  then show ?thesis using assms(3) by (simp add: uval_mod uint_mod_distrib flip: uval_inject)
qed

lemma w256_of_uval: "w256 x = word_of_int (uval x)"
  by (simp add: w256_def)

lemma sint_0_iff: "sint (w256 b) = 0 \<longleftrightarrow> uval b = 0"
  using uval_bounds [of b] by (auto simp: sint_w256 is_negative_uval)

lemma uval_MIN: "uval MIN_NEGATIVE_VALUE = 2 ^ 255"
  by (simp add: MIN_NEGATIVE_VALUE_def uval_from_limbs)

lemma uint_not_0: "uint (- 1 :: u64) = 2 ^ 64 - 1"
  by (simp add: unsigned_minus_1_eq_mask mask_eq_exp_minus_1)

lemma uval_MINUS_ONE: "uval MINUS_ONE = 2 ^ 256 - 1"
  by (simp add: MINUS_ONE_def uval_from_limbs uint_not_0)

lemma w256_sdiv: "w256 (uint256_sdiv a b) = word_of_int (sint (w256 a) sdiv sint (w256 b))"
proof (cases "uval b = 0")
  case True
  then have "w256 b = 0" by (simp add: w256_def)
  with True show ?thesis by (simp add: uint256_sdiv_def signed_divide_int_def)
next
  case False
  define A B where "A = (if uint256_is_negative a then uint256_negate a else a)"
    and "B = (if uint256_is_negative b then uint256_negate b else b)"
  have AB: "uval A = \<bar>sint (w256 a)\<bar>" "uval B = \<bar>sint (w256 b)\<bar>" unfolding A_def B_def by (rule uval_abs)+
  have sgn: "sgn (sint (w256 x)) = (if uint256_is_negative x then - 1 else if uval x = 0 then 0 else 1)" for x
    using uval_bounds [of x] by (auto simp: sint_w256)
  have q: "w256 (uint256_div A B) = word_of_int (\<bar>sint (w256 a)\<bar> div \<bar>sint (w256 b)\<bar>)"
    by (simp add: w256_of_uval uval_div AB)
  have main: "w256 (if uint256_is_negative a \<noteq> uint256_is_negative b then uint256_negate (uint256_div A B)
      else uint256_div A B) = word_of_int (sint (w256 a) sdiv sint (w256 b))"
    using False sint_0_iff [of a] unfolding signed_divide_int_def
    by (auto simp: w256_negate q sgn AB)
  show ?thesis
  proof (cases "a = MIN_NEGATIVE_VALUE \<and> b = MINUS_ONE")
    case True
    have "sint (w256 a) = - (2 ^ 255)" "sint (w256 b) = - 1"
      using True by (simp_all add: sint_w256 is_negative_uval uval_MIN uval_MINUS_ONE)
    then have "word_of_int (sint (w256 a) sdiv sint (w256 b)) = word_of_int (2 ^ 255)"
      by (simp add: signed_divide_int_def)
    moreover have "uint256_sdiv a b = MIN_NEGATIVE_VALUE" using True False by (simp add: uint256_sdiv_def)
    ultimately show ?thesis by (simp add: w256_of_uval uval_MIN)
  next
    case no: False
    have "uint256_sdiv a b = (if uint256_is_negative a \<noteq> uint256_is_negative b
        then uint256_negate (uint256_div A B) else uint256_div A B)"
      unfolding uint256_sdiv_def Let_def A_def [symmetric] B_def [symmetric] fast_guard
      using False no by (auto simp: fast_div)
    then show ?thesis using main by simp
  qed
qed

lemma w256_smod: "w256 (uint256_smod a b) = (if w256 b = 0 then 0 else word_of_int (sint (w256 a) smod sint (w256 b)))"
proof (cases "uval b = 0")
  case True
  then show ?thesis by (simp add: uint256_smod_def w256_def)
next
  case False
  define A B where "A = (if uint256_is_negative a then uint256_negate a else a)"
    and "B = (if uint256_is_negative b then uint256_negate b else b)"
  have AB: "uval A = \<bar>sint (w256 a)\<bar>" "uval B = \<bar>sint (w256 b)\<bar>" unfolding A_def B_def by (rule uval_abs)+
  have B0: "uval B \<noteq> 0" using False sint_0_iff [of b] by (simp add: AB)
  have r: "w256 (uint256_mod A B) = word_of_int (\<bar>sint (w256 a)\<bar> mod \<bar>sint (w256 b)\<bar>)"
    using B0 by (simp add: w256_of_uval uval_mod AB)
  have "uint256_smod a b = (if uint256_is_negative a then uint256_negate (uint256_mod A B)
      else uint256_mod A B)"
    unfolding uint256_smod_def Let_def A_def [symmetric] B_def [symmetric] fast_guard
    using False B0 by (simp add: fast_mod)
  moreover have "sgn (sint (w256 a)) = (if uint256_is_negative a then - 1 else if uval a = 0 then 0 else 1)"
    using uval_bounds [of a] by (auto simp: sint_w256)
  moreover have "w256 b \<noteq> 0" using False by (simp add: word_uint_eq_iff)
  ultimately show ?thesis
    unfolding signed_modulo_int_def by (auto simp: w256_negate r sint_0_iff sint_w256)
qed

interpretation sdiv: word_binop uint256_sdiv "\<lambda>x y. word_of_int (sint x sdiv sint y)"
  by unfold_locales (rule w256_sdiv)

interpretation smod: word_binop uint256_smod "\<lambda>x y. if y = 0 then 0 else word_of_int (sint x smod sint y)"
  by unfold_locales (rule w256_smod)

section \<open>Modular addition: correctness\<close>

lemma pow_mod_bound:
  fixes n s M :: int
  assumes "0 < n" "n < M" "0 \<le> s" "s < n"
  shows "(M - n) mod n + s < M"
proof (cases "2 * n \<le> M")
  case True
  then show ?thesis using assms pos_mod_bound [of n "M - n"] by linarith
next
  case False
  then have "(M - n) mod n = M - n" using assms by (intro mod_pos_pos_trivial) auto
  then show ?thesis using assms by simp
qed

lemma minus_mod_trivial: "N \<le> x \<Longrightarrow> x < 2 * N \<Longrightarrow> x mod N = x - N" for N x :: int
  using mod_add_self2 [of "x - N" N] mod_pos_pos_trivial [of "x - N" N] by simp

lemma uval_addmod:
  "uval (uint256_addmod a b n) = (if uval n = 0 then 0 else (uval a + uval b) mod uval n)"
proof (cases "uval n = 0")
  case False
  define N where "N = uval n"
  have N: "0 < N" "N < 2 ^ 256" using False uval_bounds [of n] by (simp_all add: N_def)
  obtain s c where e: "add_chain a b = (s, c)" by fastforce
  note sc = add_chain_sound [OF e]
  show ?thesis
  proof (cases "c = 0")
    case True
    then show ?thesis using False sc e by (simp add: uint256_addmod_def uval_mod)
  next
    case carry: False
    then have c1: "uint c = 1" using sc uint_ge_0 [of c] by (auto simp: word_uint_eq_iff order_le_less)
    define p where "p = uint256_mod (uint256_add (uint256_sub
      (uint256_from_limbs (NOT 0) (NOT 0) (NOT 0) (NOT 0)) n) (uint256_from_u64 1)) n"
    define sm where "sm = uint256_mod s n"
    define part where "part = uint256_add p sm"
    have "uval (uint256_from_limbs (NOT 0) (NOT 0) (NOT 0) (NOT 0)) = 2 ^ 256 - 1"
      using uval_MINUS_ONE by (simp add: MINUS_ONE_def)
    then have "uval (uint256_add (uint256_sub
        (uint256_from_limbs (NOT 0) (NOT 0) (NOT 0) (NOT 0)) n) (uint256_from_u64 1)) = 2 ^ 256 - N"
      using N neg_mod [OF N] by (simp add: uval_add uval_sub N_def mod_simps)
    then have p: "uval p = (2 ^ 256 - N) mod N" using False by (simp add: p_def uval_mod N_def)
    have sm: "uval sm = uval s mod N" using False by (simp add: sm_def uval_mod N_def)
    have smb: "0 \<le> uval sm" "uval sm < N" "0 \<le> uval p" "uval p < N" using N by (simp_all add: sm p)
    have part: "uval part = uval p + uval sm"
      using pow_mod_bound [OF N smb(1,2)] smb by (simp add: part_def uval_add mod_pos_pos_trivial p)
    have tot: "(uval a + uval b) mod N = (uval p + uval sm) mod N"
    proof -
      have "(uval a + uval b) mod N = (uval s + 2 ^ 256) mod N" using sc c1 by simp
      also have "\<dots> = (uval s + (2 ^ 256 - N)) mod N"
        using mod_add_self2 [of "uval s + (2 ^ 256 - N)" N] by simp
      also have "\<dots> = (uval s mod N + (2 ^ 256 - N) mod N) mod N" by (simp only: mod_add_eq)
      finally show ?thesis by (simp add: p sm add.commute)
    qed
    have "uint256_addmod a b n = (if uint256_lt part p then uint256_mod part n
        else if \<not> uint256_lt part n then uint256_sub part n else part)"
      using False carry unfolding p_def sm_def part_def by (simp add: uint256_addmod_def e Let_def)
    moreover have "(uval part - N) mod 2 ^ 256 = uval part - N" if "N \<le> uval part"
      using that N uval_bounds(2) [of part] by (intro mod_pos_pos_trivial) simp_all
    ultimately have "uval (uint256_addmod a b n) = (if N \<le> uval part then uval part - N else uval part)"
      using smb part by (simp add: uint256_lt_iff uval_sub N_def)
    also have "\<dots> = uval part mod N"
      using minus_mod_trivial [of N "uval part"] smb part by (simp add: mod_pos_pos_trivial)
    finally show ?thesis using False tot part by (simp add: N_def)
  qed
qed (simp add: uint256_addmod_def)


section \<open>The 512-bit product: correctness\<close>

declare mul_full_inner.simps [simp del]

lemma mul_full_digit:
  fixes a b r :: u64 and c :: u128
  assumes "uint c < 2 ^ 64"
  defines "prd \<equiv> to_u128 a * to_u128 b + to_u128 r + c"
  shows "uint (lo64 prd) + 2 ^ 64 * uint (drop_bit 64 prd) = uint a * uint b + uint r + uint c"
    and "uint (drop_bit 64 prd) < 2 ^ 64"
proof -
  have m: "uint a * uint b \<le> (2 ^ 64 - 1) * (2 ^ 64 - 1)" by (rule mult_bound64) (simp_all add: uint64_bounds)
  have p: "uint prd = uint a * uint b + uint r + uint c"
    using m assms(1) uint64_bounds(2) [of r] unfolding prd_def
    by (subst uint_add_nowrap; subst uint_add_nowrap; simp add: uint_mult_to_u128)
  then show "uint (lo64 prd) + 2 ^ 64 * uint (drop_bit 64 prd) = uint a * uint b + uint r + uint c"
    by (simp add: uint_lo64 uint_shr)
  show "uint (drop_bit 64 prd) < 2 ^ 64" by (rule uint_shr64_less)
qed

lemma mul_full_inner_sound:
  assumes "mul_full_inner ai b i j r c = (r', c')" "j \<le> 4" "i + 4 \<le> length r" "uint c < 2 ^ 64"
  shows "limbs_val r' (i + j) (4 - j) + 2 ^ (64 * (4 - j)) * uint c' =
           limbs_val r (i + j) (4 - j) + uint ai * limbs_val b j (4 - j) + uint c
    \<and> uint c' < 2 ^ 64 \<and> length r' = length r \<and> (\<forall>k. k < i + j \<or> i + 4 \<le> k \<longrightarrow> r' ! k = r ! k)"
  using assms
proof (induction ai b i j r c rule: mul_full_inner.induct)
  case (1 ai b i j r c)
  show ?case
  proof (cases "j < 4")
    case False
    then have "r' = r \<and> c' = c \<and> j = 4" using 1 mul_full_inner.simps [of ai b i j r c] by simp
    then show ?thesis using 1 by simp
  next
    case True
    define prd where "prd = to_u128 ai * to_u128 (b ! j) + to_u128 (r ! (i + j)) + c"
    note d = mul_full_digit [OF \<open>uint c < 2 ^ 64\<close>, of ai "b ! j" "r ! (i + j)", folded prd_def]
    obtain n where n: "4 - j = Suc n" "4 - (j + 1) = n" using True by (metis Suc_diff_Suc add.commute plus_1_eq_Suc Suc_diff_Suc diff_Suc_eq_diff_pred diff_Suc_1 add_diff_cancel_left' less_imp_Suc_add Suc_eq_plus1)
    have st: "mul_full_inner ai b i (j + 1) (r[i + j := lo64 prd]) (drop_bit 64 prd) = (r', c')"
      using 1(2) True by (simp add: mul_full_inner.simps [of _ _ _ j] prd_def Let_def)
    have IH: "limbs_val r' (i + (j + 1)) n + 2 ^ (64 * n) * uint c' =
        limbs_val (r[i + j := lo64 prd]) (i + (j + 1)) n + uint ai * limbs_val b (j + 1) n + uint (drop_bit 64 prd)
        \<and> uint c' < 2 ^ 64 \<and> length r' = length r \<and>
        (\<forall>k. k < i + (j + 1) \<or> i + 4 \<le> k \<longrightarrow> r' ! k = r[i + j := lo64 prd] ! k)"
      using 1(1) [OF True prd_def st] True 1 d(2) unfolding n by simp
    then have low: "r' ! (i + j) = lo64 prd" using True 1 by simp
    have "limbs_val r' (i + j) (Suc n) + 2 ^ (64 * Suc n) * uint c' =
        uint (lo64 prd) + 2 ^ 64 * (limbs_val r' (i + (j + 1)) n + 2 ^ (64 * n) * uint c')"
      by (simp add: limbs_val_Suc_low low power_add algebra_simps)
    also have "\<dots> = (uint (lo64 prd) + 2 ^ 64 * uint (drop_bit 64 prd)) +
        2 ^ 64 * (limbs_val r (i + (j + 1)) n + uint ai * limbs_val b (j + 1) n)"
      using IH by (simp add: algebra_simps)
    also have "\<dots> = limbs_val r (i + j) (Suc n) + uint ai * limbs_val b j (Suc n) + uint c"
      unfolding d(1) by (simp add: limbs_val_Suc_low algebra_simps)
    finally show ?thesis using IH True unfolding n by auto
  qed
qed

lemma mul_full_row_sound:
  assumes "length r = 8" "i < 4" "\<forall>k. i + 4 \<le> k \<and> k < 8 \<longrightarrow> r ! k = 0"
  shows "limbs_val (mul_full_row a b i r) 0 8 = limbs_val r 0 8 + uint (a ! i) * limbs_val b 0 4 * 2 ^ (64 * i)
    \<and> length (mul_full_row a b i r) = 8 \<and> (\<forall>k. i + 5 \<le> k \<and> k < 8 \<longrightarrow> mul_full_row a b i r ! k = 0)"
proof -
  obtain r' c where e: "mul_full_inner (a ! i) b i 0 r 0 = (r', c)" by fastforce
  have S: "limbs_val r' i 4 + 2 ^ (64 * 4) * uint c = limbs_val r i 4 + uint (a ! i) * limbs_val b 0 4"
    "uint c < 2 ^ 64" "length r' = 8" "\<And>k. k < i \<or> i + 4 \<le> k \<Longrightarrow> r' ! k = r ! k"
    using mul_full_inner_sound [OF e] assms(1,2) by auto
  define R where "R = r'[i + 4 := lo64 c]"
  have row: "mul_full_row a b i r = R" by (simp add: mul_full_row_def e R_def)
  have split: "limbs_val x 0 (i + 5) = limbs_val x 0 i + 2 ^ (64 * i) * (limbs_val x i 4 + 2 ^ (64 * 4) * uint (x ! (i + 4)))" for x
    using limbs_val_add [of x 0 i 5] limbs_val_Suc [of x i 4] by (simp add: algebra_simps)
  have z: "limbs_val R 0 8 = limbs_val R 0 (i + 5)" "limbs_val r 0 8 = limbs_val r 0 (i + 5)"
    using assms S(3,4) by (auto intro!: limbs_val_zero_tail simp: R_def)
  have "limbs_val R 0 i = limbs_val r 0 i" using S by (intro limbs_val_cong) (simp add: R_def)
  moreover have "limbs_val R i 4 = limbs_val r' i 4" by (simp add: R_def)
  moreover have "R ! (i + 4) = lo64 c" "r ! (i + 4) = 0" using assms S(3) by (simp_all add: R_def)
  moreover have "uint (lo64 c) = uint c" using S(2) by (simp add: uint_lo64)
  ultimately have "limbs_val R 0 8 = limbs_val r 0 8 + uint (a ! i) * limbs_val b 0 4 * 2 ^ (64 * i)"
    using S(1) unfolding z split by (simp add: algebra_simps)
  then show ?thesis using assms S(3,4) unfolding row by (auto simp: R_def)
qed

lemma mul_full_sound:
  "limbs_val (uint256_mul_full a b) 0 8 = uval a * uval b" "length (uint256_mul_full a b) = 8"
proof -
  define R where "R n = foldl (\<lambda>r i. mul_full_row (limbs a) (limbs b) i r) [0, 0, 0, 0, 0, 0, 0, 0] [0..<n]" for n
  have "limbs_val (R n) 0 8 = limbs_val (limbs a) 0 n * limbs_val (limbs b) 0 4 \<and> length (R n) = 8
      \<and> (\<forall>k. n + 4 \<le> k \<and> k < 8 \<longrightarrow> R n ! k = 0)" if "n \<le> 4" for n
    using that
  proof (induction n)
    case 0
    show ?case by (auto simp: R_def limbs_val_def less_Suc_eq numeral_eq_Suc)
  next
    case (Suc n)
    have "R (Suc n) = mul_full_row (limbs a) (limbs b) n (R n)" by (simp add: R_def)
    then show ?case using Suc mul_full_row_sound [of "R n" n "limbs a" "limbs b"]
      by (auto simp: limbs_val_Suc algebra_simps)
  qed
  from this [of 4] show "limbs_val (uint256_mul_full a b) 0 8 = uval a * uval b" "length (uint256_mul_full a b) = 8"
    by (simp_all add: uint256_mul_full_def R_def uval_limbs)
qed


section \<open>The 512-bit remainder: correctness\<close>

declare refine_q_hat_512.simps [simp del] 
declare refine_q_hat.simps [simp del]

lemma refine_512_eq:
  "2 \<le> n \<Longrightarrow> refine_q_hat_512 n v u2 q r = refine_q_hat (v ! (n - 1)) (v ! (n - 2)) u2 q r"
proof (induction n v u2 q r rule: refine_q_hat_512.induct)
  case (1 n v u2 q r)
  then show ?case
    unfolding refine_q_hat_512.simps [of n v u2 q r]
      refine_q_hat.simps [of "v ! (n - 1)" "v ! (n - 2)" u2 q r] Let_def
    by simp
qed

lemma single_digit_estimate:
  assumes "normalized v 1" "limbs_val u j 2 < 2 ^ 64 * limbs_val v 0 1"
  defines "tmp \<equiv> push_bit 64 (to_u128 (u ! (j + 1))) OR to_u128 (u ! j)"
  shows "uint (tmp div to_u128 (v ! 0)) = limbs_val u j 2 div limbs_val v 0 1"
    "uint (tmp div to_u128 (v ! 0)) < 2 ^ 64"
proof -
  have V: "limbs_val v 0 1 = uint (v ! 0)" by (simp add: limbs_val_def)
  have U: "limbs_val u j 2 = uint tmp"
  proof -
    have "uint (u ! j) < 2 ^ 64" "uint (u ! (j + 1)) * 2 ^ 64 < 2 ^ 128"
      using uint64_bounds(2) [of "u ! j"] uint64_bounds(2) [of "u ! (j + 1)"] by simp_all
    then have "uint tmp = uint (u ! (j + 1)) * 2 ^ 64 + uint (u ! j)"
      unfolding tmp_def by (subst uint_join128) simp_all
    then show ?thesis by (simp add: limbs_val_Suc numeral_2_eq_2)
  qed
  show e: "uint (tmp div to_u128 (v ! 0)) = limbs_val u j 2 div limbs_val v 0 1"
    unfolding V U by (simp add: uint_div_distrib)
  show "uint (tmp div to_u128 (v ! 0)) < 2 ^ 64"
    unfolding e using assms(2) normalized_pos [OF assms(1)] by (subst zdiv_less_iff) simp_all
qed

lemma knuth_step_512_sound:
  assumes "1 \<le> n" "normalized v n" "j + n < length u" "limbs_val u j (n + 1) < 2 ^ 64 * limbs_val v 0 n"
  shows "\<exists>q. digit_step v n j u q (knuth_step_512 v n j u)"
proof -
  define tmp where "tmp = push_bit 64 (to_u128 (u ! (j + n))) OR to_u128 (u ! (j + n - 1))"
  define q_hat where "q_hat = refine_q_hat_512 n v (u ! (j + n - 2))
      (tmp div to_u128 (v ! (n - 1))) (tmp mod to_u128 (v ! (n - 1)))"
  obtain q u2 where sd: "sub_digit v n j q_hat u = (q, u2)" by fastforce
  have st: "knuth_step_512 v n j u = u2" 
    using sd unfolding q_hat_def tmp_def by (simp add: knuth_step_512_def)
  have "limbs_val u j (n + 1) div limbs_val v 0 n \<le> uint q_hat \<and>
      uint q_hat \<le> limbs_val u j (n + 1) div limbs_val v 0 n + 1 \<and> uint q_hat < 2 ^ 64"
  proof (cases "n = 1")
    case True
    have two: "1 + 1 = (2::nat)" by simp
    note e = single_digit_estimate [OF assms(2,4) [unfolded True two]]
    have t: "tmp = push_bit 64 (to_u128 (u ! (j + 1))) OR to_u128 (u ! j)" by (simp add: tmp_def True)
    have "q_hat = tmp div to_u128 (v ! 0)"
      using e(2) unfolding q_hat_def t by (simp add: True refine_q_hat_512.simps word_le_def)
    then show ?thesis using e unfolding True two t by simp
  next
    case False
    then have n: "2 \<le> n" using assms(1) by simp
    show ?thesis
      using estimate_sound [OF n assms(2) refl refl assms(4)] n
      by (simp add: q_hat_def tmp_def refine_512_eq)
  qed
  then have "digit_step v n j u q u2"
    unfolding digit_step_def
    using sub_digit_sound [OF refl refl assms(3) _ _ _ normalized_pos [OF assms(2)] sd] by blast
  then show ?thesis using st by blast
qed

interpretation d512: digit_loop knuth_step_512 knuth_loop_512 "\<lambda>u. u" 1
  by unfold_locales (simp_all add: knuth_step_512_sound)

lemma top_index_nonzero:
  assumes "uval b \<noteq> 0"
  obtains k where "top_limb_index (limbs b) = int k" "k < 4" "limbs b ! k \<noteq> 0"
    "uval b = limbs_val (limbs b) 0 (Suc k)"
proof (cases "2 ^ 64 \<le> uval b")
  case True
  then show ?thesis by (rule top_limb_index_sound) (rule that)
next
  case False
  then have "limb1 b = 0 \<and> limb2 b = 0 \<and> limb3 b = 0" using uval_lt_64_limbs [of b] by simp
  moreover from this have "limb0 b \<noteq> 0" using assms by (auto simp: uval_def)
  ultimately show ?thesis
    by (intro that [of 0]) (simp_all add: top_limb_index_def limbs_nth uval_def limbs_val_Suc)
qed

lemma high_limbs_zero:
  assumes "(a ! 4 OR a ! 5 OR a ! 6 OR a ! 7) = 0"
  shows "limbs_val a 0 8 = limbs_val a 0 4"
proof (rule limbs_val_zero_tail)
  fix k :: nat assume "4 \<le> k" "k < 8"
  then consider "k = 4" | "k = 5" | "k = 6" | "k = 7" by linarith
  then show "a ! k = 0" using assms by cases (simp_all add: or_eq_0_iff)
qed simp

lemma uval_low_limbs:
  "uval (uint256_from_limbs (a ! 0) (a ! 1) (a ! 2) (a ! 3)) = limbs_val a 0 4"
  by (simp add: uval_from_limbs limbs_val_Suc four_Suc numeral_2_eq_2 numeral_3_eq_3)

lemma multi_limb_512_sound:
  assumes k: "k < 4" "limbs b ! k \<noteq> 0" "uval b = limbs_val (limbs b) 0 (Suc k)"
    and s: "s = clzll (limbs b ! k)"
    and v: "limbs_val v 0 (Suc k) = 2 ^ s * uval b" "normalized v (Suc k)"
    and u: "limbs_val u 0 9 = 2 ^ s * limbs_val a 0 8" "length u = 9"
  shows "uval (of_limbs (denormalize s (Suc k) (knuth_loop_512 v (Suc k) (8 - k) u))) =
    limbs_val a 0 8 mod uval b"
proof -
  define u' where "u' = knuth_loop_512 v (Suc k) (8 - k) u"
  define A where "A = limbs_val a 0 8"
  have n: "8 - k + Suc k = 9" "8 - k + k = 8" using k(1) by simp_all
  have "limbs_val u (8 - k) (Suc k) < limbs_val v 0 (Suc k)"
    using top_segment_less [OF k(2) v(1) [unfolded k(3)] n(2), of u A] u(1) limbs_val_bounds(2) [of a 0 8]
    by (simp add: A_def)
  then have R: "limbs_val u' 0 (Suc k) = 2 ^ s * A mod (2 ^ s * uval b)"
    using d512.loop_remainder [OF _ v(2), of "8 - k" u] u n by (simp add: v(1) u'_def A_def)
  then have R': "limbs_val u' 0 (Suc k) = 2 ^ s * (A mod uval b)" unfolding mult_mod_right .
  then have "limbs_val u' 0 (Suc k) mod 2 ^ s = 0" by simp
  then have "uval (of_limbs (denormalize s (Suc k) u')) = limbs_val u' 0 (Suc k) div 2 ^ s"
    using denormalize_sound [of "Suc k" s u'] clzll_sound(1) [OF k(2), folded s] k(1)
    by (simp add: uval_of_limbs)
  then show ?thesis using R' by (simp flip: u'_def A_def)
qed

lemma normalized_copy: "normalized (copy_loop src n dst) n \<Longrightarrow> n \<le> length dst \<Longrightarrow> normalized src n"
  by (auto simp: normalized_def copy_loop_nth)

lemma uint512_mod_256_sound:
  assumes "uval b \<noteq> 0"
  shows "uval (uint512_mod_256 a b) = limbs_val a 0 8 mod uval b"
proof (cases "(a ! 4 OR a ! 5 OR a ! 6 OR a ! 7) = 0")
  case True
  have "limbs_val a 0 4 = 0" if "uint512_is_zero a"
    using that by (simp add: uint512_is_zero_def or_eq_0_iff uval_from_limbs flip: uval_low_limbs)
  then show ?thesis
    using assms True by (auto simp: uint512_mod_256_def uval_mod high_limbs_zero uval_low_limbs [simplified])
next
  case False
  obtain k where k: "top_limb_index (limbs b) = int k" "k < 4" "limbs b ! k \<noteq> 0"
    "uval b = limbs_val (limbs b) 0 (Suc k)"
    using top_index_nonzero [OF assms] .
  define s where "s = clzll (limbs b ! k)"
  define v where "v = (if s = 0 then limbs b else fst (shl_loop s (limbs b) (k + 1) 0 [0, 0, 0, 0] 0))"
  define u where "u = (if s = 0 then copy_loop a 8 [0, 0, 0, 0, 0, 0, 0, 0, 0]
      else let (u, carry) = shl_loop s a 8 0 [0, 0, 0, 0, 0, 0, 0, 0, 0] 0 in u[8 := carry])"
  have m: "8 - (k + 1) + 1 = 8 - k" using k(2) by simp
  have nz: "\<not> uint512_is_zero a" using False by (auto simp: uint512_is_zero_def or_eq_0_iff)
  have s64: "s < 64" using clzll_sound(1) [OF k(3)] by (simp add: s_def)
  have "uint512_mod_256 a b = of_limbs (denormalize s (k + 1) (knuth_loop_512 v (k + 1) (8 - k) u))"
    unfolding uint512_mod_256_def uint256_is_zero_iff k(1)
      Let_def nat_int m s_def [symmetric] v_def [symmetric] u_def [unfolded Let_def, symmetric]
    using assms False nz by simp
  moreover have "limbs_val v 0 (Suc k) = 2 ^ s * uval b" "normalized v (Suc k)"
    using shifted_divisor [of "Suc k" "limbs b" s] k normalized_copy [of "limbs b" "Suc k" "[0, 0, 0, 0]"]
    by (auto simp: s_def v_def shifted_def)
  moreover have "limbs_val u 0 9 = 2 ^ s * limbs_val a 0 8" "length u = 9"
    using shifted_operand [OF s64, of "[0, 0, 0, 0, 0, 0, 0, 0, 0]" 8 a] by (simp_all add: u_def)
  ultimately show ?thesis using multi_limb_512_sound [OF k(2-4) s_def] by simp
qed


section \<open>Modular multiplication: correctness\<close>

lemma uval_mulmod:
  "uval (uint256_mulmod a b n) = (if uval n = 0 then 0 else uval a * uval b mod uval n)"
proof -
  have "uval (uint256_from_limbs (p ! 0) (p ! 1) (p ! 2) (p ! 3)) = limbs_val p 0 8"
    if "(p ! 4 OR p ! 5 OR p ! 6 OR p ! 7) = 0" for p
    using that by (simp add: uval_low_limbs [simplified] high_limbs_zero)
  then show ?thesis
    by (simp add: uint256_mulmod_def Let_def uval_mod uint512_mod_256_sound mul_full_sound)
qed


section \<open>Exponentiation: correctness\<close>

declare exp_loop.simps [simp del]

lemma exp_loop_sound:
  "w256 (exp_loop result multiplier e) = w256 result * w256 multiplier ^ nat (uval e)"
proof (induction result multiplier e rule: exp_loop.induct)
  case (1 result multiplier e)
  show ?case
  proof (cases "uval e = 0")
    case True
    then show ?thesis by (simp add: exp_loop.simps [of _ _ e])
  next
    case False
    define h where "h = nat (uval (exp_shr1 e))"
    define bit where "bit = (limb0 e AND 1 \<noteq> 0)"
    have "uint (limb0 e) mod 2 = of_bool bit"
      by (simp add: bit_def word_uint_eq_iff uint_and_1)
    then have n: "nat (uval e) = (if bit then Suc (2 * h) else 2 * h)"
      using uval_exp_shr1 [of e] uval_bounds(1) [of "exp_shr1 e"] 
      by (cases bit) (simp_all add: h_def nat_mult_distrib nat_add_distrib)
    have "exp_loop result multiplier e =
        exp_loop (if bit then uint256_mul result multiplier else result)
          (uint256_mul multiplier multiplier) (exp_shr1 e)"
      using False by (simp add: exp_loop.simps [of _ _ e] bit_def)
    moreover have "(w256 multiplier * w256 multiplier) ^ h = w256 multiplier ^ (2 * h)"
      by (simp add: power_mult power2_eq_square)
    ultimately show ?thesis
      using 1 [OF _ refl] False n by (simp add: bit_def [symmetric] h_def [symmetric] mul.refines mult.assoc)
  qed
qed

lemma even_power_wraps:
  assumes "even (uint x)" "256 \<le> n" shows "x ^ n = (0 :: u256)"
proof -
  have "2 ^ n dvd uint x ^ n" using assms(1) by (simp add: dvd_power_same)
  then have "2 ^ 256 dvd uint x ^ n" using assms(2) power_le_dvd by blast
  then have "uint (word_of_int (uint x ^ n) :: u256) = 0" unfolding uint_word_of_int by simp
  moreover have "x ^ n = word_of_int (uint x ^ n)" by simp
  ultimately show ?thesis by (simp only: word_uint_eq_iff uint_0_eq)
qed

lemma uval_even: "even (uval b) \<longleftrightarrow> limb0 b AND 1 = 0"
  by (simp add: uval_def word_uint_eq_iff uint_and_1 flip: even_iff_mod_2_eq_zero)

lemma large_limbs:
  fixes a b c d :: int
  assumes "0 \<le> a" "0 \<le> b" "0 \<le> c" "0 \<le> d" "255 < a \<or> b \<noteq> 0 \<or> c \<noteq> 0 \<or> d \<noteq> 0"
  shows "256 \<le> a + 2 ^ 64 * b + 2 ^ 128 * c + 2 ^ 192 * d"
  using assms(5) by (elim disjE) (use assms(1-4) in simp_all)

lemma w256_exp: "w256 (uint256_exp base exponent) = w256 base ^ unat (w256 exponent)"
proof -
  have loop: "w256 (exp_loop (uint256_from_u64 1) base exponent) = w256 base ^ unat (w256 exponent)"
    by (simp add: exp_loop_sound unat_w256 w256_from_u64)
  have large: "256 \<le> unat (w256 exponent)"
    if "limb0 exponent > 255 \<or> limb1 exponent \<noteq> 0 \<or> limb2 exponent \<noteq> 0 \<or> limb3 exponent \<noteq> 0"
  proof -
    have "256 \<le> uval exponent"
      using that unfolding uval_def word_less_def word_uint_eq_iff uint_0_eq
      by (intro large_limbs) simp_all
    then show ?thesis by (simp add: unat_w256)
  qed
  consider "uval exponent = 0" | "uval exponent \<noteq> 0" "uval base = 0"
    | "uval exponent \<noteq> 0" "uval base \<noteq> 0" "base = uint256_from_u64 1"
    | "uval exponent \<noteq> 0" "uval base \<noteq> 0" "base \<noteq> uint256_from_u64 1" by blast
  then show ?thesis
  proof cases
    case 4
    then show ?thesis
      using large even_power_wraps [of "w256 base" "unat (w256 exponent)"]
      by (auto simp: uint256_exp_def loop uval_even)
  next
    case 2
    then have "0 < nat (uval exponent)" using uval_bounds(1) [of exponent] by simp
    moreover have "w256 base = 0" using 2 by (simp add: w256_def)
    ultimately show ?thesis using 2 by (simp add: uint256_exp_def unat_w256 zero_power)
  qed (simp_all add: uint256_exp_def unat_w256 w256_from_u64)
qed


section \<open>Bytes: correctness\<close>

lemma uint_limb_of_bytes: "length p \<le> 8 \<Longrightarrow> uint (limb_of_bytes p) = be_val p"
proof (induction p rule: rev_induct)
  case (snoc b p)
  have l: "uint (limb_of_bytes p) < 256 ^ length p" using snoc be_val_bounds(2) [of p] by simp
  have "(256::int) ^ length p \<le> 256 ^ 7" using snoc by (intro power_increasing) simp_all
  with l have "uint (limb_of_bytes p) < 2 ^ 56" by simp
  then have sh: "uint (push_bit 8 (limb_of_bytes p)) = uint (limb_of_bytes p) * 256"
    by (subst uint_shl_nowrap) simp_all
  have "push_bit 8 (limb_of_bytes p) OR u8_to_u64 b = push_bit 8 (limb_of_bytes p) + u8_to_u64 b"
    using uint8_bounds(2) [of b] sh by (intro or_disjoint_add [of _ 8]) (simp_all add: uint_up_ucast is_up)
  moreover have "uint (push_bit 8 (limb_of_bytes p) + u8_to_u64 b) = uint (limb_of_bytes p) * 256 + uint b"
    using sh \<open>uint (limb_of_bytes p) < 2 ^ 56\<close> uint8_bounds(2) [of b]
    by (subst uint_add_nowrap) (simp_all add: uint_up_ucast is_up)
  ultimately show ?case using snoc by (simp add: limb_of_bytes_def)
qed (simp add: limb_of_bytes_def)

lemma limb_to_bytes_sound:
  "length (limb_to_bytes k x acc) = k + length acc"
  "be_val (limb_to_bytes k x acc) = (uint x mod 256 ^ k) * 256 ^ length acc + be_val acc"
proof (induction k arbitrary: x acc)
  case (Suc k)
  { case 1 show ?case using Suc by simp }
  { case 2
    have b: "uint (to_u8 (x AND 0xFF)) = uint x mod 256"
      by (simp add: and_ff unsigned_ucast_eq take_bit_eq_mod uint_mod_distrib)
    define d where "d = uint x div 256 mod 256 ^ k"
    have x: "uint x mod 256 ^ Suc k = uint x mod 256 + 256 * d"
      using zmod_zmult2_eq [of "256 ^ k" "uint x" 256] by (simp add: d_def)
    have "uint (drop_bit 8 x) = uint x div 256" by (simp add: uint_shr)
    then show ?case
      using Suc(2) [of "drop_bit 8 x" "to_u8 (x AND 0xFF) # acc"]
      unfolding limb_to_bytes.simps be_val_Cons b x by (simp add: d_def [symmetric] algebra_simps) }
qed simp_all

lemma length_to_bytes [simp]: "length (uint256_to_bytes_be v) = 32"
  by (simp add: uint256_to_bytes_be_def limb_to_bytes_sound four_Suc)

lemma be_val_to_bytes [simp]: "be_val (uint256_to_bytes_be v) = uval v"
proof -
  have "be_val (limb_to_bytes 8 x []) = uint x" for x
    using uint64_bounds [of x] by (simp add: limb_to_bytes_sound mod_pos_pos_trivial)
  then show ?thesis
    by (simp add: uint256_to_bytes_be_def four_Suc be_val_append limb_to_bytes_sound(1) limbs_def uval_def)
qed

lemma be_val_chunks:
  assumes "length p = 32"
  shows "be_val p = be_val (take 8 (drop 24 p)) + 2 ^ 64 * be_val (take 8 (drop 16 p)) +
    2 ^ 128 * be_val (take 8 (drop 8 p)) + 2 ^ 192 * be_val (take 8 p)"
proof -
  have s: "p = take 8 p @ take 8 (drop 8 p) @ take 8 (drop 16 p) @ take 8 (drop 24 p)"
    using append_take_drop_id [of 8 p] append_take_drop_id [of 8 "drop 8 p"]
      append_take_drop_id [of 8 "drop 16 p"] assms by simp
  show ?thesis by (subst s) (simp add: be_val_append assms)
qed

lemma uval_from_bytes: "uval (uint256_from_bytes_be data) = be_val data mod 2 ^ 256"
proof (cases "data = []")
  case True
  then show ?thesis by (simp add: uint256_from_bytes_be_def)
next
  case ne: False
  define d where "d = (if length data > 32 then drop (length data - 32) data else data)"
  define p where "p = replicate (32 - length d) 0 @ d"
  define L where "L i = limb_of_bytes (take 8 (drop ((3 - i) * 8) p))" for i :: nat
  have len: "length p = 32" by (simp add: p_def d_def)
  have "be_val d = be_val data mod 256 ^ 32"
  proof (cases "length data > 32")
    case False
    then have "(256::int) ^ length data \<le> 256 ^ 32" by (intro power_increasing) simp_all
    then show ?thesis using be_val_bounds [of data] False by (simp add: d_def mod_pos_pos_trivial)
  qed (simp add: d_def be_val_drop)
  then have "be_val p = be_val data mod 2 ^ 256" by (simp add: p_def be_val_append)
  moreover have "uval (uint256_from_limbs (L 0) (L 1) (L 2) (L 3)) = be_val p"
    unfolding be_val_chunks [OF len] L_def by (simp add: uval_from_limbs uint_limb_of_bytes)
  moreover have "uint256_from_bytes_be data = uint256_from_limbs (L 0) (L 1) (L 2) (L 3)"
    using ne unfolding uint256_from_bytes_be_def Let_def L_def p_def d_def length_0_conv
    by (rule if_not_P)
  ultimately show ?thesis by metis
qed

lemma from_to_bytes: "uint256_from_bytes_be (uint256_to_bytes_be v) = v"
  using uval_bounds [of v] by (simp add: uval_from_bytes mod_pos_pos_trivial flip: uval_inject)

lemma to_from_bytes: "length d = 32 \<Longrightarrow> uint256_to_bytes_be (uint256_from_bytes_be d) = d"
  using be_val_bounds [of d] by (intro be_val_inj) (simp_all add: uval_from_bytes mod_pos_pos_trivial)


section \<open>Properties\<close>

text \<open>
  C15: modular addition and multiplication return the remainder of the exact sum (of 257 bits) and
  of the exact product (of 512 bits), and zero for a zero modulus.
\<close>

theorem uint256_modular_correct:
  "uval (uint256_addmod a b n) = (if uval n = 0 then 0 else (uval a + uval b) mod uval n) \<and>
   uval (uint256_mulmod a b n) = (if uval n = 0 then 0 else (uval a * uval b) mod uval n)"
  by (simp add: uval_addmod uval_mulmod)

text \<open>
  C20: exponentiation, with its shortcuts for trivial and for even bases, is the power of the
  256-bit word; the loop ends for every exponent.
\<close>

theorem uint256_exp_correct:
  "w256 (uint256_exp base exponent) = w256 base ^ unat (w256 exponent)"
  by (rule w256_exp)

text \<open>
  C21: signed division and remainder truncate towards zero on the two's complement values, the
  remainder with the sign of the dividend; division by zero gives zero and the one overflowing
  quotient wraps.
\<close>

theorem uint256_signed_correct:
  "w256 (uint256_sdiv a b) = word_of_int (sint (w256 a) sdiv sint (w256 b)) \<and>
   w256 (uint256_smod a b) = (if w256 b = 0 then 0 else word_of_int (sint (w256 a) smod sint (w256 b)))"
  by (simp add: w256_sdiv w256_smod)

text \<open>
  A number written as 32 big-endian bytes reads back, and a byte string of any length reads as
  the number of its last 32 bytes.
\<close>

theorem uint256_bytes_correct:
  "uint256_from_bytes_be (uint256_to_bytes_be v) = v \<and> length (uint256_to_bytes_be v) = 32 \<and>
   uval (uint256_from_bytes_be data) = be_val data mod 2 ^ 256"
  by (simp add: from_to_bytes uval_from_bytes)

end
