(* ===== verification/Hex.thy ===== *)
theory Hex
  imports Uint256_Arith
begin

text \<open>
  Byte strings of fixed size and their text forms: \<open>src/util/hex.c\<close>, \<open>include/div0/util/hex.h\<close>,
  \<open>src/types/address.c\<close>, \<open>src/types/hash.c\<close>, \<open>src/types/bytes32.c\<close> and \<open>uint256_from_hex\<close>.
  A C string is the list of its characters before the terminating zero, a nullable pointer is an
  option, and a function that returns false is \<open>None\<close>.  Addresses, hashes and 32-byte values are
  byte lists; their sizes are hypotheses where they matter.
\<close>

unbundle bit_operations_syntax

section \<open>Fixed-size byte arrays\<close>

type_synonym address_t = "u8 list"
type_synonym hash_t = "u8 list"
type_synonym bytes32_t = "u8 list"

definition ADDRESS_SIZE :: nat where "ADDRESS_SIZE = 20"
definition HASH_SIZE :: nat where "HASH_SIZE = 32"
definition BYTES32_SIZE :: nat where "BYTES32_SIZE = 32"

definition address_zero :: address_t where
  "address_zero = replicate ADDRESS_SIZE 0"

definition address_is_zero :: "address_t \<Rightarrow> bool" where
  "address_is_zero addr = list_all (\<lambda>i. addr ! i = 0) [0..<ADDRESS_SIZE]"

definition address_equal :: "address_t \<Rightarrow> address_t \<Rightarrow> bool" where
  "address_equal a b \<longleftrightarrow> take ADDRESS_SIZE a = take ADDRESS_SIZE b"

definition address_from_uint256 :: "uint256_t \<Rightarrow> address_t" where
  "address_from_uint256 v =
     (let upper = to_u32 (limb2 v); mid = limb1 v; low = limb0 v
      in [ucast (drop_bit 24 upper), ucast (drop_bit 16 upper), ucast (drop_bit 8 upper), ucast upper,
          ucast (drop_bit 56 mid), ucast (drop_bit 48 mid), ucast (drop_bit 40 mid), ucast (drop_bit 32 mid),
          ucast (drop_bit 24 mid), ucast (drop_bit 16 mid), ucast (drop_bit 8 mid), ucast mid,
          ucast (drop_bit 56 low), ucast (drop_bit 48 low), ucast (drop_bit 40 low), ucast (drop_bit 32 low),
          ucast (drop_bit 24 low), ucast (drop_bit 16 low), ucast (drop_bit 8 low), ucast low])"

text \<open>Eight bytes from position \<open>k\<close> on, as the code joins them.\<close>

definition join8 :: "u8 list \<Rightarrow> nat \<Rightarrow> u64" where
  "join8 p k =
     push_bit 56 (u8_to_u64 (p ! k)) OR push_bit 48 (u8_to_u64 (p ! (k + 1))) OR
     push_bit 40 (u8_to_u64 (p ! (k + 2))) OR push_bit 32 (u8_to_u64 (p ! (k + 3))) OR
     push_bit 24 (u8_to_u64 (p ! (k + 4))) OR push_bit 16 (u8_to_u64 (p ! (k + 5))) OR
     push_bit 8 (u8_to_u64 (p ! (k + 6))) OR u8_to_u64 (p ! (k + 7))"

definition address_to_uint256 :: "address_t \<Rightarrow> uint256_t" where
  "address_to_uint256 addr = uint256_from_limbs (join8 addr 12) (join8 addr 4)
     (push_bit 24 (u8_to_u64 (addr ! 0)) OR push_bit 16 (u8_to_u64 (addr ! 1)) OR
      push_bit 8 (u8_to_u64 (addr ! 2)) OR u8_to_u64 (addr ! 3)) 0"

definition hash_zero :: hash_t where
  "hash_zero = replicate HASH_SIZE 0"

definition hash_equal :: "hash_t \<Rightarrow> hash_t \<Rightarrow> bool" where
  "hash_equal a b \<longleftrightarrow> take HASH_SIZE a = take HASH_SIZE b"

definition hash_to_uint256 :: "hash_t \<Rightarrow> uint256_t" where
  "hash_to_uint256 h = uint256_from_bytes_be (take HASH_SIZE h)"

definition hash_from_uint256 :: "uint256_t \<Rightarrow> hash_t" where
  "hash_from_uint256 v = uint256_to_bytes_be v"

definition bytes32_zero :: bytes32_t where
  "bytes32_zero = replicate BYTES32_SIZE 0"

definition bytes32_from_bytes_padded :: "u8 list option \<Rightarrow> bytes32_t" where
  "bytes32_from_bytes_padded data =
     (case data of
        None \<Rightarrow> bytes32_zero
      | Some d \<Rightarrow>
          if length d = 0 then bytes32_zero
          else let copy_len = (if length d < BYTES32_SIZE then length d else BYTES32_SIZE)
               in take copy_len d @ drop copy_len bytes32_zero)"

definition bytes32_to_uint256 :: "bytes32_t \<Rightarrow> uint256_t" where
  "bytes32_to_uint256 b = uint256_from_bytes_be (take BYTES32_SIZE b)"

definition bytes32_from_uint256 :: "uint256_t \<Rightarrow> bytes32_t" where
  "bytes32_from_uint256 v = uint256_to_bytes_be v"


section \<open>Decoding hexadecimal text\<close>

definition char_code :: "char \<Rightarrow> nat" where
  "char_code c = of_char c"

definition hex_char_to_nibble :: "char \<Rightarrow> u8 option" where
  "hex_char_to_nibble c =
     (let k = char_code c
      in if char_code CHR ''0'' \<le> k \<and> k \<le> char_code CHR ''9''
         then Some (of_nat (k - char_code CHR ''0''))
         else if char_code CHR ''a'' \<le> k \<and> k \<le> char_code CHR ''f''
         then Some (of_nat (k - char_code CHR ''a'' + 10))
         else if char_code CHR ''A'' \<le> k \<and> k \<le> char_code CHR ''F''
         then Some (of_nat (k - char_code CHR ''A'' + 10))
         else None)"

fun skip_0x_prefix :: "string \<Rightarrow> string" where
  "skip_0x_prefix (c # d # s) =
     (if c = CHR ''0'' \<and> (d = CHR ''x'' \<or> d = CHR ''X'') then s else c # d # s)"
| "skip_0x_prefix s = s"

text \<open>The loop over pairs of digits; the length is known to be even there.\<close>

fun hex_pairs :: "string \<Rightarrow> u8 list option" where
  "hex_pairs (c # d # s) =
     (case hex_char_to_nibble c of
        None \<Rightarrow> None
      | Some high \<Rightarrow>
          (case hex_char_to_nibble d of
             None \<Rightarrow> None
           | Some low \<Rightarrow> map_option (Cons (push_bit 4 high OR low)) (hex_pairs s)))"
| "hex_pairs s = Some []"

definition hex_decode :: "string option \<Rightarrow> nat \<Rightarrow> u8 list option" where
  "hex_decode hex out_len =
     (case hex of
        None \<Rightarrow> None
      | Some h \<Rightarrow>
          let h = skip_0x_prefix h
          in if length h \<noteq> out_len * 2 then None else hex_pairs h)"

fun hex_u64_loop :: "string \<Rightarrow> u64 \<Rightarrow> u64 option" where
  "hex_u64_loop [] value = Some value"
| "hex_u64_loop (c # s) value =
     (case hex_char_to_nibble c of
        None \<Rightarrow> None
      | Some nibble \<Rightarrow> hex_u64_loop s (push_bit 4 value OR u8_to_u64 nibble))"

definition hex_decode_u64 :: "string option \<Rightarrow> u64 option" where
  "hex_decode_u64 hex =
     (case hex of
        None \<Rightarrow> None
      | Some h \<Rightarrow>
          let h = skip_0x_prefix h
          in if length h = 0 \<or> length h > 16 then None else hex_u64_loop h 0)"

text \<open>The four limbs shifted by a nibble, the carry going up, and the nibble put in.\<close>

definition shl4_or :: "uint256_t \<Rightarrow> u8 \<Rightarrow> uint256_t" where
  "shl4_or out nibble = uint256_from_limbs
     ((push_bit 4 (limb0 out) OR 0) OR u8_to_u64 nibble)
     (push_bit 4 (limb1 out) OR drop_bit 60 (limb0 out))
     (push_bit 4 (limb2 out) OR drop_bit 60 (limb1 out))
     (push_bit 4 (limb3 out) OR drop_bit 60 (limb2 out))"

fun hex_uint256_loop :: "string \<Rightarrow> uint256_t \<Rightarrow> uint256_t option" where
  "hex_uint256_loop [] out = Some out"
| "hex_uint256_loop (c # s) out =
     (case hex_char_to_nibble c of
        None \<Rightarrow> None
      | Some nibble \<Rightarrow> hex_uint256_loop s (shl4_or out nibble))"

definition hex_decode_uint256 :: "string option \<Rightarrow> uint256_t option" where
  "hex_decode_uint256 hex =
     (case hex of
        None \<Rightarrow> None
      | Some h \<Rightarrow>
          let h = skip_0x_prefix h
          in if length h = 0 \<or> length h > 64 then None else hex_uint256_loop h uint256_zero)"

definition hex_strlen :: "string option \<Rightarrow> nat" where
  "hex_strlen hex = (case hex of None \<Rightarrow> 0 | Some h \<Rightarrow> length (skip_0x_prefix h))"

definition uint256_from_hex :: "string option \<Rightarrow> uint256_t option" where
  "uint256_from_hex hex = map_option uint256_from_bytes_be (hex_decode hex 32)"

definition address_from_hex :: "string option \<Rightarrow> address_t option" where
  "address_from_hex hex = hex_decode hex ADDRESS_SIZE"

definition hash_from_hex :: "string option \<Rightarrow> hash_t option" where
  "hash_from_hex hex = hex_decode hex HASH_SIZE"


section \<open>Encoding hexadecimal text\<close>

definition HEX_CHARS :: string where
  "HEX_CHARS = ''0123456789abcdef''"

definition hex_byte :: "u8 \<Rightarrow> string" where
  "hex_byte b = [HEX_CHARS ! unat (drop_bit 4 b AND 0x0F), HEX_CHARS ! unat (b AND 0x0F)]"

definition hex_encode :: "u8 list \<Rightarrow> string" where
  "hex_encode data = ''0x'' @ concat (map hex_byte data)"

function nibble_count :: "u64 \<Rightarrow> nat" where
  "nibble_count tmp = (if tmp > 0 then 1 + nibble_count (drop_bit 4 tmp) else 0)"
  by pat_completeness auto
termination
proof (relation "measure unat", goal_cases)
  case (2 tmp)
  then show ?case by (simp add: drop_bit_eq_div unat_div_distrib unat_gt_0 word_gt_0)
qed simp

definition hex_encode_u64 :: "u64 \<Rightarrow> string" where
  "hex_encode_u64 v =
     (if v = 0 then ''0x0''
      else let nibbles = nibble_count v
           in ''0x'' @ map (\<lambda>i. HEX_CHARS ! unat (drop_bit ((nibbles - 1 - i) * 4) v AND 0x0F)) [0..<nibbles])"

definition hex_encode_uint256 :: "uint256_t \<Rightarrow> string" where
  "hex_encode_uint256 v =
     (if uint256_is_zero v then ''0x0''
      else let bytes = dropWhile (\<lambda>b. b = 0) (uint256_to_bytes_be v);
               skip_first_nibble = (hd bytes < 0x10)
           in ''0x'' @ (if skip_first_nibble then [HEX_CHARS ! unat (hd bytes AND 0x0F)] else hex_byte (hd bytes))
              @ concat (map hex_byte (tl bytes)))"

definition hex_encode_uint256_padded :: "uint256_t \<Rightarrow> string" where
  "hex_encode_uint256_padded v = ''0x'' @ concat (map hex_byte (uint256_to_bytes_be v))"

definition hex_encode_address :: "address_t \<Rightarrow> string" where
  "hex_encode_address addr = ''0x'' @ concat (map (\<lambda>i. hex_byte (addr ! i)) [0..<ADDRESS_SIZE])"

definition hex_encode_hash :: "hash_t \<Rightarrow> string" where
  "hex_encode_hash h = ''0x'' @ concat (map (\<lambda>i. hex_byte (h ! i)) [0..<HASH_SIZE])"


section \<open>Digits: correctness\<close>

text \<open>The number a string of nibbles stands for, the nibbles of bytes and their characters.\<close>

definition nib_val :: "u8 list \<Rightarrow> int" where
  "nib_val ds = foldl (\<lambda>v d. v * 16 + uint d) 0 ds"

definition nibbles_of :: "u8 list \<Rightarrow> u8 list" where
  "nibbles_of bs = concat (map (\<lambda>b. [drop_bit 4 b AND 0x0F, b AND 0x0F]) bs)"

definition hex_digits :: "u8 list \<Rightarrow> string" where
  "hex_digits ds = map (\<lambda>d. HEX_CHARS ! unat d) ds"

lemma nib_val_Nil [simp]: "nib_val [] = 0"
  by (simp add: nib_val_def)

lemma nib_val_snoc [simp]: "nib_val (ds @ [d]) = nib_val ds * 16 + uint d"
  by (simp add: nib_val_def)

lemma nib_val_append: "nib_val (xs @ ys) = nib_val xs * 16 ^ length ys + nib_val ys"
proof (induction ys rule: rev_induct)
  case (snoc y ys)
  show ?case unfolding append_assoc [symmetric] nib_val_snoc snoc by (simp add: algebra_simps)
qed simp

lemma nib_val_Cons: "nib_val (d # ds) = uint d * 16 ^ length ds + nib_val ds"
  using nib_val_append [of "[d]" ds] by (simp add: nib_val_def)

lemma and_0F: "x AND 0x0F = x mod 16" for x :: "'a::len word"
  using take_bit_eq_mod [of 4 x] by (simp add: take_bit_eq_mask mask_eq_exp_minus_1)

lemma uint_nibbles:
  "uint (drop_bit 4 b AND 0x0F) = uint b div 16" "uint (b AND 0x0F) = uint b mod 16" for b :: u8
proof -
  have "uint b div 16 < 16" "0 \<le> uint b div 16" using uint8_bounds [of b] by (simp_all add: pos_imp_zdiv_nonneg_iff)
  then have "uint b div 16 mod 16 = uint b div 16" by (intro mod_pos_pos_trivial)
  then show "uint (drop_bit 4 b AND 0x0F) = uint b div 16"
    by (simp add: and_0F uint_mod_distrib uint_shr)
  show "uint (b AND 0x0F) = uint b mod 16" by (simp add: and_0F uint_mod_distrib)
qed

lemma join_nibbles: "push_bit 4 (drop_bit 4 b AND 0x0F) OR (b AND 0x0F) = b" for b :: u8
proof (rule bit_word_eqI)
  fix n assume "n < LENGTH(8)"
  then have "n \<in> {0, 1, 2, 3, 4, 5, 6, 7}" by auto
  then show "bit (push_bit 4 (drop_bit 4 b AND 0x0F) OR (b AND 0x0F)) n = bit b n"
    by (auto simp: bit_simps)
qed

lemma nib_val_nibbles_of: "nib_val (nibbles_of bs) = be_val bs"
proof (induction bs rule: rev_induct)
  case (snoc b bs)
  have "nib_val (nibbles_of (bs @ [b])) = nib_val (nibbles_of bs @ [drop_bit 4 b AND 0x0F, b AND 0x0F])"
    by (simp add: nibbles_of_def)
  also have "\<dots> = be_val bs * 256 + (uint b div 16 * 16 + uint b mod 16)"
    unfolding nib_val_append nib_val_Cons uint_nibbles(1) snoc by (simp add: uint_nibbles(2))
  finally show ?case by simp
qed (simp add: nibbles_of_def)

lemma nibbles_small: "d \<in> set (nibbles_of bs) \<Longrightarrow> d < 16"
  by (auto simp: nibbles_of_def word_less_def and_0F uint_mod_distrib)

lemma hex_char_of_digit:
  assumes "d < 16" shows "hex_char_to_nibble (HEX_CHARS ! unat d) = Some d"
proof -
  have "\<forall>k\<in>{0..<16}. hex_char_to_nibble (HEX_CHARS ! k) = Some (of_nat k)"
    by code_simp
  moreover have "unat d < 16" using assms by (simp add: word_less_nat_alt)
  ultimately have "hex_char_to_nibble (HEX_CHARS ! unat d) = Some (of_nat (unat d))" by auto
  then show ?thesis by simp
qed

lemma concat_hex_byte: "concat (map hex_byte bs) = hex_digits (nibbles_of bs)"
  by (induction bs) (simp_all add: hex_digits_def nibbles_of_def hex_byte_def)

lemma skip_0x [simp]: "skip_0x_prefix (CHR ''0'' # CHR ''x'' # s) = s"
  by simp

section \<open>Round trips\<close>

lemma hex_pairs_encode: "hex_pairs (concat (map hex_byte bs)) = Some bs"
proof (induction bs)
  case (Cons b bs)
  have "drop_bit 4 b AND 0x0F < 16" "b AND 0x0F < 16"
    by (simp_all add: word_less_def uint_nibbles [simplified] )
  then show ?case using Cons join_nibbles [of b] by (simp add: hex_byte_def hex_char_of_digit)
qed simp

lemma length_hex_bytes: "length (concat (map hex_byte bs)) = 2 * length bs"
  by (induction bs) (simp_all add: hex_byte_def)

lemma hex_decode_encode: "hex_decode (Some (hex_encode bs)) (length bs) = Some bs"
  by (simp add: hex_decode_def hex_encode_def hex_pairs_encode length_hex_bytes)

lemma hex_u64_loop_digits:
  assumes "\<And>d. d \<in> set ds \<Longrightarrow> d < 16" "uint v < 16 ^ (16 - length ds)" "length ds \<le> 16"
  shows "\<exists>w. hex_u64_loop (hex_digits ds) v = Some w \<and> uint w = uint v * 16 ^ length ds + nib_val ds"
  using assms
proof (induction ds arbitrary: v)
  case (Cons d ds)
  have l: "16 - length ds = Suc (16 - length (d # ds))" using Cons.prems(3) by simp
  have "(16::int) ^ (16 - length (d # ds)) \<le> 16 ^ 15" using Cons.prems(3) by (intro power_increasing) simp_all
  then have v: "uint v < 2 ^ 60" using Cons.prems(2) by simp
  have d: "uint d < 16" using Cons.prems(1) by (simp add: word_less_def)
  have sh: "uint (push_bit 4 v) = uint v * 16" using v by (subst uint_shl_nowrap) simp_all
  have "push_bit 4 v OR u8_to_u64 d = push_bit 4 v + u8_to_u64 d"
    using d sh by (intro or_disjoint_add [of _ 4]) (simp_all add: uint_up_ucast is_up)
  then have e: "uint (push_bit 4 v OR u8_to_u64 d) = uint v * 16 + uint d"
    using sh v d by (simp, subst uint_add_nowrap) (simp_all add: uint_up_ucast is_up)
  have "(uint v + 1) * 16 \<le> 16 ^ (16 - length (d # ds)) * 16"
    using Cons.prems(2) by (intro mult_right_mono) simp_all
  then have "uint (push_bit 4 v OR u8_to_u64 d) < 16 ^ (16 - length ds)" unfolding l e using d by simp
  from Cons.IH [OF _ this] Cons.prems show ?case
    by (auto simp: hex_digits_def hex_char_of_digit e nib_val_Cons algebra_simps)
qed (simp add: hex_digits_def)

lemma nibble_count_bounds: "uint v < 16 ^ nibble_count v \<and> nibble_count v \<le> 16 \<and> (v \<noteq> 0 \<longrightarrow> 0 < nibble_count v)"
proof -
  have "uint v < 16 ^ nibble_count v \<and> (\<forall>k. uint v < 16 ^ k \<longrightarrow> nibble_count v \<le> k)"
  proof (induction v rule: nibble_count.induct)
    case (1 v)
    show ?case
    proof (cases "v = 0")
      case True
      then show ?thesis by (simp add: nibble_count.simps [of 0])
    next
      case False
      then have n: "nibble_count v = Suc (nibble_count (drop_bit 4 v))"
        by (simp add: nibble_count.simps [of v] word_gt_0)
      have ih: "uint v div 16 < 16 ^ nibble_count (drop_bit 4 v)"
        "\<And>k. uint v div 16 < 16 ^ k \<Longrightarrow> nibble_count (drop_bit 4 v) \<le> k"
        using 1 False by (simp_all add: word_gt_0 uint_shr)
      have "nibble_count v \<le> k" if "uint v < 16 ^ k" for k
      proof (cases k)
        case 0
        then show ?thesis using that False uint_ge_0 [of v] by (simp add: word_uint_eq_iff)
      next
        case (Suc j)
        then have "uint v div 16 < 16 ^ j" using that by (subst zdiv_less_iff) (simp_all add: mult.commute)
        then show ?thesis using ih(2) [of j] by (simp add: n Suc)
      qed
      moreover have "uint v < 16 ^ nibble_count v"
        using ih(1) unfolding n by (subst (asm) zdiv_less_iff) (simp_all add: mult.commute)
      ultimately show ?thesis by blast
    qed
  qed
  moreover have "uint v < 16 ^ 16" using uint64_bounds(2) [of v] by simp
  moreover have "v \<noteq> 0 \<longrightarrow> 0 < nibble_count v" by (simp add: nibble_count.simps [of v] word_gt_0)
  ultimately show ?thesis by blast
qed

declare nibble_count.simps [simp del]

definition u64_digits :: "nat \<Rightarrow> u64 \<Rightarrow> u8 list" where
  "u64_digits n v = map (\<lambda>i. ucast (drop_bit ((n - 1 - i) * 4) v AND 0x0F)) [0..<n]"

lemma u64_digits_Suc: "u64_digits (Suc n) v = u64_digits n (drop_bit 4 v) @ [ucast (v AND 0x0F)]"
proof -
  have "(Suc n - 1 - i) * 4 = (n - 1 - i) * 4 + 4" if "i < n" for i using that by simp
  then show ?thesis by (simp add: u64_digits_def drop_bit_drop_bit)
qed

lemma uint_low_nibble: "uint (ucast (v AND 0x0F) :: u8) = uint v mod 16" for v :: u64
proof -
  have "uint v mod 16 mod 256 = uint v mod 16" by (intro mod_pos_pos_trivial) (simp_all add: order_less_trans [OF pos_mod_bound])
  then show ?thesis by (simp add: and_0F unsigned_ucast_eq take_bit_eq_mod uint_mod_distrib)
qed

lemma nib_val_u64_digits: "nib_val (u64_digits n v) = uint v mod 16 ^ n"
proof (induction n arbitrary: v)
  case (Suc n)
  then show ?case
    using zmod_zmult2_eq [of "16 ^ n" "uint v" 16]
    by (simp only: u64_digits_Suc nib_val_snoc uint_low_nibble) (simp add: uint_shr)
qed (simp add: u64_digits_def)

lemma u64_digits_small: "d \<in> set (u64_digits n v) \<Longrightarrow> d < 16"
  using uint_low_nibble by (auto simp: u64_digits_def word_less_def)

lemma length_u64_digits [simp]: "length (u64_digits n v) = n"
  by (simp add: u64_digits_def)

lemma hex_digits_u64:
  "hex_digits (u64_digits n v) = map (\<lambda>i. HEX_CHARS ! unat (drop_bit ((n - 1 - i) * 4) v AND 0x0F)) [0..<n]"
proof -
  have "unat (ucast (x AND 0x0F) :: u8) = unat (x AND 0x0F)" for x :: u64
    using uint_low_nibble [of x] by (simp add: unat_eq_nat_uint uint_nibbles and_0F uint_mod_distrib)
  then show ?thesis by (simp add: hex_digits_def u64_digits_def)
qed

lemma hex_u64_roundtrip: "hex_decode_u64 (Some (hex_encode_u64 v)) = Some v"
proof (cases "v = 0")
  case True
  have "hex_char_to_nibble CHR ''0'' = Some 0" using hex_char_of_digit [of 0] by (simp add: HEX_CHARS_def)
  with True show ?thesis by (simp add: hex_encode_u64_def hex_decode_u64_def)
next
  case False
  define n where "n = nibble_count v"
  have n: "uint v < 16 ^ n" "n \<le> 16" "0 < n" using nibble_count_bounds [of v] False by (auto simp: n_def)
  have enc: "hex_encode_u64 v = ''0x'' @ hex_digits (u64_digits n v)"
    using False unfolding hex_digits_u64 by (simp add: hex_encode_u64_def n_def Let_def)
  obtain w where w: "hex_u64_loop (hex_digits (u64_digits n v)) 0 = Some w" "uint w = nib_val (u64_digits n v)"
    using hex_u64_loop_digits [of "u64_digits n v" 0] u64_digits_small n by auto
  then have "w = v" using n(1) by (simp add: word_uint_eq_iff nib_val_u64_digits mod_pos_pos_trivial)
  moreover have "length (hex_digits (u64_digits n v)) = n" by (simp add: hex_digits_def)
  ultimately show ?thesis using w n unfolding enc by (auto simp: hex_decode_u64_def Let_def)
qed

lemma uval_shl4_or:
  assumes "uval v < 2 ^ 252" "uint d < 16"
  shows "uval (shl4_or v d) = uval v * 16 + uint d"
proof -
  define c where "c x = uint x div 2 ^ 60" for x :: u64
  have j: "uint (push_bit 4 x OR y) = uint x * 16 - 2 ^ 64 * c x + uint y" if "uint y < 16" for x y :: u64
    using limb_shift_split [of 4 x] limb_join [of 4 y x] that by (simp add: c_def)
  have cy: "uint (drop_bit 60 x) = c x" "uint (drop_bit 60 x) < 16" for x :: u64
    using limb_carry [of 4 x] by (simp_all add: c_def uint_shr)
  have jc: "uint (push_bit 4 x OR drop_bit 60 y) = uint x * 16 - 2 ^ 64 * c x + c y" for x y :: u64
    using j [OF cy(2)] cy(1) by simp
  have "uint (limb3 v) < 1152921504606846976"
    using assms(1) [unfolded uval_def, simplified] uint_ge_0 [of "limb0 v"] uint_ge_0 [of "limb1 v"]
      uint_ge_0 [of "limb2 v"] by linarith
  then have "c (limb3 v) = 0" by (simp add: c_def)
  moreover have "uint (u8_to_u64 d) = uint d" by (simp add: uint_up_ucast is_up)
  ultimately show ?thesis
    using assms(2) by (simp add: shl4_or_def uval_from_limbs j jc uval_def)
qed

lemma hex_uint256_loop_digits:
  assumes "\<And>d. d \<in> set ds \<Longrightarrow> d < 16" "uval v < 16 ^ (64 - length ds)" "length ds \<le> 64"
  shows "\<exists>w. hex_uint256_loop (hex_digits ds) v = Some w \<and> uval w = uval v * 16 ^ length ds + nib_val ds"
  using assms
proof (induction ds arbitrary: v)
  case (Cons d ds)
  have l: "64 - length ds = Suc (64 - length (d # ds))" using Cons.prems(3) by simp
  have "(16::int) ^ (64 - length (d # ds)) \<le> 16 ^ 63" using Cons.prems(3) by (intro power_increasing) simp_all
  then have v: "uval v < 2 ^ 252" using Cons.prems(2) by simp
  have d: "uint d < 16" using Cons.prems(1) by (simp add: word_less_def)
  note e = uval_shl4_or [OF v d]
  have "(uval v + 1) * 16 \<le> 16 ^ (64 - length (d # ds)) * 16"
    using Cons.prems(2) by (intro mult_right_mono) simp_all
  then have "uval (shl4_or v d) < 16 ^ (64 - length ds)" unfolding l e using d by simp
  from Cons.IH [OF _ this] Cons.prems show ?case
    by (auto simp: hex_digits_def hex_char_of_digit e nib_val_Cons algebra_simps)
qed (simp add: hex_digits_def)

definition min_digits :: "uint256_t \<Rightarrow> u8 list" where
  "min_digits v = (let bs = dropWhile (\<lambda>b. b = 0) (uint256_to_bytes_be v)
     in if hd bs < 0x10 then tl (nibbles_of bs) else nibbles_of bs)"

lemma dropWhile_zeros: "be_val (dropWhile (\<lambda>b. b = 0) bs) = be_val bs"
  by (induction bs) (auto simp: be_val_Cons)

lemma min_digits_sound:
  assumes "uval v \<noteq> 0"
  shows "hex_encode_uint256 v = ''0x'' @ hex_digits (min_digits v)"
    "nib_val (min_digits v) = uval v" "min_digits v \<noteq> []" "hd (min_digits v) \<noteq> 0"
    "length (min_digits v) \<le> 64" "\<And>d. d \<in> set (min_digits v) \<Longrightarrow> d < 16"
proof -
  define bs where "bs = dropWhile (\<lambda>b. b = 0) (uint256_to_bytes_be v)"
  have val: "be_val bs = uval v" by (simp add: bs_def dropWhile_zeros)
  then have "bs \<noteq> []" using assms by auto
  then obtain b ys where bs: "bs = b # ys" by (cases bs) auto
  have "b \<noteq> 0" using hd_dropWhile [of "\<lambda>b. b = 0" "uint256_to_bytes_be v"] \<open>bs \<noteq> []\<close> bs
    by (simp add: bs_def)
  then have b: "uint b \<noteq> 0" by (simp add: word_uint_eq_iff)
  define h where "h = drop_bit 4 b AND 0x0F"
  have h0: "h = 0 \<longleftrightarrow> b < 0x10"
    using uint_nibbles(1) [of b] uint_ge_0 [of b] by (simp add: h_def word_uint_eq_iff word_less_def zdiv_eq_0_iff) (auto)
  have ns: "nibbles_of bs = h # (b AND 0x0F) # nibbles_of ys" by (simp add: nibbles_of_def bs h_def)
  have md: "min_digits v = (if b < 0x10 then (b AND 0x0F) # nibbles_of ys else nibbles_of bs)"
    by (simp add: min_digits_def Let_def flip: bs_def) (simp add: bs ns [unfolded bs])
  show "hex_encode_uint256 v = ''0x'' @ hex_digits (min_digits v)"
    using assms concat_hex_byte [of ys] concat_hex_byte [of bs] unfolding hex_encode_uint256_def Let_def bs_def [symmetric] md
    by (auto simp: bs hex_digits_def)
  show "nib_val (min_digits v) = uval v"
    using nib_val_nibbles_of [of bs] h0 unfolding md ns val by (auto simp: nib_val_Cons)
  show "min_digits v \<noteq> []" by (simp add: md ns)
  have "b AND 0x0F \<noteq> 0" if "b < 0x10"
    using that b uint_ge_0 [of b] uint_nibbles(2) [of b]
    by (simp add: word_less_def word_uint_eq_iff mod_pos_pos_trivial)
  then show "hd (min_digits v) \<noteq> 0" using h0 by (simp add: md ns)
  have "length bs \<le> 32" using length_dropWhile_le [of "\<lambda>b. b = 0" "uint256_to_bytes_be v"] by (simp add: bs_def)
  moreover have "length (nibbles_of xs) = 2 * length xs" for xs by (induction xs) (simp_all add: nibbles_of_def)
  ultimately show "length (min_digits v) \<le> 64" by (simp add: md bs)
  show "d < 16" if "d \<in> set (min_digits v)" for d
    using that nibbles_small [of d bs] ns by (auto simp: md split: if_splits)
qed

lemma hex_uint256_roundtrip: "hex_decode_uint256 (Some (hex_encode_uint256 v)) = Some v"
proof (cases "uval v = 0")
  case True
  have "hex_char_to_nibble CHR ''0'' = Some 0" using hex_char_of_digit [of 0] by (simp add: HEX_CHARS_def)
  moreover have "shl4_or uint256_zero 0 = uint256_zero" "v = uint256_zero"
    using True by (simp_all add: uval_shl4_or flip: uval_inject)
  ultimately show ?thesis by (simp add: hex_encode_uint256_def hex_decode_uint256_def True)
next
  case False
  note md = min_digits_sound [OF False]
  obtain w where w: "hex_uint256_loop (hex_digits (min_digits v)) uint256_zero = Some w" "uval w = nib_val (min_digits v)"
    using hex_uint256_loop_digits [OF md(6), where v = uint256_zero] md(5) by auto
  then have "w = v" using md(2) by (simp flip: uval_inject)
  then show ?thesis using w(1) md(3,5) unfolding md(1) by (simp add: hex_decode_uint256_def hex_digits_def)
qed


section \<open>Addresses\<close>

lemma to_u8_and: "to_u8 (x AND 0xFF) = to_u8 x" for x :: u64
proof -
  have "x AND 0xFF = take_bit 8 x" by (simp add: take_bit_eq_mask mask_eq_exp_minus_1)
  then show ?thesis by (intro bit_word_eqI) (auto simp: bit_simps)
qed

lemma limb_to_bytes_8: "limb_to_bytes 8 x [] =
    [to_u8 (drop_bit 56 x), to_u8 (drop_bit 48 x), to_u8 (drop_bit 40 x), to_u8 (drop_bit 32 x),
     to_u8 (drop_bit 24 x), to_u8 (drop_bit 16 x), to_u8 (drop_bit 8 x), to_u8 x]"
proof -
  have "limb_to_bytes (Suc (Suc (Suc (Suc (Suc (Suc (Suc (Suc 0)))))))) x [] =
    [to_u8 (drop_bit 56 x), to_u8 (drop_bit 48 x), to_u8 (drop_bit 40 x), to_u8 (drop_bit 32 x),
     to_u8 (drop_bit 24 x), to_u8 (drop_bit 16 x), to_u8 (drop_bit 8 x), to_u8 x]"
    by (simp only: limb_to_bytes.simps to_u8_and drop_bit_drop_bit) simp
  then show ?thesis by (simp add: eval_nat_numeral)
qed

lemma upper_byte: "n \<le> 24 \<Longrightarrow> (ucast (drop_bit n (to_u32 x)) :: u8) = to_u8 (drop_bit n x)" for x :: u64
  by (rule bit_word_eqI) (auto simp: bit_simps)

lemma to_bytes_explicit: "uint256_to_bytes_be v =
    limb_to_bytes 8 (limb3 v) [] @ limb_to_bytes 8 (limb2 v) [] @ limb_to_bytes 8 (limb1 v) [] @
    limb_to_bytes 8 (limb0 v) []"
  by (simp add: uint256_to_bytes_be_def four_Suc limbs_def)

lemma address_from_bytes: "address_from_uint256 v = drop 12 (uint256_to_bytes_be v)"
  using upper_byte [of 0 "limb2 v"]
  by (simp add: address_from_uint256_def to_bytes_explicit limb_to_bytes_8 upper_byte Let_def)

lemma upt_8: "[0..<8] = [0, 1, 2, 3, 4, 5, 6, 7 :: nat]"
  by (simp add: upt_rec)

lemma take_8: "k + 8 \<le> length p \<Longrightarrow> take 8 (drop k p) =
    [p ! k, p ! (k + 1), p ! (k + 2), p ! (k + 3), p ! (k + 4), p ! (k + 5), p ! (k + 6), p ! (k + 7)]"
proof -
  assume h: "k + 8 \<le> length p"
  then have "take 8 (drop k p) = map (\<lambda>i. p ! (k + i)) [0..<8]" by (intro nth_equalityI) auto
  then show ?thesis by (simp add: upt_8)
qed

lemma take_4: "4 \<le> length p \<Longrightarrow> take 4 p = [p ! 0, p ! 1, p ! 2, p ! 3]"
  by (intro nth_equalityI) (auto simp: less_Suc_eq numeral_eq_Suc)

lemma zeros_4: "replicate 4 x = [x, x, x, x]" and zeros_8: "replicate 8 x = [x, x, x, x, x, x, x, x]"
  by (simp_all add: numeral_eq_Suc)

lemma join8_bytes: "k + 8 \<le> length p \<Longrightarrow> join8 p k = limb_of_bytes (take 8 (drop k p))"
  by (simp add: take_8 join8_def limb_of_bytes_def push_bit_or or.assoc)

lemma limb_of_bytes_zeros: "limb_of_bytes (0 # p) = limb_of_bytes p"
  by (simp add: limb_of_bytes_def)

lemma from_bytes_explicit:
  assumes "length p = 32"
  shows "uint256_from_bytes_be p = uint256_from_limbs (limb_of_bytes (take 8 (drop 24 p)))
    (limb_of_bytes (take 8 (drop 16 p))) (limb_of_bytes (take 8 (drop 8 p))) (limb_of_bytes (take 8 p))"
  using assms by (auto simp: uint256_from_bytes_be_def)

lemma address_to_bytes:
  assumes "length a = ADDRESS_SIZE" shows "address_to_uint256 a = uint256_from_bytes_be a"
proof -
  define p where "p = replicate 12 0 @ a"
  have len: "length a = 20" "length p = 32" using assms by (simp_all add: ADDRESS_SIZE_def p_def)
  have "uval (uint256_from_bytes_be a) = uval (uint256_from_bytes_be p)"
    by (simp add: uval_from_bytes p_def be_val_append)
  then have "uint256_from_bytes_be a = uint256_from_bytes_be p" by (simp add: uval_inject)
  also have "\<dots> = address_to_uint256 a"
  proof -
    have "take 8 p = [0, 0, 0, 0, 0, 0, 0, 0]" "take 8 (drop 8 p) = [0, 0, 0, 0, a ! 0, a ! 1, a ! 2, a ! 3]"
      "take 8 (drop 16 p) = take 8 (drop 4 a)" "take 8 (drop 24 p) = take 8 (drop 12 a)"
      using len(1) by (simp_all add: p_def zeros_4 zeros_8 take_4)
    then show ?thesis
      using len by (simp add: from_bytes_explicit address_to_uint256_def join8_bytes limb_of_bytes_zeros)
       (simp add: limb_of_bytes_def push_bit_or or.assoc)
  qed
  finally show ?thesis by simp
qed


section \<open>Properties\<close>

lemma hex_pairs_total:
  "even (length s) \<Longrightarrow> (hex_pairs s \<noteq> None) = list_all (\<lambda>c. hex_char_to_nibble c \<noteq> None) s"
  by (induction s rule: hex_pairs.induct) (auto split: option.splits)

text \<open>
  C33: decoding what was encoded gives it back: byte strings, 64-bit numbers and 256-bit numbers in
  their minimal form, and 256-bit numbers in their padded form.
\<close>

theorem hex_roundtrip:
  "hex_decode (Some (hex_encode data)) (length data) = Some data \<and>
   hex_decode_u64 (Some (hex_encode_u64 n)) = Some n \<and>
   hex_decode_uint256 (Some (hex_encode_uint256 v)) = Some v \<and>
   uint256_from_hex (Some (hex_encode_uint256_padded v)) = Some v"
proof -
  have "hex_encode_uint256_padded v = hex_encode (uint256_to_bytes_be v)"
    by (simp add: hex_encode_uint256_padded_def hex_encode_def)
  then show ?thesis
    using hex_decode_encode [of "uint256_to_bytes_be v"]
    by (simp add: hex_decode_encode hex_u64_roundtrip hex_uint256_roundtrip uint256_from_hex_def
        from_to_bytes)
qed

text \<open>
  Decoding to a given number of bytes succeeds exactly on texts of twice as many characters
  after the optional prefix, all of them hexadecimal digits.
\<close>

theorem hex_decode_accepts:
  "(hex_decode (Some h) n \<noteq> None) =
   (length (skip_0x_prefix h) = n * 2 \<and>
    list_all (\<lambda>c. hex_char_to_nibble c \<noteq> None) (skip_0x_prefix h))"
  using hex_pairs_total [of "skip_0x_prefix h"] by (auto simp: hex_decode_def Let_def)

text \<open>
  An address taken from a 256-bit number consists of its last twenty big-endian bytes, and
  converting it back gives the number modulo 2^160.
\<close>

theorem address_uint256_correct:
  "address_from_uint256 v = drop 12 (uint256_to_bytes_be v) \<and>
   uval (address_to_uint256 (address_from_uint256 v)) = uval v mod 2 ^ 160"
proof -
  define a where "a = drop 12 (uint256_to_bytes_be v)"
  have len: "length a = ADDRESS_SIZE" by (simp add: a_def ADDRESS_SIZE_def)
  have val: "be_val a = uval v mod 2 ^ 160" by (simp add: a_def be_val_drop)
  have "be_val a < 2 ^ 256" using be_val_bounds(2) [of a] len by (simp add: ADDRESS_SIZE_def)
  then have "uval (address_to_uint256 a) = uval v mod 2 ^ 160"
    using address_to_bytes [OF len] be_val_bounds(1) [of a] val
    by (simp add: uval_from_bytes mod_pos_pos_trivial)
  then show ?thesis by (simp add: address_from_bytes a_def)
qed

end
