(* ===== verification/Bytes.thy ===== *)
theory Bytes
  imports Hex "HOL-Library.Monad_Syntax"
begin

text \<open>
  Growable byte buffers: \<open>src/types/bytes.c\<close> and \<open>include/div0/types/bytes.h\<close>.  The allocator
  (the arena or \<open>realloc\<close>) is the parameter \<open>alloc\<close>: for a number of bytes it returns a buffer or
  nothing.  What a fresh buffer holds is not fixed.  Sizes are natural numbers; where the code
  relies on wrapping, the reduction modulo 2^64 is written out.  Growing a buffer doubles its
  capacity in a loop that need not end, so the operations return an option: \<open>None\<close> is the loop that
  does not return.
\<close>

unbundle bit_operations_syntax

section \<open>The buffer\<close>

record bytes_t =
  bytes_data :: "u8 list option"
  bytes_size :: nat
  bytes_capacity :: nat
  bytes_arena :: bool

type_synonym allocator = "nat \<Rightarrow> u8 list option"

definition MIN_CAPACITY :: u64 where "MIN_CAPACITY = 32"

definition bytes_init :: bytes_t where
  "bytes_init = \<lparr>bytes_data = None, bytes_size = 0, bytes_capacity = 0, bytes_arena = False\<rparr>"

definition bytes_init_arena :: bytes_t where
  "bytes_init_arena = \<lparr>bytes_data = None, bytes_size = 0, bytes_capacity = 0, bytes_arena = True\<rparr>"

definition bytes_is_empty :: "bytes_t \<Rightarrow> bool" where
  "bytes_is_empty b \<longleftrightarrow> bytes_size b = 0"

definition bytes_clear :: "bytes_t \<Rightarrow> bytes_t" where
  "bytes_clear b = b\<lparr>bytes_size := 0\<rparr>"

text \<open>The loop \<open>while (new_capacity < capacity) new_capacity *= 2\<close>.\<close>

partial_function (option) grow_capacity :: "u64 \<Rightarrow> u64 \<Rightarrow> u64 option" where
  "grow_capacity new_capacity capacity =
     (if new_capacity < capacity then grow_capacity (new_capacity * 2) capacity
      else Some new_capacity)"

declare grow_capacity.simps [code]

text \<open>A new buffer that keeps the bytes of the old one, as \<open>realloc\<close> does.\<close>

definition realloc :: "allocator \<Rightarrow> u8 list option \<Rightarrow> nat \<Rightarrow> u8 list option" where
  "realloc alloc old n =
     map_option (\<lambda>fresh. take n (case_option [] id old) @ drop (length (case_option [] id old)) fresh) (alloc n)"

definition bytes_reserve :: "allocator \<Rightarrow> bytes_t \<Rightarrow> nat \<Rightarrow> (bool \<times> bytes_t) option" where
  "bytes_reserve alloc b capacity =
     (if capacity \<le> bytes_capacity b then Some (True, b)
      else if bytes_arena b
      then (if bytes_data b \<noteq> None then Some (False, b)
            else (case alloc capacity of
                    None \<Rightarrow> Some (False, b)
                  | Some buf \<Rightarrow> Some (True, b\<lparr>bytes_data := Some buf, bytes_capacity := capacity\<rparr>)))
      else do {
        new_capacity \<leftarrow> grow_capacity
          (if bytes_capacity b = 0 then MIN_CAPACITY else of_nat (bytes_capacity b)) (of_nat capacity);
        (case realloc alloc (bytes_data b) (unat new_capacity) of
           None \<Rightarrow> Some (False, b)
         | Some buf \<Rightarrow> Some (True, b\<lparr>bytes_data := Some buf, bytes_capacity := unat new_capacity\<rparr>))
      })"

text \<open>Bytes copied over a buffer from a position on.\<close>

definition memcpy_at :: "u8 list \<Rightarrow> nat \<Rightarrow> u8 list \<Rightarrow> u8 list" where
  "memcpy_at buf at xs = take at buf @ xs @ drop (at + length xs) buf"

definition bytes_from_data :: "allocator \<Rightarrow> bytes_t \<Rightarrow> u8 list \<Rightarrow> (bool \<times> bytes_t) option" where
  "bytes_from_data alloc b d =
     (if length d = 0 then Some (True, b\<lparr>bytes_size := 0\<rparr>)
      else do {
        (ok, b) \<leftarrow> bytes_reserve alloc b (length d);
        if \<not> ok then Some (False, b)
        else Some (True, b\<lparr>bytes_data := map_option (\<lambda>buf. memcpy_at buf 0 d) (bytes_data b),
                           bytes_size := length d\<rparr>)
      })"

definition bytes_append :: "allocator \<Rightarrow> bytes_t \<Rightarrow> u8 list \<Rightarrow> (bool \<times> bytes_t) option" where
  "bytes_append alloc b d =
     (if length d = 0 then Some (True, b)
      else
        let new_size = (bytes_size b + length d) mod 2 ^ 64
        in if new_size < bytes_size b then Some (False, b)
           else do {
             (ok, b) \<leftarrow> bytes_reserve alloc b new_size;
             if \<not> ok then Some (False, b)
             else Some (True, b\<lparr>bytes_data := map_option (\<lambda>buf. memcpy_at buf (bytes_size b) d) (bytes_data b),
                                bytes_size := new_size\<rparr>)
           })"

definition bytes_append_byte :: "allocator \<Rightarrow> bytes_t \<Rightarrow> u8 \<Rightarrow> (bool \<times> bytes_t) option" where
  "bytes_append_byte alloc b byte = bytes_append alloc b [byte]"

definition bytes_free :: "bytes_t \<Rightarrow> bytes_t" where
  "bytes_free b = b\<lparr>bytes_data := None, bytes_size := 0, bytes_capacity := 0\<rparr>"


section \<open>What a buffer holds\<close>

definition bytes_contents :: "bytes_t \<Rightarrow> u8 list" where
  "bytes_contents b = take (bytes_size b) (case_option [] id (bytes_data b))"

definition bytes_wf :: "bytes_t \<Rightarrow> bool" where
  "bytes_wf b \<longleftrightarrow> length (case_option [] id (bytes_data b)) = bytes_capacity b \<and>
     (bytes_data b = None \<or> 0 < bytes_capacity b) \<and>
     bytes_size b \<le> bytes_capacity b \<and> bytes_capacity b < 2 ^ 64"

text \<open>An allocator returns as many bytes as it was asked for; one that never fails.\<close>

definition alloc_sound :: "allocator \<Rightarrow> bool" where
  "alloc_sound alloc \<longleftrightarrow> (\<forall>n buf. alloc n = Some buf \<longrightarrow> length buf = n)"

definition alloc_total :: "allocator \<Rightarrow> bool" where
  "alloc_total alloc \<longleftrightarrow> alloc_sound alloc \<and> (\<forall>n. alloc n \<noteq> None)"


section \<open>Growing\<close>

lemma grow_capacity_step:
  "grow_capacity c n = (if c < n then grow_capacity (c * 2) n else Some c)"
  by (simp add: grow_capacity.simps)

text \<open>Up to half of the address space the doubling reaches the goal.\<close>

lemma grow_capacity_returns:
  assumes "0 < c" "n \<le> 2 ^ 63"
  shows "\<exists>r. grow_capacity c n = Some r \<and> n \<le> r \<and> c \<le> r"
  using assms
proof (induction "2 ^ 64 - unat c" arbitrary: c rule: less_induct)
  case less
  show ?case
  proof (cases "c < n")
    case True
    have c: "unat c < 2 ^ 63" "0 < unat c"
      using True less.prems by (auto simp: word_less_nat_alt word_le_nat_alt unat_gt_0)
    then have d: "unat (c * 2) = unat c * 2" by (subst unat_mult_lem [THEN iffD1]) simp_all
    then have "2 ^ 64 - unat (c * 2) < 2 ^ 64 - unat c" "0 < c * 2" "c \<le> c * 2"
      using c by (auto simp: word_less_nat_alt word_le_nat_alt)
    then show ?thesis
      using less.hyps [of "c * 2"] less.prems(2) True by (auto simp: grow_capacity_step [of c])
  qed (auto simp: grow_capacity_step [of c])
qed

text \<open>Beyond it the doubling wraps to zero and goes on forever.\<close>

lemma pow2_double: "k < 64 \<Longrightarrow> (2 ^ k * 2 :: u64) = 0 \<or> (\<exists>j<64. 2 ^ k * 2 = (2 ^ j :: u64))"
proof (cases "k = 63")
  case False
  assume "k < 64"
  with False have "Suc k < 64" "2 ^ k * 2 = (2 ^ Suc k :: u64)" by simp_all
  then show ?thesis by blast
qed simp

lemma grow_capacity_diverges:
  assumes "2 ^ 63 < n" "c = 0 \<or> (\<exists>k<64. c = 2 ^ k)"
  shows "grow_capacity c n = None"
proof -
  have "\<not> (2 ^ 63 < n \<and> (c = 0 \<or> (\<exists>k<64. c = 2 ^ k)))" if "grow_capacity c n = Some r" for r
    using that
  proof (rule grow_capacity.raw_induct [of "\<lambda>c n r. \<not> (2 ^ 63 < n \<and> (c = 0 \<or> (\<exists>k<64. c = 2 ^ k)))", rotated])
    fix f and c n r :: u64
    assume ih: "\<And>c n r. f c n = Some r \<Longrightarrow> \<not> (2 ^ 63 < n \<and> (c = 0 \<or> (\<exists>k<64. c = 2 ^ k)))"
      and eq: "(if c < n then f (c * 2) n else Some c) = Some r"
    show "\<not> (2 ^ 63 < n \<and> (c = 0 \<or> (\<exists>k<64. c = 2 ^ k)))"
    proof
      assume h: "2 ^ 63 < n \<and> (c = 0 \<or> (\<exists>k<64. c = 2 ^ k))"
      have "c < n"
      proof -
        have "(2 ^ k :: u64) \<le> 2 ^ 63" if "k < 64" for k
        proof -
          have "(2 :: int) ^ k < 2 ^ 64" using that by (intro power_strict_increasing) simp_all
          then have "uint (word_of_int (2 ^ k) :: u64) = 2 ^ k"
            unfolding uint_word_of_int by (intro mod_pos_pos_trivial) simp_all
          moreover have "(2 :: int) ^ k \<le> 2 ^ 63" using that by (intro power_increasing) simp_all
          ultimately show ?thesis by (simp add: word_le_def)
        qed
        then show ?thesis using h by (auto intro: order.strict_trans1 order.strict_trans [of 0 "2 ^ 63" n])
      qed
      moreover have "c * 2 = 0 \<or> (\<exists>k<64. c * 2 = 2 ^ k)" using h pow2_double by auto
      ultimately show False using ih [of "c * 2" n r] eq h by simp
    qed
  qed
  then show ?thesis using assms by (cases "grow_capacity c n") auto
qed

lemma grow_capacity_reaches: "grow_capacity c n = Some r \<Longrightarrow> n \<le> r"
  by (rule grow_capacity.raw_induct [of "\<lambda>c n r. n \<le> r"]) (auto split: if_splits)

lemma length_realloc:
  "alloc_sound alloc \<Longrightarrow> realloc alloc old n = Some buf \<Longrightarrow> length (case_option [] id old) \<le> n \<Longrightarrow>
    length buf = n \<and> take (length (case_option [] id old)) buf = case_option [] id old"
  by (auto simp: realloc_def alloc_sound_def)

lemma bytes_reserve_sound:
  assumes "alloc_sound alloc" "bytes_wf b" "n < 2 ^ 64" "bytes_reserve alloc b n = Some (ok, b')"
  shows "bytes_wf b' \<and> bytes_size b' = bytes_size b \<and> bytes_contents b' = bytes_contents b \<and>
    (ok \<longrightarrow> n \<le> bytes_capacity b')"
proof (cases "n \<le> bytes_capacity b")
  case True
  then show ?thesis using assms by (auto simp: bytes_reserve_def)
next
  case big: False
  show ?thesis
  proof (cases "bytes_arena b")
    case True
    then show ?thesis
      using assms big
      by (auto simp: bytes_reserve_def bytes_wf_def bytes_contents_def alloc_sound_def split: if_splits option.splits)
  next
    case False
    then obtain r where r: "grow_capacity (if bytes_capacity b = 0 then MIN_CAPACITY else of_nat (bytes_capacity b))
        (of_nat n) = Some r"
      using assms(4) big by (auto simp: bytes_reserve_def bind_eq_Some_conv)
    have le: "n \<le> unat r"
      using grow_capacity_reaches [OF r] assms(3) by (simp add: word_le_nat_alt unat_of_nat)
    have r64: "unat r < 2 ^ 64" using uint_lt2p [of r] by (simp add: unat_eq_nat_uint nat_less_iff del: nat_uint_eq)
    show ?thesis
    proof (cases "realloc alloc (bytes_data b) (unat r)")
      case None
      then show ?thesis using assms big False r by (auto simp: bytes_reserve_def)
    next
      case (Some buf)
      have "length (case_option [] id (bytes_data b)) \<le> unat r" using assms(2) big le by (simp add: bytes_wf_def)
      note l = length_realloc [OF assms(1) Some this]
      have "take (bytes_size b) buf = take (bytes_size b) (case_option [] id (bytes_data b))"
        using l assms(2) by (auto simp: bytes_wf_def dest: arg_cong [where f = "take (bytes_size b)"])
      then show ?thesis
        using assms big False r Some le l r64 by (auto simp: bytes_reserve_def bytes_wf_def bytes_contents_def)
    qed
  qed
qed

lemma bytes_reserve_succeeds:
  assumes "alloc_total alloc" "n \<le> 2 ^ 63" "n \<le> bytes_capacity b \<or> \<not> bytes_arena b \<or> bytes_data b = None"
    and "bytes_capacity b < 2 ^ 64"
  shows "\<exists>b'. bytes_reserve alloc b n = Some (True, b')"
proof (cases "n \<le> bytes_capacity b \<or> bytes_arena b")
  case True
  obtain buf where "alloc n = Some buf" using assms(1) by (auto simp: alloc_total_def)
  then show ?thesis using True assms by (auto simp: bytes_reserve_def)
next
  case False
  have "(0::u64) < (if bytes_capacity b = 0 then MIN_CAPACITY else of_nat (bytes_capacity b))"
    using assms(4) by (simp add: MIN_CAPACITY_def word_less_nat_alt unat_of_nat)
  moreover have "(of_nat n :: u64) \<le> 2 ^ 63"
    using assms(2) by (simp add: word_le_nat_alt unat_of_nat)
  ultimately obtain r where "grow_capacity (if bytes_capacity b = 0 then MIN_CAPACITY
      else of_nat (bytes_capacity b)) (of_nat n) = Some r"
    using grow_capacity_returns by blast
  moreover have "realloc alloc (bytes_data b) (unat r) \<noteq> None"
    using assms(1) by (simp add: realloc_def alloc_total_def)
  then obtain buf where "realloc alloc (bytes_data b) (unat r) = Some buf" by blast
  ultimately show ?thesis using False by (auto simp: bytes_reserve_def)
qed


section \<open>Appending\<close>

lemma length_contents: "bytes_wf b \<Longrightarrow> length (bytes_contents b) = bytes_size b"
  by (auto simp: bytes_wf_def bytes_contents_def)

lemma length_memcpy_at: "at + length xs \<le> length buf \<Longrightarrow> length (memcpy_at buf at xs) = length buf"
  by (simp add: memcpy_at_def)

lemma take_memcpy_at: "at \<le> length buf \<Longrightarrow> take (at + length xs) (memcpy_at buf at xs) = take at buf @ xs"
  by (simp add: memcpy_at_def)

lemma wrap_sum:
  fixes a b m :: nat
  assumes "a < m" "b < m" "\<not> (a + b) mod m < a"
  shows "(a + b) mod m = a + b"
proof (rule ccontr)
  assume "(a + b) mod m \<noteq> a + b"
  then have "\<not> a + b < m" by auto
  then have "(a + b) mod m = a + b - m" using assms(1,2) by (simp add: mod_if)
  then show False using assms \<open>\<not> a + b < m\<close> by simp
qed

text \<open>An append that returns either leaves the contents or adds all of the data to them.\<close>

lemma bytes_append_sound:
  assumes "alloc_sound alloc" "bytes_wf b" "length d < 2 ^ 64" "bytes_append alloc b d = Some (ok, b')"
  shows "bytes_wf b' \<and> bytes_contents b' = (if ok then bytes_contents b @ d else bytes_contents b)"
proof (cases "length d = 0 \<or> (bytes_size b + length d) mod 2 ^ 64 < bytes_size b")
  case True
  then show ?thesis using assms unfolding bytes_append_def Let_def by (auto split: if_splits)
next
  case False
  then have nowrap: "(bytes_size b + length d) mod 2 ^ 64 = bytes_size b + length d"
    using assms(2,3) by (intro wrap_sum) (auto simp: bytes_wf_def)
  then have lt: "bytes_size b + length d < 2 ^ 64" 
    using mod_less_divisor [of "2 ^ 64" "bytes_size b + length d"] by simp
  obtain ok1 b1 where r: "bytes_reserve alloc b (bytes_size b + length d) = Some (ok1, b1)"
    using False assms(4) nowrap by (auto simp: bytes_append_def Let_def bind_eq_Some_conv)
  note s = bytes_reserve_sound [OF assms(1,2) lt r]
  show ?thesis
  proof (cases ok1)
    case True
    with s have cap: "bytes_size b1 + length d \<le> bytes_capacity b1" by simp
    obtain buf where buf: "bytes_data b1 = Some buf" "length buf = bytes_capacity b1"
      using s cap False by (auto simp: bytes_wf_def split: option.splits)
    then have "bytes_wf b' \<and> bytes_contents b' = take (bytes_size b1) buf @ d \<and> ok"
      using True False nowrap r assms(4) s cap take_memcpy_at [of "bytes_size b1" buf d]
      by (auto simp: bytes_append_def Let_def bytes_wf_def bytes_contents_def length_memcpy_at)
    moreover have "take (bytes_size b1) buf = bytes_contents b" using s buf(1) by (auto simp: bytes_contents_def)
    ultimately show ?thesis by simp
  next
    case False
    then show ?thesis using \<open>\<not> (length d = 0 \<or> _)\<close> nowrap r assms(4) s by (auto simp: bytes_append_def Let_def)
  qed
qed

lemma bytes_append_succeeds:
  assumes "alloc_total alloc" "bytes_wf b" "bytes_size b + length d \<le> 2 ^ 63"
    and "bytes_size b + length d \<le> bytes_capacity b \<or> \<not> bytes_arena b"
  shows "\<exists>b'. bytes_append alloc b d = Some (True, b')"
proof -
  obtain b1 where "bytes_reserve alloc b (bytes_size b + length d) = Some (True, b1)"
    using bytes_reserve_succeeds [OF assms(1,3)] assms(2,4) by (auto simp: bytes_wf_def)
  then show ?thesis using assms(3) by (auto simp: bytes_append_def Let_def)
qed


section \<open>Properties\<close>

text \<open>
  Appending to a well-formed buffer keeps it well-formed and is all or nothing: when the call
  reports success the contents are the old ones followed by the data, otherwise they are the old
  ones.
\<close>

theorem bytes_append_all_or_nothing:
  assumes "alloc_sound alloc" "bytes_wf b" "length d < 2 ^ 64" "bytes_append alloc b d = Some (ok, b')"
  shows "bytes_wf b' \<and> bytes_contents b' = (if ok then bytes_contents b @ d else bytes_contents b)"
  using assms by (rule bytes_append_sound)

theorem bytes_append_all_or_nothing_witness:
  "\<exists>ok b'. bytes_append (\<lambda>n. Some (replicate n 0)) bytes_init [1, 2] = Some (ok, b') \<and>
    bytes_contents b' = (if ok then [1, 2] else [])"
proof -
  have sound: "alloc_sound (\<lambda>n. Some (replicate n 0))" by (simp add: alloc_sound_def)
  have wf: "bytes_wf bytes_init" by (simp add: bytes_wf_def bytes_init_def)
  obtain b' where e: "bytes_append (\<lambda>n. Some (replicate n 0)) bytes_init [1, 2] = Some (True, b')"
    using bytes_append_succeeds [of "\<lambda>n. Some (replicate n 0)" bytes_init "[1, 2]"] sound wf
    by (auto simp: alloc_total_def bytes_init_def)
  show ?thesis
    using bytes_append_all_or_nothing [OF sound wf _ e] e
    by (auto simp: bytes_contents_def bytes_init_def)
qed

text \<open>
  C34: reserving space in an empty heap-backed buffer returns for every request of at most 2^63
  bytes, and for no larger one: beyond 2^63 the doubled capacity wraps to zero and the loop never
  ends.
\<close>

theorem bytes_reserve_returns_iff:
  assumes "0 < n" "n < 2 ^ 64"
  shows "bytes_reserve alloc bytes_init n \<noteq> None \<longleftrightarrow> n \<le> 2 ^ 63"
proof -
  have n: "unat (of_nat n :: u64) = n" using assms(2) by (simp add: unat_of_nat)
  have "grow_capacity MIN_CAPACITY (of_nat n) \<noteq> None \<longleftrightarrow> n \<le> 2 ^ 63"
  proof (cases "n \<le> 2 ^ 63")
    case True
    then have "of_nat n \<le> (2 ^ 63 :: u64)" using n by (simp add: word_le_nat_alt)
    then show ?thesis using True grow_capacity_returns [of MIN_CAPACITY "of_nat n"] by (auto simp: MIN_CAPACITY_def)
  next
    case False
    then have "(2 ^ 63 :: u64) < of_nat n" using n by (simp add: word_less_nat_alt)
    moreover have "\<exists>k<64. MIN_CAPACITY = 2 ^ k" by (rule exI [of _ 5]) (simp add: MIN_CAPACITY_def)
    ultimately show ?thesis using False grow_capacity_diverges by simp
  qed
  then show ?thesis
    using assms(1) by (auto simp: bytes_reserve_def bytes_init_def split: option.splits)
qed

theorem bytes_reserve_returns_iff_witness:
  "bytes_reserve (\<lambda>n. Some (replicate n 0)) bytes_init (2 ^ 63 + 1) = None"
  using bytes_reserve_returns_iff [of "2 ^ 63 + 1" "\<lambda>n. Some (replicate n 0)"]
  by (simp del: not_None_eq)

end
