(* ===== verification/Rlp_Encode.thy ===== *)
theory Rlp_Encode
  imports Bytes
begin

text \<open>
  RLP encoding: \<open>include/div0/rlp/helpers.h\<close>, \<open>src/rlp/helpers.c\<close>, \<open>src/rlp/encode.c\<close> and
  \<open>include/div0/rlp/encode.h\<close>, on the buffers of \<open>Bytes\<close>.  The encoders run on an arena, the
  parameter \<open>alloc\<close>.  The reference encoding \<open>rlp_string\<close>, \<open>rlp_list\<close> is the one of the Ethereum
  yellow paper; the lemmas show that the code produces it.
\<close>

unbundle bit_operations_syntax

section \<open>Constants and helpers\<close>

definition RLP_SMALL_PREFIX_BARRIER :: nat where [simp]: "RLP_SMALL_PREFIX_BARRIER = 56"
definition RLP_EMPTY_STRING_BYTE :: u8 where [simp]: "RLP_EMPTY_STRING_BYTE = 0x80"
definition RLP_EMPTY_LIST_BYTE :: u8 where [simp]: "RLP_EMPTY_LIST_BYTE = 0xC0"
definition RLP_SINGLE_BYTE_MAX :: u8 where [simp]: "RLP_SINGLE_BYTE_MAX = 0x7F"
definition RLP_SHORT_STRING_MAX :: u8 where [simp]: "RLP_SHORT_STRING_MAX = 0xB7"
definition RLP_LONG_STRING_MAX :: u8 where [simp]: "RLP_LONG_STRING_MAX = 0xBF"
definition RLP_SHORT_LIST_MAX :: u8 where [simp]: "RLP_SHORT_LIST_MAX = 0xF7"
definition RLP_MAX_HEADER_SIZE :: nat where [simp]: "RLP_MAX_HEADER_SIZE = 9"

definition RLP_PREFIX_LENGTH_TABLE :: "nat list" where
  "RLP_PREFIX_LENGTH_TABLE =
     [0, 0, 0, 0, 0, 0, 0, 0, 0, 0, 0, 0, 0, 0, 0, 0,
      0, 0, 0, 0, 0, 0, 0, 0, 0, 0, 0, 0, 0, 0, 0, 0,
      0, 0, 0, 0, 0, 0, 0, 0, 0, 0, 0, 0, 0, 0, 0, 0,
      0, 0, 0, 0, 0, 0, 0, 0, 0, 0, 0, 0, 0, 0, 0, 0,
      0, 0, 0, 0, 0, 0, 0, 0, 0, 0, 0, 0, 0, 0, 0, 0,
      0, 0, 0, 0, 0, 0, 0, 0, 0, 0, 0, 0, 0, 0, 0, 0,
      0, 0, 0, 0, 0, 0, 0, 0, 0, 0, 0, 0, 0, 0, 0, 0,
      0, 0, 0, 0, 0, 0, 0, 0, 0, 0, 0, 0, 0, 0, 0, 0,
      1, 1, 1, 1, 1, 1, 1, 1, 1, 1, 1, 1, 1, 1, 1, 1,
      1, 1, 1, 1, 1, 1, 1, 1, 1, 1, 1, 1, 1, 1, 1, 1,
      1, 1, 1, 1, 1, 1, 1, 1, 1, 1, 1, 1, 1, 1, 1, 1,
      1, 1, 1, 1, 1, 1, 1, 1, 2, 3, 4, 5, 6, 7, 8, 9,
      1, 1, 1, 1, 1, 1, 1, 1, 1, 1, 1, 1, 1, 1, 1, 1,
      1, 1, 1, 1, 1, 1, 1, 1, 1, 1, 1, 1, 1, 1, 1, 1,
      1, 1, 1, 1, 1, 1, 1, 1, 1, 1, 1, 1, 1, 1, 1, 1,
      1, 1, 1, 1, 1, 1, 1, 1, 2, 3, 4, 5, 6, 7, 8, 9]"

definition rlp_prefix_length :: "u8 \<Rightarrow> nat" where
  "rlp_prefix_length prefix = RLP_PREFIX_LENGTH_TABLE ! unat prefix"

definition rlp_length_of_length :: "nat \<Rightarrow> nat" where
  "rlp_length_of_length v =
     (if v < RLP_SMALL_PREFIX_BARRIER then 0
      else let bits = 64 - clzll (of_nat v) in (bits + 7) div 8)"

definition rlp_byte_length_u64 :: "u64 \<Rightarrow> nat" where
  "rlp_byte_length_u64 v =
     (if v = 0 then 0 else let leading_zeros = clzll v in 8 - (leading_zeros div 8))"

definition rlp_is_string_prefix :: "u8 \<Rightarrow> bool" where
  "rlp_is_string_prefix prefix \<longleftrightarrow> prefix \<le> RLP_LONG_STRING_MAX"

definition rlp_is_list_prefix :: "u8 \<Rightarrow> bool" where
  "rlp_is_list_prefix prefix \<longleftrightarrow> prefix > RLP_LONG_STRING_MAX"

definition rlp_is_single_byte :: "u8 \<Rightarrow> bool" where
  "rlp_is_single_byte prefix \<longleftrightarrow> prefix \<le> RLP_SINGLE_BYTE_MAX"


section \<open>Encoding\<close>

text \<open>The loop \<open>for (i = n - 1; i >= 0; --i)\<close> that writes a word from its byte \<open>n - 1\<close> down.\<close>

definition be_loop :: "nat \<Rightarrow> u64 \<Rightarrow> u8 list" where
  "be_loop n v = map (\<lambda>k. ucast (drop_bit ((n - 1 - k) * 8) v)) [0..<n]"

definition write_length_bytes :: "nat \<Rightarrow> u8 list" where
  "write_length_bytes l =
     (let len = (of_nat l :: u64); num_bytes = rlp_length_of_length l
      in if num_bytes = 1 then [ucast len]
         else if num_bytes = 2 then [ucast (drop_bit 8 len), ucast len]
         else if num_bytes = 3 then [ucast (drop_bit 16 len), ucast (drop_bit 8 len), ucast len]
         else if num_bytes = 4
         then [ucast (drop_bit 24 len), ucast (drop_bit 16 len), ucast (drop_bit 8 len), ucast len]
         else be_loop num_bytes len)"

definition rlp_encode_bytes :: "allocator \<Rightarrow> u8 list \<Rightarrow> bytes_t option" where
  "rlp_encode_bytes alloc data =
     (let result = bytes_init_arena; len = length data
      in if len = 1 \<and> data ! 0 \<le> RLP_SINGLE_BYTE_MAX
         then do {
           (_, result) \<leftarrow> bytes_reserve alloc result 1;
           (_, result) \<leftarrow> bytes_append_byte alloc result (data ! 0);
           Some result
         }
         else if len < RLP_SMALL_PREFIX_BARRIER
         then do {
           (_, result) \<leftarrow> bytes_reserve alloc result (1 + len);
           (_, result) \<leftarrow> bytes_append_byte alloc result (RLP_EMPTY_STRING_BYTE + of_nat len);
           (_, result) \<leftarrow> (if len > 0 then bytes_append alloc result data else Some (True, result));
           Some result
         }
         else do {
           let len_bytes = rlp_length_of_length len;
           (_, result) \<leftarrow> bytes_reserve alloc result ((1 + len_bytes + len) mod 2 ^ 64);
           (_, result) \<leftarrow> bytes_append_byte alloc result (RLP_SHORT_STRING_MAX + of_nat len_bytes);
           (_, result) \<leftarrow> bytes_append alloc result (write_length_bytes len);
           (_, result) \<leftarrow> bytes_append alloc result data;
           Some result
         })"

text \<open>Single bytes appended one after the other.\<close>

fun append_bytes :: "allocator \<Rightarrow> bytes_t \<Rightarrow> u8 list \<Rightarrow> bytes_t option" where
  "append_bytes alloc result [] = Some result"
| "append_bytes alloc result (b # bs) =
     do { (_, result) \<leftarrow> bytes_append_byte alloc result b; append_bytes alloc result bs }"

definition rlp_encode_u64 :: "allocator \<Rightarrow> u64 \<Rightarrow> bytes_t option" where
  "rlp_encode_u64 alloc v =
     (let result = bytes_init_arena
      in if v = 0
         then do {
           (_, result) \<leftarrow> bytes_reserve alloc result 1;
           (_, result) \<leftarrow> bytes_append_byte alloc result RLP_EMPTY_STRING_BYTE;
           Some result
         }
         else if v < 128
         then do {
           (_, result) \<leftarrow> bytes_reserve alloc result 1;
           (_, result) \<leftarrow> bytes_append_byte alloc result (ucast v);
           Some result
         }
         else do {
           let num_bytes = rlp_byte_length_u64 v;
           (_, result) \<leftarrow> bytes_reserve alloc result (1 + num_bytes);
           (_, result) \<leftarrow> bytes_append_byte alloc result (RLP_EMPTY_STRING_BYTE + of_nat num_bytes);
           append_bytes alloc result (be_loop num_bytes v)
         })"

definition rlp_encode_uint256 :: "allocator \<Rightarrow> uint256_t \<Rightarrow> bytes_t option" where
  "rlp_encode_uint256 alloc v =
     (let result = bytes_init_arena
      in if uint256_is_zero v
         then do {
           (_, result) \<leftarrow> bytes_reserve alloc result 1;
           (_, result) \<leftarrow> bytes_append_byte alloc result RLP_EMPTY_STRING_BYTE;
           Some result
         }
         else if limb3 v = 0 \<and> limb2 v = 0 \<and> limb1 v = 0 \<and> limb0 v < 128
         then do {
           (_, result) \<leftarrow> bytes_reserve alloc result 1;
           (_, result) \<leftarrow> bytes_append_byte alloc result (ucast (limb0 v));
           Some result
         }
         else do {
           let be_bytes = uint256_to_bytes_be v;
           let start = length (takeWhile (\<lambda>b. b = 0) be_bytes);
           let num_bytes = 32 - start;
           (_, result) \<leftarrow> bytes_reserve alloc result (1 + num_bytes);
           (_, result) \<leftarrow> bytes_append_byte alloc result (RLP_EMPTY_STRING_BYTE + of_nat num_bytes);
           (_, result) \<leftarrow> bytes_append alloc result (take num_bytes (drop start be_bytes));
           Some result
         })"

definition rlp_encode_address :: "allocator \<Rightarrow> address_t \<Rightarrow> bytes_t option" where
  "rlp_encode_address alloc addr =
     do {
       (_, result) \<leftarrow> bytes_reserve alloc bytes_init_arena 21;
       (_, result) \<leftarrow> bytes_append_byte alloc result 0x94;
       (_, result) \<leftarrow> bytes_append alloc result (take ADDRESS_SIZE addr);
       Some result
     }"

text \<open>
  The list builder: the output buffer and the position of the space reserved for the header.
\<close>

definition rlp_list_start :: "allocator \<Rightarrow> bytes_t \<Rightarrow> (nat \<times> bytes_t) option" where
  "rlp_list_start alloc output =
     do {
       (_, output') \<leftarrow> bytes_append alloc output (replicate RLP_MAX_HEADER_SIZE 0);
       Some (bytes_size output, output')
     }"

definition rlp_list_append :: "allocator \<Rightarrow> bytes_t \<Rightarrow> bytes_t \<Rightarrow> bytes_t option" where
  "rlp_list_append alloc output item =
     do { (_, output) \<leftarrow> bytes_append alloc output (bytes_contents item); Some output }"

definition rlp_list_append_raw :: "allocator \<Rightarrow> bytes_t \<Rightarrow> u8 list \<Rightarrow> bytes_t option" where
  "rlp_list_append_raw alloc output data =
     do { (_, output) \<leftarrow> bytes_append alloc output data; Some output }"

definition list_header :: "nat \<Rightarrow> u8 list" where
  "list_header payload_len =
     (if payload_len < RLP_SMALL_PREFIX_BARRIER then [RLP_EMPTY_LIST_BYTE + of_nat payload_len]
      else (RLP_SHORT_LIST_MAX + of_nat (rlp_length_of_length payload_len)) #
             write_length_bytes payload_len)"

definition rlp_list_end :: "nat \<Rightarrow> bytes_t \<Rightarrow> bytes_t" where
  "rlp_list_end header_pos output =
     (let payload_len = (bytes_size output + 2 ^ 65 - header_pos - RLP_MAX_HEADER_SIZE) mod 2 ^ 64;
          header = list_header payload_len;
          actual_header_size = length header;
          buf = memcpy_at (case_option [] id (bytes_data output)) header_pos header
      in if actual_header_size < RLP_MAX_HEADER_SIZE
         then let shift = RLP_MAX_HEADER_SIZE - actual_header_size;
                  payload_start = header_pos + RLP_MAX_HEADER_SIZE;
                  buf = memcpy_at buf (header_pos + actual_header_size)
                          (take payload_len (drop payload_start buf))
              in output\<lparr>bytes_data := Some buf, bytes_size := bytes_size output - shift\<rparr>
         else output\<lparr>bytes_data := Some buf\<rparr>)"


section \<open>The reference encoding\<close>

text \<open>The big-endian form of a length without leading zeros, and the two kinds of header.\<close>

fun be_digits :: "nat \<Rightarrow> u8 list" where
  "be_digits n = (if n = 0 then [] else be_digits (n div 256) @ [of_nat (n mod 256)])"

definition rlp_header :: "u8 \<Rightarrow> nat \<Rightarrow> u8 list" where
  "rlp_header base n =
     (if n < 56 then [base + of_nat n]
      else (base + 55 + of_nat (length (be_digits n))) # be_digits n)"

definition rlp_string :: "u8 list \<Rightarrow> u8 list" where
  "rlp_string d =
     (if length d = 1 \<and> hd d < 128 then d else rlp_header 0x80 (length d) @ d)"

definition rlp_list :: "u8 list \<Rightarrow> u8 list" where
  "rlp_list payload = rlp_header 0xC0 (length payload) @ payload"


section \<open>Numbers without leading zeros\<close>

definition no_lead :: "u8 list \<Rightarrow> bool" where
  "no_lead xs \<longleftrightarrow> xs = [] \<or> hd xs \<noteq> 0"

lemma no_lead_bound: "no_lead xs \<Longrightarrow> xs \<noteq> [] \<Longrightarrow> 256 ^ (length xs - 1) \<le> be_val xs"
proof -
  assume "no_lead xs" "xs \<noteq> []"
  then obtain b bs where xs: "xs = b # bs" "b \<noteq> 0" by (cases xs) (auto simp: no_lead_def)
  have "1 \<le> uint b" using xs(2) uint_ge_0 [of b] by (simp add: word_uint_eq_iff order_less_le int_one_le_iff_zero_less)
  then have "1 * 256 ^ length bs \<le> uint b * 256 ^ length bs" by (intro mult_right_mono) simp_all
  then have "256 ^ length bs \<le> uint b * 256 ^ length bs + be_val bs"
    using be_val_bounds(1) [of bs] by linarith
  then show ?thesis by (simp add: xs(1) be_val_Cons)
qed

lemma no_lead_boundI: "256 ^ (length xs - 1) \<le> be_val xs \<Longrightarrow> no_lead xs"
proof (cases xs)
  case (Cons b bs)
  assume "256 ^ (length xs - 1) \<le> be_val xs"
  then have "b \<noteq> 0" using be_val_bounds(2) [of bs] by (auto simp: Cons be_val_Cons)
  then show ?thesis by (simp add: no_lead_def Cons)
qed (simp add: no_lead_def)

lemma no_lead_length_le:
  assumes "no_lead xs" "be_val xs = be_val ys" shows "length xs \<le> length ys"
proof (rule ccontr)
  assume "\<not> length xs \<le> length ys"
  then have l: "length ys \<le> length xs - 1" "xs \<noteq> []" by auto
  have "(256::int) ^ length ys \<le> 256 ^ (length xs - 1)" using l by (intro power_increasing) simp_all
  then show False using no_lead_bound [OF assms(1) l(2)] be_val_bounds(2) [of ys] assms(2) by linarith
qed

lemma no_lead_unique: "no_lead xs \<Longrightarrow> no_lead ys \<Longrightarrow> be_val xs = be_val ys \<Longrightarrow> xs = ys"
  using no_lead_length_le [of xs ys] no_lead_length_le [of ys xs] by (intro be_val_inj) auto

declare be_digits.simps [simp del]

lemma be_val_be_digits: "be_val (be_digits n) = int n"
proof (induction n rule: be_digits.induct)
  case (1 n)
  have "uint (of_nat (n mod 256) :: u8) = int (n mod 256)"
    by (simp add: unsigned_of_nat take_bit_eq_mod zmod_int)
  then show ?case using 1 by (simp add: be_digits.simps [of n] zdiv_int zmod_int)
qed

lemma no_lead_be_digits: "no_lead (be_digits n)"
proof (induction n rule: be_digits.induct)
  case (1 n)
  show ?case
  proof (cases "n div 256 = 0")
    case True
    then have "n < 256" by (simp add: div_eq_0_iff)
    then show ?thesis by (auto simp: be_digits.simps [of n] be_digits.simps [of 0] no_lead_def word_of_nat_eq_0_iff)
  next
    case False
    then have "be_digits (n div 256) \<noteq> []" by (simp add: be_digits.simps [of "n div 256"])
    then show ?thesis using 1 False by (auto simp: be_digits.simps [of n] no_lead_def)
  qed
qed

lemma be_digits_eqI: "no_lead xs \<Longrightarrow> be_val xs = int n \<Longrightarrow> be_digits n = xs"
  by (intro no_lead_unique) (simp_all add: no_lead_be_digits be_val_be_digits)

lemma be_loop_Suc: "be_loop (Suc n) v = be_loop n (drop_bit 8 v) @ [to_u8 v]"
proof -
  have "(Suc n - 1 - i) * 8 = (n - 1 - i) * 8 + 8" if "i < n" for i using that by simp
  then show ?thesis by (simp add: be_loop_def drop_bit_drop_bit)
qed

lemma length_be_loop [simp]: "length (be_loop n v) = n"
  by (simp add: be_loop_def)

lemma be_val_be_loop: "be_val (be_loop n v) = uint v mod 256 ^ n"
proof (induction n arbitrary: v)
  case (Suc n)
  have "uint (to_u8 v) = uint v mod 256" by (simp add: unsigned_ucast_eq take_bit_eq_mod)
  moreover have "uint (drop_bit 8 v) = uint v div 256" by (simp add: uint_shr)
  moreover have "uint v mod 256 ^ Suc n = 256 * (uint v div 256 mod 256 ^ n) + uint v mod 256"
    using zmod_zmult2_eq [of "256 ^ n" "uint v" 256] by simp
  ultimately show ?case using Suc [of "drop_bit 8 v"] by (simp only: be_loop_Suc be_val_snoc mult.commute)
qed (simp add: be_loop_def)

lemma byte_count_arith:
  fixes s n :: nat
  assumes "s < 64" "n = 8 - s div 8"
  shows "0 < n" "n \<le> 8" "n = (64 - s + 7) div 8" "8 * (n - 1) + s \<le> 63" "64 \<le> 8 * n + s"
proof -
  define q where "q = s div 8"
  have q: "8 * q \<le> s" "s < 8 * q + 8" "q < 8" using assms(1) by (auto simp: q_def)
  then show "0 < n" "n \<le> 8" "8 * (n - 1) + s \<le> 63" "64 \<le> 8 * n + s"
    using assms by (auto simp: q_def [symmetric])
  have "8 * (8 - q) \<le> 64 - s + 7" "64 - s + 7 < 8 * (8 - q) + 8" using q assms(1) by linarith+
  then show "n = (64 - s + 7) div 8" unfolding assms(2) q_def [symmetric] by linarith
qed

lemma byte_count:
  assumes "v \<noteq> 0"
  defines "n \<equiv> 8 - clzll v div 8"
  shows "256 ^ (n - 1) \<le> uint v" "uint v < 256 ^ n" "0 < n" "n \<le> 8" "n = (64 - clzll v + 7) div 8"
proof -
  define s where "s = clzll v"
  note c = clzll_sound [OF assms(1), folded s_def]
  note a = byte_count_arith [OF c(1), of n]
  have n: "n = 8 - s div 8" by (simp add: n_def s_def)
  show "0 < n" "n \<le> 8" "n = (64 - clzll v + 7) div 8" using a(1-3) [OF n] by (simp_all add: s_def)
  note s = a(4,5) [OF n]
  have p: "(256::int) ^ k * 2 ^ s = 2 ^ (8 * k + s)" for k by (simp add: power_add power_mult)
  show "256 ^ (n - 1) \<le> uint v"
  proof (rule ccontr)
    assume "\<not> 256 ^ (n - 1) \<le> uint v"
    then have "uint v * 2 ^ s < 256 ^ (n - 1) * 2 ^ s" by simp
    moreover have "(2::int) ^ (8 * (n - 1) + s) \<le> 2 ^ 63" using s by (intro power_increasing) simp_all
    ultimately show False using c(2) unfolding p by linarith
  qed
  show "uint v < 256 ^ n"
  proof (rule ccontr)
    assume "\<not> uint v < 256 ^ n"
    then have "256 ^ n * 2 ^ s \<le> uint v * 2 ^ s" by simp
    moreover have "(2::int) ^ 64 \<le> 2 ^ (8 * n + s)" using s by (intro power_increasing) simp_all
    ultimately show False using c(3) unfolding p by linarith
  qed
qed

lemma uint_of_len: "l < 2 ^ 64 \<Longrightarrow> uint (of_nat l :: u64) = int l"
  by (simp add: unsigned_of_nat take_bit_eq_mod flip: of_nat_mod)

lemma be_loop_digits:
  assumes "v \<noteq> 0"
  shows "be_loop (8 - clzll v div 8) v = be_digits (unat v)"
proof -
  define n where "n = 8 - clzll v div 8"
  note b = byte_count [OF assms, folded n_def]
  have val: "be_val (be_loop n v) = uint v" using b(2) by (simp add: be_val_be_loop mod_pos_pos_trivial)
  then have "no_lead (be_loop n v)" using b(1) by (intro no_lead_boundI) simp
  then have "be_digits (unat v) = be_loop n v" using val by (intro be_digits_eqI) simp_all
  then show ?thesis by (simp add: n_def)
qed

lemma be_loop_small:
  "be_loop 1 v = [to_u8 v]" "be_loop (Suc 0) v = [to_u8 v]" "be_loop 2 v = [to_u8 (drop_bit 8 v), to_u8 v]"
  "be_loop 3 v = [to_u8 (drop_bit 16 v), to_u8 (drop_bit 8 v), to_u8 v]"
  "be_loop 4 v = [to_u8 (drop_bit 24 v), to_u8 (drop_bit 16 v), to_u8 (drop_bit 8 v), to_u8 v]"
proof -
  have z: "be_loop 0 v = []" for v by (simp add: be_loop_def)
  show "be_loop 1 v = [to_u8 v]" "be_loop (Suc 0) v = [to_u8 v]" by (simp_all add: be_loop_Suc z)
  have "be_loop (Suc (Suc 0)) v = [to_u8 (drop_bit 8 v), to_u8 v]" by (simp add: be_loop_Suc z)
  then show "be_loop 2 v = [to_u8 (drop_bit 8 v), to_u8 v]" by (simp add: numeral_2_eq_2)
  have "be_loop (Suc (Suc (Suc 0))) v = [to_u8 (drop_bit 16 v), to_u8 (drop_bit 8 v), to_u8 v]"
    by (simp add: be_loop_Suc z drop_bit_drop_bit)
  then show "be_loop 3 v = [to_u8 (drop_bit 16 v), to_u8 (drop_bit 8 v), to_u8 v]" by (simp add: numeral_3_eq_3)
  have "be_loop (Suc (Suc (Suc (Suc 0)))) v =
      [to_u8 (drop_bit 24 v), to_u8 (drop_bit 16 v), to_u8 (drop_bit 8 v), to_u8 v]"
    by (simp add: be_loop_Suc z drop_bit_drop_bit)
  then show "be_loop 4 v = [to_u8 (drop_bit 24 v), to_u8 (drop_bit 16 v), to_u8 (drop_bit 8 v), to_u8 v]"
    unfolding four_Suc .
qed

lemma length_of_length:
  assumes "56 \<le> l" "l < 2 ^ 64"
  shows "rlp_length_of_length l = length (be_digits l)" "write_length_bytes l = be_digits l"
    "1 \<le> length (be_digits l)" "length (be_digits l) \<le> 8"
proof -
  define v :: u64 where "v = of_nat l"
  have u: "unat v = l" using assms by (simp add: v_def unat_of_nat)
  then have v0: "v \<noteq> 0" using assms(1) by auto
  note b = byte_count [OF v0]
  have n: "rlp_length_of_length l = 8 - clzll v div 8"
    using assms(1) b(5) by (simp add: rlp_length_of_length_def Let_def v_def)
  have d: "be_loop (rlp_length_of_length l) v = be_digits l" using be_loop_digits [OF v0] n u by simp
  then show len: "rlp_length_of_length l = length (be_digits l)" using length_be_loop by metis
  show "1 \<le> length (be_digits l)" "length (be_digits l) \<le> 8"
    unfolding len [symmetric] n using b(3,4) by simp_all
  have "write_length_bytes l = be_loop (rlp_length_of_length l) v"
    unfolding write_length_bytes_def Let_def v_def [symmetric] by (auto simp only: be_loop_small split: if_splits)
  from this d show "write_length_bytes l = be_digits l" by (rule trans)
qed


section \<open>The encoders produce the reference encoding\<close>

text \<open>An arena buffer of a given capacity with given contents.\<close>

definition arena_buf :: "nat \<Rightarrow> u8 list \<Rightarrow> bytes_t \<Rightarrow> bool" where
  "arena_buf n xs b \<longleftrightarrow> bytes_wf b \<and> bytes_arena b \<and> bytes_capacity b = n \<and> bytes_contents b = xs"

text \<open>A call that returns a well-formed buffer with the given contents.\<close>

definition returns :: "u8 list \<Rightarrow> bytes_t option \<Rightarrow> bool" where
  "returns xs r \<longleftrightarrow> (\<exists>b. r = Some b \<and> bytes_wf b \<and> bytes_contents b = xs)"

lemma reserve_bind:
  assumes "alloc_total alloc" "0 < n" "n < 2 ^ 64"
    and "\<And>b. arena_buf n [] b \<Longrightarrow> returns ys (k (True, b))"
  shows "returns ys (bytes_reserve alloc bytes_init_arena n \<bind> k)"
proof -
  obtain buf where buf: "alloc n = Some buf" "length buf = n"
    using assms(1) unfolding alloc_total_def alloc_sound_def by (metis not_None_eq)
  define b where "b = \<lparr>bytes_data = Some buf, bytes_size = 0, bytes_capacity = n, bytes_arena = True\<rparr>"
  have "bytes_reserve alloc bytes_init_arena n = Some (True, b)"
    using buf assms(2) by (simp add: bytes_reserve_def bytes_init_arena_def b_def)
  moreover have "arena_buf n [] b"
    using assms(2,3) buf by (simp add: arena_buf_def bytes_wf_def bytes_contents_def b_def)
  ultimately show ?thesis using assms(4) by simp
qed

lemma append_fits:
  assumes "arena_buf n xs b" "length xs + length d \<le> n"
  shows "\<exists>b'. bytes_append alloc b d = Some (True, b') \<and> arena_buf n (xs @ d) b'"
proof (cases "d = []")
  case True
  then show ?thesis using assms(1) by (simp add: bytes_append_def)
next
  case False
  have b: "bytes_wf b" "bytes_arena b" "bytes_capacity b = n" "bytes_contents b = xs"
    using assms(1) by (simp_all add: arena_buf_def)
  have sz: "bytes_size b = length xs" using length_contents [OF b(1)] b(4) by simp
  have n: "n < 2 ^ 64" using b by (simp add: bytes_wf_def)
  have w: "(length xs + length d) mod 2 ^ 64 = length xs + length d" using assms(2) n by simp
  obtain buf where buf: "bytes_data b = Some buf" "length buf = n"
    using b(1,3) False assms(2) by (cases "bytes_data b") (auto simp: bytes_wf_def)
  define b' where "b' = b\<lparr>bytes_data := Some (memcpy_at buf (length xs) d), bytes_size := length xs + length d\<rparr>"
  have "bytes_append alloc b d = Some (True, b')"
    using False assms(2) b(3) buf sz w by (simp add: bytes_append_def bytes_reserve_def b'_def)
  moreover have "take (length xs) buf = xs" using b(4) buf(1) sz by (simp add: bytes_contents_def)
  then have "arena_buf n (xs @ d) b'"
    using b assms(2) buf take_memcpy_at [of "length xs" buf d] n
    by (auto simp: arena_buf_def bytes_wf_def bytes_contents_def b'_def length_memcpy_at)
  ultimately show ?thesis by blast
qed

lemma append_nil: "bytes_append alloc b [] = Some (True, b)"
  by (simp add: bytes_append_def)

lemma append_bind:
  assumes "arena_buf n xs b" "length xs + length d \<le> n"
    and "\<And>b'. arena_buf n (xs @ d) b' \<Longrightarrow> returns ys (k (True, b'))"
  shows "returns ys (bytes_append alloc b d \<bind> k)"
proof -
  obtain b' where b': "bytes_append alloc b d = Some (True, b')" "arena_buf n (xs @ d) b'"
    using append_fits [OF assms(1,2)] by blast
  show ?thesis unfolding b'(1) using assms(3) [OF b'(2)] by simp
qed

lemma append_byte_bind:
  assumes "arena_buf n xs b" "length xs < n"
    and "\<And>b'. arena_buf n (xs @ [d]) b' \<Longrightarrow> returns ys (k (True, b'))"
  shows "returns ys (bytes_append_byte alloc b d \<bind> k)"
  unfolding bytes_append_byte_def using assms by (auto intro!: append_bind)

lemma append_bytes_fits:
  assumes "arena_buf n xs b" "length xs + length ds \<le> n"
  shows "\<exists>b'. append_bytes alloc b ds = Some b' \<and> arena_buf n (xs @ ds) b'"
  using assms
proof (induction ds arbitrary: xs b)
  case (Cons d ds)
  obtain b1 where "bytes_append_byte alloc b d = Some (True, b1)" "arena_buf n (xs @ [d]) b1"
    using append_fits [of n xs b "[d]" alloc] Cons.prems by (auto simp: bytes_append_byte_def)
  then show ?case using Cons.IH [of "xs @ [d]" b1] Cons.prems by simp
qed simp

lemma returnsI: "arena_buf n xs b \<Longrightarrow> ys = xs \<Longrightarrow> returns ys (Some b)"
  by (simp add: returns_def arena_buf_def)

lemmas encode_rules = reserve_bind append_byte_bind append_bind returnsI

lemma rlp_encode_bytes_returns:
  assumes "alloc_total alloc" "length d < 2 ^ 64 - 9"
  shows "returns (rlp_string d) (rlp_encode_bytes alloc d)"
proof -
  consider (single) "length d = 1" "d ! 0 \<le> 0x7F"
    | (short) "\<not> (length d = 1 \<and> d ! 0 \<le> 0x7F)" "length d < 56" | (long) "56 \<le> length d" by linarith
  then show ?thesis
  proof cases
    case single
    then obtain x where d: "d = [x]" "x \<le> 0x7F" by (cases d) auto
    then have "rlp_string d = [x]" by (simp add: rlp_string_def word_less_nat_alt word_le_nat_alt)
    moreover have "rlp_encode_bytes alloc d = bytes_reserve alloc bytes_init_arena 1 \<bind> (\<lambda>(_, r).
        bytes_append_byte alloc r x \<bind> (\<lambda>(_, r). Some r))"
      using d by (simp add: rlp_encode_bytes_def)
    ultimately show ?thesis
      using assms(1) by (auto intro!: encode_rules)
  next
    case short
    then have "rlp_string d = (0x80 + of_nat (length d)) # d"
      by (cases d) (auto simp: rlp_string_def rlp_header_def word_less_nat_alt word_le_nat_alt)
    moreover have "rlp_encode_bytes alloc d = bytes_reserve alloc bytes_init_arena (1 + length d) \<bind> (\<lambda>(_, r).
        bytes_append_byte alloc r (0x80 + of_nat (length d)) \<bind> (\<lambda>(_, r).
        bytes_append alloc r d \<bind> (\<lambda>(_, r). Some r)))"
      using short by (cases "d = []") (auto simp: rlp_encode_bytes_def Let_def append_nil)
    ultimately show ?thesis
      using assms(1) short(2) by (auto intro!: encode_rules)
  next
    case long
    have l64: "length d < 2 ^ 64" using assms(2) by simp
    note l = length_of_length [OF long l64]
    define k where "k = length (be_digits (length d))"
    have "rlp_string d = (0xB7 + of_nat k) # be_digits (length d) @ d"
      using long by (simp add: rlp_string_def rlp_header_def k_def)
    moreover have "rlp_encode_bytes alloc d = bytes_reserve alloc bytes_init_arena (1 + k + length d) \<bind> (\<lambda>(_, r).
        bytes_append_byte alloc r (0xB7 + of_nat k) \<bind> (\<lambda>(_, r).
        bytes_append alloc r (be_digits (length d)) \<bind> (\<lambda>(_, r).
        bytes_append alloc r d \<bind> (\<lambda>(_, r). Some r))))"
      using long l assms(2) by (simp add: rlp_encode_bytes_def Let_def k_def)
    ultimately show ?thesis
      using assms l(4) by (auto intro!: encode_rules simp: k_def)
  qed
qed


lemma be_digits_0 [simp]: "be_digits 0 = []"
  by (simp add: be_digits.simps)

lemma be_digits_single: "0 < n \<Longrightarrow> n < 256 \<Longrightarrow> be_digits n = [of_nat n]"
  by (simp add: be_digits.simps [of n])

lemma be_digits_length_1: "length (be_digits n) = 1 \<Longrightarrow> 0 < n \<and> n < 256"
  using be_val_bounds(2) [of "be_digits n"] by (cases "n = 0") (auto simp: be_val_be_digits)

lemma rlp_string_short:
  "length d < 56 \<Longrightarrow> \<not> (length d = 1 \<and> hd d < 128) \<Longrightarrow> rlp_string d = (0x80 + of_nat (length d)) # d"
  by (simp add: rlp_string_def rlp_header_def)

lemma rlp_string_number:
  assumes "128 \<le> n" "length (be_digits n) < 56"
  shows "rlp_string (be_digits n) = (0x80 + of_nat (length (be_digits n))) # be_digits n"
proof (rule rlp_string_short [OF assms(2)])
  show "\<not> (length (be_digits n) = 1 \<and> hd (be_digits n) < 128)"
  proof
    assume h: "length (be_digits n) = 1 \<and> hd (be_digits n) < 128"
    then have "n < 256" "be_digits n = [of_nat n]" using be_digits_length_1 [of n] be_digits_single [of n] by auto
    then show False using h assms(1) by (simp add: word_less_nat_alt unat_of_nat)
  qed
qed

lemma rlp_string_Nil [simp]: "rlp_string [] = [0x80]"
  by (simp add: rlp_string_def rlp_header_def)

lemma rlp_string_small: "n < 128 \<Longrightarrow> rlp_string (be_digits n) = (if n = 0 then [0x80] else [of_nat n])"
  by (simp add: be_digits_single rlp_string_def rlp_header_def word_less_nat_alt unat_of_nat)

lemma rlp_encode_u64_returns:
  assumes "alloc_total alloc"
  shows "returns (rlp_string (be_digits (unat v))) (rlp_encode_u64 alloc v)"
proof -
  consider (zero) "v = 0" | (small) "v \<noteq> 0" "unat v < 128" | (big) "128 \<le> unat v" by linarith
  then show ?thesis
  proof cases
    case zero
    then show ?thesis
      using assms by (auto intro!: encode_rules simp: rlp_encode_u64_def rlp_string_small)
  next
    case small
    then have "(of_nat (unat v) :: u8) = ucast v" by simp
    moreover have "0 < unat v" using small(1) by (simp add: unat_gt_0)
    ultimately show ?thesis
      using assms small by (auto intro!: encode_rules simp: rlp_encode_u64_def rlp_string_small word_less_nat_alt)
  next
    case big
    define n where "n = rlp_byte_length_u64 v"
    have v0: "v \<noteq> 0" using big by auto
    have n: "n = 8 - clzll v div 8" using v0 by (simp add: n_def rlp_byte_length_u64_def)
    have d: "be_loop n v = be_digits (unat v)" using be_loop_digits [OF v0] by (simp add: n)
    have len: "length (be_digits (unat v)) = n" using length_be_loop [of n v] d by simp
    have n8: "n \<le> 8" using byte_count(4) [OF v0] by (simp add: n)
    have "rlp_encode_u64 alloc v = bytes_reserve alloc bytes_init_arena (1 + n) \<bind> (\<lambda>(_, r).
        bytes_append_byte alloc r (0x80 + of_nat n) \<bind> (\<lambda>(_, r). append_bytes alloc r (be_loop n v)))"
      using big v0 by (simp add: rlp_encode_u64_def n_def [symmetric] word_less_nat_alt Let_def)
    moreover have "returns ([0x80 + of_nat n] @ be_digits (unat v)) (append_bytes alloc b (be_loop n v))"
      if "arena_buf (1 + n) [0x80 + of_nat n] b" for b
      using append_bytes_fits [OF that, of "be_loop n v" alloc] unfolding d [symmetric]
      by (auto simp: returns_def arena_buf_def)
    moreover have "rlp_string (be_digits (unat v)) = [0x80 + of_nat n] @ be_digits (unat v)"
      using rlp_string_number [OF big] len n8 by simp
    ultimately show ?thesis
      using assms n8 by (auto intro!: encode_rules)
  qed
qed

lemma be_digits_bytes: "dropWhile (\<lambda>b. b = 0) bs = be_digits (nat (be_val bs))"
proof -
  have "no_lead (dropWhile (\<lambda>b. b = 0) bs)"
    using hd_dropWhile [of "\<lambda>b. b = 0" bs] by (auto simp: no_lead_def)
  moreover have "be_val (dropWhile (\<lambda>b. b = 0) bs) = int (nat (be_val bs))"
    by (simp add: dropWhile_zeros be_val_bounds)
  ultimately show ?thesis by (simp add: be_digits_eqI)
qed

lemma rlp_encode_uint256_returns:
  assumes "alloc_total alloc"
  shows "returns (rlp_string (be_digits (nat (uval v)))) (rlp_encode_uint256 alloc v)"
proof -
  define n where "n = nat (uval v)"
  have small: "limb3 v = 0 \<and> limb2 v = 0 \<and> limb1 v = 0 \<and> limb0 v < 128 \<longleftrightarrow> n < 128"
  proof -
    have "uval v < 128 \<longleftrightarrow> uval v < 2 ^ 64 \<and> uval v < 128" by auto
    also have "\<dots> \<longleftrightarrow> limb3 v = 0 \<and> limb2 v = 0 \<and> limb1 v = 0 \<and> limb0 v < 128"
      using uval_lt_64_limbs [of v] by (auto simp: word_less_def uval_def)
    finally show ?thesis by (auto simp: n_def)
  qed
  consider (zero) "n = 0" | (small) "0 < n" "n < 128" | (big) "128 \<le> n" by linarith
  then show ?thesis
    unfolding n_def [symmetric]
  proof cases
    case zero
    then have "uint256_is_zero v" using uval_bounds(1) [of v] by (simp add: n_def)
    then show "returns (rlp_string (be_digits n)) (rlp_encode_uint256 alloc v)"
      using assms zero by (auto intro!: encode_rules simp: rlp_encode_uint256_def)
  next
    case small': small
    then have "uval v = uint (limb0 v)" using small by (simp add: uval_def)
    then have "(of_nat n :: u8) = ucast (limb0 v)" by (simp add: n_def)
    then show "returns (rlp_string (be_digits n)) (rlp_encode_uint256 alloc v)"
      using assms small small' by (auto intro!: encode_rules simp: rlp_encode_uint256_def rlp_string_small n_def)
  next
    case big
    define bs where "bs = uint256_to_bytes_be v"
    define start where "start = length (takeWhile (\<lambda>b. b = 0) bs)"
    have d: "drop start bs = be_digits n"
      using be_digits_bytes [of bs] by (simp add: start_def dropWhile_eq_drop bs_def n_def)
    then have len: "length (be_digits n) = 32 - start" by (simp add: bs_def flip: d)
    have "\<not> uint256_is_zero v" using big by (auto simp: n_def)
    then have "rlp_encode_uint256 alloc v = bytes_reserve alloc bytes_init_arena (1 + (32 - start)) \<bind> (\<lambda>(_, r).
        bytes_append_byte alloc r (0x80 + of_nat (32 - start)) \<bind> (\<lambda>(_, r).
        bytes_append alloc r (be_digits n) \<bind> (\<lambda>(_, r). Some r)))"
      using big small d len unfolding rlp_encode_uint256_def
      by (auto simp: bs_def [symmetric] start_def [symmetric] Let_def)
    moreover have "rlp_string (be_digits n) = [0x80 + of_nat (32 - start)] @ be_digits n"
      using rlp_string_number [OF big] len by simp
    ultimately show "returns (rlp_string (be_digits n)) (rlp_encode_uint256 alloc v)"
      using assms len by (auto intro!: encode_rules)
  qed
qed

lemma rlp_encode_address_returns:
  assumes "alloc_total alloc" "length addr = ADDRESS_SIZE"
  shows "returns (rlp_string addr) (rlp_encode_address alloc addr)"
proof -
  have "rlp_string addr = [0x94] @ addr" using assms(2) by (simp add: rlp_string_short ADDRESS_SIZE_def)
  then show ?thesis
    using assms by (auto intro!: encode_rules simp: rlp_encode_address_def ADDRESS_SIZE_def)
qed

section \<open>Building lists\<close>

lemma list_header_eq:
  assumes "n < 2 ^ 64" shows "list_header n = rlp_header 0xC0 n" "1 \<le> length (list_header n)" "length (list_header n) \<le> 9"
  using assms length_of_length [of n] by (auto simp: list_header_def rlp_header_def)

lemma rlp_list_end_contents:
  assumes wf: "bytes_wf out" and c: "bytes_contents out = xs @ replicate 9 z @ ys"
  shows "bytes_contents (rlp_list_end (length xs) out) = xs @ rlp_list ys \<and> bytes_wf (rlp_list_end (length xs) out)"
proof -
  define buf where "buf = case_option [] id (bytes_data out)"
  define n where "n = length ys"
  have size: "bytes_size out = length xs + 9 + n" using length_contents [OF wf] c by (simp add: n_def)
  have cap: "length buf = bytes_capacity out" "bytes_size out \<le> bytes_capacity out" "bytes_capacity out < 2 ^ 64"
    using wf by (simp_all add: bytes_wf_def buf_def)
  define junk where "junk = drop (bytes_size out) buf"
  have buf: "buf = xs @ replicate 9 z @ ys @ junk"
    using c append_take_drop_id [of "bytes_size out" buf] by (simp add: bytes_contents_def buf_def [symmetric] junk_def)
  have n64: "n < 2 ^ 64" using size cap by simp
  have pl: "(bytes_size out + 2 ^ 65 - length xs - RLP_MAX_HEADER_SIZE) mod 2 ^ 64 = n"
  proof -
    have "bytes_size out + 2 ^ 65 - length xs - RLP_MAX_HEADER_SIZE = n + 2 * 2 ^ 64" by (simp add: size)
    then show ?thesis using n64 by (simp only: mod_mult_self1 mod_less)
  qed
  define h where "h = list_header n"
  have h: "h = rlp_header 0xC0 n" "1 \<le> length h" "length h \<le> 9" using list_header_eq [OF n64] by (simp_all add: h_def)
  define buf1 where "buf1 = memcpy_at buf (length xs) h"
  have b1: "buf1 = xs @ h @ replicate (9 - length h) z @ ys @ junk"
    using h(3) by (simp add: buf1_def memcpy_at_def buf drop_replicate)
  have pay: "take n (drop (length xs + RLP_MAX_HEADER_SIZE) buf1) = ys"
    using h(3) by (simp add: b1 n_def)
  define buf2 where "buf2 = memcpy_at buf1 (length xs + length h) ys"
  have b2: "take (length xs + length h + n) buf2 = xs @ h @ ys" "length buf2 = length buf"
    using h(3) by (simp_all add: buf2_def memcpy_at_def b1 buf n_def)
  have l1: "length buf1 = length buf" using h(3) by (simp add: b1 buf)
  have e: "rlp_list_end (length xs) out = (if length h < 9
      then out\<lparr>bytes_data := Some buf2, bytes_size := bytes_size out - (9 - length h)\<rparr>
      else out\<lparr>bytes_data := Some buf1\<rparr>)"
    unfolding rlp_list_end_def Let_def pl h_def [symmetric] buf_def [symmetric] buf1_def [symmetric] pay
      buf2_def [symmetric] by simp
  show ?thesis
  proof (cases "length h < 9")
    case True
    then have sz: "bytes_size out - (9 - length h) = length xs + length h + n" using size h(2) by simp
    then show ?thesis using True b2 cap h(1) size unfolding e
      by (simp add: bytes_contents_def bytes_wf_def rlp_list_def n_def ac_simps)
  next
    case False
    then have "take (bytes_size out) buf1 = xs @ h @ ys" using h(3) by (simp add: b1 size n_def)
    then show ?thesis using False l1 cap h(1) size unfolding e
      by (simp add: bytes_contents_def bytes_wf_def rlp_list_def n_def)
  qed
qed

lemma reserve_arena: "bytes_reserve alloc b n = Some (ok, b') \<Longrightarrow> bytes_arena b' = bytes_arena b"
  by (auto simp: bytes_reserve_def bind_eq_Some_conv split: if_splits option.splits)

lemma append_arena: "bytes_append alloc b d = Some (ok, b') \<Longrightarrow> bytes_arena b' = bytes_arena b"
  by (auto simp: bytes_append_def Let_def bind_eq_Some_conv reserve_arena split: if_splits)

text \<open>Appending to a heap buffer; half of the address space is enough for the growth to end.\<close>

definition heap_buf :: "u8 list \<Rightarrow> bytes_t \<Rightarrow> bool" where
  "heap_buf xs b \<longleftrightarrow> bytes_wf b \<and> \<not> bytes_arena b \<and> bytes_contents b = xs"

lemma heap_append:
  assumes "alloc_total alloc" "heap_buf xs b" "length xs + length d \<le> 2 ^ 63"
  shows "\<exists>b'. bytes_append alloc b d = Some (True, b') \<and> heap_buf (xs @ d) b'"
proof -
  have b: "bytes_wf b" "\<not> bytes_arena b" "bytes_size b = length xs" "bytes_contents b = xs"
    using assms(2) length_contents [of b] by (auto simp: heap_buf_def)
  obtain b' where b': "bytes_append alloc b d = Some (True, b')"
    using bytes_append_succeeds [OF assms(1) b(1)] b(2,3) assms(3) by auto
  then show ?thesis
    using bytes_append_sound [OF _ b(1) _ b'] append_arena [OF b'] assms(1,3) b by (auto simp: alloc_total_def heap_buf_def)
qed

lemma list_builder:
  assumes "alloc_total alloc" "heap_buf xs b" "length xs + 9 + length ys \<le> 2 ^ 63"
  shows "\<exists>pos b1 b2. rlp_list_start alloc b = Some (pos, b1) \<and> rlp_list_append_raw alloc b1 ys = Some b2 \<and>
    heap_buf (xs @ rlp_list ys) (rlp_list_end pos b2)"
proof -
  obtain b1 where b1: "bytes_append alloc b (replicate 9 0) = Some (True, b1)" "heap_buf (xs @ replicate 9 0) b1"
    using heap_append [OF assms(1,2), of "replicate 9 0"] assms(3) by auto
  obtain b2 where b2: "bytes_append alloc b1 ys = Some (True, b2)" "heap_buf ((xs @ replicate 9 0) @ ys) b2"
    using heap_append [OF assms(1) b1(2), of ys] assms(3) by auto
  have pos: "bytes_size b = length xs" using assms(2) length_contents [of b] by (auto simp: heap_buf_def)
  have "\<not> bytes_arena (rlp_list_end (length xs) b2)" using b2(2) by (simp add: heap_buf_def rlp_list_end_def Let_def)
  then have "heap_buf (xs @ rlp_list ys) (rlp_list_end (length xs) b2)"
    using rlp_list_end_contents [of b2 xs 0 ys] b2(2) by (simp add: heap_buf_def)
  then show ?thesis
    using b1(1) b2(1) pos by (simp add: rlp_list_start_def rlp_list_append_raw_def)
qed


section \<open>The table of header lengths\<close>

lemma table_entries:
  "list_all (\<lambda>k. RLP_PREFIX_LENGTH_TABLE ! k =
     (if k < 0x80 then 0 else if k \<le> 0xB7 then 1 else if k \<le> 0xBF then k - 0xB7 + 1
      else if k \<le> 0xF7 then 1 else k - 0xF7 + 1)) [0..<256]"
  by code_simp

lemma prefix_length_eq:
  "rlp_prefix_length p = (if unat p < 0x80 then 0 else if unat p \<le> 0xB7 then 1
     else if unat p \<le> 0xBF then unat p - 0xB7 + 1 else if unat p \<le> 0xF7 then 1 else unat p - 0xF7 + 1)"
proof -
  have "unat p < 256" using uint8_bounds(2) [of p] by (simp add: unat_eq_nat_uint nat_less_iff del: nat_uint_eq)
  then show ?thesis using table_entries unfolding rlp_prefix_length_def list_all_iff by auto
qed

lemma prefix_length_header:
  assumes "n < 2 ^ 64" "b = 0x80 \<or> b = 0xC0"
  shows "rlp_prefix_length (hd (rlp_header b n)) = length (rlp_header b n)"
proof (cases "n < 56")
  case True
  then have "unat (b + of_nat n) = unat b + n"
    using assms(2) by (auto simp: unat_word_ariths unat_of_nat)
  then show ?thesis using True assms(2) by (auto simp: prefix_length_eq rlp_header_def)
next
  case False
  then have k: "1 \<le> length (be_digits n)" "length (be_digits n) \<le> 8" using length_of_length [of n] assms(1) by simp_all
  then have "unat (b + 55 + of_nat (length (be_digits n))) = unat b + 55 + length (be_digits n)"
    using assms(2) by (auto simp: unat_word_ariths unat_of_nat)
  then show ?thesis using False assms(2) k by (auto simp: prefix_length_eq rlp_header_def)
qed

lemma prefix_length_string:
  assumes "length d < 2 ^ 64"
  shows "rlp_prefix_length (hd (rlp_string d)) + length d = length (rlp_string d)"
proof (cases "length d = 1 \<and> hd d < 128")
  case True
  then have "unat (hd d) < 128" by (simp add: word_less_nat_alt)
  then show ?thesis using True by (simp add: rlp_string_def prefix_length_eq)
next
  case False
  have "rlp_header b n \<noteq> []" for b n by (simp add: rlp_header_def)
  then show ?thesis using False prefix_length_header [OF assms, of "0x80"] by (auto simp: rlp_string_def)
qed


section \<open>Properties\<close>



text \<open>
  The list builder, which reserves nine bytes, takes the items and then writes the header and
  moves the payload down, leaves exactly the old contents followed by the list of the payload.
\<close>

theorem rlp_list_builder_correct:
  assumes "alloc_total alloc" "heap_buf xs b" "length xs + 9 + length ys \<le> 2 ^ 63"
  shows "\<exists>pos b1 b2. rlp_list_start alloc b = Some (pos, b1) \<and> rlp_list_append_raw alloc b1 ys = Some b2 \<and>
    heap_buf (xs @ rlp_list ys) (rlp_list_end pos b2)"
  using assms by (rule list_builder)

theorem rlp_list_builder_correct_witness:
  "\<exists>pos b1 b2. rlp_list_start (\<lambda>n. Some (replicate n 0)) bytes_init = Some (pos, b1) \<and>
    rlp_list_append_raw (\<lambda>n. Some (replicate n 0)) b1 [1, 2] = Some b2 \<and>
    heap_buf [0xC2, 1, 2] (rlp_list_end pos b2)"
proof -
  have "alloc_total (\<lambda>n. Some (replicate n 0))" by (simp add: alloc_total_def alloc_sound_def)
  moreover have "heap_buf [] bytes_init" by (simp add: heap_buf_def bytes_wf_def bytes_contents_def bytes_init_def)
  ultimately show ?thesis
    using rlp_list_builder_correct [of "\<lambda>n. Some (replicate n 0)" "[]" bytes_init "[1, 2]"]
    by (simp add: rlp_list_def rlp_header_def)
qed

text \<open>
  The table of header lengths agrees with the encoding: looked up at the first byte of an
  encoded string or list header it gives the number of bytes before the data.
\<close>

theorem rlp_prefix_table_correct:
  assumes "length d < 2 ^ 64"
  shows "rlp_prefix_length (hd (rlp_string d)) + length d = length (rlp_string d) \<and>
    rlp_prefix_length (hd (list_header (length d))) = length (list_header (length d))"
  using prefix_length_string [OF assms] prefix_length_header [OF assms, of "0xC0"] list_header_eq [OF assms]
  by simp

theorem rlp_prefix_table_correct_witness:
  "rlp_prefix_length (hd (rlp_string (replicate 60 7))) + 60 = length (rlp_string (replicate 60 7))"
  using rlp_prefix_table_correct [of "replicate 60 7"] by simp

end
