(* ===== verification/Rlp_Decode.thy ===== *)
theory Rlp_Decode
  imports Rlp_Encode
begin

text \<open>
  RLP decoding: \<open>src/rlp/decode.c\<close> and \<open>include/div0/rlp/decode.h\<close>.  The decoder is a record of the
  input, its size and the read position; every call returns its result, \<open>Inl\<close> an error code or
  \<open>Inr\<close> the value with the number of bytes consumed, and the decoder it leaves, which is advanced
  also on errors.  Lengths read from the input are 64-bit words.
\<close>

unbundle bit_operations_syntax

section \<open>The decoder\<close>

datatype rlp_error_t =
    RLP_SUCCESS
  | RLP_ERR_INPUT_TOO_SHORT
  | RLP_ERR_LEADING_ZEROS
  | RLP_ERR_NON_CANONICAL
  | RLP_ERR_INTEGER_OVERFLOW
  | RLP_ERR_LIST_MISMATCH
  | RLP_ERR_INVALID_PREFIX
  | RLP_ERR_WRONG_SIZE

record rlp_decoder_t =
  dec_input :: "u8 list"
  dec_size :: nat
  dec_pos :: nat

type_synonym 'a rlp_result = "(rlp_error_t + 'a \<times> nat) \<times> rlp_decoder_t"

definition rlp_decoder_init :: "u8 list \<Rightarrow> rlp_decoder_t" where
  "rlp_decoder_init input = \<lparr>dec_input = input, dec_size = length input, dec_pos = 0\<rparr>"

definition rlp_decoder_has_more :: "rlp_decoder_t \<Rightarrow> bool" where
  "rlp_decoder_has_more d \<longleftrightarrow> dec_pos d < dec_size d"

definition rlp_decoder_peek :: "rlp_decoder_t \<Rightarrow> u8" where
  "rlp_decoder_peek d = (if dec_pos d < dec_size d then dec_input d ! dec_pos d else 0)"

definition rlp_decoder_next_is_list :: "rlp_decoder_t \<Rightarrow> bool" where
  "rlp_decoder_next_is_list d = rlp_is_list_prefix (rlp_decoder_peek d)"

definition rlp_decoder_next_is_string :: "rlp_decoder_t \<Rightarrow> bool" where
  "rlp_decoder_next_is_string d = rlp_is_string_prefix (rlp_decoder_peek d)"

definition remaining :: "rlp_decoder_t \<Rightarrow> nat" where
  "remaining d = (if dec_pos d \<ge> dec_size d then 0 else dec_size d - dec_pos d)"

definition read_byte :: "rlp_decoder_t \<Rightarrow> u8 \<times> rlp_decoder_t" where
  "read_byte d = (dec_input d ! dec_pos d, d\<lparr>dec_pos := dec_pos d + 1\<rparr>)"

text \<open>The loop over the bytes of a length.\<close>

fun read_length :: "nat \<Rightarrow> rlp_decoder_t \<Rightarrow> u64 \<Rightarrow> u64 \<times> rlp_decoder_t" where
  "read_length 0 d len = (len, d)"
| "read_length (Suc n) d len =
     (let (b, d) = read_byte d in read_length n d (push_bit 8 len OR u8_to_u64 b))"

definition decode_length :: "rlp_decoder_t \<Rightarrow> nat \<Rightarrow> u64 rlp_result" where
  "decode_length d num_bytes =
     (if remaining d < num_bytes then (Inl RLP_ERR_INPUT_TOO_SHORT, d)
      else if dec_input d ! dec_pos d = 0 then (Inl RLP_ERR_LEADING_ZEROS, d)
      else let (len, d) = read_length num_bytes d 0 in (Inr (len, num_bytes), d))"

text \<open>The bytes of the input a result points to.\<close>

definition view :: "rlp_decoder_t \<Rightarrow> nat \<Rightarrow> nat \<Rightarrow> u8 list" where
  "view d at len = take len (drop at (dec_input d))"

definition rlp_decode_bytes :: "rlp_decoder_t \<Rightarrow> u8 list rlp_result" where
  "rlp_decode_bytes d =
     (if \<not> rlp_decoder_has_more d then (Inl RLP_ERR_INPUT_TOO_SHORT, d)
      else
        let start_pos = dec_pos d;
            (prefix, d) = read_byte d
        in if prefix \<le> RLP_SINGLE_BYTE_MAX then (Inr (view d start_pos 1, 1), d)
           else if prefix \<le> RLP_SHORT_STRING_MAX
           then let len = unat prefix - unat RLP_EMPTY_STRING_BYTE
                in if remaining d < len then (Inl RLP_ERR_INPUT_TOO_SHORT, d)
                   else if len = 1 \<and> dec_input d ! dec_pos d \<le> RLP_SINGLE_BYTE_MAX
                   then (Inl RLP_ERR_NON_CANONICAL, d)
                   else (Inr (view d (dec_pos d) len, 1 + len), d\<lparr>dec_pos := dec_pos d + len\<rparr>)
           else if prefix \<le> RLP_LONG_STRING_MAX
           then let len_of_len = unat prefix - unat RLP_SHORT_STRING_MAX
                in (case decode_length d len_of_len of
                      (Inl e, d) \<Rightarrow> (Inl e, d)
                    | (Inr (decoded, _), d) \<Rightarrow>
                        let len = unat decoded
                        in if len < RLP_SMALL_PREFIX_BARRIER then (Inl RLP_ERR_NON_CANONICAL, d)
                           else if remaining d < len then (Inl RLP_ERR_INPUT_TOO_SHORT, d)
                           else (Inr (view d (dec_pos d) len, 1 + len_of_len + len),
                                 d\<lparr>dec_pos := dec_pos d + len\<rparr>))
           else (Inl RLP_ERR_INVALID_PREFIX, d))"

definition rlp_decode_u64 :: "rlp_decoder_t \<Rightarrow> u64 rlp_result" where
  "rlp_decode_u64 d =
     (case rlp_decode_bytes d of
        (Inl e, d) \<Rightarrow> (Inl e, d)
      | (Inr (data, bytes_consumed), d) \<Rightarrow>
          if length data = 0 then (Inr (0, bytes_consumed), d)
          else if length data > 8 then (Inl RLP_ERR_INTEGER_OVERFLOW, d)
          else if length data > 1 \<and> data ! 0 = 0 then (Inl RLP_ERR_LEADING_ZEROS, d)
          else (Inr (foldl (\<lambda>value b. push_bit 8 value OR u8_to_u64 b) 0 data, bytes_consumed), d))"

definition rlp_decode_uint256 :: "rlp_decoder_t \<Rightarrow> uint256_t rlp_result" where
  "rlp_decode_uint256 d =
     (case rlp_decode_bytes d of
        (Inl e, d) \<Rightarrow> (Inl e, d)
      | (Inr (data, bytes_consumed), d) \<Rightarrow>
          if length data = 0 then (Inr (uint256_zero, bytes_consumed), d)
          else if length data > 32 then (Inl RLP_ERR_INTEGER_OVERFLOW, d)
          else if length data > 1 \<and> data ! 0 = 0 then (Inl RLP_ERR_LEADING_ZEROS, d)
          else (Inr (uint256_from_bytes_be data, bytes_consumed), d))"

definition rlp_decode_address :: "rlp_decoder_t \<Rightarrow> address_t rlp_result" where
  "rlp_decode_address d =
     (case rlp_decode_bytes d of
        (Inl e, d) \<Rightarrow> (Inl e, d)
      | (Inr (data, bytes_consumed), d) \<Rightarrow>
          if length data \<noteq> ADDRESS_SIZE then (Inl RLP_ERR_WRONG_SIZE, d)
          else (Inr (data, bytes_consumed), d))"

definition rlp_decode_list_header :: "rlp_decoder_t \<Rightarrow> nat rlp_result" where
  "rlp_decode_list_header d =
     (if \<not> rlp_decoder_has_more d then (Inl RLP_ERR_INPUT_TOO_SHORT, d)
      else
        let (prefix, d) = read_byte d
        in if prefix \<le> RLP_LONG_STRING_MAX then (Inl RLP_ERR_INVALID_PREFIX, d)
           else if prefix \<le> RLP_SHORT_LIST_MAX
           then (Inr (unat prefix - unat RLP_EMPTY_LIST_BYTE, 1), d)
           else let len_of_len = unat prefix - unat RLP_SHORT_LIST_MAX
                in (case decode_length d len_of_len of
                      (Inl e, d) \<Rightarrow> (Inl e, d)
                    | (Inr (decoded, _), d) \<Rightarrow>
                        let payload_len = unat decoded
                        in if payload_len < RLP_SMALL_PREFIX_BARRIER then (Inl RLP_ERR_NON_CANONICAL, d)
                           else (Inr (payload_len, 1 + len_of_len), d)))"

text \<open>
  Skipping: the loop over the length bytes stops at the end of the input; the new position is
  computed with the wrap-around of \<open>size_t\<close>.
\<close>

fun skip_length :: "nat \<Rightarrow> rlp_decoder_t \<Rightarrow> u64 \<Rightarrow> u64 \<times> rlp_decoder_t" where
  "skip_length 0 d len = (len, d)"
| "skip_length (Suc n) d len =
     (if dec_pos d < dec_size d
      then let (b, d) = read_byte d in skip_length n d (push_bit 8 len OR u8_to_u64 b)
      else (len, d))"

definition clamp_pos :: "rlp_decoder_t \<Rightarrow> nat \<Rightarrow> rlp_decoder_t" where
  "clamp_pos d advance =
     (let new_pos = (dec_pos d + advance) mod 2 ^ 64
      in d\<lparr>dec_pos := (if new_pos < dec_size d then new_pos else dec_size d)\<rparr>)"

definition rlp_skip_item :: "rlp_decoder_t \<Rightarrow> rlp_decoder_t" where
  "rlp_skip_item d =
     (if \<not> rlp_decoder_has_more d then d
      else
        let prefix = dec_input d ! dec_pos d
        in if prefix \<le> RLP_SINGLE_BYTE_MAX then d\<lparr>dec_pos := dec_pos d + 1\<rparr>
           else if prefix \<le> RLP_SHORT_STRING_MAX
           then clamp_pos d (1 + (unat prefix - unat RLP_EMPTY_STRING_BYTE))
           else if prefix \<le> RLP_LONG_STRING_MAX
           then let (len, d) = skip_length (unat prefix - unat RLP_SHORT_STRING_MAX)
                                 (d\<lparr>dec_pos := dec_pos d + 1\<rparr>) 0
                in clamp_pos d (unat len)
           else if prefix \<le> RLP_SHORT_LIST_MAX
           then clamp_pos d (1 + (unat prefix - unat RLP_EMPTY_LIST_BYTE))
           else let (len, d) = skip_length (unat prefix - unat RLP_SHORT_LIST_MAX)
                                 (d\<lparr>dec_pos := dec_pos d + 1\<rparr>) 0
                in clamp_pos d (unat len))"

definition rlp_error_string :: "rlp_error_t \<Rightarrow> string" where
  "rlp_error_string e =
     (case e of
        RLP_SUCCESS \<Rightarrow> ''success''
      | RLP_ERR_INPUT_TOO_SHORT \<Rightarrow> ''input too short''
      | RLP_ERR_LEADING_ZEROS \<Rightarrow> ''leading zeros in length''
      | RLP_ERR_NON_CANONICAL \<Rightarrow> ''non-canonical encoding''
      | RLP_ERR_INTEGER_OVERFLOW \<Rightarrow> ''integer overflow''
      | RLP_ERR_LIST_MISMATCH \<Rightarrow> ''list length mismatch''
      | RLP_ERR_INVALID_PREFIX \<Rightarrow> ''invalid prefix''
      | RLP_ERR_WRONG_SIZE \<Rightarrow> ''wrong data size'')"


section \<open>Reading lengths\<close>

definition dec_wf :: "rlp_decoder_t \<Rightarrow> bool" where
  "dec_wf d \<longleftrightarrow> dec_size d = length (dec_input d) \<and> dec_pos d \<le> dec_size d \<and> dec_size d < 2 ^ 64"

text \<open>What is left of the input, and the decoder advanced over some of it.\<close>

definition dec_rest :: "rlp_decoder_t \<Rightarrow> u8 list" where
  "dec_rest d = drop (dec_pos d) (dec_input d)"

definition advance :: "rlp_decoder_t \<Rightarrow> nat \<Rightarrow> rlp_decoder_t" where
  "advance d n = d\<lparr>dec_pos := dec_pos d + n\<rparr>"

lemma dec_rest_advance [simp]: "dec_rest (advance d n) = drop n (dec_rest d)"
  by (simp add: dec_rest_def advance_def add.commute)

lemma advance_advance [simp]: "advance (advance d m) n = advance d (m + n)"
  by (simp add: advance_def add.assoc)

lemma advance_0 [simp]: "advance d 0 = d"
  by (simp add: advance_def)

lemma dec_input_advance [simp]: "dec_input (advance d n) = dec_input d" "dec_size (advance d n) = dec_size d"
  "dec_pos (advance d n) = dec_pos d + n"
  by (simp_all add: advance_def)

lemma dec_wf_advance: "dec_wf d \<Longrightarrow> n \<le> length (dec_rest d) \<Longrightarrow> dec_wf (advance d n)"
  by (auto simp: dec_wf_def dec_rest_def advance_def)

lemma remaining_rest: "dec_wf d \<Longrightarrow> remaining d = length (dec_rest d)"
  by (auto simp: remaining_def dec_wf_def dec_rest_def)

lemma has_more_rest: "dec_wf d \<Longrightarrow> rlp_decoder_has_more d \<longleftrightarrow> dec_rest d \<noteq> []"
  by (auto simp: rlp_decoder_has_more_def dec_wf_def dec_rest_def)

lemma nth_rest: "dec_wf d \<Longrightarrow> dec_rest d \<noteq> [] \<Longrightarrow> dec_input d ! dec_pos d = hd (dec_rest d)"
  by (simp add: dec_rest_def hd_drop_conv_nth dec_wf_def)

lemma read_byte_rest:
  "dec_wf d \<Longrightarrow> dec_rest d = b # bs \<Longrightarrow> read_byte d = (b, advance d 1)"
  using nth_rest [of d] by (simp add: read_byte_def advance_def)

lemma view_rest: "view d (dec_pos d) n = take n (dec_rest d)"
  by (simp add: view_def dec_rest_def)

lemma pos_rest_less: "dec_wf d \<Longrightarrow> dec_rest d \<noteq> [] \<Longrightarrow> dec_pos d < dec_size d"
  by (auto simp: dec_rest_def dec_wf_def)

lemma read_length_eq:
  "dec_wf d \<Longrightarrow> n \<le> length (dec_rest d) \<Longrightarrow> read_length n d acc =
    (foldl (\<lambda>v b. push_bit 8 v OR u8_to_u64 b) acc (take n (dec_rest d)), advance d n)"
proof (induction n arbitrary: d acc)
  case (Suc n)
  then obtain b bs where r: "dec_rest d = b # bs" by (cases "dec_rest d") auto
  have "dec_wf (advance d 1)" using Suc.prems r by (intro dec_wf_advance) simp_all
  then show ?case using Suc.IH [of "advance d 1"] Suc.prems r read_byte_rest [OF Suc.prems(1) r] by simp
qed simp

lemma limb_of_be_digits:
  assumes "length (be_digits l) \<le> 8" shows "limb_of_bytes (be_digits l) = of_nat l"
proof -
  have v: "uint (limb_of_bytes (be_digits l)) = int l"
    using uint_limb_of_bytes [OF assms] by (simp add: be_val_be_digits)
  then have "word_of_int (int l) = limb_of_bytes (be_digits l)" by (metis word_of_int_uint)
  then show ?thesis by simp
qed

lemma decode_length_digits:
  assumes "dec_wf d" "dec_rest d = be_digits l @ rest" "0 < l" "length (be_digits l) \<le> 8"
  shows "decode_length d (length (be_digits l)) =
    (Inr (of_nat l, length (be_digits l)), advance d (length (be_digits l)))"
proof -
  have ne: "be_digits l \<noteq> []" using assms(3) by (simp add: be_digits.simps [of l])
  then have "hd (be_digits l) \<noteq> 0" using no_lead_be_digits [of l] by (simp add: no_lead_def)
  then have "dec_input d ! dec_pos d \<noteq> 0" using nth_rest [OF assms(1)] ne assms(2) by simp
  moreover have "take (length (be_digits l)) (dec_rest d) = be_digits l" using assms(2) by simp
  ultimately show ?thesis
    using assms limb_of_be_digits [of l] read_length_eq [OF assms(1), of "length (be_digits l)" 0]
    by (simp add: decode_length_def remaining_rest limb_of_bytes_def)
qed

lemma decode_length_sound:
  assumes "dec_wf d" "decode_length d n = (Inr (v, m), d')" "1 \<le> n" "n \<le> 8"
  shows "m = n \<and> d' = advance d n \<and> n \<le> length (dec_rest d) \<and> take n (dec_rest d) = be_digits (unat v) \<and>
    length (be_digits (unat v)) = n"
proof -
  have n: "n \<le> length (dec_rest d)" and nz: "dec_input d ! dec_pos d \<noteq> 0"
    using assms(2) by (auto simp: decode_length_def remaining_rest [OF assms(1)] split: if_splits)
  define bs where "bs = take n (dec_rest d)"
  have len: "length bs = n" using n by (simp add: bs_def)
  have r: "v = limb_of_bytes bs" "m = n" "d' = advance d n"
    using assms(2) n nz read_length_eq [OF assms(1) n]
    by (auto simp: decode_length_def remaining_rest [OF assms(1)] bs_def limb_of_bytes_def)
  have ne: "dec_rest d \<noteq> []" using n assms(3) by auto
  have "hd bs \<noteq> 0" using nz nth_rest [OF assms(1) ne] assms(3) by (simp add: bs_def)
  then have "no_lead bs" by (simp add: no_lead_def)
  moreover have "be_val bs = int (unat v)"
    using uint_limb_of_bytes [of bs] len assms(4) r(1) by simp
  ultimately have "be_digits (unat v) = bs" by (rule be_digits_eqI)
  then show ?thesis using r n len by (simp add: bs_def)
qed


section \<open>Decoding strings\<close>

lemma decode_bytes_cons:
  assumes wf: "dec_wf d" and r: "dec_rest d = p # bs"
  shows "rlp_decode_bytes d =
    (if unat p \<le> 127 then (Inr ([p], 1), advance d 1)
     else if unat p \<le> 183
     then let len = unat p - 128
          in if length bs < len then (Inl RLP_ERR_INPUT_TOO_SHORT, advance d 1)
             else if len = 1 \<and> unat (hd bs) \<le> 127 then (Inl RLP_ERR_NON_CANONICAL, advance d 1)
             else (Inr (take len bs, 1 + len), advance d (1 + len))
     else if unat p \<le> 191
     then (case decode_length (advance d 1) (unat p - 183) of
             (Inl e, d) \<Rightarrow> (Inl e, d)
           | (Inr (decoded, _), d) \<Rightarrow>
               let len = unat decoded
               in if len < 56 then (Inl RLP_ERR_NON_CANONICAL, d)
                  else if remaining d < len then (Inl RLP_ERR_INPUT_TOO_SHORT, d)
                  else (Inr (view d (dec_pos d) len, 1 + (unat p - 183) + len), advance d len))
     else (Inl RLP_ERR_INVALID_PREFIX, advance d 1))"
proof -
  have more: "rlp_decoder_has_more d" using has_more_rest [OF wf] r by simp
  have wf1: "dec_wf (advance d 1)" using wf r by (intro dec_wf_advance) simp_all
  have rest1: "dec_rest (advance d 1) = bs" by (simp add: r)
  have v1: "view (advance d 1) (dec_pos d) 1 = [p]" using r by (simp add: view_def dec_rest_def)
  have v2: "view (advance d 1) (Suc (dec_pos d)) n = take n bs" for n
    using view_rest [of "advance d 1" n] rest1 by simp
  have hd1: "dec_input d ! Suc (dec_pos d) = hd bs" if "bs \<noteq> []"
    using nth_rest [OF wf1, unfolded rest1, OF that] by simp
  have upd: "(d'\<lparr>dec_pos := dec_pos d' + n\<rparr>) = advance d' n" for d' n by (simp add: advance_def)
  show ?thesis
    unfolding rlp_decode_bytes_def read_byte_rest [OF wf r] Let_def prod.case
    using more v1 v2 hd1 remaining_rest [OF wf1] rest1 
    by (auto simp: word_le_nat_alt upd split: sum.splits prod.splits)
qed

lemma rlp_decode_string:
  assumes wf: "dec_wf d" and r: "dec_rest d = rlp_string x @ rest"
  shows "rlp_decode_bytes d = (Inr (x, length (rlp_string x)), advance d (length (rlp_string x)))"
proof -
  have sz: "length (dec_rest d) < 2 ^ 64" using wf by (auto simp: dec_rest_def dec_wf_def)
  consider (single) b where "x = [b]" "b < 128"
    | (short) "\<not> (length x = 1 \<and> hd x < 128)" "length x < 56" | (long) "56 \<le> length x"
    by (cases x; cases "tl x") (auto, linarith)
  then show ?thesis
  proof cases
    case single
    then have "rlp_string x = [b]" by (simp add: rlp_string_def)
    then show ?thesis
      using decode_bytes_cons [OF wf, of b rest] r single by (simp add: word_less_nat_alt)
  next
    case short
    define p :: u8 where "p = 0x80 + of_nat (length x)"
    have s: "rlp_string x = p # x" using short by (simp add: rlp_string_short p_def)
    have p: "unat p = 128 + length x" using short by (simp add: p_def unat_word_ariths unat_of_nat)
    have nc: "\<not> (length x = 1 \<and> unat (hd (x @ rest)) \<le> 127)"
      using short by (cases x) (auto simp: word_less_nat_alt)
    show ?thesis
      using decode_bytes_cons [OF wf, of p "x @ rest"] r s p nc short(2) by (simp add: Let_def)
  next
    case long
    define k where "k = length (be_digits (length x))"
    define p :: u8 where "p = 0x80 + 55 + of_nat k"
    have s: "rlp_string x = p # be_digits (length x) @ x"
      using long by (simp add: rlp_string_def rlp_header_def p_def k_def)
    have l64: "length x < 2 ^ 64" using sz r s by simp
    note l = length_of_length [OF long l64]
    have p: "unat p = 183 + k" using l(3,4) by (simp add: p_def k_def unat_word_ariths unat_of_nat)
    have r1: "dec_rest (advance d 1) = be_digits (length x) @ x @ rest" using r s by simp
    have wf1: "dec_wf (advance d 1)" using wf r s by (intro dec_wf_advance) simp_all
    have wf2: "dec_wf (advance d (1 + k))" using wf r s by (intro dec_wf_advance) (simp_all add: k_def)
    have dl: "decode_length (advance d 1) k = (Inr (of_nat (length x), k), advance d (1 + k))"
    proof -
      have "0 < length x" using long by linarith
      then show ?thesis using decode_length_digits [OF wf1 r1 _ l(4)] by (simp add: k_def)
    qed
    have r2: "dec_rest (advance d (1 + k)) = x @ rest" using r s by (simp add: k_def)
    have v: "view (advance d (1 + k)) (dec_pos (advance d (1 + k))) (length x) = x"
      unfolding view_rest r2 by simp
    have u: "unat (of_nat (length x) :: u64) = length x" using l64 by (simp add: unat_of_nat)
    show ?thesis
      using decode_bytes_cons [OF wf, of p "be_digits (length x) @ x @ rest"] r s p l(3,4) dl long v u
        remaining_rest [OF wf2] r2
      by (simp add: k_def [symmetric] Let_def)
  qed
qed

lemma rlp_decode_string_sound:
  assumes wf: "dec_wf d" and res: "rlp_decode_bytes d = (Inr (x, n), d')"
  shows "n \<le> length (dec_rest d) \<and> take n (dec_rest d) = rlp_string x \<and> d' = advance d n"
proof -
  obtain p bs where r: "dec_rest d = p # bs"
    using res has_more_rest [OF wf] by (cases "dec_rest d") (auto simp: rlp_decode_bytes_def)
  note e = res [unfolded decode_bytes_cons [OF wf r] Let_def]
  have wf1: "dec_wf (advance d 1)" using wf r by (intro dec_wf_advance) simp_all
  have rest1: "dec_rest (advance d 1) = bs" by (simp add: r)
  consider (single) "unat p \<le> 127" | (short) "127 < unat p" "unat p \<le> 183"
    | (long) "183 < unat p" "unat p \<le> 191" | (list) "191 < unat p" by linarith
  then show ?thesis
  proof cases
    case single
    then show ?thesis using e r by (auto simp: rlp_string_def word_less_nat_alt)
  next
    case short
    define len where "len = unat p - 128"
    have l: "len \<le> length bs" "\<not> (len = 1 \<and> unat (hd bs) \<le> 127)" "x = take len bs" "n = 1 + len" "d' = advance d n"
      using e short by (auto simp: len_def [symmetric] split: if_splits)
    have "p = 0x80 + of_nat len" using short by (simp add: len_def word_unat_eq_iff unat_word_ariths unat_of_nat)
    moreover have "\<not> (length x = 1 \<and> hd x < 128)" using l by (cases bs) (auto simp: word_less_nat_alt)
    moreover have "length x = len" "len < 56" using l short by (simp_all add: len_def)
    ultimately have "rlp_string x = p # x" by (simp add: rlp_string_short)
    then show ?thesis using l r by simp
  next
    case long
    define k where "k = unat p - 183"
    have k: "1 \<le> k" "k \<le> 8" using long by (simp_all add: k_def)
    obtain v m d1 where dl: "decode_length (advance d 1) k = (Inr (v, m), d1)"
      using e long by (cases "decode_length (advance d 1) k") (auto simp: k_def split: sum.splits prod.splits)
    have ds: "d1 = advance d (1 + k)" "k \<le> length bs" "take k bs = be_digits (unat v)" "length (be_digits (unat v)) = k"
      using decode_length_sound [OF wf1 dl k] rest1 by auto
    have wf2: "dec_wf d1" unfolding ds(1) using wf r ds(2) by (intro dec_wf_advance) simp_all
    have r2: "dec_rest d1 = drop k bs" using r by (simp add: ds(1))
    have l: "56 \<le> unat v" "unat v \<le> length (drop k bs)" "x = take (unat v) (drop k bs)"
      "n = 1 + k + unat v" "d' = advance d1 (unat v)"
      using e long dl view_rest [of d1] remaining_rest [OF wf2] r2
      by (auto simp: k_def [symmetric] split: if_splits)
    have lx: "length x = unat v" using l by simp
    have "p = 0x80 + 55 + of_nat k"
      using long by (simp add: k_def word_unat_eq_iff unat_word_ariths unat_of_nat)
    then have "rlp_string x = p # take k bs @ x" using l(1) lx ds by (simp add: rlp_string_def rlp_header_def)
    moreover have "take n (dec_rest d) = p # take k bs @ x" using r l by (simp add: take_add)
    ultimately show ?thesis using l r ds by (simp add: add.assoc)
  next
    case list
    then show ?thesis using e by simp
  qed
qed

section \<open>Integers and addresses\<close>

lemma rlp_decode_u64_number:
  assumes "dec_wf d" "dec_rest d = rlp_string (be_digits (unat v)) @ rest"
  shows "rlp_decode_u64 d = (Inr (v, length (rlp_string (be_digits (unat v)))),
    advance d (length (rlp_string (be_digits (unat v)))))"
proof -
  define bs where "bs = be_digits (unat v)"
  have len: "length bs \<le> 8"
    using be_loop_digits [of v] byte_count(4) [of v] length_be_loop [of "8 - clzll v div 8" v]
    by (cases "v = 0") (auto simp: bs_def)
  have hd: "\<not> (length bs > 1 \<and> bs ! 0 = 0)"
    using no_lead_be_digits [of "unat v"] by (cases bs) (auto simp: bs_def no_lead_def)
  have "limb_of_bytes bs = v" using limb_of_be_digits [of "unat v"] len by (simp add: bs_def)
  then show ?thesis
    using rlp_decode_string [OF assms] len hd unfolding bs_def [symmetric]
    by (auto simp: rlp_decode_u64_def limb_of_bytes_def)
qed

lemma rlp_decode_uint256_number:
  assumes "dec_wf d" "dec_rest d = rlp_string (be_digits (nat (uval v))) @ rest"
  shows "rlp_decode_uint256 d = (Inr (v, length (rlp_string (be_digits (nat (uval v))))),
    advance d (length (rlp_string (be_digits (nat (uval v))))))"
proof -
  define bs where "bs = be_digits (nat (uval v))"
  have val: "be_val bs = uval v" by (simp add: bs_def be_val_be_digits uval_bounds)
  have len: "length bs \<le> 32"
    using no_lead_length_le [of bs "uint256_to_bytes_be v"] no_lead_be_digits val by (simp add: bs_def)
  have hd: "\<not> (length bs > 1 \<and> bs ! 0 = 0)"
    using no_lead_be_digits [of "nat (uval v)"] by (cases bs) (auto simp: bs_def no_lead_def)
  have "uint256_from_bytes_be bs = v"
    using val uval_bounds [of v] by (simp add: uval_from_bytes mod_pos_pos_trivial flip: uval_inject)
  moreover have "bs = [] \<Longrightarrow> v = uint256_zero" using val by (simp flip: uval_inject)
  ultimately show ?thesis
    using rlp_decode_string [OF assms] len hd unfolding bs_def [symmetric]
    by (auto simp: rlp_decode_uint256_def)
qed


section \<open>List headers\<close>

lemma decode_list_header_cons:
  assumes wf: "dec_wf d" and r: "dec_rest d = p # bs"
  shows "rlp_decode_list_header d =
    (if unat p \<le> 191 then (Inl RLP_ERR_INVALID_PREFIX, advance d 1)
     else if unat p \<le> 247 then (Inr (unat p - 192, 1), advance d 1)
     else (case decode_length (advance d 1) (unat p - 247) of
             (Inl e, d) \<Rightarrow> (Inl e, d)
           | (Inr (decoded, _), d) \<Rightarrow>
               if unat decoded < 56 then (Inl RLP_ERR_NON_CANONICAL, d)
               else (Inr (unat decoded, 1 + (unat p - 247)), d)))"
proof -
  have more: "rlp_decoder_has_more d" using has_more_rest [OF wf] r by simp
  show ?thesis
    unfolding rlp_decode_list_header_def read_byte_rest [OF wf r] Let_def prod.case
    using more by (auto simp: word_le_nat_alt split: sum.splits prod.splits)
qed

lemma rlp_decode_header:
  assumes wf: "dec_wf d" and r: "dec_rest d = rlp_header 0xC0 n @ rest" and n: "n < 2 ^ 64"
  shows "rlp_decode_list_header d = (Inr (n, length (rlp_header 0xC0 n)), advance d (length (rlp_header 0xC0 n)))"
proof (cases "n < 56")
  case True
  define p :: u8 where "p = 0xC0 + of_nat n"
  have h: "rlp_header 0xC0 n = [p]" using True by (simp add: rlp_header_def p_def)
  have p: "unat p = 192 + n" using True by (simp add: p_def unat_word_ariths unat_of_nat)
  show ?thesis using decode_list_header_cons [OF wf, of p rest] r h p True by simp
next
  case False
  define k where "k = length (be_digits n)"
  define p :: u8 where "p = 0xC0 + 55 + of_nat k"
  have h: "rlp_header 0xC0 n = p # be_digits n" using False by (simp add: rlp_header_def p_def k_def)
  have k: "1 \<le> k" "k \<le> 8" using length_of_length [of n] False n by (simp_all add: k_def)
  have p: "unat p = 247 + k" using k by (simp add: p_def unat_word_ariths unat_of_nat)
  have wf1: "dec_wf (advance d 1)" using wf r h by (intro dec_wf_advance) simp_all
  have r1: "dec_rest (advance d 1) = be_digits n @ rest" using r h by simp
  have dl: "decode_length (advance d 1) k = (Inr (of_nat n, k), advance d (1 + k))"
  proof -
    have "0 < n" "length (be_digits n) \<le> 8" using False k(2) by (simp_all add: k_def)
    then show ?thesis using decode_length_digits [OF wf1 r1] by (simp add: k_def)
  qed
  have "unat (of_nat n :: u64) = n" using n by (simp add: unat_of_nat)
  then show ?thesis
    using decode_list_header_cons [OF wf, of p "be_digits n @ rest"] r h p k False dl by (simp flip: k_def)
qed

lemma rlp_decode_header_sound:
  assumes wf: "dec_wf d" and res: "rlp_decode_list_header d = (Inr (n, m), d')"
  shows "m \<le> length (dec_rest d) \<and> take m (dec_rest d) = rlp_header 0xC0 n \<and> d' = advance d m"
proof -
  obtain p bs where r: "dec_rest d = p # bs"
    using res has_more_rest [OF wf] by (cases "dec_rest d") (auto simp: rlp_decode_list_header_def)
  note e = res [unfolded decode_list_header_cons [OF wf r]]
  have p256: "unat p < 256" using uint8_bounds(2) [of p] by (simp add: unat_eq_nat_uint nat_less_iff del: nat_uint_eq)
  show ?thesis
  proof (cases "unat p \<le> 247")
    case True
    then have n: "n = unat p - 192" "m = 1" "d' = advance d 1" "191 < unat p" using e by (auto split: if_splits)
    then have "p = 0xC0 + of_nat n" "n < 56"
      using True by (simp_all add: word_unat_eq_iff unat_word_ariths unat_of_nat)
    then show ?thesis using r n(2,3) by (simp add: rlp_header_def)
  next
    case False
    define k where "k = unat p - 247"
    have k: "1 \<le> k" "k \<le> 8" using False p256 by (simp_all add: k_def)
    have wf1: "dec_wf (advance d 1)" using wf r by (intro dec_wf_advance) simp_all
    obtain v j d1 where dl: "decode_length (advance d 1) k = (Inr (v, j), d1)"
      using e False by (cases "decode_length (advance d 1) k") (auto simp: k_def split: sum.splits prod.splits)
    have ds: "d1 = advance d (1 + k)" "k \<le> length bs" "take k bs = be_digits (unat v)" "length (be_digits (unat v)) = k"
      using decode_length_sound [OF wf1 dl k] r by auto
    have l: "56 \<le> unat v" "n = unat v" "m = 1 + k" "d' = d1"
      using e False dl by (auto simp: k_def [symmetric] split: if_splits)
    have "p = 0xC0 + 55 + of_nat k"
      using False p256 by (simp add: k_def word_unat_eq_iff unat_word_ariths unat_of_nat)
    then show ?thesis using l ds r by (simp add: rlp_header_def)
  qed
qed

section \<open>Skipping items\<close>

lemma skip_length_eq:
  "dec_wf d \<Longrightarrow> n \<le> length (dec_rest d) \<Longrightarrow> skip_length n d acc = read_length n d acc"
proof (induction n arbitrary: d acc)
  case (Suc n)
  then obtain b bs where r: "dec_rest d = b # bs" by (cases "dec_rest d") auto
  have "dec_wf (advance d 1)" using Suc.prems r by (intro dec_wf_advance) simp_all
  then show ?case
    using Suc.IH [of "advance d 1"] Suc.prems r read_byte_rest [OF Suc.prems(1) r] pos_rest_less [OF Suc.prems(1)] by simp
qed simp

lemma clamp_advance: "dec_wf d \<Longrightarrow> n \<le> length (dec_rest d) \<Longrightarrow> clamp_pos d n = advance d n"
  by (auto simp: clamp_pos_def dec_wf_def dec_rest_def advance_def Let_def)

lemma skip_header:
  assumes wf: "dec_wf d" and r: "dec_rest d = rlp_header b n @ x @ rest" and n: "length x = n"
    and b: "b = 0x80 \<or> b = 0xC0"
  shows "rlp_skip_item d = advance d (length (rlp_header b n) + n)"
proof -
  have n64: "n < 2 ^ 64" using wf r n by (auto simp: dec_rest_def dec_wf_def dest: arg_cong [where f = length])
  have more: "rlp_decoder_has_more d" using has_more_rest [OF wf] r by (simp add: rlp_header_def)
  show ?thesis
  proof (cases "n < 56")
    case True
    define p where "p = b + of_nat n"
    have h: "rlp_header b n = [p]" using True by (simp add: rlp_header_def p_def)
    have p: "unat p = unat b + n" using True b by (auto simp: p_def unat_word_ariths unat_of_nat)
    have "dec_input d ! dec_pos d = p" using nth_rest [OF wf] r h by simp
    moreover have "clamp_pos d (1 + n) = advance d (1 + n)" using wf r h n by (intro clamp_advance) simp_all
    ultimately show ?thesis
      using more b p h True by (auto simp: rlp_skip_item_def word_le_nat_alt Let_def)
  next
    case False
    define k where "k = length (be_digits n)"
    define p where "p = b + 55 + of_nat k"
    have h: "rlp_header b n = p # be_digits n" using False by (simp add: rlp_header_def p_def k_def)
    have k: "1 \<le> k" "k \<le> 8" using length_of_length [of n] False n64 by (simp_all add: k_def)
    have p: "unat p = unat b + 55 + k" using k b by (auto simp: p_def unat_word_ariths unat_of_nat)
    have at: "dec_input d ! dec_pos d = p" using nth_rest [OF wf] r h by simp
    have wf1: "dec_wf (advance d 1)" using wf r h by (intro dec_wf_advance) simp_all
    have r1: "dec_rest (advance d 1) = be_digits n @ x @ rest" using r h by simp
    have "limb_of_bytes (be_digits n) = of_nat n" using limb_of_be_digits k(2) by (simp add: k_def)
    then have sk: "skip_length k (advance d 1) 0 = (of_nat n, advance d (1 + k))"
      using skip_length_eq [OF wf1, of k 0, unfolded r1] read_length_eq [OF wf1, of k 0, unfolded r1]
      by (simp add: k_def limb_of_bytes_def)
    have wf2: "dec_wf (advance d (1 + k))" using wf r h by (intro dec_wf_advance) (simp_all add: k_def)
    have cl: "clamp_pos (advance d (1 + k)) n = advance d (1 + k + n)"
      using clamp_advance [OF wf2, of n] r h n by (simp add: k_def)
    have u: "unat (of_nat n :: u64) = n" using n64 by (simp add: unat_of_nat)
    have upd: "d\<lparr>dec_pos := dec_pos d + 1\<rparr> = advance d 1" by (simp add: advance_def)
    have "rlp_skip_item d = (let (len, d) = skip_length k (advance d 1) 0 in clamp_pos d (unat len))"
      using more b p k unfolding rlp_skip_item_def at upd by (auto simp: word_le_nat_alt Let_def)
    then show ?thesis using sk cl u h by (simp add: k_def)
  qed
qed

lemma skip_string:
  assumes wf: "dec_wf d" and r: "dec_rest d = rlp_string x @ rest"
  shows "rlp_skip_item d = advance d (length (rlp_string x))"
proof (cases "length x = 1 \<and> hd x < 128")
  case True
  then obtain b where "x = [b]" "b < 128" by (cases x) auto
  moreover have "rlp_decoder_has_more d" "dec_input d ! dec_pos d = b"
    using has_more_rest [OF wf] nth_rest [OF wf] r calculation by (simp_all add: rlp_string_def)
  ultimately show ?thesis by (simp add: rlp_string_def rlp_skip_item_def word_le_nat_alt word_less_nat_alt advance_def)
next
  case False
  then show ?thesis using skip_header [OF wf, of "0x80" "length x" x rest] r by (auto simp: rlp_string_def)
qed


section \<open>The decoder stays inside its input\<close>

lemma decode_length_wf: "dec_wf d \<Longrightarrow> dec_wf (snd (decode_length d n))"
  using read_length_eq [of d n 0] remaining_rest [of d] dec_wf_advance [of d n]
  by (auto simp: decode_length_def split: prod.splits)

lemma decode_bytes_wf:
  assumes wf: "dec_wf d" shows "dec_wf (snd (rlp_decode_bytes d))"
proof (cases "dec_rest d")
  case Nil
  then show ?thesis using has_more_rest [OF wf] wf by (simp add: rlp_decode_bytes_def)
next
  case (Cons p bs)
  have wf1: "dec_wf (advance d 1)" using wf Cons by (intro dec_wf_advance) simp_all
  have short: "dec_wf (advance d (1 + n))" if "n \<le> length bs" for n
    using wf Cons that by (intro dec_wf_advance) simp_all
  obtain r d1 where dl: "decode_length (advance d 1) (unat p - 183) = (r, d1)" by fastforce
  have wfd: "dec_wf d1" using decode_length_wf [OF wf1, of "unat p - 183"] dl by simp
  have long: "dec_wf (advance d1 n)" if "n \<le> remaining d1" for n
    using that wfd remaining_rest [OF wfd] by (intro dec_wf_advance) simp_all
  show ?thesis
    unfolding decode_bytes_cons [OF wf Cons] dl Let_def
    using wf1 short wfd long by (auto simp: not_less split: sum.splits)
qed

lemma decode_value_wf:
  assumes "dec_wf d"
  shows "dec_wf (snd (rlp_decode_u64 d))" "dec_wf (snd (rlp_decode_uint256 d))" "dec_wf (snd (rlp_decode_address d))"
  using decode_bytes_wf [OF assms]
  by (auto simp: rlp_decode_u64_def rlp_decode_uint256_def rlp_decode_address_def split: prod.splits sum.splits)

lemma decode_list_header_wf:
  assumes wf: "dec_wf d" shows "dec_wf (snd (rlp_decode_list_header d))"
proof (cases "dec_rest d")
  case Nil
  then show ?thesis using has_more_rest [OF wf] wf by (simp add: rlp_decode_list_header_def)
next
  case (Cons p bs)
  have wf1: "dec_wf (advance d 1)" using wf Cons by (intro dec_wf_advance) simp_all
  obtain r d1 where dl: "decode_length (advance d 1) (unat p - 247) = (r, d1)" by fastforce
  have "dec_wf d1" using decode_length_wf [OF wf1, of "unat p - 247"] dl by simp
  then show ?thesis unfolding decode_list_header_cons [OF wf Cons] dl using wf1 by (auto split: sum.splits)
qed

lemma skip_length_wf: "dec_wf d \<Longrightarrow> dec_wf (snd (skip_length n d acc))"
proof (induction n arbitrary: d acc)
  case (Suc n)
  have "dec_wf (d\<lparr>dec_pos := Suc (dec_pos d)\<rparr>)" if "dec_pos d < dec_size d"
    using Suc.prems that by (simp add: dec_wf_def)
  then show ?case using Suc by (simp add: read_byte_def)
qed simp

lemma clamp_wf: "dec_wf d \<Longrightarrow> dec_wf (clamp_pos d n)"
  by (auto simp: clamp_pos_def dec_wf_def Let_def)

lemma skip_item_wf:
  assumes "dec_wf d" shows "dec_wf (rlp_skip_item d)"
proof (cases "rlp_decoder_has_more d")
  case True
  then have wf1: "dec_wf (d\<lparr>dec_pos := dec_pos d + 1\<rparr>)"
    using assms by (simp add: dec_wf_def rlp_decoder_has_more_def)
  have "dec_wf (let (len, d) = skip_length n (d\<lparr>dec_pos := dec_pos d + 1\<rparr>) 0 in clamp_pos d (unat len))" for n
    using skip_length_wf [OF wf1, of n 0] by (auto simp: clamp_wf split: prod.splits)
  then show ?thesis using True wf1 clamp_wf [OF assms] unfolding rlp_skip_item_def Let_def by auto
qed (simp add: rlp_skip_item_def assms)


section \<open>Codecs\<close>

text \<open>
  The contract between an encoding and the decoder that reads it: from a decoder whose remaining
  input starts with an encoding, the value comes back and the decoder stands behind it.  What
  follows from it for every pair: encodings are prefix-free, and items read one after the other
  come back in order.
\<close>

locale codec =
  fixes enc :: "'a \<Rightarrow> u8 list" and dec :: "rlp_decoder_t \<Rightarrow> 'a rlp_result" and valid :: "'a \<Rightarrow> bool"
  assumes dec_enc: "dec_wf d \<Longrightarrow> valid x \<Longrightarrow> dec_rest d = enc x @ rest \<Longrightarrow>
    dec d = (Inr (x, length (enc x)), advance d (length (enc x)))"
begin

lemma dec_init: "valid x \<Longrightarrow> length (enc x @ rest) < 2 ^ 64 \<Longrightarrow>
  dec (rlp_decoder_init (enc x @ rest)) = (Inr (x, length (enc x)), advance (rlp_decoder_init (enc x @ rest)) (length (enc x)))"
  by (rule dec_enc) (simp_all add: rlp_decoder_init_def dec_wf_def dec_rest_def)

lemma enc_prefix_free:
  assumes "valid x" "valid y" "length (enc x @ r) < 2 ^ 64" "enc x @ r = enc y @ s"
  shows "x = y \<and> r = s"
proof -
  have "x = y" using dec_init [OF assms(1,3)] dec_init [OF assms(2), of s] assms(3,4) by simp
  then show ?thesis using assms(4) by simp
qed

lemma enc_inj: "valid x \<Longrightarrow> valid y \<Longrightarrow> length (enc x) < 2 ^ 64 \<Longrightarrow> enc x = enc y \<Longrightarrow> x = y"
  using enc_prefix_free [of x y "[]" "[]"] by simp

lemma dec_then:
  assumes "dec_wf d" "valid x" "dec_rest d = enc x @ rest"
  shows "\<exists>d'. dec d = (Inr (x, length (enc x)), d') \<and> dec_wf d' \<and> dec_rest d' = rest \<and>
    dec_pos d' = dec_pos d + length (enc x)"
  using dec_enc [OF assms] dec_wf_advance [OF assms(1), of "length (enc x)"] assms(3) by simp

end

interpretation string_codec: codec rlp_string rlp_decode_bytes "\<lambda>_. True"
  by unfold_locales (rule rlp_decode_string)

interpretation u64_codec: codec "\<lambda>v. rlp_string (be_digits (unat v))" rlp_decode_u64 "\<lambda>_. True"
  by unfold_locales (rule rlp_decode_u64_number)

interpretation uint256_codec: codec "\<lambda>v. rlp_string (be_digits (nat (uval v)))" rlp_decode_uint256 "\<lambda>_. True"
  by unfold_locales (rule rlp_decode_uint256_number)

interpretation address_codec: codec rlp_string rlp_decode_address "\<lambda>a. length a = ADDRESS_SIZE"
  by unfold_locales (simp add: rlp_decode_address_def rlp_decode_string)

interpretation header_codec: codec "rlp_header 0xC0" rlp_decode_list_header "\<lambda>n. n < 2 ^ 64"
  by unfold_locales (rule rlp_decode_header)

section \<open>Properties\<close>

text \<open>
  C24: an encoded byte string, 64-bit number, 256-bit number, address or list header, at the head of
  the remaining input, decodes to itself, and the decoder moves exactly behind it.
\<close>

theorem rlp_roundtrip:
  assumes "dec_wf d" "length a = ADDRESS_SIZE" "n < 2 ^ 64"
  shows "(dec_rest d = rlp_string x @ rest \<longrightarrow>
      rlp_decode_bytes d = (Inr (x, length (rlp_string x)), advance d (length (rlp_string x)))) \<and>
    (dec_rest d = rlp_string (be_digits (unat u)) @ rest \<longrightarrow>
      map_sum id fst (fst (rlp_decode_u64 d)) = Inr u) \<and>
    (dec_rest d = rlp_string (be_digits (nat (uval v))) @ rest \<longrightarrow>
      map_sum id fst (fst (rlp_decode_uint256 d)) = Inr v) \<and>
    (dec_rest d = rlp_string a @ rest \<longrightarrow> map_sum id fst (fst (rlp_decode_address d)) = Inr a) \<and>
    (dec_rest d = rlp_header 0xC0 n @ rest \<longrightarrow>
      rlp_decode_list_header d = (Inr (n, length (rlp_header 0xC0 n)), advance d (length (rlp_header 0xC0 n))))"
  using string_codec.dec_enc [OF assms(1)] u64_codec.dec_enc [OF assms(1)] uint256_codec.dec_enc [OF assms(1)]
    address_codec.dec_enc [OF assms(1,2)] header_codec.dec_enc [OF assms(1,3)] by simp

theorem rlp_roundtrip_witness:
  "rlp_decode_bytes (rlp_decoder_init [0x82, 1, 2]) = (Inr ([1, 2], 3), advance (rlp_decoder_init [0x82, 1, 2]) 3)"
  using rlp_roundtrip [of "rlp_decoder_init [0x82, 1, 2]" "replicate 20 0" 0 "[1, 2]" "[]"]
  by (simp add: dec_wf_def rlp_decoder_init_def ADDRESS_SIZE_def dec_rest_def rlp_string_def rlp_header_def)

text \<open>
  C25: decoding accepts canonical encodings only: whatever a decoder reads as a string or as a list
  header is byte for byte the reference encoding of what it returns.
\<close>

theorem rlp_decode_canonical:
  assumes "dec_wf d"
  shows "(rlp_decode_bytes d = (Inr (x, k), d1) \<longrightarrow> take k (dec_rest d) = rlp_string x \<and> d1 = advance d k) \<and>
    (rlp_decode_list_header d = (Inr (n, m), d2) \<longrightarrow> take m (dec_rest d) = rlp_header 0xC0 n \<and> d2 = advance d m)"
  using rlp_decode_string_sound [OF assms] rlp_decode_header_sound [OF assms] by blast

theorem rlp_decode_canonical_witness:
  "take 3 [0x82, 1, 2 :: u8] = rlp_string [1, 2]"
proof -
  define d where "d = rlp_decoder_init [0x82, 1, 2]"
  have wf: "dec_wf d" by (simp add: d_def dec_wf_def rlp_decoder_init_def)
  have "rlp_decode_bytes d = (Inr ([1, 2], 3), d\<lparr>dec_pos := 3\<rparr>)"
    by (simp add: d_def rlp_decoder_init_def rlp_decode_bytes_def rlp_decoder_has_more_def read_byte_def remaining_def view_def)
  then show ?thesis
    using rlp_decode_canonical [OF wf, of "[1, 2]" 3] by (simp add: d_def dec_rest_def rlp_decoder_init_def)
qed

text \<open>
  No decoding call, successful or not, moves the read position past the end of the input.
\<close>

theorem rlp_decoder_in_bounds:
  assumes "dec_wf d"
  shows "dec_wf (snd (rlp_decode_bytes d)) \<and> dec_wf (snd (rlp_decode_u64 d)) \<and>
    dec_wf (snd (rlp_decode_uint256 d)) \<and> dec_wf (snd (rlp_decode_address d)) \<and>
    dec_wf (snd (rlp_decode_list_header d)) \<and> dec_wf (rlp_skip_item d)"
  using assms by (simp add: decode_bytes_wf decode_value_wf decode_list_header_wf skip_item_wf)

theorem rlp_decoder_in_bounds_witness:
  "dec_wf (snd (rlp_decode_u64 (rlp_decoder_init [0xB9, 1])))"
  using rlp_decoder_in_bounds [of "rlp_decoder_init [0xB9, 1]"] by (simp add: dec_wf_def rlp_decoder_init_def)

text \<open>
  Skipping an encoded string or list moves the decoder exactly behind it.
\<close>

theorem rlp_skip_exact:
  assumes "dec_wf d"
  shows "(dec_rest d = rlp_string x @ rest \<longrightarrow> rlp_skip_item d = advance d (length (rlp_string x))) \<and>
    (dec_rest d = rlp_list y @ rest \<longrightarrow> rlp_skip_item d = advance d (length (rlp_list y)))"
  using skip_string [OF assms] skip_header [OF assms, of "0xC0" "length y" y rest] by (simp add: rlp_list_def)

theorem rlp_skip_exact_witness:
  "rlp_skip_item (rlp_decoder_init [0xC2, 1, 2, 7]) = advance (rlp_decoder_init [0xC2, 1, 2, 7]) 3"
  using rlp_skip_exact [of "rlp_decoder_init [0xC2, 1, 2, 7]" "[]" "[7]" "[1, 2]"]
  by (simp add: dec_wf_def rlp_decoder_init_def dec_rest_def rlp_list_def rlp_header_def)

text \<open>
  On a length that wraps the position around, skipping does not move the decoder at all, so a
  caller that skips while there is input left never finishes.
\<close>

theorem rlp_skip_no_progress:
  "rlp_skip_item (rlp_decoder_init [0xBF, 0xFF, 0xFF, 0xFF, 0xFF, 0xFF, 0xFF, 0xFF, 0xF7]) =
   rlp_decoder_init [0xBF, 0xFF, 0xFF, 0xFF, 0xFF, 0xFF, 0xFF, 0xFF, 0xF7]"
proof -
  define bs :: "u8 list" where "bs = [0xFF, 0xFF, 0xFF, 0xFF, 0xFF, 0xFF, 0xFF, 0xF7]"
  define d where "d = rlp_decoder_init (0xBF # bs)"
  have wf: "dec_wf (advance d 1)" by (simp add: d_def rlp_decoder_init_def dec_wf_def advance_def bs_def)
  have r: "dec_rest (advance d 1) = bs" by (simp add: d_def rlp_decoder_init_def dec_rest_def advance_def)
  have "uint (limb_of_bytes bs) = 2 ^ 64 - 9"
    by (subst uint_limb_of_bytes) (simp_all add: bs_def be_val_def)
  then have len: "unat (limb_of_bytes bs) = 2 ^ 64 - 9" by (simp add: unat_eq_nat_uint del: nat_uint_eq)
  have "skip_length 8 (advance d 1) 0 = (limb_of_bytes bs, advance d 9)"
    using skip_length_eq [OF wf, of 8 0, unfolded r] read_length_eq [OF wf, of 8 0, unfolded r]
    by (simp add: bs_def limb_of_bytes_def)
  then have "rlp_skip_item d = clamp_pos (advance d 9) (2 ^ 64 - 9)"
    using len by (simp add: rlp_skip_item_def rlp_decoder_has_more_def d_def rlp_decoder_init_def
        advance_def word_le_nat_alt del: skip_length.simps)
  then show ?thesis
    by (simp add: clamp_pos_def d_def rlp_decoder_init_def advance_def bs_def)
qed

text \<open>
  The integer decoders accept the single byte zero, which is not the encoding of any number.
\<close>

theorem rlp_u64_accepts_zero_byte:
  "rlp_decode_u64 (rlp_decoder_init [0]) = (Inr (0, 1), (rlp_decoder_init [0])\<lparr>dec_pos := 1\<rparr>) \<and>
   rlp_string (be_digits (unat v)) \<noteq> [0]"
proof -
  have "rlp_string (be_digits (unat v)) \<noteq> [0]"
  proof
    assume h: "rlp_string (be_digits (unat v)) = [0]"
    then have "be_digits (unat v) = [0]" by (auto simp: rlp_string_def rlp_header_def split: if_splits)
    then show False using no_lead_be_digits [of "unat v"] by (simp add: no_lead_def)
  qed
  then show ?thesis
    by (simp add: rlp_decode_u64_def rlp_decode_bytes_def rlp_decoder_init_def rlp_decoder_has_more_def
        read_byte_def view_def)
qed

end
