(* ===== verification/Nibbles.thy ===== *)
theory Nibbles
  imports Rlp_Encode
begin

text \<open>
  Nibble sequences and their hex-prefix encoding: \<open>src/trie/nibbles.c\<close>,
  \<open>include/div0/trie/nibbles.h\<close> and \<open>src/trie/hex_prefix.c\<close>.  A sequence is the list of its
  \<open>len\<close> elements; \<open>NIBBLES_EMPTY\<close> is the empty list.  Sequences live in an arena, the parameter
  \<open>alloc\<close> of \<open>Bytes\<close>; an operation whose allocation fails returns the empty sequence, as the code
  does.
\<close>

unbundle bit_operations_syntax

section \<open>Sequences\<close>

type_synonym nibbles_t = "u8 list"

definition NIBBLES_EMPTY :: nibbles_t where [simp]: "NIBBLES_EMPTY = []"

definition nibbles_from_bytes :: "allocator \<Rightarrow> u8 list \<Rightarrow> nibbles_t" where
  "nibbles_from_bytes alloc bytes =
     (if length bytes = 0 then NIBBLES_EMPTY
      else case alloc (length bytes * 2) of
             None \<Rightarrow> NIBBLES_EMPTY
           | Some _ \<Rightarrow> concat (map (\<lambda>b. [drop_bit 4 b AND 0x0F, b AND 0x0F]) bytes))"

text \<open>The output buffer may be null.\<close>

definition nibbles_to_bytes :: "nibbles_t \<Rightarrow> u8 list option \<Rightarrow> u8 list option" where
  "nibbles_to_bytes nibbles out =
     (if length nibbles = 0 then out
      else let byte_len = length nibbles div 2
           in map_option (\<lambda>buf. memcpy_at buf 0
                (map (\<lambda>i. push_bit 4 (nibbles ! (i * 2)) OR nibbles ! (i * 2 + 1)) [0..<byte_len])) out)"

definition nibbles_to_bytes_alloc :: "allocator \<Rightarrow> nibbles_t \<Rightarrow> u8 list option" where
  "nibbles_to_bytes_alloc alloc nibbles =
     (if length nibbles = 0 then None
      else case alloc (length nibbles div 2) of
             None \<Rightarrow> None
           | Some out \<Rightarrow> nibbles_to_bytes nibbles (Some out))"

function prefix_loop :: "nibbles_t \<Rightarrow> nibbles_t \<Rightarrow> nat \<Rightarrow> nat \<Rightarrow> nat" where
  "prefix_loop a b min_len i =
     (if i < min_len \<and> a ! i = b ! i then prefix_loop a b min_len (i + 1) else i)"
  by pat_completeness auto

termination prefix_loop
  by (relation "measure (\<lambda>(_, _, min_len, i). min_len - i)") auto

definition nibbles_common_prefix :: "nibbles_t \<Rightarrow> nibbles_t \<Rightarrow> nat" where
  "nibbles_common_prefix a b =
     (let min_len = (if length a < length b then length a else length b) in prefix_loop a b min_len 0)"

text \<open>
  The argument \<open>len\<close> is an option: \<open>None\<close> is \<open>SIZE_MAX\<close>, "to the end".  With no arena the result is
  a view of the source, with the same elements; \<open>arena\<close> is \<open>None\<close> then.
\<close>

definition nibbles_slice :: "nibbles_t \<Rightarrow> nat \<Rightarrow> nat option \<Rightarrow> allocator option \<Rightarrow> nibbles_t" where
  "nibbles_slice src start len arena =
     (if length src = 0 \<or> start \<ge> length src then NIBBLES_EMPTY
      else
        let remaining = length src - start;
            len = (case len of None \<Rightarrow> remaining | Some l \<Rightarrow> if l > remaining then remaining else l)
        in if len = 0 then NIBBLES_EMPTY
           else case arena of
                  None \<Rightarrow> take len (drop start src)
                | Some alloc \<Rightarrow>
                    (case alloc len of
                       None \<Rightarrow> NIBBLES_EMPTY
                     | Some _ \<Rightarrow> take len (drop start src)))"

definition nibbles_copy :: "allocator \<Rightarrow> nibbles_t \<Rightarrow> nibbles_t" where
  "nibbles_copy alloc src =
     (if length src = 0 then NIBBLES_EMPTY
      else case alloc (length src) of None \<Rightarrow> NIBBLES_EMPTY | Some _ \<Rightarrow> src)"

function cmp_loop :: "nibbles_t \<Rightarrow> nibbles_t \<Rightarrow> nat \<Rightarrow> nat \<Rightarrow> int" where
  "cmp_loop a b min_len i =
     (if i < min_len
      then (if a ! i < b ! i then -1
            else if a ! i > b ! i then 1
            else cmp_loop a b min_len (i + 1))
      else if length a < length b then -1
      else if length a > length b then 1
      else 0)"
  by pat_completeness auto

termination cmp_loop
  by (relation "measure (\<lambda>(_, _, min_len, i). min_len - i)") auto

definition nibbles_cmp :: "nibbles_t \<Rightarrow> nibbles_t \<Rightarrow> int" where
  "nibbles_cmp a b =
     (let min_len = (if length a < length b then length a else length b) in cmp_loop a b min_len 0)"

definition nibbles_equal :: "nibbles_t \<Rightarrow> nibbles_t \<Rightarrow> bool" where
  "nibbles_equal a b \<longleftrightarrow> nibbles_cmp a b = 0"

definition nibbles_is_empty :: "nibbles_t \<Rightarrow> bool" where
  "nibbles_is_empty n \<longleftrightarrow> length n = 0"

definition nibbles_concat :: "allocator \<Rightarrow> nibbles_t \<Rightarrow> nibbles_t \<Rightarrow> nibbles_t" where
  "nibbles_concat alloc a b =
     (if length a = 0 then nibbles_copy alloc b
      else if length b = 0 then nibbles_copy alloc a
      else case alloc (length a + length b) of None \<Rightarrow> NIBBLES_EMPTY | Some _ \<Rightarrow> a @ b)"

definition nibbles_concat3 :: "allocator \<Rightarrow> nibbles_t \<Rightarrow> u8 \<Rightarrow> nibbles_t \<Rightarrow> nibbles_t" where
  "nibbles_concat3 alloc prefix middle suffix =
     (case alloc (length prefix + 1 + length suffix) of
        None \<Rightarrow> NIBBLES_EMPTY
      | Some _ \<Rightarrow> prefix @ [middle] @ suffix)"

definition nibbles_get :: "nibbles_t \<Rightarrow> nat \<Rightarrow> u8" where
  "nibbles_get n index = n ! index"


section \<open>Hex-prefix encoding\<close>

definition HP_FLAG_ODD :: u8 where [simp]: "HP_FLAG_ODD = 0x01"
definition HP_FLAG_LEAF :: u8 where [simp]: "HP_FLAG_LEAF = 0x02"

text \<open>The loop that packs two nibbles into one byte.\<close>

fun nibble_pairs :: "nibbles_t \<Rightarrow> u8 list" where
  "nibble_pairs (a # b # rest) = (push_bit 4 a OR b) # nibble_pairs rest"
| "nibble_pairs _ = []"

definition hex_prefix_encode :: "allocator \<Rightarrow> nibbles_t \<Rightarrow> bool \<Rightarrow> bytes_t option" where
  "hex_prefix_encode alloc nibbles is_leaf =
     (let is_odd = (length nibbles mod 2 = 1);
          encoded_len = 1 + (length nibbles + 1) div 2
      in do {
        (ok, result) \<leftarrow> bytes_reserve alloc bytes_init_arena encoded_len;
        if \<not> ok then Some result
        else do {
          let flags = (if is_leaf then HP_FLAG_LEAF else 0) OR (if is_odd then HP_FLAG_ODD else 0);
          if is_odd
          then do {
            (_, result) \<leftarrow> bytes_append_byte alloc result (push_bit 4 flags OR nibbles ! 0);
            append_bytes alloc result (nibble_pairs (drop 1 nibbles))
          }
          else do {
            (_, result) \<leftarrow> bytes_append_byte alloc result (push_bit 4 flags);
            append_bytes alloc result (nibble_pairs nibbles)
          }
        }
      })"

record hex_prefix_result_t =
  hp_nibbles :: nibbles_t
  hp_is_leaf :: bool
  hp_success :: bool

definition hex_prefix_decode :: "allocator \<Rightarrow> u8 list \<Rightarrow> hex_prefix_result_t" where
  "hex_prefix_decode alloc data =
     (let result = \<lparr>hp_nibbles = NIBBLES_EMPTY, hp_is_leaf = False, hp_success = False\<rparr>
      in if length data = 0 then result
         else
           let first_byte = data ! 0;
               flags = drop_bit 4 first_byte AND 0x03;
               result = result\<lparr>hp_is_leaf := (flags AND HP_FLAG_LEAF \<noteq> 0)\<rparr>;
               is_odd = (flags AND HP_FLAG_ODD \<noteq> 0);
               nibble_count = (if is_odd then 1 + (length data - 1) * 2 else (length data - 1) * 2)
           in if nibble_count = 0 then result\<lparr>hp_nibbles := NIBBLES_EMPTY, hp_success := True\<rparr>
              else case alloc nibble_count of
                     None \<Rightarrow> result
                   | Some _ \<Rightarrow> result\<lparr>hp_nibbles :=
                       (if is_odd then [first_byte AND 0x0F] else []) @
                       concat (map (\<lambda>b. [drop_bit 4 b AND 0x0F, b AND 0x0F]) (drop 1 data)),
                       hp_success := True\<rparr>)"


section \<open>Packing and unpacking\<close>

lemma split_nibbles:
  fixes a b :: u8
  assumes "a < 16" "b < 16"
  shows "drop_bit 4 (push_bit 4 a OR b) AND 0x0F = a" "(push_bit 4 a OR b) AND 0x0F = b"
proof -
  have ab: "take_bit 4 a = a" "take_bit 4 b = b"
    using assms by (simp_all add: word_uint_eq_iff word_less_alt unsigned_take_bit_eq take_bit_eq_mod uint_mod_distrib mod_pos_pos_trivial)
  then have n: "bit a n \<Longrightarrow> n < 4" "bit b n \<Longrightarrow> n < 4" for n by (metis bit_take_bit_iff)+
  have m: "(0x0F :: u8) = mask 4" by (simp add: mask_eq_exp_minus_1)
  have l: "n < 8" if "bit a n" for n using n(1) [OF that] by simp
  show "drop_bit 4 (push_bit 4 a OR b) AND 0x0F = a" "(push_bit 4 a OR b) AND 0x0F = b"
    unfolding m by (rule bit_eqI; auto simp: bit_simps dest: n l)+
qed

definition nibble_seq :: "nibbles_t \<Rightarrow> bool" where
  "nibble_seq ns \<longleftrightarrow> (\<forall>n\<in>set ns. n < 16)"

lemma nibble_seq_simps [simp]:
  "nibble_seq []" "nibble_seq (n # ns) \<longleftrightarrow> n < 16 \<and> nibble_seq ns"
  "nibble_seq (xs @ ys) \<longleftrightarrow> nibble_seq xs \<and> nibble_seq ys"
  by (auto simp: nibble_seq_def)

lemma nibble_seq_parts: "nibble_seq ns \<Longrightarrow> nibble_seq (take k ns)" "nibble_seq ns \<Longrightarrow> nibble_seq (drop k ns)"
  "nibble_seq ns \<Longrightarrow> k < length ns \<Longrightarrow> ns ! k < 16"
  by (auto simp: nibble_seq_def dest: in_set_takeD in_set_dropD)

lemma nibble_seq_of: "nibble_seq (nibbles_of bs)"
  by (auto simp: nibble_seq_def nibbles_small)

lemma nibbles_of_Cons: "nibbles_of (b # bs) = (drop_bit 4 b AND 0x0F) # (b AND 0x0F) # nibbles_of bs"
  by (simp add: nibbles_of_def)

lemma length_nibbles_of [simp]: "length (nibbles_of bs) = 2 * length bs"
  by (induction bs) (simp_all add: nibbles_of_Cons, simp add: nibbles_of_def)

lemma nibble_pairs_of [simp]: "nibble_pairs (nibbles_of bs) = bs"
  by (induction bs) (simp add: nibbles_of_def, simp only: nibbles_of_Cons nibble_pairs.simps join_nibbles)

lemma nibbles_of_pairs: "nibble_seq ns \<Longrightarrow> even (length ns) \<Longrightarrow> nibbles_of (nibble_pairs ns) = ns"
proof (induction ns rule: nibble_pairs.induct)
  case (1 a b rest)
  then have "nibbles_of (nibble_pairs rest) = rest" "a < 16" "b < 16" by simp_all
  then show ?case by (simp only: nibble_pairs.simps nibbles_of_Cons split_nibbles)
qed (simp_all add: nibbles_of_def)

lemma length_nibble_pairs: "length (nibble_pairs ns) = length ns div 2"
  by (induction ns rule: nibble_pairs.induct) simp_all

lemma nibbles_of_inj: "nibbles_of a = nibbles_of b \<longleftrightarrow> a = b"
  by (metis nibble_pairs_of)

lemma alloc_totalD: "alloc_total alloc \<Longrightarrow> \<exists>buf. alloc n = Some buf \<and> length buf = n"
  unfolding alloc_total_def alloc_sound_def by (metis not_None_eq)

lemma from_bytes_eq: "alloc_total alloc \<Longrightarrow> nibbles_from_bytes alloc bs = nibbles_of bs"
  using alloc_totalD [of alloc "length bs * 2"]
  by (auto simp: nibbles_from_bytes_def nibbles_of_def)

lemma pair_index: "i < length ns div 2 \<Longrightarrow> nibble_pairs ns ! i = push_bit 4 (ns ! (i * 2)) OR ns ! (i * 2 + 1)"
  by (induction ns arbitrary: i rule: nibble_pairs.induct) (auto simp: nth_Cons split: nat.splits)

lemma to_bytes_alloc_eq:
  assumes "alloc_total alloc" "ns \<noteq> []"
  shows "nibbles_to_bytes_alloc alloc ns = Some (nibble_pairs ns)"
proof -
  obtain buf where buf: "alloc (length ns div 2) = Some buf" "length buf = length ns div 2"
    using alloc_totalD [OF assms(1)] by blast
  have "map (\<lambda>i. push_bit 4 (ns ! (i * 2)) OR ns ! (i * 2 + 1)) [0..<length ns div 2] = nibble_pairs ns"
    by (rule nth_equalityI) (simp_all add: length_nibble_pairs pair_index)
  then show ?thesis
    using buf assms(2) length_nibble_pairs [of ns] unfolding nibbles_to_bytes_alloc_def nibbles_to_bytes_def Let_def
    by (simp add: memcpy_at_def del: One_nat_def)
qed

lemma slice_eq:
  assumes "alloc_total alloc"
  shows "nibbles_slice ns k None (Some alloc) = drop k ns" "nibbles_slice ns k (Some l) (Some alloc) = take l (drop k ns)"
  using alloc_totalD [OF assms, of "length ns - k"] alloc_totalD [OF assms, of l]
  by (auto simp: nibbles_slice_def Let_def)

lemma concat_eq:
  assumes "alloc_total alloc"
  shows "nibbles_concat alloc a b = a @ b" "nibbles_concat3 alloc a n b = a @ n # b" "nibbles_copy alloc a = a"
proof -
  have c: "nibbles_copy alloc x = x" for x
    using alloc_totalD [OF assms, of "length x"] by (auto simp: nibbles_copy_def)
  then show "nibbles_copy alloc a = a" .
  show "nibbles_concat alloc a b = a @ b"
    using c alloc_totalD [OF assms, of "length a + length b"] by (auto simp: nibbles_concat_def)
  show "nibbles_concat3 alloc a n b = a @ n # b"
    using alloc_totalD [OF assms, of "length a + 1 + length b"] by (auto simp: nibbles_concat3_def)
qed


section \<open>Comparing\<close>

text \<open>The length of the longest common prefix, on the lists.\<close>

fun lcp :: "'a list \<Rightarrow> 'a list \<Rightarrow> nat" where
  "lcp (a # as) (b # bs) = (if a = b then Suc (lcp as bs) else 0)"
| "lcp _ _ = 0"

declare prefix_loop.simps [simp del] cmp_loop.simps [simp del]

lemma lcp_le: "lcp a b \<le> length a" "lcp a b \<le> length b"
  by (induction a b rule: lcp.induct) simp_all

lemma lcp_take: "take (lcp a b) a = take (lcp a b) b"
  by (induction a b rule: lcp.induct) simp_all

lemma lcp_diff: "lcp a b < length a \<Longrightarrow> lcp a b < length b \<Longrightarrow> a ! lcp a b \<noteq> b ! lcp a b"
  by (induction a b rule: lcp.induct) (auto split: if_splits)

lemma lcp_full: "lcp p k = length p \<longleftrightarrow> (\<exists>r. k = p @ r)"
  by (induction p k rule: lcp.induct) auto

lemma prefix_loop_eq: "i \<le> length a \<Longrightarrow> i \<le> length b \<Longrightarrow>
  prefix_loop a b (min (length a) (length b)) i = i + lcp (drop i a) (drop i b)"
proof (induction "length a - i" arbitrary: i)
  case 0
  then show ?case by (simp add: prefix_loop.simps)
next
  case (Suc n)
  show ?case
  proof (cases "i < length b")
    case True
    have "i < length a" using Suc.hyps(2) by simp
    with True have "drop i a = a ! i # drop (Suc i) a" "drop i b = b ! i # drop (Suc i) b"
      using Suc.hyps(2) by (simp_all add: Cons_nth_drop_Suc)
    then show ?thesis using True \<open>i < length a\<close> Suc.hyps by (subst prefix_loop.simps) simp
  next
    case False
    then show ?thesis using Suc by (subst prefix_loop.simps) simp
  qed
qed

lemma common_prefix_eq: "nibbles_common_prefix a b = lcp a b"
  using prefix_loop_eq [of 0 a b] by (simp add: nibbles_common_prefix_def min_def not_less split: if_splits)

text \<open>Lexicographic comparison.\<close>

fun lex_cmp :: "nibbles_t \<Rightarrow> nibbles_t \<Rightarrow> int" where
  "lex_cmp (a # as) (b # bs) = (if a < b then -1 else if a > b then 1 else lex_cmp as bs)"
| "lex_cmp [] (b # bs) = -1"
| "lex_cmp (a # as) [] = 1"
| "lex_cmp [] [] = 0"

lemma cmp_loop_eq: "i \<le> length a \<Longrightarrow> i \<le> length b \<Longrightarrow>
  cmp_loop a b (min (length a) (length b)) i = lex_cmp (drop i a) (drop i b)"
proof (induction "length a - i" arbitrary: i)
  case 0
  then show ?case by (cases "drop i b") (auto simp: cmp_loop.simps)
next
  case (Suc n)
  have i: "i < length a" using Suc.hyps(2) by simp
  have a: "drop i a = a ! i # drop (Suc i) a" using Suc.hyps(2) by (simp add: Cons_nth_drop_Suc)
  show ?case
  proof (cases "i < length b")
    case True
    then have "drop i b = b ! i # drop (Suc i) b" by (simp add: Cons_nth_drop_Suc)
    then show ?thesis using a i True Suc.hyps by (subst cmp_loop.simps) simp
  next
    case False
    then show ?thesis using a Suc by (subst cmp_loop.simps) simp
  qed
qed

lemma lex_cmp_less: "lex_cmp a b = -1 \<longleftrightarrow> (a, b) \<in> lexord {(x, y). x < y}"
  by (induction a b rule: lex_cmp.induct) auto

lemma lex_cmp_equal: "lex_cmp a b = 0 \<longleftrightarrow> a = b"
  by (induction a b rule: lex_cmp.induct) auto

lemma lex_cmp_greater: "lex_cmp a b = 1 \<longleftrightarrow> (b, a) \<in> lexord {(x, y). x < y}"
  by (induction a b rule: lex_cmp.induct) auto

lemma cmp_eq: "nibbles_cmp a b = lex_cmp a b"
  using cmp_loop_eq [of 0 a b] by (simp add: nibbles_cmp_def min_def not_less split: if_splits)


section \<open>The hex-prefix encoding\<close>

text \<open>The reference: the flag nibble, a zero nibble where the length is even, the nibbles.\<close>

definition hex_prefix :: "nibbles_t \<Rightarrow> bool \<Rightarrow> u8 list" where
  "hex_prefix ns leaf =
     nibble_pairs ((if odd (length ns) then [if leaf then 3 else 1] else [if leaf then 2 else 0, 0]) @ ns)"

lemma length_hex_prefix: "length (hex_prefix ns leaf) = length ns div 2 + 1"
  by (simp add: hex_prefix_def length_nibble_pairs)

lemma append_bytes_returns: "arena_buf n xs b \<Longrightarrow> length xs + length ds \<le> n \<Longrightarrow> ys = xs @ ds \<Longrightarrow>
    returns ys (append_bytes alloc b ds)"
  using append_bytes_fits [of n xs b ds alloc] by (auto simp: returns_def arena_buf_def)

lemma hex_prefix_encode_returns:
  assumes "alloc_total alloc" "length ns < 2 ^ 63"
  shows "returns (hex_prefix ns leaf) (hex_prefix_encode alloc ns leaf)"
proof (cases "odd (length ns)")
  case True
  then obtain x xs where ns: "ns = x # xs" "even (length xs)" by (cases ns) auto
  have "(length ns mod 2 = 1) = True" using True by presburger
  moreover have "hex_prefix ns leaf = (push_bit 4 ((if leaf then HP_FLAG_LEAF else 0) OR HP_FLAG_ODD) OR x) # nibble_pairs xs"
    using ns by (simp add: hex_prefix_def)
  ultimately show ?thesis
    unfolding hex_prefix_encode_def Let_def
    using assms ns by (auto intro!: reserve_bind append_byte_bind append_bytes_returns simp: length_nibble_pairs simp del: HP_FLAG_LEAF_def HP_FLAG_ODD_def)
next
  case False
  have "(length ns mod 2 = 1) = False" using False by presburger
  moreover have "hex_prefix ns leaf = push_bit 4 ((if leaf then HP_FLAG_LEAF else 0) OR 0) # nibble_pairs ns"
    using False by (simp add: hex_prefix_def)
  ultimately show ?thesis
    unfolding hex_prefix_encode_def Let_def
    using assms by (auto intro!: reserve_bind append_byte_bind append_bytes_returns simp: length_nibble_pairs simp del: HP_FLAG_LEAF_def HP_FLAG_ODD_def)
qed

lemma flag_bits:
  fixes f x :: u8
  assumes "f < 16" "x < 16"
  shows "drop_bit 4 (push_bit 4 f OR x) AND 3 = f AND 3"
proof -
  have "drop_bit 4 (push_bit 4 f OR x) AND 3 = (drop_bit 4 (push_bit 4 f OR x) AND 0x0F) AND 3"
    by (simp add: and.assoc)
  then show ?thesis using split_nibbles(1) [OF assms] by simp
qed

lemma hex_prefix_decode_prefix:
  assumes "alloc_total alloc" "nibble_seq ns"
  shows "hex_prefix_decode alloc (hex_prefix ns leaf) = \<lparr>hp_nibbles = ns, hp_is_leaf = leaf, hp_success = True\<rparr>"
proof (cases "odd (length ns)")
  case True
  then obtain x xs where ns: "ns = x # xs" "even (length xs)" by (cases ns) auto
  define f :: u8 where "f = (if leaf then 3 else 1)"
  have x: "x < 16" "nibble_seq xs" "f < 16" using assms(2) ns by (simp_all add: f_def)
  define X where "X = push_bit 4 f OR x"
  have e: "hex_prefix ns leaf = X # nibble_pairs xs" using ns by (simp add: hex_prefix_def f_def X_def)
  have X: "drop_bit 4 X AND 3 = f" "X AND 0x0F = x"
    using flag_bits [OF x(3,1)] split_nibbles(2) [OF x(3,1)] by (simp_all add: X_def f_def)
  have "concat (map (\<lambda>b. [drop_bit 4 b AND 0x0F, b AND 0x0F]) (nibble_pairs xs)) = xs"
    using nibbles_of_pairs [OF x(2) ns(2)] by (simp add: nibbles_of_def)
  moreover have "(f AND HP_FLAG_LEAF \<noteq> 0) = leaf" "(f AND HP_FLAG_ODD \<noteq> 0) = True" by (simp_all add: f_def)
  ultimately show ?thesis using alloc_totalD [OF assms(1), of "1 + length (nibble_pairs xs) * 2"]
    unfolding hex_prefix_decode_def Let_def e by (auto simp: X ns)
next
  case False
  define f :: u8 where "f = (if leaf then 2 else 0)"
  have f: "f < 16" by (simp add: f_def)
  define X where "X = push_bit 4 f OR 0"
  have e: "hex_prefix ns leaf = X # nibble_pairs ns" using False by (simp add: hex_prefix_def f_def X_def)
  have X: "drop_bit 4 X AND 3 = f" using flag_bits [OF f, of 0] by (simp add: X_def f_def)
  have "concat (map (\<lambda>b. [drop_bit 4 b AND 0x0F, b AND 0x0F]) (nibble_pairs ns)) = ns"
    using nibbles_of_pairs [OF assms(2)] False by (simp add: nibbles_of_def)
  moreover have "(f AND HP_FLAG_LEAF \<noteq> 0) = leaf" "(f AND HP_FLAG_ODD \<noteq> 0) = False" by (simp_all add: f_def)
  moreover have "nibble_pairs ns = [] \<longleftrightarrow> ns = []"
    using False by (cases ns rule: nibble_pairs.cases) auto
  ultimately show ?thesis using alloc_totalD [OF assms(1), of "length (nibble_pairs ns) * 2"]
    unfolding hex_prefix_decode_def Let_def e by (auto simp: X)
qed


section \<open>Properties\<close>

text \<open>
  The conversions between bytes and nibbles are inverse to each other, on any bytes and on any
  even number of nibbles; slicing and concatenation are those of lists; the common prefix is the
  longest one; and the comparison is lexicographic.
\<close>

theorem nibbles_correct:
  assumes "alloc_total alloc"
  shows "(bs \<noteq> [] \<longrightarrow> nibbles_to_bytes_alloc alloc (nibbles_from_bytes alloc bs) = Some bs) \<and>
    (nibble_seq ns \<and> even (length ns) \<and> ns \<noteq> [] \<longrightarrow>
      nibbles_from_bytes alloc (the (nibbles_to_bytes_alloc alloc ns)) = ns) \<and>
    nibbles_slice ns k None (Some alloc) = drop k ns \<and>
    nibbles_slice ns k (Some l) (Some alloc) = take l (drop k ns) \<and>
    nibbles_concat alloc ns ms = ns @ ms \<and> nibbles_concat3 alloc ns m ms = ns @ m # ms \<and>
    take (nibbles_common_prefix ns ms) ns = take (nibbles_common_prefix ns ms) ms \<and>
    (nibbles_common_prefix ns ms < min (length ns) (length ms) \<longrightarrow>
      ns ! nibbles_common_prefix ns ms \<noteq> ms ! nibbles_common_prefix ns ms) \<and>
    nibbles_cmp ns ms = (if ns = ms then 0 else if (ns, ms) \<in> lexord {(x, y). x < y} then -1 else 1) \<and>
    (nibbles_equal ns ms \<longleftrightarrow> ns = ms)"
proof -
  have "lex_cmp ns ms = (if ns = ms then 0 else if (ns, ms) \<in> lexord {(x, y). x < y} then -1 else 1)"
    by (induction ns ms rule: lex_cmp.induct) auto
  moreover have "bs \<noteq> [] \<longrightarrow> nibbles_to_bytes_alloc alloc (nibbles_from_bytes alloc bs) = Some bs"
    using to_bytes_alloc_eq [OF assms, of "nibbles_of bs"] nibble_pairs_of [of bs]
    by (cases bs) (simp_all add: from_bytes_eq [OF assms] nibbles_of_Cons)
  moreover have "nibbles_equal ns ms \<longleftrightarrow> ns = ms" by (simp add: nibbles_equal_def cmp_eq lex_cmp_equal)
  ultimately show ?thesis
    using assms lcp_take [of ns ms] lcp_diff [of ns ms]
    by (simp add: slice_eq concat_eq from_bytes_eq to_bytes_alloc_eq nibbles_of_pairs common_prefix_eq cmp_eq)
qed

theorem nibbles_correct_witness:
  "nibbles_to_bytes_alloc (\<lambda>n. Some (replicate n 0))
     (nibbles_from_bytes (\<lambda>n. Some (replicate n 0)) [0xAB, 0x0C]) = Some [0xAB, 0x0C] \<and>
   nibbles_common_prefix [1, 2, 3] [1, 2, 4, 5] = 2"
  using nibbles_correct [of "\<lambda>n. Some (replicate n 0)" "[0xAB, 0x0C]"]
  by (simp add: alloc_total_def alloc_sound_def common_prefix_eq)



end
