(* ===== verification/Mpt_Node.thy ===== *)
theory Mpt_Node
  imports Nibbles
begin

text \<open>
  Nodes of the Merkle Patricia Trie: \<open>include/div0/trie/node.h\<close> and \<open>src/trie/node.c\<close>.  A node
  pointer is an option (\<open>None\<close> is null) and a node that is pointed to is part of the term: no node
  has two parents.  The hash function of \<open>crypto/keccak256.h\<close>, a library, is the parameter
  \<open>keccak\<close>.  A value is a buffer of \<open>Bytes\<close>; a null data pointer stands for "no value".
\<close>

unbundle bit_operations_syntax

section \<open>Nodes and references\<close>

text \<open>The union of an embedded encoding and a hash, with its flag \<open>is_hash\<close>.\<close>

datatype ref_union = Embedded bytes_t | Hash hash_t

datatype 'n node_ref_t = Node_ref (ref_union: ref_union) (ref_node: "'n option")

datatype 'n mpt_body =
    MPT_NODE_EMPTY
  | MPT_NODE_LEAF (leaf_path: nibbles_t) (leaf_value: bytes_t)
  | MPT_NODE_EXTENSION (extension_path: nibbles_t) (extension_child: "'n node_ref_t")
  | MPT_NODE_BRANCH (branch_children: "'n node_ref_t list") (branch_value: bytes_t)

datatype mpt_node_t =
  Mpt_node (cached_hash: hash_t) (hash_valid: bool) (node_body: "mpt_node_t mpt_body")

type_synonym hash_fun = "u8 list \<Rightarrow> hash_t"

text \<open>A buffer with null data.\<close>

definition no_value :: bytes_t where
  "no_value = \<lparr>bytes_data = None, bytes_size = 0, bytes_capacity = 0, bytes_arena = False\<rparr>"

definition MPT_EMPTY_ROOT :: hash_t where
  "MPT_EMPTY_ROOT =
     [0x56, 0xe8, 0x1f, 0x17, 0x1b, 0xcc, 0x55, 0xa6,
      0xff, 0x83, 0x45, 0xe6, 0x92, 0xc0, 0xf8, 0x6e,
      0x5b, 0x48, 0xe0, 0x1b, 0x99, 0x6c, 0xad, 0xc0,
      0x01, 0x62, 0x2f, 0xb5, 0xe3, 0x63, 0xb4, 0x21]"

text \<open>Eight bytes read as a little-endian word, as \<open>memcpy\<close> into a limb does.\<close>

definition load_le64 :: "u8 list \<Rightarrow> u64" where
  "load_le64 bs = foldr (\<lambda>b acc. push_bit 8 acc OR u8_to_u64 b) bs 0"

definition hash_is_zero :: "hash_t \<Rightarrow> bool" where
  "hash_is_zero h \<longleftrightarrow>
     (load_le64 (take 8 h) OR load_le64 (take 8 (drop 8 h)) OR
      load_le64 (take 8 (drop 16 h)) OR load_le64 (take 8 (drop 24 h))) = 0"

definition node_ref_is_null :: "'n node_ref_t \<Rightarrow> bool" where
  "node_ref_is_null ref =
     (if ref_node ref \<noteq> None then False
      else case ref_union ref of
             Hash h \<Rightarrow> hash_is_zero h
           | Embedded b \<Rightarrow> bytes_is_empty b)"

definition node_ref_null :: "'n node_ref_t" where
  "node_ref_null = Node_ref (Embedded no_value) None"

definition mpt_node_empty :: mpt_node_t where
  "mpt_node_empty = Mpt_node MPT_EMPTY_ROOT True MPT_NODE_EMPTY"

definition mpt_node_leaf :: "nibbles_t \<Rightarrow> bytes_t \<Rightarrow> mpt_node_t" where
  "mpt_node_leaf path value = Mpt_node hash_zero False (MPT_NODE_LEAF path value)"

definition mpt_node_extension :: "nibbles_t \<Rightarrow> mpt_node_t node_ref_t \<Rightarrow> mpt_node_t" where
  "mpt_node_extension path child = Mpt_node hash_zero False (MPT_NODE_EXTENSION path child)"

definition mpt_node_branch :: mpt_node_t where
  "mpt_node_branch = Mpt_node hash_zero False (MPT_NODE_BRANCH (replicate 16 node_ref_null) no_value)"

definition mpt_node_is_leaf :: "mpt_node_t \<Rightarrow> bool" where
  "mpt_node_is_leaf node = (case node_body node of MPT_NODE_LEAF _ _ \<Rightarrow> True | _ \<Rightarrow> False)"

definition mpt_node_is_extension :: "mpt_node_t \<Rightarrow> bool" where
  "mpt_node_is_extension node = (case node_body node of MPT_NODE_EXTENSION _ _ \<Rightarrow> True | _ \<Rightarrow> False)"

definition mpt_node_is_branch :: "mpt_node_t \<Rightarrow> bool" where
  "mpt_node_is_branch node = (case node_body node of MPT_NODE_BRANCH _ _ \<Rightarrow> True | _ \<Rightarrow> False)"

definition mpt_node_is_empty :: "mpt_node_t \<Rightarrow> bool" where
  "mpt_node_is_empty node = (case node_body node of MPT_NODE_EMPTY \<Rightarrow> True | _ \<Rightarrow> False)"

definition mpt_node_invalidate_hash :: "mpt_node_t \<Rightarrow> mpt_node_t" where
  "mpt_node_invalidate_hash node = Mpt_node (cached_hash node) False (node_body node)"


section \<open>Encoding\<close>

definition encode_node_ref :: "allocator \<Rightarrow> 'n node_ref_t \<Rightarrow> bytes_t option" where
  "encode_node_ref alloc ref =
     (if node_ref_is_null ref then rlp_encode_bytes alloc []
      else case ref_union ref of
             Hash h \<Rightarrow> rlp_encode_bytes alloc (take 32 h)
           | Embedded b \<Rightarrow>
               do { (_, result) \<leftarrow> bytes_from_data alloc bytes_init_arena (bytes_contents b); Some result })"

text \<open>The loops over the sixteen children, and over their encodings.\<close>

fun encode_children :: "allocator \<Rightarrow> 'n node_ref_t list \<Rightarrow> bytes_t list option" where
  "encode_children alloc [] = Some []"
| "encode_children alloc (ref # refs) =
     do { e \<leftarrow> encode_node_ref alloc ref; es \<leftarrow> encode_children alloc refs; Some (e # es) }"

fun append_items :: "allocator \<Rightarrow> bytes_t \<Rightarrow> bytes_t list \<Rightarrow> bytes_t option" where
  "append_items alloc result [] = Some result"
| "append_items alloc result (item # items) =
     do { result \<leftarrow> rlp_list_append alloc result item; append_items alloc result items }"

definition mpt_node_encode :: "allocator \<Rightarrow> mpt_node_t \<Rightarrow> bytes_t option" where
  "mpt_node_encode alloc node =
     (let result = bytes_init_arena
      in case node_body node of
        MPT_NODE_EMPTY \<Rightarrow>
          do {
            (_, result) \<leftarrow> bytes_reserve alloc result 1;
            (_, result) \<leftarrow> bytes_append_byte alloc result 0x80;
            Some result
          }
      | MPT_NODE_LEAF path value \<Rightarrow>
          do {
            hp_path \<leftarrow> hex_prefix_encode alloc path True;
            rlp_path \<leftarrow> rlp_encode_bytes alloc (bytes_contents hp_path);
            rlp_value \<leftarrow> rlp_encode_bytes alloc (bytes_contents value);
            let est_size = (9 + bytes_size rlp_path + bytes_size rlp_value) mod 2 ^ 64;
            (_, result) \<leftarrow> bytes_reserve alloc result est_size;
            (builder, result) \<leftarrow> rlp_list_start alloc result;
            result \<leftarrow> rlp_list_append alloc result rlp_path;
            result \<leftarrow> rlp_list_append alloc result rlp_value;
            Some (rlp_list_end builder result)
          }
      | MPT_NODE_EXTENSION path child \<Rightarrow>
          do {
            hp_path \<leftarrow> hex_prefix_encode alloc path False;
            rlp_path \<leftarrow> rlp_encode_bytes alloc (bytes_contents hp_path);
            rlp_child \<leftarrow> encode_node_ref alloc child;
            let est_size = (9 + bytes_size rlp_path + bytes_size rlp_child) mod 2 ^ 64;
            (_, result) \<leftarrow> bytes_reserve alloc result est_size;
            (builder, result) \<leftarrow> rlp_list_start alloc result;
            result \<leftarrow> rlp_list_append alloc result rlp_path;
            result \<leftarrow> rlp_list_append alloc result rlp_child;
            Some (rlp_list_end builder result)
          }
      | MPT_NODE_BRANCH children value \<Rightarrow>
          do {
            child_encodings \<leftarrow> encode_children alloc children;
            rlp_value \<leftarrow> rlp_encode_bytes alloc (bytes_contents value);
            let total_size = (9 + sum_list (map bytes_size child_encodings) + bytes_size rlp_value) mod 2 ^ 64;
            (_, result) \<leftarrow> bytes_reserve alloc result total_size;
            (builder, result) \<leftarrow> rlp_list_start alloc result;
            result \<leftarrow> append_items alloc result child_encodings;
            result \<leftarrow> rlp_list_append alloc result rlp_value;
            Some (rlp_list_end builder result)
          })"

text \<open>The hash of a node and the node, whose cached hash may have been filled in.\<close>

definition mpt_node_hash :: "allocator \<Rightarrow> hash_fun \<Rightarrow> mpt_node_t \<Rightarrow> (hash_t \<times> mpt_node_t) option" where
  "mpt_node_hash alloc keccak node =
     (if hash_valid node then Some (cached_hash node, node)
      else if mpt_node_is_empty node
      then Some (MPT_EMPTY_ROOT, Mpt_node MPT_EMPTY_ROOT True (node_body node))
      else do {
        encoded \<leftarrow> mpt_node_encode alloc node;
        let h = keccak (bytes_contents encoded);
        Some (h, Mpt_node h True (node_body node))
      })"

definition mpt_node_ref :: "allocator \<Rightarrow> hash_fun \<Rightarrow> mpt_node_t \<Rightarrow> mpt_node_t node_ref_t option" where
  "mpt_node_ref alloc keccak node =
     (if mpt_node_is_empty node then Some node_ref_null
      else do {
        encoded \<leftarrow> mpt_node_encode alloc node;
        if bytes_size encoded < 32 then Some (Node_ref (Embedded encoded) (Some node))
        else Some (Node_ref (Hash (keccak (bytes_contents encoded))) (Some node))
      })"

definition mpt_branch_child_count :: "'n node_ref_t list \<Rightarrow> nat" where
  "mpt_branch_child_count children = length (filter (\<lambda>ref. \<not> node_ref_is_null ref) children)"


section \<open>What is encoded\<close>

text \<open>The RLP of a reference and of a node, from the references as they are stored.\<close>

definition ref_rlp :: "'n node_ref_t \<Rightarrow> u8 list" where
  "ref_rlp r =
     (if node_ref_is_null r then [0x80]
      else case ref_union r of Hash h \<Rightarrow> rlp_string (take 32 h) | Embedded b \<Rightarrow> bytes_contents b)"

fun body_rlp :: "'n mpt_body \<Rightarrow> u8 list" where
  "body_rlp MPT_NODE_EMPTY = [0x80]"
| "body_rlp (MPT_NODE_LEAF p v) = rlp_list (rlp_string (hex_prefix p True) @ rlp_string (bytes_contents v))"
| "body_rlp (MPT_NODE_EXTENSION p r) = rlp_list (rlp_string (hex_prefix p False) @ ref_rlp r)"
| "body_rlp (MPT_NODE_BRANCH rs v) = rlp_list (concat (map ref_rlp rs) @ rlp_string (bytes_contents v))"

definition ref_small :: "'n node_ref_t \<Rightarrow> bool" where
  "ref_small r \<longleftrightarrow> (case ref_union r of Hash h \<Rightarrow> True | Embedded b \<Rightarrow> length (bytes_contents b) < 32)"

text \<open>Sizes for which no length wraps.\<close>

fun body_small :: "'n mpt_body \<Rightarrow> bool" where
  "body_small MPT_NODE_EMPTY = True"
| "body_small (MPT_NODE_LEAF p v) \<longleftrightarrow> length p < 2 ^ 62 \<and> length (bytes_contents v) < 2 ^ 62"
| "body_small (MPT_NODE_EXTENSION p r) \<longleftrightarrow> length p < 2 ^ 62 \<and> ref_small r"
| "body_small (MPT_NODE_BRANCH rs v) \<longleftrightarrow> length rs = 16 \<and> (\<forall>r\<in>set rs. ref_small r) \<and> length (bytes_contents v) < 2 ^ 62"

lemma length_rlp_string_le:
  assumes "length d < 2 ^ 64" shows "length (rlp_string d) \<le> 9 + length d"
proof -
  have "length (rlp_header 0x80 (length d)) \<le> 9"
    using length_of_length(4) [of "length d"] assms by (cases "length d < 56") (auto simp: rlp_header_def)
  then show ?thesis by (simp add: rlp_string_def)
qed

lemma length_rlp_path:
  assumes "length p < 2 ^ 62" shows "length (rlp_string (hex_prefix p leaf)) < 2 ^ 62"
proof -
  have "length (hex_prefix p leaf) \<le> 2 ^ 61" using assms by (simp add: length_hex_prefix)
  then show ?thesis using length_rlp_string_le [of "hex_prefix p leaf"] by simp
qed

lemma length_ref_rlp: "ref_small r \<Longrightarrow> length (ref_rlp r) \<le> 33"
  by (auto simp: ref_rlp_def ref_small_def rlp_string_def rlp_header_def split: ref_union.splits)

lemma returnsE: "returns xs r \<Longrightarrow> (\<And>b. r = Some b \<Longrightarrow> bytes_wf b \<Longrightarrow> bytes_contents b = xs \<Longrightarrow> bytes_size b = length xs \<Longrightarrow> P) \<Longrightarrow> P"
  by (auto simp: returns_def length_contents)

lemma encode_node_ref_returns:
  assumes "alloc_total alloc" "ref_small r"
  shows "returns (ref_rlp r) (encode_node_ref alloc r)"
proof (cases "node_ref_is_null r")
  case True
  then show ?thesis
    using rlp_encode_bytes_returns [OF assms(1), of "[]"] by (simp add: encode_node_ref_def ref_rlp_def)
next
  case nn: False
  show ?thesis
  proof (cases "ref_union r")
    case (Hash h)
    then show ?thesis
      using nn rlp_encode_bytes_returns [OF assms(1), of "take 32 h"] by (simp add: encode_node_ref_def ref_rlp_def)
  next
    case (Embedded b)
    define xs where "xs = bytes_contents b"
    have xs: "length xs < 32" using assms(2) Embedded by (simp add: ref_small_def xs_def)
    have "returns xs (bytes_from_data alloc bytes_init_arena xs \<bind> (\<lambda>(_, r). Some r))"
    proof (cases "xs = []")
      case True
      then show ?thesis
        by (simp add: bytes_from_data_def bytes_init_arena_def returns_def bytes_contents_def bytes_wf_def)
    next
      case False
      obtain buf where "alloc (length xs) = Some buf" "length buf = length xs"
        using alloc_totalD [OF assms(1)] by blast
      then show ?thesis using False xs
        by (simp add: bytes_from_data_def bytes_reserve_def bytes_init_arena_def returns_def bytes_contents_def
            bytes_wf_def memcpy_at_def)
    qed
    then show ?thesis using nn Embedded by (simp add: encode_node_ref_def ref_rlp_def xs_def)
  qed
qed

lemma encode_children_returns:
  assumes "alloc_total alloc" "\<forall>r\<in>set rs. ref_small r"
  shows "\<exists>es. encode_children alloc rs = Some es \<and> map bytes_contents es = map ref_rlp rs \<and>
    map bytes_size es = map (length \<circ> ref_rlp) rs"
  using assms(2)
proof (induction rs)
  case (Cons r rs)
  obtain e where "encode_node_ref alloc r = Some e" "bytes_contents e = ref_rlp r" "bytes_size e = length (ref_rlp r)"
    using encode_node_ref_returns [OF assms(1), of r] Cons.prems by (auto elim: returnsE)
  moreover obtain es where "encode_children alloc rs = Some es" "map bytes_contents es = map ref_rlp rs"
      "map bytes_size es = map (length \<circ> ref_rlp) rs"
    using Cons by auto
  ultimately show ?case by simp
qed simp

lemma append_items_fits:
  assumes "arena_buf n xs b" "length xs + length (concat (map bytes_contents es)) \<le> n"
  shows "\<exists>b'. append_items alloc b es = Some b' \<and> arena_buf n (xs @ concat (map bytes_contents es)) b'"
  using assms
proof (induction es arbitrary: xs b)
  case (Cons e es)
  obtain b1 where "bytes_append alloc b (bytes_contents e) = Some (True, b1)" "arena_buf n (xs @ bytes_contents e) b1"
    using append_fits [of n xs b "bytes_contents e" alloc] Cons.prems by auto
  then show ?case using Cons.IH [of "xs @ bytes_contents e" b1] Cons.prems by (simp add: rlp_list_append_def)
qed simp

text \<open>The list builder on an arena buffer of exactly the right size.\<close>

definition build_list :: "allocator \<Rightarrow> nat \<Rightarrow> bytes_t list \<Rightarrow> bytes_t option" where
  "build_list alloc n items =
     do {
       (_, result) \<leftarrow> bytes_reserve alloc bytes_init_arena n;
       (builder, result) \<leftarrow> rlp_list_start alloc result;
       result \<leftarrow> append_items alloc result items;
       Some (rlp_list_end builder result)
     }"

lemma build_list_returns:
  assumes "alloc_total alloc" "n = 9 + length (concat (map bytes_contents items))" "n < 2 ^ 64"
  shows "returns (rlp_list (concat (map bytes_contents items))) (build_list alloc n items)"
  unfolding build_list_def
proof (rule reserve_bind [OF assms(1)])
  define ys where "ys = concat (map bytes_contents items)"
  fix b assume b: "arena_buf n [] b"
  obtain b1 where b1: "bytes_append alloc b (replicate 9 0) = Some (True, b1)" "arena_buf n (replicate 9 0) b1"
    using append_fits [OF b, of "replicate 9 0" alloc] assms(2) by auto
  obtain b2 where b2: "append_items alloc b1 items = Some b2" "arena_buf n (replicate 9 0 @ ys) b2"
    using append_items_fits [OF b1(2), of items alloc] assms(2) by (auto simp: ys_def)
  have sz: "bytes_size b = 0" using b length_contents [of b] by (auto simp: arena_buf_def)
  have "bytes_contents (rlp_list_end 0 b2) = rlp_list ys \<and> bytes_wf (rlp_list_end 0 b2)"
    using rlp_list_end_contents [of b2 "[]" 0 ys] b2(2) by (simp add: arena_buf_def)
  then show "returns (rlp_list (concat (map bytes_contents items))) ((\<lambda>(_, result).
      rlp_list_start alloc result \<bind> (\<lambda>(builder, result). append_items alloc result items \<bind>
      (\<lambda>result. Some (rlp_list_end builder result)))) (True, b))"
    using b1(1) b2(1) sz by (simp add: rlp_list_start_def returns_def ys_def)
qed (use assms in auto)

lemma append_items_two:
  "rlp_list_append alloc r a \<bind> (\<lambda>r. rlp_list_append alloc r b \<bind> k) = append_items alloc r [a, b] \<bind> k"
  by (simp add: bind_assoc)

lemma append_items_snoc:
  "append_items alloc r items \<bind> (\<lambda>r. rlp_list_append alloc r a \<bind> k) = append_items alloc r (items @ [a]) \<bind> k"
  by (induction items arbitrary: r) (simp_all add: bind_assoc)

definition encoded_path :: "allocator \<Rightarrow> nibbles_t \<Rightarrow> bool \<Rightarrow> bytes_t option" where
  "encoded_path alloc p leaf =
     do { hp \<leftarrow> hex_prefix_encode alloc p leaf; rlp_encode_bytes alloc (bytes_contents hp) }"

lemma encoded_path_returns:
  assumes "alloc_total alloc" "length p < 2 ^ 62"
  shows "returns (rlp_string (hex_prefix p leaf)) (encoded_path alloc p leaf)"
proof -
  obtain hp where hp: "hex_prefix_encode alloc p leaf = Some hp" "bytes_contents hp = hex_prefix p leaf"
    using hex_prefix_encode_returns [OF assms(1), of p leaf] assms(2) by (auto elim: returnsE)
  show ?thesis
    using rlp_encode_bytes_returns [OF assms(1), of "hex_prefix p leaf"] assms(2)
    by (simp add: encoded_path_def hp length_hex_prefix)
qed

definition build_pair :: "allocator \<Rightarrow> bytes_t option \<Rightarrow> bytes_t option \<Rightarrow> bytes_t option" where
  "build_pair alloc r1 r2 =
     do { e1 \<leftarrow> r1; e2 \<leftarrow> r2; build_list alloc ((9 + bytes_size e1 + bytes_size e2) mod 2 ^ 64) [e1, e2] }"

lemma build_pair_returns:
  assumes "alloc_total alloc" "returns xs r1" "returns ys r2" "9 + length xs + length ys < 2 ^ 64"
  shows "returns (rlp_list (xs @ ys)) (build_pair alloc r1 r2)"
proof -
  obtain e1 e2 where "r1 = Some e1" "bytes_contents e1 = xs" "bytes_size e1 = length xs"
      "r2 = Some e2" "bytes_contents e2 = ys" "bytes_size e2 = length ys"
    using assms(2,3) by (auto elim!: returnsE)
  then show ?thesis
    using build_list_returns [OF assms(1), of "9 + length xs + length ys" "[e1, e2]"] assms(4)
    by (simp add: build_pair_def)
qed

lemma mpt_node_encode_body:
  "mpt_node_encode alloc node =
     (case node_body node of
        MPT_NODE_EMPTY \<Rightarrow> bytes_reserve alloc bytes_init_arena 1 \<bind> (\<lambda>(_, r).
          bytes_append_byte alloc r 0x80 \<bind> (\<lambda>(_, r). Some r))
      | MPT_NODE_LEAF p v \<Rightarrow>
          build_pair alloc (encoded_path alloc p True) (rlp_encode_bytes alloc (bytes_contents v))
      | MPT_NODE_EXTENSION p r \<Rightarrow> build_pair alloc (encoded_path alloc p False) (encode_node_ref alloc r)
      | MPT_NODE_BRANCH rs v \<Rightarrow> do {
          es \<leftarrow> encode_children alloc rs;
          e \<leftarrow> rlp_encode_bytes alloc (bytes_contents v);
          build_list alloc ((9 + sum_list (map bytes_size es) + bytes_size e) mod 2 ^ 64) (es @ [e]) })"
  unfolding mpt_node_encode_def Let_def build_list_def build_pair_def encoded_path_def append_items_two append_items_snoc
  by (simp add: bind_assoc split: mpt_body.split)

lemma mpt_node_encode_returns:
  assumes "alloc_total alloc" "body_small (node_body node)"
  shows "returns (body_rlp (node_body node)) (mpt_node_encode alloc node)"
proof (cases "node_body node")
  case MPT_NODE_EMPTY
  then show ?thesis unfolding mpt_node_encode_body using assms(1) by (auto intro!: encode_rules)
next
  case (MPT_NODE_LEAF p v)
  have s: "length p < 2 ^ 62" "length (bytes_contents v) < 2 ^ 62" using assms(2) MPT_NODE_LEAF by simp_all
  then have "length (rlp_string (hex_prefix p True)) < 2 ^ 62" "length (rlp_string (bytes_contents v)) \<le> 9 + 2 ^ 62"
    using length_rlp_path [of p] length_rlp_string_le [of "bytes_contents v"] by simp_all
  then show ?thesis
    unfolding mpt_node_encode_body using MPT_NODE_LEAF assms
    by (auto intro!: build_pair_returns encoded_path_returns rlp_encode_bytes_returns simp: length_hex_prefix)
next
  case (MPT_NODE_EXTENSION p r)
  have s: "length p < 2 ^ 62" "ref_small r" using assms(2) MPT_NODE_EXTENSION by simp_all
  then have "length (rlp_string (hex_prefix p False)) < 2 ^ 62" "length (ref_rlp r) \<le> 33"
    using length_rlp_path [of p] length_ref_rlp [of r] by simp_all
  then show ?thesis
    unfolding mpt_node_encode_body using MPT_NODE_EXTENSION assms
    by (auto intro!: build_pair_returns encoded_path_returns encode_node_ref_returns simp: length_hex_prefix)
next
  case (MPT_NODE_BRANCH rs v)
  then have s: "length rs = 16" "\<forall>r\<in>set rs. ref_small r" "length (bytes_contents v) < 2 ^ 62"
    using assms(2) by simp_all
  obtain es where es: "encode_children alloc rs = Some es" "map bytes_contents es = map ref_rlp rs"
      "map bytes_size es = map (length \<circ> ref_rlp) rs"
    using encode_children_returns [OF assms(1) s(2)] by blast
  define V where "V = rlp_string (bytes_contents v)"
  obtain e where e: "rlp_encode_bytes alloc (bytes_contents v) = Some e" "bytes_contents e = V" "bytes_size e = length V"
    using rlp_encode_bytes_returns [OF assms(1), of "bytes_contents v"] s(3) by (auto simp: V_def elim: returnsE)
  have "sum_list (map (length \<circ> ref_rlp) rs) \<le> sum_list (map (\<lambda>_. 33) rs)"
    using s(2) length_ref_rlp by (intro sum_list_mono) auto
  then have "sum_list (map (length \<circ> ref_rlp) rs) \<le> 528" using s(1) by (simp add: sum_list_triv)
  moreover have "length V \<le> 9 + 2 ^ 62" using length_rlp_string_le [of "bytes_contents v"] s(3) by (simp add: V_def)
  ultimately show ?thesis
    using build_list_returns [OF assms(1), of "9 + sum_list (map (length \<circ> ref_rlp) rs) + length V" "es @ [e]"]
    unfolding mpt_node_encode_body by (simp add: MPT_NODE_BRANCH es e V_def length_concat comp_def)
qed

text \<open>The reference that a node's parent keeps: the encoding itself below 32 bytes, else its hash.\<close>

definition ref_of :: "hash_fun \<Rightarrow> mpt_node_t \<Rightarrow> mpt_node_t node_ref_t \<Rightarrow> bool" where
  "ref_of keccak node r \<longleftrightarrow> ref_node r = Some node \<and>
     (if length (body_rlp (node_body node)) < 32
      then \<exists>b. ref_union r = Embedded b \<and> bytes_contents b = body_rlp (node_body node)
      else ref_union r = Hash (keccak (body_rlp (node_body node))))"

lemma mpt_node_ref_returns:
  assumes "alloc_total alloc" "body_small (node_body node)" "node_body node \<noteq> MPT_NODE_EMPTY"
  shows "\<exists>r. mpt_node_ref alloc keccak node = Some r \<and> ref_of keccak node r"
proof -
  obtain b where "mpt_node_encode alloc node = Some b" "bytes_contents b = body_rlp (node_body node)"
      "bytes_size b = length (body_rlp (node_body node))"
    using mpt_node_encode_returns [OF assms(1,2)] by (elim returnsE)
  then show ?thesis using assms(3)
    by (auto simp: mpt_node_ref_def mpt_node_is_empty_def ref_of_def split: mpt_body.splits)
qed

end
