(* ===== verification/Mpt.thy ===== *)
theory Mpt
  imports Mpt_Node
begin

text \<open>
  The Merkle Patricia Trie: \<open>src/trie/mpt.c\<close>, its in-memory backend \<open>src/trie/mpt_memory.c\<close> and
  \<open>include/div0/trie/mpt.h\<close>.  The trie is updated in place, but a node is reachable through one
  pointer only, so an update of a node is a new term.  A call returns \<open>None\<close> where a buffer
  operation of \<open>Bytes\<close> does not return.  Node allocation may fail: the outcomes of the next
  allocations are a list of booleans that every call passes on, and after the end of the list
  every allocation succeeds.  A null node is \<open>None\<close>.
\<close>

section \<open>The in-memory backend\<close>

record mpt_memory_backend_t =
  mem_root :: "mpt_node_t option"

type_synonym node_mem = "bool list"

definition memory_get_root :: "mpt_memory_backend_t \<Rightarrow> mpt_node_t option" where
  "memory_get_root backend = mem_root backend"

definition memory_set_root :: "mpt_memory_backend_t \<Rightarrow> mpt_node_t option \<Rightarrow> mpt_memory_backend_t" where
  "memory_set_root backend root = backend\<lparr>mem_root := root\<rparr>"

definition memory_alloc_node :: "node_mem \<Rightarrow> mpt_node_t option \<times> node_mem" where
  "memory_alloc_node mem =
     (case mem of
        [] \<Rightarrow> (Some mpt_node_empty, [])
      | ok # mem \<Rightarrow> (if ok then Some mpt_node_empty else None, mem))"

definition memory_get_node_by_hash :: "mpt_memory_backend_t \<Rightarrow> hash_t \<Rightarrow> mpt_node_t option" where
  "memory_get_node_by_hash backend h = None"

definition memory_store_node ::
    "allocator \<Rightarrow> hash_fun \<Rightarrow> mpt_memory_backend_t \<Rightarrow> mpt_node_t \<Rightarrow> (hash_t \<times> mpt_node_t) option" where
  "memory_store_node alloc keccak backend node = mpt_node_hash alloc keccak node"

definition memory_begin_batch :: "mpt_memory_backend_t \<Rightarrow> mpt_memory_backend_t" where
  "memory_begin_batch backend = backend"

definition memory_commit_batch :: "mpt_memory_backend_t \<Rightarrow> mpt_memory_backend_t" where
  "memory_commit_batch backend = backend"

definition memory_rollback_batch :: "mpt_memory_backend_t \<Rightarrow> mpt_memory_backend_t" where
  "memory_rollback_batch backend = backend"

definition memory_clear :: "mpt_memory_backend_t \<Rightarrow> mpt_memory_backend_t" where
  "memory_clear backend = backend\<lparr>mem_root := None\<rparr>"

text \<open>The arena, or none; the backend itself is allocated in it.\<close>

definition mpt_memory_backend_create :: "allocator option \<Rightarrow> nat \<Rightarrow> mpt_memory_backend_t option" where
  "mpt_memory_backend_create arena sizeof_backend =
     (case arena of
        None \<Rightarrow> None
      | Some alloc \<Rightarrow>
          (case alloc sizeof_backend of
             None \<Rightarrow> None
           | Some _ \<Rightarrow> Some \<lparr>mem_root = None\<rparr>))"

text \<open>The handle; a null handle behaves as one without a backend.\<close>

record mpt_t =
  mpt_backend :: "mpt_memory_backend_t option"

definition mpt_init :: "mpt_memory_backend_t option \<Rightarrow> mpt_t" where
  "mpt_init backend = \<lparr>mpt_backend = backend\<rparr>"


section \<open>Helpers\<close>

text \<open>The rest of a call that returns null when it cannot allocate a node, or when a call it makes does.\<close>

definition with_node ::
    "node_mem \<Rightarrow> (node_mem \<Rightarrow> ('a option \<times> node_mem) option) \<Rightarrow> ('a option \<times> node_mem) option" where
  "with_node mem k =
     (case memory_alloc_node mem of (None, mem) \<Rightarrow> Some (None, mem) | (Some _, mem) \<Rightarrow> k mem)"

definition node_bind ::
    "('a option \<times> node_mem) option \<Rightarrow> ('a \<Rightarrow> node_mem \<Rightarrow> ('b option \<times> node_mem) option) \<Rightarrow>
     ('b option \<times> node_mem) option" where
  "node_bind m k = do { (r, mem) \<leftarrow> m; case r of None \<Rightarrow> Some (None, mem) | Some x \<Rightarrow> k x mem }"

function divergence_loop :: "nibbles_t \<Rightarrow> nibbles_t \<Rightarrow> nat \<Rightarrow> nat \<Rightarrow> nat" where
  "divergence_loop path key offset i =
     (if i < length path \<and> offset + i < length key
      then (if path ! i \<noteq> key ! (offset + i) then i else divergence_loop path key offset (i + 1))
      else i)"
  by pat_completeness auto

termination divergence_loop
  by (relation "measure (\<lambda>(path, _, _, i). length path - i)") auto

definition find_divergence :: "nibbles_t \<Rightarrow> nibbles_t \<Rightarrow> nat \<Rightarrow> nat" where
  "find_divergence path key offset = divergence_loop path key offset 0"

definition empty_value_sentinel :: "u8 list" where
  "empty_value_sentinel = [0]"

definition copy_value :: "allocator \<Rightarrow> u8 list \<Rightarrow> bytes_t option" where
  "copy_value alloc value =
     (if length value > 0
      then do { (_, result) \<leftarrow> bytes_from_data alloc bytes_init_arena value; Some result }
      else Some (bytes_init_arena\<lparr>bytes_data := Some empty_value_sentinel, bytes_size := 0\<rparr>))"

datatype delete_result_t = DELETE_NOT_FOUND | DELETE_UPDATED | DELETE_REMOVED


section \<open>Insertion\<close>

text \<open>A branch under construction: its children and its value.\<close>

type_synonym branch_parts = "mpt_node_t node_ref_t list \<times> bytes_t"

definition branch_node :: "branch_parts \<Rightarrow> mpt_node_t" where
  "branch_node = (\<lambda>(children, value). Mpt_node hash_zero False (MPT_NODE_BRANCH children value))"

definition empty_branch :: branch_parts where
  "empty_branch = (replicate 16 node_ref_null, no_value)"

text \<open>A node with a new body; its cached hash is invalidated.\<close>

definition update_node :: "mpt_node_t \<Rightarrow> mpt_node_t mpt_body \<Rightarrow> mpt_node_t" where
  "update_node node body = mpt_node_invalidate_hash (Mpt_node (cached_hash node) (hash_valid node) body)"

text \<open>The node below a null or empty one.\<close>

definition insert_empty :: "allocator \<Rightarrow> nibbles_t \<Rightarrow> nat \<Rightarrow> u8 list \<Rightarrow> node_mem \<Rightarrow>
    (mpt_node_t option \<times> node_mem) option" where
  "insert_empty alloc key offset value mem =
     with_node mem (\<lambda>mem. do {
       v \<leftarrow> copy_value alloc value;
       if offset \<ge> length key then Some (Some (mpt_node_leaf NIBBLES_EMPTY v), mem)
       else Some (Some (mpt_node_leaf (nibbles_slice key offset None (Some alloc)) v), mem)
     })"

text \<open>
  An existing leaf put into a new branch, from the position \<open>k\<close> of its path on: as a child, or as
  the value of the branch when the path ends there.
\<close>

definition add_old_leaf :: "allocator \<Rightarrow> hash_fun \<Rightarrow> branch_parts \<Rightarrow> nibbles_t \<Rightarrow> bytes_t \<Rightarrow> nat \<Rightarrow>
    node_mem \<Rightarrow> (branch_parts option \<times> node_mem) option" where
  "add_old_leaf alloc keccak branch path lvalue k mem =
     (if k < length path
      then with_node mem (\<lambda>mem. do {
        let old_remaining = nibbles_slice path (k + 1) None (Some alloc);
        r \<leftarrow> mpt_node_ref alloc keccak (mpt_node_leaf old_remaining lvalue);
        Some (Some ((fst branch)[unat (path ! k) := r], snd branch), mem)
      })
      else Some (Some (fst branch, lvalue), mem))"

text \<open>The same for an extension, whose path goes on at \<open>k\<close>.\<close>

definition add_old_extension :: "allocator \<Rightarrow> hash_fun \<Rightarrow> branch_parts \<Rightarrow> nibbles_t \<Rightarrow>
    mpt_node_t node_ref_t \<Rightarrow> nat \<Rightarrow> node_mem \<Rightarrow> (branch_parts option \<times> node_mem) option" where
  "add_old_extension alloc keccak branch path child k mem =
     (if k + 1 < length path
      then with_node mem (\<lambda>mem. do {
        let new_ext_path = nibbles_slice path (k + 1) None (Some alloc);
        r \<leftarrow> mpt_node_ref alloc keccak (mpt_node_extension new_ext_path child);
        Some (Some ((fst branch)[unat (path ! k) := r], snd branch), mem)
      })
      else Some (Some ((fst branch)[unat (path ! k) := child], snd branch), mem))"

text \<open>The new key put into a branch at position \<open>pos\<close> of the key: as a leaf, or as the value.\<close>

definition add_new_key :: "allocator \<Rightarrow> hash_fun \<Rightarrow> branch_parts \<Rightarrow> nibbles_t \<Rightarrow> nat \<Rightarrow> u8 list \<Rightarrow>
    node_mem \<Rightarrow> (branch_parts option \<times> node_mem) option" where
  "add_new_key alloc keccak branch key pos value mem =
     (if pos < length key
      then with_node mem (\<lambda>mem. do {
        let new_remaining = nibbles_slice key (pos + 1) None (Some alloc);
        v \<leftarrow> copy_value alloc value;
        r \<leftarrow> mpt_node_ref alloc keccak (mpt_node_leaf new_remaining v);
        Some (Some ((fst branch)[unat (key ! pos) := r], snd branch), mem)
      })
      else do { v \<leftarrow> copy_value alloc value; Some (Some (fst branch, v), mem) })"

text \<open>The key is used up at an existing node.\<close>

definition insert_at_end :: "allocator \<Rightarrow> hash_fun \<Rightarrow> mpt_node_t \<Rightarrow> u8 list \<Rightarrow> node_mem \<Rightarrow>
    (mpt_node_t option \<times> node_mem) option" where
  "insert_at_end alloc keccak node value mem =
     (case node_body node of
        MPT_NODE_LEAF path lvalue \<Rightarrow>
          (if length path = 0
           then do { v \<leftarrow> copy_value alloc value; Some (Some (update_node node (MPT_NODE_LEAF path v)), mem) }
           else with_node mem (\<lambda>mem. do {
             v \<leftarrow> copy_value alloc value;
             node_bind (add_old_leaf alloc keccak (fst empty_branch, v) path lvalue 0 mem)
               (\<lambda>branch mem. Some (Some (branch_node branch), mem))
           }))
      | MPT_NODE_BRANCH children _ \<Rightarrow>
          do { v \<leftarrow> copy_value alloc value; Some (Some (update_node node (MPT_NODE_BRANCH children v)), mem) }
      | MPT_NODE_EXTENSION path child \<Rightarrow>
          with_node mem (\<lambda>mem. do {
            v \<leftarrow> copy_value alloc value;
            node_bind (add_old_extension alloc keccak (fst empty_branch, v) path child 0 mem)
              (\<lambda>branch mem. Some (Some (branch_node branch), mem))
          })
      | MPT_NODE_EMPTY \<Rightarrow> Some (Some node, mem))"

text \<open>The key meets a leaf: the value is replaced, or the leaf is split.\<close>

definition insert_leaf :: "allocator \<Rightarrow> hash_fun \<Rightarrow> mpt_node_t \<Rightarrow> nibbles_t \<Rightarrow> bytes_t \<Rightarrow> nibbles_t \<Rightarrow> nat \<Rightarrow>
    u8 list \<Rightarrow> node_mem \<Rightarrow> (mpt_node_t option \<times> node_mem) option" where
  "insert_leaf alloc keccak node path lvalue key offset value mem =
     (let match_len = find_divergence path key offset
      in if match_len = length path \<and> offset + match_len = length key
         then do { v \<leftarrow> copy_value alloc value; Some (Some (update_node node (MPT_NODE_LEAF path v)), mem) }
         else with_node mem (\<lambda>mem.
           if match_len > 0
           then with_node mem (\<lambda>mem.
             let common_path = nibbles_slice path 0 (Some match_len) (Some alloc)
             in node_bind (add_old_leaf alloc keccak empty_branch path lvalue match_len mem) (\<lambda>branch mem.
                node_bind (add_new_key alloc keccak branch key (offset + match_len) value mem) (\<lambda>branch mem.
                do {
                  r \<leftarrow> mpt_node_ref alloc keccak (branch_node branch);
                  Some (Some (mpt_node_extension common_path r), mem)
                })))
           else
             node_bind (add_old_leaf alloc keccak empty_branch path lvalue 0 mem) (\<lambda>branch mem.
             node_bind (add_new_key alloc keccak branch key offset value mem) (\<lambda>branch mem.
             Some (Some (branch_node branch), mem)))))"

text \<open>The key leaves an extension before its end: the extension is split.\<close>

definition split_extension :: "allocator \<Rightarrow> hash_fun \<Rightarrow> nibbles_t \<Rightarrow> mpt_node_t node_ref_t \<Rightarrow> nat \<Rightarrow> nibbles_t \<Rightarrow>
    nat \<Rightarrow> u8 list \<Rightarrow> node_mem \<Rightarrow> (mpt_node_t option \<times> node_mem) option" where
  "split_extension alloc keccak path child match_len key offset value mem =
     with_node mem (\<lambda>mem.
       node_bind (add_old_extension alloc keccak empty_branch path child match_len mem) (\<lambda>branch mem.
       node_bind (add_new_key alloc keccak branch key (offset + match_len) value mem) (\<lambda>branch mem.
       if match_len > 0
       then with_node mem (\<lambda>mem. do {
         let common_path = nibbles_slice path 0 (Some match_len) (Some alloc);
         r \<leftarrow> mpt_node_ref alloc keccak (branch_node branch);
         Some (Some (mpt_node_extension common_path r), mem)
       })
       else Some (Some (branch_node branch), mem))))"

lemma size_extension_child:
  assumes "node_body node = MPT_NODE_EXTENSION p r" "ref_node r = Some n"
  shows "size n < size node"
  using assms by (cases node; cases r) simp

lemma size_branch_child:
  assumes "node_body node = MPT_NODE_BRANCH cs v" "i < length cs" "ref_node (cs ! i) = Some n"
  shows "size n < size node"
proof -
  have "size n < size_node_ref_t size (cs ! i)" using assms(3) by (cases "cs ! i") simp
  also have "\<dots> \<le> size_list (size_node_ref_t size) cs"
    using assms(2) by (intro size_list_estimation' [of "cs ! i"]) simp_all
  finally show ?thesis using assms(1) by (cases node) simp
qed

function insert_recursive :: "allocator \<Rightarrow> hash_fun \<Rightarrow> mpt_node_t option \<Rightarrow> nibbles_t \<Rightarrow> nat \<Rightarrow> u8 list \<Rightarrow>
    node_mem \<Rightarrow> (mpt_node_t option \<times> node_mem) option" where
  "insert_recursive alloc keccak None key offset value mem = insert_empty alloc key offset value mem"
| "insert_recursive alloc keccak (Some node) key offset value mem =
     (case node_body node of
        MPT_NODE_EMPTY \<Rightarrow> insert_empty alloc key offset value mem
      | body \<Rightarrow>
        if offset \<ge> length key then insert_at_end alloc keccak node value mem
        else
          (case body of
             MPT_NODE_LEAF path lvalue \<Rightarrow>
               insert_leaf alloc keccak node path lvalue key offset value mem
           | MPT_NODE_EXTENSION path child \<Rightarrow>
               (let match_len = find_divergence path key offset
                in if match_len = length path
                   then (case ref_node child of
                           Some child_node \<Rightarrow>
                             node_bind (insert_recursive alloc keccak (Some child_node) key (offset + match_len) value mem)
                               (\<lambda>child_node mem. do {
                                 r \<leftarrow> mpt_node_ref alloc keccak child_node;
                                 Some (Some (update_node node (MPT_NODE_EXTENSION path r)), mem)
                               })
                         | None \<Rightarrow> Some (Some (mpt_node_invalidate_hash node), mem))
                   else split_extension alloc keccak path child match_len key offset value mem)
           | MPT_NODE_BRANCH children bvalue \<Rightarrow>
               (let nibble = unat (key ! offset)
                in if \<not> nibble < length children then None
                   else if node_ref_is_null (children ! nibble)
                   then node_bind (add_new_key alloc keccak (children, bvalue) key offset value mem)
                          (\<lambda>(children, bvalue) mem.
                            Some (Some (update_node node (MPT_NODE_BRANCH children bvalue)), mem))
                   else (case ref_node (children ! nibble) of
                           Some child_node \<Rightarrow>
                             node_bind (insert_recursive alloc keccak (Some child_node) key (offset + 1) value mem)
                               (\<lambda>child_node mem. do {
                                 r \<leftarrow> mpt_node_ref alloc keccak child_node;
                                 Some (Some (update_node node (MPT_NODE_BRANCH (children[nibble := r]) bvalue)), mem)
                               })
                         | None \<Rightarrow> Some (Some (mpt_node_invalidate_hash node), mem)))
           | MPT_NODE_EMPTY \<Rightarrow> Some (Some node, mem)))"
  by pat_completeness auto

termination insert_recursive
  by (relation "measure (\<lambda>(_, _, n, _, _, _, _). size_option size n)")
    (auto intro: size_extension_child size_branch_child)


section \<open>Deletion\<close>

text \<open>The index of the only child, or none.\<close>

fun single_child_loop :: "'n node_ref_t list \<Rightarrow> nat \<Rightarrow> nat option \<Rightarrow> nat option" where
  "single_child_loop [] i found = found"
| "single_child_loop (ref # refs) i found =
     (if \<not> node_ref_is_null ref
      then (if found \<noteq> None then None else single_child_loop refs (i + 1) (Some i))
      else single_child_loop refs (i + 1) found)"

definition find_single_child :: "'n node_ref_t list \<Rightarrow> nat option" where
  "find_single_child children = single_child_loop children 0 None"

text \<open>
  The branch as it is left in place and the node that takes its place, which may be the branch.
\<close>

definition collapse_branch :: "allocator \<Rightarrow> hash_fun \<Rightarrow> mpt_node_t \<Rightarrow> node_mem \<Rightarrow>
    (mpt_node_t \<times> mpt_node_t \<times> node_mem) option" where
  "collapse_branch alloc keccak branch mem =
     (let children = branch_children (node_body branch);
          value = branch_value (node_body branch);
          has_value = (bytes_data value \<noteq> None);
          kept = mpt_node_invalidate_hash branch
      in case find_single_child children of
           None \<Rightarrow>
             (if mpt_branch_child_count children = 0 \<and> has_value
              then (case memory_alloc_node mem of
                      (None, mem) \<Rightarrow> Some (branch, branch, mem)
                    | (Some _, mem) \<Rightarrow> Some (branch, mpt_node_leaf NIBBLES_EMPTY value, mem))
              else Some (kept, kept, mem))
         | Some single_child \<Rightarrow>
             (if has_value then Some (kept, kept, mem)
              else case ref_node (children ! single_child) of
                     None \<Rightarrow> Some (kept, kept, mem)
                   | Some child \<Rightarrow>
                       (let nibble = (of_nat single_child :: u8)
                        in case node_body child of
                          MPT_NODE_LEAF path lvalue \<Rightarrow>
                            (let new_path = nibbles_concat3 alloc NIBBLES_EMPTY nibble path
                             in case memory_alloc_node mem of
                                  (None, mem) \<Rightarrow> Some (branch, branch, mem)
                                | (Some _, mem) \<Rightarrow> Some (branch, mpt_node_leaf new_path lvalue, mem))
                        | MPT_NODE_EXTENSION path grandchild \<Rightarrow>
                            (let new_path = nibbles_concat3 alloc NIBBLES_EMPTY nibble path
                             in case memory_alloc_node mem of
                                  (None, mem) \<Rightarrow> Some (branch, branch, mem)
                                | (Some _, mem) \<Rightarrow> Some (branch, mpt_node_extension new_path grandchild, mem))
                        | _ \<Rightarrow>
                            (case alloc 1 of
                               None \<Rightarrow> Some (branch, branch, mem)
                             | Some _ \<Rightarrow>
                                 (case memory_alloc_node mem of
                                    (None, mem) \<Rightarrow> Some (branch, branch, mem)
                                  | (Some _, mem) \<Rightarrow> do {
                                      r \<leftarrow> mpt_node_ref alloc keccak child;
                                      Some (branch, mpt_node_extension [nibble] r, mem)
                                    })))))"

text \<open>A leaf's path is the rest of the key.\<close>

definition leaf_matches :: "nibbles_t \<Rightarrow> nibbles_t \<Rightarrow> nat \<Rightarrow> bool" where
  "leaf_matches path key offset \<longleftrightarrow>
     length key - offset = length path \<and>
     list_all (\<lambda>i. path ! i = key ! (offset + i)) [0..<length path]"

text \<open>
  The result, the node as it is left in place, the node that takes its place (null if it is
  removed), and the state of the allocator.  The node in place matters where the caller gives up:
  its parent still points to it.
\<close>

type_synonym delete_outcome = "delete_result_t \<times> mpt_node_t option \<times> mpt_node_t option \<times> node_mem"

text \<open>An extension after its child was updated.\<close>

definition merge_extension :: "allocator \<Rightarrow> hash_fun \<Rightarrow> mpt_node_t \<Rightarrow> nibbles_t \<Rightarrow> mpt_node_t node_ref_t \<Rightarrow>
    mpt_node_t option \<Rightarrow> mpt_node_t \<Rightarrow> node_mem \<Rightarrow> delete_outcome option" where
  "merge_extension alloc keccak node path child in_place new_child mem =
     (let left = Mpt_node (cached_hash node) (hash_valid node)
                   (MPT_NODE_EXTENSION path (Node_ref (ref_union child) in_place))
      in case node_body new_child of
        MPT_NODE_LEAF child_path lvalue \<Rightarrow>
          (let new_path = nibbles_concat alloc path child_path
           in case memory_alloc_node mem of
                (None, mem) \<Rightarrow> Some (DELETE_NOT_FOUND, Some left, Some left, mem)
              | (Some _, mem) \<Rightarrow> Some (DELETE_UPDATED, Some left, Some (mpt_node_leaf new_path lvalue), mem))
      | MPT_NODE_EXTENSION child_path grandchild \<Rightarrow>
          (let new_path = nibbles_concat alloc path child_path
           in case memory_alloc_node mem of
                (None, mem) \<Rightarrow> Some (DELETE_NOT_FOUND, Some left, Some left, mem)
              | (Some _, mem) \<Rightarrow> Some (DELETE_UPDATED, Some left, Some (mpt_node_extension new_path grandchild), mem))
      | _ \<Rightarrow> do {
          r \<leftarrow> mpt_node_ref alloc keccak new_child;
          let updated = update_node node (MPT_NODE_EXTENSION path r);
          Some (DELETE_UPDATED, Some updated, Some updated, mem)
        })"

function delete_recursive :: "allocator \<Rightarrow> hash_fun \<Rightarrow> mpt_node_t option \<Rightarrow> nibbles_t \<Rightarrow> nat \<Rightarrow> node_mem \<Rightarrow>
    delete_outcome option" where
  "delete_recursive alloc keccak None key offset mem = Some (DELETE_NOT_FOUND, None, None, mem)"
| "delete_recursive alloc keccak (Some node) key offset mem =
     (case node_body node of
        MPT_NODE_EMPTY \<Rightarrow> Some (DELETE_NOT_FOUND, Some node, Some node, mem)
      | MPT_NODE_LEAF path lvalue \<Rightarrow>
          (if \<not> leaf_matches path key offset then Some (DELETE_NOT_FOUND, Some node, Some node, mem)
           else Some (DELETE_REMOVED, Some node, None, mem))
      | MPT_NODE_EXTENSION path child \<Rightarrow>
          (let match_len = find_divergence path key offset
           in if match_len \<noteq> length path then Some (DELETE_NOT_FOUND, Some node, Some node, mem)
              else (case ref_node child of
                      None \<Rightarrow> Some (DELETE_NOT_FOUND, Some node, Some node, mem)
                    | Some child_node \<Rightarrow> do {
                        (result, in_place, new_child, mem) \<leftarrow>
                          delete_recursive alloc keccak (Some child_node) key (offset + match_len) mem;
                        let left = Mpt_node (cached_hash node) (hash_valid node)
                                     (MPT_NODE_EXTENSION path (Node_ref (ref_union child) in_place));
                        if result = DELETE_NOT_FOUND then Some (DELETE_NOT_FOUND, Some left, Some left, mem)
                        else if result = DELETE_REMOVED then Some (DELETE_REMOVED, Some left, None, mem)
                        else (case new_child of
                                None \<Rightarrow> Some (DELETE_REMOVED, Some left, None, mem)
                              | Some new_child \<Rightarrow> merge_extension alloc keccak node path child in_place new_child mem)
                      }))
      | MPT_NODE_BRANCH children bvalue \<Rightarrow>
          (if offset \<ge> length key
           then (if bytes_data bvalue = None then Some (DELETE_NOT_FOUND, Some node, Some node, mem)
                 else do {
                   (in_place, out_node, mem) \<leftarrow> collapse_branch alloc keccak
                     (Mpt_node (cached_hash node) (hash_valid node) (MPT_NODE_BRANCH children no_value)) mem;
                   Some (DELETE_UPDATED, Some in_place, Some out_node, mem)
                 })
           else
             (let nibble = unat (key ! offset)
              in if \<not> nibble < length children then None
                 else if node_ref_is_null (children ! nibble) then Some (DELETE_NOT_FOUND, Some node, Some node, mem)
                 else (case ref_node (children ! nibble) of
                         None \<Rightarrow> Some (DELETE_NOT_FOUND, Some node, Some node, mem)
                       | Some child \<Rightarrow> do {
                           (result, in_place, new_child, mem) \<leftarrow>
                             delete_recursive alloc keccak (Some child) key (offset + 1) mem;
                           if result = DELETE_NOT_FOUND
                           then (let left = Mpt_node (cached_hash node) (hash_valid node) (MPT_NODE_BRANCH
                                   (children[nibble := Node_ref (ref_union (children ! nibble)) in_place]) bvalue)
                                 in Some (DELETE_NOT_FOUND, Some left, Some left, mem))
                           else do {
                             r \<leftarrow> (if result = DELETE_REMOVED \<or> new_child = None then Some node_ref_null
                                   else mpt_node_ref alloc keccak (the new_child));
                             (in_place, out_node, mem) \<leftarrow> collapse_branch alloc keccak
                               (Mpt_node (cached_hash node) (hash_valid node)
                                 (MPT_NODE_BRANCH (children[nibble := r]) bvalue)) mem;
                             Some (DELETE_UPDATED, Some in_place, Some out_node, mem)
                           }
                         }))))"
  by pat_completeness auto

termination delete_recursive
  by (relation "measure (\<lambda>(_, _, n, _, _, _). size_option size n)")
    (auto intro: size_extension_child size_branch_child)


section \<open>Lookup\<close>

text \<open>The loops of \<open>mpt_get\<close> and \<open>mpt_contains\<close>.\<close>

function get_loop :: "mpt_node_t option \<Rightarrow> nibbles_t \<Rightarrow> nat \<Rightarrow> bytes_t" where
  "get_loop None key offset = no_value"
| "get_loop (Some node) key offset =
     (case node_body node of
        MPT_NODE_EMPTY \<Rightarrow> no_value
      | MPT_NODE_LEAF path lvalue \<Rightarrow> (if leaf_matches path key offset then lvalue else no_value)
      | MPT_NODE_EXTENSION path child \<Rightarrow>
          (let match_len = find_divergence path key offset
           in if match_len \<noteq> length path then no_value
              else (case ref_node child of
                      None \<Rightarrow> no_value
                    | Some n \<Rightarrow> get_loop (Some n) key (offset + match_len)))
      | MPT_NODE_BRANCH children bvalue \<Rightarrow>
          (if offset \<ge> length key then bvalue
           else
             (let nibble = unat (key ! offset)
              in if \<not> nibble < length children then no_value
                 else if node_ref_is_null (children ! nibble) then no_value
                 else (case ref_node (children ! nibble) of
                         None \<Rightarrow> no_value
                       | Some n \<Rightarrow> get_loop (Some n) key (offset + 1)))))"
  by pat_completeness auto

termination get_loop
  by (relation "measure (\<lambda>(n, _, _). size_option size n)") (auto intro: size_extension_child size_branch_child)

function contains_loop :: "mpt_node_t option \<Rightarrow> nibbles_t \<Rightarrow> nat \<Rightarrow> bool" where
  "contains_loop None key offset = False"
| "contains_loop (Some node) key offset =
     (case node_body node of
        MPT_NODE_EMPTY \<Rightarrow> False
      | MPT_NODE_LEAF path lvalue \<Rightarrow> leaf_matches path key offset
      | MPT_NODE_EXTENSION path child \<Rightarrow>
          (let match_len = find_divergence path key offset
           in if match_len \<noteq> length path then False
              else (case ref_node child of
                      None \<Rightarrow> False
                    | Some n \<Rightarrow> contains_loop (Some n) key (offset + match_len)))
      | MPT_NODE_BRANCH children bvalue \<Rightarrow>
          (if offset \<ge> length key then bytes_data bvalue \<noteq> None
           else
             (let nibble = unat (key ! offset)
              in if \<not> nibble < length children then False
                 else if node_ref_is_null (children ! nibble) then False
                 else (case ref_node (children ! nibble) of
                         None \<Rightarrow> False
                       | Some n \<Rightarrow> contains_loop (Some n) key (offset + 1)))))"
  by pat_completeness auto

termination contains_loop
  by (relation "measure (\<lambda>(n, _, _). size_option size n)") (auto intro: size_extension_child size_branch_child)


section \<open>The interface\<close>

definition mpt_insert :: "allocator \<Rightarrow> hash_fun \<Rightarrow> mpt_t \<Rightarrow> u8 list \<Rightarrow> u8 list \<Rightarrow> node_mem \<Rightarrow>
    (bool \<times> mpt_t \<times> node_mem) option" where
  "mpt_insert alloc keccak mpt key value mem =
     (case mpt_backend mpt of
        None \<Rightarrow> Some (False, mpt, mem)
      | Some backend \<Rightarrow> do {
          let key_nibbles = nibbles_from_bytes alloc key;
          (new_root, mem) \<leftarrow> insert_recursive alloc keccak (memory_get_root backend) key_nibbles 0 value mem;
          case new_root of
            None \<Rightarrow> Some (False, mpt, mem)
          | Some root \<Rightarrow> Some (True, mpt\<lparr>mpt_backend := Some (memory_set_root backend (Some root))\<rparr>, mem)
        })"

definition mpt_get :: "allocator \<Rightarrow> mpt_t \<Rightarrow> u8 list \<Rightarrow> bytes_t" where
  "mpt_get alloc mpt key =
     (case mpt_backend mpt of
        None \<Rightarrow> no_value
      | Some backend \<Rightarrow> get_loop (memory_get_root backend) (nibbles_from_bytes alloc key) 0)"

definition mpt_contains :: "allocator \<Rightarrow> mpt_t \<Rightarrow> u8 list \<Rightarrow> bool" where
  "mpt_contains alloc mpt key =
     (case mpt_backend mpt of
        None \<Rightarrow> False
      | Some backend \<Rightarrow> contains_loop (memory_get_root backend) (nibbles_from_bytes alloc key) 0)"

text \<open>Where the key is not found, the root is the node in place.\<close>

definition mpt_delete :: "allocator \<Rightarrow> hash_fun \<Rightarrow> mpt_t \<Rightarrow> u8 list \<Rightarrow> node_mem \<Rightarrow>
    (bool \<times> mpt_t \<times> node_mem) option" where
  "mpt_delete alloc keccak mpt key mem =
     (case mpt_backend mpt of
        None \<Rightarrow> Some (False, mpt, mem)
      | Some backend \<Rightarrow>
          (case memory_get_root backend of
             None \<Rightarrow> Some (False, mpt, mem)
           | Some root \<Rightarrow>
               if mpt_node_is_empty root then Some (False, mpt, mem)
               else do {
                 let key_nibbles = nibbles_from_bytes alloc key;
                 (result, in_place, new_root, mem) \<leftarrow> delete_recursive alloc keccak (Some root) key_nibbles 0 mem;
                 if result = DELETE_NOT_FOUND
                 then Some (False, mpt\<lparr>mpt_backend := Some (backend\<lparr>mem_root := in_place\<rparr>)\<rparr>, mem)
                 else Some (True, mpt\<lparr>mpt_backend := Some (memory_set_root backend new_root)\<rparr>, mem)
               }))"

text \<open>The hash and the trie, in whose root the hash is now cached.\<close>

definition mpt_root_hash :: "allocator \<Rightarrow> hash_fun \<Rightarrow> mpt_t \<Rightarrow> (hash_t \<times> mpt_t) option" where
  "mpt_root_hash alloc keccak mpt =
     (case mpt_backend mpt of
        None \<Rightarrow> Some (MPT_EMPTY_ROOT, mpt)
      | Some backend \<Rightarrow>
          (case memory_get_root backend of
             None \<Rightarrow> Some (MPT_EMPTY_ROOT, mpt)
           | Some root \<Rightarrow>
               if mpt_node_is_empty root then Some (MPT_EMPTY_ROOT, mpt)
               else do {
                 (h, root) \<leftarrow> mpt_node_hash alloc keccak root;
                 Some (h, mpt\<lparr>mpt_backend := Some (backend\<lparr>mem_root := Some root\<rparr>)\<rparr>)
               }))"

definition mpt_is_empty :: "mpt_t \<Rightarrow> bool" where
  "mpt_is_empty mpt =
     (case mpt_backend mpt of
        None \<Rightarrow> True
      | Some backend \<Rightarrow>
          (case memory_get_root backend of None \<Rightarrow> True | Some root \<Rightarrow> mpt_node_is_empty root))"

definition mpt_clear :: "mpt_t \<Rightarrow> mpt_t" where
  "mpt_clear mpt = mpt\<lparr>mpt_backend := map_option memory_clear (mpt_backend mpt)\<rparr>"

definition mpt_destroy :: "mpt_t \<Rightarrow> mpt_t" where
  "mpt_destroy mpt = mpt\<lparr>mpt_backend := None\<rparr>"

end
