(* ===== verification/Mpt_Map.thy ===== *)
theory Mpt_Map
  imports Mpt
begin

text \<open>
  The trie of \<open>Mpt\<close> as a map: the map a node stands for, the invariant of a canonical trie, and the
  proofs that lookup, insertion and deletion implement the operations of the map and keep the
  invariant.
\<close>

section \<open>The map a trie stands for\<close>

definition stored :: "bytes_t \<Rightarrow> u8 list option" where
  "stored v = (if bytes_data v = None then None else Some (bytes_contents v))"

text \<open>A map whose keys are put behind a prefix, and a map split by the first nibble of its keys.\<close>

definition prefix_map :: "nibbles_t \<Rightarrow> (nibbles_t \<rightharpoonup> u8 list) \<Rightarrow> nibbles_t \<rightharpoonup> u8 list" where
  "prefix_map p m k = (if take (length p) k = p then m (drop (length p) k) else None)"

definition branch_map :: "(nibbles_t \<rightharpoonup> u8 list) list \<Rightarrow> u8 list option \<Rightarrow> nibbles_t \<rightharpoonup> u8 list" where
  "branch_map ms v k =
     (case k of [] \<Rightarrow> v | x # ks \<Rightarrow> if unat x < length ms then (ms ! unat x) ks else None)"

function entries :: "mpt_node_t \<Rightarrow> nibbles_t \<rightharpoonup> u8 list" where
  "entries node =
     (case node_body node of
        MPT_NODE_EMPTY \<Rightarrow> Map.empty
      | MPT_NODE_LEAF p v \<Rightarrow> Map.empty(p := stored v)
      | MPT_NODE_EXTENSION p r \<Rightarrow>
          prefix_map p (case ref_node r of None \<Rightarrow> Map.empty | Some n \<Rightarrow> entries n)
      | MPT_NODE_BRANCH rs v \<Rightarrow>
          branch_map (map (\<lambda>r. case ref_node r of None \<Rightarrow> Map.empty | Some n \<Rightarrow> entries n) rs) (stored v))"
  by pat_completeness auto

lemma size_branch_child_in:
  "node_body node = MPT_NODE_BRANCH cs v \<Longrightarrow> r \<in> set cs \<Longrightarrow> ref_node r = Some n \<Longrightarrow> size n < size node"
  by (auto simp: in_set_conv_nth intro: size_branch_child)

termination entries
  by (relation "measure size") (auto intro: size_extension_child size_branch_child_in)

declare entries.simps [simp del]

definition ref_map :: "mpt_node_t node_ref_t \<Rightarrow> nibbles_t \<rightharpoonup> u8 list" where
  "ref_map r = (case ref_node r of None \<Rightarrow> Map.empty | Some n \<Rightarrow> entries n)"

definition root_map :: "mpt_node_t option \<Rightarrow> nibbles_t \<rightharpoonup> u8 list" where
  "root_map = case_option Map.empty entries"

lemma root_map_simps [simp]: "root_map None = Map.empty" "root_map (Some n) = entries n"
  by (simp_all add: root_map_def)

lemma entries_body:
  "node_body n = MPT_NODE_EMPTY \<Longrightarrow> entries n = Map.empty"
  "node_body n = MPT_NODE_LEAF p v \<Longrightarrow> entries n = Map.empty(p := stored v)"
  "node_body n = MPT_NODE_EXTENSION p r \<Longrightarrow> entries n = prefix_map p (ref_map r)"
  "node_body n = MPT_NODE_BRANCH rs v \<Longrightarrow> entries n = branch_map (map ref_map rs) (stored v)"
  by (simp_all add: entries.simps [of n] ref_map_def [abs_def])

lemma entries_node [simp]:
  "entries (Mpt_node h b (MPT_NODE_LEAF p v)) = Map.empty(p := stored v)"
  "entries (Mpt_node h b (MPT_NODE_EXTENSION p r)) = prefix_map p (ref_map r)"
  "entries (Mpt_node h b (MPT_NODE_BRANCH rs v)) = branch_map (map ref_map rs) (stored v)"
  "entries (mpt_node_leaf p v) = Map.empty(p := stored v)"
  "entries (mpt_node_extension p r) = prefix_map p (ref_map r)"
  by (simp_all add: entries_body mpt_node_leaf_def mpt_node_extension_def)

lemma entries_update [simp]:
  "entries (update_node n (MPT_NODE_LEAF p v)) = Map.empty(p := stored v)"
  "entries (update_node n (MPT_NODE_EXTENSION p r)) = prefix_map p (ref_map r)"
  "entries (update_node n (MPT_NODE_BRANCH rs v)) = branch_map (map ref_map rs) (stored v)"
  "entries (mpt_node_invalidate_hash n) = entries n"
  by (simp_all add: update_node_def mpt_node_invalidate_hash_def entries.simps [of "Mpt_node _ _ _"] entries.simps [of n])
    (simp_all add: ref_map_def [abs_def])

lemma entries_branch_node [simp]: "entries (branch_node b) = branch_map (map ref_map (fst b)) (stored (snd b))"
  by (simp add: branch_node_def split: prod.split)

lemma ref_map_simps [simp]:
  "ref_map node_ref_null = Map.empty" "ref_of keccak n r \<Longrightarrow> ref_map r = entries n"
  by (simp_all add: ref_map_def node_ref_null_def ref_of_def)

lemma stored_no_value [simp]: "stored no_value = None"
  by (simp add: stored_def no_value_def)

text \<open>Prefixes.\<close>

lemma prefix_map_append: "prefix_map p m (p @ k) = m k"
  by (simp add: prefix_map_def)

lemma prefix_map_Nil [simp]: "prefix_map [] m = m"
  by (simp add: prefix_map_def fun_eq_iff)

lemma prefix_map_empty [simp]: "prefix_map p Map.empty = Map.empty"
  by (simp add: prefix_map_def fun_eq_iff)

lemma prefix_map_upd: "prefix_map p (m(k := v)) = (prefix_map p m)(p @ k := v)"
  by (auto simp: prefix_map_def fun_eq_iff) (metis append_take_drop_id)+

lemma take_append_eq: "take (length p + length q) k = p @ q \<longleftrightarrow> take (length p) k = p \<and> take (length q) (drop (length p) k) = q"
proof -
  have "take (length p + length q) k = take (length p) k @ take (length q) (drop (length p) k)"
    by (rule take_add)
  then show ?thesis
    by (cases "length p \<le> length k") (auto dest: arg_cong [where f = length])
qed

lemma prefix_map_prefix: "prefix_map p (prefix_map q m) = prefix_map (p @ q) m"
  by (auto simp: prefix_map_def fun_eq_iff take_append_eq add.commute)

lemma branch_map_simps [simp]:
  "branch_map ms v [] = v" "unat x < length ms \<Longrightarrow> branch_map ms v (x # ks) = (ms ! unat x) ks"
  by (simp_all add: branch_map_def)

lemma branch_map_value: "branch_map ms w = (branch_map ms v)([] := w)"
  by (auto simp: branch_map_def fun_eq_iff split: list.split)

lemma branch_map_child:
  "unat x < length ms \<Longrightarrow> branch_map (ms[unat x := m(k := w)]) v = (branch_map (ms[unat x := m]) v)(x # k := w)"
  by (auto simp: branch_map_def fun_eq_iff nth_list_update word_unat_eq_iff split: list.split)


section \<open>Lookup\<close>

declare divergence_loop.simps [simp del] insert_recursive.simps [simp del] delete_recursive.simps [simp del]
  get_loop.simps [simp del] contains_loop.simps [simp del]

lemma divergence_loop_eq:
  "i \<le> length path \<Longrightarrow> divergence_loop path key offset i = i + lcp (drop i path) (drop (offset + i) key)"
proof (induction "length path - i" arbitrary: i)
  case 0
  then show ?case by (simp add: divergence_loop.simps)
next
  case (Suc n)
  have i: "i < length path" using Suc.hyps(2) by simp
  then have p: "drop i path = path ! i # drop (Suc i) path" by (simp add: Cons_nth_drop_Suc)
  show ?case
  proof (cases "offset + i < length key")
    case True
    then have "drop (offset + i) key = key ! (offset + i) # drop (Suc (offset + i)) key"
      by (simp add: Cons_nth_drop_Suc)
    then show ?thesis using p i True Suc.hyps by (subst divergence_loop.simps) simp
  next
    case False
    then show ?thesis using p i by (subst divergence_loop.simps) simp
  qed
qed

lemma find_divergence_eq: "find_divergence path key offset = lcp path (drop offset key)"
  by (simp add: find_divergence_def divergence_loop_eq)

lemma leaf_matches_eq: "offset \<le> length key \<Longrightarrow> leaf_matches path key offset \<longleftrightarrow> drop offset key = path"
  by (auto simp: leaf_matches_def list_all_iff intro: nth_equalityI)

lemma prefix_map_lcp: "prefix_map p m k = (if lcp p k = length p then m (drop (length p) k) else None)"
proof -
  have "lcp p k = length p \<longleftrightarrow> take (length p) k = p"
    unfolding lcp_full by (metis append_eq_conv_conj)
  then show ?thesis by (simp add: prefix_map_def)
qed

lemma not_null_ref: "ref_node r = Some n \<Longrightarrow> \<not> node_ref_is_null r"
  by (simp add: node_ref_is_null_def)

lemma drop_key: "offset < length key \<Longrightarrow> drop offset key = key ! offset # drop (offset + 1) key"
  by (simp add: Cons_nth_drop_Suc)

lemma get_loop_eq: "offset \<le> length key \<Longrightarrow> stored (get_loop node key offset) = root_map node (drop offset key)"
proof (induction node key offset rule: get_loop.induct)
  case (2 node key offset)
  note e = get_loop.simps(2) [of node key offset]
  show ?case
  proof (cases "node_body node")
    case (MPT_NODE_EXTENSION p r)
    show ?thesis
    proof (cases "ref_node r")
      case (Some n)
      show ?thesis
      proof (cases "lcp p (drop offset key) = length p")
        case True
        then have "offset + length p \<le> length key" using lcp_le(2) [of p "drop offset key"] 2(3) by simp
        then show ?thesis using 2(1) [OF MPT_NODE_EXTENSION] True Some MPT_NODE_EXTENSION
          unfolding e by (simp add: entries_body prefix_map_lcp find_divergence_eq ref_map_def add.commute)
      next
        case False
        then show ?thesis using MPT_NODE_EXTENSION unfolding e by (simp add: entries_body prefix_map_lcp find_divergence_eq)
      qed
    next
      case None
      then show ?thesis using MPT_NODE_EXTENSION unfolding e by (simp add: entries_body prefix_map_lcp ref_map_def Let_def)
    qed
  next
    case (MPT_NODE_BRANCH rs v)
    show ?thesis
    proof (cases "offset < length key")
      case True
      then show ?thesis
        using 2(2) [OF MPT_NODE_BRANCH] MPT_NODE_BRANCH drop_key [OF True] unfolding e
        by (cases "ref_node (rs ! unat (key ! offset))")
          (auto simp: entries_body branch_map_def ref_map_def Let_def not_null_ref)
    next
      case False
      then show ?thesis using MPT_NODE_BRANCH unfolding e by (simp add: entries_body)
    qed
  next
    case (MPT_NODE_LEAF p v)
    then show ?thesis using 2(3) unfolding e by (simp add: entries_body leaf_matches_eq)
  qed (unfold e, simp add: entries_body)
qed (simp add: get_loop.simps(1))


section \<open>The invariant\<close>

definition hash_ok :: "hash_fun \<Rightarrow> mpt_node_t \<Rightarrow> bool" where
  "hash_ok keccak n \<longleftrightarrow> (hash_valid n \<longrightarrow> cached_hash n = keccak (body_rlp (node_body n)))"

definition value_small :: "bytes_t \<Rightarrow> bool" where
  "value_small v \<longleftrightarrow> length (bytes_contents v) < 2 ^ 62"

text \<open>
  The places of a branch that are taken: \<open>None\<close> is its value.
\<close>

definition slot :: "branch_parts \<Rightarrow> nat option \<Rightarrow> bool" where
  "slot b s = (case s of None \<Rightarrow> bytes_data (snd b) \<noteq> None
                 | Some i \<Rightarrow> i < length (fst b) \<and> ref_node (fst b ! i) \<noteq> None)"

text \<open>
  A canonical trie with keys of at most \<open>d\<close> nibbles: the path of an extension is not empty and
  leads to a branch, a branch has two places taken, references hold the encoding of the node they
  point to, and a valid cached hash is the hash of the node.
\<close>

inductive mpt_wf :: "hash_fun \<Rightarrow> nat \<Rightarrow> mpt_node_t \<Rightarrow> bool" for keccak where
  wf_leaf: "nibble_seq p \<Longrightarrow> length p \<le> d \<Longrightarrow> bytes_data v \<noteq> None \<Longrightarrow> value_small v \<Longrightarrow>
    hash_ok keccak (Mpt_node h b (MPT_NODE_LEAF p v)) \<Longrightarrow> mpt_wf keccak d (Mpt_node h b (MPT_NODE_LEAF p v))"
| wf_extension: "nibble_seq p \<Longrightarrow> p \<noteq> [] \<Longrightarrow> length p \<le> d \<Longrightarrow> ref_of keccak n r \<Longrightarrow>
    mpt_node_is_branch n \<Longrightarrow> mpt_wf keccak (d - length p) n \<Longrightarrow>
    hash_ok keccak (Mpt_node h b (MPT_NODE_EXTENSION p r)) \<Longrightarrow> mpt_wf keccak d (Mpt_node h b (MPT_NODE_EXTENSION p r))"
| wf_branch: "length rs = 16 \<Longrightarrow>
    (\<forall>r\<in>set rs. r = node_ref_null \<or> (\<exists>n. ref_of keccak n r \<and> 0 < d \<and> mpt_wf keccak (d - 1) n)) \<Longrightarrow>
    value_small v \<Longrightarrow> slot (rs, v) s \<Longrightarrow> slot (rs, v) t \<Longrightarrow> s \<noteq> t \<Longrightarrow>
    hash_ok keccak (Mpt_node h b (MPT_NODE_BRANCH rs v)) \<Longrightarrow> mpt_wf keccak d (Mpt_node h b (MPT_NODE_BRANCH rs v))"

inductive_simps mpt_wf_leaf: "mpt_wf keccak d (Mpt_node h b (MPT_NODE_LEAF p v))"
inductive_simps mpt_wf_extension: "mpt_wf keccak d (Mpt_node h b (MPT_NODE_EXTENSION p r))"
inductive_simps mpt_wf_branch: "mpt_wf keccak d (Mpt_node h b (MPT_NODE_BRANCH rs v))"
inductive_simps mpt_wf_empty: "mpt_wf keccak d (Mpt_node h b MPT_NODE_EMPTY)"

definition child_ok :: "hash_fun \<Rightarrow> nat \<Rightarrow> mpt_node_t node_ref_t \<Rightarrow> bool" where
  "child_ok keccak d r \<longleftrightarrow> r = node_ref_null \<or> (\<exists>n. ref_of keccak n r \<and> 0 < d \<and> mpt_wf keccak (d - 1) n)"

text \<open>The parts of a branch, without the condition on the number of places taken.\<close>

definition parts_ok :: "hash_fun \<Rightarrow> nat \<Rightarrow> branch_parts \<Rightarrow> bool" where
  "parts_ok keccak d b \<longleftrightarrow> length (fst b) = 16 \<and> (\<forall>r\<in>set (fst b). child_ok keccak d r) \<and> value_small (snd b)"

definition parts_map :: "branch_parts \<Rightarrow> nibbles_t \<rightharpoonup> u8 list" where
  "parts_map b = branch_map (map ref_map (fst b)) (stored (snd b))"

lemma ref_small_of: "ref_of keccak n r \<Longrightarrow> ref_small r"
  by (auto simp: ref_of_def ref_small_def split: if_splits)

lemma ref_small_null [simp]: "ref_small node_ref_null"
  by (simp add: ref_small_def node_ref_null_def no_value_def bytes_contents_def)

lemma wf_small: "mpt_wf keccak d n \<Longrightarrow> d < 2 ^ 62 \<Longrightarrow> body_small (node_body n) \<and> node_body n \<noteq> MPT_NODE_EMPTY"
  by (induction rule: mpt_wf.induct) (auto simp: value_small_def ref_small_of)

lemma child_ok_small: "child_ok keccak d r \<Longrightarrow> ref_small r"
  by (auto simp: child_ok_def ref_small_of)

lemma parts_small: "parts_ok keccak d b \<Longrightarrow> body_small (node_body (branch_node b)) \<and> node_body (branch_node b) \<noteq> MPT_NODE_EMPTY"
  by (auto simp: parts_ok_def branch_node_def value_small_def intro: child_ok_small split: prod.split)

lemma wf_branch_node:
  assumes "parts_ok keccak d b" "slot b s" "slot b t" "s \<noteq> t"
  shows "mpt_wf keccak d (branch_node b)"
  using assms by (cases b) (auto simp: branch_node_def mpt_wf_branch parts_ok_def child_ok_def hash_ok_def)

lemma wf_branch_parts:
  "mpt_wf keccak d (Mpt_node h v (MPT_NODE_BRANCH rs w)) \<longleftrightarrow>
     parts_ok keccak d (rs, w) \<and> (\<exists>s t. slot (rs, w) s \<and> slot (rs, w) t \<and> s \<noteq> t) \<and>
     hash_ok keccak (Mpt_node h v (MPT_NODE_BRANCH rs w))"
  by (auto simp: mpt_wf_branch parts_ok_def child_ok_def)

lemma wf_mono: "mpt_wf keccak d n \<Longrightarrow> d \<le> d' \<Longrightarrow> mpt_wf keccak d' n"
proof (induction arbitrary: d' rule: mpt_wf.induct)
  case (wf_branch rs d v s t h b)
  have "\<forall>r\<in>set rs. child_ok keccak d' r"
    using wf_branch.IH(1) wf_branch.prems unfolding child_ok_def by (meson diff_le_mono order_less_le_trans)
  then show ?case using wf_branch by (auto simp: wf_branch_parts parts_ok_def)
qed (auto simp: mpt_wf_leaf mpt_wf_extension diff_le_mono intro: exI)

text \<open>Calls that return, and fail only where a node allocation fails.\<close>

definition good :: "node_mem \<Rightarrow> ('a \<Rightarrow> bool) \<Rightarrow> ('a option \<times> node_mem) option \<Rightarrow> bool" where
  "good mem Q m \<longleftrightarrow> (\<exists>r mem'. m = Some (r, mem') \<and> set mem' \<subseteq> set mem \<and>
     (case r of None \<Rightarrow> False \<in> set mem | Some x \<Rightarrow> Q x))"

lemma good_return: "Q x \<Longrightarrow> good mem Q (Some (Some x, mem))"
  by (simp add: good_def)

lemma good_with_node:
  assumes "\<And>mem'. good mem' Q (k mem')"
  shows "good mem Q (with_node mem k)"
proof (cases mem)
  case Nil
  then show ?thesis using assms by (simp add: with_node_def memory_alloc_node_def)
next
  case (Cons ok mem')
  have "good mem Q (k mem')" using assms [of mem'] Cons unfolding good_def by (fastforce split: option.splits)
  then show ?thesis using Cons by (cases ok) (auto simp: with_node_def memory_alloc_node_def good_def)
qed

lemma good_bind:
  assumes "good mem P m" "\<And>x mem'. P x \<Longrightarrow> good mem' Q (k x mem')"
  shows "good mem Q (node_bind m k)"
proof -
  obtain r mem' where m: "m = Some (r, mem')" "set mem' \<subseteq> set mem" "case r of None \<Rightarrow> False \<in> set mem | Some x \<Rightarrow> P x"
    using assms(1) by (auto simp: good_def)
  show ?thesis
  proof (cases r)
    case None
    then show ?thesis using m by (simp add: node_bind_def good_def)
  next
    case (Some x)
    then have "good mem' Q (k x mem')" using m(3) assms(2) by simp
    then have "good mem Q (k x mem')" using m(2) unfolding good_def by (fastforce split: option.splits)
    then show ?thesis using m Some by (simp add: node_bind_def)
  qed
qed

lemma good_mono: "good mem P m \<Longrightarrow> (\<And>x. P x \<Longrightarrow> Q x) \<Longrightarrow> good mem Q m"
  unfolding good_def by (fastforce split: option.splits)

lemma copy_value_returns:
  assumes "alloc_total alloc" "length value < 2 ^ 62"
  obtains v where "copy_value alloc value = Some v" "bytes_data v \<noteq> None" "stored v = Some value" "value_small v"
proof (cases "value = []")
  case True
  then show ?thesis
    by (intro that [of "bytes_init_arena\<lparr>bytes_data := Some empty_value_sentinel, bytes_size := 0\<rparr>"])
      (simp_all add: copy_value_def stored_def bytes_contents_def value_small_def)
next
  case False
  obtain buf where buf: "alloc (length value) = Some buf" "length buf = length value"
    using alloc_totalD [OF assms(1)] by blast
  define v where "v = \<lparr>bytes_data = Some value, bytes_size = length value, bytes_capacity = length value, bytes_arena = True\<rparr>"
  have "copy_value alloc value = Some v"
    using False buf by (simp add: copy_value_def bytes_from_data_def bytes_reserve_def bytes_init_arena_def memcpy_at_def v_def)
  then show ?thesis using assms(2) by (intro that [of v]) (simp_all add: stored_def bytes_contents_def value_small_def v_def)
qed

lemma good_copy_value:
  assumes "alloc_total alloc" "length value < 2 ^ 62"
    "\<And>v. bytes_data v \<noteq> None \<Longrightarrow> stored v = Some value \<Longrightarrow> value_small v \<Longrightarrow> good mem Q (k v)"
  shows "good mem Q (copy_value alloc value \<bind> k)"
proof -
  obtain v where "copy_value alloc value = Some v" "bytes_data v \<noteq> None" "stored v = Some value" "value_small v"
    using copy_value_returns [OF assms(1,2)] by blast
  then show ?thesis using assms(3) by simp
qed

lemma good_node_ref:
  assumes "alloc_total alloc" "body_small (node_body n) \<and> node_body n \<noteq> MPT_NODE_EMPTY"
    "\<And>r. ref_of keccak n r \<Longrightarrow> good mem Q (k r)"
  shows "good mem Q (mpt_node_ref alloc keccak n \<bind> k)"
proof -
  obtain r where "mpt_node_ref alloc keccak n = Some r" "ref_of keccak n r"
    using mpt_node_ref_returns [OF assms(1)] assms(2) by blast
  then show ?thesis using assms(3) by simp
qed

lemmas good_rules = good_return good_with_node good_copy_value good_node_ref


section \<open>Insertion\<close>

definition head_slot :: "nibbles_t \<Rightarrow> nat option" where
  "head_slot k = (case k of [] \<Rightarrow> None | x # _ \<Rightarrow> Some (unat x))"

lemma head_slot_simps [simp]: "head_slot [] = None" "head_slot (x # k) = Some (unat x)"
  by (simp_all add: head_slot_def)

lemma nibble_unat: "x < 16 \<Longrightarrow> unat x < 16" for x :: u8
  by (simp add: word_less_nat_alt)

text \<open>A branch that gets a child, or a value, in a free place.\<close>

lemma put_child:
  assumes "parts_ok keccak d b" "x < 16" "child_ok keccak d r" "ref_node r \<noteq> None"
  shows "parts_ok keccak d ((fst b)[unat x := r], snd b)"
    "slot ((fst b)[unat x := r], snd b) = (slot b)(Some (unat x) := True)"
    "\<not> slot b (Some (unat x)) \<Longrightarrow> parts_map ((fst b)[unat x := r], snd b) = parts_map b ++ prefix_map [x] (ref_map r)"
proof -
  have l: "length (fst b) = 16" "unat x < 16" using assms(1,2) nibble_unat by (auto simp: parts_ok_def)
  show "parts_ok keccak d ((fst b)[unat x := r], snd b)"
    using assms by (auto simp: parts_ok_def dest!: set_update_subset_insert [THEN subsetD])
  show "slot ((fst b)[unat x := r], snd b) = (slot b)(Some (unat x) := True)"
    using l assms(4) by (auto simp: slot_def fun_eq_iff nth_list_update split: option.splits)
  assume "\<not> slot b (Some (unat x))"
  then have n: "ref_map (fst b ! unat x) = Map.empty" using l by (simp add: slot_def ref_map_def)
  show "parts_map ((fst b)[unat x := r], snd b) = parts_map b ++ prefix_map [x] (ref_map r)"
  proof
    fix k
    show "parts_map ((fst b)[unat x := r], snd b) k = (parts_map b ++ prefix_map [x] (ref_map r)) k"
    proof (cases k)
      case (Cons y ks)
      show ?thesis
      proof (cases "y = x")
        case True
        then show ?thesis using l n Cons
          by (simp add: parts_map_def branch_map_def map_add_def prefix_map_def split: option.split)
      next
        case False
        then have "unat y \<noteq> unat x" by (simp add: word_unat_eq_iff)
        then show ?thesis using False Cons
          by (simp add: parts_map_def branch_map_def map_add_def prefix_map_def nth_list_update)
      qed
    qed (simp add: parts_map_def map_add_def prefix_map_def)
  qed
qed

lemma put_value:
  assumes "parts_ok keccak d b" "bytes_data v \<noteq> None" "value_small v"
  shows "parts_ok keccak d (fst b, v)" "slot (fst b, v) = (slot b)(None := True)"
    "parts_map (fst b, v) = (parts_map b)([] := stored v)"
  using assms branch_map_value [of "map ref_map (fst b)" "stored v" "stored (snd b)"]
  by (auto simp: parts_ok_def slot_def fun_eq_iff parts_map_def split: option.splits)

lemma prefix_map_single: "prefix_map p (Map.empty(k := v)) = Map.empty(p @ k := v)"
  by (simp add: prefix_map_upd)

lemma wf_mpt_node_leaf:
  "nibble_seq p \<Longrightarrow> length p \<le> d \<Longrightarrow> bytes_data v \<noteq> None \<Longrightarrow> value_small v \<Longrightarrow> mpt_wf keccak d (mpt_node_leaf p v)"
  by (simp add: mpt_node_leaf_def mpt_wf_leaf hash_ok_def)

lemma wf_mpt_node_extension:
  "nibble_seq p \<Longrightarrow> p \<noteq> [] \<Longrightarrow> length p \<le> d \<Longrightarrow> ref_of keccak n r \<Longrightarrow> mpt_node_is_branch n \<Longrightarrow>
    mpt_wf keccak (d - length p) n \<Longrightarrow> mpt_wf keccak d (mpt_node_extension p r)"
  by (auto simp: mpt_node_extension_def mpt_wf_extension hash_ok_def)

lemma ref_of_node: "ref_of keccak n r \<Longrightarrow> ref_node r = Some n"
  by (simp add: ref_of_def)

lemma leaf_small:
  "length p < 2 ^ 62 \<Longrightarrow> value_small v \<Longrightarrow>
    body_small (node_body (mpt_node_leaf p v)) \<and> node_body (mpt_node_leaf p v) \<noteq> MPT_NODE_EMPTY"
  by (simp add: mpt_node_leaf_def value_small_def)

text \<open>What a step that adds one entry \<open>k\<close> to a branch promises.\<close>

definition adds :: "hash_fun \<Rightarrow> nat \<Rightarrow> branch_parts \<Rightarrow> nibbles_t \<Rightarrow> (nibbles_t \<rightharpoonup> u8 list) \<Rightarrow> branch_parts \<Rightarrow> bool" where
  "adds keccak d b k m b' \<longleftrightarrow> parts_ok keccak d b' \<and> slot b' = (slot b)(head_slot k := True) \<and>
     parts_map b' = parts_map b ++ m"

lemma adds_leaf:
  assumes "parts_ok keccak d b" "\<not> slot b (Some (unat x))" "nibble_seq (x # q)" "length q < d"
    "bytes_data v \<noteq> None" "value_small v" "ref_of keccak (mpt_node_leaf q v) r" "stored v = w"
  shows "adds keccak d b (x # q) (Map.empty(x # q := w)) ((fst b)[unat x := r], snd b)"
proof -
  have "child_ok keccak d r"
    using assms wf_mpt_node_leaf [of q "d - 1" v keccak] by (auto simp: child_ok_def)
  moreover have "ref_node r \<noteq> None" using ref_of_node assms(7) by simp
  ultimately show ?thesis
    using put_child [OF assms(1), of x r] assms(2,3,7,8) by (simp add: adds_def prefix_map_single)
qed

lemma adds_value:
  assumes "parts_ok keccak d b" "\<not> slot b None" "bytes_data v \<noteq> None" "value_small v" "stored v = w"
  shows "adds keccak d b [] (Map.empty([] := w)) (fst b, v)"
proof -
  have "(parts_map b)([] := stored v) = parts_map b ++ Map.empty([] := stored v)"
    using assms(2,3) by (auto simp: fun_eq_iff map_add_def slot_def parts_map_def stored_def)
  then show ?thesis using put_value [OF assms(1,3,4)] assms(5) by (simp add: adds_def)
qed

lemma add_old_leaf_good:
  assumes "alloc_total alloc" "parts_ok keccak d b" "\<not> slot b (head_slot (drop k p))" "nibble_seq p"
    "length p \<le> d + k" "d < 2 ^ 62" "bytes_data v \<noteq> None" "value_small v"
  shows "good mem (adds keccak d b (drop k p) (Map.empty(drop k p := stored v))) (add_old_leaf alloc keccak b p v k mem)"
proof (cases "k < length p")
  case True
  define x q where "x = p ! k" and "q = drop (k + 1) p"
  have p: "drop k p = x # q" using True by (simp add: x_def q_def drop_key)
  have "nibble_seq (x # q)" using nibble_seq_parts(2) [OF assms(4), of k] p by simp
  moreover have "length q < d" using True assms(5) by (simp add: q_def)
  moreover have "add_old_leaf alloc keccak b p v k mem = with_node mem (\<lambda>mem.
      mpt_node_ref alloc keccak (mpt_node_leaf q v) \<bind> (\<lambda>r. Some (Some ((fst b)[unat x := r], snd b), mem)))"
    using True by (simp add: add_old_leaf_def slice_eq(1) [OF assms(1)] x_def q_def)
  ultimately show ?thesis
    using assms p by (auto intro!: good_rules adds_leaf leaf_small)
next
  case False
  then show ?thesis using assms by (auto simp: add_old_leaf_def intro!: good_return adds_value)
qed

lemma add_new_key_good:
  assumes "alloc_total alloc" "parts_ok keccak d b" "\<not> slot b (head_slot (drop pos key))" "nibble_seq key"
    "length key \<le> d + pos" "d < 2 ^ 62" "length value < 2 ^ 62"
  shows "good mem (adds keccak d b (drop pos key) [drop pos key \<mapsto> value]) (add_new_key alloc keccak b key pos value mem)"
proof (cases "pos < length key")
  case True
  define x q where "x = key ! pos" and "q = drop (pos + 1) key"
  have p: "drop pos key = x # q" using True by (simp add: x_def q_def drop_key)
  have "nibble_seq (x # q)" using nibble_seq_parts(2) [OF assms(4), of pos] p by simp
  moreover have "length q < d" using True assms(5) by (simp add: q_def)
  moreover have "add_new_key alloc keccak b key pos value mem = with_node mem (\<lambda>mem.
      copy_value alloc value \<bind> (\<lambda>v. mpt_node_ref alloc keccak (mpt_node_leaf q v) \<bind>
      (\<lambda>r. Some (Some ((fst b)[unat x := r], snd b), mem))))"
    using True by (simp add: add_new_key_def slice_eq(1) [OF assms(1)] x_def q_def)
  ultimately show ?thesis
    using assms p by (auto intro!: good_rules leaf_small adds_leaf)
next
  case False
  then show ?thesis using assms by (auto simp: add_new_key_def intro!: good_rules adds_value)
qed


lemma extension_small:
  "length p < 2 ^ 62 \<Longrightarrow> ref_small r \<Longrightarrow>
    body_small (node_body (mpt_node_extension p r)) \<and> node_body (mpt_node_extension p r) \<noteq> MPT_NODE_EMPTY"
  by (simp add: mpt_node_extension_def)

lemma adds_ref:
  assumes "parts_ok keccak d b" "\<not> slot b (Some (unat x))" "x < 16" "0 < d" "mpt_wf keccak (d - 1) n" "ref_of keccak n r"
    "m = prefix_map [x] (entries n)"
  shows "adds keccak d b (x # q) m ((fst b)[unat x := r], snd b)"
proof -
  have "child_ok keccak d r" "ref_node r \<noteq> None" using assms ref_of_node by (auto simp: child_ok_def)
  then show ?thesis using put_child [OF assms(1,3), of r] assms by (simp add: adds_def)
qed

lemma add_old_extension_good:
  assumes "alloc_total alloc" "parts_ok keccak d b" "\<not> slot b (head_slot (drop k p))" "nibble_seq p" "k < length p"
    "length p \<le> d + k" "d < 2 ^ 62" "ref_of keccak n r" "mpt_node_is_branch n" "mpt_wf keccak (d + k - length p) n"
  shows "good mem (adds keccak d b (drop k p) (prefix_map (drop k p) (entries n)))
    (add_old_extension alloc keccak b p r k mem)"
proof -
  define x q where "x = p ! k" and "q = drop (k + 1) p"
  have p: "drop k p = x # q" using assms(5) by (simp add: x_def q_def drop_key)
  have s: "nibble_seq (x # q)" using nibble_seq_parts(2) [OF assms(4), of k] p by simp
  have lq: "length q = length p - k - 1" by (simp add: q_def)
  then have d: "0 < d" "length q \<le> d - 1" "d - 1 - length q = d + k - length p" using assms(5,6) by auto
  show ?thesis
  proof (cases "k + 1 < length p")
    case True
    have "mpt_wf keccak (d - 1) (mpt_node_extension q r)"
      using s True d assms(8-10) by (intro wf_mpt_node_extension) (auto simp: q_def)
    then have a: "adds keccak d b (x # q) (prefix_map (x # q) (entries n)) ((fst b)[unat x := r'], snd b)"
      if "ref_of keccak (mpt_node_extension q r) r'" for r'
      using assms(2,3,8) p s d that by (intro adds_ref) (auto simp: prefix_map_prefix)
    have "add_old_extension alloc keccak b p r k mem = with_node mem (\<lambda>mem.
        mpt_node_ref alloc keccak (mpt_node_extension q r) \<bind> (\<lambda>r. Some (Some ((fst b)[unat x := r], snd b), mem)))"
      using True by (simp add: add_old_extension_def slice_eq(1) [OF assms(1)] x_def q_def)
    then show ?thesis
      using assms(1,7) d a unfolding p by (auto intro!: good_rules extension_small ref_small_of [OF assms(8)])
  next
    case False
    then have "q = []" "length p = k + 1" using assms(5) by (simp_all add: q_def)
    then show ?thesis
      using False assms p s d unfolding p
      by (auto simp: add_old_extension_def x_def [symmetric] intro!: good_return adds_ref)
  qed
qed

lemma empty_branch_parts:
  "parts_ok keccak d empty_branch" "slot empty_branch = (\<lambda>_. False)" "parts_map empty_branch = Map.empty"
proof -
  show "parts_ok keccak d empty_branch"
    by (simp add: parts_ok_def empty_branch_def child_ok_def value_small_def no_value_def bytes_contents_def)
  show "slot empty_branch = (\<lambda>_. False)"
    by (auto simp: fun_eq_iff slot_def empty_branch_def no_value_def node_ref_null_def split: option.split)
  show "parts_map empty_branch = Map.empty"
    by (auto simp: fun_eq_iff parts_map_def empty_branch_def branch_map_def split: list.split)
qed

lemma two_entries:
  assumes "adds keccak d empty_branch k1 m1 b1" "adds keccak d b1 k2 m2 b2" "head_slot k1 \<noteq> head_slot k2"
  shows "mpt_wf keccak d (branch_node b2) \<and> entries (branch_node b2) = m1 ++ m2 \<and> mpt_node_is_branch (branch_node b2)"
proof -
  have b2: "parts_ok keccak d b2" "slot b2 (head_slot k1)" "slot b2 (head_slot k2)"
    using assms by (auto simp: adds_def)
  have "entries (branch_node b2) = m1 ++ m2"
    using assms by (simp add: adds_def parts_map_def [symmetric] empty_branch_parts(3))
  then show ?thesis
    using wf_branch_node [OF b2(1-3) assms(3)] by (simp add: mpt_node_is_branch_def branch_node_def split: prod.split)
qed

lemma lcp_slots:
  assumes "p \<noteq> k" shows "head_slot (drop (lcp p k) p) \<noteq> head_slot (drop (lcp p k) k)"
  using assms by (induction p k rule: lcp.induct) (auto simp: word_unat_eq_iff head_slot_def split: if_splits list.splits)

lemma free_slot: "adds keccak d empty_branch k1 m1 b1 \<Longrightarrow> head_slot k1 \<noteq> head_slot k2 \<Longrightarrow> \<not> slot b1 (head_slot k2)"
  by (simp add: adds_def empty_branch_parts(2))

lemma over_branch_good:
  assumes "alloc_total alloc" "mpt_wf keccak (d - length c) n" "mpt_node_is_branch n" "c \<noteq> []" "nibble_seq c"
    "length c \<le> d" "d < 2 ^ 62" "entries n = e"
  shows "good mem (\<lambda>n'. mpt_wf keccak d n' \<and> entries n' = prefix_map c e)
    (mpt_node_ref alloc keccak n \<bind> (\<lambda>r. Some (Some (mpt_node_extension c r), mem)))"
proof -
  have "d - length c < 2 ^ 62" using assms(7) by linarith
  from wf_small [OF assms(2) this] show ?thesis using assms by (auto intro!: good_rules wf_mpt_node_extension)
qed

lemma add_two_good:
  assumes "\<And>mem. good mem (adds keccak d empty_branch k1 m1) (old mem)"
    "\<And>b mem. parts_ok keccak d b \<Longrightarrow> \<not> slot b (head_slot k2) \<Longrightarrow> good mem (adds keccak d b k2 m2) (new b mem)"
    "head_slot k1 \<noteq> head_slot k2"
    "\<And>b mem. mpt_wf keccak d (branch_node b) \<Longrightarrow> mpt_node_is_branch (branch_node b) \<Longrightarrow>
      entries (branch_node b) = m1 ++ m2 \<Longrightarrow> good mem Q (rest b mem)"
  shows "good mem Q (node_bind (old mem) (\<lambda>b mem. node_bind (new b mem) rest))"
proof (rule good_bind [OF assms(1)])
  fix b mem assume b: "adds keccak d empty_branch k1 m1 b"
  have "parts_ok keccak d b" "\<not> slot b (head_slot k2)" using b free_slot [OF b assms(3)] by (simp_all add: adds_def)
  from assms(2) [OF this] show "good mem Q (node_bind (new b mem) rest)"
    by (rule good_bind) (use two_entries [OF b _ assms(3)] assms(4) in blast)
qed

text \<open>The map of a leaf that is split: the two entries, behind the common prefix.\<close>

lemma split_map:
  assumes "c = take (lcp p k) p" "drop (lcp p k) k = k'" "drop (lcp p k) p = p'"
  shows "prefix_map c (Map.empty(p' := v) ++ [k' \<mapsto> w]) = Map.empty(p := v, k \<mapsto> w)"
    "prefix_map c (prefix_map p' m ++ [k' \<mapsto> w]) = (prefix_map p m)(k \<mapsto> w)"
proof -
  have "c @ p' = p" "c @ k' = k"
    unfolding assms(1) assms(2,3) [symmetric] by (simp, simp only: lcp_take append_take_drop_id)
  then show "prefix_map c (Map.empty(p' := v) ++ [k' \<mapsto> w]) = Map.empty(p := v, k \<mapsto> w)"
    "prefix_map c (prefix_map p' m ++ [k' \<mapsto> w]) = (prefix_map p m)(k \<mapsto> w)"
    by (simp_all add: prefix_map_upd prefix_map_prefix)
qed

lemma wf_update_leaf:
  "nibble_seq p \<Longrightarrow> length p \<le> d \<Longrightarrow> bytes_data v \<noteq> None \<Longrightarrow> value_small v \<Longrightarrow>
    mpt_wf keccak d (update_node n (MPT_NODE_LEAF p v))"
  by (simp add: update_node_def mpt_node_invalidate_hash_def mpt_wf_leaf hash_ok_def)

lemma insert_leaf_good:
  assumes "alloc_total alloc" "nibble_seq p" "length p \<le> d" "bytes_data v \<noteq> None" "value_small v"
    "nibble_seq key" "offset < length key" "length key \<le> d + offset" "d < 2 ^ 62" "length value < 2 ^ 62"
  shows "good mem (\<lambda>n'. mpt_wf keccak d n' \<and> entries n' = Map.empty(p := stored v, drop offset key \<mapsto> value))
    (insert_leaf alloc keccak n p v key offset value mem)"
proof -
  define k where "k = drop offset key"
  define m where "m = lcp p k"
  define p' k' where "p' = drop m p" and "k' = drop m k"
  have m: "find_divergence p key offset = m" by (simp add: find_divergence_eq m_def k_def)
  have l: "m \<le> length p" "m \<le> length k" "length k = length key - offset" using lcp_le [of p k] by (simp_all add: m_def k_def)
  show ?thesis
  proof (cases "p = k")
    case True
    then have "m = length p" "offset + m = length key" using assms(7) l lcp_full [of p k] by (auto simp: m_def)
    then have "insert_leaf alloc keccak n p v key offset value mem =
        copy_value alloc value \<bind> (\<lambda>v. Some (Some (update_node n (MPT_NODE_LEAF p v)), mem))"
      by (simp add: insert_leaf_def m)
    then show ?thesis
      using assms True by (auto simp: k_def [symmetric] intro!: good_rules wf_update_leaf)
  next
    case False
    have "take m p = take m k" using lcp_take by (simp add: m_def)
    then have ne: "\<not> (m = length p \<and> offset + m = length key)" using False l assms(7) by auto
    have hs: "head_slot p' \<noteq> head_slot k'" using lcp_slots [OF False] by (simp add: m_def p'_def k'_def)
    have k': "drop (offset + m) key = k'" by (simp add: k'_def k_def add.commute)
    have D: "length p \<le> d - m + m" "length key \<le> d - m + (offset + m)" "d - m < 2 ^ 62" using l assms by auto
    have "\<not> slot empty_branch s" for s by (simp add: empty_branch_parts)
    note two = add_two_good [OF
      add_old_leaf_good [OF assms(1) empty_branch_parts(1) this assms(2) D(1,3) assms(4,5), folded p'_def]
      add_new_key_good [OF assms(1) _ _ assms(6) D(2,3) assms(10), unfolded k'] hs]
    note maps = split_map(1) [of "take m p" p k k' p' "stored v" "value", folded m_def, OF refl k'_def [symmetric] p'_def [symmetric]]
    show ?thesis
    proof (cases "m > 0")
      case True
      have c: "length (take m p) = m" "take m p \<noteq> []" "nibble_seq (take m p)"
        using l True assms(2) by (auto simp: nibble_seq_parts)
      show ?thesis
        unfolding insert_leaf_def Let_def m k_def [symmetric] maps [symmetric] if_not_P [OF ne] if_P [OF True]
          slice_eq(2) [OF assms(1)] drop_0
        by (intro good_with_node two over_branch_good [OF assms(1)]) (use c l assms in simp_all)
    next
      case False
      then have m0: "m = 0" by simp
      note two0 = two [unfolded m0 diff_zero add_0_right]
      show ?thesis
        unfolding insert_leaf_def Let_def m k_def [symmetric] maps [symmetric] if_not_P [OF ne] if_not_P [OF False]
        unfolding m0 take_0 prefix_map_Nil
        by (intro good_with_node two0 good_return conjI) (simp_all only: not_False_eq_True)
    qed
  qed
qed


lemma split_extension_good:
  assumes "alloc_total alloc" "nibble_seq p" "length p \<le> d" "ref_of keccak n r" "mpt_node_is_branch n"
    "mpt_wf keccak (d - length p) n" "nibble_seq key" "length key \<le> d + offset" "d < 2 ^ 62" "length value < 2 ^ 62"
    "m = lcp p (drop offset key)" "m \<noteq> length p"
  shows "good mem (\<lambda>n'. mpt_wf keccak d n' \<and> entries n' = (prefix_map p (entries n))(drop offset key \<mapsto> value))
    (split_extension alloc keccak p r m key offset value mem)"
proof -
  define k where "k = drop offset key"
  define p' k' where "p' = drop m p" and "k' = drop m k"
  have m: "m = lcp p k" using assms(11) by (simp add: k_def)
  have l: "m < length p" "m \<le> length k" "m \<le> d" using lcp_le [of p k] assms(3,12) by (simp_all add: m)
  have "p \<noteq> k" using assms(12) lcp_full [of p k] m by auto
  then have hs: "head_slot p' \<noteq> head_slot k'" using lcp_slots by (simp add: m p'_def k'_def)
  have k': "drop (offset + m) key = k'" by (simp add: k'_def k_def add.commute)
  have D: "length p \<le> d - m + m" "length key \<le> d - m + (offset + m)" "d - m < 2 ^ 62" using l assms by auto
  have e: "d - m + m - length p = d - length p" using l assms(3) by simp
  have "\<not> slot empty_branch s" for s by (simp add: empty_branch_parts)
  note two = add_two_good [OF
    add_old_extension_good [OF assms(1) empty_branch_parts(1) this assms(2) l(1) D(1,3) assms(4,5), unfolded e, OF assms(6), folded p'_def]
    add_new_key_good [OF assms(1) _ _ assms(7) D(2,3) assms(10), unfolded k'] hs]
  note maps = split_map(2) [of "take m p" p k k' p' "entries n" "value", folded m, OF refl k'_def [symmetric] p'_def [symmetric]]
  show ?thesis
  proof (cases "m > 0")
    case True
    have c: "length (take m p) = m" "take m p \<noteq> []" "nibble_seq (take m p)"
      using l True assms(2) by (auto simp: nibble_seq_parts)
    show ?thesis
      unfolding split_extension_def Let_def k_def [symmetric] maps [symmetric] if_P [OF True] slice_eq(2) [OF assms(1)] drop_0
      by (intro good_with_node two over_branch_good [OF assms(1)]) (use c l assms in simp_all)
  next
    case False
    then have m0: "m = 0" by simp
    note two0 = two [unfolded m0 diff_zero add_0_right]
    show ?thesis
      unfolding split_extension_def Let_def k_def [symmetric] maps [symmetric] if_not_P [OF False]
      unfolding m0 take_0 prefix_map_Nil add_0_right
      by (intro good_with_node two0 good_return conjI) (simp_all only: not_False_eq_True)
  qed
qed

lemma wf_update_branch:
  assumes "parts_ok keccak d (rs, w)" "slot (rs, w) s" "slot (rs, w) t" "s \<noteq> t"
  shows "mpt_wf keccak d (update_node n (MPT_NODE_BRANCH rs w))"
  using assms by (auto simp: update_node_def mpt_node_invalidate_hash_def wf_branch_parts hash_ok_def)

lemma branch_end_good:
  assumes "alloc_total alloc" "length value < 2 ^ 62"
    "\<And>b mem. parts_ok keccak d b \<Longrightarrow> \<not> slot b (head_slot k) \<Longrightarrow> good mem (adds keccak d b k m) (old b mem)" "k \<noteq> []" "m [] = None"
  shows "good mem (\<lambda>n'. mpt_wf keccak d n' \<and> entries n' = m([] \<mapsto> value))
    (with_node mem (\<lambda>mem. copy_value alloc value \<bind> (\<lambda>v.
      node_bind (old (fst empty_branch, v) mem) (\<lambda>b mem. Some (Some (branch_node b), mem)))))"
proof (intro good_with_node good_copy_value [OF assms(1,2)])
  fix mem v assume v: "bytes_data v \<noteq> None" "stored v = Some value" "value_small v"
  have hs: "head_slot [] \<noteq> head_slot k" using assms(4) by (cases k) simp_all
  have a: "adds keccak d empty_branch [] [[] \<mapsto> value] (fst empty_branch, v)"
    using adds_value [OF empty_branch_parts(1) _ v(1,3,2)] by (simp add: empty_branch_parts(2))
  have p: "parts_ok keccak d (fst empty_branch, v)" using a by (simp add: adds_def)
  have "[[] \<mapsto> value] ++ m = m([] \<mapsto> value)" using assms(5) by (auto simp: fun_eq_iff map_add_def split: option.split)
  with two_entries [OF a _ hs] show "good mem (\<lambda>n'. mpt_wf keccak d n' \<and> entries n' = m([] \<mapsto> value))
      (node_bind (old (fst empty_branch, v) mem) (\<lambda>b mem. Some (Some (branch_node b), mem)))"
    by (intro good_bind [OF assms(3) [OF p free_slot [OF a hs]]] good_return) metis
qed

lemma insert_at_end_good:
  assumes "alloc_total alloc" "mpt_wf keccak d n" "d < 2 ^ 62" "length value < 2 ^ 62"
  shows "good mem (\<lambda>n'. mpt_wf keccak d n' \<and> entries n' = (entries n)([] \<mapsto> value) \<and>
      (mpt_node_is_branch n \<longrightarrow> mpt_node_is_branch n')) (insert_at_end alloc keccak n value mem)"
  using assms(2)
proof (cases rule: mpt_wf.cases)
  case (wf_leaf p v h b)
  then have nb: "\<not> mpt_node_is_branch n" by (simp add: mpt_node_is_branch_def)
  show ?thesis
  proof (cases "p = []")
    case True
    then show ?thesis using wf_leaf assms nb by (auto simp: insert_at_end_def intro!: good_rules wf_update_leaf)
  next
    case False
    have "good mem (adds keccak d b p (Map.empty(p := stored v))) (add_old_leaf alloc keccak b p v 0 mem)"
      if "parts_ok keccak d b" "\<not> slot b (head_slot p)" for b mem
      using add_old_leaf_good [of alloc keccak d b 0 p v] that assms wf_leaf by simp
    from branch_end_good [OF assms(1,4) this False] show ?thesis
      using False wf_leaf nb by (simp add: insert_at_end_def)
  qed
next
  case (wf_extension p m r h b)
  have "good mem (adds keccak d b p (prefix_map p (entries m))) (add_old_extension alloc keccak b p r 0 mem)"
    if "parts_ok keccak d b" "\<not> slot b (head_slot p)" for b mem
    using add_old_extension_good [of alloc keccak d b 0 p m r] that assms wf_extension by simp
  from branch_end_good [OF assms(1,4) this wf_extension(3)] show ?thesis
    using wf_extension by (simp add: insert_at_end_def prefix_map_def mpt_node_is_branch_def)
next
  case (wf_branch rs v s t h b)
  have p: "parts_ok keccak d (rs, v)" using assms(2) wf_branch by (simp add: wf_branch_parts)
  have "mpt_wf keccak d (update_node n (MPT_NODE_BRANCH rs w))" if "bytes_data w \<noteq> None" "value_small w" for w
    using put_value [OF p that] wf_branch by (auto intro: wf_update_branch)
  moreover have "branch_map (map ref_map rs) (Some value) = (branch_map (map ref_map rs) (stored v))([] \<mapsto> value)"
    by (rule branch_map_value)
  ultimately show ?thesis
    using wf_branch assms by (auto simp: insert_at_end_def update_node_def mpt_node_invalidate_hash_def mpt_node_is_branch_def intro!: good_rules)
qed

lemma insert_empty_good:
  assumes "alloc_total alloc" "nibble_seq key" "length key \<le> d + offset" "length value < 2 ^ 62"
  shows "good mem (\<lambda>n'. mpt_wf keccak d n' \<and> entries n' = [drop offset key \<mapsto> value])
    (insert_empty alloc key offset value mem)"
  using assms nibble_seq_parts(2) [OF assms(2)] unfolding insert_empty_def slice_eq(1) [OF assms(1)]
  by (auto intro!: good_rules wf_mpt_node_leaf)

lemma insert_recursive_node:
  "insert_recursive alloc keccak (Some (Mpt_node h b (MPT_NODE_LEAF p v))) key offset value mem =
     (if offset \<ge> length key then insert_at_end alloc keccak (Mpt_node h b (MPT_NODE_LEAF p v)) value mem
      else insert_leaf alloc keccak (Mpt_node h b (MPT_NODE_LEAF p v)) p v key offset value mem)"
  "insert_recursive alloc keccak (Some (Mpt_node h b (MPT_NODE_EXTENSION p r))) key offset value mem =
     (if offset \<ge> length key then insert_at_end alloc keccak (Mpt_node h b (MPT_NODE_EXTENSION p r)) value mem
      else if lcp p (drop offset key) \<noteq> length p
      then split_extension alloc keccak p r (lcp p (drop offset key)) key offset value mem
      else case ref_node r of
        None \<Rightarrow> Some (Some (mpt_node_invalidate_hash (Mpt_node h b (MPT_NODE_EXTENSION p r))), mem)
      | Some m \<Rightarrow> node_bind (insert_recursive alloc keccak (Some m) key (offset + lcp p (drop offset key)) value mem) (\<lambda>m mem.
          mpt_node_ref alloc keccak m \<bind>
          (\<lambda>r'. Some (Some (update_node (Mpt_node h b (MPT_NODE_EXTENSION p r)) (MPT_NODE_EXTENSION p r')), mem))))"
  "insert_recursive alloc keccak (Some (Mpt_node h b (MPT_NODE_BRANCH rs v))) key offset value mem =
     (if offset \<ge> length key then insert_at_end alloc keccak (Mpt_node h b (MPT_NODE_BRANCH rs v)) value mem
      else if \<not> unat (key ! offset) < length rs then None
      else if node_ref_is_null (rs ! unat (key ! offset))
      then node_bind (add_new_key alloc keccak (rs, v) key offset value mem)
        (\<lambda>(rs', v') mem. Some (Some (update_node (Mpt_node h b (MPT_NODE_BRANCH rs v)) (MPT_NODE_BRANCH rs' v')), mem))
      else case ref_node (rs ! unat (key ! offset)) of
        None \<Rightarrow> Some (Some (mpt_node_invalidate_hash (Mpt_node h b (MPT_NODE_BRANCH rs v))), mem)
      | Some m \<Rightarrow> node_bind (insert_recursive alloc keccak (Some m) key (offset + 1) value mem) (\<lambda>m mem.
          mpt_node_ref alloc keccak m \<bind> (\<lambda>r. Some (Some (update_node (Mpt_node h b (MPT_NODE_BRANCH rs v))
            (MPT_NODE_BRANCH (rs[unat (key ! offset) := r]) v)), mem))))"
  by (simp_all add: insert_recursive.simps(2) [of _ _ "Mpt_node h b _"] find_divergence_eq Let_def update_node_def
      mpt_node_invalidate_hash_def cong: if_cong)

definition inserted :: "hash_fun \<Rightarrow> nat \<Rightarrow> mpt_node_t \<Rightarrow> nibbles_t \<Rightarrow> u8 list \<Rightarrow> mpt_node_t \<Rightarrow> bool" where
  "inserted keccak d n k w n' \<longleftrightarrow> mpt_wf keccak d n' \<and> entries n' = (entries n)(k \<mapsto> w) \<and>
     (mpt_node_is_branch n \<longrightarrow> mpt_node_is_branch n')"

lemma wf_update_extension:
  "nibble_seq p \<Longrightarrow> p \<noteq> [] \<Longrightarrow> length p \<le> d \<Longrightarrow> ref_of keccak n r \<Longrightarrow> mpt_node_is_branch n \<Longrightarrow>
    mpt_wf keccak (d - length p) n \<Longrightarrow> mpt_wf keccak d (update_node m (MPT_NODE_EXTENSION p r))"
  by (auto simp: update_node_def mpt_node_invalidate_hash_def mpt_wf_extension hash_ok_def)

lemma not_branch:
  "\<not> mpt_node_is_branch (Mpt_node h b (MPT_NODE_LEAF p v))" "\<not> mpt_node_is_branch (Mpt_node h b (MPT_NODE_EXTENSION p r))"
  "mpt_node_is_branch (Mpt_node h b (MPT_NODE_BRANCH rs v))" "mpt_node_is_branch (update_node n (MPT_NODE_BRANCH rs v))"
  by (simp_all add: mpt_node_is_branch_def update_node_def mpt_node_invalidate_hash_def)

lemma inserted_extension:
  assumes "nibble_seq p" "p \<noteq> []" "length p \<le> d" "ref_of keccak m r" "mpt_node_is_branch m"
    "inserted keccak (d - length p) m k w m'" "ref_of keccak m' r'" "k' = p @ k"
  shows "inserted keccak d (Mpt_node h b (MPT_NODE_EXTENSION p r)) k' w
    (update_node (Mpt_node h b (MPT_NODE_EXTENSION p r)) (MPT_NODE_EXTENSION p r'))"
  using assms by (auto simp: inserted_def not_branch prefix_map_upd intro: wf_update_extension)

lemma prefix_map_override: "m ++ prefix_map [x] (f(k \<mapsto> v)) = (m ++ prefix_map [x] f)(x # k \<mapsto> v)"
  by (simp add: prefix_map_upd)

text \<open>A branch whose child is replaced.\<close>

lemma replace_child:
  assumes "parts_ok keccak d (rs, v)" "x < 16" "ref_of keccak m (rs ! unat x)" "ref_of keccak m' r"
    "0 < d" "mpt_wf keccak (d - 1) m'" "entries m' = (entries m)(k := w)"
  shows "parts_ok keccak d (rs[unat x := r], v)" "slot (rs[unat x := r], v) = slot (rs, v)"
    "parts_map (rs[unat x := r], v) = (parts_map (rs, v))(x # k := w)"
proof -
  have l: "length rs = 16" "unat x < 16" using assms(1,2) nibble_unat by (auto simp: parts_ok_def)
  have r: "child_ok keccak d r" "ref_node r \<noteq> None" using assms ref_of_node by (auto simp: child_ok_def)
  show "parts_ok keccak d (rs[unat x := r], v)" using put_child(1) [OF assms(1,2) r] by simp
  have "slot (rs, v) (Some (unat x))" using ref_of_node [OF assms(3)] l by (simp add: slot_def)
  then show "slot (rs[unat x := r], v) = slot (rs, v)"
    using put_child(2) [OF assms(1,2) r] by (simp add: fun_upd_idem)
  have "map ref_map (rs[unat x := r]) = (map ref_map rs)[unat x := (entries m)(k := w)]"
    using assms(4,7) by (simp add: map_update)
  moreover have "map ref_map rs ! unat x = entries m" using l assms(3) by simp
  then have "(map ref_map rs)[unat x := entries m] = map ref_map rs" using list_update_id by metis
  ultimately show "parts_map (rs[unat x := r], v) = (parts_map (rs, v))(x # k := w)"
    using branch_map_child [of x "map ref_map rs" "entries m" k w] l by (simp add: parts_map_def)
qed

lemma key_behind_path:
  assumes "lcp p (drop offset key) = length p"
  shows "drop offset key = p @ drop (offset + length p) key"
  using lcp_take [of p "drop offset key"] append_take_drop_id [of "length p" "drop offset key"] assms
  by (simp add: add.commute)

lemma insert_end_step:
  assumes "alloc_total alloc" "mpt_wf keccak d n" "d < 2 ^ 62" "length value < 2 ^ 62" "offset \<ge> length key"
    "insert_recursive alloc keccak (Some n) key offset value mem = insert_at_end alloc keccak n value mem"
  shows "good mem (inserted keccak d n (drop offset key) value) (insert_recursive alloc keccak (Some n) key offset value mem)"
  unfolding assms(6) using good_mono [OF insert_at_end_good [OF assms(1-4)]] assms(5) by (auto simp: inserted_def)

lemma insert_leaf_step:
  assumes "alloc_total alloc" "nibble_seq key" "length value < 2 ^ 62" "mpt_wf keccak d (Mpt_node h b (MPT_NODE_LEAF p v))"
    "length key \<le> d + offset" "d < 2 ^ 62"
  shows "good mem (inserted keccak d (Mpt_node h b (MPT_NODE_LEAF p v)) (drop offset key) value)
    (insert_recursive alloc keccak (Some (Mpt_node h b (MPT_NODE_LEAF p v))) key offset value mem)"
proof (cases "offset < length key")
  case True
  have l: "nibble_seq p" "length p \<le> d" "bytes_data v \<noteq> None" "value_small v" using assms(4) by (simp_all add: mpt_wf_leaf)
  show ?thesis
    unfolding insert_recursive_node if_not_P [OF True [folded not_le]]
    using insert_leaf_good [OF assms(1) l assms(2) True assms(5,6,3)]
    by (rule good_mono) (simp add: inserted_def not_branch)
next
  case False
  then show ?thesis by (intro insert_end_step assms) (auto simp: insert_recursive_node)
qed

lemma insert_extension_step:
  assumes "alloc_total alloc" "nibble_seq key" "length value < 2 ^ 62" "mpt_wf keccak d (Mpt_node h b (MPT_NODE_EXTENSION p r))"
    "length key \<le> d + offset" "d < 2 ^ 62" "ref_of keccak m r" "mpt_node_is_branch m" "mpt_wf keccak (d - length p) m"
    "offset < length key \<Longrightarrow> lcp p (drop offset key) = length p \<Longrightarrow>
      good mem (inserted keccak (d - length p) m (drop (offset + length p) key) value)
        (insert_recursive alloc keccak (Some m) key (offset + length p) value mem)"
  shows "good mem (inserted keccak d (Mpt_node h b (MPT_NODE_EXTENSION p r)) (drop offset key) value)
    (insert_recursive alloc keccak (Some (Mpt_node h b (MPT_NODE_EXTENSION p r))) key offset value mem)"
proof -
  let ?n = "Mpt_node h b (MPT_NODE_EXTENSION p r)"
  have p: "nibble_seq p" "p \<noteq> []" "length p \<le> d" using assms(4) by (auto simp: mpt_wf_extension)
  define k where "k = lcp p (drop offset key)"
  consider (out) "\<not> offset < length key" | (split) "offset < length key" "k \<noteq> length p"
    | (full) "offset < length key" "k = length p" by blast
  then show ?thesis
  proof cases
    case out
    then show ?thesis by (intro insert_end_step assms) (auto simp: insert_recursive_node)
  next
    case split
    have "good mem (inserted keccak d ?n (drop offset key) value) (split_extension alloc keccak p r k key offset value mem)"
      using split_extension_good [OF assms(1) p(1,3) assms(7-9) assms(2) assms(5,6,3) k_def split(2)]
      by (rule good_mono) (simp add: inserted_def not_branch ref_map_simps(2) [OF assms(7)])
    then show ?thesis using split by (simp add: insert_recursive_node k_def [symmetric])
  next
    case full
    have d: "d - length p < 2 ^ 62" using assms(6) by linarith
    have "good mem (inserted keccak d ?n (drop offset key) value)
      (node_bind (insert_recursive alloc keccak (Some m) key (offset + length p) value mem) (\<lambda>m mem.
          mpt_node_ref alloc keccak m \<bind> (\<lambda>r'. Some (Some (update_node ?n (MPT_NODE_EXTENSION p r')), mem))))"
      using p key_behind_path [of p offset key] full(2) k_def wf_small [OF _ d] assms(7,8)
      by (intro good_bind [OF assms(10) [OF full(1) full(2) [unfolded k_def]]] good_node_ref [OF assms(1)] good_return inserted_extension)
        (auto simp: inserted_def)
    then show ?thesis using full ref_of_node [OF assms(7)] by (simp add: insert_recursive_node k_def [symmetric])
  qed
qed

lemma insert_new_child_step:
  assumes "alloc_total alloc" "nibble_seq key" "length value < 2 ^ 62" "mpt_wf keccak d (Mpt_node h b (MPT_NODE_BRANCH rs v))"
    "length key \<le> d + offset" "d < 2 ^ 62" "offset < length key" "x = key ! offset" "x < 16" "rs ! unat x = node_ref_null"
  shows "good mem (inserted keccak d (Mpt_node h b (MPT_NODE_BRANCH rs v)) (drop offset key) value)
    (insert_recursive alloc keccak (Some (Mpt_node h b (MPT_NODE_BRANCH rs v))) key offset value mem)"
proof -
  let ?n = "Mpt_node h b (MPT_NODE_BRANCH rs v)"
  obtain s t where p: "parts_ok keccak d (rs, v)" "slot (rs, v) s" "slot (rs, v) t" "s \<noteq> t"
    using assms(4) by (auto simp: wf_branch_parts)
  have l: "length rs = 16" "unat x < 16" using p(1) nibble_unat [OF assms(9)] by (simp_all add: parts_ok_def)
  have "drop offset key = x # drop (offset + 1) key" using assms(7,8) by (simp add: drop_key)
  then have free: "\<not> slot (rs, v) (head_slot (drop offset key))" using assms(10) by (simp add: slot_def node_ref_null_def)
  have "good mem (inserted keccak d ?n (drop offset key) value) (node_bind (add_new_key alloc keccak (rs, v) key offset value mem)
      (\<lambda>(rs', v') mem. Some (Some (update_node ?n (MPT_NODE_BRANCH rs' v')), mem)))"
    using p(2-4)
    by (intro good_bind [OF add_new_key_good [OF assms(1) p(1) free assms(2,5,6,3)]])
      (auto simp: adds_def inserted_def not_branch parts_map_def intro!: good_return wf_update_branch)
  moreover have "node_ref_is_null (rs ! unat x)"
    by (simp add: assms(10) node_ref_is_null_def node_ref_null_def bytes_is_empty_def no_value_def)
  ultimately show ?thesis using assms(7,8) l by (simp add: insert_recursive_node)
qed

lemma insert_child_step:
  assumes "alloc_total alloc" "mpt_wf keccak d (Mpt_node h b (MPT_NODE_BRANCH rs v))" "d < 2 ^ 62"
    "offset < length key" "x = key ! offset" "x < 16" "ref_of keccak m (rs ! unat x)" "0 < d"
    "good mem (inserted keccak (d - 1) m (drop (offset + 1) key) value)
      (insert_recursive alloc keccak (Some m) key (offset + 1) value mem)"
  shows "good mem (inserted keccak d (Mpt_node h b (MPT_NODE_BRANCH rs v)) (drop offset key) value)
    (insert_recursive alloc keccak (Some (Mpt_node h b (MPT_NODE_BRANCH rs v))) key offset value mem)"
proof -
  let ?n = "Mpt_node h b (MPT_NODE_BRANCH rs v)"
  obtain s t where p: "parts_ok keccak d (rs, v)" "slot (rs, v) s" "slot (rs, v) t" "s \<noteq> t"
    using assms(2) by (auto simp: wf_branch_parts)
  have l: "length rs = 16" "unat x < 16" using p(1) nibble_unat [OF assms(6)] by (simp_all add: parts_ok_def)
  have k: "drop offset key = x # drop (offset + 1) key" using assms(4,5) by (simp add: drop_key)
  have d: "d - 1 < 2 ^ 62" using assms(3) by linarith
  have "good mem (inserted keccak d ?n (drop offset key) value)
    (node_bind (insert_recursive alloc keccak (Some m) key (offset + 1) value mem) (\<lambda>m mem.
      mpt_node_ref alloc keccak m \<bind> (\<lambda>r. Some (Some (update_node ?n (MPT_NODE_BRANCH (rs[unat x := r]) v)), mem))))"
  proof (intro good_bind [OF assms(9)] good_node_ref [OF assms(1)] good_return)
    fix m' r mem assume m': "inserted keccak (d - 1) m (drop (offset + 1) key) value m'"
    then show "body_small (node_body m') \<and> node_body m' \<noteq> MPT_NODE_EMPTY" using wf_small d by (auto simp: inserted_def)
    assume r: "ref_of keccak m' r"
    note c = replace_child [OF p(1) assms(6,7) r assms(8), of "drop (offset + 1) key" "Some value"]
    show "inserted keccak d ?n (drop offset key) value (update_node ?n (MPT_NODE_BRANCH (rs[unat x := r]) v))"
      using c m' p(2-4) k wf_update_branch [of keccak d "rs[unat x := r]" v s t ?n]
      by (simp add: inserted_def not_branch parts_map_def)
  qed
  then show ?thesis using assms(4,5) l ref_of_node [OF assms(7)] not_null_ref [of "rs ! unat x"]
    by (simp add: insert_recursive_node)
qed

lemma insert_node_good:
  assumes "alloc_total alloc" "nibble_seq key" "length value < 2 ^ 62"
  shows "mpt_wf keccak d n \<Longrightarrow> offset \<le> length key \<Longrightarrow> length key \<le> d + offset \<Longrightarrow> d < 2 ^ 62 \<Longrightarrow>
    good mem (inserted keccak d n (drop offset key) value) (insert_recursive alloc keccak (Some n) key offset value mem)"
proof (induction arbitrary: offset mem rule: mpt_wf.induct)
  case (wf_leaf p d v h b)
  then show ?case by (intro insert_leaf_step assms) (auto simp: mpt_wf_leaf)
next
  case (wf_extension p d m r h b)
  have n: "mpt_wf keccak d (Mpt_node h b (MPT_NODE_EXTENSION p r))" using wf_extension by (auto simp: mpt_wf_extension)
  show ?case
  proof (rule insert_extension_step [OF assms n wf_extension.prems(2,3) wf_extension.hyps(4-6)])
    assume "offset < length key" "lcp p (drop offset key) = length p"
    then show "good mem (inserted keccak (d - length p) m (drop (offset + length p) key) value)
        (insert_recursive alloc keccak (Some m) key (offset + length p) value mem)"
      using lcp_le(2) [of p "drop offset key"] wf_extension.prems wf_extension.hyps(3) by (intro wf_extension.IH) auto
  qed
next
  case (wf_branch rs d v s t h b)
  have c: "\<forall>r\<in>set rs. child_ok keccak d r" using wf_branch.IH(1) unfolding child_ok_def by meson
  then have n: "mpt_wf keccak d (Mpt_node h b (MPT_NODE_BRANCH rs v))" using wf_branch by (auto simp: wf_branch_parts parts_ok_def)
  show ?case
  proof (cases "offset < length key")
    case False
    then show ?thesis using wf_branch.prems by (intro insert_end_step assms n) (auto simp: insert_recursive_node)
  next
    case True
    define x where "x = key ! offset"
    have x: "x < 16" "unat x < length rs"
      using nibble_seq_parts(3) [OF assms(2) True] nibble_unat wf_branch.hyps(1) by (auto simp: x_def)
    show ?thesis
    proof (cases "rs ! unat x = node_ref_null")
      case null: True
      show ?thesis by (rule insert_new_child_step [OF assms n wf_branch.prems(2,3) True x_def x(1) null])
    next
      case False
      then obtain m where m: "ref_of keccak m (rs ! unat x)" "0 < d"
          "\<And>offset mem. offset \<le> length key \<Longrightarrow> length key \<le> d - 1 + offset \<Longrightarrow> d - 1 < 2 ^ 62 \<Longrightarrow>
            good mem (inserted keccak (d - 1) m (drop offset key) value) (insert_recursive alloc keccak (Some m) key offset value mem)"
        using wf_branch.IH(1) x(2) nth_mem by meson
      show ?thesis
        using True m(2) wf_branch.prems by (intro insert_child_step [OF assms(1) n _ True x_def x(1) m(1,2)] m(3)) auto
    qed
  qed
qed


section \<open>Deletion\<close>

lemma single_child_found:
  "single_child_loop rs i (Some j) = (if list_all node_ref_is_null rs then Some j else None)"
  by (induction rs arbitrary: i) auto

lemma single_child_loop_Some:
  "single_child_loop rs i None = Some j \<longleftrightarrow>
     i \<le> j \<and> j < i + length rs \<and> \<not> node_ref_is_null (rs ! (j - i)) \<and> (\<forall>k<length rs. k \<noteq> j - i \<longrightarrow> node_ref_is_null (rs ! k))"
proof (induction rs arbitrary: i)
  case (Cons r rs)
  have all: "list_all node_ref_is_null rs \<longleftrightarrow> (\<forall>k<length rs. node_ref_is_null (rs ! k))"
    by (simp add: list_all_length)
  show ?case
  proof (cases "node_ref_is_null r")
    case True
    then have e: "single_child_loop (r # rs) i None = single_child_loop rs (Suc i) None" by simp
    show ?thesis
    proof (cases "i < j")
      case lt: True
      then obtain m where "j = Suc (i + m)" using less_iff_Suc_add by blast
      then show ?thesis unfolding e Cons.IH [of "Suc i"] using True by (auto simp: nth_Cons All_less_Suc2)
    next
      case False
      then show ?thesis unfolding e Cons.IH [of "Suc i"] using True by auto
    qed
  next
    case False
    then show ?thesis
      by (cases "j - i") (auto simp: single_child_found all nth_Cons All_less_Suc2 split: nat.split)
  qed
qed simp

lemma find_single_child_Some:
  "find_single_child rs = Some j \<longleftrightarrow>
     j < length rs \<and> \<not> node_ref_is_null (rs ! j) \<and> (\<forall>k<length rs. k \<noteq> j \<longrightarrow> node_ref_is_null (rs ! k))"
  by (simp add: find_single_child_def single_child_loop_Some)

lemma child_count_0: "mpt_branch_child_count rs = 0 \<longleftrightarrow> (\<forall>k<length rs. node_ref_is_null (rs ! k))"
  by (auto simp: mpt_branch_child_count_def filter_empty_conv all_set_conv_all_nth)

lemma child_null: "child_ok keccak d r \<Longrightarrow> node_ref_is_null r \<longleftrightarrow> ref_node r = None"
  by (auto simp: child_ok_def node_ref_is_null_def node_ref_null_def bytes_is_empty_def no_value_def dest: ref_of_node)

lemma slot_children:
  assumes "parts_ok keccak d (rs, v)" "k < length rs"
  shows "slot (rs, v) (Some k) \<longleftrightarrow> \<not> node_ref_is_null (rs ! k)"
  using assms child_null [of keccak d "rs ! k"] by (simp add: parts_ok_def slot_def)

text \<open>The cases that \<open>collapse_branch\<close> tells apart.\<close>

lemma branch_cases:
  assumes "parts_ok keccak d (rs, v)" "slot (rs, v) s"
  obtains (many) t u where "find_single_child rs = None" "mpt_branch_child_count rs \<noteq> 0" "slot (rs, v) t" "slot (rs, v) u" "t \<noteq> u"
  | (value_only) "find_single_child rs = None" "mpt_branch_child_count rs = 0" "bytes_data v \<noteq> None"
  | (both) i where "find_single_child rs = Some i" "bytes_data v \<noteq> None" "slot (rs, v) (Some i)"
  | (one) i where "find_single_child rs = Some i" "bytes_data v = None" "i < 16" "slot (rs, v) (Some i)"
      "\<forall>k<16. k \<noteq> i \<longrightarrow> ref_node (rs ! k) = None"
proof -
  have l: "length rs = 16" using assms(1) by (simp add: parts_ok_def)
  note sl = slot_children [OF assms(1)]
  show thesis
  proof (cases "find_single_child rs")
    case None
    show thesis
    proof (cases "mpt_branch_child_count rs = 0")
      case True
      then have "bytes_data v \<noteq> None"
        using assms(2) sl by (cases s) (auto simp: child_count_0 slot_def)
      with None True show thesis by (rule value_only)
    next
      case False
      then obtain i where i: "i < length rs" "\<not> node_ref_is_null (rs ! i)" by (auto simp: child_count_0)
      then obtain j where "j < length rs" "j \<noteq> i" "\<not> node_ref_is_null (rs ! j)"
        using None find_single_child_Some [of rs i] by auto
      then show thesis using None False i sl by (intro many [of "Some i" "Some j"]) auto
    qed
  next
    case (Some i)
    then have i: "i < length rs" "\<not> node_ref_is_null (rs ! i)" "\<forall>k<length rs. k \<noteq> i \<longrightarrow> node_ref_is_null (rs ! k)"
      by (simp_all add: find_single_child_Some)
    then have "slot (rs, v) (Some i)" using sl by simp
    moreover have "\<forall>k<16. k \<noteq> i \<longrightarrow> ref_node (rs ! k) = None"
      using i(3) l by (auto simp: node_ref_is_null_def split: if_splits)
    ultimately show thesis using both one Some i(1) l by metis
  qed
qed

definition no_failure :: "node_mem \<Rightarrow> bool" where
  "no_failure mem \<longleftrightarrow> False \<notin> set mem"

lemma alloc_no_failure:
  assumes "no_failure mem" obtains mem' where "memory_alloc_node mem = (Some mpt_node_empty, mem')" "no_failure mem'"
  using assms by (cases mem) (auto simp: memory_alloc_node_def no_failure_def)

lemma entries_one_child:
  assumes "length rs = 16" "i < 16" "\<forall>k<16. k \<noteq> i \<longrightarrow> ref_node (rs ! k) = None"
  shows "branch_map (map ref_map rs) None = prefix_map [of_nat i] (ref_map (rs ! i))"
proof
  fix k
  show "branch_map (map ref_map rs) None k = prefix_map [of_nat i] (ref_map (rs ! i)) k"
  proof (cases k)
    case (Cons x ks)
    have "unat (of_nat i :: u8) = i" using assms(2) by (simp add: unat_of_nat)
    then have "x = of_nat i \<longleftrightarrow> unat x = i" by (simp add: word_unat_eq_iff)
    moreover have "ref_map (rs ! unat x) = Map.empty" if "unat x < 16" "unat x \<noteq> i"
      using assms(3) that by (simp add: ref_map_def)
    ultimately show ?thesis using assms(1,2) Cons by (auto simp: branch_map_def prefix_map_def)
  qed (simp add: prefix_map_def)
qed

lemma entries_value_only:
  assumes "\<forall>k<length rs. node_ref_is_null (rs ! k)"
  shows "branch_map (map ref_map rs) v = Map.empty([] := v)"
  using assms by (auto simp: branch_map_def fun_eq_iff ref_map_def node_ref_is_null_def split: list.split option.split if_splits)

text \<open>What a successful collapse promises.\<close>

definition collapsed :: "hash_fun \<Rightarrow> nat \<Rightarrow> (nibbles_t \<rightharpoonup> u8 list) \<Rightarrow> (mpt_node_t \<times> mpt_node_t \<times> node_mem) option \<Rightarrow> bool" where
  "collapsed keccak d m r \<longleftrightarrow> (\<exists>in_place out mem. r = Some (in_place, out, mem) \<and> no_failure mem \<and>
     mpt_wf keccak d out \<and> entries out = m)"

lemma collapsedI: "r = Some (in_place, out, mem) \<Longrightarrow> no_failure mem \<Longrightarrow> mpt_wf keccak d out \<Longrightarrow> entries out = m \<Longrightarrow> collapsed keccak d m r"
  unfolding collapsed_def by blast

lemma collapse_eq:
  assumes "find_single_child rs = Some i" "bytes_data v = None" "ref_node (rs ! i) = Some n"
   "memory_alloc_node mem = (Some k, mem')" 
  shows "collapse_branch alloc keccak (Mpt_node h b (MPT_NODE_BRANCH rs v)) mem =
   (case node_body n of MPT_NODE_LEAF p w \<Rightarrow> Some (Mpt_node h b (MPT_NODE_BRANCH rs v), mpt_node_leaf (nibbles_concat3 alloc [] (of_nat i) p) w, mem')
   | MPT_NODE_EXTENSION p r \<Rightarrow> Some (Mpt_node h b (MPT_NODE_BRANCH rs v), mpt_node_extension (nibbles_concat3 alloc [] (of_nat i) p) r, mem')
   | _ \<Rightarrow> (case alloc 1 of None \<Rightarrow> Some (Mpt_node h b (MPT_NODE_BRANCH rs v), Mpt_node h b (MPT_NODE_BRANCH rs v), mem)
       | Some _ \<Rightarrow> mpt_node_ref alloc keccak n \<bind> (\<lambda>r. Some (Mpt_node h b (MPT_NODE_BRANCH rs v), mpt_node_extension [of_nat i] r, mem'))))"
  using assms unfolding collapse_branch_def Let_def by (simp cong: mpt_body.case_cong option.case_cong)

lemma collapse_child:
  assumes "alloc_total alloc" "mpt_wf keccak (d - 1) n" "0 < d" "d < 2 ^ 62" "i < 16" "no_failure mem"
    "find_single_child rs = Some i" "bytes_data v = None" "ref_node (rs ! i) = Some n"
  shows "collapsed keccak d (prefix_map [of_nat i] (entries n))
    (collapse_branch alloc keccak (Mpt_node h b (MPT_NODE_BRANCH rs v)) mem)"
proof -
  obtain mem' where mem': "memory_alloc_node mem = (Some mpt_node_empty, mem')" "no_failure mem'"
    using alloc_no_failure [OF assms(6)] .
  have x: "(of_nat i :: u8) < 16" using assms(5) by (simp add: word_less_nat_alt unat_of_nat)
  note e = collapse_eq [where alloc = alloc, OF assms(7-9) mem'(1), unfolded concat_eq(2) [OF assms(1)] append_Nil]
  show ?thesis
    using assms(2)
  proof (cases rule: mpt_wf.cases)
    case (wf_leaf p w h' b')
    then have "mpt_wf keccak d (mpt_node_leaf (of_nat i # p) w)" using x assms(3) by (intro wf_mpt_node_leaf) auto
    then show ?thesis
      unfolding e wf_leaf(1) mpt_node_t.sel mpt_body.case
      by (rule collapsedI [OF refl mem'(2)]) (simp add: prefix_map_single)
  next
    case (wf_extension p m r h' b')
    moreover have "d - length ((of_nat i :: u8) # p) = d - 1 - length p" by simp
    ultimately have "mpt_wf keccak d (mpt_node_extension (of_nat i # p) r)"
      using x assms(3) by (intro wf_mpt_node_extension [of _ _ _ m]) auto
    then show ?thesis
      unfolding e wf_extension(1) mpt_node_t.sel mpt_body.case
      by (rule collapsedI [OF refl mem'(2)]) (simp add: prefix_map_prefix)
  next
    case (wf_branch rs' w s t h' b')
    obtain r where r: "mpt_node_ref alloc keccak n = Some r" "ref_of keccak n r"
      using mpt_node_ref_returns [OF assms(1)] wf_small [OF assms(2)] assms(4) by force
    have "mpt_wf keccak d (mpt_node_extension [of_nat i] r)"
      using x assms(2,3) r(2) wf_branch by (intro wf_mpt_node_extension [of _ _ _ n]) (auto simp: not_branch)
    then show ?thesis
      using r alloc_totalD [OF assms(1), of 1] unfolding e
      by (auto simp: wf_branch(1) intro!: collapsedI mem'(2))
  qed
qed

lemma wf_invalidate:
  assumes "parts_ok keccak d (rs, v)" "slot (rs, v) s" "slot (rs, v) t" "s \<noteq> t"
  shows "mpt_wf keccak d (mpt_node_invalidate_hash (Mpt_node h b (MPT_NODE_BRANCH rs v)))"
  using assms by (auto simp: mpt_node_invalidate_hash_def wf_branch_parts hash_ok_def)

lemma collapse_branch_good:
  assumes "alloc_total alloc" "parts_ok keccak d (rs, v)" "slot (rs, v) s" "d < 2 ^ 62" "no_failure mem"
  shows "collapsed keccak d (branch_map (map ref_map rs) (stored v))
    (collapse_branch alloc keccak (Mpt_node h b (MPT_NODE_BRANCH rs v)) mem)"
  using assms(2,3)
proof (cases rule: branch_cases)
  case (many t u)
  then show ?thesis
    using wf_invalidate [OF assms(2) many(3-5)] assms(5) by (simp add: collapse_branch_def collapsed_def Let_def)
next
  case value_only
  obtain mem' where "memory_alloc_node mem = (Some mpt_node_empty, mem')" "no_failure mem'"
    using alloc_no_failure [OF assms(5)] .
  moreover have "mpt_wf keccak d (mpt_node_leaf [] v)"
    using value_only assms(2) by (intro wf_mpt_node_leaf) (auto simp: parts_ok_def)
  ultimately show ?thesis
    using value_only entries_value_only [of rs "stored v"] by (simp add: collapse_branch_def collapsed_def Let_def child_count_0)
next
  case (both i)
  have "slot (rs, v) None" using both by (simp add: slot_def)
  from wf_invalidate [OF assms(2) this both(3)] show ?thesis
    using both assms(5) by (simp add: collapse_branch_def collapsed_def Let_def)
next
  case (one i)
  have l: "length rs = 16" using assms(2) by (simp add: parts_ok_def)
  obtain n where n: "ref_node (rs ! i) = Some n" using one by (auto simp: slot_def)
  have "child_ok keccak d (rs ! i)" using assms(2) l one(3) by (simp add: parts_ok_def)
  then have "0 < d" "mpt_wf keccak (d - 1) n" using n by (auto simp: child_ok_def node_ref_null_def dest: ref_of_node)
  moreover have "stored v = None" using one by (simp add: stored_def)
  moreover have "ref_map (rs ! i) = entries n" using n by (simp add: ref_map_def)
  ultimately show ?thesis
    using collapse_child [OF assms(1) _ _ assms(4) one(3) assms(5) one(1,2) n] entries_one_child [OF l one(3,5)] by simp
qed


definition deleted :: "hash_fun \<Rightarrow> nat \<Rightarrow> mpt_node_t \<Rightarrow> nibbles_t \<Rightarrow> delete_outcome option \<Rightarrow> bool" where
  "deleted keccak d n k r \<longleftrightarrow> (\<exists>result in_place out mem. r = Some (result, in_place, out, mem) \<and> no_failure mem \<and>
     (if entries n k = None then result = DELETE_NOT_FOUND \<and> in_place = Some n
      else root_map out = (entries n)(k := None) \<and>
        (case out of None \<Rightarrow> result = DELETE_REMOVED \<and> \<not> mpt_node_is_branch n
                   | Some n' \<Rightarrow> result = DELETE_UPDATED \<and> mpt_wf keccak d n')))"

lemma deleted_not_found:
  "entries n k = None \<Longrightarrow> no_failure mem \<Longrightarrow> deleted keccak d n k (Some (DELETE_NOT_FOUND, Some n, out, mem))"
  by (simp add: deleted_def)

lemma deleted_updated:
  "entries n k \<noteq> None \<Longrightarrow> no_failure mem \<Longrightarrow> mpt_wf keccak d n' \<Longrightarrow> entries n' = (entries n)(k := None) \<Longrightarrow>
    deleted keccak d n k (Some (DELETE_UPDATED, in_place, Some n', mem))"
  by (simp add: deleted_def)

lemma deleted_removed:
  "entries n k \<noteq> None \<Longrightarrow> no_failure mem \<Longrightarrow> \<not> mpt_node_is_branch n \<Longrightarrow> (entries n)(k := None) = Map.empty \<Longrightarrow>
    deleted keccak d n k (Some (DELETE_REMOVED, in_place, None, mem))"
  by (simp add: deleted_def)

lemma merge_extension_good:
  assumes "alloc_total alloc" "nibble_seq p" "p \<noteq> []" "length p \<le> d" "d < 2 ^ 62" "ref_of keccak m r"
    "entries m k \<noteq> None" "mpt_wf keccak (d - length p) m'" "entries m' = (entries m)(k := None)" "no_failure mem"
  shows "deleted keccak d (Mpt_node h b (MPT_NODE_EXTENSION p r)) (p @ k)
    (merge_extension alloc keccak (Mpt_node h b (MPT_NODE_EXTENSION p r)) p r in_place m' mem)"
proof -
  let ?n = "Mpt_node h b (MPT_NODE_EXTENSION p r)"
  obtain mem' where mem': "memory_alloc_node mem = (Some mpt_node_empty, mem')" "no_failure mem'"
    using alloc_no_failure [OF assms(10)] .
  have f: "entries ?n (p @ k) \<noteq> None" using assms(6,7) by (simp add: prefix_map_append)
  have e: "prefix_map p (entries m') = (entries ?n)(p @ k := None)" using assms(6,9) by (simp add: prefix_map_upd)
  note c = concat_eq(1) [OF assms(1)]
  show ?thesis
    using assms(8)
  proof (cases rule: mpt_wf.cases)
    case (wf_leaf q w h' b')
    then have "mpt_wf keccak d (mpt_node_leaf (p @ q) w)" using assms(2,4) by (intro wf_mpt_node_leaf) auto
    moreover have "merge_extension alloc keccak ?n p r in_place m' mem =
        Some (DELETE_UPDATED, Some (Mpt_node h b (MPT_NODE_EXTENSION p (Node_ref (ref_union r) in_place))),
          Some (mpt_node_leaf (p @ q) w), mem')"
      using wf_leaf(1) mem' c by (simp add: merge_extension_def Let_def)
    ultimately show ?thesis using deleted_updated [OF f mem'(2)] e wf_leaf(1) by (simp add: prefix_map_single)
  next
    case (wf_extension q g s h' b')
    then have "mpt_wf keccak d (mpt_node_extension (p @ q) s)"
      using assms(2-4) by (intro wf_mpt_node_extension [of _ _ _ g]) auto
    moreover have "merge_extension alloc keccak ?n p r in_place m' mem =
        Some (DELETE_UPDATED, Some (Mpt_node h b (MPT_NODE_EXTENSION p (Node_ref (ref_union r) in_place))),
          Some (mpt_node_extension (p @ q) s), mem')"
      using wf_extension(1) mem' c by (simp add: merge_extension_def Let_def)
    ultimately show ?thesis using deleted_updated [OF f mem'(2)] e wf_extension(1) by (simp add: prefix_map_prefix)
  next
    case (wf_branch rs w s t h' b')
    have "d - length p < 2 ^ 62" using assms(5) by linarith
    then obtain r' where r': "mpt_node_ref alloc keccak m' = Some r'" "ref_of keccak m' r'"
      using mpt_node_ref_returns [OF assms(1)] wf_small [OF assms(8)] by blast
    have u: "mpt_wf keccak d (update_node ?n (MPT_NODE_EXTENSION p r'))"
      using assms(2-4,8) r'(2) wf_branch(1) by (intro wf_update_extension [of _ _ _ m']) (auto simp: not_branch)
    have "merge_extension alloc keccak ?n p r in_place m' mem =
        Some (DELETE_UPDATED, Some (update_node ?n (MPT_NODE_EXTENSION p r')), Some (update_node ?n (MPT_NODE_EXTENSION p r')), mem)"
      using wf_branch(1) r'(1) by (simp add: merge_extension_def Let_def)
    then show ?thesis using deleted_updated [OF f assms(10) u] e r'(2) by simp
  qed
qed

lemma delete_recursive_node:
  "delete_recursive alloc keccak (Some (Mpt_node h b (MPT_NODE_LEAF p v))) key offset mem =
     (if leaf_matches p key offset then Some (DELETE_REMOVED, Some (Mpt_node h b (MPT_NODE_LEAF p v)), None, mem)
      else Some (DELETE_NOT_FOUND, Some (Mpt_node h b (MPT_NODE_LEAF p v)), Some (Mpt_node h b (MPT_NODE_LEAF p v)), mem))"
  "delete_recursive alloc keccak (Some (Mpt_node h b (MPT_NODE_EXTENSION p r))) key offset mem =
     (let node = Mpt_node h b (MPT_NODE_EXTENSION p r) in
      if lcp p (drop offset key) \<noteq> length p then Some (DELETE_NOT_FOUND, Some node, Some node, mem)
      else case ref_node r of
        None \<Rightarrow> Some (DELETE_NOT_FOUND, Some node, Some node, mem)
      | Some m \<Rightarrow> delete_recursive alloc keccak (Some m) key (offset + lcp p (drop offset key)) mem \<bind>
          (\<lambda>(result, in_place, new_child, mem).
            let left = Mpt_node h b (MPT_NODE_EXTENSION p (Node_ref (ref_union r) in_place)) in
            if result = DELETE_NOT_FOUND then Some (DELETE_NOT_FOUND, Some left, Some left, mem)
            else if result = DELETE_REMOVED then Some (DELETE_REMOVED, Some left, None, mem)
            else case new_child of
              None \<Rightarrow> Some (DELETE_REMOVED, Some left, None, mem)
            | Some m' \<Rightarrow> merge_extension alloc keccak node p r in_place m' mem))"
  "delete_recursive alloc keccak (Some (Mpt_node h b (MPT_NODE_BRANCH rs v))) key offset mem =
     (let node = Mpt_node h b (MPT_NODE_BRANCH rs v) in
      if offset \<ge> length key
      then (if bytes_data v = None then Some (DELETE_NOT_FOUND, Some node, Some node, mem)
            else collapse_branch alloc keccak (Mpt_node h b (MPT_NODE_BRANCH rs no_value)) mem \<bind>
              (\<lambda>(in_place, out, mem). Some (DELETE_UPDATED, Some in_place, Some out, mem)))
      else if \<not> unat (key ! offset) < length rs then None
      else if node_ref_is_null (rs ! unat (key ! offset)) then Some (DELETE_NOT_FOUND, Some node, Some node, mem)
      else case ref_node (rs ! unat (key ! offset)) of
        None \<Rightarrow> Some (DELETE_NOT_FOUND, Some node, Some node, mem)
      | Some m \<Rightarrow> delete_recursive alloc keccak (Some m) key (offset + 1) mem \<bind>
          (\<lambda>(result, in_place, new_child, mem).
            if result = DELETE_NOT_FOUND
            then let left = Mpt_node h b (MPT_NODE_BRANCH
                   (rs[unat (key ! offset) := Node_ref (ref_union (rs ! unat (key ! offset))) in_place]) v)
                 in Some (DELETE_NOT_FOUND, Some left, Some left, mem)
            else (if result = DELETE_REMOVED \<or> new_child = None then Some node_ref_null
                  else mpt_node_ref alloc keccak (the new_child)) \<bind> (\<lambda>r.
              collapse_branch alloc keccak (Mpt_node h b (MPT_NODE_BRANCH (rs[unat (key ! offset) := r]) v)) mem \<bind>
              (\<lambda>(in_place, out, mem). Some (DELETE_UPDATED, Some in_place, Some out, mem)))))"
  unfolding delete_recursive.simps(2) [of _ _ "Mpt_node h b _"] mpt_node_t.sel mpt_body.case find_divergence_eq Let_def
  by (simp_all only: if_not_P not_not split: if_split) simp_all

lemma delete_leaf_step:
  assumes "mpt_wf keccak d (Mpt_node h b (MPT_NODE_LEAF p v))" "offset \<le> length key" "no_failure mem"
  shows "deleted keccak d (Mpt_node h b (MPT_NODE_LEAF p v)) (drop offset key)
    (delete_recursive alloc keccak (Some (Mpt_node h b (MPT_NODE_LEAF p v))) key offset mem)"
  using assms by (auto simp: delete_recursive_node leaf_matches_eq mpt_wf_leaf stored_def not_branch
      intro!: deleted_not_found deleted_removed)

lemma Node_ref_collapse: "ref_node r = Some m \<Longrightarrow> Node_ref (ref_union r) (Some m) = r"
  by (cases r) simp

lemma delete_extension_step:
  assumes "alloc_total alloc" "nibble_seq p" "p \<noteq> []" "length p \<le> d" "d < 2 ^ 62" "ref_of keccak m r" "mpt_node_is_branch m"
    "no_failure mem" "lcp p (drop offset key) = length p \<Longrightarrow>
      deleted keccak (d - length p) m (drop (offset + length p) key)
        (delete_recursive alloc keccak (Some m) key (offset + length p) mem)"
  shows "deleted keccak d (Mpt_node h b (MPT_NODE_EXTENSION p r)) (drop offset key)
    (delete_recursive alloc keccak (Some (Mpt_node h b (MPT_NODE_EXTENSION p r))) key offset mem)"
proof (cases "lcp p (drop offset key) = length p")
  case False
  then show ?thesis
    using assms(8) by (auto simp: delete_recursive_node prefix_map_lcp Let_def intro!: deleted_not_found)
next
  case True
  define k where "k = drop (offset + length p) key"
  have key: "drop offset key = p @ k" using key_behind_path [OF True] by (simp add: k_def)
  obtain result in_place out mem' where d:
      "delete_recursive alloc keccak (Some m) key (offset + length p) mem = Some (result, in_place, out, mem')"
      "no_failure mem'"
      "entries m k = None \<Longrightarrow> result = DELETE_NOT_FOUND \<and> in_place = Some m"
      "entries m k \<noteq> None \<Longrightarrow> root_map out = (entries m)(k := None)"
      "entries m k \<noteq> None \<Longrightarrow> \<exists>m'. out = Some m' \<and> result = DELETE_UPDATED \<and> mpt_wf keccak (d - length p) m'"
    using assms(9) [OF True] assms(7) unfolding deleted_def k_def [symmetric]
    by (auto split: if_splits option.splits)
  note r = ref_of_node [OF assms(6)]
  show ?thesis
  proof (cases "entries m k = None")
    case None: True
    then show ?thesis
      using d r True assms(6) Node_ref_collapse [OF r]
      by (auto simp: delete_recursive_node key prefix_map_append Let_def intro!: deleted_not_found)
  next
    case found: False
    then obtain m' where m': "out = Some m'" "result = DELETE_UPDATED" "mpt_wf keccak (d - length p) m'"
        "entries m' = (entries m)(k := None)"
      using d(4,5) by auto
    from merge_extension_good [OF assms(1-6) found m'(3,4) d(2)] show ?thesis
      using d(1) m' r True by (simp add: delete_recursive_node key Let_def)
  qed
qed

text \<open>A branch that loses a place keeps one.\<close>

lemma slot_left:
  assumes "slot b s" "slot b t" "s \<noteq> t" "\<And>u. u \<noteq> x \<Longrightarrow> slot b' u = slot b u"
  obtains u where "slot b' u" using assms by metis

lemma delete_value_step:
  assumes "alloc_total alloc" "mpt_wf keccak d (Mpt_node h b (MPT_NODE_BRANCH rs v))" "d < 2 ^ 62" "no_failure mem"
    "offset \<ge> length key"
  shows "deleted keccak d (Mpt_node h b (MPT_NODE_BRANCH rs v)) (drop offset key)
    (delete_recursive alloc keccak (Some (Mpt_node h b (MPT_NODE_BRANCH rs v))) key offset mem)"
proof (cases "bytes_data v = None")
  case True
  then show ?thesis
    using assms(4,5) by (auto simp: delete_recursive_node Let_def stored_def intro!: deleted_not_found)
next
  case False
  obtain s t where p: "parts_ok keccak d (rs, v)" "slot (rs, v) s" "slot (rs, v) t" "s \<noteq> t"
    using assms(2) by (auto simp: wf_branch_parts)
  have p': "parts_ok keccak d (rs, no_value)" using p(1) by (simp add: parts_ok_def value_small_def no_value_def bytes_contents_def)
  have "slot (rs, no_value) u = slot (rs, v) u" if "u \<noteq> None" for u using that by (auto simp: slot_def)
  from slot_left [OF p(2-4) this] obtain u where "slot (rs, no_value) u" by blast
  from collapse_branch_good [OF assms(1) p' this assms(3,4), of h b] obtain in_place out mem' where
    c: "collapse_branch alloc keccak (Mpt_node h b (MPT_NODE_BRANCH rs no_value)) mem = Some (in_place, out, mem')"
      "no_failure mem'" "mpt_wf keccak d out" "entries out = branch_map (map ref_map rs) None"
    unfolding collapsed_def by auto
  have "entries out = (branch_map (map ref_map rs) (stored v))([] := None)" unfolding c(4) by (rule branch_map_value)
  then show ?thesis
    using c False assms(5) by (auto simp: delete_recursive_node Let_def stored_def intro!: deleted_updated)
qed

lemma clear_child:
  assumes "parts_ok keccak d (rs, v)" "x < 16" "ref_of keccak m (rs ! unat x)" "(entries m)(k := None) = Map.empty"
  shows "parts_ok keccak d (rs[unat x := node_ref_null], v)"
    "\<And>u. u \<noteq> Some (unat x) \<Longrightarrow> slot (rs[unat x := node_ref_null], v) u = slot (rs, v) u"
    "branch_map (map ref_map (rs[unat x := node_ref_null])) w = (branch_map (map ref_map rs) w)(x # k := None)"
proof -
  have l: "length rs = 16" "unat x < 16" using assms(1,2) nibble_unat by (auto simp: parts_ok_def)
  show "parts_ok keccak d (rs[unat x := node_ref_null], v)"
    using assms(1) by (auto simp: parts_ok_def child_ok_def dest!: set_update_subset_insert [THEN subsetD])
  show "slot (rs[unat x := node_ref_null], v) u = slot (rs, v) u" if "u \<noteq> Some (unat x)" for u
    using that by (auto simp: slot_def nth_list_update split: option.split)
  have "map ref_map (rs[unat x := node_ref_null]) = (map ref_map rs)[unat x := (entries m)(k := None)]"
    using assms(4) by (simp add: map_update)
  moreover have "map ref_map rs ! unat x = entries m" using l assms(3) by simp
  then have "(map ref_map rs)[unat x := entries m] = map ref_map rs" using list_update_id by metis
  ultimately show "branch_map (map ref_map (rs[unat x := node_ref_null])) w = (branch_map (map ref_map rs) w)(x # k := None)"
    using branch_map_child [of x "map ref_map rs" "entries m" k None] l by simp
qed

lemma delete_child_step:
  assumes "alloc_total alloc" "mpt_wf keccak d (Mpt_node h b (MPT_NODE_BRANCH rs v))" "d < 2 ^ 62"
    "offset < length key" "x = key ! offset" "x < 16" "ref_of keccak m (rs ! unat x)" "0 < d"
    "deleted keccak (d - 1) m (drop (offset + 1) key) (delete_recursive alloc keccak (Some m) key (offset + 1) mem)"
  shows "deleted keccak d (Mpt_node h b (MPT_NODE_BRANCH rs v)) (drop offset key)
    (delete_recursive alloc keccak (Some (Mpt_node h b (MPT_NODE_BRANCH rs v))) key offset mem)"
proof -
  let ?n = "Mpt_node h b (MPT_NODE_BRANCH rs v)"
  define k where "k = drop (offset + 1) key"
  have key: "drop offset key = x # k" using assms(4,5) by (simp add: drop_key k_def)
  obtain s t where p: "parts_ok keccak d (rs, v)" "slot (rs, v) s" "slot (rs, v) t" "s \<noteq> t"
    using assms(2) by (auto simp: wf_branch_parts)
  have l: "length rs = 16" "unat x < 16" using p(1) assms(6) nibble_unat by (auto simp: parts_ok_def)
  note r = ref_of_node [OF assms(7)]
  have ex: "entries ?n (x # k) = entries m k" using l assms(7) by simp
  obtain result in_place out mem' where
    del: "delete_recursive alloc keccak (Some m) key (offset + 1) mem = Some (result, in_place, out, mem')" "no_failure mem'"
      "if entries m k = None then result = DELETE_NOT_FOUND \<and> in_place = Some m
       else root_map out = (entries m)(k := None) \<and>
        (case out of None \<Rightarrow> result = DELETE_REMOVED \<and> \<not> mpt_node_is_branch m
                   | Some n' \<Rightarrow> result = DELETE_UPDATED \<and> mpt_wf keccak (d - 1) n')"
    using assms(9) unfolding deleted_def k_def [symmetric] by blast
  note eq = delete_recursive_node(3) [of alloc keccak h b rs v key offset mem, folded assms(5), unfolded Let_def r option.case del(1)]
  have nn: "\<not> node_ref_is_null (rs ! unat x)" using not_null_ref [OF r] .
  show ?thesis
  proof (cases "entries m k = None")
    case True
    then have "rs[unat x := Node_ref (ref_union (rs ! unat x)) in_place] = rs" using del(3) Node_ref_collapse [OF r] by simp
    then show ?thesis
      unfolding eq key using True del(2,3) assms(4) l nn ex by (auto intro!: deleted_not_found)
  next
    case False
    have "\<exists>r'. (if result = DELETE_REMOVED \<or> out = None then Some node_ref_null else mpt_node_ref alloc keccak (the out)) = Some r' \<and>
        parts_ok keccak d (rs[unat x := r'], v) \<and> (\<exists>u. slot (rs[unat x := r'], v) u) \<and>
        branch_map (map ref_map (rs[unat x := r'])) (stored v) = (entries ?n)(x # k := None)"
    proof (cases out)
      case None
      then have "(entries m)(k := None) = Map.empty" using del(3) False by simp
      note c = clear_child [OF p(1) assms(6,7) this]
      obtain u where "slot (rs[unat x := node_ref_null], v) u" using slot_left [OF p(2-4) c(2)] by blast
      then show ?thesis using None c by auto
    next
      case (Some m')
      then have m': "mpt_wf keccak (d - 1) m'" "entries m' = (entries m)(k := None)" "result = DELETE_UPDATED" using del(3) False by auto
      have "d - 1 < 2 ^ 62" using assms(3) by linarith
      then obtain r' where r': "mpt_node_ref alloc keccak m' = Some r'" "ref_of keccak m' r'"
        using mpt_node_ref_returns [OF assms(1)] wf_small [OF m'(1)] by blast
      from replace_child [OF p(1) assms(6,7) r'(2) assms(8) m'(1,2)] show ?thesis
        using Some m'(3) r'(1) p(2) by (auto simp: parts_map_def)
    qed
    then obtain r' u where r': "(if result = DELETE_REMOVED \<or> out = None then Some node_ref_null
          else mpt_node_ref alloc keccak (the out)) = Some r'" "parts_ok keccak d (rs[unat x := r'], v)" "slot (rs[unat x := r'], v) u"
        "branch_map (map ref_map (rs[unat x := r'])) (stored v) = (entries ?n)(x # k := None)" by blast
    from collapse_branch_good [OF assms(1) r'(2,3) assms(3) del(2), of h b] obtain in_place' out' mem'' where
      "collapse_branch alloc keccak (Mpt_node h b (MPT_NODE_BRANCH (rs[unat x := r']) v)) mem' = Some (in_place', out', mem'')"
      "no_failure mem''" "mpt_wf keccak d out'" "entries out' = (entries ?n)(x # k := None)"
      unfolding collapsed_def r'(4) by blast
    moreover have "result \<noteq> DELETE_NOT_FOUND" using del(3) False by (auto split: option.splits)
    ultimately show ?thesis
      unfolding eq key using False assms(4) l nn ex r'(1) by (simp add: deleted_updated)
  qed
qed

lemma delete_node_good:
  assumes "alloc_total alloc" "nibble_seq key"
  shows "mpt_wf keccak d n \<Longrightarrow> offset \<le> length key \<Longrightarrow> d < 2 ^ 62 \<Longrightarrow> no_failure mem \<Longrightarrow>
    deleted keccak d n (drop offset key) (delete_recursive alloc keccak (Some n) key offset mem)"
proof (induction arbitrary: offset mem rule: mpt_wf.induct)
  case (wf_leaf p d v h b)
  then show ?case by (intro delete_leaf_step) (auto simp: mpt_wf_leaf)
next
  case (wf_extension p d m r h b)
  show ?case
  proof (rule delete_extension_step [OF assms(1) wf_extension.hyps(1-3) wf_extension.prems(2) wf_extension.hyps(4,5) wf_extension.prems(3)])
    assume "lcp p (drop offset key) = length p"
    then have "offset + length p \<le> length key" using lcp_le(2) [of p "drop offset key"] wf_extension.prems(1) by simp
    then show "deleted keccak (d - length p) m (drop (offset + length p) key)
        (delete_recursive alloc keccak (Some m) key (offset + length p) mem)"
      using wf_extension.prems by (intro wf_extension.IH) auto
  qed
next
  case (wf_branch rs d v s t h b)
  let ?n = "Mpt_node h b (MPT_NODE_BRANCH rs v)"
  have c: "\<forall>r\<in>set rs. child_ok keccak d r" using wf_branch.IH(1) unfolding child_ok_def by meson
  then have n: "mpt_wf keccak d ?n" using wf_branch by (auto simp: wf_branch_parts parts_ok_def)
  show ?case
  proof (cases "offset < length key")
    case False
    then show ?thesis using wf_branch.prems by (intro delete_value_step assms(1) n) auto
  next
    case True
    define x where "x = key ! offset"
    have k: "drop offset key = x # drop (offset + 1) key" using True by (simp add: x_def drop_key)
    have x: "x < 16" "unat x < length rs"
      using nibble_seq_parts(3) [OF assms(2) True] nibble_unat wf_branch.hyps(1) by (auto simp: x_def)
    show ?thesis
    proof (cases "rs ! unat x = node_ref_null")
      case null: True
      have "node_ref_is_null (rs ! unat x)"
        by (simp add: null node_ref_is_null_def node_ref_null_def bytes_is_empty_def no_value_def)
      then show ?thesis
        using True x wf_branch.prems(3) k null by (auto simp: delete_recursive_node Let_def x_def [symmetric] intro!: deleted_not_found)
    next
      case False
      then obtain m where m: "ref_of keccak m (rs ! unat x)" "0 < d"
          "\<And>offset mem. offset \<le> length key \<Longrightarrow> d - 1 < 2 ^ 62 \<Longrightarrow> no_failure mem \<Longrightarrow>
            deleted keccak (d - 1) m (drop offset key) (delete_recursive alloc keccak (Some m) key offset mem)"
        using wf_branch.IH(1) x(2) nth_mem by meson
      show ?thesis
        using True wf_branch.prems by (intro delete_child_step [OF assms(1) n _ True x_def x(1) m(1,2)] m(3)) auto
    qed
  qed
qed


section \<open>The handle\<close>

lemma contains_loop_eq: "mpt_wf keccak d n \<Longrightarrow> offset \<le> length key \<Longrightarrow>
  contains_loop (Some n) key offset \<longleftrightarrow> entries n (drop offset key) \<noteq> None"
proof (induction arbitrary: offset rule: mpt_wf.induct)
  case (wf_leaf p d v h b)
  then show ?case by (auto simp: contains_loop.simps(2) [of "Mpt_node h b _"] leaf_matches_eq stored_def)
next
  case (wf_extension p d m r h b)
  have "offset + length p \<le> length key" if "lcp p (drop offset key) = length p"
    using that lcp_le(2) [of p "drop offset key"] wf_extension.prems by simp
  then show ?case
    using wf_extension.IH [of "offset + length p"] wf_extension.hyps(4) ref_of_node [OF wf_extension.hyps(4)]
    by (auto simp: contains_loop.simps(2) [of "Mpt_node h b _"] Let_def find_divergence_eq prefix_map_lcp add.commute)
next
  case (wf_branch rs d v s t h b)
  show ?case
  proof (cases "offset < length key")
    case True
    note k = drop_key [OF True]
    define x where "x = key ! offset"
    have e: "contains_loop (Some (Mpt_node h b (MPT_NODE_BRANCH rs v))) key offset \<longleftrightarrow>
        unat x < 16 \<and> \<not> node_ref_is_null (rs ! unat x) \<and>
        (case ref_node (rs ! unat x) of None \<Rightarrow> False | Some n \<Rightarrow> contains_loop (Some n) key (offset + 1))"
      using True wf_branch.hyps(1) by (simp add: contains_loop.simps(2) [of "Mpt_node h b _"] Let_def x_def)
    show ?thesis
    proof (cases "unat x < 16 \<and> rs ! unat x \<noteq> node_ref_null")
      case True
      then obtain m where "ref_of keccak m (rs ! unat x)"
          "\<And>offset. offset \<le> length key \<Longrightarrow> contains_loop (Some m) key offset \<longleftrightarrow> entries m (drop offset key) \<noteq> None"
        using wf_branch.IH(1) wf_branch.hyps(1) nth_mem by (metis (no_types, lifting))
      then show ?thesis
        unfolding e using True \<open>offset < length key\<close> k wf_branch.hyps(1) ref_of_node [of keccak m] not_null_ref [of "rs ! unat x" m]
        by (simp add: x_def)
    next
      case False
      then show ?thesis
        unfolding e using k wf_branch.hyps(1)
        by (auto simp: x_def branch_map_def node_ref_null_def ref_map_def split: if_splits)
    qed
  next
    case False
    then show ?thesis by (simp add: contains_loop.simps(2) [of "Mpt_node h b _"] stored_def)
  qed
qed

text \<open>
  A trie all of whose keys come from bytes, and the map from bytes to bytes it stands for.
\<close>

definition mpt_root :: "mpt_t \<Rightarrow> mpt_node_t option" where
  "mpt_root mpt = (case mpt_backend mpt of None \<Rightarrow> None | Some backend \<Rightarrow> mem_root backend)"

definition root_ok :: "hash_fun \<Rightarrow> nat \<Rightarrow> mpt_node_t option \<Rightarrow> bool" where
  "root_ok keccak d root \<longleftrightarrow> dom (root_map root) \<subseteq> range nibbles_of \<and>
     (case root of None \<Rightarrow> True | Some n \<Rightarrow> mpt_wf keccak d n)"

definition mpt_ok :: "hash_fun \<Rightarrow> nat \<Rightarrow> mpt_t \<Rightarrow> bool" where
  "mpt_ok keccak d mpt \<longleftrightarrow> mpt_backend mpt \<noteq> None \<and> root_ok keccak d (mpt_root mpt)"

definition mpt_map :: "mpt_t \<Rightarrow> u8 list \<rightharpoonup> u8 list" where
  "mpt_map mpt key = root_map (mpt_root mpt) (nibbles_of key)"

lemma mpt_ok_backend:
  assumes "mpt_ok keccak d mpt"
  obtains root where "mpt = \<lparr>mpt_backend = Some \<lparr>mem_root = root\<rparr>\<rparr>" "root_ok keccak d root"
    "mpt_map mpt = root_map root \<circ> nibbles_of"
proof -
  obtain backend where b: "mpt_backend mpt = Some backend" using assms by (auto simp: mpt_ok_def)
  then have "mpt = \<lparr>mpt_backend = Some \<lparr>mem_root = mem_root backend\<rparr>\<rparr>" by (cases mpt; cases backend) simp
  then show thesis using b assms
    by (intro that [of "mem_root backend"]) (auto simp: mpt_ok_def mpt_root_def mpt_map_def fun_eq_iff)
qed

lemma mpt_ok_root: "mpt_ok keccak d \<lparr>mpt_backend = Some \<lparr>mem_root = root\<rparr>\<rparr> \<longleftrightarrow> root_ok keccak d root"
  by (simp add: mpt_ok_def mpt_root_def)

lemma mpt_map_root: "mpt_map \<lparr>mpt_backend = Some \<lparr>mem_root = root\<rparr>\<rparr> = root_map root \<circ> nibbles_of"
  by (simp add: mpt_root_def mpt_map_def fun_eq_iff)

lemma update_nibbles: "(m(nibbles_of k := v)) \<circ> nibbles_of = (m \<circ> nibbles_of)(k := v)"
  by (auto simp: fun_eq_iff nibbles_of_inj)

lemma mpt_get_eq:
  assumes "alloc_total alloc" "mpt_ok keccak d mpt"
  shows "stored (mpt_get alloc mpt key) = mpt_map mpt key" "mpt_contains alloc mpt key \<longleftrightarrow> mpt_map mpt key \<noteq> None"
proof -
  obtain root where r: "mpt = \<lparr>mpt_backend = Some \<lparr>mem_root = root\<rparr>\<rparr>" "root_ok keccak d root"
    "mpt_map mpt = root_map root \<circ> nibbles_of" using mpt_ok_backend [OF assms(2)] by blast
  show "stored (mpt_get alloc mpt key) = mpt_map mpt key"
    unfolding r(3) using get_loop_eq [of 0 "nibbles_of key" root]
    by (simp add: r(1) mpt_get_def memory_get_root_def from_bytes_eq [OF assms(1)])
  show "mpt_contains alloc mpt key \<longleftrightarrow> mpt_map mpt key \<noteq> None"
    unfolding r(3) using contains_loop_eq [of keccak d _ 0 "nibbles_of key"] r(2)
    by (cases root) (auto simp: r(1) mpt_contains_def memory_get_root_def from_bytes_eq [OF assms(1)] contains_loop.simps(1) root_ok_def)
qed

lemma mpt_insert_good:
  assumes "alloc_total alloc" "mpt_ok keccak d mpt" "2 * length key \<le> d" "d < 2 ^ 62" "length value < 2 ^ 62"
  shows "\<exists>ok mpt' mem'. mpt_insert alloc keccak mpt key value mem = Some (ok, mpt', mem') \<and> mpt_ok keccak d mpt' \<and>
    (if ok then mpt_map mpt' = (mpt_map mpt)(key \<mapsto> value) else mpt' = mpt \<and> False \<in> set mem) \<and> set mem' \<subseteq> set mem"
proof -
  obtain root where r: "mpt = \<lparr>mpt_backend = Some \<lparr>mem_root = root\<rparr>\<rparr>" "root_ok keccak d root"
    "mpt_map mpt = root_map root \<circ> nibbles_of" using mpt_ok_backend [OF assms(2)] by blast
  let ?k = "nibbles_of key"
  have "good mem (\<lambda>n'. mpt_wf keccak d n' \<and> entries n' = (root_map root)(?k \<mapsto> value))
      (insert_recursive alloc keccak root ?k 0 value mem)"
  proof (cases root)
    case None
    then show ?thesis
      using insert_empty_good [OF assms(1) nibble_seq_of, of key d 0 "value" mem keccak] assms(3,5)
      by (simp add: insert_recursive.simps(1))
  next
    case (Some n)
    have "good mem (inserted keccak d n (drop 0 ?k) value) (insert_recursive alloc keccak (Some n) ?k 0 value mem)"
      using assms r(2) Some by (intro insert_node_good nibble_seq_of) (auto simp: root_ok_def)
    then show ?thesis unfolding Some by (rule good_mono) (simp add: inserted_def)
  qed
  then obtain n' mem' where i: "insert_recursive alloc keccak root ?k 0 value mem = Some (n', mem')"
      "case n' of None \<Rightarrow> False \<in> set mem | Some n \<Rightarrow> mpt_wf keccak d n \<and> entries n = (root_map root)(?k \<mapsto> value)" "set mem' \<subseteq> set mem"
    by (auto simp: good_def)
  have "root_ok keccak d (Some n)" if "n' = Some n" for n
    using i(2) r(2) that by (auto simp: root_ok_def)
  then show ?thesis
    using i assms(2) update_nibbles [of "root_map root" key "Some value"]
    by (cases n') (auto simp: mpt_insert_def r(1) memory_get_root_def memory_set_root_def from_bytes_eq [OF assms(1)]
      mpt_ok_root mpt_map_root)
qed

lemma mpt_delete_good:
  assumes "alloc_total alloc" "mpt_ok keccak d mpt" "d < 2 ^ 62" "no_failure mem"
  shows "\<exists>mpt' mem'. mpt_delete alloc keccak mpt key mem = Some (mpt_map mpt key \<noteq> None, mpt', mem') \<and>
    no_failure mem' \<and> mpt_ok keccak d mpt' \<and> mpt_map mpt' = (mpt_map mpt)(key := None)"
proof -
  obtain root where r: "mpt = \<lparr>mpt_backend = Some \<lparr>mem_root = root\<rparr>\<rparr>" "root_ok keccak d root"
    "mpt_map mpt = root_map root \<circ> nibbles_of" using mpt_ok_backend [OF assms(2)] by blast
  let ?k = "nibbles_of key"
  show ?thesis
  proof (cases root)
    case None
    then show ?thesis
      using assms(4) r(2) by (simp add: mpt_delete_def r(1) memory_get_root_def mpt_ok_root mpt_map_root comp_def)
  next
    case (Some n)
    have n: "mpt_wf keccak d n" using r(2) Some by (simp add: root_ok_def)
    then have "\<not> mpt_node_is_empty n" using wf_small [OF n] assms(3) by (simp add: mpt_node_is_empty_def split: mpt_body.split)
    moreover obtain result in_place out mem' where d: "delete_recursive alloc keccak (Some n) ?k 0 mem = Some (result, in_place, out, mem')"
        "no_failure mem'" "if entries n ?k = None then result = DELETE_NOT_FOUND \<and> in_place = Some n
          else root_map out = (entries n)(?k := None) \<and>
            (case out of None \<Rightarrow> result = DELETE_REMOVED \<and> \<not> mpt_node_is_branch n
                   | Some n' \<Rightarrow> result = DELETE_UPDATED \<and> mpt_wf keccak d n')"
      using delete_node_good [OF assms(1) nibble_seq_of n, of 0 key mem] assms(3,4) unfolding deleted_def by auto
    ultimately have e: "mpt_delete alloc keccak mpt key mem =
        (if result = DELETE_NOT_FOUND then Some (False, \<lparr>mpt_backend = Some \<lparr>mem_root = in_place\<rparr>\<rparr>, mem')
         else Some (True, \<lparr>mpt_backend = Some \<lparr>mem_root = out\<rparr>\<rparr>, mem'))"
      using Some by (simp add: mpt_delete_def r(1) memory_get_root_def memory_set_root_def from_bytes_eq [OF assms(1)])
    show ?thesis
    proof (cases "entries n ?k = None")
      case True
      then have "(root_map root \<circ> nibbles_of)(key := None) = root_map root \<circ> nibbles_of" using Some by (simp add: fun_upd_idem)
      then show ?thesis using True d r Some e by (simp add: mpt_ok_root)
    next
      case False
      then have "root_ok keccak d out" using d(3) r(2) Some by (auto simp: root_ok_def split: option.splits)
      moreover have "result \<noteq> DELETE_NOT_FOUND" using False d(3) by (auto split: option.splits)
      ultimately show ?thesis
        using False d r(3) Some e update_nibbles [of "entries n" key None] by (simp add: mpt_ok_root mpt_map_root)
    qed
  qed
qed

end
