(* ===== verification/Mpt_Root.thy ===== *)
theory Mpt_Root
  imports Mpt_Map
begin

text \<open>
  The root hash of the trie of \<open>Mpt\<close>: it is the hash of the structural composition of the yellow
  paper, a function of the map alone.  The properties of the trie are at the end.
\<close>

section \<open>The root hash\<close>

text \<open>
  The structural composition function of the yellow paper, on the list of the entries: a leaf for
  one entry, an extension for the longest common prefix, a branch otherwise.  A node of 32 bytes
  or more is replaced by its hash in its parent.
\<close>

type_synonym entry = "nibbles_t \<times> u8 list"

definition common_prefix :: "entry list \<Rightarrow> nat" where
  "common_prefix es = (case es of [] \<Rightarrow> 0 | (k, _) # es \<Rightarrow> foldr (\<lambda>(k', _) j. min (lcp k k') j) es (length k))"

definition below :: "nat \<Rightarrow> entry list \<Rightarrow> entry list" where
  "below i es = map (\<lambda>(k, v). (tl k, v)) (filter (\<lambda>(k, _). k \<noteq> [] \<and> unat (hd k) = i) es)"

definition strip :: "nat \<Rightarrow> entry list \<Rightarrow> entry list" where
  "strip j es = map (\<lambda>(k, v). (drop j k, v)) es"

definition capped :: "hash_fun \<Rightarrow> u8 list \<Rightarrow> u8 list" where
  "capped keccak e = (if length e < 32 then e else rlp_string (take HASH_SIZE (keccak e)))"

definition key_sum :: "entry list \<Rightarrow> nat" where
  "key_sum es = sum_list (map (\<lambda>(k, _). length k) es)"

lemma key_sum_below: "below i es \<noteq> [] \<Longrightarrow> key_sum (below i es) < key_sum es"
proof (induction es)
  case (Cons e es)
  obtain k v where e: "e = (k, v)" by (cases e)
  show ?case
  proof (cases "below i es = []")
    case True
    then show ?thesis using Cons.prems by (cases k) (auto simp: e below_def key_sum_def split: if_splits)
  next
    case False
    then show ?thesis using Cons.IH by (auto simp: e below_def key_sum_def)
  qed
qed (simp add: below_def)

lemma key_sum_strip:
  assumes "0 < common_prefix es" shows "key_sum (strip (common_prefix es) es) < key_sum es"
proof -
  obtain k v es' where es: "es = (k, v) # es'" using assms by (cases es) (auto simp: common_prefix_def)
  define j where "j = common_prefix es"
  have "foldr (\<lambda>(k', _) j. min (lcp k k') j) es' (length k) \<le> length k" by (induction es') auto
  then have j: "0 < j" "j \<le> length k" using assms by (simp_all add: j_def es common_prefix_def)
  have "key_sum (strip j es') \<le> key_sum es'"
    by (induction es') (auto simp: strip_def key_sum_def)
  moreover have "key_sum (strip j es) = length k - j + key_sum (strip j es')" "key_sum es = length k + key_sum es'"
    by (simp_all add: es strip_def key_sum_def)
  ultimately show ?thesis using j unfolding j_def [symmetric] by linarith
qed

function composition :: "hash_fun \<Rightarrow> entry list \<Rightarrow> u8 list" where
  "composition keccak es =
     (case es of
        [] \<Rightarrow> [0x80]
      | [(k, v)] \<Rightarrow> rlp_list (rlp_string (hex_prefix k True) @ rlp_string v)
      | (k, v) # _ # _ \<Rightarrow>
          (if common_prefix es > 0
           then rlp_list (rlp_string (hex_prefix (take (common_prefix es) k) False) @
                  capped keccak (composition keccak (strip (common_prefix es) es)))
           else rlp_list (concat (map (\<lambda>i. if below i es = [] then [0x80]
                    else capped keccak (composition keccak (below i es))) [0..<16]) @
                  rlp_string (case map_of es [] of None \<Rightarrow> [] | Some v \<Rightarrow> v))))"
  by pat_completeness auto

termination composition
  by (relation "measure (key_sum \<circ> snd)") (auto simp: key_sum_below key_sum_strip)

declare composition.simps [simp del]

definition trie_root :: "hash_fun \<Rightarrow> entry list \<Rightarrow> hash_t" where
  "trie_root keccak es = (if es = [] then MPT_EMPTY_ROOT else keccak (composition keccak es))"

lemma lcp_refl: "lcp k k = length k"
  by (induction k) auto

lemma common_prefix_le:
  assumes "(k, v) \<in> set es" "(k', v') \<in> set es"
  shows "take (common_prefix es) k = take (common_prefix es) k'" "common_prefix es \<le> length k"
proof -
  obtain k0 v0 es' where es: "es = (k0, v0) # es'" using assms(1) by (cases es) auto
  have "foldr (\<lambda>(k', _) j. min (lcp k0 k') j) es' (length k0) \<le> lcp k0 k" if "(k, v) \<in> set es'" for k v
    using that by (induction es') auto
  moreover have "foldr (\<lambda>(k', _) j. min (lcp k0 k') j) es' (length k0) \<le> length k0" by (induction es') auto
  ultimately have c: "common_prefix es \<le> lcp k0 k" if "(k, v) \<in> set es" for k v
    using that by (auto simp: es common_prefix_def lcp_refl)
  have t: "take (common_prefix es) k0 = take (common_prefix es) k" if "(k, v) \<in> set es" for k v
    using c [OF that] lcp_take [of k0 k] by (metis min.absorb2 min.commute take_take)
  show "take (common_prefix es) k = take (common_prefix es) k'" using t [OF assms(1)] t [OF assms(2)] by simp
  show "common_prefix es \<le> length k" using c [OF assms(1)] lcp_le(2) [of k0 k] by linarith
qed

lemma common_prefix_behind:
  assumes "es \<noteq> []" shows "common_prefix (map (\<lambda>(k, v). (p @ k, v)) es) = length p + common_prefix es"
proof -
  obtain k0 v0 es' where es: "es = (k0, v0) # es'" using assms by (cases es) auto
  have "lcp (p @ a) (p @ b) = length p + lcp a b" for a b by (induction p) auto
  then have "foldr (\<lambda>(k', _) j. min (lcp (p @ k0) k') j) (map (\<lambda>(k, v). (p @ k, v)) es') (length p + l) =
      length p + foldr (\<lambda>(k', _) j. min (lcp k0 k') j) es' l" for l
    by (induction es') (auto simp: min_def)
  then show ?thesis by (simp add: es common_prefix_def)
qed

lemma map_of_below:
  assumes "i < 256" shows "map_of (below i es) ks = map_of es (of_nat i # ks)"
proof -
  have i: "unat (of_nat i :: u8) = i" using assms by (simp add: unat_of_nat)
  show ?thesis
  proof (induction es)
    case (Cons e es)
    obtain k v where e: "e = (k, v)" by (cases e)
    show ?case using Cons i by (cases k) (auto simp: e below_def word_unat_eq_iff)
  qed (simp add: below_def)
qed

lemma distinct_below: "distinct (map fst es) \<Longrightarrow> distinct (map fst (below i es))"
proof (induction es)
  case (Cons e es)
  obtain k v where e: "e = (k, v)" by (cases e)
  have "(tl k, w) \<notin> set (below i es)" if "k \<noteq> []" "unat (hd k) = i" for w
  proof
    assume "(tl k, w) \<in> set (below i es)"
    then obtain k' where "(k', w) \<in> set es" "k' \<noteq> []" "unat (hd k') = i" "tl k' = tl k" by (auto simp: below_def)
    then have "k' = k" using that by (cases k; cases k') (auto simp: word_unat_eq_iff)
    then show False using \<open>(k', w) \<in> set es\<close> Cons.prems by (force simp: e)
  qed
  then show ?case using Cons by (auto simp: e below_def image_iff)
qed (simp add: below_def)

lemma strip_entries:
  assumes "\<And>k v. (k, v) \<in> set es \<Longrightarrow> take (length p) k = p"
  shows "map (\<lambda>(k, v). (p @ k, v)) (strip (length p) es) = es" "map_of (strip (length p) es) k' = map_of es (p @ k')"
    "distinct (map fst es) \<Longrightarrow> distinct (map fst (strip (length p) es))"
proof -
  show m: "map (\<lambda>(k, v). (p @ k, v)) (strip (length p) es) = es"
    using assms unfolding strip_def by (induction es) (auto, metis append_take_drop_id)
  have "map_of (map (\<lambda>(k, v). (p @ k, v)) es') (p @ k') = map_of es' k'" for es' :: "entry list"
    by (induction es') auto
  from this [of "strip (length p) es"] show "map_of (strip (length p) es) k' = map_of es (p @ k')" unfolding m by simp
  have "map fst es = map ((@) p) (map fst (strip (length p) es))" by (subst m [symmetric]) (auto simp: case_prod_beta)
  then show "distinct (map fst es) \<Longrightarrow> distinct (map fst (strip (length p) es))" by (metis distinct_map)
qed


lemma wf_entries_nonempty: "mpt_wf keccak d n \<Longrightarrow> \<exists>k. entries n k \<noteq> None"
proof (induction rule: mpt_wf.induct)
  case (wf_leaf p d v h b)
  then show ?case by (intro exI [of _ p]) (simp add: stored_def)
next
  case (wf_extension p d m r h b)
  then obtain k where "entries m k \<noteq> None" by blast
  then show ?case using wf_extension.hyps(4) by (intro exI [of _ "p @ k"]) (simp add: prefix_map_append)
next
  case (wf_branch rs d v s t h b)
  show ?case
  proof (cases s)
    case None
    then show ?thesis using wf_branch.hyps(3) by (intro exI [of _ "[]"]) (simp add: slot_def stored_def)
  next
    case (Some i)
    then have i: "i < 16" "rs ! i \<noteq> node_ref_null" using wf_branch.hyps by (auto simp: slot_def node_ref_null_def)
    then obtain m k where m: "ref_of keccak m (rs ! i)" "entries m k \<noteq> None"
      using wf_branch.IH(1) wf_branch.hyps(1) nth_mem by metis
    have "unat (of_nat i :: u8) = i" using i by (simp add: unat_of_nat)
    then show ?thesis using m i wf_branch.hyps(1) by (intro exI [of _ "of_nat i # k"]) simp
  qed
qed

lemma slot_entry:
  assumes "mpt_wf keccak d (Mpt_node h b (MPT_NODE_BRANCH rs v))" "slot (rs, v) s"
  obtains k where "entries (Mpt_node h b (MPT_NODE_BRANCH rs v)) k \<noteq> None" "head_slot k = s"
proof (cases s)
  case None
  then show thesis using assms(2) by (intro that [of "[]"]) (simp_all add: slot_def stored_def)
next
  case (Some i)
  have p: "parts_ok keccak d (rs, v)" using assms(1) by (simp add: wf_branch_parts)
  then have i: "i < 16" "length rs = 16" "child_ok keccak d (rs ! i)" "rs ! i \<noteq> node_ref_null"
    using Some assms(2) by (auto simp: slot_def parts_ok_def node_ref_null_def)
  then obtain m where m: "ref_of keccak m (rs ! i)" "mpt_wf keccak (d - 1) m" by (auto simp: child_ok_def)
  obtain k where "entries m k \<noteq> None" using wf_entries_nonempty [OF m(2)] by blast
  moreover have "unat (of_nat i :: u8) = i" using i by (simp add: unat_of_nat)
  ultimately show thesis using m i Some by (intro that [of "of_nat i # k"]) simp_all
qed

lemma branch_entries:
  assumes "mpt_wf keccak d (Mpt_node h b (MPT_NODE_BRANCH rs v))"
    "map_of es = entries (Mpt_node h b (MPT_NODE_BRANCH rs v))"
  shows "common_prefix es = 0" "\<exists>e1 e2 es'. es = e1 # e2 # es'"
proof -
  obtain s t where s: "slot (rs, v) s" "slot (rs, v) t" "s \<noteq> t" using assms(1) by (auto simp: wf_branch_parts)
  obtain k1 where k1: "map_of es k1 \<noteq> None" "head_slot k1 = s" using slot_entry [OF assms(1) s(1)] assms(2) by metis
  obtain k2 where k2: "map_of es k2 \<noteq> None" "head_slot k2 = t" using slot_entry [OF assms(1) s(2)] assms(2) by metis
  obtain v1 v2 where v: "(k1, v1) \<in> set es" "(k2, v2) \<in> set es" using k1 k2 by (auto dest: map_of_SomeD)
  show "common_prefix es = 0"
  proof (rule ccontr)
    assume "common_prefix es \<noteq> 0"
    then have "take 1 (take (common_prefix es) k1) = take 1 k1" "take 1 (take (common_prefix es) k2) = take 1 k2" by simp_all
    then have "take 1 k1 = take 1 k2" using common_prefix_le(1) [OF v] by metis
    then have "head_slot k1 = head_slot k2" by (cases k1; cases k2) auto
    then show False using k1 k2 s(3) by simp
  qed
  have "k1 \<noteq> k2" using k1 k2 s(3) by auto
  then show "\<exists>e1 e2 es'. es = e1 # e2 # es'"
    using v by (cases es; cases "tl es") auto
qed

lemma single_entry:
  assumes "distinct (map fst es)" "map_of es = [p \<mapsto> w]" shows "es = [(p, w)]"
proof -
  have all: "k = p \<and> v = w" if "(k, v) \<in> set es" for k v
    using map_of_is_SomeI [OF assms(1) that] assms(2) by (auto split: if_splits)
  have "map_of es p = Some w" by (simp add: assms(2))
  then obtain e es' where es: "es = e # es'" by (cases es) auto
  have "es' = []"
  proof (cases es')
    case (Cons e' es'')
    then have "fst e = p" "fst e' = p" using all [of "fst e" "snd e"] all [of "fst e'" "snd e'"] es by simp_all
    then show ?thesis using assms(1) es Cons by simp
  qed
  then show ?thesis using all [of "fst e" "snd e"] es by (cases e) simp
qed

lemma ref_rlp_of: "ref_of keccak m r \<Longrightarrow> ref_rlp r = capped keccak (body_rlp (node_body m))"
  by (auto simp: ref_rlp_def ref_of_def capped_def node_ref_is_null_def HASH_SIZE_def split: if_splits)

lemma ref_rlp_null: "ref_rlp node_ref_null = [0x80]"
  by (simp add: ref_rlp_def node_ref_is_null_def node_ref_null_def bytes_is_empty_def no_value_def)

lemma composition_branch:
  assumes "\<exists>e1 e2 rest. es = e1 # e2 # rest" "common_prefix es = 0"
  shows "composition keccak es = rlp_list (concat (map (\<lambda>i. if below i es = [] then [0x80]
      else capped keccak (composition keccak (below i es))) [0..<16]) @
    rlp_string (case map_of es [] of None \<Rightarrow> [] | Some v \<Rightarrow> v))"
proof -
  obtain k v e2 rest where es: "es = (k, v) # e2 # rest" using assms(1) by auto
  have "\<not> common_prefix es > 0" using assms(2) by simp
  from composition.simps [of keccak es, unfolded if_not_P [OF this]] show ?thesis
    unfolding es list.case prod.case .
qed

lemma composition_eq:
  "mpt_wf keccak d n \<Longrightarrow> distinct (map fst es) \<Longrightarrow> map_of es = entries n \<Longrightarrow> composition keccak es = body_rlp (node_body n)"
proof (induction arbitrary: es rule: mpt_wf.induct)
  case (wf_leaf p d v h b)
  have "stored v = Some (bytes_contents v)" using wf_leaf.hyps(3) by (simp add: stored_def)
  then have "es = [(p, bytes_contents v)]"
    using wf_leaf.prems(2) unfolding entries_node by (intro single_entry wf_leaf.prems(1)) (simp only:)
  then show ?case by (simp add: composition.simps)
next
  case (wf_extension p d m r h b)
  have pre: "take (length p) k = p" if "(k, v) \<in> set es" for k v
    using wf_extension.prems that map_of_eq_Some_iff [OF wf_extension.prems(1), of k v]
    by (auto simp: prefix_map_def split: if_splits)
  define es' where "es' = strip (length p) es"
  have es': "map (\<lambda>(k, v). (p @ k, v)) es' = es" "map_of es' = entries m" "distinct (map fst es')"
    using strip_entries [OF pre] wf_extension.prems wf_extension.hyps(4) by (auto simp: es'_def fun_eq_iff prefix_map_append)
  obtain hm bm rs v where m: "m = Mpt_node hm bm (MPT_NODE_BRANCH rs v)"
    using wf_extension.hyps(5) by (cases m) (auto simp: mpt_node_is_branch_def split: mpt_body.splits)
  note b = branch_entries [OF wf_extension.hyps(6) [unfolded m] es'(2) [unfolded m]]
  obtain k1 v1 e2 rest where es: "es' = (k1, v1) # e2 # rest" using b(2) by auto
  then have "es' \<noteq> []" by simp
  from common_prefix_behind [OF this, of p] have "common_prefix es = length p" unfolding es'(1) b(1) by simp
  moreover have "\<exists>v e2 rest. es = (p @ k1, v) # e2 # rest" by (subst es'(1) [symmetric]) (auto simp: es)
  ultimately have "composition keccak es = rlp_list (rlp_string (hex_prefix p False) @ capped keccak (composition keccak es'))"
    using wf_extension.hyps(2) es'_def by (auto simp: composition.simps [of _ es])
  then show ?case using wf_extension.IH [OF es'(3,2)] ref_rlp_of [OF wf_extension.hyps(4)] by simp
next
  case (wf_branch rs d v s t h b)
  let ?n = "Mpt_node h b (MPT_NODE_BRANCH rs v)"
  have "\<forall>r\<in>set rs. child_ok keccak d r" using wf_branch.IH(1) unfolding child_ok_def by meson
  then have n: "mpt_wf keccak d ?n" using wf_branch by (auto simp: wf_branch_parts parts_ok_def)
  have child: "(if below i es = [] then [0x80] else capped keccak (composition keccak (below i es))) = ref_rlp (rs ! i)"
    if i: "i < 16" for i
  proof -
    have u: "unat (of_nat i :: u8) = i" using i by (simp add: unat_of_nat)
    have bl: "map_of (below i es) = ref_map (rs ! i)"
      using map_of_below [of i es] wf_branch.prems(2) i wf_branch.hyps(1) u by (auto simp: fun_eq_iff)
    show ?thesis
    proof (cases "rs ! i = node_ref_null")
      case True
      then have "below i es = []" using bl by (metis ref_map_simps(1) map_of_eq_empty_iff)
      then show ?thesis using True by (simp add: ref_rlp_null)
    next
      case False
      then obtain m where m: "ref_of keccak m (rs ! i)" "mpt_wf keccak (d - 1) m"
          "\<And>es. distinct (map fst es) \<Longrightarrow> map_of es = entries m \<Longrightarrow> composition keccak es = body_rlp (node_body m)"
        using wf_branch.IH(1) i wf_branch.hyps(1) nth_mem by metis
      have "below i es \<noteq> []" using bl m(1) wf_entries_nonempty [OF m(2)] by (auto simp: fun_eq_iff)
      then show ?thesis
        using m(3) [OF distinct_below [OF wf_branch.prems(1)]] bl m(1) ref_rlp_of [OF m(1)] by simp
    qed
  qed
  have "map ref_rlp rs = map (\<lambda>i. ref_rlp (rs ! i)) [0..<16]"
    using wf_branch.hyps(1) by (intro nth_equalityI) simp_all
  also have "\<dots> = map (\<lambda>i. if below i es = [] then [0x80] else capped keccak (composition keccak (below i es))) [0..<16]"
    using child by simp
  finally have rs: "map ref_rlp rs = \<dots>" .
  have "bytes_contents v = (case map_of es [] of None \<Rightarrow> [] | Some v \<Rightarrow> v)"
    using wf_branch.prems(2) by (simp add: stored_def bytes_contents_def)
  then show ?case
    using composition_branch [OF branch_entries(2,1) [OF n wf_branch.prems(2)]] by (simp only: body_rlp.simps mpt_node_t.sel rs)
qed


lemma wf_cache_hash:
  assumes "mpt_wf keccak d n" shows "mpt_wf keccak d (Mpt_node (keccak (body_rlp (node_body n))) True (node_body n))"
  using assms by (cases rule: mpt_wf.cases) (auto simp: mpt_wf_leaf mpt_wf_extension mpt_wf_branch hash_ok_def)

lemma wf_hash_ok: "mpt_wf keccak d n \<Longrightarrow> hash_ok keccak n"
  by (cases rule: mpt_wf.cases) auto

lemma mpt_node_hash_good:
  assumes "alloc_total alloc" "mpt_wf keccak d n" "d < 2 ^ 62"
  shows "\<exists>n'. mpt_node_hash alloc keccak n = Some (keccak (body_rlp (node_body n)), n') \<and> mpt_wf keccak d n' \<and> entries n' = entries n"
proof (cases "hash_valid n")
  case True
  then show ?thesis using assms(2) wf_hash_ok [OF assms(2)] by (simp add: mpt_node_hash_def hash_ok_def)
next
  case False
  have s: "body_small (node_body n)" "\<not> mpt_node_is_empty n"
    using wf_small [OF assms(2,3)] by (auto simp: mpt_node_is_empty_def split: mpt_body.splits)
  obtain e where e: "mpt_node_encode alloc n = Some e" "bytes_contents e = body_rlp (node_body n)"
    using mpt_node_encode_returns [OF assms(1) s(1)] by (elim returnsE)
  have "entries (Mpt_node h True (node_body n)) = entries n" for h
    by (simp add: entries.simps [of n] entries.simps [of "Mpt_node _ _ _"])
  then show ?thesis using False s e wf_cache_hash [OF assms(2)] by (simp add: mpt_node_hash_def Let_def)
qed

definition nibble_entries :: "(u8 list \<times> u8 list) list \<Rightarrow> entry list" where
  "nibble_entries es = map (\<lambda>(k, v). (nibbles_of k, v)) es"

lemma map_of_nibble_entries: "map_of (nibble_entries es) (nibbles_of k) = map_of es k"
  by (induction es) (auto simp: nibble_entries_def nibbles_of_inj)

lemma nibble_entries_eq:
  assumes "root_ok keccak d root" "map_of es = root_map root \<circ> nibbles_of" "distinct (map fst es)"
  shows "map_of (nibble_entries es) = root_map root" "distinct (map fst (nibble_entries es))"
proof
  fix k
  show "map_of (nibble_entries es) k = root_map root k"
  proof (cases "k \<in> range nibbles_of")
    case True
    then show ?thesis using map_of_nibble_entries [of es] assms(2) by auto
  next
    case False
    then have "map_of (nibble_entries es) k = None" by (auto simp: map_of_eq_None_iff nibble_entries_def)
    moreover have "root_map root k = None" using False assms(1) by (auto simp: root_ok_def)
    ultimately show ?thesis by simp
  qed
next
  have "map fst (nibble_entries es) = map nibbles_of (map fst es)" by (auto simp: nibble_entries_def)
  moreover have "inj nibbles_of" by (rule injI) (simp add: nibbles_of_inj)
  ultimately show "distinct (map fst (nibble_entries es))" using assms(3) distinct_map [of nibbles_of "map fst es"] inj_on_subset by (metis subset_UNIV)
qed

lemma mpt_root_hash_good:
  assumes "alloc_total alloc" "mpt_ok keccak d mpt" "d < 2 ^ 62" "distinct (map fst es)" "map_of es = mpt_map mpt"
  shows "\<exists>mpt'. mpt_root_hash alloc keccak mpt = Some (trie_root keccak (nibble_entries es), mpt') \<and>
    mpt_ok keccak d mpt' \<and> mpt_map mpt' = mpt_map mpt"
proof -
  obtain root where r: "mpt = \<lparr>mpt_backend = Some \<lparr>mem_root = root\<rparr>\<rparr>" "root_ok keccak d root"
    "mpt_map mpt = root_map root \<circ> nibbles_of" using mpt_ok_backend [OF assms(2)] by blast
  note n = nibble_entries_eq [OF r(2) assms(5) [unfolded r(3)] assms(4)]
  show ?thesis
  proof (cases root)
    case None
    then have "es = []" using assms(5) r(3) by (simp add: comp_def)
    then show ?thesis
      using None assms(2) by (simp add: r(1) mpt_root_hash_def memory_get_root_def trie_root_def nibble_entries_def)
  next
    case (Some m)
    have wf: "mpt_wf keccak d m" using r(2) Some by (simp add: root_ok_def)
    have "\<not> mpt_node_is_empty m" using wf_small [OF wf assms(3)] by (auto simp: mpt_node_is_empty_def split: mpt_body.splits)
    moreover obtain m' where m': "mpt_node_hash alloc keccak m = Some (keccak (body_rlp (node_body m)), m')"
        "mpt_wf keccak d m'" "entries m' = entries m"
      using mpt_node_hash_good [OF assms(1) wf assms(3)] by blast
    moreover have "root_ok keccak d (Some m')" using m' r(2) Some by (simp add: root_ok_def)
    moreover have "nibble_entries es \<noteq> []" using fun_cong [OF n(1)] wf_entries_nonempty [OF wf] Some by auto
    moreover have "composition keccak (nibble_entries es) = body_rlp (node_body m)"
      using composition_eq [OF wf n(2)] n(1) Some by simp
    ultimately show ?thesis using Some r(3)
      by (simp add: r(1) mpt_root_hash_def memory_get_root_def trie_root_def mpt_ok_root mpt_map_root)
  qed
qed


section \<open>Histories\<close>

text \<open>Operations on a map, and what they do to it.\<close>

datatype ('k, 'v) map_op = Put 'k 'v | Remove 'k

fun map_apply :: "('k, 'v) map_op \<Rightarrow> ('k \<rightharpoonup> 'v) \<Rightarrow> 'k \<rightharpoonup> 'v" where
  "map_apply (Put k v) m = m(k \<mapsto> v)"
| "map_apply (Remove k) m = m(k := None)"

text \<open>
  A map with a digest: what the users of a Merkle trie rely on.  The digest is a function of the
  map, within the same environment.
\<close>

locale merkle_map =
  fixes valid :: "'t \<Rightarrow> bool" and env :: "'t \<Rightarrow> 'e" and fits :: "'e \<Rightarrow> 'k \<Rightarrow> 'v \<Rightarrow> bool"
    and lookup :: "'t \<Rightarrow> 'k \<rightharpoonup> 'v" and put :: "'k \<Rightarrow> 'v \<Rightarrow> 't \<Rightarrow> 't option" and remove :: "'k \<Rightarrow> 't \<Rightarrow> 't option"
    and digest :: "'t \<Rightarrow> 'h option"
  assumes put_law: "valid t \<Longrightarrow> fits (env t) k v \<Longrightarrow>
      \<exists>t'. put k v t = Some t' \<and> valid t' \<and> env t' = env t \<and> lookup t' = (lookup t)(k \<mapsto> v)"
    and remove_law: "valid t \<Longrightarrow>
      \<exists>t'. remove k t = Some t' \<and> valid t' \<and> env t' = env t \<and> lookup t' = (lookup t)(k := None)"
    and digest_law: "valid s \<Longrightarrow> valid t \<Longrightarrow> env s = env t \<Longrightarrow> lookup s = lookup t \<Longrightarrow>
      digest s = digest t \<and> digest s \<noteq> None"
begin

fun step :: "('k, 'v) map_op \<Rightarrow> 't \<Rightarrow> 't option" where
  "step (Put k v) t = put k v t"
| "step (Remove k) t = remove k t"

fun run :: "('k, 'v) map_op list \<Rightarrow> 't \<Rightarrow> 't option" where
  "run [] t = Some t"
| "run (op # ops) t = step op t \<bind> run ops"

definition ops_fit :: "'e \<Rightarrow> ('k, 'v) map_op list \<Rightarrow> bool" where
  "ops_fit e ops \<longleftrightarrow> (\<forall>k v. Put k v \<in> set ops \<longrightarrow> fits e k v)"

lemma run_refines:
  "valid t \<Longrightarrow> ops_fit (env t) ops \<Longrightarrow>
    \<exists>t'. run ops t = Some t' \<and> valid t' \<and> env t' = env t \<and> lookup t' = fold map_apply ops (lookup t)"
proof (induction ops arbitrary: t)
  case (Cons op ops)
  obtain t1 where t1: "step op t = Some t1" "valid t1" "env t1 = env t" "lookup t1 = map_apply op (lookup t)"
    using put_law [OF Cons.prems(1)] remove_law [OF Cons.prems(1)] Cons.prems(2)
    by (cases op) (auto simp: ops_fit_def, metis, metis)
  have "ops_fit (env t1) ops" using Cons.prems(2) t1(3) by (simp add: ops_fit_def)
  from Cons.IH [OF t1(2) this] show ?case using t1 by auto
qed simp

lemma history_independent:
  assumes "valid t" "ops_fit (env t) ops" "ops_fit (env t) ops'"
    "fold map_apply ops (lookup t) = fold map_apply ops' (lookup t)"
  shows "\<exists>t1 t2 h. run ops t = Some t1 \<and> run ops' t = Some t2 \<and> digest t1 = Some h \<and> digest t2 = Some h"
proof -
  obtain t1 where t1: "run ops t = Some t1" "valid t1" "env t1 = env t" "lookup t1 = fold map_apply ops (lookup t)"
    using run_refines [OF assms(1,2)] by blast
  obtain t2 where t2: "run ops' t = Some t2" "valid t2" "env t2 = env t" "lookup t2 = fold map_apply ops' (lookup t)"
    using run_refines [OF assms(1,3)] by blast
  have "digest t1 = digest t2 \<and> digest t1 \<noteq> None" using t1 t2 assms(4) by (intro digest_law) simp_all
  then show ?thesis using t1(1) t2(1) by (metis not_None_eq)
qed

end

text \<open>
  The trie is such a map; its environment is the allocator, the hash function and the bound on the
  length of keys.  Node allocation succeeds here.
\<close>

type_synonym mpt_env = "allocator \<times> hash_fun \<times> nat"

definition trie_valid :: "mpt_env \<times> mpt_t \<Rightarrow> bool" where
  "trie_valid = (\<lambda>((alloc, keccak, d), mpt). alloc_total alloc \<and> d < 2 ^ 62 \<and> mpt_ok keccak d mpt)"

definition trie_fits :: "mpt_env \<Rightarrow> u8 list \<Rightarrow> u8 list \<Rightarrow> bool" where
  "trie_fits = (\<lambda>(alloc, keccak, d) key value. 2 * length key \<le> d \<and> length value < 2 ^ 62)"

definition trie_put :: "u8 list \<Rightarrow> u8 list \<Rightarrow> mpt_env \<times> mpt_t \<Rightarrow> (mpt_env \<times> mpt_t) option" where
  "trie_put key value = (\<lambda>((alloc, keccak, d), mpt).
     map_option (\<lambda>(_, mpt, _). ((alloc, keccak, d), mpt)) (mpt_insert alloc keccak mpt key value []))"

definition trie_remove :: "u8 list \<Rightarrow> mpt_env \<times> mpt_t \<Rightarrow> (mpt_env \<times> mpt_t) option" where
  "trie_remove key = (\<lambda>((alloc, keccak, d), mpt).
     map_option (\<lambda>(_, mpt, _). ((alloc, keccak, d), mpt)) (mpt_delete alloc keccak mpt key []))"

definition trie_digest :: "mpt_env \<times> mpt_t \<Rightarrow> hash_t option" where
  "trie_digest = (\<lambda>((alloc, keccak, d), mpt). map_option fst (mpt_root_hash alloc keccak mpt))"

lemma wf_entries_finite: "mpt_wf keccak d n \<Longrightarrow> finite (dom (entries n))"
proof (induction rule: mpt_wf.induct)
  case (wf_leaf p d v h b)
  show ?case by (rule finite_subset [of _ "{p}"]) (auto split: if_splits)
next
  case (wf_extension p d m r h b)
  have "dom (prefix_map p (entries m)) \<subseteq> (@) p ` dom (entries m)"
  proof
    fix k assume "k \<in> dom (prefix_map p (entries m))"
    then have "take (length p) k = p" "drop (length p) k \<in> dom (entries m)" by (auto simp: prefix_map_def split: if_splits)
    then show "k \<in> (@) p ` dom (entries m)" using append_take_drop_id [of "length p" k] by (metis imageI)
  qed
  then have "finite (dom (prefix_map p (entries m)))" using wf_extension.IH by (meson finite_imageI finite_subset)
  then show ?case using wf_extension.hyps(4) by simp
next
  case (wf_branch rs d v s t h b)
  have "finite (dom (ref_map r))" if "r \<in> set rs" for r using wf_branch.IH(1) that by fastforce
  then have "finite (insert [] (\<Union>x. \<Union>r\<in>set rs. (#) (x :: u8) ` dom (ref_map r)))" by simp
  moreover have "dom (branch_map (map ref_map rs) (stored v)) \<subseteq> insert [] (\<Union>x. \<Union>r\<in>set rs. (#) x ` dom (ref_map r))"
    by (fastforce simp: branch_map_def split: list.splits if_splits)
  ultimately have "finite (dom (branch_map (map ref_map rs) (stored v)))" by (meson finite_subset)
  then show ?case by simp
qed

lemma mpt_map_finite:
  assumes "mpt_ok keccak d mpt" shows "\<exists>es. distinct (map fst es) \<and> map_of es = mpt_map mpt"
proof -
  obtain root where r: "root_ok keccak d root" "mpt_map mpt = root_map root \<circ> nibbles_of" using mpt_ok_backend [OF assms] by metis
  have "finite (dom (root_map root))" using r(1) wf_entries_finite by (cases root) (auto simp: root_ok_def)
  moreover have "inj nibbles_of" by (rule injI) (simp add: nibbles_of_inj)
  ultimately have "finite (nibbles_of -` dom (root_map root))" by (simp add: finite_vimageI)
  moreover have "nibbles_of -` dom (root_map root) = dom (mpt_map mpt)" using r(2) by auto
  ultimately obtain ks where ks: "set ks = dom (mpt_map mpt)" "distinct ks" using finite_distinct_list by metis
  then show ?thesis
    by (intro exI [of _ "map (\<lambda>k. (k, the (mpt_map mpt k))) ks"]) (simp add: map_of_map_keys comp_def)
qed

interpretation trie: merkle_map trie_valid fst trie_fits "mpt_map \<circ> snd" trie_put trie_remove trie_digest
proof
  fix t :: "mpt_env \<times> mpt_t" and key "value"
  assume v: "trie_valid t"
  obtain alloc keccak d mpt where t: "t = ((alloc, keccak, d), mpt)" by (cases t) auto
  have ok: "alloc_total alloc" "d < 2 ^ 62" "mpt_ok keccak d mpt" using v by (auto simp: t trie_valid_def)
  show "\<exists>t'. trie_remove key t = Some t' \<and> trie_valid t' \<and> fst t' = fst t \<and> (mpt_map \<circ> snd) t' = ((mpt_map \<circ> snd) t)(key := None)"
    using mpt_delete_good [OF ok(1,3,2), of "[]" key] ok by (auto simp: t trie_remove_def trie_valid_def no_failure_def)
  assume "trie_fits (fst t) key value"
  then show "\<exists>t'. trie_put key value t = Some t' \<and> trie_valid t' \<and> fst t' = fst t \<and> (mpt_map \<circ> snd) t' = ((mpt_map \<circ> snd) t)(key \<mapsto> value)"
    using mpt_insert_good [OF ok(1,3) _ ok(2), of key "value" "[]"] ok
    by (auto simp: t trie_put_def trie_valid_def trie_fits_def split: if_splits)
next
  fix s t :: "mpt_env \<times> mpt_t"
  assume v: "trie_valid s" "trie_valid t" "fst s = fst t" "(mpt_map \<circ> snd) s = (mpt_map \<circ> snd) t"
  obtain alloc keccak d mpt mpt' where t: "s = ((alloc, keccak, d), mpt)" "t = ((alloc, keccak, d), mpt')"
    using v(3) by (cases s; cases t) auto
  have ok: "alloc_total alloc" "d < 2 ^ 62" "mpt_ok keccak d mpt" "mpt_ok keccak d mpt'" "mpt_map mpt = mpt_map mpt'"
    using v by (auto simp: t trie_valid_def)
  obtain es where es: "distinct (map fst es)" "map_of es = mpt_map mpt" using mpt_map_finite [OF ok(3)] by blast
  show "trie_digest s = trie_digest t \<and> trie_digest s \<noteq> None"
    using mpt_root_hash_good [OF ok(1,3,2) es] mpt_root_hash_good [OF ok(1,4,2) es(1)] es(2) ok(5)
    by (auto simp: t trie_digest_def)
qed


fun mpt_run :: "allocator \<Rightarrow> hash_fun \<Rightarrow> (u8 list, u8 list) map_op list \<Rightarrow> mpt_t \<Rightarrow> mpt_t option" where
  "mpt_run alloc keccak [] mpt = Some mpt"
| "mpt_run alloc keccak (Put key value # ops) mpt =
     do { (_, mpt, _) \<leftarrow> mpt_insert alloc keccak mpt key value []; mpt_run alloc keccak ops mpt }"
| "mpt_run alloc keccak (Remove key # ops) mpt =
     do { (_, mpt, _) \<leftarrow> mpt_delete alloc keccak mpt key []; mpt_run alloc keccak ops mpt }"

lemma trie_ops:
  "trie_put key value ((alloc, keccak, d), mpt) =
     map_option (\<lambda>(_, mpt, _). ((alloc, keccak, d), mpt)) (mpt_insert alloc keccak mpt key value [])"
  "trie_remove key ((alloc, keccak, d), mpt) =
     map_option (\<lambda>(_, mpt, _). ((alloc, keccak, d), mpt)) (mpt_delete alloc keccak mpt key [])"
  by (simp_all add: trie_put_def trie_remove_def)

lemma trie_run: "trie.run ops ((alloc, keccak, d), mpt) = map_option (Pair (alloc, keccak, d)) (mpt_run alloc keccak ops mpt)"
  by (induction alloc keccak ops mpt rule: mpt_run.induct)
    (auto simp: trie_ops split: option.splits Option.bind_splits)

definition new_trie :: mpt_t where
  "new_trie = mpt_init (Some \<lparr>mem_root = None\<rparr>)"

lemma new_trie_ok: "mpt_ok keccak d new_trie" "mpt_map new_trie = Map.empty"
  by (simp_all add: new_trie_def mpt_init_def mpt_ok_root mpt_map_root root_ok_def comp_def)


section \<open>Properties\<close>







text \<open>
  C35: a deletion that runs out of memory after it has changed the trie reports "not found": here
  the extension above a branch with two leaves cannot be merged with the leaf that is left, and
  the key is gone although the call returns false.
\<close>

theorem mpt_delete_out_of_memory:
  fixes u1 u2 u3 :: ref_union and alloc :: allocator
  assumes "alloc_total alloc" "bytes_data v1 \<noteq> None" "bytes_data v2 \<noteq> None"
  defines "leaf1 \<equiv> mpt_node_leaf [] v1" and "leaf2 \<equiv> mpt_node_leaf [] v2"
  defines "branch \<equiv> branch_node ((replicate 16 node_ref_null)[1 := Node_ref u1 (Some leaf1), 2 := Node_ref u2 (Some leaf2)], no_value)"
  defines "mpt \<equiv> \<lparr>mpt_backend = Some \<lparr>mem_root = Some (mpt_node_extension [1] (Node_ref u3 (Some branch)))\<rparr>\<rparr>"
  shows "mpt_map mpt [0x12] = Some (bytes_contents v2) \<and>
    (\<exists>mpt'. mpt_delete alloc keccak mpt [0x12] [True, False] = Some (False, mpt', []) \<and>
      mpt_map mpt' [0x12] = None \<and> mpt_map mpt' [0x11] = mpt_map mpt [0x11])"
proof -
  have n: "nibbles_from_bytes alloc [0x12] = [1, 2]" using from_bytes_eq [OF assms(1)] by (simp add: nibbles_of_def)
  have m: "mpt_map mpt [0x12] = stored v2" "mpt_map mpt [0x11] = stored v1"
    by (simp_all add: mpt_def mpt_map_root nibbles_of_def prefix_map_def ref_map_def branch_def branch_map_def leaf1_def leaf2_def)
  define left where "left = Mpt_node hash_zero False (MPT_NODE_BRANCH
    ((replicate 16 node_ref_null)[1 := Node_ref u1 (Some leaf1), 2 := node_ref_null]) no_value)"
  define mpt' where "mpt' = \<lparr>mpt_backend = Some \<lparr>mem_root = Some (mpt_node_extension [1] (Node_ref u3 (Some left)))\<rparr>\<rparr>"
  define rs where "rs = (replicate 16 node_ref_null)[1 := Node_ref u1 (Some leaf1), 2 := node_ref_null]"
  have l: "length rs = 16" by (simp add: rs_def)
  have r: "rs ! k = (if k = 1 then Node_ref u1 (Some leaf1) else node_ref_null)" if "k < 16" for k
    using that by (simp add: rs_def nth_list_update)
  have "node_ref_is_null (node_ref_null :: mpt_node_t node_ref_t)"
    by (simp add: node_ref_is_null_def node_ref_null_def bytes_is_empty_def no_value_def)
  then have "find_single_child rs = Some 1" unfolding find_single_child_Some using r l by (auto simp: node_ref_is_null_def)
  moreover have "ref_node (rs ! 1) = Some leaf1" using r by simp
  ultimately have c: "collapse_branch alloc keccak left [True, False] = Some (left, mpt_node_leaf [1] v1, [False])"
    unfolding left_def rs_def [symmetric]
    using collapse_eq [of rs 1 no_value leaf1 "[True, False]" mpt_node_empty "[False]" alloc keccak hash_zero False]
    by (simp add: no_value_def memory_alloc_node_def leaf1_def mpt_node_leaf_def concat_eq(2) [OF assms(1)])
  have d2: "delete_recursive alloc keccak (Some leaf2) [1, 2] (Suc (Suc 0)) [True, False] =
      Some (DELETE_REMOVED, Some leaf2, None, [True, False])"
    by (simp add: leaf2_def mpt_node_leaf_def delete_recursive_node leaf_matches_def)
  have d1: "delete_recursive alloc keccak (Some branch) [1, 2] 1 [True, False] =
      Some (DELETE_UPDATED, Some left, Some (mpt_node_leaf [1] v1), [False])"
  proof -
    define rs2 where "rs2 = (replicate 16 node_ref_null)[1 := Node_ref u1 (Some leaf1), 2 := Node_ref u2 (Some leaf2)]"
    have "rs2 ! 2 = Node_ref u2 (Some leaf2)" "length rs2 = 16" "rs2[2 := node_ref_null] = rs" by (simp_all add: rs2_def rs_def)
    then show ?thesis
      using c d2 unfolding branch_def branch_node_def left_def rs2_def [symmetric] rs_def [symmetric]
      by (simp add: delete_recursive_node Let_def not_null_ref)
  qed
  have "mpt_delete alloc keccak mpt [0x12] [True, False] = Some (False, mpt', [])"
    using d1 by (simp add: mpt_def mpt'_def mpt_delete_def memory_get_root_def n mpt_node_extension_def mpt_node_is_empty_def
      delete_recursive_node Let_def merge_extension_def mpt_node_leaf_def memory_alloc_node_def)
  moreover have "mpt_map mpt' [0x12] = None" "mpt_map mpt' [0x11] = stored v1"
    by (simp_all add: mpt'_def mpt_map_root nibbles_of_def prefix_map_def ref_map_def left_def branch_map_def leaf1_def node_ref_null_def)
  ultimately show ?thesis using m assms(2,3) by (auto simp: stored_def)
qed

theorem mpt_delete_out_of_memory_witness:
  "\<exists>mpt mpt'. mpt_map mpt [0x12] = Some [5] \<and>
     mpt_delete (\<lambda>n. Some (replicate n 0)) (\<lambda>_. replicate 32 0) mpt [0x12] [True, False] = Some (False, mpt', []) \<and>
     mpt_map mpt' [0x12] = None"
proof -
  let ?v = "\<lambda>b. \<lparr>bytes_data = Some [b], bytes_size = 1, bytes_capacity = 1, bytes_arena = True\<rparr> :: bytes_t"
  have a: "alloc_total (\<lambda>n. Some (replicate n (0 :: u8)))" by (simp add: alloc_total_def alloc_sound_def)
  have "bytes_contents (?v 5) = [5]" by (simp add: bytes_contents_def)
  then show ?thesis
    using mpt_delete_out_of_memory [OF a, of "?v 4" "?v 5" "Hash []" "Hash []" "Hash []" "\<lambda>_. replicate 32 0"] by auto
qed

end
