(* ===== verification/Arena.thy ===== *)
theory Arena
  imports Div0_Prelude
begin

text \<open>
  The arena allocator of \<open>include/div0/mem/arena.h\<close>: a chain of blocks of 64 KiB from which memory is
  taken by moving an offset, and a separate chain of large blocks.  A pointer is an address.  The
  allocator of the C library is represented by its answers: \<open>arena_heap\<close> is the list of the
  addresses (or failures) the calls of \<open>malloc\<close> to come will return; when it is used up, \<open>malloc\<close>
  fails.
\<close>

unbundle bit_operations_syntax

section \<open>The allocator\<close>

definition DIV0_ARENA_ALIGNMENT :: u64 where "DIV0_ARENA_ALIGNMENT = 8"

definition DIV0_ARENA_BLOCK_SIZE :: u64 where "DIV0_ARENA_BLOCK_SIZE = 64 * 1024"

text \<open>A block: the address \<open>malloc\<close> returned and the field \<open>offset\<close>; \<open>data\<close> follows a header of 16 bytes.\<close>

record arena_block_t =
  block_addr :: u64
  block_offset :: u64

definition BLOCK_HEADER_SIZE :: u64 where "BLOCK_HEADER_SIZE = 16"

definition block_data :: "arena_block_t \<Rightarrow> u64" where
  "block_data b = block_addr b + BLOCK_HEADER_SIZE"

record arena_t =
  arena_blocks :: "arena_block_t list"
  arena_current :: nat
  arena_large :: "arena_block_t list"
  arena_heap :: "u64 option list"

definition malloc :: "u64 option list \<Rightarrow> u64 option \<times> u64 option list" where
  "malloc heap = (case heap of [] \<Rightarrow> (None, []) | answer # rest \<Rightarrow> (answer, rest))"

definition div0_arena_init :: "u64 option list \<Rightarrow> arena_t option" where
  "div0_arena_init heap =
     (case malloc heap of
        (None, _) \<Rightarrow> None
      | (Some p, heap) \<Rightarrow>
          Some \<lparr>arena_blocks = [\<lparr>block_addr = p, block_offset = 0\<rparr>], arena_current = 0,
                arena_large = [], arena_heap = heap\<rparr>)"

definition div0_arena_alloc_aligned :: "arena_t \<Rightarrow> u64 \<Rightarrow> u64 \<Rightarrow> u64 option \<times> arena_t" where
  "div0_arena_alloc_aligned arena sz alignment =
     (if sz = 0 \<or> alignment = 0 \<or> alignment AND (alignment - 1) \<noteq> 0 then (None, arena)
      else let align_mask = alignment - 1
      in if sz > NOT 0 - align_mask then (None, arena)
      else let aligned_size = (sz + align_mask) AND NOT align_mask
      in if aligned_size > DIV0_ARENA_BLOCK_SIZE then (None, arena)
      else let
          blocks = arena_blocks arena;
          block = blocks ! arena_current arena;
          current_addr = block_data block + block_offset block;
          aligned_addr = (current_addr + align_mask) AND NOT align_mask;
          aligned_offset = aligned_addr - block_data block
      in if aligned_offset + aligned_size \<le> DIV0_ARENA_BLOCK_SIZE
      then (Some (block_data block + aligned_offset),
            arena\<lparr>arena_blocks := blocks[arena_current arena :=
                    block\<lparr>block_offset := aligned_offset + aligned_size\<rparr>]\<rparr>)
      else if arena_current arena + 1 < length blocks
      then let
          next = blocks ! (arena_current arena + 1);
          data_start = block_data next;
          new_aligned_addr = (data_start + align_mask) AND NOT align_mask;
          new_aligned_offset = new_aligned_addr - data_start
        in (Some (data_start + new_aligned_offset),
            arena\<lparr>arena_current := arena_current arena + 1,
                  arena_blocks := blocks[arena_current arena + 1 :=
                    next\<lparr>block_offset := new_aligned_offset + aligned_size\<rparr>]\<rparr>)
      else (case malloc (arena_heap arena) of
          (None, heap) \<Rightarrow> (None, arena\<lparr>arena_heap := heap\<rparr>)
        | (Some p, heap) \<Rightarrow>
            let
              data_start = p + BLOCK_HEADER_SIZE;
              new_aligned_addr = (data_start + align_mask) AND NOT align_mask;
              new_aligned_offset = new_aligned_addr - data_start
            in (Some (data_start + new_aligned_offset),
                arena\<lparr>arena_heap := heap,
                      arena_blocks := blocks @
                        [\<lparr>block_addr = p, block_offset = new_aligned_offset + aligned_size\<rparr>],
                      arena_current := arena_current arena + 1\<rparr>)))"

definition div0_arena_alloc_large :: "arena_t \<Rightarrow> u64 \<Rightarrow> u64 \<Rightarrow> u64 option \<times> arena_t" where
  "div0_arena_alloc_large arena sz alignment =
     (if sz = 0 \<or> alignment = 0 \<or> alignment AND (alignment - 1) \<noteq> 0 then (None, arena)
      else let align_mask = alignment - 1
      in if sz > NOT 0 - align_mask then (None, arena)
      else let aligned_size = (sz + align_mask) AND NOT align_mask
      in if aligned_size > NOT 0 - alignment then (None, arena)
      else let block_data_size = aligned_size + alignment
      in if block_data_size > NOT 0 - BLOCK_HEADER_SIZE then (None, arena)
      else (case malloc (arena_heap arena) of
          (None, heap) \<Rightarrow> (None, arena\<lparr>arena_heap := heap\<rparr>)
        | (Some p, heap) \<Rightarrow>
            let
              data_start = p + BLOCK_HEADER_SIZE;
              aligned_addr = (data_start + align_mask) AND NOT align_mask;
              aligned_offset = aligned_addr - data_start
            in (Some (data_start + aligned_offset),
                arena\<lparr>arena_heap := heap,
                      arena_large := \<lparr>block_addr = p, block_offset = block_data_size\<rparr> # arena_large arena\<rparr>)))"

definition div0_arena_alloc :: "arena_t \<Rightarrow> u64 \<Rightarrow> u64 option \<times> arena_t" where
  "div0_arena_alloc arena sz = div0_arena_alloc_aligned arena sz DIV0_ARENA_ALIGNMENT"

text \<open>
  \<open>div0_arena_realloc\<close> and \<open>div0_arena_calloc\<close> return fresh memory; the bytes they copy or clear are
  those of the objects that live there.
\<close>

definition div0_arena_realloc :: "arena_t \<Rightarrow> u64 \<Rightarrow> u64 option \<times> arena_t" where
  "div0_arena_realloc arena new_size = div0_arena_alloc arena new_size"

definition div0_arena_calloc :: "arena_t \<Rightarrow> u64 \<Rightarrow> u64 \<Rightarrow> u64 option \<times> arena_t" where
  "div0_arena_calloc arena n sz =
     (if unat n * unat sz \<ge> 2 ^ 64 then (None, arena) else div0_arena_alloc arena (n * sz))"

definition div0_arena_free :: "arena_t \<Rightarrow> arena_t" where
  "div0_arena_free arena = arena"

text \<open>Freed blocks leave the arena.\<close>

definition div0_arena_reset :: "arena_t \<Rightarrow> arena_t" where
  "div0_arena_reset arena =
     arena\<lparr>arena_blocks := map (\<lambda>b. b\<lparr>block_offset := 0\<rparr>) (arena_blocks arena),
           arena_current := 0,
           arena_large := []\<rparr>"

definition div0_arena_destroy :: "arena_t \<Rightarrow> arena_t" where
  "div0_arena_destroy arena = arena\<lparr>arena_blocks := [], arena_current := 0, arena_large := []\<rparr>"



section \<open>Alignment\<close>

lemma unat_and_not_mask: "unat (x AND NOT (mask k)) = unat x div 2 ^ k * 2 ^ k" for x :: "'a::len word"
proof -
  have "x AND NOT (mask k) = push_bit k (drop_bit k x)"
    by (rule bit_word_eqI) (auto simp: bit_simps)
  then have "unat (x AND NOT (mask k)) = push_bit k (drop_bit k (unat x)) mod 2 ^ LENGTH('a)"
    by (simp add: unsigned_push_bit_eq unsigned_drop_bit_eq take_bit_eq_mod)
  also have "push_bit k (drop_bit k (unat x)) = unat x div 2 ^ k * 2 ^ k"
    by (simp add: push_bit_eq_mult drop_bit_eq_div)
  also have "\<dots> mod 2 ^ LENGTH('a) = unat x div 2 ^ k * 2 ^ k"
    by (rule mod_less, rule le_less_trans [OF _ unsigned_less]) (rule div_times_less_eq_dividend)
  finally show ?thesis .
qed

text \<open>The least multiple of \<open>2 ^ k\<close> that is at least \<open>n\<close>.\<close>

definition round_up :: "nat \<Rightarrow> nat \<Rightarrow> nat" where
  "round_up k n = (n + (2 ^ k - 1)) div 2 ^ k * 2 ^ k"

lemma round_up_bounds: "n \<le> round_up k n" "round_up k n < n + 2 ^ k" "2 ^ k dvd round_up k n"
proof -
  have "n + (2 ^ k - 1) = round_up k n + (n + (2 ^ k - 1)) mod 2 ^ k"
    unfolding round_up_def by (simp only: div_mult_mod_eq)
  moreover have "(n + (2 ^ k - 1)) mod 2 ^ k < 2 ^ k" by simp
  ultimately show "n \<le> round_up k n" "round_up k n < n + 2 ^ k" by linarith+
qed (simp add: round_up_def)

lemma round_up_add: "2 ^ k dvd d \<Longrightarrow> round_up k (d + n) = d + round_up k n"
  by (auto simp: round_up_def dvd_def add.assoc distrib_right)

lemma round_up_le: "2 ^ k dvd m \<Longrightarrow> n \<le> m \<Longrightarrow> round_up k n \<le> m"
proof -
  assume "2 ^ k dvd m" "n \<le> m"
  then obtain q where m: "m = q * 2 ^ k" by (auto simp: dvd_def mult.commute)
  have "(n + (2 ^ k - 1)) div 2 ^ k \<le> q"
  proof -
    have "n + (2 ^ k - 1) < (q + 1) * 2 ^ k" 
    proof -
      have "0 < (2::nat) ^ k" by simp
      then show ?thesis using \<open>n \<le> m\<close> unfolding m add_mult_distrib mult_1 by linarith
    qed
    then show ?thesis by (simp add: div_less_iff_less_mult less_Suc_eq_le [symmetric])
  qed
  then show ?thesis unfolding round_up_def m by simp
qed

lemma of_nat_unatI: "unat x = n \<Longrightarrow> x = of_nat n" for x :: "'a::len word"
  by auto

lemma unat_align_up:
  fixes x :: "'a::len word"
  assumes "unat x + (2 ^ k - 1) < 2 ^ LENGTH('a)"
  shows "unat ((x + mask k) AND NOT (mask k)) = round_up k (unat x)"
proof (cases "k \<le> LENGTH('a)")
  case True
  have m: "unat (mask k :: 'a word) = 2 ^ k - 1"
  proof -
    have "unat (of_nat (mask k) :: 'a word) = mask k mod 2 ^ LENGTH('a)" by (simp add: unat_of_nat)
    also have "\<dots> = mask k"
    proof (rule mod_less)
      have "(2::nat) ^ k \<le> 2 ^ LENGTH('a)" "0 < (2::nat) ^ k" using True by (auto intro: power_increasing)
      then show "mask k < (2::nat) ^ LENGTH('a)" unfolding mask_eq_exp_minus_1 by linarith
    qed
    finally show ?thesis by (simp add: of_nat_mask_eq mask_eq_exp_minus_1)
  qed
  have "unat (x + mask k) = unat x + (2 ^ k - 1)"
    using unat_add_lem [THEN iffD1, of x "mask k"] assms unfolding m by blast
  then show ?thesis by (simp add: unat_and_not_mask round_up_def)
next
  case False
  then have "(2::nat) ^ LENGTH('a) < 2 ^ k" by simp
  with assms have False by linarith
  then show ?thesis ..
qed


section \<open>Regions\<close>

text \<open>
  The addresses a block occupies, with its header.  \<open>malloc\<close> returns addresses that are multiples of
  16, of objects that lie apart and do not reach the end of the address space.
\<close>

definition block_extent :: "u64 \<Rightarrow> nat set" where
  "block_extent p = {unat p ..< unat p + 65552}"

definition block_fits :: "u64 \<Rightarrow> bool" where
  "block_fits p \<longleftrightarrow> 16 dvd unat p \<and> unat p + 65552 < 2 ^ 64"

fun apart :: "u64 list \<Rightarrow> bool" where
  "apart [] = True"
| "apart (p # ps) = (block_fits p \<and> (\<forall>q\<in>set ps. unat p + 65552 \<le> unat q \<or> unat q + 65552 \<le> unat p) \<and> apart ps)"

text \<open>The addresses of the blocks of the chain and of those \<open>malloc\<close> will return.\<close>

definition block_addrs :: "arena_t \<Rightarrow> u64 list" where
  "block_addrs arena = map block_addr (arena_blocks arena) @ [p. Some p \<leftarrow> arena_heap arena]"

definition arena_wf :: "arena_t \<Rightarrow> bool" where
  "arena_wf arena \<longleftrightarrow> arena_current arena < length (arena_blocks arena) \<and>
     (\<forall>b\<in>set (arena_blocks arena). unat (block_offset b) \<le> 65536) \<and> apart (block_addrs arena)"

text \<open>The addresses handed out: in the blocks up to the current one, those below the offset.\<close>

definition block_used :: "arena_block_t \<Rightarrow> nat set" where
  "block_used b = {unat (block_addr b) + 16 ..< unat (block_addr b) + 16 + unat (block_offset b)}"

definition arena_used :: "arena_t \<Rightarrow> nat set" where
  "arena_used arena = (\<Union>i\<in>{0..arena_current arena}. block_used (arena_blocks arena ! i))"

definition region :: "u64 \<Rightarrow> u64 \<Rightarrow> nat set" where
  "region p sz = {unat p ..< unat p + unat sz}"

lemma apart_append:
  "apart (ps @ qs) \<longleftrightarrow> apart ps \<and> apart qs \<and>
    (\<forall>p\<in>set ps. \<forall>q\<in>set qs. unat p + 65552 \<le> unat q \<or> unat q + 65552 \<le> unat p)"
  by (induction ps) auto

lemma apart_fits: "apart ps \<Longrightarrow> p \<in> set ps \<Longrightarrow> block_fits p"
  by (induction ps) auto

lemma apart_nth:
  "apart ps \<Longrightarrow> i < length ps \<Longrightarrow> j < length ps \<Longrightarrow> i \<noteq> j \<Longrightarrow>
    unat (ps ! i) + 65552 \<le> unat (ps ! j) \<or> unat (ps ! j) + 65552 \<le> unat (ps ! i)"
proof (induction ps arbitrary: i j)
  case (Cons p ps)
  then show ?case by (cases i; cases j) (auto simp: disj_commute)
qed simp

text \<open>The place of an allocation in a block: the aligned offset, relative to the data.\<close>

lemma aligned_offset:
  assumes "block_fits p" "unat off \<le> 65536" "k \<le> 4"
  shows "unat (((p + BLOCK_HEADER_SIZE + off + mask k) AND NOT (mask k)) - (p + BLOCK_HEADER_SIZE)) = round_up k (unat off)"
proof -
  have k: "(2::nat) ^ k \<le> 16" using power_increasing [of k 4 "2::nat"] assms(3) by simp
  have p: "16 dvd unat p" "unat p + 65552 \<le> 2 ^ 64 - 16"
  proof -
    show "16 dvd unat p" using assms(1) by (simp add: block_fits_def)
    then obtain q where "unat p = 16 * q" by (auto simp: dvd_def)
    then show "unat p + 65552 \<le> 2 ^ 64 - 16" using assms(1) by (simp add: block_fits_def)
  qed
  have d: "unat (p + BLOCK_HEADER_SIZE) = unat p + 16"
    using p(2) by (simp add: BLOCK_HEADER_SIZE_def unat_word_ariths)
  have o: "unat (p + BLOCK_HEADER_SIZE + off) = unat p + 16 + unat off"
    using p(2) assms(2) by (subst unat_word_ariths) (simp add: d)
  have a: "unat ((p + BLOCK_HEADER_SIZE + off + mask k) AND NOT (mask k)) = unat p + 16 + round_up k (unat off)"
  proof -
    have "2 ^ k dvd unat p + 16"
      using p(1) le_imp_power_dvd [OF assms(3), of "2::nat"] by (auto intro: dvd_trans [of _ 16])
    then have "round_up k (unat p + 16 + unat off) = unat p + 16 + round_up k (unat off)"
      by (rule round_up_add)
    moreover have "unat (p + BLOCK_HEADER_SIZE + off) + (2 ^ k - 1) < 2 ^ LENGTH(64)"
      using o p(2) assms(2) k by simp
    ultimately show ?thesis by (simp only: unat_align_up o)
  qed
  then show ?thesis by (simp add: unat_sub_if' d word_le_nat_alt)
qed


section \<open>What an allocation does\<close>

text \<open>
  The outcome of an allocation, over natural numbers: the size and the offset rounded up, in the
  current block, the next block or a new one.
\<close>

definition alloc_in :: "arena_t \<Rightarrow> nat \<Rightarrow> nat \<Rightarrow> nat \<Rightarrow> arena_t" where
  "alloc_in arena j at s =
     arena\<lparr>arena_current := j,
           arena_blocks := (arena_blocks arena)[j := (arena_blocks arena ! j)\<lparr>block_offset := of_nat (at + s)\<rparr>]\<rparr>"

definition add_block :: "arena_t \<Rightarrow> u64 \<Rightarrow> u64 option list \<Rightarrow> arena_t" where
  "add_block arena p heap =
     arena\<lparr>arena_heap := heap, arena_blocks := arena_blocks arena @ [\<lparr>block_addr = p, block_offset = 0\<rparr>]\<rparr>"

lemma power_2_word:
  assumes "k \<le> 4"
  shows "(2 ^ k :: u64) \<noteq> 0" "(2 ^ k :: u64) AND (2 ^ k - 1) = 0" "(2 ^ k - 1 :: u64) = mask k"
    "unat (NOT 0 - mask k :: u64) = 2 ^ 64 - 2 ^ k"
proof -
  have "k \<in> {0, 1, 2, 3, 4}" using assms by auto
  then show "(2 ^ k :: u64) \<noteq> 0" "(2 ^ k :: u64) AND (2 ^ k - 1) = 0" by auto
  show "(2 ^ k - 1 :: u64) = mask k" by (simp add: mask_eq_exp_minus_1)
  from \<open>k \<in> _\<close> show "unat (NOT 0 - mask k :: u64) = 2 ^ 64 - 2 ^ k" by (auto simp: mask_eq_exp_minus_1 unsigned_minus_1_eq_mask)
qed

lemma round_up_0 [simp]: "round_up k 0 = 0"
  by (simp add: round_up_def)

lemma wf_current:
  assumes "arena_wf arena"
  shows "block_fits (block_addr (arena_blocks arena ! arena_current arena))"
    "unat (block_offset (arena_blocks arena ! arena_current arena)) \<le> 65536"
  using assms apart_fits [of "block_addrs arena"] by (auto simp: arena_wf_def block_addrs_def)

lemma alloc_aligned_eq:
  assumes wf: "arena_wf arena" and k: "k \<le> 4"
  shows "div0_arena_alloc_aligned arena sz (2 ^ k) =
    (let s = round_up k (unat sz); i = arena_current arena; blocks = arena_blocks arena;
         at = round_up k (unat (block_offset (blocks ! i)))
     in if sz = 0 \<or> s > 65536 then (None, arena)
        else if at + s \<le> 65536 then (Some (block_data (blocks ! i) + of_nat at), alloc_in arena i at s)
        else if i + 1 < length blocks then (Some (block_data (blocks ! (i + 1))), alloc_in arena (i + 1) 0 s)
        else (case malloc (arena_heap arena) of
                (None, heap) \<Rightarrow> (None, arena\<lparr>arena_heap := heap\<rparr>)
              | (Some p, heap) \<Rightarrow> (Some (p + BLOCK_HEADER_SIZE), alloc_in (add_block arena p heap) (i + 1) 0 s)))"
proof -
  have k16: "(2::nat) ^ k \<le> 16" using power_increasing [of k 4 "2::nat"] k by simp
  have big: "sz > NOT 0 - mask k \<longleftrightarrow> unat sz + 2 ^ k > 2 ^ 64"
    unfolding word_less_nat_alt power_2_word(4) [OF k]
    by (rule less_diff_conv2) (use k16 in simp)
  show ?thesis
proof (cases "sz = 0 \<or> unat sz + 2 ^ k > 2 ^ 64")
  case True
  have "unat sz \<le> round_up k (unat sz)" by (rule round_up_bounds)
  then have "sz = 0 \<or> round_up k (unat sz) > 65536" using True k16 by auto
  moreover have "sz = 0 \<or> sz > NOT 0 - mask k" using True big by blast
  ultimately show ?thesis
    using power_2_word [OF k] by (auto simp: div0_arena_alloc_aligned_def Let_def)
next
  case False
  let ?b = "arena_blocks arena ! arena_current arena"
  let ?s = "round_up k (unat sz)" and ?at = "round_up k (unat (block_offset ?b))"
  have sz: "sz \<noteq> 0" "\<not> sz > NOT 0 - mask k" "(sz + mask k) AND NOT (mask k) = of_nat ?s"
    "unat ((sz + mask k) AND NOT (mask k)) = ?s"
  proof -
    show "sz \<noteq> 0" "\<not> sz > NOT 0 - mask k" using False big by blast+
    have "unat sz + (2 ^ k - 1) < 2 ^ LENGTH(64)" using False zero_less_power [of "2::nat" k] by simp linarith
    from unat_align_up [OF this] show "unat ((sz + mask k) AND NOT (mask k)) = ?s" .
    then show "(sz + mask k) AND NOT (mask k) = of_nat ?s" by (rule of_nat_unatI)
  qed
  have at: "((block_data ?b + block_offset ?b + mask k) AND NOT (mask k)) - block_data ?b = of_nat ?at"
    unfolding block_data_def by (intro of_nat_unatI aligned_offset wf_current wf k)
  have new: "((p + BLOCK_HEADER_SIZE + mask k) AND NOT (mask k)) - (p + BLOCK_HEADER_SIZE) = 0" if "block_fits p" for p
    using aligned_offset [OF that _ k, of 0] by (simp add: unat_eq_zero)
  have next_fits: "block_fits (block_addr (arena_blocks arena ! (arena_current arena + 1)))"
    if "arena_current arena + 1 < length (arena_blocks arena)"
    using that wf apart_fits [of "block_addrs arena"] by (auto simp: arena_wf_def block_addrs_def)
  have heap_fits: "block_fits p" if "malloc (arena_heap arena) = (Some p, heap)" for p heap
    using that wf apart_fits [of "block_addrs arena"]
    by (auto simp: arena_wf_def block_addrs_def malloc_def split: list.splits)
  have s: "of_nat ?s > DIV0_ARENA_BLOCK_SIZE \<longleftrightarrow> ?s > 65536"
    using sz(4) unfolding sz(3) word_less_nat_alt by (simp add: DIV0_ARENA_BLOCK_SIZE_def)
  have "?at \<le> 65536"
  proof (rule round_up_le)
    show "2 ^ k dvd (65536::nat)" using le_imp_power_dvd [of k 16 "2::nat"] k by simp
  qed (rule wf_current [OF wf])
  then have fit: "of_nat ?at + of_nat ?s \<le> DIV0_ARENA_BLOCK_SIZE \<longleftrightarrow> ?at + ?s \<le> 65536" if "?s \<le> 65536"
    using that unfolding of_nat_add [symmetric] word_le_nat_alt
    by (simp add: DIV0_ARENA_BLOCK_SIZE_def unat_of_nat del: of_nat_add)
  have last: "length (arena_blocks arena) = Suc (arena_current arena)"
    if "\<not> Suc (arena_current arena) < length (arena_blocks arena)"
    using that wf by (simp add: arena_wf_def)
  show ?thesis
    unfolding div0_arena_alloc_aligned_def Let_def power_2_word(3) [OF k] at sz(3) s
    using sz(1,2) power_2_word(1) [OF k] power_2_word(2) [OF k, unfolded power_2_word(3) [OF k]]
      fit next_fits new heap_fits last
    by (auto simp: alloc_in_def add_block_def block_data_def nth_append list_update_append
      split: prod.splits option.splits)
qed
qed


section \<open>Allocations lie apart\<close>

definition used_upto :: "arena_block_t list \<Rightarrow> nat \<Rightarrow> nat set" where
  "used_upto blocks n = (\<Union>i<n. block_used (blocks ! i))"

lemma arena_used_upto: "arena_used arena = used_upto (arena_blocks arena) (Suc (arena_current arena))"
  by (simp add: arena_used_def used_upto_def atLeast0AtMost lessThan_Suc_atMost)

lemma used_upto_Suc: "used_upto blocks (Suc n) = used_upto blocks n \<union> block_used (blocks ! n)"
  by (auto simp: used_upto_def less_Suc_eq)

lemma used_upto_cong: "(\<And>i. i < n \<Longrightarrow> blocks ! i = blocks' ! i) \<Longrightarrow> used_upto blocks n = used_upto blocks' n"
  by (simp add: used_upto_def)

text \<open>Blocks that lie apart: what the earlier ones use is not in block \<open>j\<close>.\<close>

lemma used_before:
  assumes "apart (map block_addr blocks)" "\<forall>b\<in>set blocks. unat (block_offset b) \<le> 65536" "j < length blocks"
  shows "used_upto blocks j \<inter> {unat (block_addr (blocks ! j)) + 16 ..< unat (block_addr (blocks ! j)) + 65552} = {}"
proof -
  have "block_used (blocks ! i) \<inter> {unat (block_addr (blocks ! j)) + 16 ..< unat (block_addr (blocks ! j)) + 65552} = {}"
    if "i < j" for i
  proof -
    have "unat (block_offset (blocks ! i)) \<le> 65536" using assms that by simp
    then show ?thesis
      using apart_nth [OF assms(1), of i j] that assms(3) by (auto simp: block_used_def)
  qed
  then show ?thesis by (auto simp: used_upto_def)
qed

lemma alloc_in_sound:
  assumes wf: "arena_current arena \<le> j" "j < length (arena_blocks arena)"
      "\<forall>b\<in>set (arena_blocks arena). unat (block_offset b) \<le> 65536" "apart (block_addrs arena)"
    and used: "used = used_upto (arena_blocks arena) j \<union>
      {unat (block_addr (arena_blocks arena ! j)) + 16 ..< unat (block_addr (arena_blocks arena ! j)) + 16 + base}"
    and fit: "base \<le> at" "at + s \<le> 65536" "unat sz \<le> s"
    and p: "unat p = unat (block_addr (arena_blocks arena ! j)) + 16 + at"
  shows "arena_wf (alloc_in arena j at s) \<and> used \<subseteq> arena_used (alloc_in arena j at s) \<and>
    region p sz \<subseteq> arena_used (alloc_in arena j at s) - used"
proof -
  let ?b = "arena_blocks arena ! j" and ?blocks = "arena_blocks (alloc_in arena j at s)"
  have o: "unat (of_nat (at + s) :: u64) = at + s" using fit by (simp add: unat_of_nat del: of_nat_add)
  have addrs: "map block_addr ?blocks = map block_addr (arena_blocks arena)"
    using wf(2) by (simp add: alloc_in_def map_update list_update_same_conv)
  have wf': "arena_wf (alloc_in arena j at s)"
    using wf fit(2) addrs o set_update_subset_insert [of "arena_blocks arena" j]
    by (fastforce simp: arena_wf_def alloc_in_def block_addrs_def simp del: of_nat_add)
  have used': "arena_used (alloc_in arena j at s) = used_upto (arena_blocks arena) j \<union>
    {unat (block_addr ?b) + 16 ..< unat (block_addr ?b) + 16 + (at + s)}"
  proof -
    have "used_upto ?blocks j = used_upto (arena_blocks arena) j" by (rule used_upto_cong) (simp add: alloc_in_def)
    then show ?thesis
      using wf(2) o by (simp add: arena_used_upto used_upto_Suc alloc_in_def block_used_def del: of_nat_add)
  qed
  have "used_upto (arena_blocks arena) j \<inter> {unat (block_addr ?b) + 16 ..< unat (block_addr ?b) + 65552} = {}"
    using wf by (intro used_before) (auto simp: block_addrs_def apart_append)
  then have "region p sz \<inter> used_upto (arena_blocks arena) j = {}"
    using p fit by (force simp: region_def)
  then show ?thesis using wf' fit p unfolding used used' by (force simp: region_def)
qed


text \<open>
  An allocation keeps the arena well-formed and hands out aligned addresses that were not in use.
\<close>

lemma unat_block_data: "block_fits p \<Longrightarrow> unat (p + BLOCK_HEADER_SIZE) = unat p + 16"
  by (simp add: block_fits_def BLOCK_HEADER_SIZE_def unat_word_ariths)

lemma unat_place: "block_fits p \<Longrightarrow> at \<le> 65536 \<Longrightarrow> unat (p + BLOCK_HEADER_SIZE + of_nat at) = unat p + 16 + at"
  using unat_block_data [of p] by (simp add: block_fits_def unat_word_ariths unat_of_nat)

lemma place_aligned: "block_fits p \<Longrightarrow> k \<le> 4 \<Longrightarrow> 2 ^ k dvd unat p + 16 + round_up k n"
proof -
  assume "block_fits p" "k \<le> 4"
  then have "2 ^ k dvd unat p" "2 ^ k dvd (16::nat)"
    using le_imp_power_dvd [of k 4 "2::nat"] by (auto simp: block_fits_def intro: dvd_trans [of _ 16])
  then show ?thesis using round_up_bounds(3) [of k n] by (simp add: dvd_add)
qed

lemma add_block_wf:
  assumes "arena_wf arena" "malloc (arena_heap arena) = (Some p, heap)"
  shows "\<forall>b\<in>set (arena_blocks (add_block arena p heap)). unat (block_offset b) \<le> 65536"
    "apart (block_addrs (add_block arena p heap))" "block_fits p"
proof -
  have "block_addrs (add_block arena p heap) = block_addrs arena"
    using assms(2) by (auto simp: block_addrs_def add_block_def malloc_def split: list.splits)
  then show "apart (block_addrs (add_block arena p heap))" using assms(1) by (simp add: arena_wf_def)
  then show "block_fits p" by (rule apart_fits) (simp add: block_addrs_def add_block_def)
qed (use assms in \<open>auto simp: arena_wf_def add_block_def\<close>)

lemma heap_failure_wf:
  assumes "arena_wf arena" "malloc (arena_heap arena) = (None, heap)"
  shows "arena_wf (arena\<lparr>arena_heap := heap\<rparr>)"
  using assms by (auto simp: arena_wf_def block_addrs_def malloc_def split: list.splits)

text \<open>The memory at \<open>p\<close> is handed out in the step from one arena to the other.\<close>

definition handed_out :: "arena_t \<Rightarrow> nat \<Rightarrow> u64 \<Rightarrow> u64 \<Rightarrow> arena_t \<Rightarrow> bool" where
  "handed_out arena k sz p arena' \<longleftrightarrow> arena_wf arena' \<and> arena_used arena \<subseteq> arena_used arena' \<and>
     2 ^ k dvd unat p \<and> region p sz \<subseteq> arena_used arena' - arena_used arena"

lemma alloc_current_sound:
  assumes wf: "arena_wf arena" and k: "k \<le> 4" and b: "b = arena_blocks arena ! arena_current arena"
    and at: "at = round_up k (unat (block_offset b))" "at + round_up k (unat sz) \<le> 65536"
  shows "handed_out arena k sz (block_data b + of_nat at)
    (alloc_in arena (arena_current arena) at (round_up k (unat sz)))"
proof -
  let ?i = "arena_current arena"
  have fits: "block_fits (block_addr b)" using wf_current [OF wf] b by simp
  have p: "unat (block_data b + of_nat at) = unat (block_addr (arena_blocks arena ! ?i)) + 16 + at"
    unfolding block_data_def using fits at(2) b by (simp add: unat_place)
  have "arena_used arena = used_upto (arena_blocks arena) ?i \<union>
    {unat (block_addr (arena_blocks arena ! ?i)) + 16 ..< unat (block_addr (arena_blocks arena ! ?i)) + 16 + unat (block_offset b)}"
    by (simp add: arena_used_upto used_upto_Suc block_used_def b)
  from alloc_in_sound [OF order_refl _ _ _ this _ at(2) round_up_bounds(1) p]
  show ?thesis
    using wf place_aligned [OF fits k] round_up_bounds(1) at(1) b p by (simp add: handed_out_def arena_wf_def)
qed

lemma alloc_next_sound:
  assumes wf: "arena_wf arena" and k: "k \<le> 4" and j: "j = arena_current arena + 1" "j < length (arena_blocks arena)"
    and s: "round_up k (unat sz) \<le> 65536"
  shows "handed_out arena k sz (block_data (arena_blocks arena ! j)) (alloc_in arena j 0 (round_up k (unat sz)))"
proof -
  let ?n = "arena_blocks arena ! j"
  have n: "block_fits (block_addr ?n)"
    using wf j(2) by (auto simp: arena_wf_def block_addrs_def intro!: apart_fits)
  have p: "unat (block_data ?n) = unat (block_addr ?n) + 16 + 0"
    unfolding block_data_def using unat_block_data [OF n] by simp
  have "arena_used arena = used_upto (arena_blocks arena) j \<union>
    {unat (block_addr ?n) + 16 ..< unat (block_addr ?n) + 16 + 0}"
    by (simp add: arena_used_upto j)
  from alloc_in_sound [OF _ j(2) _ _ this order_refl _ round_up_bounds(1) p]
  show ?thesis using wf j(1) s place_aligned [OF n k, of 0] p by (simp add: handed_out_def arena_wf_def)
qed

lemma alloc_new_sound:
  assumes wf: "arena_wf arena" and k: "k \<le> 4" and last: "length (arena_blocks arena) = arena_current arena + 1"
    and m: "malloc (arena_heap arena) = (Some p, heap)" and s: "round_up k (unat sz) \<le> 65536"
  shows "handed_out arena k sz (p + BLOCK_HEADER_SIZE)
    (alloc_in (add_block arena p heap) (arena_current arena + 1) 0 (round_up k (unat sz)))"
proof -
  let ?a = "add_block arena p heap" and ?j = "arena_current arena + 1"
  note new = add_block_wf [OF wf m]
  have n: "block_addr (arena_blocks ?a ! ?j) = p" using last by (simp add: add_block_def nth_append)
  have p: "unat (p + BLOCK_HEADER_SIZE) = unat (block_addr (arena_blocks ?a ! ?j)) + 16 + 0"
    unfolding n using unat_block_data [OF new(3)] by simp
  have "used_upto (arena_blocks arena) ?j = used_upto (arena_blocks ?a) ?j"
    using last by (intro used_upto_cong) (simp add: add_block_def nth_append)
  then have "arena_used arena = used_upto (arena_blocks ?a) ?j \<union>
    {unat (block_addr (arena_blocks ?a ! ?j)) + 16 ..< unat (block_addr (arena_blocks ?a ! ?j)) + 16 + 0}"
    by (simp add: arena_used_upto)
  from alloc_in_sound [OF _ _ new(1,2) this order_refl _ round_up_bounds(1) p]
  show ?thesis
    using last s place_aligned [OF new(3) k, of 0] p [unfolded n]
    by (simp add: handed_out_def) (simp add: add_block_def)
qed

lemma alloc_aligned_sound:
  assumes wf: "arena_wf arena" and k: "k \<le> 4" and r: "div0_arena_alloc_aligned arena sz (2 ^ k) = (r, arena')"
  shows "case r of None \<Rightarrow> arena_wf arena' \<and> arena_used arena' = arena_used arena
    | Some p \<Rightarrow> handed_out arena k sz p arena'"
proof -
  have "arena_current arena < length (arena_blocks arena)" using wf by (simp add: arena_wf_def)
  then show ?thesis
    using r alloc_current_sound [OF wf k refl refl, of sz] alloc_next_sound [OF wf k refl, of sz]
      alloc_new_sound [OF wf k, of _ _ sz] heap_failure_wf [OF wf] wf
    unfolding alloc_aligned_eq [OF wf k] Let_def
    by (auto simp: arena_used_def split: if_splits prod.splits option.splits)
qed


section \<open>Sequences of allocations\<close>

fun allocs :: "('a \<Rightarrow> u64 \<Rightarrow> u64 option \<times> 'a) \<Rightarrow> 'a \<Rightarrow> u64 list \<Rightarrow> u64 option list \<times> 'a" where
  "allocs alloc arena [] = ([], arena)"
| "allocs alloc arena (sz # sizes) =
     (let (p, arena) = alloc arena sz; (ps, arena) = allocs alloc arena sizes in (p # ps, arena))"

text \<open>What a client of an allocator relies on: new memory is aligned and not in use.\<close>

locale region_allocator =
  fixes valid :: "'a \<Rightarrow> bool"
    and used :: "'a \<Rightarrow> nat set"
    and alloc :: "'a \<Rightarrow> u64 \<Rightarrow> u64 option \<times> 'a"
    and alignment :: nat
  assumes fresh: "valid a \<Longrightarrow> alloc a n = (Some p, a') \<Longrightarrow>
      valid a' \<and> used a \<subseteq> used a' \<and> alignment dvd unat p \<and> region p n \<subseteq> used a' - used a"
    and failed: "valid a \<Longrightarrow> alloc a n = (None, a') \<Longrightarrow> valid a' \<and> used a' = used a"
begin

lemma allocs_apart:
  assumes "valid a" "allocs alloc a sizes = (ps, a')"
  shows "valid a' \<and> used a \<subseteq> used a' \<and> length ps = length sizes \<and>
    (\<forall>i<length ps. \<forall>p. ps ! i = Some p \<longrightarrow> alignment dvd unat p \<and>
       region p (sizes ! i) \<subseteq> used a' - used a \<and>
       (\<forall>j<i. \<forall>q. ps ! j = Some q \<longrightarrow> region p (sizes ! i) \<inter> region q (sizes ! j) = {}))"
  using assms
proof (induction sizes arbitrary: a ps)
  case (Cons sz sizes)
  obtain r b where r: "alloc a sz = (r, b)" by force
  obtain qs where qs: "allocs alloc b sizes = (qs, a')" "ps = r # qs"
    using Cons.prems(2) r by (auto split: prod.splits)
  have b: "valid b" "used a \<subseteq> used b"
    "\<And>p. r = Some p \<Longrightarrow> alignment dvd unat p \<and> region p sz \<subseteq> used b - used a"
    using r fresh [OF Cons.prems(1)] failed [OF Cons.prems(1)] by (cases r; auto)+
  have ih: "valid a'" "used b \<subseteq> used a'" "length qs = length sizes"
    "\<And>i p. i < length qs \<Longrightarrow> qs ! i = Some p \<Longrightarrow> alignment dvd unat p"
    "\<And>i p. i < length qs \<Longrightarrow> qs ! i = Some p \<Longrightarrow> region p (sizes ! i) \<subseteq> used a' - used b"
    "\<And>i j p q. i < length qs \<Longrightarrow> qs ! i = Some p \<Longrightarrow> j < i \<Longrightarrow> qs ! j = Some q \<Longrightarrow>
      region p (sizes ! i) \<inter> region q (sizes ! j) = {}"
    using Cons.IH [OF b(1) qs(1)] by blast+
  have later: "alignment dvd unat p \<and> region p ((sz # sizes) ! i) \<subseteq> used a' - used a \<and>
      (\<forall>j<i. \<forall>q. ps ! j = Some q \<longrightarrow> region p ((sz # sizes) ! i) \<inter> region q ((sz # sizes) ! j) = {})"
    if i: "i = Suc i'" "i' < length qs" "qs ! i' = Some p" for i i' p
  proof (intro conjI allI impI)
    show "alignment dvd unat p" by (rule ih(4) [OF i(2,3)])
    have r: "region p (sizes ! i') \<subseteq> used a' - used b" by (rule ih(5) [OF i(2,3)])
    then show "region p ((sz # sizes) ! i) \<subseteq> used a' - used a" using b(2) i(1) by auto
    fix j q assume j: "j < i" "ps ! j = Some q"
    show "region p ((sz # sizes) ! i) \<inter> region q ((sz # sizes) ! j) = {}"
    proof (cases j)
      case 0
      then have "region q sz \<subseteq> used b" using j(2) b(3) [of q] qs(2) by auto
      then show ?thesis using r 0 i(1) by auto
    next
      case (Suc j')
      then show ?thesis using ih(6) [OF i(2,3), of j' q] j i(1) qs(2) by simp
    qed
  qed
  have first: "alignment dvd unat p \<and> region p sz \<subseteq> used a' - used a" if "r = Some p" for p
    using b(3) [OF that] ih(2) by auto
  show ?case
    using ih(1,2,3) b(2) qs(2) later first by (auto simp: nth_Cons split: nat.splits)
qed simp

end

interpretation arena8: region_allocator arena_wf arena_used div0_arena_alloc 8
proof
  fix a a' :: arena_t and n p
  have e: "div0_arena_alloc a n = div0_arena_alloc_aligned a n (2 ^ 3)"
    by (simp add: div0_arena_alloc_def DIV0_ARENA_ALIGNMENT_def)
  show "arena_wf a' \<and> arena_used a \<subseteq> arena_used a' \<and> 8 dvd unat p \<and> region p n \<subseteq> arena_used a' - arena_used a"
    if "arena_wf a" "div0_arena_alloc a n = (Some p, a')"
    using alloc_aligned_sound [OF that(1) _ that(2) [unfolded e]] by (simp add: handed_out_def)
  show "arena_wf a' \<and> arena_used a' = arena_used a"
    if "arena_wf a" "div0_arena_alloc a n = (None, a')"
    using alloc_aligned_sound [OF that(1) _ that(2) [unfolded e]] by simp
qed

text \<open>
  C31: Allocations from an arena are multiples of eight and lie apart, from each other and from what
  was handed out before, also across the blocks of the chain, provided that the blocks malloc
  returns are aligned and lie apart.
\<close>

theorem arena_allocations_apart:
  assumes "arena_wf arena" "allocs div0_arena_alloc arena sizes = (ps, arena')"
  shows "arena_wf arena' \<and> length ps = length sizes \<and>
    (\<forall>i<length ps. \<forall>p. ps ! i = Some p \<longrightarrow> 8 dvd unat p \<and>
       region p (sizes ! i) \<inter> arena_used arena = {} \<and>
       (\<forall>j<i. \<forall>q. ps ! j = Some q \<longrightarrow> region p (sizes ! i) \<inter> region q (sizes ! j) = {}))"
  using arena8.allocs_apart [OF assms] by fast

theorem arena_allocations_apart_witness:
  "let arena = \<lparr>arena_blocks = [\<lparr>block_addr = 0x1000, block_offset = 65530\<rparr>], arena_current = 0,
                 arena_large = [], arena_heap = [Some 0x20000]\<rparr>;
       ps = fst (allocs div0_arena_alloc arena [0x20, 5])
   in ps = [Some 0x20010, Some 0x20030] \<and> region 0x20030 5 \<inter> region 0x20010 0x20 = {}"
proof -
  let ?arena = "\<lparr>arena_blocks = [\<lparr>block_addr = 0x1000, block_offset = 65530\<rparr>], arena_current = 0,
                 arena_large = [], arena_heap = [Some 0x20000]\<rparr>"
  have wf: "arena_wf ?arena"
    by (simp add: arena_wf_def block_addrs_def block_fits_def)
  have run: "allocs div0_arena_alloc ?arena [0x20, 5] = ([Some 0x20010, Some 0x20030],
    \<lparr>arena_blocks = [\<lparr>block_addr = 0x1000, block_offset = 65530\<rparr>, \<lparr>block_addr = 0x20000, block_offset = 40\<rparr>],
     arena_current = 1, arena_large = [], arena_heap = []\<rparr>)"
    by (simp add: div0_arena_alloc_def DIV0_ARENA_ALIGNMENT_def div0_arena_alloc_aligned_def Let_def
      DIV0_ARENA_BLOCK_SIZE_def BLOCK_HEADER_SIZE_def block_data_def malloc_def)
  have "region 0x20030 ([0x20, 5] ! 1) \<inter> region 0x20010 ([0x20, 5] ! 0) = {}"
    using conjunct2 [OF conjunct2 [OF arena_allocations_apart [OF wf run]], THEN spec, of 1] by simp
  then show ?thesis using run by simp
qed

lemma three_le_4: "(3::nat) \<le> 4"
  by simp

text \<open>
  An allocation of eight-byte alignment fails exactly for no bytes, for more than 64 KiB, and
  when the current block has no room, no block follows and malloc fails.
\<close>

theorem arena_alloc_fails_iff:
  assumes "arena_wf arena"
  shows "fst (div0_arena_alloc arena sz) = None \<longleftrightarrow>
    sz = 0 \<or> sz > 65536 \<or>
    (round_up 3 (unat (block_offset (arena_blocks arena ! arena_current arena))) + round_up 3 (unat sz) > 65536 \<and>
     arena_current arena + 1 = length (arena_blocks arena) \<and> fst (malloc (arena_heap arena)) = None)"
proof -
  have e: "div0_arena_alloc arena sz = div0_arena_alloc_aligned arena sz (2 ^ 3)"
    by (simp add: div0_arena_alloc_def DIV0_ARENA_ALIGNMENT_def)
  have "round_up 3 (unat sz) \<le> 65536 \<longleftrightarrow> unat sz \<le> 65536"
    using round_up_bounds(1) [of "unat sz" 3] round_up_le [of 3 65536 "unat sz"] by auto
  then have s: "round_up 3 (unat sz) > 65536 \<longleftrightarrow> sz > 65536" by (auto simp: word_less_nat_alt)
  have "arena_current arena < length (arena_blocks arena)" using assms by (simp add: arena_wf_def)
  then show ?thesis
    unfolding e alloc_aligned_eq [OF assms three_le_4] Let_def using s
    by (auto split: prod.splits option.splits)
qed

theorem arena_alloc_fails_iff_witness:
  "fst (div0_arena_alloc \<lparr>arena_blocks = [\<lparr>block_addr = 0x1000, block_offset = 0\<rparr>], arena_current = 0,
     arena_large = [], arena_heap = []\<rparr> 65537) = None"
proof -
  have "arena_wf \<lparr>arena_blocks = [\<lparr>block_addr = 0x1000, block_offset = 0\<rparr>], arena_current = 0,
     arena_large = [], arena_heap = []\<rparr>"
    by (simp add: arena_wf_def block_addrs_def block_fits_def)
  from arena_alloc_fails_iff [OF this] show ?thesis by simp
qed


text \<open>The arena refuses a request that fits in a block: malloc has failed.\<close>

definition arena_exhausted :: "arena_t \<Rightarrow> bool" where
  "arena_exhausted arena \<longleftrightarrow> (\<exists>sz. 0 < sz \<and> sz \<le> 65536 \<and> fst (div0_arena_alloc arena sz) = None)"

lemma arena_exhaustedI: "div0_arena_alloc arena sz = (None, arena') \<Longrightarrow> 0 < sz \<Longrightarrow> sz \<le> 65536 \<Longrightarrow> arena_exhausted arena"
  by (auto simp: arena_exhausted_def)


section \<open>Reset and alignment\<close>

text \<open>After a reset nothing is in use, and the first allocation starts where the arena started.\<close>

lemma arena_reset_reuses:
  assumes "arena_wf arena"
  shows "arena_wf (div0_arena_reset arena)" "arena_used (div0_arena_reset arena) = {}"
    "0 < sz \<Longrightarrow> sz \<le> 65536 \<Longrightarrow>
      fst (div0_arena_alloc (div0_arena_reset arena) sz) = Some (block_data (hd (arena_blocks arena)))"
proof -
  have ne: "arena_blocks arena \<noteq> []" using assms by (auto simp: arena_wf_def)
  show wf: "arena_wf (div0_arena_reset arena)"
    using assms ne by (auto simp: arena_wf_def div0_arena_reset_def block_addrs_def comp_def)
  show "arena_used (div0_arena_reset arena) = {}"
    using ne by (simp add: arena_used_def div0_arena_reset_def block_used_def)
  assume sz: "0 < sz" "sz \<le> 65536"
  have "div0_arena_alloc (div0_arena_reset arena) sz = div0_arena_alloc_aligned (div0_arena_reset arena) sz (2 ^ 3)"
    by (simp add: div0_arena_alloc_def DIV0_ARENA_ALIGNMENT_def)
  moreover have "round_up 3 (unat sz) \<le> 65536" using sz by (intro round_up_le) (auto simp: word_le_nat_alt)
  ultimately show "fst (div0_arena_alloc (div0_arena_reset arena) sz) = Some (block_data (hd (arena_blocks arena)))"
    unfolding alloc_aligned_eq [OF wf three_le_4] Let_def
    using sz ne by (simp add: div0_arena_reset_def hd_conv_nth block_data_def)
qed

text \<open>
  For alignments above 16 a fresh block need not have room: the offset at which the aligned data
  start is not counted.  Here 64 KiB with alignment 64 reach 48 bytes past the end of their block.
\<close>

lemma overaligned_allocation_escapes:
  "let arena = \<lparr>arena_blocks = [\<lparr>block_addr = 0x1000, block_offset = 65536\<rparr>], arena_current = 0,
                 arena_large = [], arena_heap = [Some 0x20000]\<rparr>
   in arena_wf arena \<and> fst (div0_arena_alloc_aligned arena 65536 64) = Some 0x20040 \<and>
      \<not> region 0x20040 65536 \<subseteq> block_extent 0x20000"
proof -
  have "0x30040 - 1 \<in> region 0x20040 65536" "0x30040 - 1 \<notin> block_extent 0x20000"
    by (simp_all add: region_def block_extent_def)
  then show ?thesis
    by (auto simp: arena_wf_def block_addrs_def block_fits_def div0_arena_alloc_aligned_def Let_def
      DIV0_ARENA_BLOCK_SIZE_def BLOCK_HEADER_SIZE_def block_data_def malloc_def)
qed

end
