(* ===== verification/Evm_Stack.thy ===== *)
theory Evm_Stack
  imports Uint256_Arith Arena "HOL-Library.Monad_Syntax"
begin

text \<open>
  The operand stack of the EVM: \<open>include/div0/evm/stack.h\<close> and \<open>stack_pool.h\<close>.  A stack is the list of
  its live slots, the top first (element \<open>d\<close> is \<open>items[top - 1 - d]\<close>), and its capacity; slots at or
  above \<open>top\<close> are never read.  The arena the stack grows in is passed along.  The unchecked
  operations return \<open>None\<close> where the C code would access a slot outside the allocated array.
\<close>

definition EVM_STACK_MAX_DEPTH :: nat where "EVM_STACK_MAX_DEPTH = 1024"

definition EVM_STACK_INITIAL_CAPACITY :: nat where "EVM_STACK_INITIAL_CAPACITY = 32"

record evm_stack_t =
  stack_items :: "uint256_t list"
  stack_capacity :: nat

text \<open>The size of \<open>uint256_t\<close> in bytes.\<close>

definition slots_size :: "nat \<Rightarrow> u64" where
  "slots_size n = of_nat n * 32"

definition evm_stack_init :: "arena_t \<Rightarrow> evm_stack_t option \<times> arena_t" where
  "evm_stack_init arena =
     (case div0_arena_alloc arena (slots_size EVM_STACK_INITIAL_CAPACITY) of
        (None, arena) \<Rightarrow> (None, arena)
      | (Some _, arena) \<Rightarrow>
          (Some \<lparr>stack_items = [], stack_capacity = EVM_STACK_INITIAL_CAPACITY\<rparr>, arena))"

definition evm_stack_size :: "evm_stack_t \<Rightarrow> nat" where
  "evm_stack_size stack = length (stack_items stack)"

definition evm_stack_is_empty :: "evm_stack_t \<Rightarrow> bool" where
  "evm_stack_is_empty stack \<longleftrightarrow> evm_stack_size stack = 0"

definition evm_stack_has_items :: "evm_stack_t \<Rightarrow> nat \<Rightarrow> bool" where
  "evm_stack_has_items stack n \<longleftrightarrow> evm_stack_size stack \<ge> n"

definition evm_stack_has_space :: "evm_stack_t \<Rightarrow> nat \<Rightarrow> bool" where
  "evm_stack_has_space stack n \<longleftrightarrow> evm_stack_size stack + n \<le> EVM_STACK_MAX_DEPTH"

definition evm_stack_grow :: "evm_stack_t \<Rightarrow> arena_t \<Rightarrow> bool \<times> evm_stack_t \<times> arena_t" where
  "evm_stack_grow stack arena =
     (let new_capacity = (if stack_capacity stack \<ge> EVM_STACK_MAX_DEPTH div 2 then EVM_STACK_MAX_DEPTH
                          else stack_capacity stack * 2)
      in if new_capacity \<le> stack_capacity stack then (False, stack, arena)
         else (case div0_arena_realloc arena (slots_size new_capacity) of
                 (None, arena) \<Rightarrow> (False, stack, arena)
               | (Some _, arena) \<Rightarrow> (True, stack\<lparr>stack_capacity := new_capacity\<rparr>, arena)))"

lemma evm_stack_grow_increases:
  "evm_stack_grow stack arena = (True, stack', arena') \<Longrightarrow>
    stack_capacity stack < stack_capacity stack' \<and> stack_items stack' = stack_items stack"
  by (auto simp: evm_stack_grow_def Let_def split: if_splits prod.splits option.splits)

lemma evm_stack_grow_bound:
  "evm_stack_grow stack arena = (True, stack', arena') \<Longrightarrow> stack_capacity stack' \<le> 1024"
  by (auto simp: evm_stack_grow_def Let_def EVM_STACK_MAX_DEPTH_def split: if_splits prod.splits option.splits)

text \<open>The loop \<open>while (top + n > capacity)\<close>.\<close>

function ensure_loop :: "evm_stack_t \<Rightarrow> arena_t \<Rightarrow> nat \<Rightarrow> bool \<times> evm_stack_t \<times> arena_t" where
  "ensure_loop stack arena n =
     (if evm_stack_size stack + n > stack_capacity stack
      then (case evm_stack_grow stack arena of
              (True, stack, arena) \<Rightarrow> ensure_loop stack arena n
            | (False, stack, arena) \<Rightarrow> (False, stack, arena))
      else (True, stack, arena))"
  by pat_completeness auto

termination
proof (relation "measure (\<lambda>(stack, _, _). 1024 - stack_capacity stack)", goal_cases)
  case (2 stack arena n ok r stack' arena')
  then have g: "evm_stack_grow stack arena = (True, stack', arena')" by simp
  show ?case using evm_stack_grow_increases [OF g] evm_stack_grow_bound [OF g] by auto
qed simp

declare ensure_loop.simps [simp del]

definition evm_stack_ensure_space :: "evm_stack_t \<Rightarrow> arena_t \<Rightarrow> nat \<Rightarrow> bool \<times> evm_stack_t \<times> arena_t" where
  "evm_stack_ensure_space stack arena n =
     (if \<not> evm_stack_has_space stack n then (False, stack, arena) else ensure_loop stack arena n)"

definition evm_stack_push_unsafe :: "evm_stack_t \<Rightarrow> uint256_t \<Rightarrow> evm_stack_t option" where
  "evm_stack_push_unsafe stack x =
     (if evm_stack_size stack < stack_capacity stack
      then Some (stack\<lparr>stack_items := x # stack_items stack\<rparr>) else None)"

definition evm_stack_push :: "evm_stack_t \<Rightarrow> arena_t \<Rightarrow> uint256_t \<Rightarrow> (bool \<times> evm_stack_t \<times> arena_t) option" where
  "evm_stack_push stack arena x =
     (if evm_stack_size stack \<ge> EVM_STACK_MAX_DEPTH then Some (False, stack, arena)
      else
        let (ok, stack, arena) =
          (if evm_stack_size stack \<ge> stack_capacity stack then evm_stack_grow stack arena else (True, stack, arena))
        in if \<not> ok then Some (False, stack, arena)
           else do { stack \<leftarrow> evm_stack_push_unsafe stack x; Some (True, stack, arena) })"

definition evm_stack_pop_unsafe :: "evm_stack_t \<Rightarrow> (uint256_t \<times> evm_stack_t) option" where
  "evm_stack_pop_unsafe stack =
     (case stack_items stack of [] \<Rightarrow> None | x # xs \<Rightarrow> Some (x, stack\<lparr>stack_items := xs\<rparr>))"

definition evm_stack_peek_unsafe :: "evm_stack_t \<Rightarrow> nat \<Rightarrow> uint256_t option" where
  "evm_stack_peek_unsafe stack depth =
     (if depth < evm_stack_size stack then Some (stack_items stack ! depth) else None)"

text \<open>What the pointers of \<open>evm_stack_top_unsafe\<close> and \<open>evm_stack_at_unsafe\<close> point to.\<close>

definition evm_stack_top_unsafe :: "evm_stack_t \<Rightarrow> uint256_t option" where
  "evm_stack_top_unsafe stack = evm_stack_peek_unsafe stack 0"

definition evm_stack_at_unsafe :: "evm_stack_t \<Rightarrow> nat \<Rightarrow> uint256_t option" where
  "evm_stack_at_unsafe stack depth = evm_stack_peek_unsafe stack depth"

definition evm_stack_dup_unsafe :: "evm_stack_t \<Rightarrow> nat \<Rightarrow> evm_stack_t option" where
  "evm_stack_dup_unsafe stack depth =
     (if depth = 0 \<or> depth > evm_stack_size stack \<or> evm_stack_size stack \<ge> stack_capacity stack then None
      else Some (stack\<lparr>stack_items := stack_items stack ! (depth - 1) # stack_items stack\<rparr>))"

definition evm_stack_swap_unsafe :: "evm_stack_t \<Rightarrow> nat \<Rightarrow> evm_stack_t option" where
  "evm_stack_swap_unsafe stack depth =
     (if depth \<ge> evm_stack_size stack then None
      else let tmp = stack_items stack ! 0;
               items = (stack_items stack)[0 := stack_items stack ! depth]
           in Some (stack\<lparr>stack_items := items[depth := tmp]\<rparr>))"

definition evm_stack_clear :: "evm_stack_t \<Rightarrow> evm_stack_t" where
  "evm_stack_clear stack = stack\<lparr>stack_items := []\<rparr>"

text \<open>The pool allocates the structure (24 bytes) and its array; returning a stack does nothing.\<close>

definition evm_stack_pool_borrow :: "arena_t \<Rightarrow> evm_stack_t option \<times> arena_t" where
  "evm_stack_pool_borrow arena =
     (case div0_arena_alloc arena 24 of
        (None, arena) \<Rightarrow> (None, arena)
      | (Some _, arena) \<Rightarrow> evm_stack_init arena)"

definition evm_stack_pool_return :: "evm_stack_t option \<Rightarrow> evm_stack_t option" where
  "evm_stack_pool_return stack = stack"


section \<open>A bounded stack\<close>

definition stack_wf :: "evm_stack_t \<Rightarrow> bool" where
  "stack_wf stack \<longleftrightarrow> evm_stack_size stack \<le> stack_capacity stack \<and> 32 \<le> stack_capacity stack \<and> stack_capacity stack \<le> 1024"

lemma grow_wf: "stack_wf stack \<Longrightarrow> evm_stack_grow stack arena = (ok, stack', arena') \<Longrightarrow>
    stack_wf stack' \<and> stack_items stack' = stack_items stack"
  by (auto simp: evm_stack_grow_def Let_def EVM_STACK_MAX_DEPTH_def stack_wf_def evm_stack_size_def
    split: if_splits prod.splits option.splits)

lemma ensure_loop_wf:
  "stack_wf stack \<Longrightarrow> ensure_loop stack arena n = (ok, stack', arena') \<Longrightarrow>
    stack_wf stack' \<and> stack_items stack' = stack_items stack \<and>
    (ok \<longrightarrow> evm_stack_size stack + n \<le> stack_capacity stack')"
proof (induction stack arena n rule: ensure_loop.induct)
  case (1 stack arena n)
  show ?case
  proof (cases "evm_stack_size stack + n > stack_capacity stack")
    case True
    obtain b s a where g: "evm_stack_grow stack arena = (b, s, a)" by (metis prod_cases3)
    note w = grow_wf [OF "1.prems"(1) g]
    show ?thesis
    proof (cases b)
      case True
      with g \<open>evm_stack_size stack + n > _\<close> show ?thesis
        using "1.IH" [OF _ g [symmetric]] w "1.prems"(2)
        by (simp add: ensure_loop.simps [of stack] evm_stack_size_def)
    next
      case False
      with g \<open>evm_stack_size stack + n > _\<close> show ?thesis
        using w "1.prems"(2) by (simp add: ensure_loop.simps [of stack])
    qed
  next
    case False
    then show ?thesis using "1.prems" by (simp add: ensure_loop.simps [of stack])
  qed
qed


lemma ensure_space_wf:
  "stack_wf stack \<Longrightarrow> evm_stack_ensure_space stack arena n = (ok, stack', arena') \<Longrightarrow>
    stack_wf stack' \<and> stack_items stack' = stack_items stack \<and>
    (ok \<longrightarrow> evm_stack_size stack + n \<le> stack_capacity stack')"
  using ensure_loop_wf [of stack arena n ok stack' arena']
  by (auto simp: evm_stack_ensure_space_def split: if_splits)

lemma push_unsafe_wf:
  "stack_wf stack \<Longrightarrow> evm_stack_size stack < stack_capacity stack \<Longrightarrow>
    \<exists>stack'. evm_stack_push_unsafe stack x = Some stack' \<and> stack_wf stack' \<and> stack_items stack' = x # stack_items stack"
  by (auto simp: evm_stack_push_unsafe_def stack_wf_def evm_stack_size_def)

lemma slots_size_fits: "0 < n \<Longrightarrow> n \<le> 1024 \<Longrightarrow> 0 < slots_size n \<and> slots_size n \<le> 65536"
proof -
  assume n: "0 < n" "n \<le> 1024"
  then have "unat (slots_size n) = n * 32" by (simp add: slots_size_def unat_word_ariths unat_of_nat)
  with n show ?thesis by (simp add: word_less_nat_alt word_le_nat_alt)
qed

lemma grow_fails:
  assumes "stack_wf stack" "evm_stack_size stack < 1024" "stack_capacity stack \<le> evm_stack_size stack"
    "evm_stack_grow stack arena = (ok, stack', arena')"
  shows "(ok \<longrightarrow> evm_stack_size stack < stack_capacity stack') \<and> (\<not> ok \<longrightarrow> arena_exhausted arena)"
proof -
  define n where "n = (if stack_capacity stack \<ge> EVM_STACK_MAX_DEPTH div 2 then EVM_STACK_MAX_DEPTH
    else stack_capacity stack * 2)"
  have n: "0 < n" "n \<le> 1024" "stack_capacity stack < n"
    using assms(1-3) by (auto simp: n_def stack_wf_def EVM_STACK_MAX_DEPTH_def)
  obtain r a where r: "div0_arena_alloc arena (slots_size n) = (r, a)" by fastforce
  have "evm_stack_grow stack arena =
      (case r of None \<Rightarrow> (False, stack, a) | Some _ \<Rightarrow> (True, stack\<lparr>stack_capacity := n\<rparr>, a))"
    using n(3) r by (simp add: evm_stack_grow_def n_def [symmetric] div0_arena_realloc_def)
  moreover have "arena_exhausted arena" if "r = None"
    using r that slots_size_fits [OF n(1,2)] by (intro arena_exhaustedI) auto
  ultimately show ?thesis using assms(1,4) n by (auto simp: stack_wf_def split: option.splits)
qed

lemma push_sound:
  assumes "stack_wf stack"
  shows "\<exists>ok stack' arena'. evm_stack_push stack arena x = Some (ok, stack', arena') \<and> stack_wf stack' \<and>
      stack_items stack' = (if ok then x # stack_items stack else stack_items stack) \<and>
      (ok \<longrightarrow> map_option (apsnd stack_items) (evm_stack_pop_unsafe stack') = Some (x, stack_items stack)) \<and>
      (\<not> ok \<longrightarrow> evm_stack_size stack = 1024 \<or> arena_exhausted arena)"
proof (cases "evm_stack_size stack < 1024")
  case True
  obtain ok stack' arena' where g: "(if evm_stack_size stack \<ge> stack_capacity stack then evm_stack_grow stack arena
      else (True, stack, arena)) = (ok, stack', arena')" by (metis prod_cases3)
  have w: "stack_wf stack'" "stack_items stack' = stack_items stack" "ok \<longrightarrow> evm_stack_size stack < stack_capacity stack'"
    "\<not> ok \<longrightarrow> arena_exhausted arena"
    using g assms True grow_wf [of stack arena ok stack' arena'] grow_fails [of stack arena ok stack' arena']
    by (auto split: if_splits)
  show ?thesis
  proof (cases ok)
    case ok: True
    then obtain stack'' where p: "evm_stack_push_unsafe stack' x = Some stack''" "stack_wf stack''"
      "stack_items stack'' = x # stack_items stack"
      using push_unsafe_wf [OF w(1), of x] w(2,3) by (auto simp: evm_stack_size_def)
    have "evm_stack_push stack arena x = Some (True, stack'', arena')"
      using True ok p(1) by (simp add: evm_stack_push_def EVM_STACK_MAX_DEPTH_def g)
    then show ?thesis using p(2,3) by (auto simp: evm_stack_pop_unsafe_def)
  next
    case False
    then have "evm_stack_push stack arena x = Some (False, stack', arena')"
      using True by (simp add: evm_stack_push_def EVM_STACK_MAX_DEPTH_def g)
    then show ?thesis using w False by auto
  qed
next
  case False
  then show ?thesis using assms by (auto simp: evm_stack_push_def EVM_STACK_MAX_DEPTH_def stack_wf_def)
qed



end
