(* ===== verification/Evm_Memory.thy ===== *)
theory Evm_Memory
  imports Bytes Arena
begin

text \<open>
  The linear memory of the EVM: \<open>include/div0/evm/memory.h\<close>, \<open>src/evm/memory.c\<close> and \<open>memory_pool.h\<close>.
  A memory is the list of its bytes, as many as the field \<open>size\<close> says, and the capacity of its
  buffer; what the buffer holds beyond \<open>size\<close> is cleared before it is used.  The unchecked accesses
  return \<open>None\<close> outside the memory.
\<close>

unbundle bit_operations_syntax

definition EVM_MEMORY_INITIAL_CAPACITY :: u64 where "EVM_MEMORY_INITIAL_CAPACITY = 1024"

record evm_memory_t =
  mem_data :: "u8 list"
  mem_capacity :: u64

definition evm_memory_size :: "evm_memory_t \<Rightarrow> u64" where
  "evm_memory_size mem = of_nat (length (mem_data mem))"

definition round_up_32 :: "u64 \<Rightarrow> u64" where
  "round_up_32 n = (n + 31) AND NOT 31"

definition evm_memory_init :: evm_memory_t where
  "evm_memory_init = \<lparr>mem_data = [], mem_capacity = 0\<rparr>"

definition evm_memory_reset :: "evm_memory_t \<Rightarrow> evm_memory_t" where
  "evm_memory_reset mem = mem\<lparr>mem_data := [], mem_capacity := 0\<rparr>"

definition evm_memory_expansion_cost :: "u64 \<Rightarrow> u64 \<Rightarrow> u64" where
  "evm_memory_expansion_cost current_words new_words =
     (if new_words \<le> current_words then 0
      else
        let new_cost = 3 * new_words + (new_words * new_words) div 512;
            old_cost = 3 * current_words + (current_words * current_words) div 512
        in new_cost - old_cost)"

text \<open>
  The growth loop is the one of \<open>bytes_reserve\<close>; it need not end.  The last argument is the value the
  out parameter \<open>gas_cost\<close> has before the call.
\<close>

definition evm_memory_expand ::
    "evm_memory_t \<Rightarrow> arena_t \<Rightarrow> u64 \<Rightarrow> u64 \<Rightarrow> u64 \<Rightarrow> (bool \<times> u64 \<times> evm_memory_t \<times> arena_t) option" where
  "evm_memory_expand mem arena offset sz gas_cost =
     (if sz = 0 then Some (True, 0, mem, arena)
      else if offset > NOT 0 - sz then Some (False, gas_cost, mem, arena)
      else
        let required = offset + sz;
            new_size = round_up_32 required;
            current_words = evm_memory_size mem div 32;
            new_words = new_size div 32;
            gas_cost = evm_memory_expansion_cost current_words new_words;
            zeros = replicate (unat new_size - length (mem_data mem)) 0
        in if new_size \<le> evm_memory_size mem then Some (True, gas_cost, mem, arena)
           else if new_size > mem_capacity mem
           then do {
             new_capacity \<leftarrow> grow_capacity
               (if mem_capacity mem = 0 then EVM_MEMORY_INITIAL_CAPACITY else mem_capacity mem) new_size;
             (case div0_arena_alloc arena new_capacity of
                (None, arena) \<Rightarrow> Some (False, gas_cost, mem, arena)
              | (Some _, arena) \<Rightarrow>
                  Some (True, gas_cost, mem\<lparr>mem_data := mem_data mem @ zeros, mem_capacity := new_capacity\<rparr>, arena))
           }
           else Some (True, gas_cost, mem\<lparr>mem_data := mem_data mem @ zeros\<rparr>, arena))"

definition evm_memory_store_unsafe :: "evm_memory_t \<Rightarrow> u64 \<Rightarrow> u8 list \<Rightarrow> evm_memory_t option" where
  "evm_memory_store_unsafe mem offset d =
     (if unat offset + length d \<le> length (mem_data mem)
      then Some (mem\<lparr>mem_data := memcpy_at (mem_data mem) (unat offset) d\<rparr>) else None)"

definition evm_memory_load_unsafe :: "evm_memory_t \<Rightarrow> u64 \<Rightarrow> u64 \<Rightarrow> u8 list option" where
  "evm_memory_load_unsafe mem offset len =
     (if unat offset + unat len \<le> length (mem_data mem)
      then Some (take (unat len) (drop (unat offset) (mem_data mem))) else None)"

definition evm_memory_store8_unsafe :: "evm_memory_t \<Rightarrow> u64 \<Rightarrow> u8 \<Rightarrow> evm_memory_t option" where
  "evm_memory_store8_unsafe mem offset b =
     (if unat offset < length (mem_data mem)
      then Some (mem\<lparr>mem_data := (mem_data mem)[unat offset := b]\<rparr>) else None)"

definition evm_memory_store32_unsafe :: "evm_memory_t \<Rightarrow> u64 \<Rightarrow> uint256_t \<Rightarrow> evm_memory_t option" where
  "evm_memory_store32_unsafe mem offset x = evm_memory_store_unsafe mem offset (uint256_to_bytes_be x)"

definition evm_memory_load32_unsafe :: "evm_memory_t \<Rightarrow> u64 \<Rightarrow> uint256_t option" where
  "evm_memory_load32_unsafe mem offset =
     map_option uint256_from_bytes_be (evm_memory_load_unsafe mem offset 32)"

text \<open>The bytes \<open>evm_memory_ptr_unsafe\<close> points to, as far as its caller reads them.\<close>

definition evm_memory_ptr_unsafe :: "evm_memory_t \<Rightarrow> u64 \<Rightarrow> u64 \<Rightarrow> u8 list option" where
  "evm_memory_ptr_unsafe mem offset len = evm_memory_load_unsafe mem offset len"

definition evm_memory_copy_unsafe :: "evm_memory_t \<Rightarrow> u64 \<Rightarrow> u64 \<Rightarrow> u64 \<Rightarrow> evm_memory_t option" where
  "evm_memory_copy_unsafe mem dest src len =
     do { d \<leftarrow> evm_memory_load_unsafe mem src len; evm_memory_store_unsafe mem dest d }"

text \<open>
  The pool: a counter of the memories in use; the memories themselves belong to the frames that
  borrowed them.
\<close>

definition EVM_MAX_CALL_DEPTH :: nat where "EVM_MAX_CALL_DEPTH = 1024"

definition evm_memory_pool_borrow :: "nat \<Rightarrow> evm_memory_t option \<times> nat" where
  "evm_memory_pool_borrow depth =
     (if depth \<ge> EVM_MAX_CALL_DEPTH then (None, depth) else (Some evm_memory_init, depth + 1))"

definition evm_memory_pool_return :: "nat \<Rightarrow> nat" where
  "evm_memory_pool_return depth = (if depth > 0 then depth - 1 else depth)"


section \<open>The cost of memory\<close>

text \<open>The cost of \<open>a\<close> words, in the Yellow Paper.\<close>

definition memory_cost :: "nat \<Rightarrow> nat" where
  "memory_cost a = 3 * a + a ^ 2 div 512"

lemma memory_cost_mono: "a \<le> b \<Longrightarrow> memory_cost a \<le> memory_cost b"
  unfolding memory_cost_def by (intro add_mono mult_le_mono2 div_le_mono power_mono) simp_all

lemma unat_memory_cost:
  assumes "unat w < 2 ^ 32"
  shows "unat (3 * w + (w * w) div 512 :: u64) = memory_cost (unat w)"
proof -
  have sq: "unat w * unat w < 2 ^ 64"
    using mult_strict_mono [OF assms assms] by simp
  then have "unat (w * w) = unat w * unat w" by (simp add: unat_word_ariths)
  then have "unat ((w * w) div 512) = unat w * unat w div 512" by (simp add: unat_div)
  moreover have "unat (3 * w) = 3 * unat w" using assms by (simp add: unat_word_ariths)
  moreover have "3 * unat w + unat w * unat w div 512 < 2 ^ 64" using assms sq by simp
  ultimately show ?thesis by (simp add: memory_cost_def power2_eq_square unat_word_ariths(1))
qed

lemma expansion_cost_exact:
  assumes "unat a < 2 ^ 32" "unat b < 2 ^ 32"
  shows "unat (evm_memory_expansion_cost a b) = memory_cost (unat b) - memory_cost (unat a)"
proof (cases "b \<le> a")
  case True
  then show ?thesis using memory_cost_mono [of "unat b" "unat a"]
    by (simp add: evm_memory_expansion_cost_def word_le_nat_alt)
next
  case False
  then have "memory_cost (unat a) \<le> memory_cost (unat b)" by (intro memory_cost_mono) (simp add: word_le_nat_alt)
  then show ?thesis
    using False unat_memory_cost [OF assms(1)] unat_memory_cost [OF assms(2)]
    by (simp add: evm_memory_expansion_cost_def Let_def unat_sub_if' word_le_nat_alt)
qed


section \<open>Expansion\<close>

text \<open>The size is a multiple of 32 within the capacity, the capacity a power of two of the growth loop.\<close>

definition mem_wf :: "evm_memory_t \<Rightarrow> bool" where
  "mem_wf mem \<longleftrightarrow> 32 dvd length (mem_data mem) \<and> length (mem_data mem) \<le> unat (mem_capacity mem) \<and>
     (mem_capacity mem = 0 \<or> (\<exists>k. 10 \<le> k \<and> k \<le> 16 \<and> mem_capacity mem = 2 ^ k))"

lemma unat_pow2_u64: "k < 64 \<Longrightarrow> unat (2 ^ k :: u64) = 2 ^ k"
proof -
  assume "k < 64"
  then have "(2::nat) ^ k < 2 ^ 64" by (rule power_strict_increasing) simp
  moreover have "unat (of_nat (2 ^ k) :: u64) = 2 ^ k mod 2 ^ 64"
    by (simp add: unat_of_nat del: of_nat_power)
  ultimately show ?thesis by simp
qed

lemma grow_capacity_pow2:
  assumes "k \<le> m" "m < 64" "unat n \<le> 2 ^ m"
  shows "\<exists>j. k \<le> j \<and> j \<le> m \<and> grow_capacity (2 ^ k) n = Some (2 ^ j) \<and> unat n \<le> 2 ^ j"
  using assms
proof (induction "m - k" arbitrary: k)
  case 0
  then have "k = m" by simp
  with 0 show ?case by (auto simp: grow_capacity_step word_less_nat_alt unat_pow2_u64)
next
  case (Suc d)
  show ?case
  proof (cases "2 ^ k < n")
    case True
    have "\<exists>j. Suc k \<le> j \<and> j \<le> m \<and> grow_capacity (2 ^ Suc k) n = Some (2 ^ j) \<and> unat n \<le> 2 ^ j"
      using Suc.hyps(2) Suc.prems by (intro Suc.hyps(1)) simp_all
    then show ?thesis using True by (auto simp: grow_capacity_step [of "2 ^ k"] mult.commute intro: Suc_leD)
  next
    case False
    then show ?thesis using Suc.prems by (auto simp: grow_capacity_step word_less_nat_alt unat_pow2_u64 not_less)
  qed
qed

lemma unat_round_up_32:
  "unat n + 31 < 2 ^ 64 \<Longrightarrow> unat (round_up_32 n) = round_up 5 (unat n)"
  using unat_align_up [of n 5] by (simp add: round_up_32_def mask_eq_exp_minus_1)

lemma mem_size_small: "mem_wf mem \<Longrightarrow> unat (evm_memory_size mem) = length (mem_data mem) \<and> length (mem_data mem) \<le> 65536"
proof -
  assume wf: "mem_wf mem"
  have "unat (mem_capacity mem) \<le> 2 ^ 16"
    using wf power_increasing [of _ 16 "2::nat"] by (auto simp: mem_wf_def unat_pow2_u64)
  then have "length (mem_data mem) \<le> 65536" using wf by (simp add: mem_wf_def)
  then show ?thesis by (simp add: evm_memory_size_def unat_of_nat)
qed

text \<open>The memory after a successful expansion: cleared bytes up to the rounded end.\<close>

definition expanded :: "evm_memory_t \<Rightarrow> nat \<Rightarrow> u8 list" where
  "expanded mem end = mem_data mem @ replicate (round_up 5 end - length (mem_data mem)) 0"

lemma start_capacity:
  assumes "mem_wf mem"
  obtains k where "10 \<le> k" "k \<le> 16"
    "(if mem_capacity mem = 0 then EVM_MEMORY_INITIAL_CAPACITY else mem_capacity mem) = 2 ^ k"
proof (cases "mem_capacity mem = 0")
  case True
  then show ?thesis by (intro that [of 10]) (simp_all add: EVM_MEMORY_INITIAL_CAPACITY_def)
next
  case False
  then show ?thesis using assms that by (auto simp: mem_wf_def)
qed

lemma alloc_too_large:
  assumes "sz > 65536"
  shows "div0_arena_alloc arena sz = (None, arena)"
proof -
  have p: "(7 :: u64) = mask 3" by (simp add: mask_eq_exp_minus_1)
  have "(sz + 7) AND NOT 7 > 65536" if "\<not> sz > NOT 0 - 7"
  proof -
    have "unat sz \<le> 2 ^ 64 - 8" using that by (simp add: word_less_nat_alt not_less)
    then have "unat ((sz + 7) AND NOT 7) = round_up 3 (unat sz)"
      unfolding p by (intro unat_align_up) simp
    moreover have "unat sz > 65536" using assms by (simp add: word_less_nat_alt)
    ultimately have "unat ((sz + 7) AND NOT 7) > 65536" using round_up_bounds(1) [of "unat sz" 3] by linarith
    then show ?thesis by (simp add: word_less_nat_alt)
  qed
  then show ?thesis
    by (auto simp: div0_arena_alloc_def div0_arena_alloc_aligned_def DIV0_ARENA_ALIGNMENT_def DIV0_ARENA_BLOCK_SIZE_def Let_def)
qed


text \<open>The five ranges of the end of the region.\<close>

lemma unat_u64_less: "unat x < 18446744073709551616" for x :: u64
  using unsigned_less [of x] by simp

lemma unat_max_minus: "unat (- 1 - x) = 2 ^ 64 - 1 - unat x" for x :: u64
  using unat_u64_less [of x]
  by (simp add: unat_sub_if' unsigned_minus_1_eq_mask mask_eq_exp_minus_1 word_le_nat_alt)

lemma expand_no_overflow:
  fixes sz offset :: u64
  assumes "sz \<noteq> 0" "unat offset + unat sz < 2 ^ 64"
  shows "\<not> offset > NOT 0 - sz" "unat (offset + sz) = unat offset + unat sz"
proof -
  show "\<not> offset > NOT 0 - sz" using assms by (simp add: word_less_nat_alt unat_max_minus)
  show "unat (offset + sz) = unat offset + unat sz" using assms(2) by (simp add: unat_word_ariths)
qed

lemma expand_overflow:
  assumes "sz \<noteq> 0" "unat offset + unat sz \<ge> 2 ^ 64"
  shows "evm_memory_expand mem arena offset sz g = Some (False, g, mem, arena)"
proof -
  have "offset > NOT 0 - sz" using assms unat_u64_less [of offset] unat_u64_less [of sz]
    by (simp add: word_less_nat_alt unat_max_minus)
  then show ?thesis using assms(1) by (simp add: evm_memory_expand_def)
qed

lemma expand_wrapped:
  assumes "sz \<noteq> 0" "2 ^ 64 - 32 < unat offset + unat sz" "unat offset + unat sz < 2 ^ 64"
  shows "evm_memory_expand mem arena offset sz g = Some (True, 0, mem, arena)"
proof -
  note no = expand_no_overflow [OF assms(1,3)]
  have "round_up_32 (offset + sz) = 0"
  proof -
    have "unat (offset + sz + 31) = unat offset + unat sz + 31 - 2 ^ 64"
      using no(2) assms(2,3) by (simp add: unat_word_ariths(1) [of "offset + sz"] mod_if)
    then have "unat (offset + sz + 31) div 2 ^ 5 = 0" using assms(2,3) by simp
    then have "unat (round_up_32 (offset + sz)) = 0"
      using unat_and_not_mask [of "offset + sz + 31" 5] by (simp add: round_up_32_def mask_eq_exp_minus_1)
    then show ?thesis by (simp add: unat_eq_zero)
  qed
  then show ?thesis using no(1) assms(1) by (simp add: evm_memory_expand_def Let_def evm_memory_expansion_cost_def)
qed

lemma expand_beyond:
  assumes wf: "mem_wf mem" and sz: "sz \<noteq> 0" and e: "65536 < unat offset + unat sz" "unat offset + unat sz \<le> 2 ^ 64 - 32"
  shows "evm_memory_expand mem arena offset sz g =
    (if unat offset + unat sz \<le> 2 ^ 63
     then Some (False, evm_memory_expansion_cost (evm_memory_size mem div 32) (round_up_32 (offset + sz) div 32), mem, arena)
     else None)"
proof -
  let ?n = "round_up_32 (offset + sz)"
  have lt: "unat offset + unat sz < 2 ^ 64" using e(2) by simp
  note no = expand_no_overflow [OF sz lt]
  have n: "unat ?n = round_up 5 (unat offset + unat sz)"
    using unat_round_up_32 [of "offset + sz"] no(2) e(2) by simp
  have big: "unat ?n > 65536" using n round_up_bounds(1) [of "unat offset + unat sz" 5] e(1) by simp
  have cap: "unat (mem_capacity mem) \<le> 65536"
    using wf power_increasing [of _ 16 "2::nat"] by (auto simp: mem_wf_def unat_pow2_u64)
  have size: "\<not> ?n \<le> evm_memory_size mem" "?n > mem_capacity mem"
    using mem_size_small [OF wf] big cap by (auto simp: word_le_nat_alt word_less_nat_alt)
  obtain k where k: "10 \<le> k" "k \<le> 16"
    "(if mem_capacity mem = 0 then EVM_MEMORY_INITIAL_CAPACITY else mem_capacity mem) = 2 ^ k"
    by (rule start_capacity [OF wf])
  show ?thesis
  proof (cases "unat offset + unat sz \<le> 2 ^ 63")
    case True
    then have "unat ?n \<le> 2 ^ 63" unfolding n by (intro round_up_le) simp_all
    then obtain j where j: "grow_capacity (2 ^ k) ?n = Some (2 ^ j)" "unat ?n \<le> 2 ^ j" "j \<le> 63"
      using grow_capacity_pow2 [of k 63 ?n] k by auto
    have "unat (2 ^ j :: u64) > 65536" using j big unat_pow2_u64 [of j] by simp
    then have "(2 ^ j :: u64) > 65536" by (simp add: word_less_nat_alt)
    then show ?thesis
      using True no(1) sz size j(1) k(3) alloc_too_large [of "2 ^ j" arena] by (simp add: evm_memory_expand_def Let_def)
  next
    case False
    then have "2 ^ 63 < ?n" using n round_up_bounds(1) [of "unat offset + unat sz" 5]
      by (simp add: word_less_nat_alt)
    then have "grow_capacity (2 ^ k) ?n = None" using k(2)
      by (intro grow_capacity_diverges disjI2 exI [of _ k]) simp_all
    then show ?thesis using False no(1) sz size k(3) by (simp add: evm_memory_expand_def Let_def)
  qed
qed


lemma replicate_round: "32 dvd length xs \<Longrightarrow> 32 dvd length (xs @ replicate (round_up 5 e - length xs) 0)"
  using round_up_bounds(3) [of 5 e] by (cases "length xs \<le> round_up 5 e") (auto simp: dvd_add)

lemma expand_inside:
  assumes wf: "mem_wf mem" and sz: "sz \<noteq> 0" and e: "unat offset + unat sz \<le> 65536"
  shows "\<exists>ok cost mem' arena'. evm_memory_expand mem arena offset sz g = Some (ok, cost, mem', arena') \<and>
    unat cost = memory_cost (round_up 5 (unat offset + unat sz) div 32) - memory_cost (length (mem_data mem) div 32) \<and>
    mem_wf mem' \<and> mem_data mem' = (if ok then expanded mem (unat offset + unat sz) else mem_data mem) \<and>
    (\<not> ok \<longrightarrow> arena_exhausted arena)"
proof -
  let ?e = "unat offset + unat sz" and ?n = "round_up_32 (offset + sz)"
  have lt: "?e < 2 ^ 64" using e by simp
  note no = expand_no_overflow [OF sz lt]
  have n: "unat ?n = round_up 5 ?e" using unat_round_up_32 [of "offset + sz"] no(2) e by simp
  have small: "round_up 5 ?e \<le> 65536" using e by (intro round_up_le) simp_all
  have size: "unat (evm_memory_size mem) = length (mem_data mem)" "length (mem_data mem) \<le> 65536"
    using mem_size_small [OF wf] by auto
  let ?cost = "evm_memory_expansion_cost (evm_memory_size mem div 32) (?n div 32)"
  have cost: "unat ?cost = memory_cost (round_up 5 ?e div 32) - memory_cost (length (mem_data mem) div 32)"
    using n small size by (subst expansion_cost_exact) (simp_all add: unat_div)
  let ?data = "mem_data mem @ replicate (unat ?n - length (mem_data mem)) 0"
  have data: "32 dvd length ?data" "?data = expanded mem ?e"
    using wf replicate_round [of "mem_data mem" ?e] n by (simp_all add: mem_wf_def expanded_def)
  have len: "length ?data = max (length (mem_data mem)) (unat ?n)" by simp
  obtain k where k: "10 \<le> k" "k \<le> 16"
    "(if mem_capacity mem = 0 then EVM_MEMORY_INITIAL_CAPACITY else mem_capacity mem) = 2 ^ k"
    by (rule start_capacity [OF wf])
  have "\<exists>j. k \<le> j \<and> j \<le> 16 \<and> grow_capacity (2 ^ k) ?n = Some (2 ^ j) \<and> unat ?n \<le> 2 ^ j"
    using k n small by (intro grow_capacity_pow2) simp_all
  then obtain j where j: "10 \<le> j" "j \<le> 16" "grow_capacity (2 ^ k) ?n = Some (2 ^ j)" "unat ?n \<le> 2 ^ j"
    using k(1) order_trans by blast
  consider "?n \<le> evm_memory_size mem" | "\<not> ?n \<le> evm_memory_size mem" "\<not> ?n > mem_capacity mem"
    | "\<not> ?n \<le> evm_memory_size mem" "?n > mem_capacity mem" by fastforce
  then show ?thesis
  proof cases
    case 1
    then have "expanded mem ?e = mem_data mem" using n size by (simp add: expanded_def word_le_nat_alt)
    then show ?thesis using 1 no(1) sz cost wf
      by (intro exI [of _ True]) (simp add: evm_memory_expand_def Let_def)
  next
    case 2
    have "mem_wf (mem\<lparr>mem_data := ?data\<rparr>)"
      using wf 2 data(1) len by (auto simp: mem_wf_def word_less_nat_alt)
    then show ?thesis using 2 no(1) sz cost data(2)
      by (intro exI [of _ True]) (simp add: evm_memory_expand_def Let_def)
  next
    case 3
    have "length (mem_data mem) \<le> 2 ^ j"
      using 3(1) n size j(4) by (simp add: word_le_nat_alt)
    then have w: "mem_wf (mem\<lparr>mem_data := ?data, mem_capacity := 2 ^ j\<rparr>)"
      using data(1) j len by (auto simp: mem_wf_def unat_pow2_u64)
    show ?thesis
    proof (cases "div0_arena_alloc arena (2 ^ j)")
      case (Pair r arena')
      then have "evm_memory_expand mem arena offset sz g =
        (case r of None \<Rightarrow> Some (False, ?cost, mem, arena')
         | Some _ \<Rightarrow> Some (True, ?cost, mem\<lparr>mem_data := ?data, mem_capacity := 2 ^ j\<rparr>, arena'))"
        using 3 no(1) sz j(3) k(3) by (simp add: evm_memory_expand_def Let_def)
      moreover have "(0 :: u64) < 2 ^ j \<and> (2 :: u64) ^ j \<le> 65536"
        using j(2) power_increasing [OF j(2), of "2 :: nat"] by (simp add: word_less_nat_alt word_le_nat_alt unat_pow2_u64)
      then have "r = None \<Longrightarrow> arena_exhausted arena" using Pair by (intro arena_exhaustedI) auto
      ultimately show ?thesis using cost w data(2) wf by (cases r) auto
    qed
  qed
qed


text \<open>
  C28: What evm_memory_expand does for every region, by its end.  Up to 64 KiB it charges exactly the
  difference of the memory costs and either extends the memory with zeros, or leaves it alone when
  the arena is exhausted, that is, refuses a request of at most 64 KiB; above 64 KiB it always fails; above 2^63 it does not return; in the
  last 31 positions below 2^64 it reports success without extending the memory; a wrapping end fails.
\<close>

theorem evm_memory_expand_outcome:
  assumes "mem_wf mem" "sz \<noteq> 0" "e = unat offset + unat sz"
  shows "(e \<le> 65536 \<longrightarrow>
      (\<exists>ok cost mem' arena'. evm_memory_expand mem arena offset sz g = Some (ok, cost, mem', arena') \<and>
        unat cost = memory_cost (round_up 5 e div 32) - memory_cost (length (mem_data mem) div 32) \<and>
        mem_wf mem' \<and> mem_data mem' = (if ok then expanded mem e else mem_data mem) \<and>
        (\<not> ok \<longrightarrow> arena_exhausted arena))) \<and>
    (65536 < e \<and> e \<le> 2 ^ 63 \<longrightarrow> (\<exists>cost. evm_memory_expand mem arena offset sz g = Some (False, cost, mem, arena))) \<and>
    (2 ^ 63 < e \<and> e \<le> 2 ^ 64 - 32 \<longrightarrow> evm_memory_expand mem arena offset sz g = None) \<and>
    (2 ^ 64 - 32 < e \<and> e < 2 ^ 64 \<longrightarrow> evm_memory_expand mem arena offset sz g = Some (True, 0, mem, arena)) \<and>
    (2 ^ 64 \<le> e \<longrightarrow> evm_memory_expand mem arena offset sz g = Some (False, g, mem, arena))"
  unfolding assms(3)
proof (intro conjI impI)
  note beyond = expand_beyond [OF assms(1,2), of offset arena g]
  show "\<exists>cost. evm_memory_expand mem arena offset sz g = Some (False, cost, mem, arena)"
    if "65536 < unat offset + unat sz \<and> unat offset + unat sz \<le> 2 ^ 63"
    using that beyond by auto
  show "evm_memory_expand mem arena offset sz g = None"
    if "2 ^ 63 < unat offset + unat sz \<and> unat offset + unat sz \<le> 2 ^ 64 - 32"
    using that beyond by auto
qed (use expand_inside [OF assms(1,2)] expand_wrapped [OF assms(2)] expand_overflow [OF assms(2)] in blast)+

theorem evm_memory_expand_outcome_witness:
  "mem_wf evm_memory_init \<and>
   evm_memory_expand evm_memory_init
     \<lparr>arena_blocks = [], arena_current = 0, arena_large = [], arena_heap = []\<rparr> 9223372036854775808 32 0 = None"
proof -
  have wf: "mem_wf evm_memory_init" by (simp add: mem_wf_def evm_memory_init_def)
  have "evm_memory_expand evm_memory_init
     \<lparr>arena_blocks = [], arena_current = 0, arena_large = [], arena_heap = []\<rparr> 9223372036854775808 32 0 = None"
    using evm_memory_expand_outcome [OF wf, of 32 _ 9223372036854775808] by simp
  with wf show ?thesis ..
qed


section \<open>Reading back\<close>

lemma length_memcpy: "at + length d \<le> length buf \<Longrightarrow> length (memcpy_at buf at d) = length buf"
  by (rule length_memcpy_at)

lemma memcpy_back: "at + length d \<le> length buf \<Longrightarrow> take (length d) (drop at (memcpy_at buf at d)) = d"
  by (simp add: memcpy_at_def)

lemma memcpy_other:
  "at + length d \<le> length buf \<Longrightarrow> i < at \<or> at + length d \<le> i \<Longrightarrow> i < length buf \<Longrightarrow> memcpy_at buf at d ! i = buf ! i"
  by (auto simp: memcpy_at_def nth_append)

text \<open>
  C29: A word written inside the memory is read back from the same place, the memory keeps its
  invariant and every other byte its value.
\<close>

theorem evm_memory_store_load:
  assumes "mem_wf mem" "unat offset + 32 \<le> length (mem_data mem)"
  shows "\<exists>mem'. evm_memory_store32_unsafe mem offset x = Some mem' \<and> mem_wf mem' \<and>
    evm_memory_load32_unsafe mem' offset = Some x \<and>
    (\<forall>i < length (mem_data mem). i < unat offset \<or> unat offset + 32 \<le> i \<longrightarrow> mem_data mem' ! i = mem_data mem ! i)"
proof -
  let ?d = "uint256_to_bytes_be x"
  have l: "length (memcpy_at (mem_data mem) (unat offset) ?d) = length (mem_data mem)"
    using assms(2) by (simp add: length_memcpy)
  show ?thesis
    using assms l memcpy_back [of "unat offset" ?d "mem_data mem"] memcpy_other [of "unat offset" ?d "mem_data mem"]
    by (auto simp: evm_memory_store32_unsafe_def evm_memory_store_unsafe_def evm_memory_load32_unsafe_def
      evm_memory_load_unsafe_def mem_wf_def from_to_bytes)
qed

theorem evm_memory_store_load_witness:
  "let mem = \<lparr>mem_data = replicate 64 7, mem_capacity = 1024\<rparr>
   in \<exists>mem'. evm_memory_store32_unsafe mem 5 (uint256_from_u64 9) = Some mem' \<and>
      evm_memory_load32_unsafe mem' 5 = Some (uint256_from_u64 9)"
proof -
  let ?mem = "\<lparr>mem_data = replicate 64 7, mem_capacity = 1024\<rparr>"
  have "mem_wf ?mem" by (simp add: mem_wf_def exI [of _ 10])
  moreover have "unat (5 :: u64) + 32 \<le> length (mem_data ?mem)" by simp
  ultimately show ?thesis using evm_memory_store_load [of ?mem 5 "uint256_from_u64 9"] by auto
qed

end
