(* ===== verification/Gas.thy ===== *)
theory Gas
  imports Uint256
begin

text \<open>
  Opcodes and gas: \<open>include/div0/evm/opcodes.h\<close>, \<open>gas.h\<close>, \<open>gas/static_costs.h\<close> and
  \<open>gas/dynamic_costs.h\<close>.  The families PUSH1 to PUSH32, DUP1 to DUP16, SWAP1 to SWAP16 and LOG0 to
  LOG4 are one constructor each, with their number as argument.
\<close>

section \<open>Opcodes\<close>

datatype (plugins only: ) opcode_t =
    OP_STOP | OP_ADD | OP_MUL | OP_SUB | OP_DIV | OP_SDIV | OP_MOD | OP_SMOD | OP_ADDMOD | OP_MULMOD
    | OP_EXP | OP_SIGNEXTEND | OP_LT | OP_GT | OP_SLT | OP_SGT | OP_EQ | OP_ISZERO | OP_AND | OP_OR
    | OP_XOR | OP_NOT | OP_BYTE | OP_SHL | OP_SHR | OP_SAR | OP_KECCAK256 | OP_ADDRESS | OP_BALANCE
    | OP_ORIGIN | OP_CALLER | OP_CALLVALUE | OP_CALLDATALOAD | OP_CALLDATASIZE | OP_CALLDATACOPY
    | OP_CODESIZE | OP_CODECOPY | OP_GASPRICE | OP_EXTCODESIZE | OP_EXTCODECOPY | OP_RETURNDATASIZE
    | OP_RETURNDATACOPY | OP_EXTCODEHASH | OP_BLOCKHASH | OP_COINBASE | OP_TIMESTAMP | OP_NUMBER
    | OP_PREVRANDAO | OP_GASLIMIT | OP_CHAINID | OP_SELFBALANCE | OP_BASEFEE | OP_BLOBHASH
    | OP_BLOBBASEFEE | OP_POP | OP_MLOAD | OP_MSTORE | OP_MSTORE8 | OP_SLOAD | OP_SSTORE | OP_JUMP
    | OP_JUMPI | OP_PC | OP_MSIZE | OP_GAS | OP_JUMPDEST | OP_TLOAD | OP_TSTORE | OP_MCOPY | OP_PUSH0
    | OP_CREATE | OP_CALL | OP_CALLCODE | OP_RETURN | OP_DELEGATECALL | OP_CREATE2 | OP_STATICCALL
    | OP_REVERT | OP_INVALID | OP_SELFDESTRUCT | OP_PUSH nat | OP_DUP nat | OP_SWAP nat | OP_LOG nat

primrec opcode :: "opcode_t \<Rightarrow> u8" where
  "opcode OP_STOP = 0x00"
| "opcode OP_ADD = 0x01"
| "opcode OP_MUL = 0x02"
| "opcode OP_SUB = 0x03"
| "opcode OP_DIV = 0x04"
| "opcode OP_SDIV = 0x05"
| "opcode OP_MOD = 0x06"
| "opcode OP_SMOD = 0x07"
| "opcode OP_ADDMOD = 0x08"
| "opcode OP_MULMOD = 0x09"
| "opcode OP_EXP = 0x0A"
| "opcode OP_SIGNEXTEND = 0x0B"
| "opcode OP_LT = 0x10"
| "opcode OP_GT = 0x11"
| "opcode OP_SLT = 0x12"
| "opcode OP_SGT = 0x13"
| "opcode OP_EQ = 0x14"
| "opcode OP_ISZERO = 0x15"
| "opcode OP_AND = 0x16"
| "opcode OP_OR = 0x17"
| "opcode OP_XOR = 0x18"
| "opcode OP_NOT = 0x19"
| "opcode OP_BYTE = 0x1A"
| "opcode OP_SHL = 0x1B"
| "opcode OP_SHR = 0x1C"
| "opcode OP_SAR = 0x1D"
| "opcode OP_KECCAK256 = 0x20"
| "opcode OP_ADDRESS = 0x30"
| "opcode OP_BALANCE = 0x31"
| "opcode OP_ORIGIN = 0x32"
| "opcode OP_CALLER = 0x33"
| "opcode OP_CALLVALUE = 0x34"
| "opcode OP_CALLDATALOAD = 0x35"
| "opcode OP_CALLDATASIZE = 0x36"
| "opcode OP_CALLDATACOPY = 0x37"
| "opcode OP_CODESIZE = 0x38"
| "opcode OP_CODECOPY = 0x39"
| "opcode OP_GASPRICE = 0x3A"
| "opcode OP_EXTCODESIZE = 0x3B"
| "opcode OP_EXTCODECOPY = 0x3C"
| "opcode OP_RETURNDATASIZE = 0x3D"
| "opcode OP_RETURNDATACOPY = 0x3E"
| "opcode OP_EXTCODEHASH = 0x3F"
| "opcode OP_BLOCKHASH = 0x40"
| "opcode OP_COINBASE = 0x41"
| "opcode OP_TIMESTAMP = 0x42"
| "opcode OP_NUMBER = 0x43"
| "opcode OP_PREVRANDAO = 0x44"
| "opcode OP_GASLIMIT = 0x45"
| "opcode OP_CHAINID = 0x46"
| "opcode OP_SELFBALANCE = 0x47"
| "opcode OP_BASEFEE = 0x48"
| "opcode OP_BLOBHASH = 0x49"
| "opcode OP_BLOBBASEFEE = 0x4A"
| "opcode OP_POP = 0x50"
| "opcode OP_MLOAD = 0x51"
| "opcode OP_MSTORE = 0x52"
| "opcode OP_MSTORE8 = 0x53"
| "opcode OP_SLOAD = 0x54"
| "opcode OP_SSTORE = 0x55"
| "opcode OP_JUMP = 0x56"
| "opcode OP_JUMPI = 0x57"
| "opcode OP_PC = 0x58"
| "opcode OP_MSIZE = 0x59"
| "opcode OP_GAS = 0x5A"
| "opcode OP_JUMPDEST = 0x5B"
| "opcode OP_TLOAD = 0x5C"
| "opcode OP_TSTORE = 0x5D"
| "opcode OP_MCOPY = 0x5E"
| "opcode OP_PUSH0 = 0x5F"
| "opcode OP_CREATE = 0xF0"
| "opcode OP_CALL = 0xF1"
| "opcode OP_CALLCODE = 0xF2"
| "opcode OP_RETURN = 0xF3"
| "opcode OP_DELEGATECALL = 0xF4"
| "opcode OP_CREATE2 = 0xF5"
| "opcode OP_STATICCALL = 0xFA"
| "opcode OP_REVERT = 0xFD"
| "opcode OP_INVALID = 0xFE"
| "opcode OP_SELFDESTRUCT = 0xFF"
| "opcode (OP_PUSH n) = 0x60 + of_nat n - 1"
| "opcode (OP_DUP n) = 0x80 + of_nat n - 1"
| "opcode (OP_SWAP n) = 0x90 + of_nat n - 1"
| "opcode (OP_LOG n) = 0xA0 + of_nat n"


section \<open>Constants\<close>

definition GAS_ZERO :: u64 where "GAS_ZERO = 0"

definition GAS_BASE :: u64 where "GAS_BASE = 2"

definition GAS_VERY_LOW :: u64 where "GAS_VERY_LOW = 3"

definition GAS_LOW :: u64 where "GAS_LOW = 5"

definition GAS_MID :: u64 where "GAS_MID = 8"

definition GAS_HIGH :: u64 where "GAS_HIGH = 10"

definition GAS_JUMPDEST :: u64 where "GAS_JUMPDEST = 1"

definition GAS_MEMORY :: u64 where "GAS_MEMORY = 3"

definition GAS_COPY :: u64 where "GAS_COPY = 3"

definition GAS_COLD_ACCOUNT_ACCESS :: u64 where "GAS_COLD_ACCOUNT_ACCESS = 2600"

definition GAS_WARM_ACCESS :: u64 where "GAS_WARM_ACCESS = 100"

definition GAS_CALL_STIPEND :: u64 where "GAS_CALL_STIPEND = 2300"

definition GAS_CALL_VALUE :: u64 where "GAS_CALL_VALUE = 9000"

definition GAS_NEW_ACCOUNT :: u64 where "GAS_NEW_ACCOUNT = 25000"

definition GAS_COLD_SLOAD :: u64 where "GAS_COLD_SLOAD = 2100"

definition GAS_WARM_STORAGE_READ :: u64 where "GAS_WARM_STORAGE_READ = 100"

definition GAS_SSTORE_SET :: u64 where "GAS_SSTORE_SET = 20000"

definition GAS_SSTORE_RESET :: u64 where "GAS_SSTORE_RESET = 2900"

definition GAS_SSTORE_CLEAR_REFUND :: u64 where "GAS_SSTORE_CLEAR_REFUND = 4800"

definition GAS_CREATE :: u64 where "GAS_CREATE = 32000"

definition GAS_CODE_DEPOSIT_PER_BYTE :: u64 where "GAS_CODE_DEPOSIT_PER_BYTE = 200"

definition GAS_KECCAK256_WORD :: u64 where "GAS_KECCAK256_WORD = 6"

definition GAS_TX :: u64 where "GAS_TX = 21000"

definition GAS_TX_DATA_ZERO :: u64 where "GAS_TX_DATA_ZERO = 4"

definition GAS_TX_DATA_NON_ZERO :: u64 where "GAS_TX_DATA_NON_ZERO = 16"

definition GAS_ACCESS_LIST_ADDRESS :: u64 where "GAS_ACCESS_LIST_ADDRESS = 2400"

definition GAS_ACCESS_LIST_STORAGE_KEY :: u64 where "GAS_ACCESS_LIST_STORAGE_KEY = 1900"

definition MAX_CALL_DEPTH :: nat where "MAX_CALL_DEPTH = 1024"

definition GAS_LOG :: u64 where "GAS_LOG = 375"

definition GAS_LOG_TOPIC :: u64 where "GAS_LOG_TOPIC = 375"

definition GAS_LOG_DATA :: u64 where "GAS_LOG_DATA = 8"

definition MAX_CODE_SIZE :: u64 where "MAX_CODE_SIZE = 24576"

definition MAX_INITCODE_SIZE :: u64 where "MAX_INITCODE_SIZE = 49152"

text \<open>63/64 of the gas that is left.\<close>

definition gas_cap_call :: "u64 \<Rightarrow> u64" where
  "gas_cap_call gas_left = gas_left - gas_left div 64"


section \<open>Costs of the opcodes\<close>

type_synonym gas_table_t = "u8 \<Rightarrow> u64"

definition static_costs :: "(opcode_t \<times> u64) list" where
  "static_costs =
    [(OP_ADD, 3), (OP_MUL, 5), (OP_SUB, 3), (OP_DIV, 5), (OP_SDIV, 5), (OP_MOD, 5), (OP_SMOD, 5),
     (OP_ADDMOD, 8), (OP_MULMOD, 8), (OP_SIGNEXTEND, 5), (OP_LT, 3), (OP_GT, 3), (OP_SLT, 3),
     (OP_SGT, 3), (OP_EQ, 3), (OP_ISZERO, 3), (OP_AND, 3), (OP_OR, 3), (OP_XOR, 3), (OP_NOT, 3),
     (OP_BYTE, 3), (OP_SHL, 3), (OP_SHR, 3), (OP_SAR, 3), (OP_KECCAK256, 30), (OP_MLOAD, 3),
     (OP_MSTORE, 3), (OP_MSTORE8, 3), (OP_MSIZE, 2), (OP_ADDRESS, 2), (OP_ORIGIN, 2), (OP_CALLER, 2),
     (OP_CALLVALUE, 2), (OP_CALLDATALOAD, 3), (OP_CALLDATASIZE, 2), (OP_CALLDATACOPY, 3),
     (OP_CODESIZE, 2), (OP_CODECOPY, 3), (OP_GASPRICE, 2), (OP_RETURNDATASIZE, 2),
     (OP_RETURNDATACOPY, 3), (OP_POP, 2), (OP_PC, 2), (OP_GAS, 2), (OP_JUMP, 8), (OP_JUMPI, 10),
     (OP_JUMPDEST, 1), (OP_PUSH0, 2)] @
    map (\<lambda>n. (OP_PUSH n, 3)) [1..<33] @
    map (\<lambda>n. (OP_DUP n, 3)) [1..<17] @
    map (\<lambda>n. (OP_SWAP n, 3)) [1..<17]"

definition gas_table_init_shanghai :: gas_table_t where
  "gas_table_init_shanghai = foldl (\<lambda>table (op, cost). table(opcode op := cost)) (\<lambda>_. 0) static_costs"

definition gas_table_init_cancun :: gas_table_t where
  "gas_table_init_cancun = gas_table_init_shanghai"

definition gas_table_init_prague :: gas_table_t where
  "gas_table_init_prague = gas_table_init_cancun"


section \<open>Costs of storage\<close>

definition sload_cost_shanghai :: "bool \<Rightarrow> u64" where
  "sload_cost_shanghai is_cold = (if is_cold then GAS_COLD_SLOAD else GAS_WARM_STORAGE_READ)"

definition sstore_cost_shanghai :: "bool \<Rightarrow> uint256_t \<Rightarrow> uint256_t \<Rightarrow> uint256_t \<Rightarrow> u64" where
  "sstore_cost_shanghai is_cold current_value original_value new_value =
     (let cold_cost = (if is_cold then GAS_COLD_SLOAD else 0);
          is_clean_slot = uint256_eq original_value current_value;
          is_noop = uint256_eq current_value new_value;
          base_cost =
            (if \<not> is_noop \<and> is_clean_slot
             then (if uint256_is_zero original_value then GAS_SSTORE_SET else GAS_SSTORE_RESET)
             else GAS_WARM_STORAGE_READ)
      in cold_cost + base_cost)"

text \<open>A refund is an \<open>int64_t\<close>; it stays between -4800 and 24700.\<close>

definition sstore_refund_shanghai :: "uint256_t \<Rightarrow> uint256_t \<Rightarrow> uint256_t \<Rightarrow> int" where
  "sstore_refund_shanghai current_value original_value new_value =
     (if uint256_eq current_value new_value then 0
      else
        let refund = 0;
            refund =
              (if \<not> uint256_is_zero original_value
               then (if uint256_is_zero current_value then refund - uint GAS_SSTORE_CLEAR_REFUND
                     else if uint256_is_zero new_value then refund + uint GAS_SSTORE_CLEAR_REFUND
                     else refund)
               else refund)
        in if uint256_eq original_value new_value
           then (if uint256_is_zero original_value
                 then refund + uint (GAS_SSTORE_SET - GAS_WARM_STORAGE_READ)
                 else refund + uint (GAS_SSTORE_RESET - GAS_WARM_STORAGE_READ))
           else refund)"

record gas_schedule_t =
  sload :: "bool \<Rightarrow> u64"
  sstore :: "bool \<Rightarrow> uint256_t \<Rightarrow> uint256_t \<Rightarrow> uint256_t \<Rightarrow> u64"
  sstore_refund :: "uint256_t \<Rightarrow> uint256_t \<Rightarrow> uint256_t \<Rightarrow> int"
  sstore_min_gas :: u64

definition gas_schedule_shanghai :: gas_schedule_t where
  "gas_schedule_shanghai =
     \<lparr>sload = sload_cost_shanghai, sstore = sstore_cost_shanghai,
      sstore_refund = sstore_refund_shanghai, sstore_min_gas = GAS_CALL_STIPEND\<rparr>"

definition gas_schedule_cancun :: gas_schedule_t where
  "gas_schedule_cancun = gas_schedule_shanghai"

definition gas_schedule_prague :: gas_schedule_t where
  "gas_schedule_prague = gas_schedule_cancun"


section \<open>What a sequence of stores costs\<close>

text \<open>
  The gas a slot costs beyond the price of a warm read per store, by its original and its current
  value: setting or resetting it, less the refund for clearing it.
\<close>

definition slot_price :: "uint256_t \<Rightarrow> uint256_t \<Rightarrow> int" where
  "slot_price original v =
     (if v = original then 0
      else (if uval original = 0 then 19900 else 2800) - (if uval original \<noteq> 0 \<and> uval v = 0 then 4800 else 0))"

fun net_cost :: "uint256_t \<Rightarrow> uint256_t \<Rightarrow> uint256_t list \<Rightarrow> int" where
  "net_cost original current [] = 0"
| "net_cost original current (v # vs) =
     uint (sstore_cost_shanghai False current original v) - sstore_refund_shanghai current original v +
     net_cost original v vs"

lemmas storage_gas_defs = GAS_COLD_SLOAD_def GAS_WARM_STORAGE_READ_def GAS_SSTORE_SET_def GAS_SSTORE_RESET_def
  GAS_SSTORE_CLEAR_REFUND_def

lemma store_price:
  "uint (sstore_cost_shanghai False current original v) - sstore_refund_shanghai current original v =
    100 + slot_price original v - slot_price original current"
  by (auto simp: sstore_cost_shanghai_def sstore_refund_shanghai_def slot_price_def storage_gas_defs Let_def
    uval_inject [symmetric])

text \<open>
  C30: The storage costs and refunds are path independent, as EIP-2200 and EIP-3529 intend: a sequence
  of warm stores to a slot costs 100 gas each, plus a price that depends on the original and the
  final value only.  In particular a sequence that restores the original value costs 100 each.
\<close>

theorem sstore_net_cost:
  "net_cost original original vs = 100 * int (length vs) + slot_price original (last (original # vs))"
proof -
  have "net_cost original current vs =
    100 * int (length vs) + slot_price original (last (current # vs)) - slot_price original current" for current
    by (induction vs arbitrary: current) (simp_all add: store_price)
  then show ?thesis by (simp add: slot_price_def)
qed

text \<open>The costs that keep a loop of a program from running forever.\<close>

lemma upt_1_17: "[1..<17] = [1, 2, 3, 4, 5, 6, 7, 8, 9, 10, 11, 12, 13, 14, 15, 16 :: nat]"
  by (simp add: upt_rec)

lemma upt_1_33: "[1..<33] = [1, 2, 3, 4, 5, 6, 7, 8, 9, 10, 11, 12, 13, 14, 15, 16,
    17, 18, 19, 20, 21, 22, 23, 24, 25, 26, 27, 28, 29, 30, 31, 32 :: nat]"
  by (simp add: upt_rec)

lemma jump_costs:
  "gas_table_init_shanghai (opcode OP_JUMP) = 8" "gas_table_init_shanghai (opcode OP_JUMPI) = 10"
  unfolding gas_table_init_shanghai_def static_costs_def upt_1_17 upt_1_33 by simp_all

lemma foldl_upd_notin:
  "b \<notin> set (map (\<lambda>p. opcode (fst p)) xs) \<Longrightarrow> foldl (\<lambda>table (op, cost). table(opcode op := cost)) t xs b = t b"
  by (induction xs arbitrary: t) (auto simp: case_prod_beta)

text \<open>The block opcodes are not in the table, although the comments of their handlers give them a price.\<close>

lemma block_opcodes_free:
  "op \<in> {OP_BLOCKHASH, OP_COINBASE, OP_TIMESTAMP, OP_NUMBER, OP_PREVRANDAO, OP_GASLIMIT, OP_CHAINID,
      OP_SELFBALANCE, OP_BASEFEE, OP_BLOBHASH, OP_BLOBBASEFEE} \<Longrightarrow> gas_table_init_shanghai (opcode op) = 0"
proof -
  assume op: "op \<in> {OP_BLOCKHASH, OP_COINBASE, OP_TIMESTAMP, OP_NUMBER, OP_PREVRANDAO, OP_GASLIMIT, OP_CHAINID,
      OP_SELFBALANCE, OP_BASEFEE, OP_BLOBHASH, OP_BLOBBASEFEE}"
  have "opcode op \<notin> set (map (\<lambda>p. opcode (fst p)) static_costs)"
    using op unfolding static_costs_def upt_1_17 upt_1_33 by (elim insertE emptyE; hypsubst) simp_all
  then show ?thesis by (simp only: gas_table_init_shanghai_def foldl_upd_notin not_False_eq_True)
qed

end
