(* ===== verification/Jumpdest.thy ===== *)
theory Jumpdest
  imports Gas Arena
begin

text \<open>
  Jump destination analysis, \<open>src/evm/jumpdest.h\<close>: a bitmap with one bit per byte of code, set at the
  bytes JUMPDEST that are not data of a PUSH instruction.
\<close>

unbundle bit_operations_syntax

definition jumpdest_bitmap_size :: "nat \<Rightarrow> nat" where
  "jumpdest_bitmap_size code_size = (code_size + 7) div 8"

definition jumpdest_is_valid :: "u8 list \<Rightarrow> nat \<Rightarrow> u64 \<Rightarrow> bool" where
  "jumpdest_is_valid bitmap code_size dest =
     (if unat dest \<ge> code_size then False
      else bitmap ! (unat dest div 8) AND push_bit (unat dest mod 8) 1 \<noteq> 0)"

text \<open>The scan over the code.\<close>

function jumpdest_scan :: "u8 list \<Rightarrow> nat \<Rightarrow> u8 list \<Rightarrow> u8 list" where
  "jumpdest_scan code pc bitmap =
     (if pc < length code
      then
        let op = code ! pc
        in if op = opcode OP_JUMPDEST
           then jumpdest_scan code (pc + 1)
                  (bitmap[pc div 8 := bitmap ! (pc div 8) OR push_bit (pc mod 8) 1])
           else if op \<ge> opcode (OP_PUSH 1) \<and> op \<le> opcode (OP_PUSH 32)
           then let push_size = unat op - unat (opcode (OP_PUSH 1)) + 1
                in jumpdest_scan code (pc + (1 + push_size)) bitmap
           else jumpdest_scan code (pc + 1) bitmap
      else bitmap)"
  by pat_completeness auto

termination by (relation "measure (\<lambda>(code, pc, _). length code - pc)") (auto simp: Let_def)

declare jumpdest_scan.simps [simp del]

definition jumpdest_compute_bitmap :: "u8 list \<Rightarrow> arena_t \<Rightarrow> u8 list option \<times> arena_t" where
  "jumpdest_compute_bitmap code arena =
     (if length code = 0 then (None, arena)
      else
        let bitmap_size = jumpdest_bitmap_size (length code)
        in case div0_arena_alloc arena (of_nat bitmap_size) of
             (None, arena) \<Rightarrow> (None, arena)
           | (Some _, arena) \<Rightarrow> (Some (jumpdest_scan code 0 (replicate bitmap_size 0)), arena))"


section \<open>Valid destinations\<close>

text \<open>The bytes a byte of code takes as an instruction.\<close>

definition instr_size :: "u8 \<Rightarrow> nat" where
  "instr_size op = (if 0x60 \<le> op \<and> op \<le> 0x7F then unat op - 0x5E else 1)"

text \<open>The positions of instructions from a position on.\<close>

inductive instr_at :: "u8 list \<Rightarrow> nat \<Rightarrow> nat \<Rightarrow> bool" for code where
  instr_here: "pc < length code \<Longrightarrow> instr_at code pc pc"
| instr_next: "pc < length code \<Longrightarrow> instr_at code (pc + instr_size (code ! pc)) i \<Longrightarrow> instr_at code pc i"

definition valid_destination :: "u8 list \<Rightarrow> nat \<Rightarrow> bool" where
  "valid_destination code i \<longleftrightarrow> instr_at code 0 i \<and> code ! i = 0x5B"

inductive_cases instr_atE: "instr_at code pc i"

lemma instr_at_bounds: "instr_at code pc i \<Longrightarrow> pc \<le> i \<and> i < length code"
  by (induction rule: instr_at.induct) auto

lemma instr_at_step:
  "pc < length code \<Longrightarrow> instr_at code pc i \<longleftrightarrow> i = pc \<or> instr_at code (pc + instr_size (code ! pc)) i"
  by (auto elim: instr_atE intro: instr_at.intros)

lemma instr_at_end: "\<not> pc < length code \<Longrightarrow> \<not> instr_at code pc i"
  using instr_at_bounds by fastforce

definition bitmap_bit :: "u8 list \<Rightarrow> nat \<Rightarrow> bool" where
  "bitmap_bit bitmap i \<longleftrightarrow> bit (bitmap ! (i div 8)) (i mod 8)"

lemma bitmap_bit_set:
  assumes "pc div 8 < length bitmap"
  shows "bitmap_bit (bitmap[pc div 8 := bitmap ! (pc div 8) OR 2 ^ (pc mod 8)]) i \<longleftrightarrow> bitmap_bit bitmap i \<or> i = pc"
proof -
  have "i = pc \<longleftrightarrow> i div 8 = pc div 8 \<and> i mod 8 = pc mod 8"
    by (metis div_mult_mod_eq)
  then show ?thesis using assms by (auto simp: bitmap_bit_def nth_list_update bit_simps)
qed

lemma scan_sound:
  "(length code + 7) div 8 \<le> length bitmap \<Longrightarrow>
    bitmap_bit (jumpdest_scan code pc bitmap) i \<longleftrightarrow> bitmap_bit bitmap i \<or> (instr_at code pc i \<and> code ! i = 0x5B)"
proof (induction code pc bitmap rule: jumpdest_scan.induct)
  case (1 code pc bitmap)
  show ?case
  proof (cases "pc < length code")
    case True
    have pc: "pc div 8 < length bitmap" using "1.prems" True by linarith
    consider "code ! pc = 0x5B" | "code ! pc \<noteq> 0x5B" "0x60 \<le> code ! pc \<and> code ! pc \<le> 0x7F"
      | "code ! pc \<noteq> 0x5B" "\<not> (0x60 \<le> code ! pc \<and> code ! pc \<le> 0x7F)" by blast
    then show ?thesis
    proof cases
      case 1
      then show ?thesis
        using "1.IH"(1) [OF True refl] "1.prems" True pc
        by (auto simp: jumpdest_scan.simps [of code pc] Let_def bitmap_bit_set instr_at_step instr_size_def)
    next
      case 2
      then have "instr_size (code ! pc) = 1 + (unat (code ! pc) - 96 + 1)"
        by (auto simp: instr_size_def word_le_nat_alt)
      then show ?thesis
        using "1.IH"(2) [OF True refl _ _ refl] "1.prems" True 2
        by (auto simp: jumpdest_scan.simps [of code pc] Let_def instr_at_step [OF True])
    next
      case 3
      then show ?thesis
        using "1.IH"(3) [OF True refl] "1.prems" True
        by (auto simp: jumpdest_scan.simps [of code pc] Let_def instr_at_step [OF True] instr_size_def)
    qed
  next
    case False
    then show ?thesis by (simp add: jumpdest_scan.simps [of code pc] instr_at_end)
  qed
qed

lemma is_valid_bit: "jumpdest_is_valid bitmap n dest \<longleftrightarrow> unat dest < n \<and> bitmap_bit bitmap (unat dest)"
proof -
  have "(x AND push_bit k 1 \<noteq> 0) = bit x k" if "k < 8" for x :: u8 and k
    using that by (auto simp: bit_eq_iff [where 'a = u8] bit_simps)
  then show ?thesis by (auto simp: jumpdest_is_valid_def bitmap_bit_def)
qed

lemma scan_valid:
  "jumpdest_is_valid (jumpdest_scan code 0 (replicate (jumpdest_bitmap_size (length code)) 0)) (length code) dest \<longleftrightarrow>
    valid_destination code (unat dest)"
proof -
  let ?z = "replicate (jumpdest_bitmap_size (length code)) 0"
  have z: "\<not> bitmap_bit ?z i" if "i < length code" for i
    using that by (simp add: bitmap_bit_def jumpdest_bitmap_size_def nth_replicate)
  have "bitmap_bit (jumpdest_scan code 0 ?z) i \<longleftrightarrow> bitmap_bit ?z i \<or> (instr_at code 0 i \<and> code ! i = 0x5B)" for i
    by (rule scan_sound) (simp add: jumpdest_bitmap_size_def)
  then show ?thesis using z instr_at_bounds [of code 0] by (auto simp: is_valid_bit valid_destination_def)
qed

text \<open>
  C19: Jump destination analysis.  The bitmap computed for a code accepts exactly the positions of the
  instructions JUMPDEST: bytes 0x5B that the linear sweep over the code reaches, never the data of a
  PUSH instruction.
\<close>

theorem jumpdest_analysis_correct:
  assumes "jumpdest_compute_bitmap code arena = (Some bitmap, arena')"
  shows "jumpdest_is_valid bitmap (length code) dest \<longleftrightarrow> valid_destination code (unat dest)"
  using assms scan_valid [of code dest]
  by (auto simp: jumpdest_compute_bitmap_def Let_def split: if_splits prod.splits option.splits)

theorem jumpdest_analysis_correct_witness:
  "\<exists>bitmap arena'.
     jumpdest_compute_bitmap [0x60, 0x5B, 0x5B] \<lparr>arena_blocks = [\<lparr>block_addr = 0x1000, block_offset = 0\<rparr>],
       arena_current = 0, arena_large = [], arena_heap = []\<rparr> = (Some bitmap, arena') \<and>
     jumpdest_is_valid bitmap 3 2 \<and> \<not> jumpdest_is_valid bitmap 3 1"
proof -
  let ?code = "[0x60, 0x5B, 0x5B] :: u8 list"
  let ?arena = "\<lparr>arena_blocks = [\<lparr>block_addr = 0x1000, block_offset = 0\<rparr>],
       arena_current = 0, arena_large = [], arena_heap = []\<rparr>"
  obtain bitmap arena' where r: "jumpdest_compute_bitmap ?code ?arena = (Some bitmap, arena')"
    by (simp add: jumpdest_compute_bitmap_def jumpdest_bitmap_size_def div0_arena_alloc_def div0_arena_alloc_aligned_def
      DIV0_ARENA_ALIGNMENT_def DIV0_ARENA_BLOCK_SIZE_def BLOCK_HEADER_SIZE_def block_data_def Let_def)
  have "valid_destination ?code 2" "\<not> valid_destination ?code 1"
    by (simp_all add: valid_destination_def instr_at_step instr_at_end instr_size_def)
  then show ?thesis using jumpdest_analysis_correct [OF r, of 2] jumpdest_analysis_correct [OF r, of 1] r by (auto simp: numeral_3_eq_3)
qed

end
