(* ===== verification/Call_Frame.thy ===== *)
theory Call_Frame
  imports Evm_Stack Evm_Memory Jumpdest
begin

text \<open>
  Call frames and what the interpreter passes around with them: \<open>include/div0/evm/call_frame.h\<close>,
  \<open>call_frame_pool.h\<close>, \<open>frame_result.h\<close>, \<open>status.h\<close>, \<open>log.h\<close>, \<open>log_vec.h\<close> (with \<open>src/evm/log_vec.c\<close>),
  \<open>block_context.h\<close>, \<open>tx_context.h\<close> and \<open>execution_env.h\<close>.

  The stack and the memory of a frame are null when they could not be allocated.  A pointer with a
  size is the list of the bytes.  The arena that the stack and the memory point to is a field of the
  running frame.  An operation returns \<open>None\<close> where the C code dereferences a null pointer, accesses
  a stack slot or a memory byte outside the object, or runs into a loop that does not end.
\<close>

section \<open>Statuses and results\<close>

datatype evm_status_t =
  EVM_OK | EVM_STACK_OVERFLOW | EVM_STACK_UNDERFLOW | EVM_INVALID_OPCODE | EVM_OUT_OF_GAS | EVM_INVALID_JUMP
| EVM_WRITE_PROTECTION | EVM_CALL_DEPTH_EXCEEDED | EVM_INSUFFICIENT_BALANCE | EVM_STATE_UNAVAILABLE

datatype evm_result_t = EVM_RESULT_STOP | EVM_RESULT_ERROR

datatype frame_action_t = FRAME_STOP | FRAME_RETURN | FRAME_REVERT | FRAME_CALL | FRAME_CREATE | FRAME_ERROR

record frame_result_t =
  fres_action :: frame_action_t
  fres_error :: evm_status_t
  fres_return_offset :: u64
  fres_return_size :: u64

definition frame_result_stop :: frame_result_t where
  "frame_result_stop = \<lparr>fres_action = FRAME_STOP, fres_error = EVM_OK, fres_return_offset = 0, fres_return_size = 0\<rparr>"

definition frame_result_return :: "u64 \<Rightarrow> u64 \<Rightarrow> frame_result_t" where
  "frame_result_return offset sz =
     \<lparr>fres_action = FRAME_RETURN, fres_error = EVM_OK, fres_return_offset = offset, fres_return_size = sz\<rparr>"

definition frame_result_revert :: "u64 \<Rightarrow> u64 \<Rightarrow> frame_result_t" where
  "frame_result_revert offset sz =
     \<lparr>fres_action = FRAME_REVERT, fres_error = EVM_OK, fres_return_offset = offset, fres_return_size = sz\<rparr>"

definition frame_result_call :: frame_result_t where
  "frame_result_call = \<lparr>fres_action = FRAME_CALL, fres_error = EVM_OK, fres_return_offset = 0, fres_return_size = 0\<rparr>"

definition frame_result_create :: frame_result_t where
  "frame_result_create = \<lparr>fres_action = FRAME_CREATE, fres_error = EVM_OK, fres_return_offset = 0, fres_return_size = 0\<rparr>"

definition frame_result_error :: "evm_status_t \<Rightarrow> frame_result_t" where
  "frame_result_error error =
     \<lparr>fres_action = FRAME_ERROR, fres_error = error, fres_return_offset = 0, fres_return_size = 0\<rparr>"


section \<open>Frames\<close>

datatype exec_type_t =
  EXEC_TX_START | EXEC_CALL | EXEC_STATICCALL | EXEC_DELEGATECALL | EXEC_CALLCODE | EXEC_CREATE | EXEC_CREATE2

record call_frame_t =
  fr_pc :: u64
  fr_gas :: u64
  fr_stack :: "evm_stack_t option"
  fr_memory :: "evm_memory_t option"
  fr_code :: "u8 list"
  fr_output_offset :: u64
  fr_output_size :: u32
  fr_depth :: u16
  fr_exec_type :: exec_type_t
  fr_is_static :: bool
  fr_caller :: address_t
  fr_address :: address_t
  fr_value :: uint256_t
  fr_input :: "u8 list"
  fr_jumpdest_bitmap :: "u8 list option"
  fr_code_hash :: hash_t
  fr_arena :: arena_t

definition fr_code_size :: "call_frame_t \<Rightarrow> u64" where
  "fr_code_size frame = of_nat (length (fr_code frame))"

definition fr_input_size :: "call_frame_t \<Rightarrow> u64" where
  "fr_input_size frame = of_nat (length (fr_input frame))"

definition call_frame_reset :: "call_frame_t \<Rightarrow> call_frame_t" where
  "call_frame_reset frame =
     frame\<lparr>fr_pc := 0, fr_gas := 0, fr_stack := None, fr_memory := None, fr_code := [], fr_output_offset := 0,
       fr_output_size := 0, fr_depth := 0, fr_exec_type := EXEC_TX_START, fr_is_static := False,
       fr_caller := address_zero, fr_address := address_zero, fr_value := uint256_zero, fr_input := [],
       fr_jumpdest_bitmap := None, fr_code_hash := hash_zero\<rparr>"

definition call_frame_is_static :: "call_frame_t \<Rightarrow> bool" where
  "call_frame_is_static frame = fr_is_static frame"

definition call_frame_can_transfer_value :: "call_frame_t \<Rightarrow> bool" where
  "call_frame_can_transfer_value frame =
     (case fr_exec_type frame of EXEC_TX_START \<Rightarrow> True | EXEC_CALL \<Rightarrow> True | EXEC_CALLCODE \<Rightarrow> True | _ \<Rightarrow> False)"

definition call_frame_current_opcode :: "call_frame_t \<Rightarrow> u8" where
  "call_frame_current_opcode frame =
     (if fr_pc frame \<ge> fr_code_size frame then 0x00 else fr_code frame ! unat (fr_pc frame))"

text \<open>
  The pool of frames is the number of frames in use: a frame belongs to the interpreter that rented
  it, and renting one resets whatever the slot held.
\<close>

definition call_frame_pool_rent :: "nat \<Rightarrow> call_frame_t \<Rightarrow> call_frame_t option \<times> nat" where
  "call_frame_pool_rent depth slot =
     (if depth \<ge> EVM_MAX_CALL_DEPTH then (None, depth) else (Some (call_frame_reset slot), depth + 1))"

definition call_frame_pool_return :: "nat \<Rightarrow> nat" where
  "call_frame_pool_return depth = (if depth > 0 then depth - 1 else depth)"


section \<open>Contexts\<close>

text \<open>The callback for block hashes is null or a function from numbers to hashes, where found.\<close>

record block_context_t =
  blk_number :: u64
  blk_timestamp :: u64
  blk_gas_limit :: u64
  blk_chain_id :: u64
  blk_base_fee :: uint256_t
  blk_blob_base_fee :: uint256_t
  blk_prev_randao :: uint256_t
  blk_coinbase :: address_t
  blk_get_block_hash :: "(u64 \<Rightarrow> hash_t option) option"

definition block_context_init :: block_context_t where
  "block_context_init =
     \<lparr>blk_number = 0, blk_timestamp = 0, blk_gas_limit = 0, blk_chain_id = 1, blk_base_fee = uint256_zero,
       blk_blob_base_fee = uint256_zero, blk_prev_randao = uint256_zero, blk_coinbase = address_zero,
       blk_get_block_hash = None\<rparr>"

record tx_context_t =
  txc_origin :: address_t
  txc_gas_price :: uint256_t
  txc_blob_hashes :: "hash_t list"

definition tx_context_init :: tx_context_t where
  "tx_context_init = \<lparr>txc_origin = address_zero, txc_gas_price = uint256_zero, txc_blob_hashes = []\<rparr>"

record call_params_t =
  cp_value :: uint256_t
  cp_gas :: u64
  cp_code :: "u8 list"
  cp_input :: "u8 list"
  cp_caller :: address_t
  cp_address :: address_t
  cp_is_static :: bool

definition call_params_init :: call_params_t where
  "call_params_init =
     \<lparr>cp_value = uint256_zero, cp_gas = 0, cp_code = [], cp_input = [], cp_caller = address_zero,
       cp_address = address_zero, cp_is_static = False\<rparr>"

record execution_env_t =
  env_block :: "block_context_t option"
  env_tx :: tx_context_t
  env_call :: call_params_t

definition execution_env_init :: execution_env_t where
  "execution_env_init = \<lparr>env_block = None, env_tx = tx_context_init, env_call = call_params_init\<rparr>"


section \<open>Logs\<close>

definition LOG_MAX_TOPICS :: nat where "LOG_MAX_TOPICS = 4"

text \<open>The topics are the first \<open>topic_count\<close> of the array.\<close>

record evm_log_t =
  log_address :: address_t
  log_topics :: "hash_t list"
  log_data :: "u8 list"

text \<open>\<open>sizeof (evm_log_t)\<close>: hashes are aligned to 32 bytes.\<close>

definition LOG_SIZE :: u64 where "LOG_SIZE = 192"

record evm_log_vec_t =
  logs_data :: "evm_log_t list"
  logs_capacity :: u64

definition evm_log_vec_init :: evm_log_vec_t where
  "evm_log_vec_init = \<lparr>logs_data = [], logs_capacity = 0\<rparr>"

definition evm_log_vec_reset :: "evm_log_vec_t \<Rightarrow> evm_log_vec_t" where
  "evm_log_vec_reset vec = vec\<lparr>logs_data := []\<rparr>"

definition evm_log_vec_push :: "evm_log_vec_t \<Rightarrow> arena_t \<Rightarrow> evm_log_t \<Rightarrow> bool \<times> evm_log_vec_t \<times> arena_t" where
  "evm_log_vec_push vec arena log =
     (if of_nat (length (logs_data vec)) \<ge> logs_capacity vec
      then
        let new_cap = (if logs_capacity vec = 0 then 16 else logs_capacity vec * 2)
        in case div0_arena_alloc arena (new_cap * LOG_SIZE) of
             (None, arena) \<Rightarrow> (False, vec, arena)
           | (Some _, arena) \<Rightarrow> (True, vec\<lparr>logs_data := logs_data vec @ [log], logs_capacity := new_cap\<rparr>, arena)
      else (True, vec\<lparr>logs_data := logs_data vec @ [log]\<rparr>, arena))"

definition evm_log_vec_data :: "evm_log_vec_t \<Rightarrow> evm_log_t list" where
  "evm_log_vec_data vec = logs_data vec"

definition evm_log_vec_size :: "evm_log_vec_t \<Rightarrow> u64" where
  "evm_log_vec_size vec = of_nat (length (logs_data vec))"


section \<open>The stack and the memory of a frame\<close>

definition frame_has_items :: "call_frame_t \<Rightarrow> nat \<Rightarrow> bool option" where
  "frame_has_items frame n = do { stack \<leftarrow> fr_stack frame; Some (evm_stack_has_items stack n) }"

definition frame_has_space :: "call_frame_t \<Rightarrow> nat \<Rightarrow> bool option" where
  "frame_has_space frame n = do { stack \<leftarrow> fr_stack frame; Some (evm_stack_has_space stack n) }"

definition frame_ensure_space :: "call_frame_t \<Rightarrow> nat \<Rightarrow> (bool \<times> call_frame_t) option" where
  "frame_ensure_space frame n =
     do {
       stack \<leftarrow> fr_stack frame;
       let (ok, stack, arena) = evm_stack_ensure_space stack (fr_arena frame) n
       in Some (ok, frame\<lparr>fr_stack := Some stack, fr_arena := arena\<rparr>)
     }"

definition frame_pop :: "call_frame_t \<Rightarrow> (uint256_t \<times> call_frame_t) option" where
  "frame_pop frame =
     do {
       stack \<leftarrow> fr_stack frame;
       (x, stack) \<leftarrow> evm_stack_pop_unsafe stack;
       Some (x, frame\<lparr>fr_stack := Some stack\<rparr>)
     }"

definition frame_push :: "call_frame_t \<Rightarrow> uint256_t \<Rightarrow> call_frame_t option" where
  "frame_push frame x =
     do {
       stack \<leftarrow> fr_stack frame;
       stack \<leftarrow> evm_stack_push_unsafe stack x;
       Some (frame\<lparr>fr_stack := Some stack\<rparr>)
     }"

definition frame_expand :: "call_frame_t \<Rightarrow> u64 \<Rightarrow> u64 \<Rightarrow> (bool \<times> u64 \<times> call_frame_t) option" where
  "frame_expand frame offset sz =
     do {
       mem \<leftarrow> fr_memory frame;
       (ok, cost, mem, arena) \<leftarrow> evm_memory_expand mem (fr_arena frame) offset sz 0;
       Some (ok, cost, frame\<lparr>fr_memory := Some mem, fr_arena := arena\<rparr>)
     }"

definition frame_store :: "call_frame_t \<Rightarrow> u64 \<Rightarrow> u8 list \<Rightarrow> call_frame_t option" where
  "frame_store frame offset d =
     do {
       mem \<leftarrow> fr_memory frame;
       mem \<leftarrow> evm_memory_store_unsafe mem offset d;
       Some (frame\<lparr>fr_memory := Some mem\<rparr>)
     }"

text \<open>The check for gas that every operation makes, followed by the rest of the operation.\<close>

type_synonym op_result = "(evm_status_t \<times> call_frame_t) option"

definition with_gas :: "call_frame_t \<Rightarrow> u64 \<Rightarrow> (call_frame_t \<Rightarrow> op_result) \<Rightarrow> op_result" where
  "with_gas frame gas_cost rest =
     (if fr_gas frame < gas_cost then Some (EVM_OUT_OF_GAS, frame)
      else rest (frame\<lparr>fr_gas := fr_gas frame - gas_cost\<rparr>))"

end
