(* ===== verification/Opcodes.thy ===== *)
theory Opcodes
  imports Call_Frame Mpt_Node
begin

text \<open>
  The opcodes that work on a frame alone: \<open>arithmetic.h\<close>, \<open>bitwise.h\<close>, \<open>comparison.h\<close>, \<open>stack.h\<close>,
  \<open>push.h\<close>, \<open>memory.h\<close>, \<open>keccak.h\<close> and \<open>control_flow.h\<close> of \<open>src/evm/opcodes\<close>.  The functions with the same
  body up to the operation applied share one definition with the operation as parameter.
\<close>

unbundle bit_operations_syntax

section \<open>Arithmetic, comparison and bitwise operations\<close>

definition op_unary :: "(uint256_t \<Rightarrow> uint256_t) \<Rightarrow> call_frame_t \<Rightarrow> u64 \<Rightarrow> op_result" where
  "op_unary f frame gas_cost =
     do {
       enough \<leftarrow> frame_has_items frame 1;
       if \<not> enough then Some (EVM_STACK_UNDERFLOW, frame)
       else with_gas frame gas_cost (\<lambda>frame. do {
         (a, frame) \<leftarrow> frame_pop frame;
         frame \<leftarrow> frame_push frame (f a);
         Some (EVM_OK, frame)
       })
     }"

definition op_binary :: "(uint256_t \<Rightarrow> uint256_t \<Rightarrow> uint256_t) \<Rightarrow> call_frame_t \<Rightarrow> u64 \<Rightarrow> op_result" where
  "op_binary f frame gas_cost =
     do {
       enough \<leftarrow> frame_has_items frame 2;
       if \<not> enough then Some (EVM_STACK_UNDERFLOW, frame)
       else with_gas frame gas_cost (\<lambda>frame. do {
         (a, frame) \<leftarrow> frame_pop frame;
         (b, frame) \<leftarrow> frame_pop frame;
         frame \<leftarrow> frame_push frame (f a b);
         Some (EVM_OK, frame)
       })
     }"

definition op_ternary :: "(uint256_t \<Rightarrow> uint256_t \<Rightarrow> uint256_t \<Rightarrow> uint256_t) \<Rightarrow> call_frame_t \<Rightarrow> u64 \<Rightarrow> op_result" where
  "op_ternary f frame gas_cost =
     do {
       enough \<leftarrow> frame_has_items frame 3;
       if \<not> enough then Some (EVM_STACK_UNDERFLOW, frame)
       else with_gas frame gas_cost (\<lambda>frame. do {
         (a, frame) \<leftarrow> frame_pop frame;
         (b, frame) \<leftarrow> frame_pop frame;
         (n, frame) \<leftarrow> frame_pop frame;
         frame \<leftarrow> frame_push frame (f a b n);
         Some (EVM_OK, frame)
       })
     }"

text \<open>The result of a comparison as a word.\<close>

definition truth :: "bool \<Rightarrow> uint256_t" where
  "truth b = (if b then uint256_from_u64 1 else uint256_zero)"

definition op_sub :: "call_frame_t \<Rightarrow> u64 \<Rightarrow> op_result" where "op_sub = op_binary uint256_sub"

definition op_mul :: "call_frame_t \<Rightarrow> u64 \<Rightarrow> op_result" where "op_mul = op_binary uint256_mul"

definition op_div :: "call_frame_t \<Rightarrow> u64 \<Rightarrow> op_result" where "op_div = op_binary uint256_div"

definition op_sdiv :: "call_frame_t \<Rightarrow> u64 \<Rightarrow> op_result" where "op_sdiv = op_binary uint256_sdiv"

definition op_mod :: "call_frame_t \<Rightarrow> u64 \<Rightarrow> op_result" where "op_mod = op_binary uint256_mod"

definition op_smod :: "call_frame_t \<Rightarrow> u64 \<Rightarrow> op_result" where "op_smod = op_binary uint256_smod"

definition op_signextend :: "call_frame_t \<Rightarrow> u64 \<Rightarrow> op_result" where "op_signextend = op_binary uint256_signextend"

definition op_addmod :: "call_frame_t \<Rightarrow> u64 \<Rightarrow> op_result" where "op_addmod = op_ternary uint256_addmod"

definition op_mulmod :: "call_frame_t \<Rightarrow> u64 \<Rightarrow> op_result" where "op_mulmod = op_ternary uint256_mulmod"

definition GAS_EXP_BASE :: u64 where "GAS_EXP_BASE = 10"

definition GAS_EXP_BYTE :: u64 where "GAS_EXP_BYTE = 50"

definition op_exp :: "call_frame_t \<Rightarrow> op_result" where
  "op_exp frame =
     do {
       enough \<leftarrow> frame_has_items frame 2;
       if \<not> enough then Some (EVM_STACK_UNDERFLOW, frame)
       else do {
         stack \<leftarrow> fr_stack frame;
         exponent_peek \<leftarrow> evm_stack_peek_unsafe stack 1;
         let exp_byte_len = (of_nat (uint256_byte_length exponent_peek) :: u64);
         if exp_byte_len > 0 \<and> exp_byte_len > (NOT 0 - GAS_EXP_BASE) div GAS_EXP_BYTE then Some (EVM_OUT_OF_GAS, frame)
         else with_gas frame (if exp_byte_len > 0 then GAS_EXP_BASE + GAS_EXP_BYTE * exp_byte_len else GAS_EXP_BASE)
           (\<lambda>frame. do {
             (base, frame) \<leftarrow> frame_pop frame;
             (exponent, frame) \<leftarrow> frame_pop frame;
             frame \<leftarrow> frame_push frame (uint256_exp base exponent);
             Some (EVM_OK, frame)
           })
       }
     }"

definition op_and :: "call_frame_t \<Rightarrow> u64 \<Rightarrow> op_result" where "op_and = op_binary uint256_and"

definition op_or :: "call_frame_t \<Rightarrow> u64 \<Rightarrow> op_result" where "op_or = op_binary uint256_or"

definition op_xor :: "call_frame_t \<Rightarrow> u64 \<Rightarrow> op_result" where "op_xor = op_binary uint256_xor"

definition op_not :: "call_frame_t \<Rightarrow> u64 \<Rightarrow> op_result" where "op_not = op_unary uint256_not"

definition op_byte :: "call_frame_t \<Rightarrow> u64 \<Rightarrow> op_result" where "op_byte = op_binary uint256_byte"

definition op_shl :: "call_frame_t \<Rightarrow> u64 \<Rightarrow> op_result" where "op_shl = op_binary uint256_shl"

definition op_shr :: "call_frame_t \<Rightarrow> u64 \<Rightarrow> op_result" where "op_shr = op_binary uint256_shr"

definition op_sar :: "call_frame_t \<Rightarrow> u64 \<Rightarrow> op_result" where "op_sar = op_binary uint256_sar"

definition op_lt :: "call_frame_t \<Rightarrow> u64 \<Rightarrow> op_result" where "op_lt = op_binary (\<lambda>a b. truth (uint256_lt a b))"

definition op_gt :: "call_frame_t \<Rightarrow> u64 \<Rightarrow> op_result" where "op_gt = op_binary (\<lambda>a b. truth (uint256_gt a b))"

definition op_eq :: "call_frame_t \<Rightarrow> u64 \<Rightarrow> op_result" where "op_eq = op_binary (\<lambda>a b. truth (uint256_eq a b))"

definition op_iszero :: "call_frame_t \<Rightarrow> u64 \<Rightarrow> op_result" where "op_iszero = op_unary (\<lambda>a. truth (uint256_is_zero a))"

definition op_slt :: "call_frame_t \<Rightarrow> u64 \<Rightarrow> op_result" where "op_slt = op_binary (\<lambda>a b. truth (uint256_slt a b))"

definition op_sgt :: "call_frame_t \<Rightarrow> u64 \<Rightarrow> op_result" where "op_sgt = op_binary (\<lambda>a b. truth (uint256_sgt a b))"


section \<open>Stack operations\<close>

definition op_pop :: "call_frame_t \<Rightarrow> u64 \<Rightarrow> op_result" where
  "op_pop frame gas_cost =
     do {
       enough \<leftarrow> frame_has_items frame 1;
       if \<not> enough then Some (EVM_STACK_UNDERFLOW, frame)
       else with_gas frame gas_cost (\<lambda>frame. do {
         (_, frame) \<leftarrow> frame_pop frame;
         Some (EVM_OK, frame)
       })
     }"

definition op_dup :: "call_frame_t \<Rightarrow> nat \<Rightarrow> u64 \<Rightarrow> op_result" where
  "op_dup frame depth gas_cost =
     do {
       enough \<leftarrow> frame_has_items frame depth;
       space \<leftarrow> frame_has_space frame 1;
       if \<not> enough then Some (EVM_STACK_UNDERFLOW, frame)
       else if \<not> space then Some (EVM_STACK_OVERFLOW, frame)
       else with_gas frame gas_cost (\<lambda>frame. do {
         stack \<leftarrow> fr_stack frame;
         stack \<leftarrow> evm_stack_dup_unsafe stack depth;
         Some (EVM_OK, frame\<lparr>fr_stack := Some stack\<rparr>)
       })
     }"

definition op_swap :: "call_frame_t \<Rightarrow> nat \<Rightarrow> u64 \<Rightarrow> op_result" where
  "op_swap frame depth gas_cost =
     do {
       enough \<leftarrow> frame_has_items frame (depth + 1);
       if \<not> enough then Some (EVM_STACK_UNDERFLOW, frame)
       else with_gas frame gas_cost (\<lambda>frame. do {
         stack \<leftarrow> fr_stack frame;
         stack \<leftarrow> evm_stack_swap_unsafe stack depth;
         Some (EVM_OK, frame\<lparr>fr_stack := Some stack\<rparr>)
       })
     }"

definition op_push0 :: "call_frame_t \<Rightarrow> u64 \<Rightarrow> op_result" where
  "op_push0 frame gas_cost =
     (if fr_gas frame < gas_cost then Some (EVM_OUT_OF_GAS, frame)
      else do {
        (ok, frame) \<leftarrow> frame_ensure_space frame 1;
        if \<not> ok then Some (EVM_STACK_OVERFLOW, frame)
        else do {
          frame \<leftarrow> frame_push (frame\<lparr>fr_gas := fr_gas frame - gas_cost\<rparr>) uint256_zero;
          Some (EVM_OK, frame)
        }
      })"

text \<open>The bytes of code a PUSH reads.\<close>

definition read_code :: "call_frame_t \<Rightarrow> u64 \<Rightarrow> u8 list option" where
  "read_code frame n =
     (if unat (fr_pc frame) + unat n \<le> length (fr_code frame)
      then Some (take (unat n) (drop (unat (fr_pc frame)) (fr_code frame))) else None)"

definition op_push_n :: "call_frame_t \<Rightarrow> u64 \<Rightarrow> u64 \<Rightarrow> op_result" where
  "op_push_n frame n gas_cost =
     (if fr_gas frame < gas_cost then Some (EVM_OUT_OF_GAS, frame)
      else do {
        (ok, frame) \<leftarrow> frame_ensure_space frame 1;
        if \<not> ok then Some (EVM_STACK_OVERFLOW, frame)
        else do {
          let frame = frame\<lparr>fr_gas := fr_gas frame - gas_cost\<rparr>;
          let available = fr_code_size frame - fr_pc frame;
          let to_read = (if n < available then n else available);
          bs \<leftarrow> read_code frame to_read;
          frame \<leftarrow> frame_push (frame\<lparr>fr_pc := fr_pc frame + n\<rparr>) (uint256_from_bytes_be bs);
          Some (EVM_OK, frame)
        }
      })"

text \<open>The opcodes that only push a word that depends on the frame after the charge for gas.\<close>

definition op_push_word :: "(call_frame_t \<Rightarrow> uint256_t option) \<Rightarrow> call_frame_t \<Rightarrow> u64 \<Rightarrow> op_result" where
  "op_push_word word_of frame gas_cost =
     do {
       (ok, frame) \<leftarrow> frame_ensure_space frame 1;
       if \<not> ok then Some (EVM_STACK_OVERFLOW, frame)
       else with_gas frame gas_cost (\<lambda>frame. do {
         x \<leftarrow> word_of frame;
         frame \<leftarrow> frame_push frame x;
         Some (EVM_OK, frame)
       })
     }"


section \<open>Memory operations\<close>

text \<open>The common part of MLOAD, MSTORE and MSTORE8: expansion and gas for an access of \<open>sz\<close> bytes.\<close>

definition mem_access :: "call_frame_t \<Rightarrow> uint256_t \<Rightarrow> u64 \<Rightarrow> u64 \<Rightarrow> (call_frame_t \<Rightarrow> u64 \<Rightarrow> op_result) \<Rightarrow> op_result" where
  "mem_access frame offset_u256 sz gas_cost rest =
     (if \<not> uint256_fits_u64 offset_u256 then Some (EVM_OUT_OF_GAS, frame)
      else
        let offset = uint256_to_u64_unsafe offset_u256
        in if offset > NOT 0 - sz then Some (EVM_OUT_OF_GAS, frame)
           else do {
             (ok, mem_cost, frame) \<leftarrow> frame_expand frame offset sz;
             if \<not> ok then Some (EVM_OUT_OF_GAS, frame)
             else if mem_cost > NOT 0 - gas_cost then Some (EVM_OUT_OF_GAS, frame)
             else with_gas frame (gas_cost + mem_cost) (\<lambda>frame. rest frame offset)
           })"

definition op_mload :: "call_frame_t \<Rightarrow> u64 \<Rightarrow> op_result" where
  "op_mload frame gas_cost =
     do {
       enough \<leftarrow> frame_has_items frame 1;
       if \<not> enough then Some (EVM_STACK_UNDERFLOW, frame)
       else do {
         (offset_u256, frame) \<leftarrow> frame_pop frame;
         mem_access frame offset_u256 32 gas_cost (\<lambda>frame offset. do {
           mem \<leftarrow> fr_memory frame;
           x \<leftarrow> evm_memory_load32_unsafe mem offset;
           frame \<leftarrow> frame_push frame x;
           Some (EVM_OK, frame)
         })
       }
     }"

definition op_mstore :: "call_frame_t \<Rightarrow> u64 \<Rightarrow> op_result" where
  "op_mstore frame gas_cost =
     do {
       enough \<leftarrow> frame_has_items frame 2;
       if \<not> enough then Some (EVM_STACK_UNDERFLOW, frame)
       else do {
         (offset_u256, frame) \<leftarrow> frame_pop frame;
         (x, frame) \<leftarrow> frame_pop frame;
         mem_access frame offset_u256 32 gas_cost (\<lambda>frame offset. do {
           mem \<leftarrow> fr_memory frame;
           mem \<leftarrow> evm_memory_store32_unsafe mem offset x;
           Some (EVM_OK, frame\<lparr>fr_memory := Some mem\<rparr>)
         })
       }
     }"

definition op_mstore8 :: "call_frame_t \<Rightarrow> u64 \<Rightarrow> op_result" where
  "op_mstore8 frame gas_cost =
     do {
       enough \<leftarrow> frame_has_items frame 2;
       if \<not> enough then Some (EVM_STACK_UNDERFLOW, frame)
       else do {
         (offset_u256, frame) \<leftarrow> frame_pop frame;
         (x, frame) \<leftarrow> frame_pop frame;
         mem_access frame offset_u256 1 gas_cost (\<lambda>frame offset. do {
           mem \<leftarrow> fr_memory frame;
           mem \<leftarrow> evm_memory_store8_unsafe mem offset (to_u8 (limb0 x AND 0xFF));
           Some (EVM_OK, frame\<lparr>fr_memory := Some mem\<rparr>)
         })
       }
     }"

definition op_msize :: "call_frame_t \<Rightarrow> u64 \<Rightarrow> op_result" where
  "op_msize = op_push_word (\<lambda>frame. map_option (\<lambda>mem. uint256_from_u64 (evm_memory_size mem)) (fr_memory frame))"

definition op_keccak256 :: "hash_fun \<Rightarrow> call_frame_t \<Rightarrow> u64 \<Rightarrow> op_result" where
  "op_keccak256 keccak frame gas_cost =
     do {
       enough \<leftarrow> frame_has_items frame 2;
       if \<not> enough then Some (EVM_STACK_UNDERFLOW, frame)
       else do {
         (offset_u256, frame) \<leftarrow> frame_pop frame;
         (size_u256, frame) \<leftarrow> frame_pop frame;
         if uint256_is_zero size_u256
         then with_gas frame gas_cost (\<lambda>frame. do {
           frame \<leftarrow> frame_push frame (hash_to_uint256 (keccak []));
           Some (EVM_OK, frame)
         })
         else if \<not> uint256_fits_u64 offset_u256 \<or> \<not> uint256_fits_u64 size_u256 then Some (EVM_OUT_OF_GAS, frame)
         else do {
           let offset = uint256_to_u64_unsafe offset_u256;
           let sz = uint256_to_u64_unsafe size_u256;
           if offset > NOT 0 - sz then Some (EVM_OUT_OF_GAS, frame)
           else do {
             (ok, mem_cost, frame) \<leftarrow> frame_expand frame offset sz;
             let words = (sz + 31) div 32;
             let word_cost = GAS_KECCAK256_WORD * words;
             let dynamic_cost = gas_cost + word_cost;
             if \<not> ok \<or> sz > NOT 0 - 31 \<or> words > NOT 0 div GAS_KECCAK256_WORD \<or> word_cost > NOT 0 - gas_cost \<or>
                mem_cost > NOT 0 - dynamic_cost
             then Some (EVM_OUT_OF_GAS, frame)
             else with_gas frame (dynamic_cost + mem_cost) (\<lambda>frame. do {
               mem \<leftarrow> fr_memory frame;
               data \<leftarrow> evm_memory_ptr_unsafe mem offset sz;
               frame \<leftarrow> frame_push frame (hash_to_uint256 (keccak data));
               Some (EVM_OK, frame)
             })
           }
         }
       }
     }"


section \<open>Control flow\<close>

definition op_pc :: "call_frame_t \<Rightarrow> u64 \<Rightarrow> u64 \<Rightarrow> op_result" where
  "op_pc frame pc_value gas_cost = op_push_word (\<lambda>_. Some (uint256_from_u64 pc_value)) frame gas_cost"

definition op_gas :: "call_frame_t \<Rightarrow> u64 \<Rightarrow> op_result" where
  "op_gas = op_push_word (\<lambda>frame. Some (uint256_from_u64 (fr_gas frame)))"

definition op_jumpdest :: "call_frame_t \<Rightarrow> u64 \<Rightarrow> op_result" where
  "op_jumpdest frame gas_cost = with_gas frame gas_cost (\<lambda>frame. Some (EVM_OK, frame))"

definition jump_to :: "call_frame_t \<Rightarrow> u8 list \<Rightarrow> uint256_t \<Rightarrow> op_result" where
  "jump_to frame bitmap dest_u256 =
     (if \<not> uint256_fits_u64 dest_u256 then Some (EVM_INVALID_JUMP, frame)
      else
        let dest = uint256_to_u64_unsafe dest_u256
        in if \<not> jumpdest_is_valid bitmap (length (fr_code frame)) dest then Some (EVM_INVALID_JUMP, frame)
           else Some (EVM_OK, frame\<lparr>fr_pc := dest\<rparr>))"

definition op_jump :: "call_frame_t \<Rightarrow> u8 list \<Rightarrow> u64 \<Rightarrow> op_result" where
  "op_jump frame bitmap gas_cost =
     do {
       enough \<leftarrow> frame_has_items frame 1;
       if \<not> enough then Some (EVM_STACK_UNDERFLOW, frame)
       else with_gas frame gas_cost (\<lambda>frame. do {
         (dest_u256, frame) \<leftarrow> frame_pop frame;
         jump_to frame bitmap dest_u256
       })
     }"

definition op_jumpi :: "call_frame_t \<Rightarrow> u8 list \<Rightarrow> u64 \<Rightarrow> op_result" where
  "op_jumpi frame bitmap gas_cost =
     do {
       enough \<leftarrow> frame_has_items frame 2;
       if \<not> enough then Some (EVM_STACK_UNDERFLOW, frame)
       else with_gas frame gas_cost (\<lambda>frame. do {
         (dest_u256, frame) \<leftarrow> frame_pop frame;
         (condition, frame) \<leftarrow> frame_pop frame;
         if uint256_is_zero condition then Some (EVM_OK, frame) else jump_to frame bitmap dest_u256
       })
     }"

end
