(* ===== verification/State_Access.thy ===== *)
theory State_Access
  imports Bytes
begin

text \<open>
  The interface between the EVM and the state, \<open>include/div0/state/state_access.h\<close>: a table of
  functions over a type of states, and the inline functions that call through it.  Queries are pure;
  an operation that changes the state returns the new one, or \<open>None\<close> where the implementation has no
  defined result.  The two functions of the jump destination cache are optional.
\<close>

record 's state_access_vtable_t =
  vt_account_exists :: "'s \<Rightarrow> address_t \<Rightarrow> bool"
  vt_account_is_empty :: "'s \<Rightarrow> address_t \<Rightarrow> bool"
  vt_create_contract :: "'s \<Rightarrow> address_t \<Rightarrow> 's option"
  vt_delete_account :: "'s \<Rightarrow> address_t \<Rightarrow> 's option"
  vt_get_balance :: "'s \<Rightarrow> address_t \<Rightarrow> uint256_t"
  vt_set_balance :: "'s \<Rightarrow> address_t \<Rightarrow> uint256_t \<Rightarrow> 's option"
  vt_add_balance :: "'s \<Rightarrow> address_t \<Rightarrow> uint256_t \<Rightarrow> (bool \<times> 's) option"
  vt_sub_balance :: "'s \<Rightarrow> address_t \<Rightarrow> uint256_t \<Rightarrow> (bool \<times> 's) option"
  vt_get_nonce :: "'s \<Rightarrow> address_t \<Rightarrow> u64"
  vt_set_nonce :: "'s \<Rightarrow> address_t \<Rightarrow> u64 \<Rightarrow> 's option"
  vt_increment_nonce :: "'s \<Rightarrow> address_t \<Rightarrow> (u64 \<times> 's) option"
  vt_get_code :: "'s \<Rightarrow> address_t \<Rightarrow> bytes_t"
  vt_get_code_size :: "'s \<Rightarrow> address_t \<Rightarrow> u64"
  vt_get_code_hash :: "'s \<Rightarrow> address_t \<Rightarrow> hash_t"
  vt_set_code :: "'s \<Rightarrow> address_t \<Rightarrow> u8 list \<Rightarrow> 's option"
  vt_get_storage :: "'s \<Rightarrow> address_t \<Rightarrow> uint256_t \<Rightarrow> uint256_t"
  vt_get_original_storage :: "'s \<Rightarrow> address_t \<Rightarrow> uint256_t \<Rightarrow> uint256_t"
  vt_set_storage :: "'s \<Rightarrow> address_t \<Rightarrow> uint256_t \<Rightarrow> uint256_t \<Rightarrow> 's option"
  vt_is_address_warm :: "'s \<Rightarrow> address_t \<Rightarrow> bool"
  vt_warm_address :: "'s \<Rightarrow> address_t \<Rightarrow> bool \<times> 's"
  vt_is_slot_warm :: "'s \<Rightarrow> address_t \<Rightarrow> uint256_t \<Rightarrow> bool"
  vt_warm_slot :: "'s \<Rightarrow> address_t \<Rightarrow> uint256_t \<Rightarrow> bool \<times> 's"
  vt_begin_transaction :: "'s \<Rightarrow> 's"
  vt_snapshot :: "'s \<Rightarrow> u64 \<times> 's"
  vt_revert_to_snapshot :: "'s \<Rightarrow> u64 \<Rightarrow> 's"
  vt_commit_snapshot :: "'s \<Rightarrow> u64 \<Rightarrow> 's"
  vt_state_root :: "'s \<Rightarrow> (hash_t \<times> 's) option"
  vt_get_jumpdest_analysis :: "('s \<Rightarrow> hash_t \<Rightarrow> u8 list option) option"
  vt_set_jumpdest_analysis :: "('s \<Rightarrow> hash_t \<Rightarrow> u8 list \<Rightarrow> 's) option"
  vt_destroy :: "'s \<Rightarrow> 's"

record 's state_access_t =
  sa_vtable :: "'s state_access_vtable_t"
  sa_self :: 's

text \<open>The state with the object behind it replaced.\<close>

abbreviation sa_put :: "'s state_access_t \<Rightarrow> 's \<Rightarrow> 's state_access_t" where
  "sa_put state s \<equiv> state\<lparr>sa_self := s\<rparr>"

definition state_account_exists :: "'s state_access_t \<Rightarrow> address_t \<Rightarrow> bool" where
  "state_account_exists state addr = vt_account_exists (sa_vtable state) (sa_self state) addr"

definition state_get_balance :: "'s state_access_t \<Rightarrow> address_t \<Rightarrow> uint256_t" where
  "state_get_balance state addr = vt_get_balance (sa_vtable state) (sa_self state) addr"

definition state_set_balance :: "'s state_access_t \<Rightarrow> address_t \<Rightarrow> uint256_t \<Rightarrow> 's state_access_t option" where
  "state_set_balance state addr balance =
     map_option (sa_put state) (vt_set_balance (sa_vtable state) (sa_self state) addr balance)"

definition state_get_nonce :: "'s state_access_t \<Rightarrow> address_t \<Rightarrow> u64" where
  "state_get_nonce state addr = vt_get_nonce (sa_vtable state) (sa_self state) addr"

definition state_get_storage :: "'s state_access_t \<Rightarrow> address_t \<Rightarrow> uint256_t \<Rightarrow> uint256_t" where
  "state_get_storage state addr slot = vt_get_storage (sa_vtable state) (sa_self state) addr slot"

definition state_get_original_storage :: "'s state_access_t \<Rightarrow> address_t \<Rightarrow> uint256_t \<Rightarrow> uint256_t" where
  "state_get_original_storage state addr slot =
     vt_get_original_storage (sa_vtable state) (sa_self state) addr slot"

definition state_set_storage ::
    "'s state_access_t \<Rightarrow> address_t \<Rightarrow> uint256_t \<Rightarrow> uint256_t \<Rightarrow> 's state_access_t option" where
  "state_set_storage state addr slot v =
     map_option (sa_put state) (vt_set_storage (sa_vtable state) (sa_self state) addr slot v)"

definition state_get_code :: "'s state_access_t \<Rightarrow> address_t \<Rightarrow> bytes_t" where
  "state_get_code state addr = vt_get_code (sa_vtable state) (sa_self state) addr"

definition state_get_code_hash :: "'s state_access_t \<Rightarrow> address_t \<Rightarrow> hash_t" where
  "state_get_code_hash state addr = vt_get_code_hash (sa_vtable state) (sa_self state) addr"

definition state_root :: "'s state_access_t \<Rightarrow> (hash_t \<times> 's state_access_t) option" where
  "state_root state = map_option (apsnd (sa_put state)) (vt_state_root (sa_vtable state) (sa_self state))"

definition state_warm_address :: "'s state_access_t \<Rightarrow> address_t \<Rightarrow> bool \<times> 's state_access_t" where
  "state_warm_address state addr = apsnd (sa_put state) (vt_warm_address (sa_vtable state) (sa_self state) addr)"

definition state_warm_slot :: "'s state_access_t \<Rightarrow> address_t \<Rightarrow> uint256_t \<Rightarrow> bool \<times> 's state_access_t" where
  "state_warm_slot state addr slot = apsnd (sa_put state) (vt_warm_slot (sa_vtable state) (sa_self state) addr slot)"

definition state_account_is_empty :: "'s state_access_t \<Rightarrow> address_t \<Rightarrow> bool" where
  "state_account_is_empty state addr = vt_account_is_empty (sa_vtable state) (sa_self state) addr"

definition state_create_contract :: "'s state_access_t \<Rightarrow> address_t \<Rightarrow> 's state_access_t option" where
  "state_create_contract state addr =
     map_option (sa_put state) (vt_create_contract (sa_vtable state) (sa_self state) addr)"

definition state_delete_account :: "'s state_access_t \<Rightarrow> address_t \<Rightarrow> 's state_access_t option" where
  "state_delete_account state addr =
     map_option (sa_put state) (vt_delete_account (sa_vtable state) (sa_self state) addr)"

definition state_add_balance ::
    "'s state_access_t \<Rightarrow> address_t \<Rightarrow> uint256_t \<Rightarrow> (bool \<times> 's state_access_t) option" where
  "state_add_balance state addr amount =
     map_option (apsnd (sa_put state)) (vt_add_balance (sa_vtable state) (sa_self state) addr amount)"

definition state_sub_balance ::
    "'s state_access_t \<Rightarrow> address_t \<Rightarrow> uint256_t \<Rightarrow> (bool \<times> 's state_access_t) option" where
  "state_sub_balance state addr amount =
     map_option (apsnd (sa_put state)) (vt_sub_balance (sa_vtable state) (sa_self state) addr amount)"

definition state_set_nonce :: "'s state_access_t \<Rightarrow> address_t \<Rightarrow> u64 \<Rightarrow> 's state_access_t option" where
  "state_set_nonce state addr nonce =
     map_option (sa_put state) (vt_set_nonce (sa_vtable state) (sa_self state) addr nonce)"

definition state_increment_nonce :: "'s state_access_t \<Rightarrow> address_t \<Rightarrow> (u64 \<times> 's state_access_t) option" where
  "state_increment_nonce state addr =
     map_option (apsnd (sa_put state)) (vt_increment_nonce (sa_vtable state) (sa_self state) addr)"

definition state_get_code_size :: "'s state_access_t \<Rightarrow> address_t \<Rightarrow> u64" where
  "state_get_code_size state addr = vt_get_code_size (sa_vtable state) (sa_self state) addr"

definition state_set_code :: "'s state_access_t \<Rightarrow> address_t \<Rightarrow> u8 list \<Rightarrow> 's state_access_t option" where
  "state_set_code state addr code =
     map_option (sa_put state) (vt_set_code (sa_vtable state) (sa_self state) addr code)"

definition state_is_address_warm :: "'s state_access_t \<Rightarrow> address_t \<Rightarrow> bool" where
  "state_is_address_warm state addr = vt_is_address_warm (sa_vtable state) (sa_self state) addr"

definition state_is_slot_warm :: "'s state_access_t \<Rightarrow> address_t \<Rightarrow> uint256_t \<Rightarrow> bool" where
  "state_is_slot_warm state addr slot = vt_is_slot_warm (sa_vtable state) (sa_self state) addr slot"

definition state_begin_transaction :: "'s state_access_t \<Rightarrow> 's state_access_t" where
  "state_begin_transaction state = sa_put state (vt_begin_transaction (sa_vtable state) (sa_self state))"

definition state_snapshot :: "'s state_access_t \<Rightarrow> u64 \<times> 's state_access_t" where
  "state_snapshot state = apsnd (sa_put state) (vt_snapshot (sa_vtable state) (sa_self state))"

definition state_revert_to_snapshot :: "'s state_access_t \<Rightarrow> u64 \<Rightarrow> 's state_access_t" where
  "state_revert_to_snapshot state snapshot_id =
     sa_put state (vt_revert_to_snapshot (sa_vtable state) (sa_self state) snapshot_id)"

definition state_commit_snapshot :: "'s state_access_t \<Rightarrow> u64 \<Rightarrow> 's state_access_t" where
  "state_commit_snapshot state snapshot_id =
     sa_put state (vt_commit_snapshot (sa_vtable state) (sa_self state) snapshot_id)"

definition state_destroy :: "'s state_access_t \<Rightarrow> 's state_access_t" where
  "state_destroy state = sa_put state (vt_destroy (sa_vtable state) (sa_self state))"

end
