(* ===== verification/Opcodes_Env.thy ===== *)
theory Opcodes_Env
  imports Opcodes State_Access
begin

text \<open>
  The opcodes that read the environment, use the state or emit logs: \<open>context.h\<close>, \<open>external.h\<close>,
  \<open>block.h\<close>, \<open>storage.h\<close> and \<open>logging.h\<close> of \<open>src/evm/opcodes\<close>.
\<close>

unbundle bit_operations_syntax

section \<open>Environmental information\<close>

definition op_address :: "call_frame_t \<Rightarrow> u64 \<Rightarrow> op_result" where
  "op_address = op_push_word (\<lambda>frame. Some (address_to_uint256 (fr_address frame)))"

definition op_caller :: "call_frame_t \<Rightarrow> u64 \<Rightarrow> op_result" where
  "op_caller = op_push_word (\<lambda>frame. Some (address_to_uint256 (fr_caller frame)))"

definition op_callvalue :: "call_frame_t \<Rightarrow> u64 \<Rightarrow> op_result" where
  "op_callvalue = op_push_word (\<lambda>frame. Some (fr_value frame))"

definition op_calldatasize :: "call_frame_t \<Rightarrow> u64 \<Rightarrow> op_result" where
  "op_calldatasize = op_push_word (\<lambda>frame. Some (uint256_from_u64 (fr_input_size frame)))"

definition op_codesize :: "call_frame_t \<Rightarrow> u64 \<Rightarrow> op_result" where
  "op_codesize = op_push_word (\<lambda>frame. Some (uint256_from_u64 (fr_code_size frame)))"

definition op_calldataload :: "call_frame_t \<Rightarrow> u64 \<Rightarrow> op_result" where
  "op_calldataload frame gas_cost =
     do {
       enough \<leftarrow> frame_has_items frame 1;
       if \<not> enough then Some (EVM_STACK_UNDERFLOW, frame)
       else with_gas frame gas_cost (\<lambda>frame. do {
         (offset_u256, frame) \<leftarrow> frame_pop frame;
         let offset = uint256_to_u64_unsafe offset_u256;
         if \<not> uint256_fits_u64 offset_u256 \<or> offset \<ge> fr_input_size frame
         then do { frame \<leftarrow> frame_push frame uint256_zero; Some (EVM_OK, frame) }
         else do {
           let available = fr_input_size frame - offset;
           let to_copy = (if available < 32 then available else 32);
           let buf = take (unat to_copy) (drop (unat offset) (fr_input frame)) @ replicate (32 - unat to_copy) 0;
           frame \<leftarrow> frame_push frame (uint256_from_bytes_be buf);
           Some (EVM_OK, frame)
         }
       })
     }"

text \<open>What a copy of \<open>sz\<close> bytes writes: the bytes of the source from the offset on, then zeros.\<close>

definition copy_source :: "u8 list \<Rightarrow> uint256_t \<Rightarrow> u64 \<Rightarrow> u8 list" where
  "copy_source src src_offset_u256 sz =
     (let src_size = (of_nat (length src) :: u64);
          src_offset = uint256_to_u64_unsafe src_offset_u256
      in if uint256_fits_u64 src_offset_u256 \<and> src_offset < src_size
         then
           let bytes_available = src_size - src_offset;
               bytes_to_copy = (if bytes_available < sz then bytes_available else sz)
           in take (unat bytes_to_copy) (drop (unat src_offset) src) @ replicate (unat sz - unat bytes_to_copy) 0
         else replicate (unat sz) 0)"

text \<open>
  The copy of a non-zero number of bytes into memory, with its checks and its gas; \<open>base\<close> is the
  part of the cost that does not depend on the size.
\<close>

definition copy_to_memory :: "call_frame_t \<Rightarrow> u64 \<Rightarrow> uint256_t \<Rightarrow> uint256_t \<Rightarrow> (u64 \<Rightarrow> u8 list) \<Rightarrow> op_result" where
  "copy_to_memory frame base dest_offset_u256 size_u256 source =
     (if \<not> uint256_fits_u64 size_u256 \<or> \<not> uint256_fits_u64 dest_offset_u256 then Some (EVM_OUT_OF_GAS, frame)
      else
        let sz = uint256_to_u64_unsafe size_u256; dest_offset = uint256_to_u64_unsafe dest_offset_u256
        in if dest_offset > NOT 0 - sz then Some (EVM_OUT_OF_GAS, frame)
           else do {
             (ok, mem_cost, frame) \<leftarrow> frame_expand frame dest_offset sz;
             if \<not> ok then Some (EVM_OUT_OF_GAS, frame)
             else with_gas frame (base + GAS_COPY * ((sz + 31) div 32) + mem_cost) (\<lambda>frame. do {
               frame \<leftarrow> frame_store frame dest_offset (source sz);
               Some (EVM_OK, frame)
             })
           })"

text \<open>CALLDATACOPY and CODECOPY differ in the source only.\<close>

definition op_copy :: "(call_frame_t \<Rightarrow> u8 list) \<Rightarrow> call_frame_t \<Rightarrow> u64 \<Rightarrow> op_result" where
  "op_copy source frame gas_cost =
     do {
       enough \<leftarrow> frame_has_items frame 3;
       if \<not> enough then Some (EVM_STACK_UNDERFLOW, frame)
       else do {
         (dest_offset_u256, frame) \<leftarrow> frame_pop frame;
         (src_offset_u256, frame) \<leftarrow> frame_pop frame;
         (size_u256, frame) \<leftarrow> frame_pop frame;
         if uint256_is_zero size_u256 then with_gas frame gas_cost (\<lambda>frame. Some (EVM_OK, frame))
         else copy_to_memory frame gas_cost dest_offset_u256 size_u256 (copy_source (source frame) src_offset_u256)
       }
     }"

definition op_calldatacopy :: "call_frame_t \<Rightarrow> u64 \<Rightarrow> op_result" where "op_calldatacopy = op_copy fr_input"

definition op_codecopy :: "call_frame_t \<Rightarrow> u64 \<Rightarrow> op_result" where "op_codecopy = op_copy fr_code"

definition op_returndatacopy :: "call_frame_t \<Rightarrow> u64 \<Rightarrow> u8 list \<Rightarrow> op_result" where
  "op_returndatacopy frame gas_cost return_data =
     do {
       enough \<leftarrow> frame_has_items frame 3;
       if \<not> enough then Some (EVM_STACK_UNDERFLOW, frame)
       else do {
         (dest_offset_u256, frame) \<leftarrow> frame_pop frame;
         (src_offset_u256, frame) \<leftarrow> frame_pop frame;
         (size_u256, frame) \<leftarrow> frame_pop frame;
         let return_data_size = of_nat (length return_data);
         let sz = uint256_to_u64_unsafe size_u256;
         let src_offset = uint256_to_u64_unsafe src_offset_u256;
         if uint256_is_zero size_u256 then with_gas frame gas_cost (\<lambda>frame. Some (EVM_OK, frame))
         else if \<not> uint256_fits_u64 size_u256 \<or> \<not> uint256_fits_u64 src_offset_u256 then Some (EVM_OUT_OF_GAS, frame)
         else if src_offset > return_data_size \<or> sz > return_data_size - src_offset then Some (EVM_OUT_OF_GAS, frame)
         else copy_to_memory frame gas_cost dest_offset_u256 size_u256
           (\<lambda>sz. take (unat sz) (drop (unat src_offset) return_data))
       }
     }"


section \<open>Block information\<close>

text \<open>The block context may be a null pointer.\<close>

definition op_block_word :: "(block_context_t \<Rightarrow> uint256_t) \<Rightarrow> call_frame_t \<Rightarrow> block_context_t option \<Rightarrow> u64 \<Rightarrow> op_result" where
  "op_block_word f frame block gas_cost = op_push_word (\<lambda>_. map_option f block) frame gas_cost"

definition op_coinbase :: "call_frame_t \<Rightarrow> block_context_t option \<Rightarrow> u64 \<Rightarrow> op_result" where
  "op_coinbase = op_block_word (\<lambda>block. address_to_uint256 (blk_coinbase block))"

definition op_timestamp :: "call_frame_t \<Rightarrow> block_context_t option \<Rightarrow> u64 \<Rightarrow> op_result" where
  "op_timestamp = op_block_word (\<lambda>block. uint256_from_u64 (blk_timestamp block))"

definition op_number :: "call_frame_t \<Rightarrow> block_context_t option \<Rightarrow> u64 \<Rightarrow> op_result" where
  "op_number = op_block_word (\<lambda>block. uint256_from_u64 (blk_number block))"

definition op_prevrandao :: "call_frame_t \<Rightarrow> block_context_t option \<Rightarrow> u64 \<Rightarrow> op_result" where
  "op_prevrandao = op_block_word blk_prev_randao"

definition op_gaslimit :: "call_frame_t \<Rightarrow> block_context_t option \<Rightarrow> u64 \<Rightarrow> op_result" where
  "op_gaslimit = op_block_word (\<lambda>block. uint256_from_u64 (blk_gas_limit block))"

definition op_chainid :: "call_frame_t \<Rightarrow> block_context_t option \<Rightarrow> u64 \<Rightarrow> op_result" where
  "op_chainid = op_block_word (\<lambda>block. uint256_from_u64 (blk_chain_id block))"

definition op_basefee :: "call_frame_t \<Rightarrow> block_context_t option \<Rightarrow> u64 \<Rightarrow> op_result" where
  "op_basefee = op_block_word blk_base_fee"

definition op_blobbasefee :: "call_frame_t \<Rightarrow> block_context_t option \<Rightarrow> u64 \<Rightarrow> op_result" where
  "op_blobbasefee = op_block_word blk_blob_base_fee"

definition op_blockhash :: "call_frame_t \<Rightarrow> block_context_t option \<Rightarrow> u64 \<Rightarrow> op_result" where
  "op_blockhash frame block gas_cost =
     do {
       enough \<leftarrow> frame_has_items frame 1;
       if \<not> enough then Some (EVM_STACK_UNDERFLOW, frame)
       else with_gas frame gas_cost (\<lambda>frame. do {
         (block_num_u256, frame) \<leftarrow> frame_pop frame;
         result \<leftarrow>
           (if uint256_fits_u64 block_num_u256
            then do {
              block \<leftarrow> block;
              let block_num = uint256_to_u64_unsafe block_num_u256;
              let current = blk_number block;
              let min_block = (if current \<ge> 256 then current - 256 else 0);
              Some (if block_num \<ge> min_block \<and> block_num < current
                    then (case blk_get_block_hash block of
                            None \<Rightarrow> uint256_zero
                          | Some get_block_hash \<Rightarrow>
                              (case get_block_hash block_num of
                                 None \<Rightarrow> uint256_zero
                               | Some h \<Rightarrow> uint256_from_bytes_be (take 32 h)))
                    else uint256_zero)
            }
            else Some uint256_zero);
         frame \<leftarrow> frame_push frame result;
         Some (EVM_OK, frame)
       })
     }"

definition op_selfbalance :: "call_frame_t \<Rightarrow> 's state_access_t \<Rightarrow> u64 \<Rightarrow> op_result" where
  "op_selfbalance frame state gas_cost =
     op_push_word (\<lambda>frame. Some (state_get_balance state (fr_address frame))) frame gas_cost"

definition op_blobhash :: "call_frame_t \<Rightarrow> tx_context_t \<Rightarrow> u64 \<Rightarrow> op_result" where
  "op_blobhash frame tx gas_cost =
     do {
       enough \<leftarrow> frame_has_items frame 1;
       if \<not> enough then Some (EVM_STACK_UNDERFLOW, frame)
       else with_gas frame gas_cost (\<lambda>frame. do {
         (index_u256, frame) \<leftarrow> frame_pop frame;
         let index = unat (uint256_to_u64_unsafe index_u256);
         frame \<leftarrow> frame_push frame
           (if uint256_fits_u64 index_u256 \<and> index < length (txc_blob_hashes tx)
            then uint256_from_bytes_be (take 32 (txc_blob_hashes tx ! index)) else uint256_zero);
         Some (EVM_OK, frame)
       })
     }"


section \<open>External accounts\<close>

type_synonym 's state_op_result = "(evm_status_t \<times> call_frame_t \<times> 's state_access_t) option"

text \<open>The cost of touching an account (EIP-2929).\<close>

definition access_cost :: "bool \<Rightarrow> u64" where
  "access_cost is_cold = (if is_cold then GAS_COLD_ACCOUNT_ACCESS else GAS_WARM_ACCESS)"

text \<open>BALANCE, EXTCODESIZE and EXTCODEHASH differ in the word they look up.\<close>

definition op_account_word ::
    "('s state_access_t \<Rightarrow> address_t \<Rightarrow> uint256_t) \<Rightarrow> call_frame_t \<Rightarrow> 's state_access_t \<Rightarrow> 's state_op_result" where
  "op_account_word lookup_word frame state =
     do {
       enough \<leftarrow> frame_has_items frame 1;
       if \<not> enough then Some (EVM_STACK_UNDERFLOW, frame, state)
       else do {
         (addr_u256, frame) \<leftarrow> frame_pop frame;
         let addr = address_from_uint256 addr_u256;
         let (is_cold, state) = state_warm_address state addr;
         (status, frame) \<leftarrow> with_gas frame (access_cost is_cold) (\<lambda>frame. do {
           (ok, frame) \<leftarrow> frame_ensure_space frame 1;
           if \<not> ok then Some (EVM_STACK_OVERFLOW, frame)
           else do {
             frame \<leftarrow> frame_push frame (lookup_word state addr);
             Some (EVM_OK, frame)
           }
         });
         Some (status, frame, state)
       }
     }"

definition op_balance :: "call_frame_t \<Rightarrow> 's state_access_t \<Rightarrow> 's state_op_result" where
  "op_balance = op_account_word state_get_balance"

definition op_extcodesize :: "call_frame_t \<Rightarrow> 's state_access_t \<Rightarrow> 's state_op_result" where
  "op_extcodesize = op_account_word (\<lambda>state addr. uint256_from_u64 (state_get_code_size state addr))"

definition op_extcodehash :: "call_frame_t \<Rightarrow> 's state_access_t \<Rightarrow> 's state_op_result" where
  "op_extcodehash = op_account_word (\<lambda>state addr.
     if \<not> state_account_exists state addr then uint256_zero
     else uint256_from_bytes_be (take HASH_SIZE (state_get_code_hash state addr)))"

definition op_extcodecopy :: "call_frame_t \<Rightarrow> 's state_access_t \<Rightarrow> 's state_op_result" where
  "op_extcodecopy frame state =
     do {
       enough \<leftarrow> frame_has_items frame 4;
       if \<not> enough then Some (EVM_STACK_UNDERFLOW, frame, state)
       else do {
         (addr_u256, frame) \<leftarrow> frame_pop frame;
         (dest_offset_u256, frame) \<leftarrow> frame_pop frame;
         (src_offset_u256, frame) \<leftarrow> frame_pop frame;
         (size_u256, frame) \<leftarrow> frame_pop frame;
         let addr = address_from_uint256 addr_u256;
         let (is_cold, state) = state_warm_address state addr;
         (status, frame) \<leftarrow>
           (if uint256_is_zero size_u256 then with_gas frame (access_cost is_cold) (\<lambda>frame. Some (EVM_OK, frame))
            else copy_to_memory frame (access_cost is_cold) dest_offset_u256 size_u256
              (copy_source (bytes_contents (state_get_code state addr)) src_offset_u256));
         Some (status, frame, state)
       }
     }"


section \<open>Storage\<close>

definition op_sload :: "call_frame_t \<Rightarrow> 's state_access_t \<Rightarrow> gas_schedule_t \<Rightarrow> 's state_op_result" where
  "op_sload frame state gas =
     do {
       enough \<leftarrow> frame_has_items frame 1;
       if \<not> enough then Some (EVM_STACK_UNDERFLOW, frame, state)
       else do {
         (slot, frame) \<leftarrow> frame_pop frame;
         let (is_cold, state) = state_warm_slot state (fr_address frame) slot;
         (status, frame) \<leftarrow> with_gas frame (sload gas is_cold) (\<lambda>frame. do {
           (ok, frame) \<leftarrow> frame_ensure_space frame 1;
           if \<not> ok then Some (EVM_STACK_OVERFLOW, frame)
           else do {
             frame \<leftarrow> frame_push frame (state_get_storage state (fr_address frame) slot);
             Some (EVM_OK, frame)
           }
         });
         Some (status, frame, state)
       }
     }"

text \<open>The refund counter after a signed refund, which stops at zero.\<close>

definition apply_refund :: "u64 \<Rightarrow> int \<Rightarrow> u64" where
  "apply_refund gas_refund refund =
     (if refund \<ge> 0 then gas_refund + word_of_int refund
      else
        let to_subtract = word_of_int (- refund)
        in if gas_refund \<ge> to_subtract then gas_refund - to_subtract else 0)"

definition op_sstore ::
    "call_frame_t \<Rightarrow> 's state_access_t \<Rightarrow> gas_schedule_t \<Rightarrow> u64 \<Rightarrow>
      (evm_status_t \<times> call_frame_t \<times> 's state_access_t \<times> u64) option" where
  "op_sstore frame state gas gas_refund =
     (if fr_is_static frame then Some (EVM_WRITE_PROTECTION, frame, state, gas_refund)
      else do {
        enough \<leftarrow> frame_has_items frame 2;
        if \<not> enough then Some (EVM_STACK_UNDERFLOW, frame, state, gas_refund)
        else do {
          (slot, frame) \<leftarrow> frame_pop frame;
          (new_value, frame) \<leftarrow> frame_pop frame;
          let current_value = state_get_storage state (fr_address frame) slot;
          let original_value = state_get_original_storage state (fr_address frame) slot;
          let (is_cold, state) = state_warm_slot state (fr_address frame) slot;
          let gas_cost = sstore gas is_cold current_value original_value new_value;
          if fr_gas frame \<le> sstore_min_gas gas \<or> fr_gas frame < gas_cost
          then Some (EVM_OUT_OF_GAS, frame, state, gas_refund)
          else do {
            let frame = frame\<lparr>fr_gas := fr_gas frame - gas_cost\<rparr>;
            let gas_refund = apply_refund gas_refund (sstore_refund gas current_value original_value new_value);
            state \<leftarrow> state_set_storage state (fr_address frame) slot new_value;
            Some (EVM_OK, frame, state, gas_refund)
          }
        }
      })"


section \<open>Logs\<close>

primrec pop_topics :: "nat \<Rightarrow> call_frame_t \<Rightarrow> (hash_t list \<times> call_frame_t) option" where
  "pop_topics 0 frame = Some ([], frame)"
| "pop_topics (Suc n) frame =
     do {
       (topic, frame) \<leftarrow> frame_pop frame;
       (topics, frame) \<leftarrow> pop_topics n frame;
       Some (hash_from_uint256 topic # topics, frame)
     }"

text \<open>The last part, after the charge for gas: the copy of the data and the record.\<close>

definition log_record :: "evm_log_vec_t \<Rightarrow> call_frame_t \<Rightarrow> hash_t list \<Rightarrow> u64 \<Rightarrow> u64 \<Rightarrow>
    (evm_status_t \<times> call_frame_t \<times> evm_log_vec_t) option" where
  "log_record logs frame topics offset sz =
     do {
       let (buffer, arena) = (if sz > 0 then div0_arena_alloc (fr_arena frame) sz else (Some 0, fr_arena frame));
       let frame = frame\<lparr>fr_arena := arena\<rparr>;
       if buffer = None then Some (EVM_OUT_OF_GAS, frame, logs)
       else do {
         data \<leftarrow> (if sz > 0 then do { mem \<leftarrow> fr_memory frame; evm_memory_load_unsafe mem offset sz } else Some []);
         let log = \<lparr>log_address = fr_address frame, log_topics = topics, log_data = data\<rparr>;
         let (ok, logs, arena) = evm_log_vec_push logs (fr_arena frame) log;
         Some (if ok then EVM_OK else EVM_OUT_OF_GAS, frame\<lparr>fr_arena := arena\<rparr>, logs)
       }
     }"

text \<open>The cost before memory expansion, unless it overflows.\<close>

definition log_cost :: "nat \<Rightarrow> u64 \<Rightarrow> u64 option" where
  "log_cost topic_count sz =
     (let topic_cost = of_nat topic_count * GAS_LOG_TOPIC;
          data_cost = sz * GAS_LOG_DATA;
          gas_cost = GAS_LOG + topic_cost
      in if GAS_LOG > NOT 0 - topic_cost \<or> sz > NOT 0 div GAS_LOG_DATA \<or> gas_cost > NOT 0 - data_cost
         then None else Some (gas_cost + data_cost))"

definition op_log_n :: "evm_log_vec_t \<Rightarrow> call_frame_t \<Rightarrow> nat \<Rightarrow> (evm_status_t \<times> call_frame_t \<times> evm_log_vec_t) option" where
  "op_log_n logs frame topic_count =
     do {
       enough \<leftarrow> frame_has_items frame (2 + topic_count);
       if \<not> enough then Some (EVM_STACK_UNDERFLOW, frame, logs)
       else if fr_is_static frame then Some (EVM_WRITE_PROTECTION, frame, logs)
       else do {
         (offset_u256, frame) \<leftarrow> frame_pop frame;
         (size_u256, frame) \<leftarrow> frame_pop frame;
         if \<not> uint256_fits_u64 offset_u256 \<or> \<not> uint256_fits_u64 size_u256 then Some (EVM_OUT_OF_GAS, frame, logs)
         else do {
           let offset = uint256_to_u64_unsafe offset_u256;
           let sz = uint256_to_u64_unsafe size_u256;
           (topics, frame) \<leftarrow> pop_topics topic_count frame;
           case log_cost topic_count sz of
             None \<Rightarrow> Some (EVM_OUT_OF_GAS, frame, logs)
           | Some gas_cost \<Rightarrow> do {
               (ok, mem_cost, frame) \<leftarrow> (if sz > 0 then frame_expand frame offset sz else Some (True, 0, frame));
               if \<not> ok \<or> gas_cost > NOT 0 - mem_cost \<or> fr_gas frame < gas_cost + mem_cost
               then Some (EVM_OUT_OF_GAS, frame, logs)
               else log_record logs (frame\<lparr>fr_gas := fr_gas frame - (gas_cost + mem_cost)\<rparr>) topics offset sz
             }
         }
       }
     }"

end
