(* ===== verification/Call_Op.thy ===== *)
theory Call_Op
  imports Opcodes_Env
begin

text \<open>
  The EVM object of \<open>include/div0/evm/evm.h\<close> and the CALL family of opcodes: \<open>call_op.h\<close>,
  \<open>src/evm/call_op.c\<close>, \<open>opcodes/call.h\<close> and \<open>src/evm/opcodes/call.c\<close>.  The pools of the EVM are the numbers
  of frames and memories in use; the arena belongs to the running frame while code executes and is
  kept in the EVM otherwise.  The pointer \<open>current_frame\<close> is only ever written and is left out.
\<close>

unbundle bit_operations_syntax

section \<open>The EVM object\<close>

datatype fork_t = FORK_SHANGHAI | FORK_CANCUN | FORK_PRAGUE | FORK_UNKNOWN

record 's evm_t =
  evm_fork :: fork_t
  evm_gas_table :: gas_table_t
  evm_gas_schedule :: gas_schedule_t
  evm_frame_pool :: nat
  evm_memory_pool :: nat
  evm_arena :: arena_t
  evm_pending_frame :: "call_frame_t option"
  evm_block :: "block_context_t option"
  evm_tx :: "tx_context_t option"
  evm_return_data :: "u8 list"
  evm_return_data_capacity :: u64
  evm_state :: "'s state_access_t option"
  evm_gas_refund :: u64
  evm_logs :: evm_log_vec_t


section \<open>Preparing a call\<close>

record call_setup_t =
  cs_status :: evm_status_t
  cs_target :: address_t
  cs_value :: uint256_t
  cs_child_gas :: u64
  cs_args_offset :: u64
  cs_args_size :: u64
  cs_ret_offset :: u64
  cs_ret_size :: u64

definition call_setup_empty :: call_setup_t where
  "call_setup_empty =
     \<lparr>cs_status = EVM_OK, cs_target = address_zero, cs_value = uint256_zero, cs_child_gas = 0,
       cs_args_offset = 0, cs_args_size = 0, cs_ret_offset = 0, cs_ret_size = 0\<rparr>"

definition call_child_gas :: "u64 \<Rightarrow> u64 \<Rightarrow> u64" where
  "call_child_gas gas_left requested =
     (let max_child = gas_cap_call gas_left in if requested < max_child then requested else max_child)"

text \<open>The result is false on overflow; the second component is the out parameter \<open>gas_cost\<close>.\<close>

definition call_memory_cost :: "evm_memory_t \<Rightarrow> u64 \<Rightarrow> u64 \<Rightarrow> u64 \<Rightarrow> u64 \<Rightarrow> bool \<times> u64" where
  "call_memory_cost mem args_offset args_size ret_offset ret_size =
     (if args_size > 0 \<and> args_offset > NOT 0 - args_size then (False, 0)
      else
        let args_end = (if args_size > 0 then args_offset + args_size else 0)
        in if ret_size > 0 \<and> ret_offset > NOT 0 - ret_size then (False, 0)
           else
             let ret_end = (if ret_size > 0 then ret_offset + ret_size else 0);
                 max_end = (if ret_end > args_end then ret_end else args_end)
             in if max_end = 0 then (True, 0)
                else (True, evm_memory_expansion_cost (evm_memory_size mem div 32) ((max_end + 31) div 32)))"

record call_stack_args_t =
  ca_requested_gas :: uint256_t
  ca_addr :: uint256_t
  ca_value :: uint256_t
  ca_args_offset :: uint256_t
  ca_args_size :: uint256_t
  ca_ret_offset :: uint256_t
  ca_ret_size :: uint256_t

definition pop_call_args :: "call_frame_t \<Rightarrow> (call_stack_args_t \<times> call_frame_t) option" where
  "pop_call_args frame =
     do {
       (requested_gas, frame) \<leftarrow> frame_pop frame;
       (addr, frame) \<leftarrow> frame_pop frame;
       (x, frame) \<leftarrow> frame_pop frame;
       (args_offset, frame) \<leftarrow> frame_pop frame;
       (args_size, frame) \<leftarrow> frame_pop frame;
       (ret_offset, frame) \<leftarrow> frame_pop frame;
       (ret_size, frame) \<leftarrow> frame_pop frame;
       Some (\<lparr>ca_requested_gas = requested_gas, ca_addr = addr, ca_value = x, ca_args_offset = args_offset,
         ca_args_size = args_size, ca_ret_offset = ret_offset, ca_ret_size = ret_size\<rparr>, frame)
     }"

definition pop_call_args_no_value :: "call_frame_t \<Rightarrow> (call_stack_args_t \<times> call_frame_t) option" where
  "pop_call_args_no_value frame =
     do {
       (requested_gas, frame) \<leftarrow> frame_pop frame;
       (addr, frame) \<leftarrow> frame_pop frame;
       (args_offset, frame) \<leftarrow> frame_pop frame;
       (args_size, frame) \<leftarrow> frame_pop frame;
       (ret_offset, frame) \<leftarrow> frame_pop frame;
       (ret_size, frame) \<leftarrow> frame_pop frame;
       Some (\<lparr>ca_requested_gas = requested_gas, ca_addr = addr, ca_value = uint256_zero, ca_args_offset = args_offset,
         ca_args_size = args_size, ca_ret_offset = ret_offset, ca_ret_size = ret_size\<rparr>, frame)
     }"

definition validate_memory_args :: "call_stack_args_t \<Rightarrow> call_setup_t \<Rightarrow> bool \<times> call_setup_t" where
  "validate_memory_args args result =
     (if \<not> uint256_fits_u64 (ca_args_offset args) \<or> \<not> uint256_fits_u64 (ca_args_size args) \<or>
         \<not> uint256_fits_u64 (ca_ret_offset args) \<or> \<not> uint256_fits_u64 (ca_ret_size args)
      then (False, result)
      else (True, result\<lparr>cs_args_offset := uint256_to_u64_unsafe (ca_args_offset args),
        cs_args_size := uint256_to_u64_unsafe (ca_args_size args),
        cs_ret_offset := uint256_to_u64_unsafe (ca_ret_offset args),
        cs_ret_size := uint256_to_u64_unsafe (ca_ret_size args)\<rparr>))"

text \<open>The result is false when gas runs out; the second component is the gas for the child.\<close>

definition calculate_call_gas ::
    "call_frame_t \<Rightarrow> call_setup_t \<Rightarrow> call_stack_args_t \<Rightarrow> 's state_access_t \<Rightarrow> bool \<Rightarrow> bool \<Rightarrow>
      (bool \<times> u64 \<times> call_frame_t \<times> 's state_access_t) option" where
  "calculate_call_gas frame setup args state transfers_value is_new_account =
     do {
       let (was_cold, state) = state_warm_address state (cs_target setup);
       let call_gas_cost = (if was_cold then GAS_COLD_ACCOUNT_ACCESS else GAS_WARM_ACCESS);
       let call_gas_cost = call_gas_cost + (if transfers_value
             then GAS_CALL_VALUE + (if is_new_account then GAS_NEW_ACCOUNT else 0) else 0);
       mem \<leftarrow> fr_memory frame;
       let (ok, mem_cost) = call_memory_cost mem (cs_args_offset setup) (cs_args_size setup)
             (cs_ret_offset setup) (cs_ret_size setup);
       let call_gas_cost = call_gas_cost + mem_cost;
       if \<not> ok \<or> fr_gas frame < call_gas_cost then Some (False, 0, frame, state)
       else do {
         let parent_gas = fr_gas frame - call_gas_cost;
         let requested_gas = (if uint256_fits_u64 (ca_requested_gas args)
               then uint256_to_u64_unsafe (ca_requested_gas args) else NOT 0);
         let child_gas = call_child_gas parent_gas requested_gas + (if transfers_value then GAS_CALL_STIPEND else 0);
         let gas_to_deduct = child_gas - (if transfers_value then GAS_CALL_STIPEND else 0);
         let gas_to_deduct = (if gas_to_deduct > parent_gas then parent_gas else gas_to_deduct);
         Some (True, child_gas, frame\<lparr>fr_gas := parent_gas - gas_to_deduct\<rparr>, state)
       }
     }"

definition expand_call_memory :: "call_frame_t \<Rightarrow> call_setup_t \<Rightarrow> call_frame_t option" where
  "expand_call_memory frame setup =
     do {
       let args_end = (if cs_args_size setup > 0 then cs_args_offset setup + cs_args_size setup else 0);
       let ret_end = (if cs_ret_size setup > 0 then cs_ret_offset setup + cs_ret_size setup else 0);
       let max_end = (if ret_end > args_end then ret_end else args_end);
       mem \<leftarrow> fr_memory frame;
       if max_end > evm_memory_size mem
       then do { (_, _, frame) \<leftarrow> frame_expand frame 0 max_end; Some frame }
       else Some frame
     }"

text \<open>
  The last steps of every preparation: the address, the gas and the memory.  The new account charge
  depends on the state, for CALL only.
\<close>

definition prepare_target ::
    "call_frame_t \<Rightarrow> 's state_access_t \<Rightarrow> call_stack_args_t \<Rightarrow> call_setup_t \<Rightarrow> bool \<Rightarrow> bool \<Rightarrow>
      (call_setup_t \<times> call_frame_t \<times> 's state_access_t) option" where
  "prepare_target frame state args result transfers_value charges_new_account =
     do {
       let result = result\<lparr>cs_target := address_from_uint256 (ca_addr args)\<rparr>;
       let is_new_account = (charges_new_account \<and> transfers_value \<and> state_account_is_empty state (cs_target result));
       (ok, child_gas, frame, state) \<leftarrow> calculate_call_gas frame result args state transfers_value is_new_account;
       if \<not> ok then Some (result\<lparr>cs_status := EVM_OUT_OF_GAS\<rparr>, frame, state)
       else do {
         let result = result\<lparr>cs_child_gas := child_gas\<rparr>;
         frame \<leftarrow> expand_call_memory frame result;
         Some (result, frame, state)
       }
     }"

text \<open>CALL and CALLCODE take a value; CALLCODE never charges for a new account.\<close>

definition prepare_with_value ::
    "bool \<Rightarrow> call_frame_t \<Rightarrow> 's state_access_t \<Rightarrow> (call_setup_t \<times> call_frame_t \<times> 's state_access_t) option" where
  "prepare_with_value charges_new_account frame state =
     do {
       enough \<leftarrow> frame_has_items frame 7;
       if \<not> enough then Some (call_setup_empty\<lparr>cs_status := EVM_STACK_UNDERFLOW\<rparr>, frame, state)
       else do {
         (args, frame) \<leftarrow> pop_call_args frame;
         if unat (fr_depth frame) \<ge> MAX_CALL_DEPTH
         then Some (call_setup_empty\<lparr>cs_status := EVM_CALL_DEPTH_EXCEEDED\<rparr>, frame, state)
         else do {
           let (ok, result) = validate_memory_args args (call_setup_empty\<lparr>cs_value := ca_value args\<rparr>);
           let transfers_value = (\<not> uint256_is_zero (cs_value result));
           if \<not> ok then Some (result\<lparr>cs_status := EVM_OUT_OF_GAS\<rparr>, frame, state)
           else if fr_is_static frame \<and> transfers_value
           then Some (result\<lparr>cs_status := EVM_WRITE_PROTECTION\<rparr>, frame, state)
           else prepare_target frame state args result transfers_value charges_new_account
         }
       }
     }"

definition prepare_without_value ::
    "call_frame_t \<Rightarrow> 's state_access_t \<Rightarrow> (call_setup_t \<times> call_frame_t \<times> 's state_access_t) option" where
  "prepare_without_value frame state =
     do {
       enough \<leftarrow> frame_has_items frame 6;
       if \<not> enough then Some (call_setup_empty\<lparr>cs_status := EVM_STACK_UNDERFLOW\<rparr>, frame, state)
       else do {
         (args, frame) \<leftarrow> pop_call_args_no_value frame;
         if unat (fr_depth frame) \<ge> MAX_CALL_DEPTH
         then Some (call_setup_empty\<lparr>cs_status := EVM_CALL_DEPTH_EXCEEDED\<rparr>, frame, state)
         else do {
           let (ok, result) = validate_memory_args args call_setup_empty;
           if \<not> ok then Some (result\<lparr>cs_status := EVM_OUT_OF_GAS\<rparr>, frame, state)
           else prepare_target frame state args result False False
         }
       }
     }"

definition prepare_call ::
    "call_frame_t \<Rightarrow> 's state_access_t \<Rightarrow> (call_setup_t \<times> call_frame_t \<times> 's state_access_t) option" where
  "prepare_call = prepare_with_value True"

definition prepare_callcode ::
    "call_frame_t \<Rightarrow> 's state_access_t \<Rightarrow> (call_setup_t \<times> call_frame_t \<times> 's state_access_t) option" where
  "prepare_callcode = prepare_with_value False"

definition prepare_staticcall ::
    "call_frame_t \<Rightarrow> 's state_access_t \<Rightarrow> (call_setup_t \<times> call_frame_t \<times> 's state_access_t) option" where
  "prepare_staticcall = prepare_without_value"

definition prepare_delegatecall ::
    "call_frame_t \<Rightarrow> 's state_access_t \<Rightarrow> (call_setup_t \<times> call_frame_t \<times> 's state_access_t) option" where
  "prepare_delegatecall = prepare_without_value"


section \<open>Child frames\<close>

record call_op_result_t =
  cor_should_call :: bool
  cor_has_error :: bool
  cor_error :: evm_status_t

definition call_op_continue :: call_op_result_t where
  "call_op_continue = \<lparr>cor_should_call = False, cor_has_error = False, cor_error = EVM_OK\<rparr>"

definition call_op_call :: call_op_result_t where
  "call_op_call = \<lparr>cor_should_call = True, cor_has_error = False, cor_error = EVM_OK\<rparr>"

definition call_op_error :: "evm_status_t \<Rightarrow> call_op_result_t" where
  "call_op_error err = \<lparr>cor_should_call = False, cor_has_error = True, cor_error = err\<rparr>"

record child_frame_params_t =
  cfp_exec_type :: exec_type_t
  cfp_is_static :: bool
  cfp_caller :: address_t
  cfp_address :: address_t
  cfp_value :: uint256_t

text \<open>
  The slot of the pool is overwritten, so what it held does not matter; the child works in the arena
  of the parent.
\<close>

definition init_child_frame ::
    "'s evm_t \<Rightarrow> call_frame_t \<Rightarrow> call_setup_t \<Rightarrow> u8 list \<Rightarrow> child_frame_params_t \<Rightarrow>
      (call_frame_t option \<times> 's evm_t \<times> call_frame_t) option" where
  "init_child_frame evm parent setup code params =
     (case call_frame_pool_rent (evm_frame_pool evm) parent of
        (None, _) \<Rightarrow> Some (None, evm, parent)
      | (Some child, frame_pool) \<Rightarrow> do {
          let (stack, arena) = evm_stack_pool_borrow (fr_arena parent);
          let (memory, memory_pool) = evm_memory_pool_borrow (evm_memory_pool evm);
          input \<leftarrow> (if cs_args_size setup > 0
            then do { mem \<leftarrow> fr_memory parent; evm_memory_ptr_unsafe mem (cs_args_offset setup) (cs_args_size setup) }
            else Some []);
          let child = child\<lparr>fr_pc := 0, fr_gas := cs_child_gas setup, fr_stack := stack, fr_memory := memory,
                fr_code := code, fr_output_offset := cs_ret_offset setup, fr_output_size := ucast (cs_ret_size setup),
                fr_depth := fr_depth parent + 1, fr_input := input, fr_exec_type := cfp_exec_type params,
                fr_is_static := cfp_is_static params, fr_caller := cfp_caller params, fr_address := cfp_address params,
                fr_value := cfp_value params, fr_jumpdest_bitmap := None, fr_code_hash := hash_zero, fr_arena := arena\<rparr>;
          Some (Some child, evm\<lparr>evm_frame_pool := frame_pool, evm_memory_pool := memory_pool\<rparr>,
            parent\<lparr>fr_output_offset := cs_ret_offset setup, fr_output_size := ucast (cs_ret_size setup), fr_arena := arena\<rparr>)
        })"

text \<open>A failed call: push zero and go on.\<close>

definition call_failed ::
    "'s evm_t \<Rightarrow> call_frame_t \<Rightarrow> (call_op_result_t \<times> 's evm_t \<times> call_frame_t) option" where
  "call_failed evm frame =
     do { frame \<leftarrow> frame_push frame uint256_zero; Some (call_op_continue, evm, frame) }"

text \<open>The last steps of every call opcode: fetch the code, build the frame, leave it pending.\<close>

definition enter_call ::
    "'s evm_t \<Rightarrow> 's state_access_t \<Rightarrow> call_frame_t \<Rightarrow> call_setup_t \<Rightarrow> child_frame_params_t \<Rightarrow>
      (call_op_result_t \<times> 's evm_t \<times> call_frame_t) option" where
  "enter_call evm state frame setup params =
     do {
       let code = bytes_contents (state_get_code state (cs_target setup));
       (child, evm, frame) \<leftarrow> init_child_frame (evm\<lparr>evm_state := Some state\<rparr>) frame setup code params;
       case child of
         None \<Rightarrow> call_failed evm frame
       | Some child \<Rightarrow> Some (call_op_call, evm\<lparr>evm_pending_frame := Some child\<rparr>, frame)
     }"

definition op_call :: "'s evm_t \<Rightarrow> call_frame_t \<Rightarrow> (call_op_result_t \<times> 's evm_t \<times> call_frame_t) option" where
  "op_call evm frame =
     (case evm_state evm of
        None \<Rightarrow> Some (call_op_error EVM_INVALID_OPCODE, evm, frame)
      | Some state \<Rightarrow> do {
          (setup, frame, state) \<leftarrow> prepare_call frame state;
          let evm = evm\<lparr>evm_state := Some state\<rparr>;
          if cs_status setup = EVM_CALL_DEPTH_EXCEEDED then call_failed evm frame
          else if cs_status setup \<noteq> EVM_OK then Some (call_op_error (cs_status setup), evm, frame)
          else if \<not> uint256_is_zero (cs_value setup) \<and> uint256_lt (state_get_balance state (fr_address frame)) (cs_value setup)
          then call_failed evm frame
          else do {
            state \<leftarrow> (if uint256_is_zero (cs_value setup) then Some state
              else do {
                (_, state) \<leftarrow> state_sub_balance state (fr_address frame) (cs_value setup);
                (_, state) \<leftarrow> state_add_balance state (cs_target setup) (cs_value setup);
                Some state
              });
            enter_call evm state frame setup
              \<lparr>cfp_exec_type = EXEC_CALL, cfp_is_static = fr_is_static frame, cfp_caller = fr_address frame,
                cfp_address = cs_target setup, cfp_value = cs_value setup\<rparr>
          }
        })"

definition op_staticcall :: "'s evm_t \<Rightarrow> call_frame_t \<Rightarrow> (call_op_result_t \<times> 's evm_t \<times> call_frame_t) option" where
  "op_staticcall evm frame =
     (case evm_state evm of
        None \<Rightarrow> Some (call_op_error EVM_INVALID_OPCODE, evm, frame)
      | Some state \<Rightarrow> do {
          (setup, frame, state) \<leftarrow> prepare_staticcall frame state;
          let evm = evm\<lparr>evm_state := Some state\<rparr>;
          if cs_status setup = EVM_CALL_DEPTH_EXCEEDED then call_failed evm frame
          else if cs_status setup \<noteq> EVM_OK then Some (call_op_error (cs_status setup), evm, frame)
          else enter_call evm state frame setup
            \<lparr>cfp_exec_type = EXEC_STATICCALL, cfp_is_static = True, cfp_caller = fr_address frame,
              cfp_address = cs_target setup, cfp_value = uint256_zero\<rparr>
        })"

definition op_delegatecall :: "'s evm_t \<Rightarrow> call_frame_t \<Rightarrow> (call_op_result_t \<times> 's evm_t \<times> call_frame_t) option" where
  "op_delegatecall evm frame =
     (case evm_state evm of
        None \<Rightarrow> Some (call_op_error EVM_INVALID_OPCODE, evm, frame)
      | Some state \<Rightarrow> do {
          (setup, frame, state) \<leftarrow> prepare_delegatecall frame state;
          let evm = evm\<lparr>evm_state := Some state\<rparr>;
          if cs_status setup = EVM_CALL_DEPTH_EXCEEDED then call_failed evm frame
          else if cs_status setup \<noteq> EVM_OK then Some (call_op_error (cs_status setup), evm, frame)
          else enter_call evm state frame setup
            \<lparr>cfp_exec_type = EXEC_DELEGATECALL, cfp_is_static = fr_is_static frame, cfp_caller = fr_caller frame,
              cfp_address = fr_address frame, cfp_value = fr_value frame\<rparr>
        })"

definition op_callcode :: "'s evm_t \<Rightarrow> call_frame_t \<Rightarrow> (call_op_result_t \<times> 's evm_t \<times> call_frame_t) option" where
  "op_callcode evm frame =
     (case evm_state evm of
        None \<Rightarrow> Some (call_op_error EVM_INVALID_OPCODE, evm, frame)
      | Some state \<Rightarrow> do {
          (setup, frame, state) \<leftarrow> prepare_callcode frame state;
          let evm = evm\<lparr>evm_state := Some state\<rparr>;
          if cs_status setup = EVM_CALL_DEPTH_EXCEEDED then call_failed evm frame
          else if cs_status setup \<noteq> EVM_OK then Some (call_op_error (cs_status setup), evm, frame)
          else if \<not> uint256_is_zero (cs_value setup) \<and> uint256_lt (state_get_balance state (fr_address frame)) (cs_value setup)
          then call_failed evm frame
          else enter_call evm state frame setup
            \<lparr>cfp_exec_type = EXEC_CALLCODE, cfp_is_static = fr_is_static frame, cfp_caller = fr_address frame,
              cfp_address = fr_address frame, cfp_value = cs_value setup\<rparr>
        })"

end
