(* ===== verification/Evm.thy ===== *)
theory Evm
  imports Call_Op
begin

text \<open>
  The interpreter, \<open>src/evm/evm.c\<close>: initialisation, the dispatch of opcodes to their handlers, the
  execution of one frame and the main loop over nested frames.  A handler either goes on to the next
  opcode or ends the execution of the frame with a result.
\<close>

unbundle bit_operations_syntax

section \<open>Initialisation\<close>

definition evm_init :: "arena_t \<Rightarrow> fork_t \<Rightarrow> 's evm_t" where
  "evm_init arena fork =
     \<lparr>evm_fork = fork,
       evm_gas_table = (case fork of FORK_SHANGHAI \<Rightarrow> gas_table_init_shanghai | FORK_CANCUN \<Rightarrow> gas_table_init_cancun
         | FORK_PRAGUE \<Rightarrow> gas_table_init_prague | FORK_UNKNOWN \<Rightarrow> gas_table_init_prague),
       evm_gas_schedule = (case fork of FORK_SHANGHAI \<Rightarrow> gas_schedule_shanghai | FORK_CANCUN \<Rightarrow> gas_schedule_cancun
         | FORK_PRAGUE \<Rightarrow> gas_schedule_prague | FORK_UNKNOWN \<Rightarrow> gas_schedule_prague),
       evm_frame_pool = 0, evm_memory_pool = 0, evm_arena = arena, evm_pending_frame = None, evm_block = None,
       evm_tx = None, evm_return_data = [], evm_return_data_capacity = 0, evm_state = None, evm_gas_refund = 0,
       evm_logs = evm_log_vec_init\<rparr>"

definition evm_reset :: "'s evm_t \<Rightarrow> 's evm_t" where
  "evm_reset evm =
     evm\<lparr>evm_frame_pool := 0, evm_memory_pool := 0, evm_return_data := [], evm_pending_frame := None,
       evm_gas_refund := 0, evm_logs := evm_log_vec_reset (evm_logs evm)\<rparr>"

definition evm_set_block_context :: "'s evm_t \<Rightarrow> block_context_t option \<Rightarrow> 's evm_t" where
  "evm_set_block_context evm block = evm\<lparr>evm_block := block\<rparr>"

definition evm_set_tx_context :: "'s evm_t \<Rightarrow> tx_context_t option \<Rightarrow> 's evm_t" where
  "evm_set_tx_context evm tx = evm\<lparr>evm_tx := tx\<rparr>"

definition evm_set_state :: "'s evm_t \<Rightarrow> 's state_access_t option \<Rightarrow> 's evm_t" where
  "evm_set_state evm state = evm\<lparr>evm_state := state\<rparr>"

text \<open>The frame takes over the arena of the EVM.\<close>

definition init_root_frame :: "'s evm_t \<Rightarrow> call_frame_t \<Rightarrow> execution_env_t \<Rightarrow> 's evm_t \<times> call_frame_t" where
  "init_root_frame evm frame env =
     (let (stack, arena) = evm_stack_pool_borrow (evm_arena evm);
          (memory, memory_pool) = evm_memory_pool_borrow (evm_memory_pool evm);
          call = env_call env
      in (evm\<lparr>evm_memory_pool := memory_pool\<rparr>,
          frame\<lparr>fr_pc := 0, fr_gas := cp_gas call, fr_stack := stack, fr_memory := memory, fr_code := cp_code call,
            fr_output_offset := 0, fr_output_size := 0, fr_depth := 0, fr_exec_type := EXEC_TX_START,
            fr_is_static := cp_is_static call, fr_caller := cp_caller call, fr_address := cp_address call,
            fr_value := cp_value call, fr_input := cp_input call, fr_jumpdest_bitmap := None, fr_code_hash := hash_zero,
            fr_arena := arena\<rparr>))"

partial_function (option) return_capacity :: "u64 \<Rightarrow> u64 \<Rightarrow> u64 option" where
  "return_capacity new_capacity sz =
     (if new_capacity < sz
      then if new_capacity > NOT 0 div 2 then Some sz else return_capacity (new_capacity * 2) sz
      else Some new_capacity)"

declare return_capacity.simps [code]

text \<open>The buffer for return data is the list of the bytes in use and a capacity.\<close>

definition copy_return_data :: "'s evm_t \<Rightarrow> call_frame_t \<Rightarrow> u64 \<Rightarrow> u64 \<Rightarrow> ('s evm_t \<times> call_frame_t) option" where
  "copy_return_data evm frame offset sz =
     (if sz = 0 then Some (evm\<lparr>evm_return_data := []\<rparr>, frame)
      else do {
        mem \<leftarrow> fr_memory frame;
        (evm, frame) \<leftarrow>
          (if sz > evm_return_data_capacity evm
           then do {
             new_capacity \<leftarrow> return_capacity 256 sz;
             (case div0_arena_alloc (fr_arena frame) new_capacity of
                (None, _) \<Rightarrow> None
              | (Some _, arena) \<Rightarrow> Some (evm\<lparr>evm_return_data_capacity := new_capacity\<rparr>, frame\<lparr>fr_arena := arena\<rparr>))
           }
           else Some (evm, frame));
        d \<leftarrow> evm_memory_load_unsafe mem offset sz;
        Some (evm\<lparr>evm_return_data := d\<rparr>, frame)
      })"

definition get_jumpdest_bitmap :: "'s evm_t \<Rightarrow> call_frame_t \<Rightarrow> u8 list option \<times> 's evm_t \<times> call_frame_t" where
  "get_jumpdest_bitmap evm frame =
     (case fr_jumpdest_bitmap frame of
        Some bitmap \<Rightarrow> (Some bitmap, evm, frame)
      | None \<Rightarrow>
          (case (case evm_state evm of
                   None \<Rightarrow> None
                 | Some state \<Rightarrow>
                     (case vt_get_jumpdest_analysis (sa_vtable state) of
                        None \<Rightarrow> None
                      | Some get \<Rightarrow>
                          if hash_is_zero (fr_code_hash frame) then None else get (sa_self state) (fr_code_hash frame))) of
             Some cached \<Rightarrow> (Some cached, evm, frame\<lparr>fr_jumpdest_bitmap := Some cached\<rparr>)
           | None \<Rightarrow>
               let (bitmap, arena) = jumpdest_compute_bitmap (fr_code frame) (fr_arena frame);
                   frame = frame\<lparr>fr_jumpdest_bitmap := bitmap, fr_arena := arena\<rparr>;
                   evm = (case (bitmap, evm_state evm) of
                            (Some bm, Some state) \<Rightarrow>
                              (case vt_set_jumpdest_analysis (sa_vtable state) of
                                 None \<Rightarrow> evm
                               | Some set_cache \<Rightarrow>
                                   if hash_is_zero (fr_code_hash frame) then evm
                                   else evm\<lparr>evm_state :=
                                     Some (sa_put state (set_cache (sa_self state) (fr_code_hash frame) bm))\<rparr>)
                          | _ \<Rightarrow> evm)
               in (bitmap, evm, frame)))"


section \<open>Handlers\<close>

datatype 's step_t = Next "'s evm_t" call_frame_t | Done frame_result_t "'s evm_t" call_frame_t

type_synonym 's handler = "'s evm_t \<Rightarrow> call_frame_t \<Rightarrow> 's step_t option"

text \<open>What follows every call of an opcode function: an error ends the frame.\<close>

definition after_op :: "'s evm_t \<Rightarrow> evm_status_t \<Rightarrow> call_frame_t \<Rightarrow> 's step_t" where
  "after_op evm status frame =
     (if status \<noteq> EVM_OK then Done (frame_result_error status) evm frame else Next evm frame)"

text \<open>A handler that calls \<open>f (frame, evm->gas_table[op])\<close>.\<close>

definition frame_handler :: "(call_frame_t \<Rightarrow> u64 \<Rightarrow> op_result) \<Rightarrow> opcode_t \<Rightarrow> 's handler" where
  "frame_handler f op evm frame =
     do { (status, frame) \<leftarrow> f frame (evm_gas_table evm (opcode op)); Some (after_op evm status frame) }"

definition handle_stop :: "'s handler" where
  "handle_stop evm frame = Some (Done frame_result_stop evm frame)"

definition handle_invalid :: "'s handler" where
  "handle_invalid evm frame = Some (Done (frame_result_error EVM_INVALID_OPCODE) evm frame)"

text \<open>ADD is written out in the interpreter.\<close>

definition handle_add :: "'s handler" where
  "handle_add evm frame =
     do {
       enough \<leftarrow> frame_has_items frame 2;
       if \<not> enough then Some (Done (frame_result_error EVM_STACK_UNDERFLOW) evm frame)
       else do {
         (a, frame) \<leftarrow> frame_pop frame;
         (b, frame) \<leftarrow> frame_pop frame;
         frame \<leftarrow> frame_push frame (uint256_add a b);
         Some (Next evm frame)
       }
     }"

definition handle_exp :: "'s handler" where
  "handle_exp evm frame = do { (status, frame) \<leftarrow> op_exp frame; Some (after_op evm status frame) }"

definition arithmetic_handlers :: "(opcode_t \<times> 's handler) list" where
  "arithmetic_handlers =
     [(OP_STOP, handle_stop), (OP_ADD, handle_add), (OP_MUL, frame_handler op_mul OP_MUL),
      (OP_SUB, frame_handler op_sub OP_SUB), (OP_DIV, frame_handler op_div OP_DIV),
      (OP_SDIV, frame_handler op_sdiv OP_SDIV), (OP_MOD, frame_handler op_mod OP_MOD),
      (OP_SMOD, frame_handler op_smod OP_SMOD), (OP_ADDMOD, frame_handler op_addmod OP_ADDMOD),
      (OP_MULMOD, frame_handler op_mulmod OP_MULMOD), (OP_EXP, handle_exp),
      (OP_SIGNEXTEND, frame_handler op_signextend OP_SIGNEXTEND)]"

definition logic_handlers :: "(opcode_t \<times> 's handler) list" where
  "logic_handlers =
     [(OP_LT, frame_handler op_lt OP_LT), (OP_GT, frame_handler op_gt OP_GT), (OP_SLT, frame_handler op_slt OP_SLT),
      (OP_SGT, frame_handler op_sgt OP_SGT), (OP_EQ, frame_handler op_eq OP_EQ),
      (OP_ISZERO, frame_handler op_iszero OP_ISZERO), (OP_AND, frame_handler op_and OP_AND),
      (OP_OR, frame_handler op_or OP_OR), (OP_XOR, frame_handler op_xor OP_XOR), (OP_NOT, frame_handler op_not OP_NOT),
      (OP_BYTE, frame_handler op_byte OP_BYTE), (OP_SHL, frame_handler op_shl OP_SHL),
      (OP_SHR, frame_handler op_shr OP_SHR), (OP_SAR, frame_handler op_sar OP_SAR)]"

definition push_handlers :: "(opcode_t \<times> 's handler) list" where
  "push_handlers =
     (OP_PUSH0, frame_handler op_push0 OP_PUSH0) #
     map (\<lambda>n. (OP_PUSH n, frame_handler (\<lambda>frame. op_push_n frame (of_nat n)) (OP_PUSH n))) [1..<33]"

text \<open>Handlers that need the state; without one they fail with the given status.\<close>

definition state_handler :: "evm_status_t \<Rightarrow> (call_frame_t \<Rightarrow> 's state_access_t \<Rightarrow> 's state_op_result) \<Rightarrow> 's handler" where
  "state_handler unavailable f evm frame =
     (case evm_state evm of
        None \<Rightarrow> Some (Done (frame_result_error unavailable) evm frame)
      | Some state \<Rightarrow> do {
          (status, frame, state) \<leftarrow> f frame state;
          Some (after_op (evm\<lparr>evm_state := Some state\<rparr>) status frame)
        })"

definition handle_origin :: "'s handler" where
  "handle_origin evm = frame_handler (op_push_word (\<lambda>_. map_option (\<lambda>tx. address_to_uint256 (txc_origin tx)) (evm_tx evm)))
     OP_ORIGIN evm"

definition handle_gasprice :: "'s handler" where
  "handle_gasprice evm = frame_handler (op_push_word (\<lambda>_. map_option txc_gas_price (evm_tx evm))) OP_GASPRICE evm"

definition handle_returndatasize :: "'s handler" where
  "handle_returndatasize evm =
     frame_handler (op_push_word (\<lambda>_. Some (uint256_from_u64 (of_nat (length (evm_return_data evm)))))) OP_RETURNDATASIZE evm"

definition handle_returndatacopy :: "'s handler" where
  "handle_returndatacopy evm =
     frame_handler (\<lambda>frame gas_cost. op_returndatacopy frame gas_cost (evm_return_data evm)) OP_RETURNDATACOPY evm"

definition context_handlers :: "(opcode_t \<times> 's handler) list" where
  "context_handlers =
     [(OP_ADDRESS, frame_handler op_address OP_ADDRESS), (OP_BALANCE, state_handler EVM_STATE_UNAVAILABLE op_balance),
      (OP_ORIGIN, handle_origin), (OP_CALLER, frame_handler op_caller OP_CALLER),
      (OP_CALLVALUE, frame_handler op_callvalue OP_CALLVALUE),
      (OP_CALLDATALOAD, frame_handler op_calldataload OP_CALLDATALOAD),
      (OP_CALLDATASIZE, frame_handler op_calldatasize OP_CALLDATASIZE),
      (OP_CALLDATACOPY, frame_handler op_calldatacopy OP_CALLDATACOPY),
      (OP_CODESIZE, frame_handler op_codesize OP_CODESIZE), (OP_CODECOPY, frame_handler op_codecopy OP_CODECOPY),
      (OP_EXTCODESIZE, state_handler EVM_STATE_UNAVAILABLE op_extcodesize),
      (OP_EXTCODECOPY, state_handler EVM_STATE_UNAVAILABLE op_extcodecopy), (OP_GASPRICE, handle_gasprice),
      (OP_RETURNDATASIZE, handle_returndatasize), (OP_RETURNDATACOPY, handle_returndatacopy),
      (OP_EXTCODEHASH, state_handler EVM_STATE_UNAVAILABLE op_extcodehash)]"

definition block_handler :: "(call_frame_t \<Rightarrow> block_context_t option \<Rightarrow> u64 \<Rightarrow> op_result) \<Rightarrow> opcode_t \<Rightarrow> 's handler" where
  "block_handler f op evm = frame_handler (\<lambda>frame. f frame (evm_block evm)) op evm"

definition handle_selfbalance :: "'s handler" where
  "handle_selfbalance evm frame =
     (case evm_state evm of
        None \<Rightarrow> Some (Done (frame_result_error EVM_STATE_UNAVAILABLE) evm frame)
      | Some state \<Rightarrow> frame_handler (\<lambda>frame. op_selfbalance frame state) OP_SELFBALANCE evm frame)"

definition handle_blobhash :: "'s handler" where
  "handle_blobhash evm frame =
     do { tx \<leftarrow> evm_tx evm; frame_handler (\<lambda>frame. op_blobhash frame tx) OP_BLOBHASH evm frame }"

definition block_handlers :: "(opcode_t \<times> 's handler) list" where
  "block_handlers =
     [(OP_BLOCKHASH, block_handler op_blockhash OP_BLOCKHASH), (OP_COINBASE, block_handler op_coinbase OP_COINBASE),
      (OP_TIMESTAMP, block_handler op_timestamp OP_TIMESTAMP), (OP_NUMBER, block_handler op_number OP_NUMBER),
      (OP_PREVRANDAO, block_handler op_prevrandao OP_PREVRANDAO), (OP_GASLIMIT, block_handler op_gaslimit OP_GASLIMIT),
      (OP_CHAINID, block_handler op_chainid OP_CHAINID), (OP_BASEFEE, block_handler op_basefee OP_BASEFEE),
      (OP_BLOBBASEFEE, block_handler op_blobbasefee OP_BLOBBASEFEE), (OP_SELFBALANCE, handle_selfbalance),
      (OP_BLOBHASH, handle_blobhash)]"

definition stack_handlers :: "(opcode_t \<times> 's handler) list" where
  "stack_handlers =
     (OP_POP, frame_handler op_pop OP_POP) #
     map (\<lambda>n. (OP_DUP n, frame_handler (\<lambda>frame. op_dup frame n) (OP_DUP n))) [1..<17] @
     map (\<lambda>n. (OP_SWAP n, frame_handler (\<lambda>frame. op_swap frame n) (OP_SWAP n))) [1..<17]"

definition memory_handlers :: "hash_fun \<Rightarrow> (opcode_t \<times> 's handler) list" where
  "memory_handlers keccak =
     [(OP_MLOAD, frame_handler op_mload OP_MLOAD), (OP_MSTORE, frame_handler op_mstore OP_MSTORE),
      (OP_MSTORE8, frame_handler op_mstore8 OP_MSTORE8), (OP_KECCAK256, frame_handler (op_keccak256 keccak) OP_KECCAK256),
      (OP_MSIZE, frame_handler op_msize OP_MSIZE)]"

definition jump_handler :: "(call_frame_t \<Rightarrow> u8 list \<Rightarrow> u64 \<Rightarrow> op_result) \<Rightarrow> opcode_t \<Rightarrow> 's handler" where
  "jump_handler f op evm frame =
     (case get_jumpdest_bitmap evm frame of
        (None, evm, frame) \<Rightarrow> Some (Done (frame_result_error EVM_OUT_OF_GAS) evm frame)
      | (Some bitmap, evm, frame) \<Rightarrow> frame_handler (\<lambda>frame. f frame bitmap) op evm frame)"

definition handle_pc :: "'s handler" where
  "handle_pc evm frame = frame_handler (\<lambda>frame. op_pc frame (fr_pc frame - 1)) OP_PC evm frame"

definition control_handlers :: "(opcode_t \<times> 's handler) list" where
  "control_handlers =
     [(OP_JUMP, jump_handler op_jump OP_JUMP), (OP_JUMPI, jump_handler op_jumpi OP_JUMPI),
      (OP_JUMPDEST, frame_handler op_jumpdest OP_JUMPDEST), (OP_PC, handle_pc), (OP_GAS, frame_handler op_gas OP_GAS)]"

definition handle_sload :: "'s handler" where
  "handle_sload evm = state_handler EVM_INVALID_OPCODE (\<lambda>frame state. op_sload frame state (evm_gas_schedule evm)) evm"

definition handle_sstore :: "'s handler" where
  "handle_sstore evm frame =
     (case evm_state evm of
        None \<Rightarrow> Some (Done (frame_result_error EVM_INVALID_OPCODE) evm frame)
      | Some state \<Rightarrow> do {
          (status, frame, state, gas_refund) \<leftarrow> op_sstore frame state (evm_gas_schedule evm) (evm_gas_refund evm);
          Some (after_op (evm\<lparr>evm_state := Some state, evm_gas_refund := gas_refund\<rparr>) status frame)
        })"

definition call_handler :: "('s evm_t \<Rightarrow> call_frame_t \<Rightarrow> (call_op_result_t \<times> 's evm_t \<times> call_frame_t) option) \<Rightarrow> 's handler" where
  "call_handler f evm frame =
     do {
       (result, evm, frame) \<leftarrow> f evm frame;
       Some (if cor_has_error result then Done (frame_result_error (cor_error result)) evm frame
             else if cor_should_call result then Done frame_result_call evm frame
             else Next evm frame)
     }"

text \<open>RETURN and REVERT differ in the result only.\<close>

definition handle_halt :: "(u64 \<Rightarrow> u64 \<Rightarrow> frame_result_t) \<Rightarrow> 's handler" where
  "handle_halt result evm frame =
     do {
       enough \<leftarrow> frame_has_items frame 2;
       if \<not> enough then Some (Done (frame_result_error EVM_STACK_UNDERFLOW) evm frame)
       else do {
         (offset_u256, frame) \<leftarrow> frame_pop frame;
         (size_u256, frame) \<leftarrow> frame_pop frame;
         if \<not> uint256_fits_u64 offset_u256 \<or> \<not> uint256_fits_u64 size_u256
         then Some (Done (frame_result_error EVM_OUT_OF_GAS) evm frame)
         else do {
           let offset = uint256_to_u64_unsafe offset_u256;
           let sz = uint256_to_u64_unsafe size_u256;
           (status, frame) \<leftarrow>
             (if sz > 0
              then do {
                (ok, mem_cost, frame) \<leftarrow> frame_expand frame offset sz;
                if \<not> ok then Some (EVM_OUT_OF_GAS, frame) else with_gas frame mem_cost (\<lambda>frame. Some (EVM_OK, frame))
              }
              else Some (EVM_OK, frame));
           Some (Done (if status \<noteq> EVM_OK then frame_result_error status else result offset sz) evm frame)
         }
       }
     }"

definition system_handlers :: "(opcode_t \<times> 's handler) list" where
  "system_handlers =
     [(OP_SLOAD, handle_sload), (OP_SSTORE, handle_sstore), (OP_CALL, call_handler op_call),
      (OP_STATICCALL, call_handler op_staticcall), (OP_DELEGATECALL, call_handler op_delegatecall),
      (OP_CALLCODE, call_handler op_callcode), (OP_RETURN, handle_halt frame_result_return),
      (OP_REVERT, handle_halt frame_result_revert)]"

definition handle_log :: "nat \<Rightarrow> 's handler" where
  "handle_log n evm frame =
     do {
       (status, frame, logs) \<leftarrow> op_log_n (evm_logs evm) frame n;
       Some (after_op (evm\<lparr>evm_logs := logs\<rparr>) status frame)
     }"

definition log_handlers :: "(opcode_t \<times> 's handler) list" where
  "log_handlers = map (\<lambda>n. (OP_LOG n, handle_log n)) [0..<5]"

definition handlers :: "hash_fun \<Rightarrow> (opcode_t \<times> 's handler) list" where
  "handlers keccak =
     arithmetic_handlers @ logic_handlers @ push_handlers @ context_handlers @ block_handlers @ stack_handlers @
     memory_handlers keccak @ control_handlers @ system_handlers @ log_handlers"

definition dispatch_table :: "hash_fun \<Rightarrow> u8 \<Rightarrow> 's handler" where
  "dispatch_table keccak b =
     (case find (\<lambda>(op, _). opcode op = b) (handlers keccak) of
        None \<Rightarrow> handle_invalid
      | Some (_, h) \<Rightarrow> h)"


section \<open>Execution\<close>

text \<open>One opcode: \<open>DISPATCH\<close> and the handler it goes to.\<close>

definition frame_step :: "hash_fun \<Rightarrow> 's handler" where
  "frame_step keccak evm frame =
     (if fr_pc frame \<ge> fr_code_size frame then Some (Done frame_result_stop evm frame)
      else dispatch_table keccak (fr_code frame ! unat (fr_pc frame)) evm (frame\<lparr>fr_pc := fr_pc frame + 1\<rparr>))"

partial_function (option) execute_frame ::
    "hash_fun \<Rightarrow> 's evm_t \<Rightarrow> call_frame_t \<Rightarrow> (frame_result_t \<times> 's evm_t \<times> call_frame_t) option" where
  "execute_frame keccak evm frame =
     (case frame_step keccak evm frame of
        None \<Rightarrow> None
      | Some (Next evm frame) \<Rightarrow> execute_frame keccak evm frame
      | Some (Done result evm frame) \<Rightarrow> Some (result, evm, frame))"

declare execute_frame.simps [code]

record evm_execution_result_t =
  er_result :: evm_result_t
  er_error :: evm_status_t
  er_gas_used :: u64
  er_gas_refund :: u64
  er_output :: "u8 list"
  er_logs :: "evm_log_t list"

definition execution_error :: "evm_status_t \<Rightarrow> u64 \<Rightarrow> evm_execution_result_t" where
  "execution_error error gas_used =
     \<lparr>er_result = EVM_RESULT_ERROR, er_error = error, er_gas_used = gas_used, er_gas_refund = 0, er_output = [],
       er_logs = []\<rparr>"

text \<open>
  A child that returned or reverted: its data goes to the buffer and to the memory of the parent,
  its gas to the parent, and the flag on the stack of the parent, which takes the arena back.
\<close>

definition return_to_parent ::
    "'s evm_t \<Rightarrow> call_frame_t \<Rightarrow> call_frame_t \<Rightarrow> frame_result_t \<Rightarrow> uint256_t \<Rightarrow> ('s evm_t \<times> call_frame_t) option" where
  "return_to_parent evm frame parent result flag =
     do {
       (evm, frame) \<leftarrow> copy_return_data evm frame (fres_return_offset result) (fres_return_size result);
       let parent = parent\<lparr>fr_arena := fr_arena frame\<rparr>;
       let output_size = unat (fr_output_size parent);
       let copy_size = (if output_size > length (evm_return_data evm) then length (evm_return_data evm) else output_size);
       parent \<leftarrow> (if copy_size > 0 \<and> fr_memory parent \<noteq> None
         then frame_store parent (fr_output_offset parent) (take copy_size (evm_return_data evm)) else Some parent);
       parent \<leftarrow> frame_push (parent\<lparr>fr_gas := fr_gas parent + fr_gas frame\<rparr>) flag;
       Some (evm\<lparr>evm_memory_pool := evm_memory_pool_return (evm_memory_pool evm),
         evm_frame_pool := call_frame_pool_return (evm_frame_pool evm)\<rparr>, parent)
     }"

text \<open>A child that failed: its gas is gone and there is no return data.\<close>

definition fail_to_parent :: "'s evm_t \<Rightarrow> call_frame_t \<Rightarrow> call_frame_t \<Rightarrow> ('s evm_t \<times> call_frame_t) option" where
  "fail_to_parent evm frame parent =
     do {
       parent \<leftarrow> frame_push (parent\<lparr>fr_arena := fr_arena frame\<rparr>) uint256_zero;
       Some (evm\<lparr>evm_return_data := [], evm_memory_pool := evm_memory_pool_return (evm_memory_pool evm),
         evm_frame_pool := call_frame_pool_return (evm_frame_pool evm)\<rparr>, parent)
     }"

text \<open>The end of the root frame.\<close>

definition finish :: "u64 \<Rightarrow> 's evm_t \<Rightarrow> call_frame_t \<Rightarrow> frame_result_t \<Rightarrow> (evm_execution_result_t \<times> 's evm_t) option" where
  "finish initial_gas evm frame result =
     (case fres_action result of
        FRAME_REVERT \<Rightarrow> do {
          (evm, frame) \<leftarrow> copy_return_data evm frame (fres_return_offset result) (fres_return_size result);
          Some (\<lparr>er_result = EVM_RESULT_ERROR, er_error = EVM_OK, er_gas_used = initial_gas - fr_gas frame,
            er_gas_refund = 0, er_output = evm_return_data evm, er_logs = []\<rparr>, evm\<lparr>evm_arena := fr_arena frame\<rparr>)
        }
      | FRAME_ERROR \<Rightarrow> Some (execution_error (fres_error result) initial_gas, evm\<lparr>evm_arena := fr_arena frame\<rparr>)
      | _ \<Rightarrow> do {
          (evm, frame) \<leftarrow> (if fres_action result = FRAME_RETURN
            then copy_return_data evm frame (fres_return_offset result) (fres_return_size result) else Some (evm, frame));
          Some (\<lparr>er_result = EVM_RESULT_STOP, er_error = EVM_OK, er_gas_used = initial_gas - fr_gas frame,
            er_gas_refund = evm_gas_refund evm, er_output = evm_return_data evm,
            er_logs = evm_log_vec_data (evm_logs evm)\<rparr>, evm\<lparr>evm_arena := fr_arena frame\<rparr>)
        })"

text \<open>The main loop over the running frame and its parents, the nearest first.\<close>

partial_function (option) run_frames ::
    "hash_fun \<Rightarrow> u64 \<Rightarrow> 's evm_t \<Rightarrow> call_frame_t \<Rightarrow> call_frame_t list \<Rightarrow> (evm_execution_result_t \<times> 's evm_t) option" where
  "run_frames keccak initial_gas evm frame parents =
     (case execute_frame keccak evm frame of
        None \<Rightarrow> None
      | Some (result, evm, frame) \<Rightarrow>
          if fres_action result = FRAME_CALL \<or> fres_action result = FRAME_CREATE
          then if length parents \<ge> EVM_MAX_CALL_DEPTH
               then Some (execution_error EVM_CALL_DEPTH_EXCEEDED initial_gas, evm\<lparr>evm_arena := fr_arena frame\<rparr>)
               else (case evm_pending_frame evm of
                       None \<Rightarrow> None
                     | Some child \<Rightarrow>
                         run_frames keccak initial_gas (evm\<lparr>evm_pending_frame := None\<rparr>) child (frame # parents))
          else if fr_depth frame = 0 then finish initial_gas evm frame result
          else (case parents of
                  [] \<Rightarrow> None
                | parent # parents \<Rightarrow>
                    (case (if fres_action result = FRAME_ERROR then fail_to_parent evm frame parent
                           else return_to_parent evm frame parent result
                                  (if fres_action result = FRAME_REVERT then uint256_zero else uint256_from_u64 1)) of
                       None \<Rightarrow> None
                     | Some (evm, parent) \<Rightarrow> run_frames keccak initial_gas evm parent parents)))"

declare run_frames.simps [code]

definition evm_execute_env :: "hash_fun \<Rightarrow> 's evm_t \<Rightarrow> execution_env_t \<Rightarrow> call_frame_t \<Rightarrow> (evm_execution_result_t \<times> 's evm_t) option" where
  "evm_execute_env keccak evm env slot =
     (let evm = evm\<lparr>evm_block := env_block env, evm_tx := Some (env_tx env)\<rparr>
      in case call_frame_pool_rent (evm_frame_pool evm) slot of
           (None, _) \<Rightarrow> Some (execution_error EVM_CALL_DEPTH_EXCEEDED 0, evm)
         | (Some frame, frame_pool) \<Rightarrow>
             let (evm, frame) = init_root_frame (evm\<lparr>evm_frame_pool := frame_pool\<rparr>) frame env
             in run_frames keccak (cp_gas (env_call env)) evm frame [])"

end
