(* ===== verification/Frame_Logic.thy ===== *)
theory Frame_Logic
  imports Evm
begin

text \<open>
  A small program logic for the opcodes.  \<open>ok b m P\<close>: the computation \<open>m\<close> returns a result with \<open>P\<close>, or
  is undefined and \<open>b\<close> holds.  \<open>at fr0 xs r fr\<close>: the frame \<open>fr\<close> was reached from \<open>fr0\<close> by changing
  the stack, the memory, the arena and the gas, which did not grow; the stack is well-formed, holds
  \<open>xs\<close> and has room for \<open>r\<close> more items, and the memory is well-formed.
\<close>

named_theorems frame_rules \<open>rules of the program logic\<close>

definition ok :: "bool \<Rightarrow> 'a option \<Rightarrow> ('a \<Rightarrow> bool) \<Rightarrow> bool" where
  "ok b m P \<longleftrightarrow> (case m of None \<Rightarrow> b | Some x \<Rightarrow> P x)"

lemma ok_simps [simp]: "ok b (Some x) P \<longleftrightarrow> P x" "ok b None P \<longleftrightarrow> b"
  by (simp_all add: ok_def)

lemma ok_bind [simp]: "ok b (Option.bind m f) P \<longleftrightarrow> ok b m (\<lambda>x. ok b (f x) P)"
  by (cases m) simp_all

lemma ok_mono: "ok b m P \<Longrightarrow> (\<And>x. P x \<Longrightarrow> Q x) \<Longrightarrow> ok b m Q"
  by (cases m) simp_all

lemma ok_weaken: "ok b m P \<Longrightarrow> (b \<Longrightarrow> b') \<Longrightarrow> ok b' m P"
  by (cases m) simp_all

lemma ok_if [simp]: "ok b (if c then m else m') P \<longleftrightarrow> (if c then ok b m P else ok b m' P)"
  by simp

lemma ok_defined: "ok b m P \<Longrightarrow> \<not> b \<Longrightarrow> \<exists>x. m = Some x \<and> P x"
  by (cases m) simp_all

lemma ok_result: "ok b m P \<Longrightarrow> m = Some x \<Longrightarrow> P x"
  by simp

definition same_env :: "call_frame_t \<Rightarrow> call_frame_t \<Rightarrow> bool" where
  "same_env fr0 fr \<longleftrightarrow>
     fr\<lparr>fr_stack := None, fr_memory := None, fr_gas := 0, fr_arena := fr_arena fr0\<rparr> =
     fr0\<lparr>fr_stack := None, fr_memory := None, fr_gas := 0\<rparr>"

lemma same_env_refl [simp]: "same_env fr fr"
  by (simp add: same_env_def)

lemma same_env_iff:
  "same_env fr0 fr \<longleftrightarrow>
    fr_pc fr = fr_pc fr0 \<and> fr_code fr = fr_code fr0 \<and> fr_output_offset fr = fr_output_offset fr0 \<and>
    fr_output_size fr = fr_output_size fr0 \<and> fr_depth fr = fr_depth fr0 \<and> fr_exec_type fr = fr_exec_type fr0 \<and>
    fr_is_static fr = fr_is_static fr0 \<and> fr_caller fr = fr_caller fr0 \<and> fr_address fr = fr_address fr0 \<and>
    fr_value fr = fr_value fr0 \<and> fr_input fr = fr_input fr0 \<and> fr_jumpdest_bitmap fr = fr_jumpdest_bitmap fr0 \<and>
    fr_code_hash fr = fr_code_hash fr0"
  unfolding same_env_def by (cases fr; cases fr0) auto

lemma same_env_trans: "same_env fr0 fr1 \<Longrightarrow> same_env fr1 fr2 \<Longrightarrow> same_env fr0 fr2"
  by (simp add: same_env_iff)

definition at :: "call_frame_t \<Rightarrow> uint256_t list \<Rightarrow> nat \<Rightarrow> call_frame_t \<Rightarrow> bool" where
  "at fr0 xs r fr \<longleftrightarrow>
     (\<exists>s m. fr_stack fr = Some s \<and> stack_wf s \<and> stack_items s = xs \<and> length xs + r \<le> stack_capacity s \<and>
       fr_memory fr = Some m \<and> mem_wf m) \<and>
     fr_gas fr \<le> fr_gas fr0 \<and> same_env fr0 fr"

text \<open>The frame is where it can be after an operation.\<close>

definition kept :: "call_frame_t \<Rightarrow> call_frame_t \<Rightarrow> bool" where
  "kept fr0 fr \<longleftrightarrow> (\<exists>xs. at fr0 xs 0 fr)"

lemma at_kept: "at fr0 xs r fr \<Longrightarrow> kept fr0 fr"
  by (auto simp: at_def kept_def)

lemma at_less_room: "at fr0 xs r fr \<Longrightarrow> r' \<le> r \<Longrightarrow> at fr0 xs r' fr"
  by (auto simp: at_def)

lemma at_trans: "at fr0 xs r fr1 \<Longrightarrow> at fr1 ys r' fr2 \<Longrightarrow> at fr0 ys r' fr2"
  unfolding at_def by (elim conjE, intro conjI, assumption) (erule order_trans same_env_trans, assumption)+

lemma kept_trans: "kept fr0 fr1 \<Longrightarrow> kept fr1 fr2 \<Longrightarrow> kept fr0 fr2"
  unfolding kept_def by (meson at_trans)

lemma at_env: "at fr0 xs r fr \<Longrightarrow> same_env fr0 fr"
  by (simp add: at_def)

lemma has_items_at [simp]: "at fr0 xs r fr \<Longrightarrow> frame_has_items fr n = Some (n \<le> length xs)"
  by (auto simp: at_def frame_has_items_def evm_stack_has_items_def evm_stack_size_def)

lemma has_space_at [simp]: "at fr0 xs r fr \<Longrightarrow> frame_has_space fr n = Some (length xs + n \<le> 1024)"
  by (auto simp: at_def frame_has_space_def evm_stack_has_space_def evm_stack_size_def EVM_STACK_MAX_DEPTH_def)

lemma pop_at:
  assumes "at fr0 (x # xs) r fr"
  shows "\<exists>fr'. frame_pop fr = Some (x, fr') \<and> at fr0 xs (Suc r) fr'"
  using assms
  by (auto simp: at_def frame_pop_def evm_stack_pop_unsafe_def stack_wf_def evm_stack_size_def same_env_def)

lemma push_at:
  assumes "at fr0 xs (Suc r) fr"
  shows "\<exists>fr'. frame_push fr x = Some fr' \<and> at fr0 (x # xs) r fr'"
  using assms
  by (auto simp: at_def frame_push_def evm_stack_push_unsafe_def stack_wf_def evm_stack_size_def same_env_def)

lemma ok_pop: "at fr0 (x # xs) r fr \<Longrightarrow> (\<And>fr'. at fr0 xs (Suc r) fr' \<Longrightarrow> P (x, fr')) \<Longrightarrow> ok b (frame_pop fr) P"
  using pop_at by fastforce

lemma ok_push: "at fr0 xs (Suc r) fr \<Longrightarrow> (\<And>fr'. at fr0 (x # xs) r fr' \<Longrightarrow> P fr') \<Longrightarrow> ok b (frame_push fr x) P"
  using push_at by fastforce

lemma gas_at:
  assumes "at fr0 xs r fr" "c \<le> fr_gas fr"
  shows "at fr0 xs r (fr\<lparr>fr_gas := fr_gas fr - c\<rparr>)"
proof -
  have "fr_gas fr - c \<le> fr_gas fr" using assms(2) by (simp add: word_le_nat_alt unat_sub)
  then have "fr_gas fr - c \<le> fr_gas fr0" using assms(1) by (auto simp: at_def)
  then show ?thesis using assms(1) by (auto simp: at_def same_env_def)
qed

text \<open>The bytes of memory and the slots for items a frame has.\<close>

definition mem_len :: "call_frame_t \<Rightarrow> nat" where
  "mem_len fr = (case fr_memory fr of None \<Rightarrow> 0 | Some m \<Rightarrow> length (mem_data m))"

definition slots :: "call_frame_t \<Rightarrow> nat" where
  "slots fr = (case fr_stack fr of None \<Rightarrow> 0 | Some s \<Rightarrow> stack_capacity s)"

lemma ok_with_gas:
  assumes "at fr0 xs r fr" "P (EVM_OUT_OF_GAS, fr)"
    "\<And>fr'. at fr0 xs r fr' \<Longrightarrow> c \<le> fr_gas fr \<Longrightarrow> fr_gas fr' = fr_gas fr - c \<Longrightarrow> mem_len fr' = mem_len fr \<Longrightarrow>
      slots fr' = slots fr \<Longrightarrow> ok b (k fr') P"
  shows "ok b (with_gas fr c k) P"
  using assms gas_at [OF assms(1), of c] by (auto simp: with_gas_def not_less mem_len_def slots_def)

lemma ok_ensure:
  assumes "at fr0 xs r fr"
    "\<And>fr'. at fr0 xs n fr' \<Longrightarrow> fr_gas fr' = fr_gas fr \<Longrightarrow> P (True, fr')"
    "\<And>fr'. at fr0 xs 0 fr' \<Longrightarrow> P (False, fr')"
  shows "ok b (frame_ensure_space fr n) P"
proof -
  obtain s m where s: "fr_stack fr = Some s" "stack_wf s" "stack_items s = xs" and m: "fr_memory fr = Some m" "mem_wf m"
    and g: "fr_gas fr \<le> fr_gas fr0" "same_env fr0 fr"
    using assms(1) unfolding at_def by blast
  obtain good s' a' where e: "evm_stack_ensure_space s (fr_arena fr) n = (good, s', a')" by (metis prod_cases3)
  have w: "stack_wf s'" "stack_items s' = xs" "good \<longrightarrow> length xs + n \<le> stack_capacity s'"
    using ensure_space_wf [OF s(2) e] s(3) by (auto simp: evm_stack_size_def)
  have "at fr0 xs (if good then n else 0) (fr\<lparr>fr_stack := Some s', fr_arena := a'\<rparr>)"
    using w m g by (auto simp: at_def stack_wf_def evm_stack_size_def same_env_def)
  then show ?thesis using assms(2,3) s(1) e by (cases good) (auto simp: frame_ensure_space_def)
qed

text \<open>Regions of memory for which the expansion does not return or is skipped.\<close>

definition bad_region :: "u64 \<Rightarrow> u64 \<Rightarrow> bool" where
  "bad_region offset sz \<longleftrightarrow> sz \<noteq> 0 \<and> 2 ^ 63 < unat offset + unat sz \<and> unat offset + unat sz < 2 ^ 64"

lemma expanded_length: "length (expanded m e) \<ge> e"
  using round_up_bounds(1) [of e 5] by (simp add: expanded_def)

lemma expand_cases:
  assumes "mem_wf m"
  obtains (undefined) "evm_memory_expand m a offset sz 0 = None" "bad_region offset sz"
  | (defined) good cost m' a' where "evm_memory_expand m a offset sz 0 = Some (good, cost, m', a')" "mem_wf m'"
      "length (mem_data m) \<le> length (mem_data m')"
      "good \<Longrightarrow> \<not> bad_region offset sz \<Longrightarrow> sz \<noteq> 0 \<Longrightarrow> unat offset + unat sz \<le> length (mem_data m')"
proof (cases "sz = 0")
  case True
  then show ?thesis using assms that(2) [of True 0 m a] by (simp add: evm_memory_expand_def)
next
  case sz: False
  let ?e = "unat offset + unat sz"
  consider "?e \<le> 65536" | "65536 < ?e" "?e \<le> 2 ^ 63" | "2 ^ 63 < ?e" "?e \<le> 2 ^ 64 - 32"
    | "2 ^ 64 - 32 < ?e" "?e < 2 ^ 64" | "2 ^ 64 \<le> ?e" by linarith
  then show ?thesis
  proof cases
    case 1
    then show ?thesis using expand_inside [OF assms sz, of offset a 0] that(2) expanded_length [of ?e m]
      by (auto simp: expanded_def split: if_splits)
  next
    case 2
    then show ?thesis using expand_beyond [OF assms sz, of offset a 0] that(2) [OF _ assms] by auto
  next
    case 3
    then show ?thesis using expand_beyond [OF assms sz, of offset a 0] that(1) sz by (auto simp: bad_region_def)
  next
    case 4
    then show ?thesis using expand_wrapped [OF sz, of offset m a 0] that(2) [OF _ assms] sz by (auto simp: bad_region_def)
  next
    case 5
    then show ?thesis using expand_overflow [OF sz, of offset m a 0] that(2) [OF _ assms] by auto
  qed
qed

lemma ok_expand:
  assumes "at fr0 xs r fr" "bad_region offset sz \<longrightarrow> b"
    "\<And>good cost fr'. at fr0 xs r fr' \<Longrightarrow> mem_len fr \<le> mem_len fr' \<Longrightarrow> fr_gas fr' = fr_gas fr \<Longrightarrow>
      good \<longrightarrow> b \<or> sz = 0 \<or> unat offset + unat sz \<le> mem_len fr' \<Longrightarrow> P (good, cost, fr')"
  shows "ok b (frame_expand fr offset sz) P"
proof -
  obtain m where m: "fr_memory fr = Some m" "mem_wf m" using assms(1) by (auto simp: at_def)
  show ?thesis
  proof (cases rule: expand_cases [OF m(2), of "fr_arena fr" offset sz, case_names undefined defined])
    case undefined
    then show ?thesis using assms(2) m(1) by (simp add: frame_expand_def)
  next
    case (defined good cost m' a')
    let ?fr = "fr\<lparr>fr_memory := Some m', fr_arena := a'\<rparr>"
    have "at fr0 xs r ?fr" using assms(1) defined(2) by (auto simp: at_def same_env_def)
    moreover have "mem_len ?fr = length (mem_data m')" "mem_len fr \<le> mem_len ?fr"
      using m(1) defined(3) by (simp_all add: mem_len_def)
    ultimately have "P (good, cost, ?fr)" using assms(2) defined(4) by (intro assms(3)) auto
    then show ?thesis using m(1) defined(1) by (simp add: frame_expand_def)
  qed
qed

lemma ok_store:
  assumes "at fr0 xs r fr" "b \<or> unat offset + length d \<le> mem_len fr" "\<And>fr'. at fr0 xs r fr' \<Longrightarrow> P fr'"
  shows "ok b (frame_store fr offset d) P"
proof -
  obtain m where m: "fr_memory fr = Some m" "mem_wf m" using assms(1) by (auto simp: at_def)
  have "at fr0 xs r (fr\<lparr>fr_memory := Some (m\<lparr>mem_data := memcpy_at (mem_data m) (unat offset) d\<rparr>)\<rparr>)"
    if "unat offset + length d \<le> length (mem_data m)"
    using assms(1) m length_memcpy [OF that] by (auto simp: at_def mem_wf_def same_env_def)
  then show ?thesis
    using assms(2,3) m(1) by (auto simp: frame_store_def evm_memory_store_unsafe_def mem_len_def)
qed

text \<open>
  The accesses that name the stack or the memory of the frame; the bind of the option monad has been
  turned into nested judgements.
\<close>

lemma ok_peek:
  "at fr0 xs r fr \<Longrightarrow> n < length xs \<Longrightarrow> P (xs ! n) \<Longrightarrow>
    ok b (fr_stack fr) (\<lambda>s. ok b (evm_stack_peek_unsafe s n) P)"
  by (auto simp: at_def evm_stack_peek_unsafe_def evm_stack_size_def)

lemma ok_load:
  assumes "at fr0 xs r fr" "b \<or> unat offset + unat sz \<le> mem_len fr" "\<And>d. length d = unat sz \<Longrightarrow> P d"
  shows "ok b (fr_memory fr) (\<lambda>m. ok b (evm_memory_load_unsafe m offset sz) P)"
  using assms by (cases b) (auto simp: at_def evm_memory_load_unsafe_def mem_len_def)

lemma ok_ptr:
  assumes "at fr0 xs r fr" "b \<or> unat offset + unat sz \<le> mem_len fr" "\<And>d. length d = unat sz \<Longrightarrow> P d"
  shows "ok b (fr_memory fr) (\<lambda>m. ok b (evm_memory_ptr_unsafe m offset sz) P)"
  using ok_load [OF assms] by (simp add: evm_memory_ptr_unsafe_def)

lemma ok_load32:
  assumes "at fr0 xs r fr" "b \<or> unat offset + 32 \<le> mem_len fr" "\<And>x. P x"
  shows "ok b (fr_memory fr) (\<lambda>m. ok b (evm_memory_load32_unsafe m offset) P)"
  using assms by (cases b) (auto simp: at_def evm_memory_load32_unsafe_def evm_memory_load_unsafe_def mem_len_def)

lemma memory_at:
  assumes "at fr0 xs r fr" "fr_memory fr = Some m" "length d = length (mem_data m)"
  shows "at fr0 xs r (fr\<lparr>fr_memory := Some (m\<lparr>mem_data := d\<rparr>)\<rparr>)"
  using assms by (auto simp: at_def mem_wf_def same_env_def)

lemma ok_store32:
  assumes "at fr0 xs r fr" "b \<or> unat offset + 32 \<le> mem_len fr"
    "\<And>m. at fr0 xs r (fr\<lparr>fr_memory := Some m\<rparr>) \<Longrightarrow> P m"
  shows "ok b (fr_memory fr) (\<lambda>m. ok b (evm_memory_store32_unsafe m offset x) P)"
proof -
  obtain m where m: "fr_memory fr = Some m" using assms(1) by (auto simp: at_def)
  have "at fr0 xs r (fr\<lparr>fr_memory := Some (m\<lparr>mem_data := memcpy_at (mem_data m) (unat offset) (uint256_to_bytes_be x)\<rparr>)\<rparr>)"
    if "unat offset + 32 \<le> length (mem_data m)"
    using that by (intro memory_at [OF assms(1) m] length_memcpy) simp
  then show ?thesis
    using assms(2,3) m by (cases b) (auto simp: evm_memory_store32_unsafe_def evm_memory_store_unsafe_def mem_len_def)
qed

lemma ok_store8:
  assumes "at fr0 xs r fr" "b \<or> Suc (unat offset) \<le> mem_len fr"
    "\<And>m. at fr0 xs r (fr\<lparr>fr_memory := Some m\<rparr>) \<Longrightarrow> P m"
  shows "ok b (fr_memory fr) (\<lambda>m. ok b (evm_memory_store8_unsafe m offset x) P)"
proof -
  obtain m where m: "fr_memory fr = Some m" using assms(1) by (auto simp: at_def)
  have "at fr0 xs r (fr\<lparr>fr_memory := Some (m\<lparr>mem_data := (mem_data m)[unat offset := x]\<rparr>)\<rparr>)"
    by (intro memory_at [OF assms(1) m]) simp
  then show ?thesis using assms(2,3) m by (cases b) (auto simp: evm_memory_store8_unsafe_def mem_len_def)
qed

text \<open>DUP needs room that the frame has or the judgement grants; SWAP needs none.\<close>

lemma ok_dup:
  assumes "at fr0 xs r fr" "1 \<le> n" "n \<le> length xs"
    "b \<or> length xs < slots fr"
    "\<And>s. at fr0 (xs ! (n - 1) # xs) 0 (fr\<lparr>fr_stack := Some s\<rparr>) \<Longrightarrow> P s"
  shows "ok b (fr_stack fr) (\<lambda>s. ok b (evm_stack_dup_unsafe s n) P)"
  using assms
  by (fastforce simp: at_def evm_stack_dup_unsafe_def evm_stack_size_def stack_wf_def same_env_def slots_def)

lemma ok_swap:
  assumes "at fr0 xs r fr" "n < length xs"
    "\<And>s. at fr0 (xs[0 := xs ! n, n := xs ! 0]) r (fr\<lparr>fr_stack := Some s\<rparr>) \<Longrightarrow> P s"
  shows "ok b (fr_stack fr) (\<lambda>s. ok b (evm_stack_swap_unsafe s n) P)"
proof -
  obtain s where s: "fr_stack fr = Some s" "stack_items s = xs" using assms(1) by (auto simp: at_def)
  have "at fr0 (xs[0 := xs ! n, n := xs ! 0]) r (fr\<lparr>fr_stack := Some (s\<lparr>stack_items := xs[0 := xs ! n, n := xs ! 0]\<rparr>)\<rparr>)"
    using assms(1) s by (auto simp: at_def stack_wf_def evm_stack_size_def same_env_def)
  then show ?thesis using assms(2,3) s by (auto simp: evm_stack_swap_unsafe_def evm_stack_size_def Let_def)
qed

lemmas [frame_rules] =
  ok_with_gas ok_pop ok_push ok_ensure ok_expand ok_store ok_peek ok_load ok_ptr ok_load32 ok_store32 ok_store8 at_kept

end
