(* ===== verification/State_Provider.thy ===== *)
theory State_Provider
  imports State_Access
begin

text \<open>What the EVM relies on in an implementation of the state interface.\<close>

text \<open>The interface of an object with the function table \<open>vt\<close> that satisfies the invariant \<open>good\<close>.\<close>

definition provided :: "'s state_access_vtable_t \<Rightarrow> ('s \<Rightarrow> bool) \<Rightarrow> 's state_access_t \<Rightarrow> bool" where
  "provided vt good state \<longleftrightarrow> sa_vtable state = vt \<and> good (sa_self state)"

text \<open>
  A provider of state: the operations the EVM calls have a defined result and keep the invariant
  \<open>good\<close> of the provider, and the code of an account has less than \<open>2^62\<close> bytes.
\<close>

locale state_provider =
  fixes vt :: "'s state_access_vtable_t" and good :: "'s \<Rightarrow> bool"
  assumes warm_address_inv: "good s \<Longrightarrow> good (snd (vt_warm_address vt s addr))"
    and warm_slot_inv: "good s \<Longrightarrow> good (snd (vt_warm_slot vt s addr slot))"
    and set_storage_inv: "good s \<Longrightarrow> \<exists>s'. vt_set_storage vt s addr slot v = Some s' \<and> good s'"
    and add_balance_inv: "good s \<Longrightarrow> \<exists>ok s'. vt_add_balance vt s addr v = Some (ok, s') \<and> good s'"
    and sub_balance_inv: "good s \<Longrightarrow> \<exists>ok s'. vt_sub_balance vt s addr v = Some (ok, s') \<and> good s'"
    and set_jumpdest_inv: "good s \<Longrightarrow> vt_set_jumpdest_analysis vt = Some f \<Longrightarrow> good (f s h bitmap)"
    and code_small: "good s \<Longrightarrow> length (bytes_contents (vt_get_code vt s addr)) < 2 ^ 62"
begin

abbreviation provides :: "'s state_access_t \<Rightarrow> bool" where
  "provides \<equiv> provided vt good"

lemma provides_warm_address: "provides state \<Longrightarrow> provides (snd (state_warm_address state addr))"
  by (simp add: provided_def state_warm_address_def warm_address_inv)

lemma provides_warm_slot: "provides state \<Longrightarrow> provides (snd (state_warm_slot state addr slot))"
  by (simp add: provided_def state_warm_slot_def warm_slot_inv)

lemma provides_set_storage:
  "provides state \<Longrightarrow> \<exists>state'. state_set_storage state addr slot v = Some state' \<and> provides state'"
  using set_storage_inv by (force simp: provided_def state_set_storage_def)

lemma provides_add_balance:
  "provides state \<Longrightarrow> \<exists>ok state'. state_add_balance state addr v = Some (ok, state') \<and> provides state'"
  using add_balance_inv by (force simp: provided_def state_add_balance_def)

lemma provides_sub_balance:
  "provides state \<Longrightarrow> \<exists>ok state'. state_sub_balance state addr v = Some (ok, state') \<and> provides state'"
  using sub_balance_inv by (force simp: provided_def state_sub_balance_def)

lemma provides_code: "provides state \<Longrightarrow> length (bytes_contents (state_get_code state addr)) < 2 ^ 62"
  by (simp add: provided_def state_get_code_def code_small [simplified])

end

end
