(* ===== verification/Opcode_Laws.thy ===== *)
theory Opcode_Laws
  imports Frame_Logic State_Provider
begin

text \<open>
  What every opcode function keeps.  Each law has the same shape: from a frame with a well-formed
  stack and memory the function returns, leaves such a frame and does not add gas; where the code can
  be undefined the condition is the first argument of the judgement.
\<close>

unbundle bit_operations_syntax

abbreviation keeps :: "call_frame_t \<Rightarrow> bool \<Rightarrow> op_result \<Rightarrow> bool" where
  "keeps fr0 b m \<equiv> ok b m (\<lambda>(st, fr). kept fr0 fr)"

lemma items1: "Suc 0 \<le> length xs \<longleftrightarrow> (\<exists>a ys. xs = a # ys)"
  by (cases xs) auto

lemma items2: "2 \<le> length xs \<longleftrightarrow> (\<exists>a b ys. xs = a # b # ys)"
  by (simp add: numeral_2_eq_2 Suc_le_length_iff) blast

lemma items3: "3 \<le> length xs \<longleftrightarrow> (\<exists>a b c ys. xs = a # b # c # ys)"
  by (simp add: numeral_3_eq_3 Suc_le_length_iff) blast

lemma items4: "4 \<le> length xs \<longleftrightarrow> (\<exists>a b c d ys. xs = a # b # c # d # ys)"
  by (simp add: eval_nat_numeral Suc_le_length_iff) blast

lemmas items = items1 items2 items3 items4


section \<open>Words\<close>

lemma op_unary_keeps: "at fr0 xs r fr \<Longrightarrow> keeps fr0 b (op_unary f fr g)"
  by (auto simp: op_unary_def items intro!: frame_rules)

lemma op_binary_keeps: "at fr0 xs r fr \<Longrightarrow> keeps fr0 b (op_binary f fr g)"
  by (auto simp: op_binary_def items intro!: frame_rules)

lemma op_ternary_keeps: "at fr0 xs r fr \<Longrightarrow> keeps fr0 b (op_ternary f fr g)"
  by (auto simp: op_ternary_def items intro!: frame_rules)

lemma op_exp_keeps: "at fr0 xs r fr \<Longrightarrow> keeps fr0 b (op_exp fr)"
  by (auto simp: op_exp_def items Let_def intro!: frame_rules)


section \<open>Stack and control flow\<close>

lemma op_pop_keeps: "at fr0 xs r fr \<Longrightarrow> keeps fr0 b (op_pop fr g)"
  by (auto simp: op_pop_def items intro!: frame_rules)

lemma op_dup_keeps:
  assumes "at fr0 xs r fr" "1 \<le> n"
    "b \<or> length xs < n \<or> length xs < slots fr \<or> 1024 \<le> length xs"
  shows "keeps fr0 b (op_dup fr n g)"
  using assms by (auto simp: op_dup_def intro!: frame_rules ok_dup)

lemma op_swap_keeps: "at fr0 xs r fr \<Longrightarrow> keeps fr0 b (op_swap fr n g)"
  by (auto simp: op_swap_def intro!: frame_rules ok_swap)

lemma op_push_word_keeps:
  assumes "at fr0 xs r fr" "\<And>fr'. kept fr0 fr' \<Longrightarrow> \<exists>x. w fr' = Some x"
  shows "keeps fr0 b (op_push_word w fr g)"
proof -
  have "keeps fr0 b (do { x \<leftarrow> w fr'; frame \<leftarrow> frame_push fr' x; Some (EVM_OK, frame) })" if "at fr0 xs (Suc 0) fr'" for fr'
    using assms(2) [OF at_kept [OF that]] that by (auto intro!: frame_rules)
  then show ?thesis using assms(1) by (auto simp: op_push_word_def intro!: frame_rules)
qed

lemma charged_at: "at fr0 xs r fr \<Longrightarrow> fr_gas fr = g \<Longrightarrow> c \<le> g \<Longrightarrow> at fr0 xs r (fr\<lparr>fr_gas := g - c\<rparr>)"
  using gas_at by blast

lemma op_push0_keeps: "at fr0 xs r fr \<Longrightarrow> keeps fr0 b (op_push0 fr g)"
  by (auto simp: op_push0_def not_less intro!: frame_rules charged_at)

lemma op_jumpdest_keeps: "at fr0 xs r fr \<Longrightarrow> keeps fr0 b (op_jumpdest fr g)"
  by (auto simp: op_jumpdest_def intro!: frame_rules)


section \<open>Memory\<close>

text \<open>The region a word offset and a size name, when both fit in 64 bits.\<close>

definition bad_access :: "uint256_t \<Rightarrow> uint256_t \<Rightarrow> bool" where
  "bad_access x y \<longleftrightarrow> uint256_fits_u64 x \<and> uint256_fits_u64 y \<and> bad_region (limb0 x) (limb0 y)"

lemma limb0_from_u64 [simp]: "limb0 (uint256_from_u64 v) = v" "uint256_fits_u64 (uint256_from_u64 v)"
  by (simp_all add: uint256_from_u64_def uint256_from_limbs_def uint256_fits_u64_def)

lemma low_zero [simp]: "uint256_fits_u64 x \<Longrightarrow> limb0 x = 0 \<longleftrightarrow> uval x = 0"
  unfolding uint256_is_zero_iff [symmetric] by (auto simp: uint256_is_zero_def uint256_fits_u64_def simp del: uint256_is_zero_iff)

lemma mem_access_keeps:
  assumes "at fr0 xs r fr" "bad_access x (uint256_from_u64 sz) \<longrightarrow> b" "sz \<noteq> 0"
    "\<And>fr'. at fr0 xs r fr' \<Longrightarrow> b \<or> unat (limb0 x) + unat sz \<le> mem_len fr' \<Longrightarrow> keeps fr0 b (k fr' (limb0 x))"
  shows "keeps fr0 b (mem_access fr x sz g k)"
  using assms by (auto simp: mem_access_def Let_def uint256_to_u64_unsafe_def bad_access_def intro!: frame_rules)

text \<open>The region at two positions of the stack, if the stack has them.\<close>

definition bad_at :: "uint256_t list \<Rightarrow> nat \<Rightarrow> nat \<Rightarrow> bool" where
  "bad_at xs i j \<longleftrightarrow> i < length xs \<and> j < length xs \<and> bad_access (xs ! i) (xs ! j)"

definition bad_at_size :: "uint256_t list \<Rightarrow> u64 \<Rightarrow> bool" where
  "bad_at_size xs sz \<longleftrightarrow> xs \<noteq> [] \<and> bad_access (xs ! 0) (uint256_from_u64 sz)"

lemma op_mload_keeps:
  assumes "at fr0 xs r fr" "bad_at_size xs 32 \<longrightarrow> b"
  shows "keeps fr0 b (op_mload fr g)"
  using assms by (auto simp: op_mload_def items bad_at_size_def intro!: frame_rules mem_access_keeps)

lemma op_mstore_keeps:
  assumes "at fr0 xs r fr" "bad_at_size xs 32 \<longrightarrow> b"
  shows "keeps fr0 b (op_mstore fr g)"
  using assms by (auto simp: op_mstore_def items bad_at_size_def intro!: frame_rules mem_access_keeps)

lemma op_mstore8_keeps:
  assumes "at fr0 xs r fr" "bad_at_size xs 1 \<longrightarrow> b"
  shows "keeps fr0 b (op_mstore8 fr g)"
  using assms by (auto simp: op_mstore8_def items bad_at_size_def intro!: frame_rules mem_access_keeps)

lemma op_msize_keeps: "at fr0 xs r fr \<Longrightarrow> keeps fr0 b (op_msize fr g)"
  unfolding op_msize_def by (rule op_push_word_keeps, assumption) (auto simp: kept_def at_def)

lemma ok_hash:
  "at fr0 ys (Suc r) fr \<Longrightarrow> b \<or> unat x + unat y \<le> mem_len fr \<Longrightarrow>
    ok b (fr_memory fr) (\<lambda>m. ok b (evm_memory_ptr_unsafe m x y) (\<lambda>d. ok b (frame_push fr (h d)) (kept fr0)))"
  by (intro ok_ptr ok_push at_kept)

lemma op_keccak256_keeps:
  assumes "at fr0 xs r fr" "bad_at xs 0 1 \<longrightarrow> b"
  shows "keeps fr0 b (op_keccak256 keccak fr g)"
  using assms
  by (auto 4 10 simp: op_keccak256_def items Let_def uint256_to_u64_unsafe_def bad_at_def bad_access_def
    intro!: ok_hash ok_pop ok_with_gas ok_push ok_expand at_kept)


section \<open>Environment\<close>

lemma op_calldataload_keeps: "at fr0 xs r fr \<Longrightarrow> keeps fr0 b (op_calldataload fr g)"
  by (auto simp: op_calldataload_def items Let_def intro!: frame_rules)

lemma length_copy_source: "length src < 2 ^ 64 \<Longrightarrow> length (copy_source src x sz) = unat sz"
  by (auto simp: copy_source_def Let_def word_less_nat_alt unat_of_nat unat_sub_if' word_le_nat_alt)

lemma copy_to_memory_keeps:
  assumes "at fr0 xs r fr" "\<not> uint256_is_zero y" "bad_access x y \<longrightarrow> b"
    "uint256_fits_u64 y \<longrightarrow> length (source (limb0 y)) = unat (limb0 y)"
  shows "keeps fr0 b (copy_to_memory fr base x y source)"
  using assms by (auto simp: copy_to_memory_def Let_def uint256_to_u64_unsafe_def bad_access_def intro!: frame_rules)

lemma op_copy_keeps:
  assumes "at fr0 xs r fr" "bad_at xs 0 2 \<longrightarrow> b" "\<And>fr'. same_env fr0 fr' \<Longrightarrow> length (source fr') < 2 ^ 64"
  shows "keeps fr0 b (op_copy source fr g)"
proof -
  have [simp]: "at fr0 ys r' fr' \<Longrightarrow> length (copy_source (source fr') x sz) = unat sz" for fr' ys r' x sz
    by (intro length_copy_source assms(3)) (rule at_env)
  show ?thesis
    using assms(1,2) by (auto 4 10 simp: op_copy_def items bad_at_def intro!: frame_rules copy_to_memory_keeps)
qed

lemma op_returndatacopy_keeps:
  assumes "at fr0 xs r fr" "bad_at xs 0 2 \<longrightarrow> b" "length data < 2 ^ 64"
  shows "keeps fr0 b (op_returndatacopy fr g data)"
proof -
  have [simp]: "length (take (unat sz) (drop (unat off) data)) = unat sz"
    if "\<not> off > of_nat (length data)" "\<not> sz > of_nat (length data) - off" for off sz :: u64
    using that assms(3) by (simp add: word_less_nat_alt unat_of_nat unat_sub_if' not_less word_le_nat_alt)
  show ?thesis
    using assms(1,2)
    by (auto 4 10 simp: op_returndatacopy_def items bad_at_def Let_def uint256_to_u64_unsafe_def
      simp del: length_take length_drop intro!: frame_rules copy_to_memory_keeps)
qed

lemma op_blockhash_keeps:
  assumes "at fr0 xs r fr" "block = None \<longrightarrow> b" shows "keeps fr0 b (op_blockhash fr block g)"
  using assms by (cases block) (auto simp: op_blockhash_def items Let_def intro!: frame_rules)

lemma op_blobhash_keeps: "at fr0 xs r fr \<Longrightarrow> keeps fr0 b (op_blobhash fr tx g)"
  by (auto simp: op_blobhash_def items Let_def intro!: frame_rules)


section \<open>State\<close>

context state_provider
begin

abbreviation keeps_state :: "call_frame_t \<Rightarrow> bool \<Rightarrow> 's state_op_result \<Rightarrow> bool" where
  "keeps_state fr0 b m \<equiv> ok b m (\<lambda>(st, fr, state). kept fr0 fr \<and> provides state)"

lemma warm_address_state: "provides state \<Longrightarrow> state_warm_address state addr = (c, state') \<Longrightarrow> provides state'"
  using provides_warm_address [of state addr] by simp

lemma warm_slot_state: "provides state \<Longrightarrow> state_warm_slot state addr slot = (c, state') \<Longrightarrow> provides state'"
  using provides_warm_slot [of state addr slot] by simp

lemma op_account_word_keeps:
  "at fr0 xs r fr \<Longrightarrow> provides state \<Longrightarrow> keeps_state fr0 b (op_account_word f fr state)"
  by (auto 4 10 simp: op_account_word_def items Let_def split: prod.splits intro!: frame_rules dest: warm_address_state)

lemma op_sload_keeps:
  "at fr0 xs r fr \<Longrightarrow> provides state \<Longrightarrow> keeps_state fr0 b (op_sload fr state gas)"
  by (auto 4 10 simp: op_sload_def items Let_def split: prod.splits intro!: frame_rules dest: warm_slot_state)

lemma op_extcodecopy_keeps:
  assumes "at fr0 xs r fr" "provides state" "bad_at xs 1 3 \<longrightarrow> b"
  shows "keeps_state fr0 b (op_extcodecopy fr state)"
proof -
  have len: "length (copy_source (bytes_contents (state_get_code st a)) x sz) = unat sz" if "provides st" for st a x sz
    using provides_code [OF that, of a] by (intro length_copy_source) simp
  have copy: "ok b' (copy_to_memory fr' base x y (copy_source (bytes_contents (state_get_code st a)) z))
      (\<lambda>x. \<forall>status frame. x = (status, frame) \<longrightarrow> kept fr0 frame \<and> provides st)"
    if "at fr0 ys r' fr'" "uval y \<noteq> 0" "bad_access x y \<longrightarrow> b'" "provides st" for fr' ys r' base x y st a z b'
    using that by (intro ok_mono [OF copy_to_memory_keeps]) (auto simp: len)
  show ?thesis
    using assms
    by (auto 4 10 simp: op_extcodecopy_def items bad_at_def Let_def split: prod.splits
      intro!: ok_pop ok_with_gas copy at_kept dest: warm_address_state)
qed

lemma ok_set_storage:
  "provides state \<Longrightarrow> (\<And>state'. provides state' \<Longrightarrow> P state') \<Longrightarrow> ok b (state_set_storage state addr slot v) P"
  using provides_set_storage [of state addr slot v] by auto

lemma op_sstore_keeps:
  assumes "at fr0 xs r fr" "provides state"
  shows "ok b (op_sstore fr state gas refund) (\<lambda>(st, fr, state, _). kept fr0 fr \<and> provides state)"
  using assms
  by (auto 4 10 simp: op_sstore_def items Let_def not_less split: prod.splits
    intro!: ok_set_storage frame_rules gas_at dest: warm_slot_state)

end

section \<open>Logs\<close>

lemma ok_topics:
  "at fr0 xs r fr \<Longrightarrow> n \<le> length xs \<Longrightarrow> (\<And>ts fr'. at fr0 (drop n xs) (r + n) fr' \<Longrightarrow> P (ts, fr')) \<Longrightarrow> ok b (pop_topics n fr) P"
proof (induction n arbitrary: xs r fr P)
  case (Suc n)
  then obtain x ys where xs: "xs = x # ys" by (cases xs) auto
  show ?case unfolding pop_topics.simps ok_bind
  proof (rule ok_pop [OF Suc.prems(1) [unfolded xs]])
    fix fr' assume "at fr0 ys (Suc r) fr'"
    then show "ok b (case (x, fr') of (topic, frame) \<Rightarrow>
        pop_topics n frame \<bind> (\<lambda>(topics, frame). Some (hash_from_uint256 topic # topics, frame))) P"
      using Suc.prems(2,3) xs by (auto intro!: Suc.IH)
  qed
qed auto

lemma arena_at: "at fr0 xs r fr \<Longrightarrow> at fr0 xs r (fr\<lparr>fr_arena := a\<rparr>)"
  by (auto simp: at_def same_env_def)

lemma mem_len_upd [simp]: "mem_len (fr\<lparr>fr_arena := a\<rparr>) = mem_len fr" "mem_len (fr\<lparr>fr_gas := g\<rparr>) = mem_len fr"
  by (simp_all add: mem_len_def)

lemma log_record_keeps:
  assumes "at fr0 xs r fr" "b \<or> sz = 0 \<or> unat offset + unat sz \<le> mem_len fr"
  shows "ok b (log_record logs fr topics offset sz) (\<lambda>(st, fr, logs). kept fr0 fr)"
proof -
  obtain buffer arena where a: "(if sz > 0 then div0_arena_alloc (fr_arena fr) sz else (Some 0, fr_arena fr)) = (buffer, arena)"
    by fastforce
  let ?fr = "fr\<lparr>fr_arena := arena\<rparr>"
  have f: "at fr0 xs r ?fr" using assms(1) by (rule arena_at)
  have load: "ok b (if sz > 0 then do { mem \<leftarrow> fr_memory ?fr; evm_memory_load_unsafe mem offset sz } else Some []) Q"
    if "\<And>d. Q d" for Q
    using assms(2) that ok_load [OF f, of b offset sz Q] by (auto simp: word_gt_0)
  have k: "kept fr0 ?fr" "kept fr0 (?fr\<lparr>fr_arena := a'\<rparr>)" for a'
    using f arena_at [OF f] by (auto intro: at_kept)
  show ?thesis
  proof (cases buffer)
    case None
    then show ?thesis using k(1) unfolding log_record_def a by simp
  next
    case (Some y)
    show ?thesis
      unfolding log_record_def a Let_def prod.case Some if_not_P [OF option.distinct(2)]
        ok_bind [of b "if sz > 0 then _ else _"]
      by (rule load) (auto simp: k(2) [simplified] split: prod.splits)
  qed
qed

lemma op_log_n_keeps:
  assumes "at fr0 xs r fr" "bad_at xs 0 1 \<longrightarrow> b"
  shows "ok b (op_log_n logs fr n) (\<lambda>(st, fr, logs). kept fr0 fr)"
proof (cases "2 + n \<le> length xs")
  case True
  then obtain x y ys where xs: "xs = x # y # ys" "n \<le> length ys" by (cases xs rule: remdups_adj.cases) auto
  show ?thesis
    using assms xs
    by (cases "log_cost n (limb0 y)")
      (auto 4 10 simp: op_log_n_def bad_at_def bad_access_def Let_def uint256_to_u64_unsafe_def not_less word_gt_0
        intro!: ok_pop ok_topics ok_expand log_record_keeps charged_at at_kept)
next
  case False
  then show ?thesis using assms(1) by (auto simp: op_log_n_def intro: at_kept)
qed

end
