(* ===== verification/Call_Laws.thy ===== *)
theory Call_Laws
  imports Opcode_Laws
begin

text \<open>
  What the opcodes keep that move the program counter, and those that call: a call leaves a child
  frame pending whose gas and that of its parent are together less than the gas before the call.
\<close>

unbundle bit_operations_syntax

section \<open>Opcodes that move the program counter\<close>

definition code_bitmap :: "u8 list \<Rightarrow> u8 list" where
  "code_bitmap code = jumpdest_scan code 0 (replicate (jumpdest_bitmap_size (length code)) 0)"

definition push_byte :: "u8 \<Rightarrow> bool" where
  "push_byte b \<longleftrightarrow> 0x60 \<le> b \<and> b \<le> 0x7F"

text \<open>
  Where the program counter, already behind the opcode, may be after it: where it was, at a JUMPDEST
  instruction, or behind the data of a PUSH.
\<close>

definition next_pc :: "call_frame_t \<Rightarrow> u64 \<Rightarrow> bool" where
  "next_pc fr pc \<longleftrightarrow>
     pc = fr_pc fr \<or> valid_destination (fr_code fr) (unat pc) \<or> push_byte (fr_code fr ! (unat (fr_pc fr) - 1))"

text \<open>The frame went on behind its program counter, or it used gas.\<close>

definition moved :: "call_frame_t \<Rightarrow> call_frame_t \<Rightarrow> bool" where
  "moved fr0 fr \<longleftrightarrow>
     (\<exists>pc. kept (fr0\<lparr>fr_pc := pc\<rparr>) fr \<and> (fr_pc fr0 \<le> pc \<or> fr_gas fr < fr_gas fr0) \<and> next_pc fr0 pc)"

lemma kept_moved: "kept fr0 fr \<Longrightarrow> moved fr0 fr"
  unfolding moved_def by (intro exI [of _ "fr_pc fr0"]) (simp add: next_pc_def)

lemma at_moved: "at fr0 xs r fr \<Longrightarrow> moved fr0 fr"
  by (intro kept_moved at_kept)

lemma pc_at: "at fr0 xs r fr \<Longrightarrow> at (fr0\<lparr>fr_pc := pc\<rparr>) xs r (fr\<lparr>fr_pc := pc\<rparr>)"
  by (auto simp: at_def same_env_iff)

lemma read_code_ok:
  assumes "at fr0 xs r fr" "unat (fr_pc fr0) \<le> length (fr_code fr0)" "length (fr_code fr0) < 2 ^ 62"
  shows "\<exists>bs. read_code fr (if n < fr_code_size fr - fr_pc fr then n else fr_code_size fr - fr_pc fr) = Some bs"
proof -
  have env: "fr_pc fr = fr_pc fr0" "fr_code fr = fr_code fr0" using assms(1) by (simp_all add: at_def same_env_iff)
  have "unat (fr_code_size fr) = length (fr_code fr0)" using assms(3) env by (simp add: fr_code_size_def unat_of_nat)
  then have "unat (fr_code_size fr - fr_pc fr) = length (fr_code fr0) - unat (fr_pc fr0)"
    using assms(2) env by (simp add: unat_sub word_le_nat_alt)
  then show ?thesis using assms(2) env by (auto simp: read_code_def word_less_nat_alt)
qed

lemma op_push_n_moves:
  assumes "at fr0 xs r fr" "unat (fr_pc fr0) \<le> length (fr_code fr0)" "length (fr_code fr0) < 2 ^ 62" "n \<le> 32"
    "push_byte (fr_code fr0 ! (unat (fr_pc fr0) - 1))"
  shows "ok b (op_push_n fr n g) (\<lambda>(st, fr). moved fr0 fr)"
proof -
  have "unat n \<le> 32" using assms(4) by (simp add: word_le_nat_alt)
  then have pc: "fr_pc fr0 \<le> fr_pc fr0 + n"
    using assms(2,3) by (simp add: word_le_nat_alt unat_add_lem [THEN iffD1])
  have pushed: "ok b (frame_push (fr'\<lparr>fr_pc := fr_pc fr' + n\<rparr>) x) (moved fr0)" if "at fr0 xs (Suc 0) fr'" for fr' x
  proof (rule ok_push [OF pc_at [OF that]])
    fix fr'' assume "at (fr0\<lparr>fr_pc := fr_pc fr' + n\<rparr>) (x # xs) 0 fr''"
    moreover have "fr_pc fr' = fr_pc fr0" using that by (simp add: at_def same_env_iff)
    moreover have "next_pc fr0 pc" for pc using assms(5) by (auto simp: next_pc_def)
    ultimately show "moved fr0 fr''" using pc at_kept unfolding moved_def by metis
  qed
  have rest: "ok b (read_code fr' (if n < fr_code_size fr' - fr_pc fr' then n else fr_code_size fr' - fr_pc fr'))
      (\<lambda>bs. ok b (frame_push (fr'\<lparr>fr_pc := fr_pc fr' + n\<rparr>) (uint256_from_bytes_be bs)) (moved fr0))"
    if "at fr0 xs (Suc 0) fr'" for fr'
    using read_code_ok [OF that assms(2,3), of n] pushed [OF that] by auto
  have charged: "at fr0 xs (Suc 0) (fr'\<lparr>fr_gas := fr_gas fr' - g\<rparr>)"
    if "at fr0 xs (Suc 0) fr'" "fr_gas fr' = fr_gas fr" "\<not> fr_gas fr < g" for fr'
    using charged_at [OF that(1) refl] that(2,3) by simp
  show ?thesis
  proof (cases "fr_gas fr < g")
    case True
    then show ?thesis using assms(1) by (simp add: op_push_n_def at_moved)
  next
    case False
    show ?thesis unfolding op_push_n_def if_not_P [OF False] ok_bind
      by (rule ok_ensure [OF assms(1)], insert rest [OF charged [OF _ _ False]])
        (auto simp: Let_def intro!: at_moved)
  qed
qed

lemma code_bitmap_valid: "jumpdest_is_valid (code_bitmap code) (length code) dest \<longleftrightarrow> valid_destination code (unat dest)"
  unfolding code_bitmap_def by (rule scan_valid)

text \<open>The jumps, for the bitmap of the code; with a cost above zero they use gas.\<close>

lemma jump_to_moves:
  assumes "at fr0 xs r fr" "fr_gas fr < fr_gas fr0" "bitmap = code_bitmap (fr_code fr0)"
  shows "ok b (jump_to fr bitmap x) (\<lambda>(st, fr). moved fr0 fr)"
proof -
  have "moved fr0 (fr\<lparr>fr_pc := pc\<rparr>)" if "jumpdest_is_valid bitmap (length (fr_code fr)) pc" for pc
  proof -
    have "fr_code fr = fr_code fr0" using assms(1) by (simp add: at_def same_env_iff)
    then have "next_pc fr0 pc" using that assms(3) code_bitmap_valid [of "fr_code fr0" pc] by (simp add: next_pc_def)
    then show ?thesis using at_kept [OF pc_at [OF assms(1), of pc]] assms(2) by (auto simp: moved_def)
  qed
  then show ?thesis using at_moved [OF assms(1)] by (auto simp: jump_to_def Let_def)
qed

lemma ok_pop_gas:
  assumes "at fr0 (x # xs) r fr"
    "\<And>fr'. at fr0 xs (Suc r) fr' \<Longrightarrow> fr_gas fr' = fr_gas fr \<Longrightarrow> fr_arena fr' = fr_arena fr \<Longrightarrow> P (x, fr')"
  shows "ok b (frame_pop fr) P"
  using assms
  by (force simp: at_def frame_pop_def evm_stack_pop_unsafe_def stack_wf_def evm_stack_size_def same_env_def)

lemma less_gas: "g \<noteq> 0 \<Longrightarrow> g \<le> fr_gas fr \<Longrightarrow> fr_gas fr \<le> fr_gas fr0 \<Longrightarrow> fr_gas fr - g < fr_gas fr0"
  using unat_gt_0 [of g] by (auto simp: word_less_nat_alt word_le_nat_alt unat_sub)

lemma at_gas: "at fr0 xs r fr \<Longrightarrow> fr_gas fr \<le> fr_gas fr0"
  by (simp add: at_def)

lemma op_jump_moves:
  assumes "at fr0 xs r fr" "g \<noteq> 0" "bitmap = code_bitmap (fr_code fr0)"
  shows "ok b (op_jump fr bitmap g) (\<lambda>(st, fr). moved fr0 fr)"
  using assms less_gas [OF assms(2) _ at_gas [OF assms(1)]] by (auto simp: op_jump_def items intro!: ok_with_gas ok_pop_gas jump_to_moves at_moved)

lemma op_jumpi_moves:
  assumes "at fr0 xs r fr" "g \<noteq> 0" "bitmap = code_bitmap (fr_code fr0)"
  shows "ok b (op_jumpi fr bitmap g) (\<lambda>(st, fr). moved fr0 fr)"
  using assms less_gas [OF assms(2) _ at_gas [OF assms(1)]] by (auto simp: op_jumpi_def items intro!: ok_with_gas ok_pop_gas jump_to_moves at_moved)

section \<open>Invariants\<close>

text \<open>The EVM object: what its state satisfies, the contexts it needs, and pools of the same depth.\<close>

definition evm_ok :: "'s state_access_vtable_t \<Rightarrow> ('s \<Rightarrow> bool) \<Rightarrow> 's evm_t \<Rightarrow> bool" where
  "evm_ok vt good evm \<longleftrightarrow>
     (\<forall>state. evm_state evm = Some state \<longrightarrow> provided vt good state) \<and> evm_block evm \<noteq> None \<and> evm_tx evm \<noteq> None \<and>
     evm_gas_table evm (opcode OP_JUMP) \<noteq> 0 \<and> evm_gas_table evm (opcode OP_JUMPI) \<noteq> 0 \<and>
     length (evm_return_data evm) < 2 ^ 64 \<and> evm_memory_pool evm = evm_frame_pool evm"

text \<open>A frame with a stack; a frame whose stack could not be allocated has none.\<close>

definition live :: "call_frame_t \<Rightarrow> bool" where
  "live fr \<longleftrightarrow> kept fr fr"

definition frame_ok :: "call_frame_t \<Rightarrow> bool" where
  "frame_ok fr \<longleftrightarrow>
     (fr_stack fr = None \<or> live fr) \<and> (\<exists>m. fr_memory fr = Some m \<and> mem_wf m) \<and>
     length (fr_code fr) < 2 ^ 62 \<and> length (fr_input fr) < 2 ^ 64 \<and> fr_code_hash fr = hash_zero \<and>
     (\<forall>bitmap. fr_jumpdest_bitmap fr = Some bitmap \<longrightarrow> bitmap = code_bitmap (fr_code fr))"

definition frame_items :: "call_frame_t \<Rightarrow> uint256_t list" where
  "frame_items fr = (case fr_stack fr of None \<Rightarrow> [] | Some s \<Rightarrow> stack_items s)"

lemma live_at: "live fr \<Longrightarrow> at fr (frame_items fr) 0 fr"
  by (auto simp: live_def kept_def at_def frame_items_def)

text \<open>What no opcode changes in its frame.\<close>

definition same_call :: "call_frame_t \<Rightarrow> call_frame_t \<Rightarrow> bool" where
  "same_call fr fr' \<longleftrightarrow>
     fr_code fr' = fr_code fr \<and> fr_input fr' = fr_input fr \<and> fr_depth fr' = fr_depth fr \<and>
     fr_exec_type fr' = fr_exec_type fr \<and> fr_is_static fr' = fr_is_static fr \<and> fr_caller fr' = fr_caller fr \<and>
     fr_address fr' = fr_address fr \<and> fr_value fr' = fr_value fr \<and> fr_code_hash fr' = fr_code_hash fr"

definition same_pools :: "'s evm_t \<Rightarrow> 's evm_t \<Rightarrow> bool" where
  "same_pools evm evm' \<longleftrightarrow> evm_frame_pool evm' = evm_frame_pool evm \<and> evm_memory_pool evm' = evm_memory_pool evm"

lemma same_pools_refl [simp]: "same_pools evm evm"
  by (simp add: same_pools_def)

lemma moved_ok:
  assumes "moved fr fr'" "frame_ok fr"
  shows "frame_ok fr'" "live fr'" "same_call fr fr'" "fr_gas fr' \<le> fr_gas fr" "fr_pc fr \<le> fr_pc fr' \<or> fr_gas fr' < fr_gas fr"
    "next_pc fr (fr_pc fr')"
proof -
  obtain pc where k: "kept (fr\<lparr>fr_pc := pc\<rparr>) fr'" "fr_pc fr \<le> pc \<or> fr_gas fr' < fr_gas fr" "next_pc fr pc"
    using assms(1) by (auto simp: moved_def)
  show live: "live fr'" using k(1) by (auto simp: live_def kept_def at_def)
  then show "frame_ok fr'" using k(1) assms(2) by (auto simp: frame_ok_def kept_def at_def same_env_iff)
  show "same_call fr fr'" "fr_gas fr' \<le> fr_gas fr" "fr_pc fr \<le> fr_pc fr' \<or> fr_gas fr' < fr_gas fr"
      "next_pc fr (fr_pc fr')"
    using k by (auto simp: kept_def at_def same_env_iff same_call_def)
qed

text \<open>A region of memory that the frame has.\<close>

definition region_in :: "call_frame_t \<Rightarrow> u64 \<Rightarrow> nat \<Rightarrow> bool" where
  "region_in fr offset n \<longleftrightarrow> n = 0 \<or> unat offset + n \<le> mem_len fr"


text \<open>A child frame is pending, and less gas than before is shared between it and its parent.\<close>

definition call_ready :: "'s evm_t \<Rightarrow> call_frame_t \<Rightarrow> 's evm_t \<Rightarrow> call_frame_t \<Rightarrow> bool" where
  "call_ready evm fr evm' fr' \<longleftrightarrow>
     (\<exists>child. evm_pending_frame evm' = Some child \<and> frame_ok child \<and> fr_depth child = fr_depth fr + 1 \<and>
       unat (fr_gas child) + unat (fr_gas fr') < unat (fr_gas fr)) \<and>
     (\<exists>xs. at fr' xs 1 fr') \<and> region_in fr' (fr_output_offset fr') (unat (fr_output_size fr')) \<and>
     evm_frame_pool evm < 1024 \<and> evm_frame_pool evm' = evm_frame_pool evm + 1 \<and>
     evm_memory_pool evm' = evm_memory_pool evm + 1"

text \<open>The outcomes of a call opcode.\<close>

definition called :: "'s state_access_vtable_t \<Rightarrow> ('s \<Rightarrow> bool) \<Rightarrow> 's evm_t \<Rightarrow> call_frame_t \<Rightarrow>
    call_op_result_t \<times> 's evm_t \<times> call_frame_t \<Rightarrow> bool" where
  "called vt good evm fr = (\<lambda>(res, evm', fr'). evm_ok vt good evm' \<and>
     (if \<not> cor_has_error res \<and> cor_should_call res
      then frame_ok fr' \<and> same_call fr fr' \<and> fr_gas fr' \<le> fr_gas fr \<and> call_ready evm fr evm' fr'
      else same_pools evm evm' \<and> kept fr fr'))"


section \<open>Calls\<close>

text \<open>The two regions of a call end within the first 64 KiB, as far as a memory can grow.\<close>

definition small_region :: "u64 \<Rightarrow> u64 \<Rightarrow> bool" where
  "small_region offset sz \<longleftrightarrow> sz = 0 \<or> unat offset + unat sz \<le> 65536"

definition small_setup :: "call_setup_t \<Rightarrow> bool" where
  "small_setup setup \<longleftrightarrow>
     small_region (cs_args_offset setup) (cs_args_size setup) \<and> small_region (cs_ret_offset setup) (cs_ret_size setup)"

definition region_end :: "u64 \<Rightarrow> u64 \<Rightarrow> u64" where
  "region_end offset sz = (if sz > 0 then offset + sz else 0)"

definition call_end :: "u64 \<Rightarrow> u64 \<Rightarrow> u64 \<Rightarrow> u64 \<Rightarrow> u64" where
  "call_end args_offset args_size ret_offset ret_size = max (region_end args_offset args_size) (region_end ret_offset ret_size)"

lemma unat_region_end: "small_region offset sz \<Longrightarrow> unat (region_end offset sz) = (if sz = 0 then 0 else unat offset + unat sz)"
  by (auto simp: region_end_def small_region_def word_gt_0 unat_add_lem [THEN iffD1])

lemma region_end_small: "small_region offset sz \<Longrightarrow> unat (region_end offset sz) \<le> 65536"
  by (auto simp: unat_region_end small_region_def)

lemma small_no_wrap: "small_region offset sz \<Longrightarrow> \<not> (sz > 0 \<and> offset > NOT 0 - sz)"
  by (auto simp: small_region_def word_less_nat_alt unat_max_minus)

lemma call_memory_cost_small:
  assumes "mem_wf mem" "small_region ao as" "small_region ro rs"
  shows "\<exists>cost. call_memory_cost mem ao as ro rs = (True, cost) \<and> unat cost \<le> 14336"
proof -
  let ?e = "call_end ao as ro rs"
  have e: "unat ?e \<le> 65536" using assms(2,3) region_end_small by (simp add: call_end_def max_def)
  have w: "unat ((?e + 31) div 32) = (unat ?e + 31) div 32" using e by (simp add: unat_div unat_add_lem [THEN iffD1])
  then have new: "unat ((?e + 31) div 32) \<le> 2048" using e by simp
  have old: "unat (evm_memory_size mem div 32) < 2 ^ 32" using mem_size_small [OF assms(1)] by (auto simp: unat_div intro: le_less_trans [OF div_le_dividend])
  have "unat (evm_memory_expansion_cost (evm_memory_size mem div 32) ((?e + 31) div 32)) \<le> memory_cost 2048"
    using new memory_cost_mono [OF new] old by (subst expansion_cost_exact) simp_all
  moreover have "memory_cost 2048 = 14336" by (simp add: memory_cost_def)
  ultimately show ?thesis
    using small_no_wrap [OF assms(2)] small_no_wrap [OF assms(3)]
    by (auto simp: call_memory_cost_def Let_def call_end_def region_end_def max_def not_le split: if_splits)
qed

text \<open>What a call costs, and how the gas that is left is shared.\<close>

definition call_charge :: "bool \<Rightarrow> bool \<Rightarrow> bool \<Rightarrow> u64 \<Rightarrow> u64" where
  "call_charge was_cold transfers_value is_new_account mem_cost =
     (if was_cold then GAS_COLD_ACCOUNT_ACCESS else GAS_WARM_ACCESS) +
     (if transfers_value then GAS_CALL_VALUE + (if is_new_account then GAS_NEW_ACCOUNT else 0) else 0) + mem_cost"

lemma call_charge_above:
  assumes "unat mem_cost \<le> 14336"
  shows "unat (if transfers_value then GAS_CALL_STIPEND else 0) < unat (call_charge was_cold transfers_value is_new mem_cost)"
proof -
  have "unat (a + mem_cost) = unat a + unat mem_cost" if "unat a \<le> 65536" for a :: u64
    using that assms by (simp add: unat_add_lem [THEN iffD1])
  then show ?thesis
    by (simp add: call_charge_def GAS_COLD_ACCOUNT_ACCESS_def GAS_WARM_ACCESS_def GAS_CALL_VALUE_def GAS_NEW_ACCOUNT_def
      GAS_CALL_STIPEND_def)
qed

lemma child_gas_bound: "unat (call_child_gas g requested) \<le> unat g - unat g div 64"
proof -
  have "unat (gas_cap_call g) = unat g - unat g div 64"
    by (simp add: gas_cap_call_def unat_sub word_le_nat_alt unat_div)
  then show ?thesis by (auto simp: call_child_gas_def Let_def word_less_nat_alt)
qed

text \<open>The child and its parent have less gas than before, the stipend included.\<close>

lemma gas_shared:
  fixes gas cost stipend requested :: u64
  assumes "cost \<le> gas" "unat stipend < unat cost" "unat stipend \<le> 2300"
  defines "parent \<equiv> gas - cost"
  defines "child \<equiv> call_child_gas parent requested + stipend"
  defines "deducted \<equiv> (if child - stipend > parent then parent else child - stipend)"
  shows "unat child + unat (parent - deducted) < unat gas" "parent - deducted \<le> gas"
proof -
  have p: "unat parent = unat gas - unat cost" using assms(1) by (simp add: parent_def unat_sub)
  let ?c = "call_child_gas parent requested"
  have c: "unat ?c \<le> unat parent" "unat ?c + 2300 < 2 ^ 64"
    using child_gas_bound [of parent requested] unat_u64_less [of parent] by simp_all
  then have ch: "unat child = unat ?c + unat stipend" "child - stipend = ?c"
    using assms(3) by (simp_all add: child_def unat_add_lem [THEN iffD1])
  then have d: "unat (parent - deducted) = unat parent - unat ?c"
    using c(1) by (simp add: deducted_def word_less_nat_alt unat_sub word_le_nat_alt)
  show "unat child + unat (parent - deducted) < unat gas"
    using ch(1) d c(1) p assms(1,2) by (simp add: word_le_nat_alt)
  show "parent - deducted \<le> gas" using d p by (simp add: word_le_nat_alt)
qed

context state_provider
begin

lemma calculate_call_gas_law:
  assumes "at fr0 xs r fr" "small_setup setup" "provides state"
  shows "ok b (calculate_call_gas fr setup args state transfers is_new) (\<lambda>(enough, child, fr', state').
    provides state' \<and> at fr0 xs r fr' \<and> fr_arena fr' = fr_arena fr \<and>
    (enough \<longrightarrow> unat child + unat (fr_gas fr') < unat (fr_gas fr)))"
proof -
  obtain mem where mem: "fr_memory fr = Some mem" "mem_wf mem" using assms(1) by (auto simp: at_def)
  obtain cold state' where w: "state_warm_address state (cs_target setup) = (cold, state')" by force
  obtain cost where c: "call_memory_cost mem (cs_args_offset setup) (cs_args_size setup) (cs_ret_offset setup)
      (cs_ret_size setup) = (True, cost)" "unat cost \<le> 14336"
    using call_memory_cost_small [OF mem(2)] assms(2) unfolding small_setup_def by blast
  have p: "provides state'" using warm_address_state [OF assms(3) w] .
  let ?cost = "call_charge cold transfers is_new cost" and ?stipend = "if transfers then GAS_CALL_STIPEND else 0"
  have st: "unat ?stipend \<le> 2300" by (simp add: GAS_CALL_STIPEND_def)
  note shared = gas_shared [OF _ call_charge_above [OF c(2), of transfers cold is_new] st, of "fr_gas fr"]
  have kept: "at fr0 xs r (fr\<lparr>fr_gas := g\<rparr>)" if "g \<le> fr_gas fr" for g
    using charged_at [OF assms(1) refl, of "fr_gas fr - g"] that by (simp add: word_le_nat_alt unat_sub)
  show ?thesis
    using p assms(1) shared kept
    by (auto simp: calculate_call_gas_def w mem c(1) Let_def not_less call_charge_def [symmetric])
qed

end

lemma expand_call_memory_end:
  "expand_call_memory frame setup =
    (let args_end = region_end (cs_args_offset setup) (cs_args_size setup);
         ret_end = region_end (cs_ret_offset setup) (cs_ret_size setup);
         max_end = (if ret_end > args_end then ret_end else args_end)
     in do {
       mem \<leftarrow> fr_memory frame;
       if max_end > evm_memory_size mem
       then do { (_, _, frame) \<leftarrow> frame_expand frame 0 max_end; Some frame } else Some frame
     })"
  by (simp only: expand_call_memory_def Let_def region_end_def)

lemma expand_call_memory_law:
  assumes "at fr0 xs r fr" "small_setup setup" "\<not> arena_exhausted (fr_arena fr)"
  shows "ok b (expand_call_memory fr setup) (\<lambda>fr'. at fr0 xs r fr' \<and> fr_gas fr' = fr_gas fr \<and>
    region_in fr' (cs_args_offset setup) (unat (cs_args_size setup)) \<and>
    region_in fr' (cs_ret_offset setup) (unat (cs_ret_size setup)))"
proof -
  let ?a = "region_end (cs_args_offset setup) (cs_args_size setup)" and ?r = "region_end (cs_ret_offset setup) (cs_ret_size setup)"
  define e where "e = (if ?r > ?a then ?r else ?a)"
  obtain m where m: "fr_memory fr = Some m" "mem_wf m" using assms(1) by (auto simp: at_def)
  have s: "small_region (cs_args_offset setup) (cs_args_size setup)" "small_region (cs_ret_offset setup) (cs_ret_size setup)"
    using assms(2) by (simp_all add: small_setup_def)
  have e: "unat e \<le> 65536" using region_end_small [OF s(1)] region_end_small [OF s(2)] by (simp add: e_def)
  have reg: "region_in fr' (cs_args_offset setup) (unat (cs_args_size setup)) \<and>
      region_in fr' (cs_ret_offset setup) (unat (cs_ret_size setup))" if "unat e \<le> mem_len fr'" for fr'
    using that unat_region_end [OF s(1)] unat_region_end [OF s(2)]
    by (auto simp: e_def region_in_def word_less_nat_alt split: if_splits)
  have size: "unat (evm_memory_size m) = mem_len fr" using mem_size_small [OF m(2)] m(1) by (simp add: mem_len_def)
  show ?thesis
  proof (cases "e > evm_memory_size m")
    case True
    then have "e \<noteq> 0" by auto
    with expand_inside [OF m(2), of e 0 "fr_arena fr" 0] e assms(3)
    obtain cost m' a' where x: "evm_memory_expand m (fr_arena fr) 0 e 0 = Some (True, cost, m', a')" "mem_wf m'"
      "mem_data m' = expanded m (unat e)" by fastforce
    let ?fr = "fr\<lparr>fr_memory := Some m', fr_arena := a'\<rparr>"
    have "at fr0 xs r ?fr" using assms(1) x(2) by (auto simp: at_def same_env_def)
    moreover have "unat e \<le> mem_len ?fr" using expanded_length [of "unat e" m] x(3) by (simp add: mem_len_def)
    moreover have "expand_call_memory fr setup = Some ?fr"
      using True x(1) m(1) by (simp add: expand_call_memory_end Let_def e_def [symmetric] frame_expand_def)
    ultimately show ?thesis using reg by simp
  next
    case False
    then have "unat e \<le> mem_len fr" using size by (simp add: word_less_nat_alt not_less)
    moreover have "expand_call_memory fr setup = Some fr"
      using False m(1) by (simp add: expand_call_memory_end Let_def e_def [symmetric])
    ultimately show ?thesis using reg assms(1) by simp
  qed
qed

text \<open>
  What a preparation leaves: the frame without its arguments, which has room for the flag, and where
  the call goes ahead the regions in memory and the gas shared.
\<close>

definition prepared :: "call_frame_t \<Rightarrow> call_frame_t \<Rightarrow> call_setup_t \<Rightarrow> call_frame_t \<Rightarrow> bool" where
  "prepared fr0 fr setup fr' \<longleftrightarrow>
     kept fr0 fr' \<and> (cs_status setup \<in> {EVM_OK, EVM_CALL_DEPTH_EXCEEDED} \<longrightarrow> (\<exists>ys. at fr0 ys 1 fr')) \<and>
     (cs_status setup = EVM_OK \<longrightarrow>
       region_in fr' (cs_args_offset setup) (unat (cs_args_size setup)) \<and>
       region_in fr' (cs_ret_offset setup) (unat (cs_ret_size setup)) \<and> unat (cs_ret_size setup) \<le> 65536 \<and>
       unat (cs_child_gas setup) + unat (fr_gas fr') < unat (fr_gas fr))"

lemma prepared_error: "at fr0 xs r fr' \<Longrightarrow> st \<notin> {EVM_OK, EVM_CALL_DEPTH_EXCEEDED} \<Longrightarrow> prepared fr0 fr (setup\<lparr>cs_status := st\<rparr>) fr'"
  by (auto simp: prepared_def at_kept)

context state_provider
begin

lemma prepare_target_law:
  assumes "at fr0 xs (Suc r) fr" "small_setup setup" "provides state" "\<not> arena_exhausted (fr_arena fr)"
    "cs_status setup = EVM_OK"
  shows "ok b (prepare_target fr state args setup transfers charges)
    (\<lambda>(setup, fr', state). provides state \<and> prepared fr0 fr setup fr')"
proof -
  let ?s = "setup\<lparr>cs_target := address_from_uint256 (ca_addr args)\<rparr>"
  have small: "small_setup (?s\<lparr>cs_child_gas := c\<rparr>)" for c using assms(2) by (simp add: small_setup_def)
  have ret: "unat (cs_ret_size setup) \<le> 65536" using assms(2) by (auto simp: small_setup_def small_region_def)
  have expand: "ok b (expand_call_memory fr' (?s\<lparr>cs_child_gas := c\<rparr>)) (prepared fr0 fr (?s\<lparr>cs_child_gas := c\<rparr>))"
    if "at fr0 xs (Suc r) fr'" "fr_arena fr' = fr_arena fr" "unat c + unat (fr_gas fr') < unat (fr_gas fr)" for fr' c
    using that assms(4,5) ret
    by (intro ok_mono [OF expand_call_memory_law [OF that(1) small]])
      (auto simp: prepared_def intro!: at_kept intro: at_less_room)
  have calc: "ok b (calculate_call_gas fr ?s args state transfers n) (\<lambda>(enough, child, fr', state').
      provides state' \<and> at fr0 xs (Suc r) fr' \<and> fr_arena fr' = fr_arena fr \<and>
      (enough \<longrightarrow> unat child + unat (fr_gas fr') < unat (fr_gas fr)))" for n
    using assms by (intro calculate_call_gas_law) (simp_all add: small_setup_def)
  show ?thesis unfolding prepare_target_def Let_def ok_bind
    by (rule ok_mono [OF calc]) (auto intro: prepared_error ok_mono [OF expand])
qed

end

lemma pop_call_args_law:
  assumes "at fr0 (g # a # v # ao # as # ro # rs # ys) r fr"
    "\<And>fr'. at fr0 ys (7 + r) fr' \<Longrightarrow> fr_gas fr' = fr_gas fr \<Longrightarrow> fr_arena fr' = fr_arena fr \<Longrightarrow>
      P (\<lparr>ca_requested_gas = g, ca_addr = a, ca_value = v, ca_args_offset = ao, ca_args_size = as, ca_ret_offset = ro,
        ca_ret_size = rs\<rparr>, fr')"
  shows "ok b (pop_call_args fr) P"
  using assms by (auto simp: pop_call_args_def eval_nat_numeral intro!: ok_pop_gas)

lemma pop_call_args_no_value_law:
  assumes "at fr0 (g # a # ao # as # ro # rs # ys) r fr"
    "\<And>fr'. at fr0 ys (6 + r) fr' \<Longrightarrow> fr_gas fr' = fr_gas fr \<Longrightarrow> fr_arena fr' = fr_arena fr \<Longrightarrow>
      P (\<lparr>ca_requested_gas = g, ca_addr = a, ca_value = uint256_zero, ca_args_offset = ao, ca_args_size = as,
        ca_ret_offset = ro, ca_ret_size = rs\<rparr>, fr')"
  shows "ok b (pop_call_args_no_value fr) P"
  using assms by (auto simp: pop_call_args_no_value_def eval_nat_numeral intro!: ok_pop_gas)

text \<open>The two regions, named by four words of the stack from a position on.\<close>

definition small_access :: "uint256_t \<Rightarrow> uint256_t \<Rightarrow> bool" where
  "small_access x y \<longleftrightarrow> uint256_fits_u64 x \<and> uint256_fits_u64 y \<longrightarrow> small_region (limb0 x) (limb0 y)"

definition small_call :: "nat \<Rightarrow> uint256_t list \<Rightarrow> bool" where
  "small_call k xs \<longleftrightarrow>
     k + 3 < length xs \<longrightarrow> small_access (xs ! k) (xs ! (k + 1)) \<and> small_access (xs ! (k + 2)) (xs ! (k + 3))"

lemma validate_small:
  assumes "small_access (ca_args_offset args) (ca_args_size args)" "small_access (ca_ret_offset args) (ca_ret_size args)"
    "validate_memory_args args setup = (True, setup')"
  shows "small_setup setup'" "cs_status setup' = cs_status setup" "cs_value setup' = cs_value setup"
  using assms by (auto simp: validate_memory_args_def small_setup_def small_access_def uint256_to_u64_unsafe_def split: if_splits)

lemma prepared_depth:
  "at fr0 xs r fr' \<Longrightarrow> 0 < r \<Longrightarrow> prepared fr0 fr (setup\<lparr>cs_status := EVM_CALL_DEPTH_EXCEEDED\<rparr>) fr'"
  using at_less_room [of fr0 xs r fr' 1] by (auto simp: prepared_def at_kept)

lemma prepared_gas: "prepared fr0 fr1 setup fr' \<Longrightarrow> fr_gas fr1 = fr_gas fr \<Longrightarrow> prepared fr0 fr setup fr'"
  by (simp add: prepared_def)

lemma items6: "6 \<le> length xs \<Longrightarrow> \<exists>a b c d e f ys. xs = a # b # c # d # e # f # ys"
  by (auto simp: eval_nat_numeral Suc_le_length_iff)

lemma items7: "7 \<le> length xs \<Longrightarrow> \<exists>a b c d e f g ys. xs = a # b # c # d # e # f # g # ys"
  by (auto simp: eval_nat_numeral Suc_le_length_iff)

context state_provider
begin

lemma prepare_with_value_law:
  assumes "at fr0 xs r fr" "small_call 3 xs" "provides state" "\<not> arena_exhausted (fr_arena fr)"
  shows "ok b (prepare_with_value charges fr state) (\<lambda>(setup, fr', state). provides state \<and> prepared fr0 fr setup fr')"
proof (cases "7 \<le> length xs")
  case True
  then obtain g a v ao as ro rs ys where xs: "xs = g # a # v # ao # as # ro # rs # ys" using items7 by blast
  let ?args = "\<lparr>ca_requested_gas = g, ca_addr = a, ca_value = v, ca_args_offset = ao, ca_args_size = as,
    ca_ret_offset = ro, ca_ret_size = rs\<rparr>"
  obtain fits su where v: "validate_memory_args ?args (call_setup_empty\<lparr>cs_value := v\<rparr>) = (fits, su)" by force
  have small: "fits \<longrightarrow> small_setup su \<and> cs_status su = EVM_OK"
    using validate_small [of ?args "call_setup_empty\<lparr>cs_value := v\<rparr>" su] v assms(2)
    by (auto simp: small_call_def xs call_setup_empty_def)
  have target: "ok b (prepare_target fr' state ?args su t c) (\<lambda>(setup, fr', state). provides state \<and> prepared fr0 fr setup fr')"
    if "at fr0 ys (7 + r) fr'" "fr_gas fr' = fr_gas fr" "fr_arena fr' = fr_arena fr" fits for fr' t c
    by (rule ok_mono [OF prepare_target_law [of fr0 ys "r + 6"]], insert that small assms(3,4))
      (auto intro: prepared_gas)
  show ?thesis
    using assms(1,3) True unfolding prepare_with_value_def xs
    by (auto simp: v Let_def intro!: pop_call_args_law [OF assms(1) [unfolded xs]] target
      prepared_error prepared_depth)
next
  case False
  then show ?thesis using assms(1,3) by (auto simp: prepare_with_value_def intro: prepared_error)
qed

lemma prepare_without_value_law:
  assumes "at fr0 xs r fr" "small_call 2 xs" "provides state" "\<not> arena_exhausted (fr_arena fr)"
  shows "ok b (prepare_without_value fr state) (\<lambda>(setup, fr', state). provides state \<and> prepared fr0 fr setup fr')"
proof (cases "6 \<le> length xs")
  case True
  then obtain g a ao as ro rs ys where xs: "xs = g # a # ao # as # ro # rs # ys" using items6 by blast
  let ?args = "\<lparr>ca_requested_gas = g, ca_addr = a, ca_value = uint256_zero, ca_args_offset = ao, ca_args_size = as,
    ca_ret_offset = ro, ca_ret_size = rs\<rparr>"
  obtain fits su where v: "validate_memory_args ?args call_setup_empty = (fits, su)" by force
  have small: "fits \<longrightarrow> small_setup su \<and> cs_status su = EVM_OK"
    using validate_small [of ?args call_setup_empty su] v assms(2)
    by (auto simp: small_call_def xs call_setup_empty_def)
  have target: "ok b (prepare_target fr' state ?args su t c) (\<lambda>(setup, fr', state). provides state \<and> prepared fr0 fr setup fr')"
    if "at fr0 ys (6 + r) fr'" "fr_gas fr' = fr_gas fr" "fr_arena fr' = fr_arena fr" fits for fr' t c
    by (rule ok_mono [OF prepare_target_law [of fr0 ys "r + 5"]], insert that small assms(3,4))
      (auto intro: prepared_gas)
  show ?thesis
    using assms(1,3) True unfolding prepare_without_value_def xs
    by (auto simp: v Let_def intro!: pop_call_args_no_value_law [OF assms(1) [unfolded xs]] target
      prepared_error prepared_depth)
next
  case False
  then show ?thesis using assms(1,3) by (auto simp: prepare_without_value_def intro: prepared_error)
qed

end

lemma borrow_wf:
  assumes "evm_stack_pool_borrow arena = (Some s, arena')"
  shows "stack_wf s" "stack_items s = []"
  using assms
  by (auto simp: evm_stack_pool_borrow_def evm_stack_init_def stack_wf_def evm_stack_size_def EVM_STACK_INITIAL_CAPACITY_def
    split: prod.splits option.splits)

lemma child_frame_ok:
  assumes "evm_stack_pool_borrow arena = (stack, arena')" "length code < 2 ^ 62" "length input < 2 ^ 64"
  shows "frame_ok (fr\<lparr>fr_pc := pc, fr_gas := g, fr_stack := stack, fr_memory := Some evm_memory_init, fr_code := code,
    fr_output_offset := oo, fr_output_size := os, fr_depth := d, fr_input := input, fr_exec_type := t, fr_is_static := is,
    fr_caller := c, fr_address := a, fr_value := v, fr_jumpdest_bitmap := None, fr_code_hash := hash_zero,
    fr_arena := arena'\<rparr>)"
proof -
  have "mem_wf evm_memory_init" by (simp add: mem_wf_def evm_memory_init_def)
  then show ?thesis
    using assms borrow_wf by (cases stack) (auto simp: frame_ok_def live_def kept_def at_def)
qed

context state_provider
begin

lemma init_child_frame_law:
  assumes "evm_ok vt good evm" "at fr ys 1 fr'" "length code < 2 ^ 62"
    "region_in fr' (cs_args_offset setup) (unat (cs_args_size setup))"
    "region_in fr' (cs_ret_offset setup) (unat (cs_ret_size setup))" "unat (cs_ret_size setup) \<le> 65536"
  shows "ok b (init_child_frame evm fr' setup code params) (\<lambda>(child, evm', fr'').
    case child of
      None \<Rightarrow> evm' = evm \<and> fr'' = fr'
    | Some child \<Rightarrow>
        frame_ok child \<and> fr_depth child = fr_depth fr' + 1 \<and> fr_gas child = cs_child_gas setup \<and>
        evm_frame_pool evm < 1024 \<and> evm' = evm\<lparr>evm_frame_pool := evm_frame_pool evm + 1, evm_memory_pool := evm_memory_pool evm + 1\<rparr> \<and>
        (\<exists>arena. fr'' = fr'\<lparr>fr_output_offset := cs_ret_offset setup, fr_output_size := ucast (cs_ret_size setup), fr_arena := arena\<rparr>) \<and>
        region_in fr'' (fr_output_offset fr'') (unat (fr_output_size fr'')))"
proof (cases "1024 \<le> evm_frame_pool evm")
  case True
  then show ?thesis by (simp add: init_child_frame_def call_frame_pool_rent_def EVM_MAX_CALL_DEPTH_def)
next
  case False
  obtain stack arena where st: "evm_stack_pool_borrow (fr_arena fr') = (stack, arena)" by force
  have pool: "evm_memory_pool evm = evm_frame_pool evm" using assms(1) by (simp add: evm_ok_def)
  have sz: "unat (ucast (cs_ret_size setup) :: u32) = unat (cs_ret_size setup)"
    using assms(6) by (simp add: unsigned_ucast_eq take_bit_nat_eq_self)
  let ?i = "if cs_args_size setup > 0
    then do { mem \<leftarrow> fr_memory fr'; evm_memory_ptr_unsafe mem (cs_args_offset setup) (cs_args_size setup) } else Some []"
  have input: "\<exists>input. ?i = Some input \<and> length input < 2 ^ 64"
    using ok_ptr [OF assms(2), of False "cs_args_offset setup" "cs_args_size setup" "\<lambda>d. length d < 2 ^ 64"]
      assms(4) unat_u64_less [of "cs_args_size setup"]
    by (auto simp: region_in_def word_gt_0 unat_eq_0 dest!: ok_defined)
  then obtain input where i: "?i = Some input" "length input < 2 ^ 64" by blast
  show ?thesis
    using False st i(1) pool assms(5) sz child_frame_ok [OF st assms(3) i(2)]
    by (auto simp: init_child_frame_def call_frame_pool_rent_def evm_memory_pool_borrow_def EVM_MAX_CALL_DEPTH_def Let_def
      region_in_def mem_len_def)
qed

lemma evm_ok_state: "evm_ok vt good evm \<Longrightarrow> provides state \<Longrightarrow> evm_ok vt good (evm\<lparr>evm_state := Some state\<rparr>)"
  by (simp add: evm_ok_def)

lemma evm_ok_pending [simp]: "evm_ok vt good (evm\<lparr>evm_pending_frame := p\<rparr>) = evm_ok vt good evm"
  by (simp add: evm_ok_def)

lemma evm_ok_pools [simp]:
  "evm_ok vt good evm \<Longrightarrow> evm_ok vt good (evm\<lparr>evm_frame_pool := evm_frame_pool evm + 1, evm_memory_pool := evm_memory_pool evm + 1\<rparr>)"
  by (simp add: evm_ok_def)

lemma call_failed_law:
  assumes "evm_ok vt good evm'" "same_pools evm evm'" "\<exists>ys. at fr ys 1 fr'"
  shows "ok b (call_failed evm' fr') (called vt good evm fr)"
  using assms by (auto simp: call_failed_def called_def call_op_continue_def intro!: ok_push at_kept)

lemma call_ready_intro:
  assumes "evm_ok vt good evm'" "same_pools evm evm'" "frame_ok fr" "at fr ys 1 fr1"
    "frame_ok child" "fr_depth child = fr_depth fr1 + 1" "unat (fr_gas child) + unat (fr_gas fr1) < unat (fr_gas fr)"
    "evm_frame_pool evm' < 1024" "region_in (fr1\<lparr>fr_output_offset := oo, fr_output_size := os, fr_arena := a\<rparr>) oo (unat os)"
  shows "called vt good evm fr (call_op_call, evm'\<lparr>evm_frame_pool := evm_frame_pool evm' + 1,
    evm_memory_pool := evm_memory_pool evm' + 1, evm_pending_frame := Some child\<rparr>, fr1\<lparr>fr_output_offset := oo, fr_output_size := os, fr_arena := a\<rparr>)"
proof -
  let ?fr2 = "fr1\<lparr>fr_output_offset := oo, fr_output_size := os, fr_arena := a\<rparr>"
  have "at ?fr2 ys 1 ?fr2" using assms(4) by (auto simp: at_def)
  moreover have "same_call fr ?fr2" "fr_gas ?fr2 \<le> fr_gas fr" "fr_depth fr1 = fr_depth fr" "fr_gas ?fr2 = fr_gas fr1"
    using assms(4) by (auto simp: at_def same_env_iff same_call_def)
  moreover have "frame_ok ?fr2"
    using moved_ok(1) [OF at_moved [OF assms(4)] assms(3)] by (auto simp: frame_ok_def live_def kept_def at_def)
  moreover have "evm_ok vt good (evm'\<lparr>evm_frame_pool := evm_frame_pool evm' + 1, evm_memory_pool := evm_memory_pool evm' + 1,
      evm_pending_frame := Some child\<rparr>)"
    using assms(1) by (simp add: evm_ok_def)
  ultimately show ?thesis
    using assms(2,5-9) by (auto simp: called_def call_op_call_def call_ready_def same_pools_def)
qed

lemma enter_call_law:
  assumes "evm_ok vt good evm" "frame_ok fr" "prepared fr fr setup fr'" "cs_status setup = EVM_OK" "provides state"
    "same_pools evm0 evm"
  shows "ok b (enter_call evm state fr' setup params) (called vt good evm0 fr)"
proof -
  let ?evm = "evm\<lparr>evm_state := Some state\<rparr>"
  have evm: "evm_ok vt good ?evm" using assms(1,5) by (rule evm_ok_state)
  have pools: "same_pools evm0 ?evm" using assms(6) by (simp add: same_pools_def)
  obtain ys where ys: "at fr ys 1 fr'" and p: "region_in fr' (cs_args_offset setup) (unat (cs_args_size setup))"
      "region_in fr' (cs_ret_offset setup) (unat (cs_ret_size setup))" "unat (cs_ret_size setup) \<le> 65536"
      "unat (cs_child_gas setup) + unat (fr_gas fr') < unat (fr_gas fr)"
    using assms(3,4) by (auto simp: prepared_def)
  have code: "length (bytes_contents (state_get_code state (cs_target setup))) < 2 ^ 62" using provides_code [OF assms(5)] .
  have ready: "called vt good evm0 fr (call_op_call, ?evm\<lparr>evm_frame_pool := evm_frame_pool ?evm + 1,
      evm_memory_pool := evm_memory_pool ?evm + 1, evm_pending_frame := Some child\<rparr>,
      fr'\<lparr>fr_output_offset := oo, fr_output_size := os, fr_arena := a\<rparr>)"
    if "frame_ok child" "fr_depth child = fr_depth fr' + 1" "fr_gas child = cs_child_gas setup" "evm_frame_pool evm < 1024"
      "region_in (fr'\<lparr>fr_output_offset := oo, fr_output_size := os, fr_arena := a\<rparr>) oo (unat os)" for child oo os a
    using that p(4) by (intro call_ready_intro [OF evm pools assms(2) ys]) simp_all
  have failed: "ok b (call_failed ?evm fr') (called vt good evm0 fr)" using call_failed_law [OF evm pools] ys by blast
  show ?thesis unfolding enter_call_def Let_def ok_bind
    by (rule ok_mono [OF init_child_frame_law [OF evm ys code p(1-3)]], clarify, rename_tac child evm' fr'', case_tac child)
      (auto simp: failed ready [simplified])
qed

text \<open>The four opcodes.\<close>

lemma called_error: "evm_ok vt good evm' \<Longrightarrow> same_pools evm evm' \<Longrightarrow> kept fr fr' \<Longrightarrow> called vt good evm fr (call_op_error st, evm', fr')"
  by (simp add: called_def call_op_error_def)

lemma after_prepare:
  assumes "evm_ok vt good evm" "frame_ok fr" "prepared fr fr setup fr'" "provides state"
    "cs_status setup = EVM_OK \<Longrightarrow> ok b m (called vt good evm fr)"
  shows "ok b (if cs_status setup = EVM_CALL_DEPTH_EXCEEDED then call_failed (evm\<lparr>evm_state := Some state\<rparr>) fr'
    else if cs_status setup \<noteq> EVM_OK then Some (call_op_error (cs_status setup), evm\<lparr>evm_state := Some state\<rparr>, fr')
    else m) (called vt good evm fr)"
proof -
  have e: "evm_ok vt good (evm\<lparr>evm_state := Some state\<rparr>)" "same_pools evm (evm\<lparr>evm_state := Some state\<rparr>)"
    using evm_ok_state [OF assms(1,4)] by (simp_all add: same_pools_def)
  have k: "kept fr fr'" and room: "cs_status setup = EVM_CALL_DEPTH_EXCEEDED \<Longrightarrow> \<exists>ys. at fr ys 1 fr'"
    using assms(3) by (auto simp: prepared_def)
  show ?thesis using e k room assms(5) by (auto intro!: called_error call_failed_law)
qed

end

lemma ok_ifI: "(c \<Longrightarrow> ok b m P) \<Longrightarrow> (\<not> c \<Longrightarrow> ok b m' P) \<Longrightarrow> ok b (if c then m else m') P"
  by simp

lemma ok_bindI: "ok b m (\<lambda>x. ok b (f x) P) \<Longrightarrow> ok b (Option.bind m f) P"
  by simp

context state_provider
begin

lemma transfer_law:
  assumes "provides state" "\<And>state'. provides state' \<Longrightarrow> P state'"
  shows "ok b (if c then Some state else do {
      (_, state) \<leftarrow> state_sub_balance state a v;
      (_, state) \<leftarrow> state_add_balance state a' v';
      Some state
    }) P"
proof -
  obtain k1 s1 where s1: "state_sub_balance state a v = Some (k1, s1)" "provides s1" using provides_sub_balance [OF assms(1)] by blast
  obtain k2 s2 where "state_add_balance s1 a' v' = Some (k2, s2)" "provides s2" using provides_add_balance [OF s1(2)] by blast
  then show ?thesis using s1 assms by simp
qed

text \<open>Every call opcode prepares, fails or goes on, for a state or without one.\<close>

lemma call_prepared:
  assumes "evm_ok vt good evm" "frame_ok fr"
    "ok b m (\<lambda>(su, fr', state). provides state \<and> prepared fr fr su fr')"
    "\<And>su fr' state. provides state \<Longrightarrow> prepared fr fr su fr' \<Longrightarrow> cs_status su = EVM_OK \<Longrightarrow>
      ok b (k su fr' state) (called vt good evm fr)"
  shows "ok b (m \<bind> (\<lambda>(su, fr', state).
      if cs_status su = EVM_CALL_DEPTH_EXCEEDED then call_failed (evm\<lparr>evm_state := Some state\<rparr>) fr'
      else if cs_status su \<noteq> EVM_OK then Some (call_op_error (cs_status su), evm\<lparr>evm_state := Some state\<rparr>, fr')
      else k su fr' state)) (called vt good evm fr)"
  unfolding ok_bind
  by (rule ok_mono [OF assms(3)]) (auto simp only: prod.case intro: after_prepare [OF assms(1,2)] assms(4))

lemma entered:
  assumes "evm_ok vt good evm" "frame_ok fr" "provides state" "prepared fr fr su fr'" "cs_status su = EVM_OK" "provides state'"
  shows "ok b (enter_call (evm\<lparr>evm_state := Some state\<rparr>) state' fr' su params) (called vt good evm fr)"
  by (rule enter_call_law [OF evm_ok_state [OF assms(1,3)] assms(2,4,5,6)]) (simp add: same_pools_def)

lemma rejected:
  assumes "evm_ok vt good evm" "provides state" "prepared fr fr su fr'" "cs_status su = EVM_OK"
  shows "ok b (call_failed (evm\<lparr>evm_state := Some state\<rparr>) fr') (called vt good evm fr)"
  by (rule call_failed_law [OF evm_ok_state [OF assms(1,2)]], insert assms(3,4)) (auto simp: same_pools_def prepared_def)

lemma no_state:
  "evm_ok vt good evm \<Longrightarrow> live fr \<Longrightarrow> called vt good evm fr (call_op_error st, evm, fr)"
  by (simp add: called_error live_def)

lemma has_state: "evm_ok vt good evm \<Longrightarrow> evm_state evm = Some state \<Longrightarrow> provides state"
  by (simp add: evm_ok_def)

lemma op_call_law:
  assumes "evm_ok vt good evm" "frame_ok fr" "live fr" "small_call 3 (frame_items fr)" "\<not> arena_exhausted (fr_arena fr)"
  shows "ok b (op_call evm fr) (called vt good evm fr)"
proof (cases "evm_state evm")
  case None
  then show ?thesis using no_state assms(1,3) by (simp add: op_call_def)
next
  case (Some state)
  show ?thesis unfolding op_call_def prepare_call_def Some option.case Let_def
    by (rule call_prepared [OF assms(1,2) prepare_with_value_law [OF live_at [OF assms(3)] assms(4) has_state [OF assms(1) Some] assms(5)]],
      rule ok_ifI, rule rejected [OF assms(1)], assumption+,
      rule ok_bindI, rule transfer_law, assumption, rule entered [OF assms(1,2)])
qed

lemma op_callcode_law:
  assumes "evm_ok vt good evm" "frame_ok fr" "live fr" "small_call 3 (frame_items fr)" "\<not> arena_exhausted (fr_arena fr)"
  shows "ok b (op_callcode evm fr) (called vt good evm fr)"
proof (cases "evm_state evm")
  case None
  then show ?thesis using no_state assms(1,3) by (simp add: op_callcode_def)
next
  case (Some state)
  show ?thesis unfolding op_callcode_def prepare_callcode_def Some option.case Let_def
    by (rule call_prepared [OF assms(1,2) prepare_with_value_law [OF live_at [OF assms(3)] assms(4) has_state [OF assms(1) Some] assms(5)]],
      rule ok_ifI, rule rejected [OF assms(1)], assumption+, rule entered [OF assms(1,2)])
qed

lemma op_staticcall_law:
  assumes "evm_ok vt good evm" "frame_ok fr" "live fr" "small_call 2 (frame_items fr)" "\<not> arena_exhausted (fr_arena fr)"
  shows "ok b (op_staticcall evm fr) (called vt good evm fr)"
proof (cases "evm_state evm")
  case None
  then show ?thesis using no_state assms(1,3) by (simp add: op_staticcall_def)
next
  case (Some state)
  show ?thesis unfolding op_staticcall_def prepare_staticcall_def Some option.case Let_def
    by (rule call_prepared [OF assms(1,2) prepare_without_value_law [OF live_at [OF assms(3)] assms(4) has_state [OF assms(1) Some] assms(5)]],
      rule entered [OF assms(1,2)])
qed

lemma op_delegatecall_law:
  assumes "evm_ok vt good evm" "frame_ok fr" "live fr" "small_call 2 (frame_items fr)" "\<not> arena_exhausted (fr_arena fr)"
  shows "ok b (op_delegatecall evm fr) (called vt good evm fr)"
proof (cases "evm_state evm")
  case None
  then show ?thesis using no_state assms(1,3) by (simp add: op_delegatecall_def)
next
  case (Some state)
  show ?thesis unfolding op_delegatecall_def prepare_delegatecall_def Some option.case Let_def
    by (rule call_prepared [OF assms(1,2) prepare_without_value_law [OF live_at [OF assms(3)] assms(4) has_state [OF assms(1) Some] assms(5)]],
      rule entered [OF assms(1,2)])
qed

end

end
