(* ===== verification/Evm_Safety.thy ===== *)
theory Evm_Safety
  imports Call_Laws
begin

text \<open>
  What one step of the interpreter keeps, for every handler of the dispatch table, and the conditions
  under which an opcode may be undefined.
\<close>

section \<open>Hazards\<close>

text \<open>
  The accesses the code does not guard: a memory region whose expansion does not return or is
  skipped, DUP on a full stack, and the regions of a call when memory cannot grow to hold them.
\<close>

definition dup_overflows :: "nat \<Rightarrow> call_frame_t \<Rightarrow> bool" where
  "dup_overflows n fr \<longleftrightarrow>
     n \<le> length (frame_items fr) \<and> slots fr \<le> length (frame_items fr) \<and> length (frame_items fr) < 1024"

definition call_unbacked :: "nat \<Rightarrow> call_frame_t \<Rightarrow> bool" where
  "call_unbacked k fr \<longleftrightarrow> \<not> small_call k (frame_items fr) \<or> arena_exhausted (fr_arena fr)"

definition hazard :: "opcode_t \<Rightarrow> call_frame_t \<Rightarrow> bool" where
  "hazard op fr \<longleftrightarrow>
     (case op of
        OP_MLOAD \<Rightarrow> bad_at_size (frame_items fr) 32
      | OP_MSTORE \<Rightarrow> bad_at_size (frame_items fr) 32
      | OP_MSTORE8 \<Rightarrow> bad_at_size (frame_items fr) 1
      | OP_KECCAK256 \<Rightarrow> bad_at (frame_items fr) 0 1
      | OP_CALLDATACOPY \<Rightarrow> bad_at (frame_items fr) 0 2
      | OP_CODECOPY \<Rightarrow> bad_at (frame_items fr) 0 2
      | OP_RETURNDATACOPY \<Rightarrow> bad_at (frame_items fr) 0 2
      | OP_EXTCODECOPY \<Rightarrow> bad_at (frame_items fr) 1 3
      | OP_RETURN \<Rightarrow> bad_at (frame_items fr) 0 1
      | OP_REVERT \<Rightarrow> bad_at (frame_items fr) 0 1
      | OP_LOG _ \<Rightarrow> bad_at (frame_items fr) 0 1
      | OP_DUP n \<Rightarrow> dup_overflows n fr
      | OP_CALL \<Rightarrow> call_unbacked 3 fr
      | OP_CALLCODE \<Rightarrow> call_unbacked 3 fr
      | OP_STATICCALL \<Rightarrow> call_unbacked 2 fr
      | OP_DELEGATECALL \<Rightarrow> call_unbacked 2 fr
      | _ \<Rightarrow> False)"

section \<open>The law of a step\<close>

text \<open>
  The invariants are kept, gas does not grow, and a step that goes on moves forward or uses gas.
\<close>

definition op_ok :: "'s state_access_vtable_t \<Rightarrow> ('s \<Rightarrow> bool) \<Rightarrow> 's evm_t \<Rightarrow> call_frame_t \<Rightarrow> 's step_t \<Rightarrow> bool" where
  "op_ok vt good evm fr s \<longleftrightarrow>
     (case s of
        Next evm' fr' \<Rightarrow>
          evm_ok vt good evm' \<and> same_pools evm evm' \<and> frame_ok fr' \<and> live fr' \<and> same_call fr fr' \<and> fr_gas fr' \<le> fr_gas fr \<and>
          (fr_pc fr \<le> fr_pc fr' \<or> fr_gas fr' < fr_gas fr) \<and> next_pc fr (fr_pc fr')
      | Done res evm' fr' \<Rightarrow>
          evm_ok vt good evm' \<and> frame_ok fr' \<and> same_call fr fr' \<and> fr_gas fr' \<le> fr_gas fr \<and>
          (if fres_action res = FRAME_CALL then call_ready evm fr evm' fr'
           else fres_action res \<noteq> FRAME_CREATE \<and> same_pools evm evm' \<and>
             region_in fr' (fres_return_offset res) (unat (fres_return_size res))))"

definition handler_ok :: "'s state_access_vtable_t \<Rightarrow> ('s \<Rightarrow> bool) \<Rightarrow> opcode_t \<Rightarrow> 's handler \<Rightarrow> bool" where
  "handler_ok vt good op h \<longleftrightarrow>
     (\<forall>evm fr. evm_ok vt good evm \<and> frame_ok fr \<and> live fr \<and> unat (fr_pc fr) \<le> length (fr_code fr) \<and>
       fr_code fr ! (unat (fr_pc fr) - 1) = opcode op \<and> \<not> hazard op fr \<longrightarrow>
       ok False (h evm fr) (op_ok vt good evm fr))"

lemma handler_okI:
  "(\<And>evm fr. evm_ok vt good evm \<Longrightarrow> frame_ok fr \<Longrightarrow> live fr \<Longrightarrow> unat (fr_pc fr) \<le> length (fr_code fr) \<Longrightarrow>
     fr_code fr ! (unat (fr_pc fr) - 1) = opcode op \<Longrightarrow> \<not> hazard op fr \<Longrightarrow>
     ok False (h evm fr) (op_ok vt good evm fr)) \<Longrightarrow> handler_ok vt good op h"
  by (simp add: handler_ok_def)

lemma step_error:
  "evm_ok vt good evm' \<Longrightarrow> same_pools evm evm' \<Longrightarrow> frame_ok fr \<Longrightarrow> moved fr fr' \<Longrightarrow>
    op_ok vt good evm fr (Done (frame_result_error st) evm' fr')"
  by (simp add: op_ok_def frame_result_error_def region_in_def moved_ok)

lemma step_next:
  "evm_ok vt good evm' \<Longrightarrow> same_pools evm evm' \<Longrightarrow> frame_ok fr \<Longrightarrow> moved fr fr' \<Longrightarrow>
    op_ok vt good evm fr (Next evm' fr')"
  using moved_ok [of fr fr'] by (simp add: op_ok_def)

lemma step_after:
  "evm_ok vt good evm' \<Longrightarrow> same_pools evm evm' \<Longrightarrow> frame_ok fr \<Longrightarrow> moved fr fr' \<Longrightarrow>
    op_ok vt good evm fr (after_op evm' st fr')"
  by (simp add: after_op_def step_error step_next)


lemma step_call:
  "evm_ok vt good evm' \<Longrightarrow> frame_ok fr' \<Longrightarrow> same_call fr fr' \<Longrightarrow> fr_gas fr' \<le> fr_gas fr \<Longrightarrow> call_ready evm fr evm' fr' \<Longrightarrow>
    op_ok vt good evm fr (Done frame_result_call evm' fr')"
  by (simp add: op_ok_def frame_result_call_def)


section \<open>Handlers of opcodes that stay in their frame\<close>

lemma frame_handler_step:
  assumes "evm_ok vt good evm" "frame_ok fr"
    "ok False (f fr (evm_gas_table evm (opcode op))) (\<lambda>(st, fr'). moved fr fr')"
  shows "ok False (frame_handler f op evm fr) (op_ok vt good evm fr)"
  unfolding frame_handler_def ok_bind
  by (rule ok_mono [OF assms(3)]) (auto intro!: step_after assms)

lemma frame_handler_keeps:
  assumes "evm_ok vt good evm" "frame_ok fr" "keeps fr False (f fr (evm_gas_table evm (opcode op)))"
  shows "ok False (frame_handler f op evm fr) (op_ok vt good evm fr)"
  by (rule frame_handler_step [OF assms(1,2)], rule ok_mono [OF assms(3)]) (auto intro: kept_moved)

text \<open>Handlers whose function keeps the frame under no condition.\<close>

lemma plain_handler:
  assumes "\<And>fr0 xs r fr g. at fr0 xs r fr \<Longrightarrow> keeps fr0 False (f fr g)"
  shows "handler_ok vt good op (frame_handler f op)"
  by (rule handler_okI) (auto intro!: frame_handler_keeps assms live_at)

lemma word_handler:
  assumes "\<And>fr. \<exists>x. w fr = Some x"
  shows "handler_ok vt good op (frame_handler (op_push_word w) op)"
  by (rule plain_handler) (auto intro!: op_push_word_keeps assms)

lemma live_kept: "live fr \<Longrightarrow> kept fr fr"
  by (simp add: live_def)

lemma invalid_step: "evm_ok vt good evm \<Longrightarrow> frame_ok fr \<Longrightarrow> live fr \<Longrightarrow> op_ok vt good evm fr (Done (frame_result_error st) evm fr)"
  by (simp add: step_error kept_moved live_kept)

lemma stop_step: "evm_ok vt good evm \<Longrightarrow> frame_ok fr \<Longrightarrow> op_ok vt good evm fr (Done frame_result_stop evm fr)"
  by (simp add: op_ok_def frame_result_stop_def region_in_def same_call_def)

named_theorems handler_laws \<open>the law of a step, for a handler\<close>

lemma unary_handler [handler_laws]: "handler_ok vt good op (frame_handler (op_unary f) op)"
  by (rule plain_handler) (rule op_unary_keeps)

lemma binary_handler [handler_laws]: "handler_ok vt good op (frame_handler (op_binary f) op)"
  by (rule plain_handler) (rule op_binary_keeps)

lemma ternary_handler [handler_laws]: "handler_ok vt good op (frame_handler (op_ternary f) op)"
  by (rule plain_handler) (rule op_ternary_keeps)

lemma stop_handler [handler_laws]: "handler_ok vt good OP_STOP handle_stop"
  by (rule handler_okI) (simp add: handle_stop_def stop_step)

lemma add_handler [handler_laws]: "handler_ok vt good OP_ADD handle_add"
proof (rule handler_okI)
  fix evm fr assume a: "evm_ok vt good evm" "frame_ok fr" "live fr"
  then show "ok False (handle_add evm fr) (op_ok vt good evm fr)"
    using live_at [OF a(3)]
    by (auto simp: handle_add_def items intro!: ok_pop ok_push invalid_step step_next at_moved)
qed

lemma exp_handler [handler_laws]: "handler_ok vt good OP_EXP handle_exp"
proof (rule handler_okI)
  fix evm fr assume a: "evm_ok vt good evm" "frame_ok fr" "live fr"
  show "ok False (handle_exp evm fr) (op_ok vt good evm fr)"
    unfolding handle_exp_def ok_bind
    by (rule ok_mono [OF op_exp_keeps [OF live_at [OF a(3)]]]) (auto intro!: step_after a kept_moved)
qed

lemmas op_defs =
  op_mul_def op_sub_def op_div_def op_sdiv_def op_mod_def op_smod_def op_addmod_def op_mulmod_def op_signextend_def
  op_lt_def op_gt_def op_slt_def op_sgt_def op_eq_def op_iszero_def op_and_def op_or_def op_xor_def op_not_def op_byte_def
  op_shl_def op_shr_def op_sar_def

lemma arithmetic_ok: "list_all (\<lambda>(op, h). handler_ok vt good op h) arithmetic_handlers"
  by (simp add: arithmetic_handlers_def op_defs handler_laws)

lemma logic_ok: "list_all (\<lambda>(op, h). handler_ok vt good op h) logic_handlers"
  by (simp add: logic_handlers_def op_defs handler_laws)

lemma push0_handler [handler_laws]: "handler_ok vt good op (frame_handler op_push0 op)"
  by (rule plain_handler) (rule op_push0_keeps)

lemma push_n_handler [handler_laws]:
  assumes "n \<le> 32" "push_byte (opcode (OP_PUSH k))"
  shows "handler_ok vt good (OP_PUSH k) (frame_handler (\<lambda>frame. op_push_n frame n) (OP_PUSH k))"
proof (rule handler_okI)
  fix evm fr assume "evm_ok vt good evm" "frame_ok fr" "live fr" "unat (fr_pc fr) \<le> length (fr_code fr)"
    "fr_code fr ! (unat (fr_pc fr) - 1) = opcode (OP_PUSH k)"
  then show "ok False (frame_handler (\<lambda>frame. op_push_n frame n) (OP_PUSH k) evm fr) (op_ok vt good evm fr)"
    using assms(2) by (intro frame_handler_step op_push_n_moves [OF live_at _ _ assms(1)]) (auto simp: frame_ok_def)
qed

lemma push_ok: "list_all (\<lambda>(op, h). handler_ok vt good op h) push_handlers"
proof -
  have "push_byte (opcode (OP_PUSH n))" if "1 \<le> n" "n \<le> 32" for n
    using that by (simp add: push_byte_def word_le_nat_alt unat_word_ariths unat_of_nat)
  then show ?thesis by (auto simp: push_handlers_def list_all_iff word_le_nat_alt unat_of_nat intro!: handler_laws)
qed

lemma stack_ok: "list_all (\<lambda>(op, h). handler_ok vt good op h) stack_handlers"
proof -
  have "handler_ok vt good (OP_DUP n) (frame_handler (\<lambda>frame. op_dup frame n) (OP_DUP n))" if "1 \<le> n" for n
    by (rule handler_okI, rule frame_handler_keeps, assumption+, rule op_dup_keeps, erule live_at, rule that)
      (auto simp: hazard_def dup_overflows_def)
  moreover have "handler_ok vt good (OP_SWAP n) (frame_handler (\<lambda>frame. op_swap frame n) (OP_SWAP n))" for n
    by (rule plain_handler) (rule op_swap_keeps)
  moreover have "handler_ok vt good OP_POP (frame_handler op_pop OP_POP)"
    by (rule plain_handler) (rule op_pop_keeps)
  ultimately show ?thesis by (auto simp: stack_handlers_def list_all_iff)
qed

text \<open>Handlers of opcodes that access memory, for the hazard of the opcode.\<close>

lemma memory_handler:
  assumes "\<And>fr g. live fr \<Longrightarrow> frame_ok fr \<Longrightarrow> \<not> hazard op fr \<Longrightarrow> keeps fr False (f fr g)"
  shows "handler_ok vt good op (frame_handler f op)"
  by (rule handler_okI) (auto intro!: frame_handler_keeps assms)

lemma memory_ok: "list_all (\<lambda>(op, h). handler_ok vt good op h) (memory_handlers keccak)"
  by (auto simp: memory_handlers_def hazard_def
    intro!: memory_handler op_mload_keeps op_mstore_keeps op_mstore8_keeps op_keccak256_keeps op_msize_keeps live_at)

lemma same_env_sizes:
  "frame_ok fr \<Longrightarrow> same_env fr fr' \<Longrightarrow> length (fr_input fr') < 2 ^ 64 \<and> length (fr_code fr') < 2 ^ 64"
  by (simp add: frame_ok_def same_env_iff)

lemma copy_handlers:
  "handler_ok vt good OP_CALLDATACOPY (frame_handler op_calldatacopy OP_CALLDATACOPY)"
  "handler_ok vt good OP_CODECOPY (frame_handler op_codecopy OP_CODECOPY)"
  unfolding op_calldatacopy_def op_codecopy_def
  by (auto simp: hazard_def intro!: memory_handler op_copy_keeps live_at dest: same_env_sizes)

text \<open>Handlers that read the EVM object.\<close>

lemma evm_handler:
  assumes "\<And>evm fr g. evm_ok vt good evm \<Longrightarrow> frame_ok fr \<Longrightarrow> live fr \<Longrightarrow> \<not> hazard op fr \<Longrightarrow> keeps fr False (f evm fr g)"
  shows "handler_ok vt good op (\<lambda>evm. frame_handler (f evm) op evm)"
  by (rule handler_okI) (auto intro!: frame_handler_keeps assms)

lemma push_word_live: "live fr \<Longrightarrow> (\<And>fr'. \<exists>x. w fr' = Some x) \<Longrightarrow> keeps fr b (op_push_word w fr g)"
  by (rule op_push_word_keeps [OF live_at]) auto

lemma read_handlers:
  "handler_ok vt good OP_ORIGIN handle_origin" "handler_ok vt good OP_GASPRICE handle_gasprice"
  "handler_ok vt good OP_RETURNDATASIZE handle_returndatasize" "handler_ok vt good OP_RETURNDATACOPY handle_returndatacopy"
  unfolding handle_origin_def handle_gasprice_def handle_returndatasize_def handle_returndatacopy_def
  by (auto simp: hazard_def evm_ok_def intro!: evm_handler push_word_live op_returndatacopy_keeps live_at)

lemma block_word_handler [handler_laws]: "handler_ok vt good op (block_handler (op_block_word f) op)"
  unfolding block_handler_def
  by (rule evm_handler [where f = "\<lambda>evm frame. op_block_word f frame (evm_block evm)"])
    (auto simp: op_block_word_def evm_ok_def intro!: push_word_live)

lemma blockhash_handler [handler_laws]: "handler_ok vt good op (block_handler op_blockhash op)"
  unfolding block_handler_def
  by (rule evm_handler [where f = "\<lambda>evm frame. op_blockhash frame (evm_block evm)"])
    (auto simp: evm_ok_def intro!: op_blockhash_keeps live_at)

lemma selfbalance_handler [handler_laws]: "handler_ok vt good OP_SELFBALANCE handle_selfbalance"
  by (rule handler_okI)
    (auto simp: handle_selfbalance_def op_selfbalance_def invalid_step split: option.split
      intro!: frame_handler_keeps push_word_live)

lemma blobhash_handler [handler_laws]: "handler_ok vt good OP_BLOBHASH handle_blobhash"
proof (rule handler_okI)
  fix evm fr assume a: "evm_ok vt good evm" "frame_ok fr" "live fr"
  then obtain tx where "evm_tx evm = Some tx" by (auto simp: evm_ok_def)
  with a show "ok False (handle_blobhash evm fr) (op_ok vt good evm fr)"
    by (auto simp: handle_blobhash_def intro!: frame_handler_keeps op_blobhash_keeps live_at)
qed

lemma block_ok: "list_all (\<lambda>(op, h). handler_ok vt good op h) block_handlers"
  by (simp add: block_handlers_def op_coinbase_def op_timestamp_def op_number_def op_prevrandao_def op_gaslimit_def
    op_chainid_def op_basefee_def op_blobbasefee_def handler_laws)

section \<open>Jumps\<close>

lemma compute_bitmap_code: "jumpdest_compute_bitmap code arena = (Some bitmap, arena') \<Longrightarrow> bitmap = code_bitmap code"
  by (auto simp: jumpdest_compute_bitmap_def code_bitmap_def Let_def split: prod.splits option.splits if_splits)

lemma bitmap_same:
  assumes "frame_ok fr" "live fr" "\<And>bm. bitmap = Some bm \<Longrightarrow> bm = code_bitmap (fr_code fr)"
  shows "frame_ok (fr\<lparr>fr_jumpdest_bitmap := bitmap, fr_arena := a\<rparr>)" "live (fr\<lparr>fr_jumpdest_bitmap := bitmap, fr_arena := a\<rparr>)"
  using assms by (auto simp: frame_ok_def live_def kept_def at_def)

lemma hash_is_zero_zero: "hash_is_zero hash_zero"
  by code_simp

lemma get_bitmap:
  assumes "frame_ok fr" "live fr"
  obtains bitmap a where "get_jumpdest_bitmap evm fr = (bitmap, evm, fr\<lparr>fr_jumpdest_bitmap := bitmap, fr_arena := a\<rparr>)"
    "\<And>bm. bitmap = Some bm \<Longrightarrow> bm = code_bitmap (fr_code fr)"
proof (cases "fr_jumpdest_bitmap fr")
  case None
  have [simp]: "hash_is_zero (fr_code_hash fr)" using assms(1) by (simp add: frame_ok_def hash_is_zero_zero)
  obtain bitmap a where c: "jumpdest_compute_bitmap (fr_code fr) (fr_arena fr) = (bitmap, a)" by force
  then have "get_jumpdest_bitmap evm fr = (bitmap, evm, fr\<lparr>fr_jumpdest_bitmap := bitmap, fr_arena := a\<rparr>)"
    using None by (auto simp: get_jumpdest_bitmap_def Let_def split: option.split)
  then show ?thesis using that compute_bitmap_code c by blast
next
  case (Some bm)
  then have "fr\<lparr>fr_jumpdest_bitmap := Some bm, fr_arena := fr_arena fr\<rparr> = fr" by simp
  then show ?thesis using that [of "Some bm" "fr_arena fr"] Some assms(1) by (simp add: get_jumpdest_bitmap_def frame_ok_def)
qed

lemma step_from_bitmap:
  "op_ok vt good evm (fr\<lparr>fr_jumpdest_bitmap := bm, fr_arena := a\<rparr>) s \<Longrightarrow> op_ok vt good evm fr s"
  by (auto simp: op_ok_def same_call_def call_ready_def next_pc_def split: step_t.splits)

lemma jump_handler_law:
  assumes "\<And>fr0 xs r fr bm g. at fr0 xs r fr \<Longrightarrow> g \<noteq> 0 \<Longrightarrow> bm = code_bitmap (fr_code fr0) \<Longrightarrow> ok False (f fr bm g) (\<lambda>(st, fr). moved fr0 fr)"
    "\<And>evm. evm_ok vt good evm \<Longrightarrow> evm_gas_table evm (opcode op) \<noteq> 0"
  shows "handler_ok vt good op (jump_handler f op)"
proof (rule handler_okI)
  fix evm fr assume a: "evm_ok vt good evm" "frame_ok fr" "live fr"
  obtain bitmap x where g: "get_jumpdest_bitmap evm fr = (bitmap, evm, fr\<lparr>fr_jumpdest_bitmap := bitmap, fr_arena := x\<rparr>)"
    "\<And>bm. bitmap = Some bm \<Longrightarrow> bm = code_bitmap (fr_code fr)" using get_bitmap [OF a(2,3)] by metis
  note same = bitmap_same [OF a(2,3), of bitmap x, OF g(2)]
  show "ok False (jump_handler f op evm fr) (op_ok vt good evm fr)"
  proof (cases bitmap)
    case None
    then show ?thesis using g(1) step_from_bitmap [OF invalid_step [OF a(1) same]] by (simp add: jump_handler_def)
  next
    case (Some bm)
    have "ok False (frame_handler (\<lambda>fr. f fr bm) op evm (fr\<lparr>fr_jumpdest_bitmap := bitmap, fr_arena := x\<rparr>))
        (op_ok vt good evm (fr\<lparr>fr_jumpdest_bitmap := bitmap, fr_arena := x\<rparr>))"
    proof (rule frame_handler_step [OF a(1) same(1)])
      have "bm = code_bitmap (fr_code (fr\<lparr>fr_jumpdest_bitmap := bitmap, fr_arena := x\<rparr>))" using g(2) [OF Some] by simp
      from assms(1) [OF live_at [OF same(2)] assms(2) [OF a(1)] this]
      show "ok False (f (fr\<lparr>fr_jumpdest_bitmap := bitmap, fr_arena := x\<rparr>) bm (evm_gas_table evm (opcode op)))
        (\<lambda>(st, fr'). moved (fr\<lparr>fr_jumpdest_bitmap := bitmap, fr_arena := x\<rparr>) fr')" .
    qed
    then show ?thesis using g(1) Some by (auto simp: jump_handler_def intro: step_from_bitmap elim!: ok_mono)
  qed
qed

lemma control_ok: "list_all (\<lambda>(op, h). handler_ok vt good op h) control_handlers"
proof -
  have "handler_ok vt good OP_JUMP (jump_handler op_jump OP_JUMP)"
    by (rule jump_handler_law) (auto simp: evm_ok_def intro: op_jump_moves)
  moreover have "handler_ok vt good OP_JUMPI (jump_handler op_jumpi OP_JUMPI)"
    by (rule jump_handler_law) (auto simp: evm_ok_def intro: op_jumpi_moves)
  moreover have "handler_ok vt good OP_JUMPDEST (frame_handler op_jumpdest OP_JUMPDEST)"
    by (rule plain_handler) (rule op_jumpdest_keeps)
  moreover have "handler_ok vt good OP_PC handle_pc"
    by (rule handler_okI) (auto simp: handle_pc_def op_pc_def intro!: frame_handler_keeps push_word_live)
  moreover have "handler_ok vt good OP_GAS (frame_handler op_gas OP_GAS)"
    unfolding op_gas_def by (rule word_handler) simp
  ultimately show ?thesis by (simp add: control_handlers_def)
qed


section \<open>Handlers that use the state or end the frame\<close>

lemma halt_law:
  assumes a: "evm_ok vt good evm" "frame_ok fr" "live fr" "\<not> bad_at (frame_items fr) 0 1"
    and res: "\<And>x y. fres_action (result x y) \<in> {FRAME_RETURN, FRAME_REVERT} \<and> fres_return_offset (result x y) = x \<and>
      fres_return_size (result x y) = y"
  shows "ok False (handle_halt result evm fr) (op_ok vt good evm fr)"
proof -
  have halt: "op_ok vt good evm fr (Done (result x y) evm fr')" if "moved fr fr'" "y = 0 \<or> unat x + unat y \<le> mem_len fr'" for fr' x y
    using res [of x y] that a moved_ok [OF that(1) a(2)] by (auto simp: op_ok_def region_in_def)
  have err: "op_ok vt good evm fr (Done (frame_result_error st) evm fr')" if "moved fr fr'" for fr' st
    using step_error [OF a(1) _ a(2) that] by simp
  show ?thesis
    using live_at [OF a(3)] a(4)
    by (auto 4 10 simp: handle_halt_def items Let_def bad_at_def bad_access_def uint256_to_u64_unsafe_def word_gt_0
      intro!: ok_pop ok_expand ok_with_gas halt err at_moved)
qed

lemma halt_handlers:
  "handler_ok vt good OP_RETURN (handle_halt frame_result_return)" "handler_ok vt good OP_REVERT (handle_halt frame_result_revert)"
  by (auto simp: hazard_def frame_result_return_def frame_result_revert_def intro!: handler_okI halt_law)

lemma log_ok: "list_all (\<lambda>(op, h). handler_ok vt good op h) log_handlers"
proof -
  have "handler_ok vt good (OP_LOG n) (handle_log n)" for n
  proof (rule handler_okI)
    fix evm fr assume a: "evm_ok vt good evm" "frame_ok fr" "live fr" "\<not> hazard (OP_LOG n) fr"
    have "evm_ok vt good (evm\<lparr>evm_logs := l\<rparr>)" "same_pools evm (evm\<lparr>evm_logs := l\<rparr>)" for l
      using a(1) by (simp_all add: evm_ok_def same_pools_def)
    then show "ok False (handle_log n evm fr) (op_ok vt good evm fr)"
      unfolding handle_log_def ok_bind
      by (intro ok_mono [OF op_log_n_keeps [OF live_at [OF a(3)]]]) (use a in \<open>auto simp: hazard_def intro!: step_after kept_moved\<close>)
  qed
  then show ?thesis by (auto simp: log_handlers_def list_all_iff)
qed

context state_provider
begin

lemma evm_state_kept:
  "evm_ok vt good evm \<Longrightarrow> provides state \<Longrightarrow>
    evm_ok vt good (evm\<lparr>evm_state := Some state\<rparr>) \<and> same_pools evm (evm\<lparr>evm_state := Some state\<rparr>)"
  by (simp add: evm_ok_def same_pools_def)

lemma state_handler_law:
  assumes "\<And>evm fr state. evm_ok vt good evm \<Longrightarrow> frame_ok fr \<Longrightarrow> live fr \<Longrightarrow> \<not> hazard op fr \<Longrightarrow> provides state \<Longrightarrow>
    keeps_state fr False (f evm fr state)"
  shows "handler_ok vt good op (\<lambda>evm. state_handler st (f evm) evm)"
proof (rule handler_okI)
  fix evm fr assume a: "evm_ok vt good evm" "frame_ok fr" "live fr" "\<not> hazard op fr"
  show "ok False (state_handler st (f evm) evm fr) (op_ok vt good evm fr)"
  proof (cases "evm_state evm")
    case None
    then show ?thesis using invalid_step [OF a(1-3)] by (simp add: state_handler_def)
  next
    case (Some state)
    show ?thesis unfolding state_handler_def Some option.case ok_bind
      by (rule ok_mono [OF assms [OF a has_state [OF a(1) Some]]])
        (auto intro!: step_after kept_moved a dest: evm_state_kept [OF a(1)])
  qed
qed

lemma account_handler: "handler_ok vt good op (state_handler st (op_account_word f))"
  by (rule state_handler_law [where f = "\<lambda>_. op_account_word f"]) (auto intro!: op_account_word_keeps live_at)

lemma extcodecopy_handler: "handler_ok vt good OP_EXTCODECOPY (state_handler st op_extcodecopy)"
  by (rule state_handler_law [where f = "\<lambda>_. op_extcodecopy"]) (auto simp: hazard_def intro!: op_extcodecopy_keeps live_at)

lemma context_ok: "list_all (\<lambda>(op, h). handler_ok vt good op h) context_handlers"
  by (simp add: context_handlers_def op_address_def op_caller_def op_callvalue_def op_calldatasize_def op_codesize_def
    op_balance_def op_extcodesize_def op_extcodehash_def account_handler extcodecopy_handler word_handler copy_handlers
    read_handlers plain_handler [OF op_calldataload_keeps])

lemma sload_handler: "handler_ok vt good OP_SLOAD handle_sload"
  unfolding handle_sload_def by (rule state_handler_law) (auto intro!: op_sload_keeps live_at)

lemma sstore_handler: "handler_ok vt good OP_SSTORE handle_sstore"
proof (rule handler_okI)
  fix evm fr assume a: "evm_ok vt good evm" "frame_ok fr" "live fr"
  have refund: "evm_ok vt good (evm\<lparr>evm_state := Some state, evm_gas_refund := g\<rparr>)"
      "same_pools evm (evm\<lparr>evm_state := Some state, evm_gas_refund := g\<rparr>)" if "provides state" for state g
    using a(1) that by (simp_all add: evm_ok_def same_pools_def)
  show "ok False (handle_sstore evm fr) (op_ok vt good evm fr)"
  proof (cases "evm_state evm")
    case None
    then show ?thesis using invalid_step [OF a] by (simp add: handle_sstore_def)
  next
    case (Some state)
    show ?thesis unfolding handle_sstore_def Some option.case ok_bind
      by (rule ok_mono [OF op_sstore_keeps [OF live_at [OF a(3)] has_state [OF a(1) Some]]])
        (auto intro!: step_after kept_moved a refund)
  qed
qed

lemma call_handler_law:
  assumes "\<And>evm fr. evm_ok vt good evm \<Longrightarrow> frame_ok fr \<Longrightarrow> live fr \<Longrightarrow> \<not> hazard op fr \<Longrightarrow> ok False (f evm fr) (called vt good evm fr)"
  shows "handler_ok vt good op (call_handler f)"
proof (rule handler_okI)
  fix evm fr assume a: "evm_ok vt good evm" "frame_ok fr" "live fr" "\<not> hazard op fr"
  show "ok False (call_handler f evm fr) (op_ok vt good evm fr)"
    unfolding call_handler_def ok_bind
    by (rule ok_mono [OF assms [OF a]])
      (auto simp: called_def a(2) split: if_splits intro!: step_call step_error step_next kept_moved)
qed

lemma system_ok: "list_all (\<lambda>(op, h). handler_ok vt good op h) system_handlers"
proof -
  have "handler_ok vt good OP_CALL (call_handler op_call)" "handler_ok vt good OP_CALLCODE (call_handler op_callcode)"
    "handler_ok vt good OP_STATICCALL (call_handler op_staticcall)"
    "handler_ok vt good OP_DELEGATECALL (call_handler op_delegatecall)"
    by (auto simp: hazard_def call_unbacked_def
      intro!: call_handler_law op_call_law op_callcode_law op_staticcall_law op_delegatecall_law)
  then show ?thesis by (simp add: system_handlers_def sload_handler sstore_handler halt_handlers)
qed

text \<open>Every handler of the table.\<close>

lemma handlers_ok: "list_all (\<lambda>(op, h). handler_ok vt good op h) (handlers keccak)"
  by (simp add: handlers_def arithmetic_ok logic_ok push_ok context_ok block_ok stack_ok memory_ok control_ok system_ok log_ok)

end

end
