(* ===== verification/Evm_Machine.thy ===== *)
theory Evm_Machine
  imports Evm_Safety
begin

text \<open>
  The interpreter as a machine that steps from opcode to opcode and from frame to frame, its
  invariant, and termination: every step uses gas, ends a frame or moves the program counter forward.
\<close>

section \<open>One opcode\<close>

text \<open>The opcodes that have a hazard, and the condition under which the next opcode may be undefined.\<close>

definition unguarded :: "opcode_t list" where
  "unguarded =
     [OP_MLOAD, OP_MSTORE, OP_MSTORE8, OP_KECCAK256, OP_CALLDATACOPY, OP_CODECOPY, OP_RETURNDATACOPY, OP_EXTCODECOPY,
      OP_RETURN, OP_REVERT, OP_CALL, OP_CALLCODE, OP_STATICCALL, OP_DELEGATECALL] @ map OP_LOG [0..<5] @ map OP_DUP [1..<17]"

definition frame_hazard :: "call_frame_t \<Rightarrow> bool" where
  "frame_hazard fr \<longleftrightarrow>
     unat (fr_pc fr) < length (fr_code fr) \<and>
     (fr_stack fr = None \<or> list_ex (\<lambda>op. opcode op = fr_code fr ! unat (fr_pc fr) \<and> hazard op fr) unguarded)"

lemma hazard_pc [simp]: "hazard op (fr\<lparr>fr_pc := pc\<rparr>) = hazard op fr"
  by (simp add: hazard_def frame_items_def dup_overflows_def slots_def call_unbacked_def split: opcode_t.split)

lemma handlers_unguarded: "list_all (\<lambda>(op, h). hazard op fr \<longrightarrow> op \<in> set unguarded) (handlers keccak)"
  by (auto simp: handlers_def arithmetic_handlers_def logic_handlers_def push_handlers_def context_handlers_def
    block_handlers_def stack_handlers_def memory_handlers_def control_handlers_def system_handlers_def log_handlers_def
    list_all_iff unguarded_def) (simp_all add: hazard_def)

lemma dispatch_cases:
  fixes keccak :: hash_fun
  obtains "dispatch_table keccak b = (handle_invalid :: 's handler)"
  | op and h :: "'s handler" where "dispatch_table keccak b = h" "(op, h) \<in> set (handlers keccak)" "opcode op = b"
proof (cases "find (\<lambda>(op, _). opcode op = b) (handlers keccak :: (opcode_t \<times> 's handler) list)")
  case None
  then show ?thesis using that(1) by (simp add: dispatch_table_def)
next
  case (Some x)
  obtain op h where x: "x = (op, h)" by force
  have "(op, h) \<in> set (handlers keccak)" "opcode op = b" using Some x by (auto simp: find_Some_iff in_set_conv_nth)
  then show ?thesis using that(2) Some x by (simp add: dispatch_table_def)
qed

text \<open>A step that goes on made progress.\<close>

definition step_ok :: "'s state_access_vtable_t \<Rightarrow> ('s \<Rightarrow> bool) \<Rightarrow> 's evm_t \<Rightarrow> call_frame_t \<Rightarrow> 's step_t \<Rightarrow> bool" where
  "step_ok vt good evm fr s \<longleftrightarrow>
     (case s of
        Next evm' fr' \<Rightarrow>
          evm_ok vt good evm' \<and> same_pools evm evm' \<and> frame_ok fr' \<and> live fr' \<and> same_call fr fr' \<and> fr_gas fr' \<le> fr_gas fr
      | Done res evm' fr' \<Rightarrow>
          evm_ok vt good evm' \<and> frame_ok fr' \<and> same_call fr fr' \<and> fr_gas fr' \<le> fr_gas fr \<and>
          (if fres_action res = FRAME_CALL then call_ready evm fr evm' fr'
           else fres_action res \<noteq> FRAME_CREATE \<and> same_pools evm evm' \<and>
             region_in fr' (fres_return_offset res) (unat (fres_return_size res))))"

definition progress :: "call_frame_t \<Rightarrow> 's step_t \<Rightarrow> bool" where
  "progress fr s \<longleftrightarrow> (case s of Next _ fr' \<Rightarrow> fr_pc fr < fr_pc fr' \<or> fr_gas fr' < fr_gas fr | Done _ _ _ \<Rightarrow> True)"

lemma step_ok_pc:
  assumes "op_ok vt good evm (fr\<lparr>fr_pc := fr_pc fr + 1\<rparr>) s" "fr_pc fr < fr_pc fr + 1"
  shows "step_ok vt good evm fr s \<and> progress fr s"
  using assms by (auto simp: op_ok_def step_ok_def progress_def same_call_def call_ready_def split: step_t.splits)

lemma code_size_less: "length (fr_code fr) < 2 ^ 62 \<Longrightarrow> fr_pc fr \<ge> fr_code_size fr \<longleftrightarrow> length (fr_code fr) \<le> unat (fr_pc fr)"
  by (simp add: fr_code_size_def word_le_nat_alt unat_of_nat)

section \<open>Instructions\<close>

text \<open>The program counter is at an instruction of the linear sweep, or behind the code.\<close>

definition on_instr :: "call_frame_t \<Rightarrow> bool" where
  "on_instr fr \<longleftrightarrow> instr_at (fr_code fr) 0 (unat (fr_pc fr)) \<or> length (fr_code fr) \<le> unat (fr_pc fr)"

lemma instr_at_after:
  "instr_at code k i \<Longrightarrow> i + instr_size (code ! i) < length code \<Longrightarrow> instr_at code k (i + instr_size (code ! i))"
  by (induction rule: instr_at.induct) (auto intro: instr_at.intros)

lemma frame_stack_pc:
  "frame_ensure_space fr n = Some (good, fr') \<Longrightarrow> fr_pc fr' = fr_pc fr" "frame_push fr x = Some fr' \<Longrightarrow> fr_pc fr' = fr_pc fr"
  by (auto simp: frame_ensure_space_def frame_push_def Option.bind_eq_Some_conv case_prod_beta split: option.splits)

lemma push_next:
  "frame_handler (\<lambda>frame. op_push_n frame n) op evm fr = Some (Next evm' fr') \<Longrightarrow> fr_pc fr' = fr_pc fr + n"
  by (auto simp: frame_handler_def op_push_n_def after_op_def Let_def Option.bind_eq_Some_conv frame_stack_pc
    split: if_splits dest!: frame_stack_pc)

lemma indexed_bytes:
  "1 \<le> n \<Longrightarrow> n \<le> 16 \<Longrightarrow> \<not> push_byte (opcode (OP_DUP n))" "1 \<le> n \<Longrightarrow> n \<le> 16 \<Longrightarrow> \<not> push_byte (opcode (OP_SWAP n))"
  "n \<le> 4 \<Longrightarrow> \<not> push_byte (opcode (OP_LOG n))" "1 \<le> n \<Longrightarrow> n \<le> 32 \<Longrightarrow> unat (opcode (OP_PUSH n)) = n + 0x5F"
  by (simp_all add: push_byte_def word_le_nat_alt unat_word_ariths unat_of_nat)

lemma u8_one: "\<not> (0x60 :: u8) \<le> 1"
  by (simp add: word_le_nat_alt)

lemma push_entries:
  "list_all (\<lambda>(op, h). push_byte (opcode op) \<longrightarrow> (\<exists>n. 1 \<le> n \<and> n \<le> 32 \<and>
     h = frame_handler (\<lambda>frame. op_push_n frame (of_nat n)) op \<and> unat (opcode op) = n + 0x5F)) (handlers keccak)"
proof -
  have p: "\<exists>k. 1 \<le> k \<and> k \<le> 32 \<and> frame_handler (\<lambda>frame. op_push_n frame (of_nat n)) (OP_PUSH n) =
      frame_handler (\<lambda>frame. op_push_n frame (of_nat k)) (OP_PUSH n) \<and> unat (opcode (OP_PUSH n)) = k + 0x5F"
    if "1 \<le> n" "n < 33" for n
    using indexed_bytes(4) [of n] that by (intro exI [of _ n]) simp
  have q: "\<not> push_byte (opcode (OP_DUP n))" "\<not> push_byte (opcode (OP_SWAP n))" if "1 \<le> n" "n < 17" for n
    using indexed_bytes(1,2) [of n] that by simp_all
  have r: "\<not> push_byte (opcode (OP_LOG n))" if "n < 5" for n using indexed_bytes(3) [of n] that by simp
  show ?thesis
    unfolding handlers_def list_all_append
  proof (intro conjI)
    show "list_all (\<lambda>(op, h). push_byte (opcode op) \<longrightarrow> (\<exists>n. 1 \<le> n \<and> n \<le> 32 \<and>
     h = frame_handler (\<lambda>frame. op_push_n frame (of_nat n)) op \<and> unat (opcode op) = n + 0x5F)) push_handlers"
      using p by (auto simp: push_handlers_def list_all_iff push_byte_def simp del: opcode.simps(76))
  qed (use q r u8_one in \<open>auto simp: arithmetic_handlers_def logic_handlers_def context_handlers_def block_handlers_def
    stack_handlers_def memory_handlers_def control_handlers_def system_handlers_def log_handlers_def list_all_iff push_byte_def\<close>)
qed

context state_provider
begin

lemma dispatch_law:
  assumes "evm_ok vt good evm" "frame_ok fr" "\<not> frame_hazard fr" "unat (fr_pc fr) < length (fr_code fr)"
  defines "fr1 \<equiv> fr\<lparr>fr_pc := fr_pc fr + 1\<rparr>"
  shows "ok False (dispatch_table keccak (fr_code fr ! unat (fr_pc fr)) evm fr1) (op_ok vt good evm fr1)"
    "unat (fr_pc fr + 1) = unat (fr_pc fr) + 1"
proof -
  have small: "length (fr_code fr) < 2 ^ 62" using assms(2) by (simp add: frame_ok_def)
  show pc: "unat (fr_pc fr + 1) = unat (fr_pc fr) + 1" using assms(4) small by (simp add: unat_add_lem [THEN iffD1])
  have live: "live fr1" "frame_ok fr1"
    using assms(2,3,4) by (auto simp: frame_hazard_def frame_ok_def live_def kept_def at_def fr1_def)
  show "ok False (dispatch_table keccak (fr_code fr ! unat (fr_pc fr)) evm fr1) (op_ok vt good evm fr1)"
  proof (cases rule: dispatch_cases [where 's = 's and keccak = keccak and b = "fr_code fr ! unat (fr_pc fr)"])
    case 1
    then show ?thesis using invalid_step [OF assms(1) live(2,1)] by (simp add: handle_invalid_def)
  next
    case (2 op h)
    have "handler_ok vt good op h" using handlers_ok 2(2) by (auto simp: list_all_iff)
    moreover have "\<not> hazard op fr1"
      using handlers_unguarded [of fr keccak] 2(2,3) assms(3,4) by (auto simp: frame_hazard_def list_all_iff list_ex_iff fr1_def)
    ultimately show ?thesis using live assms(1,4) pc 2(1,3) by (simp add: handler_ok_def fr1_def)
  qed
qed

lemma frame_step_law:
  assumes "evm_ok vt good evm" "frame_ok fr" "\<not> frame_hazard fr"
  shows "ok False (frame_step keccak evm fr) (\<lambda>s. step_ok vt good evm fr s \<and> progress fr s)"
proof (cases "length (fr_code fr) \<le> unat (fr_pc fr)")
  case True
  then show ?thesis
    using assms(1,2) code_size_less [of fr]
    by (simp add: frame_step_def progress_def frame_ok_def step_ok_def frame_result_stop_def region_in_def same_call_def)
next
  case False
  have small: "length (fr_code fr) < 2 ^ 62" using assms(2) by (simp add: frame_ok_def)
  note d = dispatch_law [OF assms]
  have "fr_pc fr < fr_pc fr + 1" using d(2) False by (simp add: word_less_nat_alt)
  then show ?thesis
    using False small d(1) [of keccak] step_ok_pc [of vt good evm fr] by (auto simp: frame_step_def code_size_less elim!: ok_mono)
qed

text \<open>A frame at an instruction stays at instructions: the data of a PUSH is never executed.\<close>

lemma frame_step_instr:
  assumes "evm_ok vt good evm" "frame_ok fr" "\<not> frame_hazard fr" "on_instr fr"
    "frame_step keccak evm fr = Some (Next evm' fr')"
  shows "on_instr fr'"
proof -
  have small: "length (fr_code fr) < 2 ^ 62" using assms(2) by (simp add: frame_ok_def)
  have pc: "unat (fr_pc fr) < length (fr_code fr)"
    using assms(5) code_size_less [OF small] by (auto simp: frame_step_def split: if_splits)
  let ?b = "fr_code fr ! unat (fr_pc fr)" and ?fr1 = "fr\<lparr>fr_pc := fr_pc fr + 1\<rparr>"
  note d = dispatch_law [OF assms(1-3) pc]
  have run: "dispatch_table keccak ?b evm ?fr1 = Some (Next evm' fr')"
    using assms(5) code_size_less [OF small] pc by (simp add: frame_step_def)
  have op: "op_ok vt good evm ?fr1 (Next evm' fr')" using d(1) [of keccak] run by simp
  then have n: "next_pc ?fr1 (fr_pc fr')" and c: "fr_code fr' = fr_code fr" by (auto simp: op_ok_def same_call_def)
  have i: "instr_at (fr_code fr) 0 (unat (fr_pc fr))" using assms(4) pc by (simp add: on_instr_def)
  show ?thesis
  proof (cases "push_byte ?b")
    case True
    obtain n op where n: "1 \<le> n" "n \<le> 32" "dispatch_table keccak ?b = (frame_handler (\<lambda>frame. op_push_n frame (of_nat n)) op :: 's handler)"
        "unat ?b = n + 0x5F"
    proof (cases rule: dispatch_cases [where 's = 's and keccak = keccak and b = ?b])
      case 1
      then show ?thesis using run by (simp add: handle_invalid_def)
    next
      case (2 op h)
      have "push_byte (opcode op)" using True 2(3) by simp
      then obtain n where "1 \<le> n" "n \<le> 32" "h = frame_handler (\<lambda>frame. op_push_n frame (of_nat n)) op" "unat (opcode op) = n + 0x5F"
        using bspec [OF push_entries [unfolded list_all_iff] 2(2)] by (auto simp del: opcode.simps)
      then show ?thesis using that [of n op] 2(1,3) by (simp del: opcode.simps)
    qed
    have pc': "fr_pc fr' = fr_pc fr + 1 + of_nat n" using push_next [OF run [unfolded n(3)]] by simp
    have "unat (fr_pc fr') = unat (fr_pc fr) + instr_size ?b"
    proof -
      have "unat (of_nat n :: u64) = n" using n(2) by (simp add: unat_of_nat)
      then have "unat (fr_pc fr') = unat (fr_pc fr) + 1 + n"
        unfolding pc' using d(2) n(2) pc small by (simp add: unat_add_lem [THEN iffD1])
      then show ?thesis using n(4) True by (simp add: instr_size_def push_byte_def)
    qed
    then show ?thesis using instr_at_after [OF i] c by (auto simp: on_instr_def)
  next
    case False
    have "instr_size ?b = 1" using False by (auto simp: instr_size_def push_byte_def)
    then show ?thesis using n False d(2) instr_at_after [OF i] c by (auto simp: on_instr_def next_pc_def valid_destination_def)
  qed
qed

end

section \<open>The machine\<close>

text \<open>The EVM, the running frame and its parents, the nearest first.\<close>

type_synonym 's config = "'s evm_t \<times> call_frame_t \<times> call_frame_t list"

text \<open>What the main loop does when a child ends.\<close>

definition resume :: "'s evm_t \<Rightarrow> call_frame_t \<Rightarrow> call_frame_t \<Rightarrow> frame_result_t \<Rightarrow> ('s evm_t \<times> call_frame_t) option" where
  "resume evm frame parent result =
     (if fres_action result = FRAME_ERROR then fail_to_parent evm frame parent
      else return_to_parent evm frame parent result
        (if fres_action result = FRAME_REVERT then uint256_zero else uint256_from_u64 1))"

inductive machine_step :: "hash_fun \<Rightarrow> 's config \<Rightarrow> 's config \<Rightarrow> bool" for keccak where
  exec: "frame_step keccak evm fr = Some (Next evm' fr') \<Longrightarrow> machine_step keccak (evm, fr, ps) (evm', fr', ps)"
| enter: "frame_step keccak evm fr = Some (Done res evm' fr') \<Longrightarrow> fres_action res \<in> {FRAME_CALL, FRAME_CREATE} \<Longrightarrow>
    length ps < EVM_MAX_CALL_DEPTH \<Longrightarrow> evm_pending_frame evm' = Some child \<Longrightarrow>
    machine_step keccak (evm, fr, ps) (evm'\<lparr>evm_pending_frame := None\<rparr>, child, fr' # ps)"
| leave: "frame_step keccak evm fr = Some (Done res evm' fr') \<Longrightarrow> fres_action res \<notin> {FRAME_CALL, FRAME_CREATE} \<Longrightarrow>
    fr_depth fr' \<noteq> 0 \<Longrightarrow> resume evm' fr' parent res = Some (evm'', parent') \<Longrightarrow>
    machine_step keccak (evm, fr, parent # ps) (evm'', parent', ps)"

inductive_cases machine_stepE: "machine_step keccak (evm, fr, ps) c"

text \<open>The main loop follows the machine.\<close>

lemma execute_next: "frame_step keccak evm fr = Some (Next evm' fr') \<Longrightarrow> execute_frame keccak evm fr = execute_frame keccak evm' fr'"
  by (subst execute_frame.simps) simp

lemma execute_done: "frame_step keccak evm fr = Some (Done res evm' fr') \<Longrightarrow> execute_frame keccak evm fr = Some (res, evm', fr')"
  by (subst execute_frame.simps) simp

lemma run_next:
  "frame_step keccak evm fr = Some (Next evm' fr') \<Longrightarrow> run_frames keccak g evm fr ps = run_frames keccak g evm' fr' ps"
  by (subst (1 2) run_frames.simps) (simp add: execute_next)

lemma run_step:
  "machine_step keccak (evm, fr, ps) (evm', fr', ps') \<Longrightarrow> run_frames keccak g evm fr ps = run_frames keccak g evm' fr' ps'"
proof (erule machine_stepE, goal_cases)
  case 1
  then show ?case by (auto dest: run_next)
next
  case 2
  then show ?case by (subst run_frames.simps) (auto simp: execute_done)
next
  case 3
  then show ?case by (subst run_frames.simps) (auto simp: execute_done resume_def)
qed

text \<open>The result of the machine when it does not step.\<close>

lemma run_finish:
  "frame_step keccak evm fr = Some (Done res evm' fr') \<Longrightarrow> fres_action res \<notin> {FRAME_CALL, FRAME_CREATE} \<Longrightarrow> fr_depth fr' = 0 \<Longrightarrow>
    run_frames keccak g evm fr ps = finish g evm' fr' res"
  by (subst run_frames.simps) (simp add: execute_done)

section \<open>Invariant\<close>

text \<open>A frame that waits has room for the flag and holds the region for the result in its memory.\<close>

definition waiting :: "call_frame_t \<Rightarrow> bool" where
  "waiting p \<longleftrightarrow> frame_ok p \<and> (\<exists>xs. at p xs 1 p) \<and> region_in p (fr_output_offset p) (unat (fr_output_size p))"

primrec chain_ok :: "call_frame_t list \<Rightarrow> bool" where
  "chain_ok [] = True"
| "chain_ok (p # ps) = (waiting p \<and> fr_depth p = of_nat (length ps) \<and> chain_ok ps)"

definition total_gas :: "'s config \<Rightarrow> nat" where
  "total_gas = (\<lambda>(evm, fr, ps). unat (fr_gas fr) + (\<Sum>p\<leftarrow>ps. unat (fr_gas p)))"

definition machine_ok :: "'s state_access_vtable_t \<Rightarrow> ('s \<Rightarrow> bool) \<Rightarrow> 's config \<Rightarrow> bool" where
  "machine_ok vt good = (\<lambda>(evm, fr, ps).
     evm_ok vt good evm \<and> frame_ok fr \<and> fr_depth fr = of_nat (length ps) \<and> chain_ok ps \<and>
     evm_frame_pool evm = length ps + 1 \<and> length ps < 1024 \<and> total_gas (evm, fr, ps) < 2 ^ 64)"

text \<open>The next opcode, or the copy of the data it returns, may be undefined.\<close>

definition hazardous :: "hash_fun \<Rightarrow> 's config \<Rightarrow> bool" where
  "hazardous keccak = (\<lambda>(evm, fr, ps).
     frame_hazard fr \<or>
     (case frame_step keccak evm fr of
        Some (Done res evm' fr') \<Rightarrow> fres_return_size res > evm_return_data_capacity evm' \<and> arena_exhausted (fr_arena fr')
      | _ \<Rightarrow> False))"

text \<open>The data a frame returns fits in the memory of a frame, so that its buffer fits in a block of the arena.\<close>

lemma return_capacity_small:
  assumes "unat sz \<le> 65536" "8 \<le> k" "k \<le> 16"
  shows "\<exists>c. return_capacity (2 ^ k) sz = Some c \<and> 0 < c \<and> c \<le> 65536"
  using assms(2,3)
proof (induction "16 - k" arbitrary: k)
  case 0
  then have "k = 16" by simp
  then show ?case using assms(1) by (subst return_capacity.simps) (simp add: word_less_nat_alt word_le_nat_alt)
next
  case (Suc n)
  then have k: "k < 16" "8 \<le> Suc k" "Suc k \<le> 16" "n = 16 - Suc k" by simp_all
  have p: "unat (2 ^ k :: u64) = 2 ^ k" using k by (intro unat_pow2_u64) simp
  have "(2::nat) ^ k \<le> 2 ^ 16" using k by (intro power_increasing) simp_all
  then have b: "\<not> (2 ^ k :: u64) > NOT 0 div 2" "(2 ^ k :: u64) \<le> 65536" "(0 :: u64) < 2 ^ k"
    using p by (simp_all add: word_less_nat_alt word_le_nat_alt)
  then show ?case
    using Suc.hyps(1) [OF k(4,2,3)] by (subst return_capacity.simps) (auto simp: mult.commute)
qed

lemma mem_len_small: "frame_ok fr \<Longrightarrow> mem_len fr \<le> 65536"
  using mem_size_small by (auto simp: frame_ok_def mem_len_def)

lemma copy_return_law:
  assumes "frame_ok fr" "region_in fr offset (unat sz)" "\<not> (sz > evm_return_data_capacity evm \<and> arena_exhausted (fr_arena fr))"
  shows "\<exists>d c a. copy_return_data evm fr offset sz =
    Some (evm\<lparr>evm_return_data := d, evm_return_data_capacity := c\<rparr>, fr\<lparr>fr_arena := a\<rparr>) \<and> length d = unat sz"
proof (cases "sz = 0")
  case True
  have "evm\<lparr>evm_return_data := [], evm_return_data_capacity := evm_return_data_capacity evm\<rparr> = evm\<lparr>evm_return_data := []\<rparr>"
    "fr\<lparr>fr_arena := fr_arena fr\<rparr> = fr" by simp_all
  then have "copy_return_data evm fr offset sz =
      Some (evm\<lparr>evm_return_data := [], evm_return_data_capacity := evm_return_data_capacity evm\<rparr>, fr\<lparr>fr_arena := fr_arena fr\<rparr>)"
    using True by (simp add: copy_return_data_def)
  moreover have "length ([] :: u8 list) = unat sz" using True by simp
  ultimately show ?thesis by blast
next
  case False
  obtain m where m: "fr_memory fr = Some m" "mem_wf m" using assms(1) by (auto simp: frame_ok_def)
  have len: "unat offset + unat sz \<le> length (mem_data m)" using assms(2) False m(1) by (simp add: region_in_def mem_len_def unat_eq_0)
  then have sz: "unat sz \<le> 65536" using mem_len_small [OF assms(1)] m(1) by (simp add: mem_len_def)
  obtain d where d: "evm_memory_load_unsafe m offset sz = Some d" "length d = unat sz"
    using len by (auto simp: evm_memory_load_unsafe_def)
  show ?thesis
  proof (cases "sz > evm_return_data_capacity evm")
    case True
    obtain c where c: "return_capacity 256 sz = Some c" "0 < c" "c \<le> 65536" using return_capacity_small [OF sz, of 8] by auto
    obtain p a where a: "div0_arena_alloc (fr_arena fr) c = (Some p, a)"
      using assms(3) True c(2,3) arena_exhaustedI by (metis option.exhaust surj_pair)
    have "copy_return_data evm fr offset sz = Some (evm\<lparr>evm_return_data := d, evm_return_data_capacity := c\<rparr>, fr\<lparr>fr_arena := a\<rparr>)"
      using False True m(1) c(1) a d by (simp add: copy_return_data_def)
    then show ?thesis using d(2) by blast
  next
    case small: False
    then have "copy_return_data evm fr offset sz = Some (evm\<lparr>evm_return_data := d,
        evm_return_data_capacity := evm_return_data_capacity evm\<rparr>, fr\<lparr>fr_arena := fr_arena fr\<rparr>)"
      using False m(1) d by (simp add: copy_return_data_def)
    then show ?thesis using d(2) by blast
  qed
qed

lemma at_self_arena: "at p xs r p \<Longrightarrow> at (p\<lparr>fr_arena := a, fr_gas := g\<rparr>) xs r (p\<lparr>fr_arena := a, fr_gas := g\<rparr>)"
  by (auto simp: at_def)

lemma waiting_arena [simp]: "waiting (p\<lparr>fr_arena := a\<rparr>) = waiting p" "waiting (p\<lparr>fr_gas := g\<rparr>) = waiting p"
  by (auto simp: waiting_def frame_ok_def live_def kept_def at_def region_in_def mem_len_def)

text \<open>Pushing the flag of a child on the stack of its parent.\<close>

lemma push_flag:
  assumes "waiting p"
  shows "\<exists>p'. frame_push p x = Some p' \<and> frame_ok p' \<and> same_call p p' \<and> fr_gas p' \<le> fr_gas p"
proof -
  obtain xs where xs: "at p xs (Suc 0) p" "frame_ok p" using assms by (auto simp: waiting_def)
  obtain p' where p': "frame_push p x = Some p'" "at p (x # xs) 0 p'" using push_at [OF xs(1)] by blast
  then show ?thesis using moved_ok [OF at_moved [OF p'(2)] xs(2)] by blast
qed

lemma store_result:
  assumes "waiting p" "n \<le> unat (fr_output_size p)" "length d = n"
  shows "\<exists>p'. (if n > 0 \<and> fr_memory p \<noteq> None then frame_store p (fr_output_offset p) d else Some p) = Some p' \<and>
    waiting p' \<and> fr_depth p' = fr_depth p \<and> fr_gas p' = fr_gas p"
proof -
  obtain m where m: "fr_memory p = Some m" "mem_wf m" using assms(1) by (auto simp: waiting_def frame_ok_def)
  have "waiting (p\<lparr>fr_memory := Some (m\<lparr>mem_data := memcpy_at (mem_data m) (unat (fr_output_offset p)) d\<rparr>)\<rparr>)"
    if "unat (fr_output_offset p) + length d \<le> length (mem_data m)"
    using assms(1) m length_memcpy [OF that]
    by (auto simp: waiting_def frame_ok_def live_def kept_def at_def mem_wf_def region_in_def mem_len_def)
  moreover have "unat (fr_output_offset p) + length d \<le> length (mem_data m)" if "0 < n"
    using assms m(1) that by (auto simp: waiting_def region_in_def mem_len_def)
  ultimately show ?thesis using assms(1) m(1)
    by (auto simp: frame_store_def evm_memory_store_unsafe_def assms(3))
qed

definition resumed :: "'s state_access_vtable_t \<Rightarrow> ('s \<Rightarrow> bool) \<Rightarrow> nat \<Rightarrow> nat \<Rightarrow> call_frame_t \<Rightarrow> 's evm_t \<times> call_frame_t \<Rightarrow> bool" where
  "resumed vt good n g p = (\<lambda>(evm', p').
     evm_ok vt good evm' \<and> evm_frame_pool evm' = n \<and> frame_ok p' \<and> fr_depth p' = fr_depth p \<and> unat (fr_gas p') \<le> g)"

lemma evm_ok_released:
  "evm_ok vt good evm \<Longrightarrow> length d < 2 ^ 64 \<Longrightarrow> evm_frame_pool evm = Suc n \<Longrightarrow>
    evm_ok vt good (evm\<lparr>evm_return_data := d, evm_return_data_capacity := c,
      evm_memory_pool := evm_memory_pool_return (evm_memory_pool evm), evm_frame_pool := call_frame_pool_return (Suc n)\<rparr>)"
  by (simp add: evm_ok_def evm_memory_pool_return_def call_frame_pool_return_def)

lemma fail_law:
  assumes "evm_ok vt good evm" "waiting p" "evm_frame_pool evm = Suc n"
  shows "ok False (fail_to_parent evm fr p) (resumed vt good n (unat (fr_gas p)) p)"
proof -
  obtain p' where p': "frame_push (p\<lparr>fr_arena := fr_arena fr\<rparr>) uint256_zero = Some p'" "frame_ok p'" "fr_depth p' = fr_depth p"
      "fr_gas p' \<le> fr_gas p"
    using push_flag [of "p\<lparr>fr_arena := fr_arena fr\<rparr>" uint256_zero] assms(2) by (auto simp: same_call_def)
  then show ?thesis
    using assms(1,3)
    by (simp add: fail_to_parent_def resumed_def evm_ok_def evm_memory_pool_return_def call_frame_pool_return_def word_le_nat_alt)
qed

lemma return_law:
  assumes "evm_ok vt good evm" "frame_ok fr" "waiting p" "evm_frame_pool evm = Suc n"
    "region_in fr (fres_return_offset res) (unat (fres_return_size res))"
    "\<not> (fres_return_size res > evm_return_data_capacity evm \<and> arena_exhausted (fr_arena fr))"
    "unat (fr_gas p) + unat (fr_gas fr) < 2 ^ 64"
  shows "ok False (return_to_parent evm fr p res flag) (resumed vt good n (unat (fr_gas p) + unat (fr_gas fr)) p)"
proof -
  obtain d c a where copy: "copy_return_data evm fr (fres_return_offset res) (fres_return_size res) =
      Some (evm\<lparr>evm_return_data := d, evm_return_data_capacity := c\<rparr>, fr\<lparr>fr_arena := a\<rparr>)" "length d = unat (fres_return_size res)"
    using copy_return_law [OF assms(2,5,6)] by blast
  let ?p = "p\<lparr>fr_arena := a\<rparr>"
  define n' where "n' = (if unat (fr_output_size p) > length d then length d else unat (fr_output_size p))"
  have n': "length (take n' d) = n'" "n' \<le> unat (fr_output_size p)" by (simp_all add: n'_def)
  obtain q where q: "(if n' > 0 \<and> fr_memory ?p \<noteq> None then frame_store ?p (fr_output_offset ?p) (take n' d) else Some ?p) = Some q"
      "waiting q" "fr_depth q = fr_depth p" "fr_gas q = fr_gas p"
    using store_result [of ?p n' "take n' d"] assms(3) n' by auto
  obtain p' where p': "frame_push (q\<lparr>fr_gas := fr_gas q + fr_gas fr\<rparr>) flag = Some p'" "frame_ok p'" "fr_depth p' = fr_depth p"
      "fr_gas p' \<le> fr_gas p + fr_gas fr"
    using push_flag [of "q\<lparr>fr_gas := fr_gas q + fr_gas fr\<rparr>" flag] q(2-4) by (auto simp: same_call_def)
  have gas: "unat (fr_gas p + fr_gas fr) = unat (fr_gas p) + unat (fr_gas fr)" using assms(7) by (simp add: unat_add_lem [THEN iffD1])
  have "return_to_parent evm fr p res flag =
      Some (evm\<lparr>evm_return_data := d, evm_return_data_capacity := c,
        evm_memory_pool := evm_memory_pool_return (evm_memory_pool evm), evm_frame_pool := call_frame_pool_return (Suc n)\<rparr>, p')"
    using copy(1) q(1) p'(1) assms(4) by (simp add: return_to_parent_def Let_def n'_def [symmetric] cong: if_cong split del: if_split)
  moreover have "length d < 2 ^ 64" using copy(2) unat_u64_less [of "fres_return_size res"] by simp
  ultimately show ?thesis
    using p'(2-4) gas evm_ok_released [OF assms(1) _ assms(4)]
    by (simp add: resumed_def call_frame_pool_return_def word_le_nat_alt)
qed

lemma resume_law:
  assumes "evm_ok vt good evm" "frame_ok fr" "waiting p" "evm_frame_pool evm = Suc n"
    "region_in fr (fres_return_offset res) (unat (fres_return_size res))"
    "\<not> (fres_return_size res > evm_return_data_capacity evm \<and> arena_exhausted (fr_arena fr))"
    "unat (fr_gas p) + unat (fr_gas fr) < 2 ^ 64"
  shows "ok False (resume evm fr p res) (resumed vt good n (unat (fr_gas p) + unat (fr_gas fr)) p)"
  using return_law [OF assms] ok_mono [OF fail_law [OF assms(1,3,4)]] by (auto simp: resume_def resumed_def)

section \<open>Every step keeps the invariant and makes progress\<close>

definition machine_order :: "('s config \<times> 's config) set" where
  "machine_order = measures [total_gas, \<lambda>(evm, fr, ps). length ps, \<lambda>(evm, fr, ps). 2 ^ 64 - unat (fr_pc fr)]"

lemma wf_machine_order: "wf machine_order"
  by (simp add: machine_order_def)

lemma pc_less: "fr_pc fr < fr_pc fr' \<Longrightarrow> 2 ^ 64 - unat (fr_pc fr') < 2 ^ 64 - unat (fr_pc fr)"
  using unat_u64_less [of "fr_pc fr"] unat_u64_less [of "fr_pc fr'"] by (simp add: word_less_nat_alt)

lemma no_return_hazard:
  "\<not> hazardous keccak (evm, fr, ps) \<Longrightarrow> frame_step keccak evm fr = Some (Done res evm' fr') \<Longrightarrow>
    \<not> (fres_return_size res > evm_return_data_capacity evm' \<and> arena_exhausted (fr_arena fr'))"
  by (auto simp: hazardous_def)

context state_provider
begin

lemma step_defined:
  assumes "machine_ok vt good (evm, fr, ps)" "\<not> hazardous keccak (evm, fr, ps)"
  shows "ok False (frame_step keccak evm fr) (\<lambda>s. step_ok vt good evm fr s \<and> progress fr s)"
  using assms by (intro frame_step_law) (auto simp: machine_ok_def hazardous_def)

lemma step_law:
  assumes "machine_ok vt good (evm, fr, ps)" "\<not> hazardous keccak (evm, fr, ps)" "frame_step keccak evm fr = Some s"
  shows "step_ok vt good evm fr s" "progress fr s"
  using step_defined [OF assms(1,2)] assms(3) by auto

lemma exec_law:
  assumes "machine_ok vt good (evm, fr, ps)" "step_ok vt good evm fr (Next evm' fr')" "progress fr (Next evm' fr')"
  shows "machine_ok vt good (evm', fr', ps)" "((evm', fr', ps), (evm, fr, ps)) \<in> machine_order"
proof -
  have g: "unat (fr_gas fr') \<le> unat (fr_gas fr)" using assms(2) by (simp add: step_ok_def word_le_nat_alt)
  show "machine_ok vt good (evm', fr', ps)"
    using assms(1,2) g by (auto simp: machine_ok_def step_ok_def same_call_def same_pools_def total_gas_def)
  show "((evm', fr', ps), (evm, fr, ps)) \<in> machine_order"
    using assms(3) g pc_less [of fr fr']
    by (auto simp: machine_order_def total_gas_def progress_def word_less_nat_alt le_eq_less_or_eq)
qed

lemma enter_law:
  assumes "machine_ok vt good (evm, fr, ps)" "step_ok vt good evm fr (Done res evm' fr')"
    "fres_action res \<in> {FRAME_CALL, FRAME_CREATE}" "evm_pending_frame evm' = Some child"
  shows "machine_ok vt good (evm'\<lparr>evm_pending_frame := None\<rparr>, child, fr' # ps)"
    "((evm'\<lparr>evm_pending_frame := None\<rparr>, child, fr' # ps), (evm, fr, ps)) \<in> machine_order"
proof -
  have s: "evm_ok vt good evm'" "frame_ok fr'" "same_call fr fr'" "call_ready evm fr evm' fr'"
    using assms(2,3) by (auto simp: step_ok_def split: if_splits)
  have less: "unat (fr_gas child) + unat (fr_gas fr') < unat (fr_gas fr)" using s(4) assms(4) by (auto simp: call_ready_def)
  show "machine_ok vt good (evm'\<lparr>evm_pending_frame := None\<rparr>, child, fr' # ps)"
    using assms(1,4) s less
    by (auto simp: machine_ok_def call_ready_def same_call_def waiting_def total_gas_def evm_ok_pending)
  show "((evm'\<lparr>evm_pending_frame := None\<rparr>, child, fr' # ps), (evm, fr, ps)) \<in> machine_order"
    using less by (simp add: machine_order_def total_gas_def)
qed

lemma leave_law:
  assumes "machine_ok vt good (evm, fr, p # ps)" "step_ok vt good evm fr (Done res evm' fr')"
    "fres_action res \<notin> {FRAME_CALL, FRAME_CREATE}"
    "\<not> (fres_return_size res > evm_return_data_capacity evm' \<and> arena_exhausted (fr_arena fr'))"
  shows "\<exists>evm'' p'. resume evm' fr' p res = Some (evm'', p') \<and> machine_ok vt good (evm'', p', ps) \<and>
    ((evm'', p', ps), (evm, fr, p # ps)) \<in> machine_order"
proof -
  have s: "evm_ok vt good evm'" "frame_ok fr'" "same_pools evm evm'" "unat (fr_gas fr') \<le> unat (fr_gas fr)"
      "region_in fr' (fres_return_offset res) (unat (fres_return_size res))"
    using assms(2,3) by (auto simp: step_ok_def word_le_nat_alt split: if_splits)
  have p: "waiting p" "evm_frame_pool evm' = Suc (length ps + 1)" "unat (fr_gas p) + unat (fr_gas fr') < 2 ^ 64"
    using assms(1) s(3,4) by (auto simp: machine_ok_def same_pools_def total_gas_def)
  obtain evm'' p' where r: "resume evm' fr' p res = Some (evm'', p')"
      "resumed vt good (length ps + 1) (unat (fr_gas p) + unat (fr_gas fr')) p (evm'', p')"
    using resume_law [OF s(1,2) p(1,2) s(5) assms(4) p(3)] by (auto dest!: ok_defined)
  then show ?thesis
    using assms(1) s(4) by (auto simp: resumed_def machine_ok_def machine_order_def total_gas_def)
qed

lemma machine_step_law:
  assumes "machine_ok vt good c" "\<not> hazardous keccak c" "machine_step keccak c c'"
  shows "machine_ok vt good c' \<and> (c', c) \<in> machine_order"
  using assms(3)
proof cases
  case (exec evm fr evm' fr' ps)
  note c = assms(1,2) [unfolded exec(1)]
  show ?thesis unfolding exec(1,2) using exec_law [OF c(1) step_law [OF c exec(3)]] by blast
next
  case (enter evm fr res evm' fr' ps child)
  note c = assms(1,2) [unfolded enter(1)]
  show ?thesis unfolding enter(1,2) using enter_law [OF c(1) step_law(1) [OF c enter(3)] enter(4,6)] by blast
next
  case (leave evm fr res evm' fr' parent evm'' parent' ps)
  note c = assms(1,2) [unfolded leave(1)]
  show ?thesis
    unfolding leave(1,2)
    using leave_law [OF c(1) step_law(1) [OF c leave(3)] leave(4) no_return_hazard [OF c(2) leave(3)]] leave(6) by auto
qed

end

section \<open>Termination\<close>

text \<open>No configuration that can be reached is hazardous.\<close>

definition safe_from :: "hash_fun \<Rightarrow> 's config \<Rightarrow> bool" where
  "safe_from keccak c \<longleftrightarrow> (\<forall>c'. (machine_step keccak)\<^sup>*\<^sup>* c c' \<longrightarrow> \<not> hazardous keccak c')"

lemma safe_now: "safe_from keccak c \<Longrightarrow> \<not> hazardous keccak c"
  unfolding safe_from_def by blast

lemma safe_step: "safe_from keccak c \<Longrightarrow> machine_step keccak c c' \<Longrightarrow> safe_from keccak c'"
  unfolding safe_from_def by (blast intro: converse_rtranclp_into_rtranclp)

text \<open>What the execution of a transaction leaves.\<close>

definition executed :: "'s state_access_vtable_t \<Rightarrow> ('s \<Rightarrow> bool) \<Rightarrow> u64 \<Rightarrow> evm_execution_result_t \<times> 's evm_t \<Rightarrow> bool" where
  "executed vt good g = (\<lambda>(r, evm).
     er_gas_used r \<le> g \<and> (\<forall>state. evm_state evm = Some state \<longrightarrow> provided vt good state))"

lemma gas_used_le: "unat gas \<le> unat g \<Longrightarrow> g - gas \<le> g" for gas g :: u64
  by (simp add: word_le_nat_alt unat_sub)

lemma finish_law:
  assumes "evm_ok vt good evm" "frame_ok fr" "region_in fr (fres_return_offset res) (unat (fres_return_size res))"
    "\<not> (fres_return_size res > evm_return_data_capacity evm \<and> arena_exhausted (fr_arena fr))" "unat (fr_gas fr) \<le> unat g"
  shows "ok False (finish g evm fr res) (executed vt good g)"
proof -
  obtain d c a where copy: "copy_return_data evm fr (fres_return_offset res) (fres_return_size res) =
      Some (evm\<lparr>evm_return_data := d, evm_return_data_capacity := c\<rparr>, fr\<lparr>fr_arena := a\<rparr>)"
    using copy_return_law [OF assms(2-4)] by blast
  show ?thesis
    using assms(1) gas_used_le [OF assms(5)]
    by (auto simp: finish_def copy execution_error_def executed_def evm_ok_def split: frame_action_t.split)
qed

context state_provider
begin

text \<open>A frame that is done: the machine goes to the child or to the parent, or the execution ends.\<close>

lemma done_law:
  assumes "machine_ok vt good (evm, fr, ps)" "\<not> hazardous keccak (evm, fr, ps)" "total_gas (evm, fr, ps) \<le> unat g"
    "frame_step keccak evm fr = Some (Done res evm' fr')" "step_ok vt good evm fr (Done res evm' fr')"
  shows "(\<exists>c'. machine_step keccak (evm, fr, ps) c') \<or> ok False (run_frames keccak g evm fr ps) (executed vt good g)"
proof (cases "fres_action res \<in> {FRAME_CALL, FRAME_CREATE}")
  case True
  then have r: "call_ready evm fr evm' fr'" using assms(5) by (auto simp: step_ok_def split: if_splits)
  then obtain child where "evm_pending_frame evm' = Some child" by (auto simp: call_ready_def)
  moreover have "length ps < EVM_MAX_CALL_DEPTH" using assms(1) by (simp add: machine_ok_def EVM_MAX_CALL_DEPTH_def)
  ultimately show ?thesis using enter [OF assms(4) True] by blast
next
  case stop: False
  note ret = no_return_hazard [OF assms(2,4)]
  show ?thesis
  proof (cases "fr_depth fr' = 0")
    case True
    have f: "evm_ok vt good evm'" "frame_ok fr'" "region_in fr' (fres_return_offset res) (unat (fres_return_size res))"
        "unat (fr_gas fr') \<le> unat (fr_gas fr)"
      using assms(5) stop by (auto simp: step_ok_def word_le_nat_alt split: if_splits)
    have "unat (fr_gas fr') \<le> unat g" using f(4) assms(3) by (simp add: total_gas_def)
    then show ?thesis unfolding run_finish [OF assms(4) stop True] using finish_law [OF f(1-3) ret] by blast
  next
    case deep: False
    then obtain p qs where ps: "ps = p # qs"
      using assms(1,5) by (cases ps) (auto simp: machine_ok_def step_ok_def same_call_def)
    show ?thesis using leave [OF assms(4) stop deep] leave_law [OF assms(1) [unfolded ps] assms(5) stop ret] ps by blast
  qed
qed

lemma run_frames_law:
  assumes "machine_ok vt good c" "safe_from keccak c" "total_gas c \<le> unat g"
  shows "ok False (run_frames keccak g (fst c) (fst (snd c)) (snd (snd c))) (executed vt good g)"
  using assms
proof (induction c rule: wf_induct_rule [OF wf_machine_order])
  case (1 c)
  obtain evm fr ps where c: "c = (evm, fr, ps)" by (metis prod_cases3)
  note ok = 1(2) [unfolded c] and safe = safe_now [OF 1(3) [unfolded c]]
  have step: "ok False (run_frames keccak g evm fr ps) (executed vt good g)" if "machine_step keccak (evm, fr, ps) c'" for c'
  proof -
    obtain evm' fr' ps' where c': "c' = (evm', fr', ps')" by (metis prod_cases3)
    have l: "machine_ok vt good c'" "(c', c) \<in> machine_order" using machine_step_law [OF ok safe that] c by auto
    then have "total_gas c' \<le> total_gas c" by (auto simp: machine_order_def)
    then show ?thesis using 1(1) [OF l(2,1) safe_step [OF 1(3)]] 1(4) that c c' run_step [of keccak evm fr ps evm' fr' ps' g] by simp
  qed
  obtain s where s: "frame_step keccak evm fr = Some s" "step_ok vt good evm fr s"
    using step_defined [OF ok safe] by (auto dest!: ok_defined)
  have "ok False (run_frames keccak g evm fr ps) (executed vt good g)"
  proof (cases s)
    case (Next evm' fr')
    then show ?thesis using step [OF exec] s(1) by blast
  next
    case (Done res evm' fr')
    then show ?thesis using done_law [OF ok safe 1(4) [unfolded c] s [unfolded Done]] step by blast
  qed
  then show ?case by (simp add: c)
qed

end

section \<open>Transactions\<close>

text \<open>The EVM between transactions, the environment of one, and where its execution starts.\<close>

definition evm_ready :: "'s state_access_vtable_t \<Rightarrow> ('s \<Rightarrow> bool) \<Rightarrow> 's evm_t \<Rightarrow> bool" where
  "evm_ready vt good evm \<longleftrightarrow>
     evm_frame_pool evm = 0 \<and> evm_memory_pool evm = 0 \<and> length (evm_return_data evm) < 2 ^ 64 \<and>
     evm_gas_table evm (opcode OP_JUMP) \<noteq> 0 \<and> evm_gas_table evm (opcode OP_JUMPI) \<noteq> 0 \<and>
     (\<forall>state. evm_state evm = Some state \<longrightarrow> provided vt good state)"

definition env_ok :: "execution_env_t \<Rightarrow> bool" where
  "env_ok env \<longleftrightarrow> env_block env \<noteq> None \<and> length (cp_code (env_call env)) < 2 ^ 62 \<and> length (cp_input (env_call env)) < 2 ^ 64"

definition root_config :: "'s evm_t \<Rightarrow> execution_env_t \<Rightarrow> call_frame_t \<Rightarrow> 's config" where
  "root_config evm env slot =
     (let (evm, frame) = init_root_frame (evm\<lparr>evm_block := env_block env, evm_tx := Some (env_tx env), evm_frame_pool := 1\<rparr>)
            (call_frame_reset slot) env
      in (evm, frame, []))"

lemma execute_root:
  assumes "evm_frame_pool evm = 0"
  shows "evm_execute_env keccak evm env slot =
    (case root_config evm env slot of (evm, frame, parents) \<Rightarrow> run_frames keccak (cp_gas (env_call env)) evm frame parents)"
  using assms
  by (simp add: evm_execute_env_def call_frame_pool_rent_def EVM_MAX_CALL_DEPTH_def root_config_def Let_def case_prod_beta)

lemma root_ok:
  assumes "evm_ready vt good evm" "env_ok env"
  shows "machine_ok vt good (root_config evm env slot)" "total_gas (root_config evm env slot) = unat (cp_gas (env_call env))"
proof -
  obtain stack arena where st: "evm_stack_pool_borrow (evm_arena evm) = (stack, arena)" by force
  have "mem_wf evm_memory_init" by (simp add: mem_wf_def evm_memory_init_def)
  then have f: "frame_ok (fr\<lparr>fr_pc := pc, fr_gas := g, fr_stack := stack, fr_memory := Some evm_memory_init,
      fr_code := cp_code (env_call env), fr_output_offset := oo, fr_output_size := os, fr_depth := d, fr_exec_type := t,
      fr_is_static := ro, fr_caller := c, fr_address := a, fr_value := v, fr_input := cp_input (env_call env),
      fr_jumpdest_bitmap := None, fr_code_hash := hash_zero, fr_arena := arena\<rparr>)" for fr pc g oo os d t ro c a v
    using assms(2) borrow_wf [of "evm_arena evm"] st
    by (cases stack) (auto simp: frame_ok_def env_ok_def live_def kept_def at_def)
  show "machine_ok vt good (root_config evm env slot)" "total_gas (root_config evm env slot) = unat (cp_gas (env_call env))"
    using assms f
    by (simp_all add: root_config_def init_root_frame_def Let_def st evm_memory_pool_borrow_def EVM_MAX_CALL_DEPTH_def evm_ready_def
      env_ok_def machine_ok_def evm_ok_def total_gas_def unat_u64_less)
qed

context state_provider
begin

lemma execute_law:
  assumes "evm_ready vt good evm" "env_ok env" "safe_from keccak (root_config evm env slot)"
  shows "ok False (evm_execute_env keccak evm env slot) (executed vt good (cp_gas (env_call env)))"
  using run_frames_law [OF root_ok(1) [OF assms(1,2)] assms(3)] root_ok(2) [OF assms(1,2)]
    execute_root [of evm keccak env slot] assms(1)
  by (simp add: evm_ready_def case_prod_beta)

end

end
