(* ===== verification/Evm_Guarded.thy ===== *)
theory Evm_Guarded
  imports Evm_Machine
begin

text \<open>
  Code without unguarded opcodes: its frame makes no call and returns no data, so that no hazard but
  a missing stack can arise, and the execution of a transaction with such code always returns.
\<close>

definition guarded_code :: "u8 list \<Rightarrow> bool" where
  "guarded_code code \<longleftrightarrow> list_all (\<lambda>b. \<not> list_ex (\<lambda>op. opcode op = b) unguarded) code"

definition quiet :: "'s handler \<Rightarrow> bool" where
  "quiet h \<longleftrightarrow> (\<forall>evm fr res evm' fr'. h evm fr = Some (Done res evm' fr') \<longrightarrow>
     fres_action res \<in> {FRAME_STOP, FRAME_ERROR} \<and> fres_return_size res = 0)"

lemma after_op_quiet: "after_op evm st fr = Done res evm' fr' \<Longrightarrow> fres_action res = FRAME_ERROR \<and> fres_return_size res = 0"
  by (auto simp: after_op_def frame_result_error_def split: if_splits)

lemma quiet_handlers [simp]:
  "quiet (frame_handler f op)" "quiet (state_handler st g)" "quiet handle_stop" "quiet handle_invalid" "quiet handle_add"
  "quiet handle_exp" "quiet handle_origin" "quiet handle_gasprice" "quiet handle_returndatasize"
  "quiet (block_handler k op)" "quiet handle_selfbalance" "quiet handle_blobhash" "quiet (jump_handler j op)" "quiet handle_pc"
  "quiet handle_sload" "quiet handle_sstore"
  by (auto simp: quiet_def frame_handler_def state_handler_def handle_stop_def handle_invalid_def handle_add_def handle_exp_def
    handle_origin_def handle_gasprice_def handle_returndatasize_def block_handler_def handle_selfbalance_def
    handle_blobhash_def jump_handler_def handle_pc_def handle_sload_def handle_sstore_def frame_result_stop_def
    frame_result_error_def Option.bind_eq_Some_conv split: option.splits prod.splits if_splits dest!: after_op_quiet)

text \<open>The handlers of the opcodes that are guarded end a frame with STOP or an error only.\<close>

lemma guarded_quiet: "list_all (\<lambda>(op, h). op \<in> set unguarded \<or> quiet h) (handlers keccak)"
  by (auto simp: handlers_def arithmetic_handlers_def logic_handlers_def push_handlers_def context_handlers_def
    block_handlers_def stack_handlers_def memory_handlers_def control_handlers_def system_handlers_def log_handlers_def
    list_all_iff unguarded_def)

lemma guarded_step:
  assumes "guarded_code (fr_code fr)" "length (fr_code fr) < 2 ^ 62" "frame_step keccak evm fr = Some (Done res evm' fr')"
  shows "fres_action res \<in> {FRAME_STOP, FRAME_ERROR} \<and> fres_return_size res = 0"
proof (cases "length (fr_code fr) \<le> unat (fr_pc fr)")
  case True
  then show ?thesis using assms(3) code_size_less [OF assms(2)] by (auto simp: frame_step_def frame_result_stop_def)
next
  case False
  let ?b = "fr_code fr ! unat (fr_pc fr)"
  have run: "dispatch_table keccak ?b evm (fr\<lparr>fr_pc := fr_pc fr + 1\<rparr>) = Some (Done res evm' fr')"
    using assms(3) code_size_less [OF assms(2)] False by (simp add: frame_step_def)
  have b: "\<not> list_ex (\<lambda>op. opcode op = ?b) unguarded" using assms(1) False by (simp add: guarded_code_def list_all_length)
  have "quiet (dispatch_table keccak ?b :: 'a handler)"
  proof (cases rule: dispatch_cases [where 's = 'a and keccak = keccak and b = ?b])
    case 1
    then show ?thesis by simp
  next
    case (2 op h)
    then show ?thesis using guarded_quiet [of keccak] b by (auto simp: list_all_iff list_ex_iff)
  qed
  then show ?thesis using run unfolding quiet_def by blast
qed

text \<open>The configurations that such code reaches.\<close>

definition alone :: "'s state_access_vtable_t \<Rightarrow> ('s \<Rightarrow> bool) \<Rightarrow> 's config \<Rightarrow> bool" where
  "alone vt good = (\<lambda>(evm, fr, ps). machine_ok vt good (evm, fr, ps) \<and> ps = [] \<and> live fr \<and> guarded_code (fr_code fr))"

lemma alone_frame:
  assumes "alone vt good (evm, fr, ps)"
  shows "\<not> frame_hazard fr"
  using assms
  by (auto simp: alone_def frame_hazard_def guarded_code_def live_def kept_def at_def list_all_length list_ex_iff)

lemma alone_safe: "alone vt good c \<Longrightarrow> \<not> hazardous keccak c"
proof -
  assume a: "alone vt good c"
  obtain evm fr ps where c: "c = (evm, fr, ps)" by (metis prod_cases3)
  have "guarded_code (fr_code fr)" "length (fr_code fr) < 2 ^ 62" using a c by (auto simp: alone_def machine_ok_def frame_ok_def)
  then show ?thesis
    using guarded_step [of fr keccak evm] alone_frame [OF a [unfolded c]] c
    by (auto simp: hazardous_def split: option.splits step_t.splits)
qed

context state_provider
begin

lemma alone_step:
  assumes "alone vt good c" "machine_step keccak c c'"
  shows "alone vt good c'"
  using assms(2)
proof cases
  case (exec evm fr evm' fr' ps)
  have "machine_ok vt good c'" using machine_step_law [OF _ alone_safe [OF assms(1)] assms(2)] assms(1) by (auto simp: alone_def)
  moreover have "step_ok vt good evm fr (Next evm' fr')"
    using step_law [OF _ alone_safe [OF assms(1) [unfolded exec(1)]] exec(3)] assms(1) exec(1) by (auto simp: alone_def)
  ultimately show ?thesis using assms(1) exec(1,2) by (auto simp: alone_def step_ok_def same_call_def)
next
  case (enter evm fr res evm' fr' ps child)
  then show ?thesis
    using guarded_step [of fr keccak evm] assms(1) by (auto simp: alone_def machine_ok_def frame_ok_def)
next
  case (leave evm fr res evm' fr' parent evm'' parent' ps)
  then show ?thesis using assms(1) by (simp add: alone_def)
qed

lemma alone_reachable: "(machine_step keccak)\<^sup>*\<^sup>* c c' \<Longrightarrow> alone vt good c \<Longrightarrow> alone vt good c'"
  by (induction rule: rtranclp_induct) (auto intro: alone_step)

lemma guarded_safe:
  assumes "evm_ready vt good evm" "env_ok env" "guarded_code (cp_code (env_call env))"
    "fst (evm_stack_pool_borrow (evm_arena evm)) \<noteq> None"
  shows "safe_from keccak (root_config evm env slot)"
proof -
  obtain evm' fr where c: "root_config evm env slot = (evm', fr, [])" "fr_code fr = cp_code (env_call env)" "fr_stack fr \<noteq> None"
    using assms(4) by (auto simp: root_config_def init_root_frame_def Let_def case_prod_beta)
  have "machine_ok vt good (evm', fr, [])" using root_ok(1) [OF assms(1,2), of slot] c(1) by simp
  then have "alone vt good (root_config evm env slot)" using c assms(3) by (auto simp: alone_def machine_ok_def frame_ok_def)
  then show ?thesis unfolding safe_from_def using alone_reachable alone_safe by blast
qed

end

end
