(* ===== verification/Account.thy ===== *)
theory Account
  imports Rlp_Decode Mpt_Node
begin

text \<open>
  Accounts, \<open>src/state/account.c\<close>: the four fields of an account and their RLP encoding, which is
  the value the state trie holds for an address.
\<close>

record account_t =
  acc_nonce :: u64
  acc_balance :: uint256_t
  acc_storage_root :: hash_t
  acc_code_hash :: hash_t

definition EMPTY_CODE_HASH :: hash_t where
  "EMPTY_CODE_HASH = [0xc5, 0xd2, 0x46, 0x01, 0x86, 0xf7, 0x23, 0x3c,
                      0x92, 0x7e, 0x7d, 0xb2, 0xdc, 0xc7, 0x03, 0xc0,
                      0xe5, 0x00, 0xb6, 0x53, 0xca, 0x82, 0x27, 0x3b,
                      0x7b, 0xfa, 0xd8, 0x04, 0x5d, 0x85, 0xa4, 0x70]"

definition account_empty :: account_t where
  "account_empty = \<lparr>acc_nonce = 0, acc_balance = uint256_zero, acc_storage_root = MPT_EMPTY_ROOT,
     acc_code_hash = EMPTY_CODE_HASH\<rparr>"

definition account_is_empty :: "account_t \<Rightarrow> bool" where
  "account_is_empty acc =
     (if acc_nonce acc \<noteq> 0 then False
      else if \<not> uint256_is_zero (acc_balance acc) then False
      else hash_equal (acc_code_hash acc) EMPTY_CODE_HASH)"

definition account_rlp_encode :: "allocator \<Rightarrow> account_t \<Rightarrow> bytes_t option" where
  "account_rlp_encode alloc acc =
     do {
       (_, result) \<leftarrow> bytes_reserve alloc bytes_init_arena 128;
       (builder, result) \<leftarrow> rlp_list_start alloc result;
       nonce_rlp \<leftarrow> rlp_encode_u64 alloc (acc_nonce acc);
       result \<leftarrow> rlp_list_append alloc result nonce_rlp;
       balance_rlp \<leftarrow> rlp_encode_uint256 alloc (acc_balance acc);
       result \<leftarrow> rlp_list_append alloc result balance_rlp;
       storage_root_rlp \<leftarrow> rlp_encode_bytes alloc (acc_storage_root acc);
       result \<leftarrow> rlp_list_append alloc result storage_root_rlp;
       code_hash_rlp \<leftarrow> rlp_encode_bytes alloc (acc_code_hash acc);
       result \<leftarrow> rlp_list_append alloc result code_hash_rlp;
       Some (rlp_list_end builder result)
     }"

text \<open>Decoding writes the fields of \<open>out\<close> one after the other, also when it fails later.\<close>

definition account_rlp_decode :: "u8 list option \<Rightarrow> account_t \<Rightarrow> bool \<times> account_t" where
  "account_rlp_decode data out =
     (case data of None \<Rightarrow> (False, out) | Some data \<Rightarrow>
      if length data = 0 then (False, out)
      else case rlp_decode_list_header (rlp_decoder_init data) of
        (Inl _, _) \<Rightarrow> (False, out)
      | (Inr (payload_length, _), decoder) \<Rightarrow>
      if payload_length \<noteq> remaining decoder then (False, out)
      else case rlp_decode_u64 decoder of
        (Inl _, _) \<Rightarrow> (False, out)
      | (Inr (nonce, _), decoder) \<Rightarrow>
      let out = out\<lparr>acc_nonce := nonce\<rparr>
      in case rlp_decode_uint256 decoder of
        (Inl _, _) \<Rightarrow> (False, out)
      | (Inr (balance, _), decoder) \<Rightarrow>
      let out = out\<lparr>acc_balance := balance\<rparr>
      in case rlp_decode_bytes decoder of
        (Inl _, _) \<Rightarrow> (False, out)
      | (Inr (storage_root, _), decoder) \<Rightarrow>
      if length storage_root \<noteq> HASH_SIZE then (False, out)
      else let out = out\<lparr>acc_storage_root := storage_root\<rparr>
      in case rlp_decode_bytes decoder of
        (Inl _, _) \<Rightarrow> (False, out)
      | (Inr (code_hash, _), decoder) \<Rightarrow>
      if length code_hash \<noteq> HASH_SIZE then (False, out)
      else let out = out\<lparr>acc_code_hash := code_hash\<rparr>
      in (\<not> rlp_decoder_has_more decoder, out))"


section \<open>The encoding\<close>

text \<open>The hashes of an account have 32 bytes.\<close>

definition account_wf :: "account_t \<Rightarrow> bool" where
  "account_wf acc \<longleftrightarrow> length (acc_storage_root acc) = HASH_SIZE \<and> length (acc_code_hash acc) = HASH_SIZE"

text \<open>The reference encoding: the list of the encodings of the fields.\<close>

definition account_fields :: "account_t \<Rightarrow> u8 list" where
  "account_fields acc =
     rlp_string (be_digits (unat (acc_nonce acc))) @ rlp_string (be_digits (nat (uval (acc_balance acc)))) @
     rlp_string (acc_storage_root acc) @ rlp_string (acc_code_hash acc)"

definition account_bytes :: "account_t \<Rightarrow> u8 list" where
  "account_bytes acc = rlp_list (account_fields acc)"

lemma account_wf_empty [simp]: "account_wf account_empty"
  by (simp add: account_wf_def account_empty_def HASH_SIZE_def EMPTY_CODE_HASH_def MPT_EMPTY_ROOT_def)

lemma account_is_empty_iff:
  "account_wf acc \<Longrightarrow> account_is_empty acc \<longleftrightarrow>
    acc_nonce acc = 0 \<and> acc_balance acc = uint256_zero \<and> acc_code_hash acc = EMPTY_CODE_HASH"
  by (auto simp: account_is_empty_def account_wf_def hash_equal_def EMPTY_CODE_HASH_def HASH_SIZE_def
    simp flip: uval_inject)

lemma be_digits_u64_length: "length (be_digits (unat (v :: u64))) \<le> 8"
  using be_loop_digits [of v] byte_count(4) [of v] length_be_loop [of "8 - clzll v div 8" v] by (cases "v = 0") auto

lemma be_digits_uval_length: "length (be_digits (nat (uval v))) \<le> 32"
  using no_lead_length_le [of "be_digits (nat (uval v))" "uint256_to_bytes_be v"] no_lead_be_digits
  by (simp add: be_val_be_digits uval_bounds)

lemma rlp_string_length: "length xs < 56 \<Longrightarrow> length (rlp_string xs) \<le> 1 + length xs"
  by (simp add: rlp_string_def rlp_header_def)

lemma account_fields_length:
  assumes "account_wf acc" shows "length (account_fields acc) \<le> 108"
  using rlp_string_length [of "be_digits (unat (acc_nonce acc))"] be_digits_u64_length [of "acc_nonce acc"]
    rlp_string_length [of "be_digits (nat (uval (acc_balance acc)))"] be_digits_uval_length [of "acc_balance acc"]
    rlp_string_length [of "acc_storage_root acc"] rlp_string_length [of "acc_code_hash acc"] assms
  by (simp add: account_fields_def account_wf_def HASH_SIZE_def)

lemma account_bytes_length:
  assumes "account_wf acc" shows "account_bytes acc \<noteq> []" "length (account_bytes acc) < 2 ^ 62"
proof -
  have l: "length (list_header n) \<le> 9" "1 \<le> length (list_header n)" if "n \<le> 108" for n
    using list_header_eq [of n] that by auto
  show "account_bytes acc \<noteq> []" "length (account_bytes acc) < 2 ^ 62"
    using l [OF account_fields_length [OF assms]] account_fields_length [OF assms] list_header_eq(1) [of "length (account_fields acc)"]
    by (auto simp: account_bytes_def rlp_list_def)
qed

lemma list_append_fits:
  assumes "returns ys m" "arena_buf n xs b" "length xs + length ys \<le> n"
    and "\<And>b'. arena_buf n (xs @ ys) b' \<Longrightarrow> Q (k b')"
  shows "Q (m \<bind> (\<lambda>item. rlp_list_append alloc b item \<bind> k))"
proof -
  obtain item where i: "m = Some item" "bytes_contents item = ys" using assms(1) by (auto simp: returns_def)
  obtain b' where "bytes_append alloc b ys = Some (True, b')" "arena_buf n (xs @ ys) b'"
    using append_fits [OF assms(2,3)] by blast
  then show ?thesis using assms(4) i by (simp add: rlp_list_append_def)
qed

lemma account_rlp_encode_returns:
  assumes "alloc_total alloc" "account_wf acc"
  shows "returns (account_bytes acc) (account_rlp_encode alloc acc)"
proof -
  note len = account_fields_length [OF assms(2), unfolded account_fields_def]
  have l: "length (acc_storage_root acc) < 2 ^ 64 - 9" "length (acc_code_hash acc) < 2 ^ 64 - 9"
    using assms(2) by (simp_all add: account_wf_def HASH_SIZE_def)
  note fits = list_append_fits [where n = 128 and Q = "returns (account_bytes acc)"]
  have start: "\<exists>b'. rlp_list_start alloc b = Some (0, b') \<and> arena_buf 128 (replicate 9 0) b'" if "arena_buf 128 [] b" for b
  proof -
    have "bytes_size b = 0" using that length_contents [of b] by (auto simp: arena_buf_def)
    then show ?thesis using append_fits [OF that, of "replicate 9 0" alloc] by (auto simp: rlp_list_start_def)
  qed
  have fin: "returns (account_bytes acc) (Some (rlp_list_end 0 b))" if "arena_buf 128 (replicate 9 0 @ account_fields acc) b" for b
    using rlp_list_end_contents [of b "[]" 0 "account_fields acc"] that by (simp add: returns_def arena_buf_def account_bytes_def)
  show ?thesis
    unfolding account_rlp_encode_def
    apply (rule reserve_bind [OF assms(1)], simp, simp)
    apply (frule start, elim exE conjE, simp)
    apply (rule fits, rule rlp_encode_u64_returns [OF assms(1)], assumption, use len in simp)
    apply (rule fits, rule rlp_encode_uint256_returns [OF assms(1)], assumption, use len in simp)
    apply (rule fits, rule rlp_encode_bytes_returns [OF assms(1) l(1)], assumption, use len in simp)
    apply (rule fits, rule rlp_encode_bytes_returns [OF assms(1) l(2)], assumption, use len in simp)
    apply (rule fin, simp add: account_fields_def)
    done
qed

lemma account_rlp_decode_bytes:
  assumes "account_wf acc"
  shows "account_rlp_decode (Some (account_bytes acc)) out = (True, acc)"
proof -
  define n u s c where "n = rlp_string (be_digits (unat (acc_nonce acc)))"
    and "u = rlp_string (be_digits (nat (uval (acc_balance acc))))"
    and "s = rlp_string (acc_storage_root acc)" and "c = rlp_string (acc_code_hash acc)"
  have f: "account_fields acc = n @ u @ s @ c" by (simp add: account_fields_def n_def u_def s_def c_def)
  define h where "h = rlp_header 0xC0 (length (account_fields acc))"
  define d where "d = rlp_decoder_init (account_bytes acc)"
  have b: "account_bytes acc = h @ n @ u @ s @ c" using f by (simp add: account_bytes_def rlp_list_def h_def)
  have r: "dec_rest d = h @ n @ u @ s @ c" by (simp add: dec_rest_def d_def rlp_decoder_init_def b)
  have wf: "dec_wf d" using account_bytes_length(2) [OF assms] by (simp add: dec_wf_def d_def rlp_decoder_init_def)
  have wfs: "dec_wf (advance d k)" if "k \<le> length (h @ n @ u @ s @ c)" for k using dec_wf_advance [OF wf, of k] r that by simp
  have 1: "rlp_decode_list_header d = (Inr (length (account_fields acc), length h), advance d (length h))"
    using rlp_decode_header [OF wf, of "length (account_fields acc)" "n @ u @ s @ c"] r account_fields_length [OF assms]
    by (simp add: h_def)
  have 2: "remaining (advance d (length h)) = length (account_fields acc)"
    using remaining_rest [OF wfs, of "length h"] r f by simp
  have 3: "rlp_decode_u64 (advance d (length h)) = (Inr (acc_nonce acc, length n), advance d (length h + length n))"
    unfolding n_def using rlp_decode_u64_number [OF wfs, of "length h" "acc_nonce acc" "u @ s @ c"] r by (simp add: n_def)
  have 4: "rlp_decode_uint256 (advance d (length h + length n)) =
      (Inr (acc_balance acc, length u), advance d (length h + length n + length u))"
    unfolding u_def using rlp_decode_uint256_number [OF wfs, of "length h + length n" "acc_balance acc" "s @ c"] r by (simp add: u_def)
  have 5: "rlp_decode_bytes (advance d (length h + length n + length u)) =
      (Inr (acc_storage_root acc, length s), advance d (length h + length n + length u + length s))"
    unfolding s_def using rlp_decode_string [OF wfs, of "length h + length n + length u" "acc_storage_root acc" "c"] r by (simp add: s_def)
  have 6: "rlp_decode_bytes (advance d (length h + length n + length u + length s)) =
      (Inr (acc_code_hash acc, length c), advance d (length h + length n + length u + length s + length c))"
    unfolding c_def using rlp_decode_string [OF wfs, of "length h + length n + length u + length s" "acc_code_hash acc" "[]"] r by (simp add: c_def)
  have 7: "\<not> rlp_decoder_has_more (advance d (length h + length n + length u + length s + length c))"
    using has_more_rest [OF wfs, of "length h + length n + length u + length s + length c"] r by simp
  show ?thesis
    using account_bytes_length(1) [OF assms] 1 2 3 4 5 6 7 assms
    by (simp add: account_rlp_decode_def d_def [symmetric] account_wf_def Let_def)
qed


section \<open>Properties\<close>

text \<open>
  C16: an account that is encoded and decoded is the same account, whatever the output held before,
  and the encoding is the RLP list of its four fields.
\<close>

theorem account_roundtrip:
  assumes "alloc_total alloc" "account_wf acc"
  shows "\<exists>b. account_rlp_encode alloc acc = Some b \<and> bytes_contents b = account_bytes acc \<and>
    account_rlp_decode (Some (bytes_contents b)) out = (True, acc)"
  using account_rlp_encode_returns [OF assms] account_rlp_decode_bytes [OF assms(2)] by (auto simp: returns_def)

theorem account_roundtrip_witness:
  "\<exists>b. account_rlp_encode (\<lambda>n. Some (replicate n 0)) account_empty = Some b \<and>
     account_rlp_decode (Some (bytes_contents b)) (account_empty\<lparr>acc_nonce := 7\<rparr>) = (True, account_empty)"
proof -
  have "alloc_total (\<lambda>n. Some (replicate n (0 :: u8)))" by (simp add: alloc_total_def alloc_sound_def)
  from account_roundtrip [OF this account_wf_empty] show ?thesis by blast
qed

end
