(* ===== verification/World_State.thy ===== *)
theory World_State
  imports Account Mpt_Root State_Access
begin

text \<open>
  The world state, \<open>src/state/world_state.c\<close>: the trie of the accounts, a storage trie and the code
  for each address, and the sets of warm, dirty and known addresses and slots, with the functions
  of the state interface, the computation of the state root and the export of the state.

  The hash tables are maps and sets; an insertion into a map that holds the key does not replace the
  value.  The order in which a set is traversed is not known: it is a function of the environment,
  as are the hash function, the buffers of the arena and the sizes of the structures.  The
  allocations of trie nodes succeed or fail as the list \<open>ws_nodes\<close> says.  A call is \<open>None\<close> where the
  code dereferences a null pointer or does not return.
\<close>

record warm_slot_key_t =
  wsk_addr :: address_t
  wsk_slot :: uint256_t

record ws_env =
  we_alloc :: allocator
  we_keccak :: hash_fun
  we_sizeof :: "string \<Rightarrow> nat"
  we_addresses :: "address_t set \<Rightarrow> address_t list"
  we_slots :: "warm_slot_key_t set \<Rightarrow> warm_slot_key_t list"

record world_state_t =
  ws_state_trie :: mpt_t
  ws_storage_tries :: "address_t \<rightharpoonup> mpt_t"
  ws_code_store :: "address_t \<rightharpoonup> bytes_t"
  ws_warm_addresses :: "address_t set"
  ws_warm_slots :: "warm_slot_key_t set"
  ws_original_storage :: "warm_slot_key_t \<rightharpoonup> uint256_t"
  ws_dirty_storage :: "address_t set"
  ws_all_accounts :: "address_t set"
  ws_all_storage_slots :: "warm_slot_key_t set"
  ws_snapshot_counter :: u64
  ws_nodes :: node_mem


section \<open>Hash functions of the tables\<close>

unbundle bit_operations_syntax

definition FNV1A_OFFSET_BASIS :: u64 where "FNV1A_OFFSET_BASIS = 14695981039346656037"

definition FNV1A_PRIME :: u64 where "FNV1A_PRIME = 1099511628211"

definition fnv1a_hash :: "u8 list \<Rightarrow> u64" where
  "fnv1a_hash data = foldl (\<lambda>hash b. (hash XOR u8_to_u64 b) * FNV1A_PRIME) FNV1A_OFFSET_BASIS data"

definition fnv1a_hash_append :: "u64 \<Rightarrow> u8 list \<Rightarrow> u64" where
  "fnv1a_hash_append hash data = foldl (\<lambda>hash b. (hash XOR u8_to_u64 b) * FNV1A_PRIME) hash data"

definition address_hash :: "address_t \<Rightarrow> u64" where
  "address_hash addr = fnv1a_hash addr"

definition warm_slot_key_hash :: "warm_slot_key_t \<Rightarrow> u64" where
  "warm_slot_key_hash key =
     (let hash = fnv1a_hash (wsk_addr key)
      in fnv1a_hash_append hash (uint256_to_bytes_be (wsk_slot key)))"

definition warm_slot_key_eq :: "warm_slot_key_t \<Rightarrow> warm_slot_key_t \<Rightarrow> bool" where
  "warm_slot_key_eq a b =
     (if \<not> address_equal (wsk_addr a) (wsk_addr b) then False else uint256_eq (wsk_slot a) (wsk_slot b))"


section \<open>Accounts\<close>

definition address_to_key :: "ws_env \<Rightarrow> address_t \<Rightarrow> hash_t" where
  "address_to_key env addr = we_keccak env addr"

definition slot_to_key :: "ws_env \<Rightarrow> uint256_t \<Rightarrow> hash_t" where
  "slot_to_key env sl = we_keccak env (uint256_to_bytes_be sl)"

text \<open>The slots of an address are erased in groups of at most 64, as long as one was left over.\<close>

partial_function (option) erase_slots_for_address ::
    "ws_env \<Rightarrow> warm_slot_key_t set \<Rightarrow> address_t \<Rightarrow> warm_slot_key_t set option" where
  "erase_slots_for_address env all_slots addr =
     (let found = filter (\<lambda>key. address_equal (wsk_addr key) addr) (we_slots env all_slots);
          all_slots = all_slots - set (take 64 found)
      in if length found > 64 then erase_slots_for_address env all_slots addr else Some all_slots)"

definition world_state_get_account :: "ws_env \<Rightarrow> world_state_t \<Rightarrow> address_t \<Rightarrow> bool \<times> account_t" where
  "world_state_get_account env ws addr =
     (let value = mpt_get (we_alloc env) (ws_state_trie ws) (address_to_key env addr)
      in if bytes_data value = None then (False, account_empty)
         else case account_rlp_decode (Some (bytes_contents value)) account_empty of
                (False, _) \<Rightarrow> (False, account_empty)
              | (True, acc) \<Rightarrow> (True, acc))"

definition world_state_set_account ::
    "ws_env \<Rightarrow> world_state_t \<Rightarrow> address_t \<Rightarrow> account_t \<Rightarrow> (bool \<times> world_state_t) option" where
  "world_state_set_account env ws addr acc =
     (let key = address_to_key env addr
      in if account_is_empty acc
         then do {
           (_, trie, nodes) \<leftarrow> mpt_delete (we_alloc env) (we_keccak env) (ws_state_trie ws) key (ws_nodes ws);
           all_slots \<leftarrow> erase_slots_for_address env (ws_all_storage_slots ws) addr;
           Some (True, ws\<lparr>ws_state_trie := trie, ws_all_accounts := ws_all_accounts ws - {addr},
             ws_all_storage_slots := all_slots, ws_nodes := nodes\<rparr>)
         }
         else do {
           let ws = ws\<lparr>ws_all_accounts := insert addr (ws_all_accounts ws)\<rparr>;
           encoded \<leftarrow> account_rlp_encode (we_alloc env) acc;
           if bytes_data encoded = None then Some (False, ws)
           else do {
             (_, trie, nodes) \<leftarrow> mpt_insert (we_alloc env) (we_keccak env) (ws_state_trie ws) key
               (bytes_contents encoded) (ws_nodes ws);
             Some (True, ws\<lparr>ws_state_trie := trie, ws_nodes := nodes\<rparr>)
           }
         })"

text \<open>The account of an address, or the empty one.\<close>

definition account_or_empty :: "ws_env \<Rightarrow> world_state_t \<Rightarrow> address_t \<Rightarrow> account_t" where
  "account_or_empty env ws addr =
     (case world_state_get_account env ws addr of (True, acc) \<Rightarrow> acc | (False, _) \<Rightarrow> account_empty)"

definition ws_account_exists :: "ws_env \<Rightarrow> world_state_t \<Rightarrow> address_t \<Rightarrow> bool" where
  "ws_account_exists env ws addr \<longleftrightarrow>
     bytes_data (mpt_get (we_alloc env) (ws_state_trie ws) (address_to_key env addr)) \<noteq> None"

definition ws_account_is_empty :: "ws_env \<Rightarrow> world_state_t \<Rightarrow> address_t \<Rightarrow> bool" where
  "ws_account_is_empty env ws addr =
     (case world_state_get_account env ws addr of (False, _) \<Rightarrow> True | (True, acc) \<Rightarrow> account_is_empty acc)"

definition ws_create_contract :: "ws_env \<Rightarrow> world_state_t \<Rightarrow> address_t \<Rightarrow> world_state_t option" where
  "ws_create_contract env ws addr =
     (if ws_account_exists env ws addr then Some ws
      else map_option snd (world_state_set_account env ws addr (account_empty\<lparr>acc_nonce := 1\<rparr>)))"

definition ws_delete_account :: "ws_env \<Rightarrow> world_state_t \<Rightarrow> address_t \<Rightarrow> world_state_t option" where
  "ws_delete_account env ws addr =
     do {
       (_, trie, nodes) \<leftarrow> mpt_delete (we_alloc env) (we_keccak env) (ws_state_trie ws)
         (address_to_key env addr) (ws_nodes ws);
       Some (ws\<lparr>ws_state_trie := trie, ws_nodes := nodes,
         ws_storage_tries := (ws_storage_tries ws)(addr := None),
         ws_code_store := (ws_code_store ws)(addr := None)\<rparr>)
     }"

definition ws_get_balance :: "ws_env \<Rightarrow> world_state_t \<Rightarrow> address_t \<Rightarrow> uint256_t" where
  "ws_get_balance env ws addr =
     (case world_state_get_account env ws addr of (False, _) \<Rightarrow> uint256_zero | (True, acc) \<Rightarrow> acc_balance acc)"

definition ws_set_balance :: "ws_env \<Rightarrow> world_state_t \<Rightarrow> address_t \<Rightarrow> uint256_t \<Rightarrow> world_state_t option" where
  "ws_set_balance env ws addr balance =
     (let acc = account_or_empty env ws addr
      in map_option snd (world_state_set_account env ws addr (acc\<lparr>acc_balance := balance\<rparr>)))"

definition ws_add_balance ::
    "ws_env \<Rightarrow> world_state_t \<Rightarrow> address_t \<Rightarrow> uint256_t \<Rightarrow> (bool \<times> world_state_t) option" where
  "ws_add_balance env ws addr amount =
     (let acc = account_or_empty env ws addr;
          new_balance = uint256_add (acc_balance acc) amount
      in if uint256_lt new_balance (acc_balance acc) then Some (False, ws)
         else do {
           (_, ws) \<leftarrow> world_state_set_account env ws addr (acc\<lparr>acc_balance := new_balance\<rparr>);
           Some (True, ws)
         })"

definition ws_sub_balance ::
    "ws_env \<Rightarrow> world_state_t \<Rightarrow> address_t \<Rightarrow> uint256_t \<Rightarrow> (bool \<times> world_state_t) option" where
  "ws_sub_balance env ws addr amount =
     (case world_state_get_account env ws addr of
        (False, _) \<Rightarrow> Some (uint256_is_zero amount, ws)
      | (True, acc) \<Rightarrow>
          if uint256_lt (acc_balance acc) amount then Some (False, ws)
          else do {
            (_, ws) \<leftarrow> world_state_set_account env ws addr
              (acc\<lparr>acc_balance := uint256_sub (acc_balance acc) amount\<rparr>);
            Some (True, ws)
          })"

definition ws_get_nonce :: "ws_env \<Rightarrow> world_state_t \<Rightarrow> address_t \<Rightarrow> u64" where
  "ws_get_nonce env ws addr =
     (case world_state_get_account env ws addr of (False, _) \<Rightarrow> 0 | (True, acc) \<Rightarrow> acc_nonce acc)"

definition ws_set_nonce :: "ws_env \<Rightarrow> world_state_t \<Rightarrow> address_t \<Rightarrow> u64 \<Rightarrow> world_state_t option" where
  "ws_set_nonce env ws addr nonce =
     (let acc = account_or_empty env ws addr
      in map_option snd (world_state_set_account env ws addr (acc\<lparr>acc_nonce := nonce\<rparr>)))"

definition ws_increment_nonce :: "ws_env \<Rightarrow> world_state_t \<Rightarrow> address_t \<Rightarrow> (u64 \<times> world_state_t) option" where
  "ws_increment_nonce env ws addr =
     (let acc = account_or_empty env ws addr;
          old_nonce = acc_nonce acc
      in if acc_nonce acc \<ge> NOT 0 - 1 then Some (old_nonce, ws)
         else do {
           (_, ws) \<leftarrow> world_state_set_account env ws addr (acc\<lparr>acc_nonce := acc_nonce acc + 1\<rparr>);
           Some (old_nonce, ws)
         })"

definition ws_get_code :: "ws_env \<Rightarrow> world_state_t \<Rightarrow> address_t \<Rightarrow> bytes_t" where
  "ws_get_code env ws addr = (case ws_code_store ws addr of Some code \<Rightarrow> code | None \<Rightarrow> bytes_init)"

definition ws_get_code_size :: "ws_env \<Rightarrow> world_state_t \<Rightarrow> address_t \<Rightarrow> u64" where
  "ws_get_code_size env ws addr = of_nat (bytes_size (ws_get_code env ws addr))"

definition ws_get_code_hash :: "ws_env \<Rightarrow> world_state_t \<Rightarrow> address_t \<Rightarrow> hash_t" where
  "ws_get_code_hash env ws addr =
     (case world_state_get_account env ws addr of (False, _) \<Rightarrow> EMPTY_CODE_HASH | (True, acc) \<Rightarrow> acc_code_hash acc)"

definition ws_set_code :: "ws_env \<Rightarrow> world_state_t \<Rightarrow> address_t \<Rightarrow> u8 list \<Rightarrow> world_state_t option" where
  "ws_set_code env ws addr code =
     do {
       code_bytes \<leftarrow> (if length code > 0
         then map_option snd (bytes_from_data (we_alloc env) bytes_init_arena code)
         else Some bytes_init_arena);
       let ws = (case ws_code_store ws addr of
                   Some _ \<Rightarrow> ws
                 | None \<Rightarrow> ws\<lparr>ws_code_store := (ws_code_store ws)(addr \<mapsto> code_bytes)\<rparr>);
       let acc = account_or_empty env ws addr;
       let acc = acc\<lparr>acc_code_hash := (if length code = 0 then EMPTY_CODE_HASH else we_keccak env code)\<rparr>;
       (_, ws) \<leftarrow> world_state_set_account env ws addr acc;
       Some ws
     }"


section \<open>Storage\<close>

definition world_state_get_storage_trie :: "ws_env \<Rightarrow> world_state_t \<Rightarrow> address_t \<Rightarrow> mpt_t option \<times> world_state_t" where
  "world_state_get_storage_trie env ws addr =
     (case ws_storage_tries ws addr of
        Some storage \<Rightarrow> (Some storage, ws)
      | None \<Rightarrow>
          (case mpt_memory_backend_create (Some (we_alloc env)) (we_sizeof env ''mpt_memory_backend_t'') of
             None \<Rightarrow> (None, ws)
           | Some backend \<Rightarrow>
               (case we_alloc env (we_sizeof env ''mpt_t'') of
                  None \<Rightarrow> (None, ws)
                | Some _ \<Rightarrow>
                    let storage = mpt_init (Some backend)
                    in (Some storage, ws\<lparr>ws_storage_tries := (ws_storage_tries ws)(addr \<mapsto> storage)\<rparr>))))"

definition ws_get_storage :: "ws_env \<Rightarrow> world_state_t \<Rightarrow> address_t \<Rightarrow> uint256_t \<Rightarrow> uint256_t" where
  "ws_get_storage env ws addr sl =
     (case ws_storage_tries ws addr of
        None \<Rightarrow> uint256_zero
      | Some storage \<Rightarrow>
          let value = mpt_get (we_alloc env) storage (slot_to_key env sl)
          in if bytes_data value = None \<or> bytes_size value = 0 then uint256_zero
             else uint256_from_bytes_be (bytes_contents value))"

definition ws_get_original_storage :: "ws_env \<Rightarrow> world_state_t \<Rightarrow> address_t \<Rightarrow> uint256_t \<Rightarrow> uint256_t" where
  "ws_get_original_storage env ws addr sl =
     (case ws_original_storage ws \<lparr>wsk_addr = addr, wsk_slot = sl\<rparr> of
        Some original \<Rightarrow> original
      | None \<Rightarrow> ws_get_storage env ws addr sl)"

definition ws_set_storage ::
    "ws_env \<Rightarrow> world_state_t \<Rightarrow> address_t \<Rightarrow> uint256_t \<Rightarrow> uint256_t \<Rightarrow> world_state_t option" where
  "ws_set_storage env ws addr sl value =
     (let slot_key = \<lparr>wsk_addr = addr, wsk_slot = sl\<rparr>;
          ws = (if ws_original_storage ws slot_key = None
                then ws\<lparr>ws_original_storage := (ws_original_storage ws)(slot_key \<mapsto> ws_get_storage env ws addr sl)\<rparr>
                else ws);
          ws = ws\<lparr>ws_dirty_storage := insert addr (ws_dirty_storage ws)\<rparr>;
          ws = (if uint256_is_zero value
                then ws\<lparr>ws_all_storage_slots := ws_all_storage_slots ws - {slot_key}\<rparr>
                else ws\<lparr>ws_all_storage_slots := insert slot_key (ws_all_storage_slots ws)\<rparr>);
          key = slot_to_key env sl
      in case world_state_get_storage_trie env ws addr of
           (None, _) \<Rightarrow> None
         | (Some storage, ws) \<Rightarrow> do {
             (_, storage, nodes) \<leftarrow> (if uint256_is_zero value
               then mpt_delete (we_alloc env) (we_keccak env) storage key (ws_nodes ws)
               else mpt_insert (we_alloc env) (we_keccak env) storage key
                      (dropWhile (\<lambda>b. b = 0) (uint256_to_bytes_be value)) (ws_nodes ws));
             Some (ws\<lparr>ws_storage_tries := (ws_storage_tries ws)(addr \<mapsto> storage), ws_nodes := nodes\<rparr>)
           })"


section \<open>Access tracking, transactions, snapshots\<close>

definition ws_is_address_warm :: "world_state_t \<Rightarrow> address_t \<Rightarrow> bool" where
  "ws_is_address_warm ws addr \<longleftrightarrow> addr \<in> ws_warm_addresses ws"

definition ws_warm_address :: "world_state_t \<Rightarrow> address_t \<Rightarrow> bool \<times> world_state_t" where
  "ws_warm_address ws addr =
     (if addr \<in> ws_warm_addresses ws then (False, ws)
      else (True, ws\<lparr>ws_warm_addresses := insert addr (ws_warm_addresses ws)\<rparr>))"

definition ws_is_slot_warm :: "world_state_t \<Rightarrow> address_t \<Rightarrow> uint256_t \<Rightarrow> bool" where
  "ws_is_slot_warm ws addr sl \<longleftrightarrow> \<lparr>wsk_addr = addr, wsk_slot = sl\<rparr> \<in> ws_warm_slots ws"

definition ws_warm_slot :: "world_state_t \<Rightarrow> address_t \<Rightarrow> uint256_t \<Rightarrow> bool \<times> world_state_t" where
  "ws_warm_slot ws addr sl =
     (let key = \<lparr>wsk_addr = addr, wsk_slot = sl\<rparr>
      in if key \<in> ws_warm_slots ws then (False, ws)
         else (True, ws\<lparr>ws_warm_slots := insert key (ws_warm_slots ws)\<rparr>))"

definition ws_begin_transaction :: "world_state_t \<Rightarrow> world_state_t" where
  "ws_begin_transaction ws = ws\<lparr>ws_warm_addresses := {}, ws_warm_slots := {}, ws_original_storage := Map.empty\<rparr>"

definition ws_snapshot :: "world_state_t \<Rightarrow> u64 \<times> world_state_t" where
  "ws_snapshot ws = (ws_snapshot_counter ws + 1, ws\<lparr>ws_snapshot_counter := ws_snapshot_counter ws + 1\<rparr>)"

definition ws_revert_to_snapshot :: "world_state_t \<Rightarrow> u64 \<Rightarrow> world_state_t" where
  "ws_revert_to_snapshot ws snapshot_id = ws"

definition ws_commit_snapshot :: "world_state_t \<Rightarrow> u64 \<Rightarrow> world_state_t" where
  "ws_commit_snapshot ws snapshot_id = ws"


section \<open>The state root\<close>

text \<open>The loop over the addresses with dirty storage.\<close>

fun update_storage_roots :: "ws_env \<Rightarrow> address_t list \<Rightarrow> world_state_t \<Rightarrow> world_state_t option" where
  "update_storage_roots env [] ws = Some ws"
| "update_storage_roots env (addr # addrs) ws =
     (case ws_storage_tries ws addr of
        None \<Rightarrow> update_storage_roots env addrs ws
      | Some storage \<Rightarrow> do {
          let acc = account_or_empty env ws addr;
          (root, storage) \<leftarrow> mpt_root_hash (we_alloc env) (we_keccak env) storage;
          let ws = ws\<lparr>ws_storage_tries := (ws_storage_tries ws)(addr \<mapsto> storage)\<rparr>;
          (_, ws) \<leftarrow> world_state_set_account env ws addr (acc\<lparr>acc_storage_root := root\<rparr>);
          update_storage_roots env addrs ws
        })"

definition world_state_root :: "ws_env \<Rightarrow> world_state_t \<Rightarrow> (hash_t \<times> world_state_t) option" where
  "world_state_root env ws =
     do {
       ws \<leftarrow> update_storage_roots env (we_addresses env (ws_dirty_storage ws)) ws;
       let ws = ws\<lparr>ws_dirty_storage := {}\<rparr>;
       (root, trie) \<leftarrow> mpt_root_hash (we_alloc env) (we_keccak env) (ws_state_trie ws);
       Some (root, ws\<lparr>ws_state_trie := trie\<rparr>)
     }"

definition ws_state_root :: "ws_env \<Rightarrow> world_state_t \<Rightarrow> (hash_t \<times> world_state_t) option" where
  "ws_state_root env ws = world_state_root env ws"

definition world_state_clear :: "world_state_t \<Rightarrow> world_state_t" where
  "world_state_clear ws = ws\<lparr>ws_state_trie := mpt_clear (ws_state_trie ws), ws_storage_tries := Map.empty,
     ws_code_store := Map.empty, ws_warm_addresses := {}, ws_warm_slots := {}, ws_original_storage := Map.empty,
     ws_dirty_storage := {}, ws_all_accounts := {}, ws_all_storage_slots := {}\<rparr>"

definition world_state_destroy :: "world_state_t \<Rightarrow> world_state_t" where
  "world_state_destroy ws = ws\<lparr>ws_storage_tries := Map.empty,
     ws_code_store := Map.empty, ws_warm_addresses := {}, ws_warm_slots := {}, ws_original_storage := Map.empty,
     ws_dirty_storage := {}, ws_all_accounts := {}, ws_all_storage_slots := {}\<rparr>"

definition ws_destroy :: "world_state_t \<Rightarrow> world_state_t" where
  "ws_destroy ws = world_state_destroy ws"

definition WORLD_STATE_VTABLE :: "ws_env \<Rightarrow> world_state_t state_access_vtable_t" where
  "WORLD_STATE_VTABLE env = \<lparr>
     vt_account_exists = ws_account_exists env,
     vt_account_is_empty = ws_account_is_empty env,
     vt_create_contract = ws_create_contract env,
     vt_delete_account = ws_delete_account env,
     vt_get_balance = ws_get_balance env,
     vt_set_balance = ws_set_balance env,
     vt_add_balance = ws_add_balance env,
     vt_sub_balance = ws_sub_balance env,
     vt_get_nonce = ws_get_nonce env,
     vt_set_nonce = ws_set_nonce env,
     vt_increment_nonce = ws_increment_nonce env,
     vt_get_code = ws_get_code env,
     vt_get_code_size = ws_get_code_size env,
     vt_get_code_hash = ws_get_code_hash env,
     vt_set_code = ws_set_code env,
     vt_get_storage = ws_get_storage env,
     vt_get_original_storage = ws_get_original_storage env,
     vt_set_storage = ws_set_storage env,
     vt_is_address_warm = ws_is_address_warm,
     vt_warm_address = ws_warm_address,
     vt_is_slot_warm = ws_is_slot_warm,
     vt_warm_slot = ws_warm_slot,
     vt_begin_transaction = ws_begin_transaction,
     vt_snapshot = ws_snapshot,
     vt_revert_to_snapshot = ws_revert_to_snapshot,
     vt_commit_snapshot = ws_commit_snapshot,
     vt_state_root = ws_state_root env,
     vt_get_jumpdest_analysis = None,
     vt_set_jumpdest_analysis = None,
     vt_destroy = ws_destroy\<rparr>"

text \<open>
  Creation: every allocation may fail, and then the result is null.
\<close>

definition world_state_create :: "ws_env option \<Rightarrow> node_mem \<Rightarrow> world_state_t option" where
  "world_state_create arena nodes =
     do {
       env \<leftarrow> arena;
       _ \<leftarrow> we_alloc env (we_sizeof env ''world_state_t'');
       backend \<leftarrow> mpt_memory_backend_create (Some (we_alloc env)) (we_sizeof env ''mpt_memory_backend_t'');
       _ \<leftarrow> we_alloc env (we_sizeof env ''storage_trie_map'');
       _ \<leftarrow> we_alloc env (we_sizeof env ''code_map'');
       _ \<leftarrow> we_alloc env (we_sizeof env ''warm_addr_set'');
       _ \<leftarrow> we_alloc env (we_sizeof env ''warm_slot_set'');
       _ \<leftarrow> we_alloc env (we_sizeof env ''original_storage_map'');
       _ \<leftarrow> we_alloc env (we_sizeof env ''dirty_addr_set'');
       _ \<leftarrow> we_alloc env (we_sizeof env ''all_accounts_set'');
       _ \<leftarrow> we_alloc env (we_sizeof env ''all_slots_set'');
       Some \<lparr>ws_state_trie = mpt_init (Some backend), ws_storage_tries = Map.empty, ws_code_store = Map.empty,
         ws_warm_addresses = {}, ws_warm_slots = {}, ws_original_storage = Map.empty, ws_dirty_storage = {},
         ws_all_accounts = {}, ws_all_storage_slots = {}, ws_snapshot_counter = 0, ws_nodes = nodes\<rparr>
     }"

definition world_state_access :: "ws_env \<Rightarrow> world_state_t \<Rightarrow> world_state_t state_access_t" where
  "world_state_access env ws = \<lparr>sa_vtable = WORLD_STATE_VTABLE env, sa_self = ws\<rparr>"


section \<open>Export\<close>

record storage_entry_t =
  entry_slot :: uint256_t
  entry_value :: uint256_t

record account_snapshot_t =
  snap_address :: address_t
  snap_balance :: uint256_t
  snap_nonce :: u64
  snap_code :: "u8 list"
  snap_storage :: "storage_entry_t list"
  snap_storage_count :: nat

record state_snapshot_t =
  snap_accounts :: "account_snapshot_t list"
  snap_account_count :: nat

text \<open>
  The accounts without their storage; an address without an account is skipped, and the result is
  \<open>None\<close> when the code of an account cannot be copied.
\<close>

fun snapshot_accounts ::
    "ws_env \<Rightarrow> allocator \<Rightarrow> world_state_t \<Rightarrow> address_t list \<Rightarrow> account_snapshot_t list \<Rightarrow> account_snapshot_t list option" where
  "snapshot_accounts env arena ws [] accounts = Some accounts"
| "snapshot_accounts env arena ws (addr # addrs) accounts =
     (case world_state_get_account env ws addr of
        (False, _) \<Rightarrow> snapshot_accounts env arena ws addrs accounts
      | (True, acc) \<Rightarrow> do {
          code \<leftarrow> (case ws_code_store ws addr of
            Some code \<Rightarrow> if bytes_size code > 0 then map_option (\<lambda>_. bytes_contents code) (arena (bytes_size code)) else Some []
          | None \<Rightarrow> Some []);
          let snap_acc = \<lparr>snap_address = addr, snap_balance = acc_balance acc, snap_nonce = acc_nonce acc,
            snap_code = code, snap_storage = [], snap_storage_count = 0\<rparr>;
          snapshot_accounts env arena ws addrs (accounts @ [snap_acc])
        })"

text \<open>The index of the first account with the address.\<close>

fun find_account :: "account_snapshot_t list \<Rightarrow> address_t \<Rightarrow> nat option" where
  "find_account [] addr = None"
| "find_account (a # accounts) addr =
     (if address_equal addr (snap_address a) then Some 0 else map_option Suc (find_account accounts addr))"

definition count_slot :: "account_snapshot_t list \<Rightarrow> nat list \<Rightarrow> warm_slot_key_t \<Rightarrow> nat list" where
  "count_slot accounts slot_counts key =
     (case find_account accounts (wsk_addr key) of
        None \<Rightarrow> slot_counts
      | Some i \<Rightarrow> slot_counts[i := slot_counts ! i + 1])"

text \<open>
  The entries are written to arrays that have room for the counted slots; a write beyond them has no
  defined result.
\<close>

fun populate_storage ::
    "ws_env \<Rightarrow> world_state_t \<Rightarrow> nat list \<Rightarrow> warm_slot_key_t list \<Rightarrow> account_snapshot_t list \<Rightarrow> account_snapshot_t list option" where
  "populate_storage env ws capacity [] accounts = Some accounts"
| "populate_storage env ws capacity (key # keys) accounts =
     (case find_account accounts (wsk_addr key) of
        None \<Rightarrow> populate_storage env ws capacity keys accounts
      | Some i \<Rightarrow>
          let a = accounts ! i;
              val = ws_get_storage env ws (snap_address a) (wsk_slot key)
          in if uint256_is_zero val then populate_storage env ws capacity keys accounts
             else if snap_storage_count a < capacity ! i
             then populate_storage env ws capacity keys
               (accounts[i := a\<lparr>snap_storage := snap_storage a @ [\<lparr>entry_slot = wsk_slot key, entry_value = val\<rparr>],
                  snap_storage_count := snap_storage_count a + 1\<rparr>])
             else None)"

text \<open>\<open>Some None\<close> is the result false.\<close>

definition world_state_snapshot :: "ws_env \<Rightarrow> allocator \<Rightarrow> world_state_t \<Rightarrow> state_snapshot_t option option" where
  "world_state_snapshot env arena ws =
     (let addrs = we_addresses env (ws_all_accounts ws);
          slots = we_slots env (ws_all_storage_slots ws);
          account_count = length addrs
      in if account_count = 0 then Some (Some \<lparr>snap_accounts = [], snap_account_count = 0\<rparr>)
         else case arena (account_count * we_sizeof env ''account_snapshot_t'') of
           None \<Rightarrow> Some None
         | Some _ \<Rightarrow>
         case snapshot_accounts env arena ws addrs [] of
           None \<Rightarrow> Some None
         | Some accounts \<Rightarrow>
         let valid_count = length accounts
         in if valid_count = 0 then Some (Some \<lparr>snap_accounts = accounts, snap_account_count = valid_count\<rparr>)
         else case arena (valid_count * we_sizeof env ''size_t'') of
           None \<Rightarrow> Some None
         | Some _ \<Rightarrow>
         let slot_counts = foldl (count_slot accounts) (replicate valid_count 0) slots
         in if list_ex (\<lambda>n. n > 0 \<and> arena (n * we_sizeof env ''storage_entry_t'') = None) slot_counts then Some None
         else do {
           accounts \<leftarrow> populate_storage env ws slot_counts slots accounts;
           Some (Some \<lparr>snap_accounts = accounts, snap_account_count = valid_count\<rparr>)
         })"

end
