(* ===== verification/World_State_Laws.thy ===== *)
theory World_State_Laws
  imports World_State State_Provider
begin

text \<open>
  The invariant of the world state and what its operations do: the accounts are a map from
  addresses, the storage a map from addresses and slots, every operation keeps the invariant, and
  the world state is a provider of the state interface.
\<close>

section \<open>Environment and invariant\<close>

text \<open>
  The arena does not run out of memory, a hash has 32 bytes, and traversing a set gives each element
  once.
\<close>

definition ws_env_ok :: "ws_env \<Rightarrow> bool" where
  "ws_env_ok env \<longleftrightarrow> alloc_total (we_alloc env) \<and> (\<forall>xs. length (we_keccak env xs) = HASH_SIZE) \<and>
     (\<forall>S. finite S \<longrightarrow> distinct (we_addresses env S) \<and> set (we_addresses env S) = S) \<and>
     (\<forall>S. finite S \<longrightarrow> distinct (we_slots env S) \<and> set (we_slots env S) = S)"

text \<open>A trie with hashes as keys, whose values satisfy a condition.\<close>

definition hash_trie :: "ws_env \<Rightarrow> (u8 list \<Rightarrow> bool) \<Rightarrow> mpt_t \<Rightarrow> bool" where
  "hash_trie env P mpt \<longleftrightarrow> mpt_ok (we_keccak env) 64 mpt \<and> (\<forall>k v. mpt_map mpt k = Some v \<longrightarrow> P v)"

text \<open>The values of the state trie are accounts that are not empty, those of a storage trie numbers that are not zero.\<close>

definition account_value :: "u8 list \<Rightarrow> bool" where
  "account_value v \<longleftrightarrow> (\<exists>acc. account_wf acc \<and> \<not> account_is_empty acc \<and> v = account_bytes acc)"

definition storage_value :: "u8 list \<Rightarrow> bool" where
  "storage_value v \<longleftrightarrow> (\<exists>x. x \<noteq> uint256_zero \<and> v = be_digits (nat (uval x)))"

definition ws_ok :: "ws_env \<Rightarrow> world_state_t \<Rightarrow> bool" where
  "ws_ok env ws \<longleftrightarrow> ws_env_ok env \<and> no_failure (ws_nodes ws) \<and>
     hash_trie env account_value (ws_state_trie ws) \<and>
     (\<forall>addr storage. ws_storage_tries ws addr = Some storage \<longrightarrow> hash_trie env storage_value storage) \<and>
     (\<forall>addr code. ws_code_store ws addr = Some code \<longrightarrow> length (bytes_contents code) < 2 ^ 62) \<and>
     finite (ws_dirty_storage ws) \<and> finite (ws_all_accounts ws) \<and> finite (ws_all_storage_slots ws)"

text \<open>The account of an address and the value of a slot, read off the maps of the tries.\<close>

definition account_at :: "ws_env \<Rightarrow> world_state_t \<Rightarrow> address_t \<Rightarrow> account_t option" where
  "account_at env ws addr =
     map_option (\<lambda>v. snd (account_rlp_decode (Some v) account_empty)) (mpt_map (ws_state_trie ws) (we_keccak env addr))"

definition storage_at :: "ws_env \<Rightarrow> world_state_t \<Rightarrow> address_t \<Rightarrow> uint256_t \<Rightarrow> uint256_t" where
  "storage_at env ws addr sl =
     (case ws_storage_tries ws addr of
        None \<Rightarrow> uint256_zero
      | Some storage \<Rightarrow>
          case_option uint256_zero uint256_from_bytes_be (mpt_map storage (we_keccak env (uint256_to_bytes_be sl))))"

definition account_of :: "account_t option \<Rightarrow> account_t" where
  "account_of = case_option account_empty id"

definition account_entry :: "account_t \<Rightarrow> u8 list option" where
  "account_entry acc = (if account_is_empty acc then None else Some (account_bytes acc))"

lemma ws_env_okD:
  assumes "ws_env_ok env"
  shows "alloc_total (we_alloc env)" "length (we_keccak env xs) = 32"
    "finite S \<Longrightarrow> distinct (we_addresses env S)" "finite S \<Longrightarrow> set (we_addresses env S) = S"
    "finite T \<Longrightarrow> distinct (we_slots env T)" "finite T \<Longrightarrow> set (we_slots env T) = T"
  using assms by (auto simp: ws_env_ok_def HASH_SIZE_def)

lemma ws_okD:
  assumes "ws_ok env ws"
  shows "ws_env_ok env" "no_failure (ws_nodes ws)" "hash_trie env account_value (ws_state_trie ws)"
    "ws_storage_tries ws addr = Some storage \<Longrightarrow> hash_trie env storage_value storage"
    "finite (ws_dirty_storage ws)" "finite (ws_all_accounts ws)" "finite (ws_all_storage_slots ws)"
    "ws_code_store ws addr = Some code \<Longrightarrow> length (bytes_contents code) < 2 ^ 62"
  using assms by (auto simp: ws_ok_def)

section \<open>Tries with hashes as keys\<close>

lemma hash_trie_get:
  assumes "ws_env_ok env" "hash_trie env P mpt"
  shows "stored (mpt_get (we_alloc env) mpt key) = mpt_map mpt key"
  using mpt_get_eq [OF ws_env_okD(1) [OF assms(1)]] assms(2) by (auto simp: hash_trie_def)

lemma hash_trie_insert:
  assumes "ws_env_ok env" "hash_trie env P mpt" "no_failure nodes" "P value" "length value < 2 ^ 62"
  shows "\<exists>mpt' nodes'. mpt_insert (we_alloc env) (we_keccak env) mpt (we_keccak env xs) value nodes = Some (True, mpt', nodes') \<and>
    hash_trie env P mpt' \<and> mpt_map mpt' = (mpt_map mpt)(we_keccak env xs \<mapsto> value) \<and> no_failure nodes'"
proof -
  have "mpt_ok (we_keccak env) 64 mpt" using assms(2) by (simp add: hash_trie_def)
  from mpt_insert_good [OF ws_env_okD(1) [OF assms(1)] this, of "we_keccak env xs" "value" nodes]
  show ?thesis using assms ws_env_okD(2) [OF assms(1)] by (fastforce simp: hash_trie_def no_failure_def split: if_splits)
qed

lemma hash_trie_delete:
  assumes "ws_env_ok env" "hash_trie env P mpt" "no_failure nodes"
  shows "\<exists>b mpt' nodes'. mpt_delete (we_alloc env) (we_keccak env) mpt key nodes = Some (b, mpt', nodes') \<and>
    hash_trie env P mpt' \<and> mpt_map mpt' = (mpt_map mpt)(key := None) \<and> no_failure nodes'"
proof -
  have "mpt_ok (we_keccak env) 64 mpt" using assms(2) by (simp add: hash_trie_def)
  from mpt_delete_good [OF ws_env_okD(1) [OF assms(1)] this _ assms(3), of key]
  show ?thesis using assms(2) by (fastforce simp: hash_trie_def)
qed

lemma hash_trie_new: "hash_trie env P (mpt_init (Some \<lparr>mem_root = None\<rparr>))"
  using new_trie_ok(1) [of "we_keccak env" 64] new_trie_ok(2) by (simp add: hash_trie_def new_trie_def)

text \<open>The root hash of a trie is determined by its map.\<close>

definition map_root :: "hash_fun \<Rightarrow> (u8 list \<rightharpoonup> u8 list) \<Rightarrow> hash_t \<Rightarrow> bool" where
  "map_root keccak m h \<longleftrightarrow> (\<exists>es. distinct (map fst es) \<and> map_of es = m \<and> h = trie_root keccak (nibble_entries es))"

lemma hash_trie_root:
  assumes "ws_env_ok env" "hash_trie env P mpt"
  shows "\<exists>h mpt'. mpt_root_hash (we_alloc env) (we_keccak env) mpt = Some (h, mpt') \<and>
    hash_trie env P mpt' \<and> mpt_map mpt' = mpt_map mpt \<and> map_root (we_keccak env) (mpt_map mpt) h"
proof -
  have ok: "mpt_ok (we_keccak env) 64 mpt" using assms(2) by (simp add: hash_trie_def)
  obtain es where es: "distinct (map fst es)" "map_of es = mpt_map mpt" using mpt_map_finite [OF ok] by blast
  from mpt_root_hash_good [OF ws_env_okD(1) [OF assms(1)] ok _ es]
  show ?thesis using assms(2) es by (fastforce simp: hash_trie_def map_root_def)
qed

section \<open>Accounts\<close>

lemma erase_slots_law:
  assumes "ws_env_ok env" "finite S"
  shows "erase_slots_for_address env S addr = Some {key \<in> S. \<not> address_equal (wsk_addr key) addr}"
  using assms(2)
proof (induction "card S" arbitrary: S rule: less_induct)
  case less
  define found where "found = filter (\<lambda>key. address_equal (wsk_addr key) addr) (we_slots env S)"
  define S' where "S' = S - set (take 64 found)"
  have f: "set found = {key \<in> S. address_equal (wsk_addr key) addr}" "distinct found"
    using ws_env_okD(5,6) [OF assms(1)] less.prems by (auto simp: found_def)
  have step: "erase_slots_for_address env S addr =
      (if length found > 64 then erase_slots_for_address env S' addr else Some S')"
    by (subst erase_slots_for_address.simps) (simp add: found_def S'_def Let_def)
  show ?case
  proof (cases "length found > 64")
    case True
    have "set (take 64 found) \<subseteq> S" "hd found \<in> set (take 64 found)"
      using f(1) set_take_subset [of 64 found] True by (auto, cases found, auto)
    then have "card S' < card S" unfolding S'_def using less.prems by (intro psubset_card_mono) auto
    moreover have "finite S'" using less.prems by (simp add: S'_def)
    moreover have "{key \<in> S'. \<not> address_equal (wsk_addr key) addr} = {key \<in> S. \<not> address_equal (wsk_addr key) addr}"
      using f(1) set_take_subset [of 64 found] by (auto simp: S'_def)
    ultimately show ?thesis using less.hyps True step by simp
  next
    case False
    then show ?thesis using step f(1) by (auto simp: S'_def)
  qed
qed

lemma account_value_decode:
  assumes "account_value v"
  shows "fst (account_rlp_decode (Some v) out)" "account_wf (snd (account_rlp_decode (Some v) out))"
    "account_bytes (snd (account_rlp_decode (Some v) out)) = v"
    "\<not> account_is_empty (snd (account_rlp_decode (Some v) out))"
  using assms by (auto simp: account_value_def account_rlp_decode_bytes)

lemma get_account_eq:
  assumes "ws_ok env ws"
  shows "world_state_get_account env ws addr =
    (case account_at env ws addr of None \<Rightarrow> (False, account_empty) | Some acc \<Rightarrow> (True, acc))"
proof -
  note t = ws_okD(3) [OF assms]
  define v where "v = mpt_get (we_alloc env) (ws_state_trie ws) (we_keccak env addr)"
  have s: "stored v = mpt_map (ws_state_trie ws) (we_keccak env addr)"
    unfolding v_def by (rule hash_trie_get [OF ws_okD(1) [OF assms] t])
  show ?thesis
  proof (cases "bytes_data v")
    case None
    then show ?thesis using s by (simp add: world_state_get_account_def address_to_key_def account_at_def stored_def flip: v_def)
  next
    case (Some d)
    then have m: "mpt_map (ws_state_trie ws) (we_keccak env addr) = Some (bytes_contents v)" using s by (simp add: stored_def)
    then have "account_value (bytes_contents v)" using t by (auto simp: hash_trie_def)
    from account_value_decode(1) [OF this, of account_empty]
    show ?thesis using Some m
      by (cases "account_rlp_decode (Some (bytes_contents v)) account_empty")
        (simp add: world_state_get_account_def address_to_key_def account_at_def flip: v_def)
  qed
qed

lemma account_at_wf:
  assumes "ws_ok env ws" "account_at env ws addr = Some acc"
  shows "account_wf acc" "\<not> account_is_empty acc"
proof -
  obtain v where "mpt_map (ws_state_trie ws) (we_keccak env addr) = Some v"
      "acc = snd (account_rlp_decode (Some v) account_empty)" using assms(2) by (auto simp: account_at_def)
  then show "account_wf acc" "\<not> account_is_empty acc"
    using account_value_decode [of v account_empty] ws_okD(3) [OF assms(1)] by (auto simp: hash_trie_def)
qed

lemma account_or_empty_eq: "ws_ok env ws \<Longrightarrow> account_or_empty env ws addr = account_of (account_at env ws addr)"
  by (simp add: account_or_empty_def get_account_eq account_of_def split: option.split)

lemma account_of_wf: "ws_ok env ws \<Longrightarrow> account_wf (account_of (account_at env ws addr))"
  using account_at_wf(1) [of env ws addr] by (auto simp: account_of_def split: option.split)

text \<open>
  What storing an account does: the entry of the address in the state trie is replaced, or removed
  for an empty account, and the sets used for the export follow.
\<close>

definition stored_account :: "ws_env \<Rightarrow> world_state_t \<Rightarrow> address_t \<Rightarrow> account_t \<Rightarrow> world_state_t \<Rightarrow> bool" where
  "stored_account env ws addr acc ws' \<longleftrightarrow> ws_ok env ws' \<and>
     (\<exists>trie nodes. ws' = ws\<lparr>ws_state_trie := trie,
        ws_all_accounts := (if account_is_empty acc then ws_all_accounts ws - {addr} else insert addr (ws_all_accounts ws)),
        ws_all_storage_slots := (if account_is_empty acc
          then {key \<in> ws_all_storage_slots ws. \<not> address_equal (wsk_addr key) addr} else ws_all_storage_slots ws), ws_nodes := nodes\<rparr> \<and>
      mpt_map trie = (mpt_map (ws_state_trie ws))(we_keccak env addr := account_entry acc))"

lemma stored_accountI:
  assumes "ws_ok env ws" "hash_trie env account_value trie" "no_failure nodes"
    "mpt_map trie = (mpt_map (ws_state_trie ws))(we_keccak env addr := account_entry acc)"
  shows "stored_account env ws addr acc (ws\<lparr>ws_state_trie := trie,
        ws_all_accounts := (if account_is_empty acc then ws_all_accounts ws - {addr} else insert addr (ws_all_accounts ws)),
        ws_all_storage_slots := (if account_is_empty acc
          then {key \<in> ws_all_storage_slots ws. \<not> address_equal (wsk_addr key) addr} else ws_all_storage_slots ws), ws_nodes := nodes\<rparr>)"
  using assms unfolding stored_account_def by (intro conjI exI [of _ trie] exI [of _ nodes]) (auto simp: ws_ok_def)

lemma set_account_law:
  assumes "ws_ok env ws" "account_wf acc"
  shows "\<exists>ws'. world_state_set_account env ws addr acc = Some (True, ws') \<and> stored_account env ws addr acc ws'"
proof (cases "account_is_empty acc")
  case True
  note e = ws_okD [OF assms(1)]
  obtain b trie nodes where d: "mpt_delete (we_alloc env) (we_keccak env) (ws_state_trie ws) (we_keccak env addr) (ws_nodes ws) =
      Some (b, trie, nodes)" "hash_trie env account_value trie"
      "mpt_map trie = (mpt_map (ws_state_trie ws))(we_keccak env addr := None)" "no_failure nodes"
    using hash_trie_delete [OF e(1,3,2)] by blast
  then show ?thesis
    using True assms(1) erase_slots_law [OF e(1,7)]
      stored_accountI [OF assms(1) d(2,4), of addr acc] by (simp add: world_state_set_account_def address_to_key_def account_entry_def)
next
  case False
  note e = ws_okD [OF assms(1)]
  obtain b where b: "account_rlp_encode (we_alloc env) acc = Some b" "bytes_wf b" "bytes_contents b = account_bytes acc"
    using account_rlp_encode_returns [OF ws_env_okD(1) [OF e(1)] assms(2)] by (auto simp: returns_def)
  have nn: "bytes_data b \<noteq> None" using b account_bytes_length(1) [OF assms(2)] by (cases "bytes_data b") (auto simp: bytes_contents_def)
  have v: "account_value (account_bytes acc)" using assms(2) False by (auto simp: account_value_def)
  obtain trie nodes where i: "mpt_insert (we_alloc env) (we_keccak env) (ws_state_trie ws) (we_keccak env addr) (account_bytes acc) (ws_nodes ws) =
      Some (True, trie, nodes)" "hash_trie env account_value trie"
      "mpt_map trie = (mpt_map (ws_state_trie ws))(we_keccak env addr \<mapsto> account_bytes acc)" "no_failure nodes"
    using hash_trie_insert [OF e(1,3,2) v account_bytes_length(2) [OF assms(2)]] by blast
  then have "world_state_set_account env ws addr acc =
      Some (True, ws\<lparr>ws_state_trie := trie, ws_all_accounts := insert addr (ws_all_accounts ws), ws_nodes := nodes\<rparr>)"
    using False b nn by (simp add: world_state_set_account_def address_to_key_def Let_def)
  then show ?thesis
    using False stored_accountI [OF assms(1) i(2,4), of addr acc] i(3) by (simp add: account_entry_def)
qed

lemma stored_account_at:
  assumes "stored_account env ws addr acc ws'" "account_wf acc"
  shows "account_at env ws' a = (if we_keccak env a = we_keccak env addr
    then if account_is_empty acc then None else Some acc else account_at env ws a)"
  using assms by (auto simp: stored_account_def account_at_def account_entry_def account_rlp_decode_bytes)

lemma stored_account_ok: "stored_account env ws addr acc ws' \<Longrightarrow> ws_ok env ws'"
  by (simp add: stored_account_def)

lemma stored_account_storage:
  assumes "stored_account env ws addr acc ws'"
  shows "storage_at env ws' a s = storage_at env ws a s" "ws_storage_tries ws' = ws_storage_tries ws"
    "ws_code_store ws' = ws_code_store ws" "ws_dirty_storage ws' = ws_dirty_storage ws"
  using assms by (auto simp: stored_account_def storage_at_def)

lemma account_wf_update [simp]:
  "account_wf (acc\<lparr>acc_balance := b\<rparr>) = account_wf acc" "account_wf (acc\<lparr>acc_nonce := n\<rparr>) = account_wf acc"
  by (simp_all add: account_wf_def)

text \<open>The account of an address, or the empty one, with a change made to it.\<close>

definition changed_account ::
    "ws_env \<Rightarrow> world_state_t \<Rightarrow> address_t \<Rightarrow> (account_t \<Rightarrow> account_t) \<Rightarrow> world_state_t \<Rightarrow> bool" where
  "changed_account env ws addr f ws' \<longleftrightarrow> stored_account env ws addr (f (account_of (account_at env ws addr))) ws'"

lemma set_balance_law:
  assumes "ws_ok env ws"
  shows "\<exists>ws'. ws_set_balance env ws addr b = Some ws' \<and> changed_account env ws addr (acc_balance_update (\<lambda>_. b)) ws'"
  using set_account_law [OF assms, of "account_of (account_at env ws addr)\<lparr>acc_balance := b\<rparr>" addr] account_of_wf [OF assms]
  by (auto simp: ws_set_balance_def account_or_empty_eq [OF assms] changed_account_def Let_def)

lemma set_nonce_law:
  assumes "ws_ok env ws"
  shows "\<exists>ws'. ws_set_nonce env ws addr n = Some ws' \<and> changed_account env ws addr (acc_nonce_update (\<lambda>_. n)) ws'"
  using set_account_law [OF assms, of "account_of (account_at env ws addr)\<lparr>acc_nonce := n\<rparr>" addr] account_of_wf [OF assms]
  by (auto simp: ws_set_nonce_def account_or_empty_eq [OF assms] changed_account_def Let_def)

lemma get_balance_eq: "ws_ok env ws \<Longrightarrow> ws_get_balance env ws addr = acc_balance (account_of (account_at env ws addr))"
  by (simp add: ws_get_balance_def get_account_eq account_of_def account_empty_def split: option.split)

lemma get_nonce_eq: "ws_ok env ws \<Longrightarrow> ws_get_nonce env ws addr = acc_nonce (account_of (account_at env ws addr))"
  by (simp add: ws_get_nonce_def get_account_eq account_of_def account_empty_def split: option.split)

lemma get_code_hash_eq:
  "ws_ok env ws \<Longrightarrow> ws_get_code_hash env ws addr = acc_code_hash (account_of (account_at env ws addr))"
  by (simp add: ws_get_code_hash_def get_account_eq account_of_def account_empty_def split: option.split)

lemma account_exists_eq:
  assumes "ws_ok env ws" shows "ws_account_exists env ws addr \<longleftrightarrow> account_at env ws addr \<noteq> None"
  using hash_trie_get [OF ws_okD(1,3) [OF assms], of "we_keccak env addr", symmetric]
  by (auto simp: ws_account_exists_def address_to_key_def account_at_def stored_def split: if_splits)

lemma add_balance_law:
  assumes "ws_ok env ws"
    and b_def: "b = acc_balance (account_of (account_at env ws addr))"
  shows "if uval b + uval v < 2 ^ 256
    then \<exists>ws'. ws_add_balance env ws addr v = Some (True, ws') \<and>
      changed_account env ws addr (acc_balance_update (\<lambda>_. uint256_add b v)) ws'
    else ws_add_balance env ws addr v = Some (False, ws)"
proof -
  have "uint256_lt (uint256_add b v) b \<longleftrightarrow> \<not> uval b + uval v < 2 ^ 256"
  proof (cases "uval b + uval v < 2 ^ 256")
    case True
    then show ?thesis using uval_bounds [of b] uval_bounds [of v] by (simp add: uint256_lt_iff uval_add mod_pos_pos_trivial)
  next
    case False
    then have "(uval b + uval v) mod 2 ^ 256 = uval b + uval v - 2 ^ 256"
      using uval_bounds [of b] uval_bounds [of v] mod_pos_pos_trivial [of "uval b + uval v - 2 ^ 256" "2 ^ 256"] by simp
    then show ?thesis using False uval_bounds [of v] by (simp add: uint256_lt_iff uval_add)
  qed
  then show ?thesis
    using set_account_law [OF assms(1), of "account_of (account_at env ws addr)\<lparr>acc_balance := uint256_add b v\<rparr>" addr] account_of_wf [OF assms(1)]
    by (auto simp: ws_add_balance_def account_or_empty_eq [OF assms(1)] changed_account_def Let_def b_def [symmetric])
qed

lemma sub_balance_law:
  assumes "ws_ok env ws"
    and b_def: "b = acc_balance (account_of (account_at env ws addr))"
  shows "if uval v \<le> uval b
    then \<exists>ws'. ws_sub_balance env ws addr v = Some (True, ws') \<and>
      (if account_at env ws addr = None then ws' = ws else changed_account env ws addr (acc_balance_update (\<lambda>_. uint256_sub b v)) ws')
    else ws_sub_balance env ws addr v = Some (False, ws)"
proof (cases "account_at env ws addr")
  case None
  then have "uval b = 0" by (simp add: b_def account_of_def account_empty_def)
  then show ?thesis using None uval_bounds [of v] by (simp add: ws_sub_balance_def get_account_eq [OF assms(1)])
next
  case (Some acc)
  then have b: "b = acc_balance acc" by (simp add: b_def account_of_def)
  show ?thesis
    using set_account_law [OF assms(1), of "acc\<lparr>acc_balance := uint256_sub b v\<rparr>" addr] account_at_wf [OF assms(1) Some] Some
    by (auto simp: ws_sub_balance_def get_account_eq [OF assms(1)] changed_account_def account_of_def b uint256_lt_iff)
qed

lemma increment_nonce_law:
  assumes "ws_ok env ws" and n_def: "n = acc_nonce (account_of (account_at env ws addr))"
  shows "if unat n < 2 ^ 64 - 2
    then \<exists>ws'. ws_increment_nonce env ws addr = Some (n, ws') \<and> changed_account env ws addr (acc_nonce_update (\<lambda>_. n + 1)) ws'
    else ws_increment_nonce env ws addr = Some (n, ws)"
proof -
  have "NOT 0 - 1 \<le> n \<longleftrightarrow> \<not> unat n < 2 ^ 64 - 2" by (simp add: word_le_nat_alt not_less)
  then show ?thesis
    using set_account_law [OF assms(1), of "account_of (account_at env ws addr)\<lparr>acc_nonce := n + 1\<rparr>" addr] account_of_wf [OF assms(1)]
    by (auto simp: ws_increment_nonce_def account_or_empty_eq [OF assms(1)] changed_account_def Let_def n_def [symmetric])
qed

lemma create_contract_law:
  assumes "ws_ok env ws"
  shows "if account_at env ws addr \<noteq> None then ws_create_contract env ws addr = Some ws
    else \<exists>ws'. ws_create_contract env ws addr = Some ws' \<and> stored_account env ws addr (account_empty\<lparr>acc_nonce := 1\<rparr>) ws'"
  using set_account_law [OF assms, of "account_empty\<lparr>acc_nonce := 1\<rparr>" addr]
  by (auto simp: ws_create_contract_def account_exists_eq [OF assms])

lemma delete_account_law:
  assumes "ws_ok env ws"
  shows "\<exists>ws'. ws_delete_account env ws addr = Some ws' \<and> ws_ok env ws' \<and>
    (\<forall>a. account_at env ws' a = (if we_keccak env a = we_keccak env addr then None else account_at env ws a)) \<and>
    (\<forall>a s. storage_at env ws' a s = (if a = addr then uint256_zero else storage_at env ws a s)) \<and>
    ws_code_store ws' = (ws_code_store ws)(addr := None)"
proof -
  note e = ws_okD [OF assms]
  obtain b trie nodes where d: "mpt_delete (we_alloc env) (we_keccak env) (ws_state_trie ws) (we_keccak env addr) (ws_nodes ws) =
      Some (b, trie, nodes)" "hash_trie env account_value trie"
      "mpt_map trie = (mpt_map (ws_state_trie ws))(we_keccak env addr := None)" "no_failure nodes"
    using hash_trie_delete [OF e(1,3,2)] by blast
  then show ?thesis
    using assms by (auto simp: ws_delete_account_def address_to_key_def account_at_def storage_at_def ws_ok_def)
qed

lemma set_code_law:
  assumes "ws_ok env ws" "length code < 2 ^ 62"
  shows "\<exists>ws' ws1. ws_set_code env ws addr code = Some ws' \<and>
    changed_account env ws1 addr
      (acc_code_hash_update (\<lambda>_. if code = [] then EMPTY_CODE_HASH else we_keccak env code)) ws' \<and>
    (\<exists>store. ws1 = ws\<lparr>ws_code_store := store\<rparr> \<and>
      (if ws_code_store ws addr \<noteq> None then store = ws_code_store ws
       else \<exists>b. store = (ws_code_store ws)(addr \<mapsto> b) \<and> bytes_contents b = code))"
proof -
  note e = ws_okD [OF assms(1)]
  have a: "alloc_total (we_alloc env)" using ws_env_okD(1) [OF e(1)] .
  obtain b where b: "(if length code > 0 then map_option snd (bytes_from_data (we_alloc env) bytes_init_arena code)
      else Some bytes_init_arena) = Some b" "bytes_contents b = code"
  proof (cases "code = []")
    case False
    obtain buf where buf: "we_alloc env (length code) = Some buf" "length buf = length code"
      using a unfolding alloc_total_def alloc_sound_def by (metis not_None_eq)
    then show ?thesis using False that
      by (auto simp: bytes_from_data_def bytes_reserve_def bytes_init_arena_def bytes_contents_def memcpy_at_def)
  qed (auto intro: that simp: bytes_init_arena_def bytes_contents_def)
  define store where "store = (case ws_code_store ws addr of Some _ \<Rightarrow> ws_code_store ws | None \<Rightarrow> (ws_code_store ws)(addr \<mapsto> b))"
  define ws1 where "ws1 = ws\<lparr>ws_code_store := store\<rparr>"
  have ok: "ws_ok env ws1"
    using assms b(2) by (auto simp: ws1_def store_def ws_ok_def split: option.splits if_splits)
  have at1: "account_at env ws1 addr = account_at env ws addr" by (simp add: ws1_def account_at_def)
  let ?acc = "account_of (account_at env ws1 addr)\<lparr>acc_code_hash := (if code = [] then EMPTY_CODE_HASH else we_keccak env code)\<rparr>"
  have "account_wf ?acc" using account_of_wf [OF ok, of addr] ws_env_okD(2) [OF e(1), of code]
    by (simp add: account_wf_def HASH_SIZE_def EMPTY_CODE_HASH_def)
  from set_account_law [OF ok this, of addr]
  obtain ws' where ws': "world_state_set_account env ws1 addr ?acc = Some (True, ws')" "stored_account env ws1 addr ?acc ws'" by blast
  have "(case ws_code_store ws addr of Some _ \<Rightarrow> ws | None \<Rightarrow> ws\<lparr>ws_code_store := (ws_code_store ws)(addr \<mapsto> b)\<rparr>) = ws1"
    by (simp add: ws1_def store_def split: option.split)
  then have "ws_set_code env ws addr code = Some ws'"
    using b(1) ws'(1) account_or_empty_eq [OF ok] by (simp add: ws_set_code_def Let_def split del: if_split)
  moreover have "if ws_code_store ws addr \<noteq> None then store = ws_code_store ws
       else \<exists>b. store = (ws_code_store ws)(addr \<mapsto> b) \<and> bytes_contents b = code"
    using b(2) by (auto simp: store_def)
  ultimately show ?thesis using ws'(2) ws1_def unfolding changed_account_def by blast
qed

section \<open>Storage\<close>

lemma storage_digits: "uint256_from_bytes_be (be_digits (nat (uval v))) = v"
  using uval_bounds [of v] by (simp add: uval_from_bytes be_val_be_digits mod_pos_pos_trivial flip: uval_inject)

lemma get_storage_eq:
  assumes "ws_ok env ws" shows "ws_get_storage env ws addr sl = storage_at env ws addr sl"
proof (cases "ws_storage_tries ws addr")
  case (Some storage)
  define v where "v = mpt_get (we_alloc env) storage (we_keccak env (uint256_to_bytes_be sl))"
  have t: "hash_trie env storage_value storage" using ws_okD(4) [OF assms Some] .
  have s: "stored v = mpt_map storage (we_keccak env (uint256_to_bytes_be sl))"
    unfolding v_def by (rule hash_trie_get [OF ws_okD(1) [OF assms] t])
  show ?thesis
  proof (cases "bytes_data v")
    case (Some d)
    then have m: "mpt_map storage (we_keccak env (uint256_to_bytes_be sl)) = Some (bytes_contents v)" using s by (simp add: stored_def)
    then have "storage_value (bytes_contents v)" using t by (auto simp: hash_trie_def)
    then obtain x where x: "x \<noteq> uint256_zero" "bytes_contents v = be_digits (nat (uval x))" by (auto simp: storage_value_def)
    have "bytes_contents v \<noteq> []"
      using x storage_digits [of x] by (auto simp: uint256_zero_def) (metis be_digits_0 storage_digits uval_zero nat_0 x)
    then have "bytes_size v \<noteq> 0" by (auto simp: bytes_contents_def)
    then show ?thesis using Some m \<open>ws_storage_tries ws addr = Some storage\<close>
      by (simp add: ws_get_storage_def storage_at_def slot_to_key_def flip: v_def)
  qed (use s Some in \<open>simp add: ws_get_storage_def storage_at_def slot_to_key_def stored_def flip: v_def\<close>)
qed (simp add: ws_get_storage_def storage_at_def)

lemma get_storage_trie_law:
  assumes "ws_ok env ws"
  shows "\<exists>storage. world_state_get_storage_trie env ws addr =
      (Some storage, ws\<lparr>ws_storage_tries := (ws_storage_tries ws)(addr \<mapsto> storage)\<rparr>) \<and> hash_trie env storage_value storage \<and>
    (case ws_storage_tries ws addr of None \<Rightarrow> mpt_map storage = Map.empty | Some t \<Rightarrow> storage = t)"
proof (cases "ws_storage_tries ws addr")
  case None
  have "we_alloc env n \<noteq> None" for n using ws_env_okD(1) [OF ws_okD(1) [OF assms]] by (simp add: alloc_total_def)
  then obtain x y where "we_alloc env (we_sizeof env ''mpt_memory_backend_t'') = Some x" "we_alloc env (we_sizeof env ''mpt_t'') = Some y"
    by blast
  then show ?thesis using None hash_trie_new [of env storage_value] new_trie_ok(2)
    by (auto simp: world_state_get_storage_trie_def mpt_memory_backend_create_def new_trie_def Let_def)
next
  case (Some t)
  then have "ws\<lparr>ws_storage_tries := (ws_storage_tries ws)(addr \<mapsto> t)\<rparr> = ws" by (simp add: fun_upd_idem)
  then show ?thesis using Some ws_okD(4) [OF assms Some] by (simp add: world_state_get_storage_trie_def)
qed

text \<open>
  What writing a slot does: the slot has the value, its first value in the transaction is
  remembered, the address is marked dirty, and the slot is known exactly when it is not zero.
\<close>

definition stored_slot :: "ws_env \<Rightarrow> world_state_t \<Rightarrow> address_t \<Rightarrow> uint256_t \<Rightarrow> uint256_t \<Rightarrow> world_state_t \<Rightarrow> bool" where
  "stored_slot env ws addr sl v ws' \<longleftrightarrow> ws_ok env ws' \<and>
     (\<forall>a s. storage_at env ws' a s =
        (if a = addr \<and> we_keccak env (uint256_to_bytes_be s) = we_keccak env (uint256_to_bytes_be sl) then v
         else storage_at env ws a s)) \<and>
     (\<exists>tries nodes key. key = \<lparr>wsk_addr = addr, wsk_slot = sl\<rparr> \<and>
        ws' = ws\<lparr>ws_storage_tries := tries,
          ws_original_storage := (case ws_original_storage ws key of
             None \<Rightarrow> (ws_original_storage ws)(key \<mapsto> storage_at env ws addr sl) | Some _ \<Rightarrow> ws_original_storage ws),
          ws_dirty_storage := insert addr (ws_dirty_storage ws),
          ws_all_storage_slots := (if v = uint256_zero then ws_all_storage_slots ws - {key} else insert key (ws_all_storage_slots ws)),
          ws_nodes := nodes\<rparr>)"

lemma is_zero_iff: "uint256_is_zero v \<longleftrightarrow> v = uint256_zero"
  by (simp flip: uval_inject)

lemma storage_put:
  assumes "ws_env_ok env" "hash_trie env storage_value storage" "no_failure nodes"
  shows "\<exists>b storage' nodes'.
    (if uint256_is_zero v then mpt_delete (we_alloc env) (we_keccak env) storage (we_keccak env xs) nodes
     else mpt_insert (we_alloc env) (we_keccak env) storage (we_keccak env xs)
        (dropWhile (\<lambda>b. b = 0) (uint256_to_bytes_be v)) nodes) = Some (b, storage', nodes') \<and>
    hash_trie env storage_value storage' \<and> no_failure nodes' \<and>
    mpt_map storage' = (mpt_map storage)(we_keccak env xs := (if v = uint256_zero then None else Some (be_digits (nat (uval v)))))"
proof (cases "v = uint256_zero")
  case True
  then show ?thesis using hash_trie_delete [OF assms, of "we_keccak env xs"] is_zero_iff [of v] by auto
next
  case False
  have "dropWhile (\<lambda>b. b = 0) (uint256_to_bytes_be v) = be_digits (nat (uval v))" using be_digits_bytes [of "uint256_to_bytes_be v"] by simp
  moreover have "storage_value (be_digits (nat (uval v)))" using False by (auto simp: storage_value_def)
  moreover have "length (be_digits (nat (uval v))) < 2 ^ 62" using be_digits_uval_length [of v] by simp
  ultimately show ?thesis using hash_trie_insert [OF assms, of "be_digits (nat (uval v))" xs] is_zero_iff [of v] False by auto
qed

lemma set_storage_law:
  assumes "ws_ok env ws"
  shows "\<exists>ws'. ws_set_storage env ws addr sl v = Some ws' \<and> stored_slot env ws addr sl v ws'"
proof -
  define key where "key = \<lparr>wsk_addr = addr, wsk_slot = sl\<rparr>"
  define orig where "orig = (case ws_original_storage ws key of
      None \<Rightarrow> (ws_original_storage ws)(key \<mapsto> storage_at env ws addr sl) | Some _ \<Rightarrow> ws_original_storage ws)"
  define slots where "slots = (if v = uint256_zero then ws_all_storage_slots ws - {key} else insert key (ws_all_storage_slots ws))"
  define ws1 where "ws1 = ws\<lparr>ws_original_storage := orig, ws_dirty_storage := insert addr (ws_dirty_storage ws), ws_all_storage_slots := slots\<rparr>"
  have ok1: "ws_ok env ws1" using assms by (auto simp: ws1_def ws_ok_def slots_def)
  have tries1: "ws_storage_tries ws1 = ws_storage_tries ws" "ws_nodes ws1 = ws_nodes ws" by (simp_all add: ws1_def)
  obtain storage where st: "world_state_get_storage_trie env ws1 addr =
      (Some storage, ws1\<lparr>ws_storage_tries := (ws_storage_tries ws)(addr \<mapsto> storage)\<rparr>)" "hash_trie env storage_value storage"
      "case ws_storage_tries ws addr of None \<Rightarrow> mpt_map storage = Map.empty | Some t \<Rightarrow> storage = t"
    using get_storage_trie_law [OF ok1, of addr] tries1 by auto
  obtain b storage' nodes' where put: "(if uint256_is_zero v
      then mpt_delete (we_alloc env) (we_keccak env) storage (slot_to_key env sl) (ws_nodes ws)
      else mpt_insert (we_alloc env) (we_keccak env) storage (slot_to_key env sl)
        (dropWhile (\<lambda>b. b = 0) (uint256_to_bytes_be v)) (ws_nodes ws)) = Some (b, storage', nodes')"
      "hash_trie env storage_value storage'" "no_failure nodes'" "mpt_map storage' =
        (mpt_map storage)(slot_to_key env sl := (if v = uint256_zero then None else Some (be_digits (nat (uval v)))))"
    using storage_put [OF ws_okD(1) [OF assms] st(2) ws_okD(2) [OF assms], of v "uint256_to_bytes_be sl"]
    unfolding slot_to_key_def by blast
  define ws' where "ws' = ws1\<lparr>ws_storage_tries := (ws_storage_tries ws)(addr \<mapsto> storage'), ws_nodes := nodes'\<rparr>"
  have o: "(if ws_original_storage ws key = None
        then ws\<lparr>ws_original_storage := (ws_original_storage ws)(key \<mapsto> ws_get_storage env ws addr sl)\<rparr> else ws) =
      ws\<lparr>ws_original_storage := orig\<rparr>"
    by (auto simp: orig_def get_storage_eq [OF assms])
  have s: "(if uint256_is_zero v then w\<lparr>ws_all_storage_slots := ws_all_storage_slots w - {key}\<rparr>
        else w\<lparr>ws_all_storage_slots := insert key (ws_all_storage_slots w)\<rparr>) = w\<lparr>ws_all_storage_slots := slots\<rparr>"
    if "ws_all_storage_slots w = ws_all_storage_slots ws" for w using that is_zero_iff [of v] by (auto simp: slots_def)
  have "ws_set_storage env ws addr sl v = Some ws'"
    unfolding ws_set_storage_def Let_def key_def [symmetric] o
    by (subst s, simp, use put(1) in \<open>auto simp: ws1_def [symmetric] st(1) tries1 ws'_def split: if_splits\<close>)
  moreover have "ws_ok env ws'" using ok1 put(2,3) by (auto simp: ws'_def ws1_def ws_ok_def)
  moreover have "storage_at env ws' a s =
        (if a = addr \<and> we_keccak env (uint256_to_bytes_be s) = we_keccak env (uint256_to_bytes_be sl) then v
         else storage_at env ws a s)" for a s
    using put(4) st(3) by (auto simp: storage_at_def ws'_def slot_to_key_def storage_digits ws1_def split: option.splits)
  moreover have "ws' = ws\<lparr>ws_storage_tries := (ws_storage_tries ws)(addr \<mapsto> storage'), ws_original_storage := orig,
      ws_dirty_storage := insert addr (ws_dirty_storage ws), ws_all_storage_slots := slots, ws_nodes := nodes'\<rparr>"
    by (simp add: ws'_def ws1_def)
  ultimately show ?thesis
    unfolding stored_slot_def orig_def slots_def key_def by (intro exI [of _ ws'] conjI allI) (assumption | blast)+
qed

lemma set_storage_accounts: "stored_slot env ws addr sl v ws' \<Longrightarrow> account_at env ws' = account_at env ws"
  by (auto simp: stored_slot_def account_at_def fun_eq_iff)


section \<open>A provider of state\<close>

lemma world_state_provider: "state_provider (WORLD_STATE_VTABLE env) (ws_ok env)"
proof
  fix s addr sl v assume ok: "ws_ok env s"
  show "ws_ok env (snd (vt_warm_address (WORLD_STATE_VTABLE env) s addr))"
    using ok by (simp add: WORLD_STATE_VTABLE_def ws_warm_address_def ws_ok_def)
  show "ws_ok env (snd (vt_warm_slot (WORLD_STATE_VTABLE env) s addr sl))"
    using ok by (simp add: WORLD_STATE_VTABLE_def ws_warm_slot_def ws_ok_def Let_def)
  show "\<exists>s'. vt_set_storage (WORLD_STATE_VTABLE env) s addr sl v = Some s' \<and> ws_ok env s'"
    using set_storage_law [OF ok, of addr sl v] by (auto simp: WORLD_STATE_VTABLE_def stored_slot_def)
  show "\<exists>b s'. vt_add_balance (WORLD_STATE_VTABLE env) s addr v = Some (b, s') \<and> ws_ok env s'"
    using add_balance_law [OF ok refl, of addr v] ok
    by (auto simp: WORLD_STATE_VTABLE_def changed_account_def intro: stored_account_ok split: if_splits)
  show "\<exists>b s'. vt_sub_balance (WORLD_STATE_VTABLE env) s addr v = Some (b, s') \<and> ws_ok env s'"
    using sub_balance_law [OF ok refl, of v addr] ok
    by (auto simp: WORLD_STATE_VTABLE_def changed_account_def intro: stored_account_ok split: if_splits)
  show "length (bytes_contents (vt_get_code (WORLD_STATE_VTABLE env) s addr)) < 2 ^ 62"
    using ws_okD(8) [OF ok, of addr]
    by (auto simp: WORLD_STATE_VTABLE_def ws_get_code_def bytes_init_def bytes_contents_def split: option.split)
qed (simp add: WORLD_STATE_VTABLE_def)

section \<open>The state root\<close>

text \<open>
  The account of an address after the storage roots have been brought up to date: an address with a
  storage trie that is among the dirty ones gets the root of that trie.
\<close>

definition rooted_account :: "ws_env \<Rightarrow> world_state_t \<Rightarrow> address_t \<Rightarrow> account_t option \<Rightarrow> bool" where
  "rooted_account env ws a r \<longleftrightarrow>
     (case ws_storage_tries ws a of
        None \<Rightarrow> r = account_at env ws a
      | Some storage \<Rightarrow> \<exists>h. map_root (we_keccak env) (mpt_map storage) h \<and>
          (let acc = (account_of (account_at env ws a))\<lparr>acc_storage_root := h\<rparr>
           in r = (if account_is_empty acc then None else Some acc)))"

lemma trie_root_length:
  assumes "ws_env_ok env" "map_root (we_keccak env) m h" shows "length h = HASH_SIZE"
  using assms by (auto simp: map_root_def trie_root_def ws_env_ok_def MPT_EMPTY_ROOT_def HASH_SIZE_def)

lemma map_root_unique:
  assumes "ws_env_ok env" "hash_trie env P t" "map_root (we_keccak env) (mpt_map t) h" "map_root (we_keccak env) (mpt_map t) h'"
  shows "h = h'"
proof -
  have r: "map_option fst (mpt_root_hash (we_alloc env) (we_keccak env) t) = Some x" if "map_root (we_keccak env) (mpt_map t) x" for x
  proof -
    obtain es where es: "distinct (map fst es)" "map_of es = mpt_map t" "x = trie_root (we_keccak env) (nibble_entries es)"
      using \<open>map_root (we_keccak env) (mpt_map t) x\<close> by (auto simp: map_root_def)
    show ?thesis
      using mpt_root_hash_good [OF ws_env_okD(1) [OF assms(1)] _ _ es(1,2), of "we_keccak env" 64] assms(2) es(3) by (auto simp: hash_trie_def)
  qed
  then show ?thesis using assms(3,4) by (metis option.inject)
qed

text \<open>The addresses at hand are told apart by their hashes.\<close>

definition no_collision :: "ws_env \<Rightarrow> address_t set \<Rightarrow> bool" where
  "no_collision env S \<longleftrightarrow> inj_on (we_keccak env) S"

lemma update_storage_roots_law:
  assumes "ws_ok env ws" "distinct addrs" "no_collision env (insert a (set addrs))"
  shows "\<exists>ws'. update_storage_roots env addrs ws = Some ws' \<and> ws_ok env ws' \<and>
    (if a \<in> set addrs then rooted_account env ws a (account_at env ws' a) else account_at env ws' a = account_at env ws a) \<and>
    (\<forall>a s. storage_at env ws' a s = storage_at env ws a s) \<and> ws_code_store ws' = ws_code_store ws"
  using assms
proof (induction addrs arbitrary: ws)
  case (Cons addr addrs)
  note ok = Cons.prems(1)
  have nc: "no_collision env (insert a (set addrs))" using Cons.prems(3) by (auto simp: no_collision_def intro: inj_on_subset)
  show ?case
  proof (cases "ws_storage_tries ws addr")
    case None
    obtain ws' where ws': "update_storage_roots env addrs ws = Some ws'" "ws_ok env ws'"
        "if a \<in> set addrs then rooted_account env ws a (account_at env ws' a) else account_at env ws' a = account_at env ws a"
        "\<forall>a s. storage_at env ws' a s = storage_at env ws a s" "ws_code_store ws' = ws_code_store ws"
      using Cons.IH [OF ok _ nc] Cons.prems(2) by auto
    have "if a \<in> set (addr # addrs) then rooted_account env ws a (account_at env ws' a) else account_at env ws' a = account_at env ws a"
      using ws'(3) None Cons.prems(2) by (cases "a = addr") (simp_all add: rooted_account_def)
    then show ?thesis using None ws' by simp
  next
    case (Some storage)
    obtain h t where h: "mpt_root_hash (we_alloc env) (we_keccak env) storage = Some (h, t)" "hash_trie env storage_value t"
        "mpt_map t = mpt_map storage" "map_root (we_keccak env) (mpt_map storage) h"
      using hash_trie_root [OF ws_okD(1) [OF ok] ws_okD(4) [OF ok Some]] by blast
    define ws1 where "ws1 = ws\<lparr>ws_storage_tries := (ws_storage_tries ws)(addr \<mapsto> t)\<rparr>"
    have ok1: "ws_ok env ws1" using ok h(2) by (auto simp: ws1_def ws_ok_def)
    have st1: "storage_at env ws1 a s = storage_at env ws a s" for a s using Some h(3) by (simp add: ws1_def storage_at_def)
    have at1: "account_at env ws1 = account_at env ws" by (simp add: ws1_def account_at_def fun_eq_iff)
    define acc where "acc = (account_of (account_at env ws addr))\<lparr>acc_storage_root := h\<rparr>"
    have wf: "account_wf acc"
      using account_of_wf [OF ok, of addr] trie_root_length [OF ws_okD(1) [OF ok] h(4)] by (simp add: acc_def account_wf_def)
    obtain ws2 where ws2: "world_state_set_account env ws1 addr acc = Some (True, ws2)" "stored_account env ws1 addr acc ws2"
      using set_account_law [OF ok1 wf] by blast
    note at2 = stored_account_at [OF ws2(2) wf]
    obtain ws' where ws': "update_storage_roots env addrs ws2 = Some ws'" "ws_ok env ws'"
        "if a \<in> set addrs then rooted_account env ws2 a (account_at env ws' a) else account_at env ws' a = account_at env ws2 a"
        "\<forall>a s. storage_at env ws' a s = storage_at env ws2 a s" "ws_code_store ws' = ws_code_store ws2"
      using Cons.IH [OF stored_account_ok [OF ws2(2)] _ nc] Cons.prems(2) by auto
    have "update_storage_roots env (addr # addrs) ws = Some ws'"
      using Some h(1) ws2(1) ws'(1) account_or_empty_eq [OF ok] by (simp add: ws1_def acc_def Let_def)
    moreover have "rooted_account env ws a (account_at env ws' a)" if "a = addr"
      using ws'(3) Cons.prems(2) at2 [of addr] that Some h(4) by (auto simp: rooted_account_def acc_def Let_def)
    moreover have "if a \<in> set addrs then rooted_account env ws a (account_at env ws' a) else account_at env ws' a = account_at env ws a"
      if "a \<noteq> addr"
    proof -
      have k: "we_keccak env a \<noteq> we_keccak env addr" using Cons.prems(3) that by (auto simp: no_collision_def inj_on_def)
      have "ws_storage_tries ws2 a = ws_storage_tries ws a"
        using stored_account_storage(2) [OF ws2(2)] that by (simp add: ws1_def)
      moreover have eq: "account_at env ws2 a = account_at env ws a" using at2 [of a] k at1 by simp
      ultimately have "rooted_account env ws2 a r \<longleftrightarrow> rooted_account env ws a r" for r
        unfolding rooted_account_def by metis
      then show ?thesis using ws'(3) eq by (auto split: if_splits)
    qed
    ultimately have "update_storage_roots env (addr # addrs) ws = Some ws'"
        "if a \<in> set (addr # addrs) then rooted_account env ws a (account_at env ws' a) else account_at env ws' a = account_at env ws a"
      by (simp, cases "a = addr", simp_all)
    moreover have "\<forall>a s. storage_at env ws' a s = storage_at env ws a s" "ws_code_store ws' = ws_code_store ws"
      using ws'(4,5) stored_account_storage [OF ws2(2)] st1 by (simp_all add: ws1_def)
    ultimately show ?thesis using ws'(2) by blast
  qed
qed simp

lemma world_state_root_law:
  assumes "ws_ok env ws" "no_collision env (insert a (ws_dirty_storage ws))"
  shows "\<exists>h ws'. world_state_root env ws = Some (h, ws') \<and> ws_ok env ws' \<and> ws_dirty_storage ws' = {} \<and>
    map_root (we_keccak env) (mpt_map (ws_state_trie ws')) h \<and>
    (if a \<in> ws_dirty_storage ws then rooted_account env ws a (account_at env ws' a) else account_at env ws' a = account_at env ws a) \<and>
    (\<forall>a s. storage_at env ws' a s = storage_at env ws a s)"
proof -
  note it = ws_env_okD(3,4) [OF ws_okD(1) [OF assms(1)]] and fin = ws_okD(5) [OF assms(1)]
  obtain ws1 where ws1: "update_storage_roots env (we_addresses env (ws_dirty_storage ws)) ws = Some ws1" "ws_ok env ws1"
      "if a \<in> ws_dirty_storage ws then rooted_account env ws a (account_at env ws1 a) else account_at env ws1 a = account_at env ws a"
      "\<forall>a s. storage_at env ws1 a s = storage_at env ws a s"
    using update_storage_roots_law [OF assms(1) it(1) [OF fin], of a] assms(2) it(2) [OF fin] by auto
  obtain h t where h: "mpt_root_hash (we_alloc env) (we_keccak env) (ws_state_trie ws1) = Some (h, t)" "hash_trie env account_value t"
      "mpt_map t = mpt_map (ws_state_trie ws1)" "map_root (we_keccak env) (mpt_map (ws_state_trie ws1)) h"
    using hash_trie_root [OF ws_okD(1,3) [OF ws1(2)]] by blast
  show ?thesis
    using ws1 h by (auto simp: world_state_root_def Let_def ws_ok_def account_at_def storage_at_def)
qed

section \<open>Export\<close>

definition known_addresses :: "world_state_t \<Rightarrow> bool" where
  "known_addresses ws \<longleftrightarrow> (\<forall>a \<in> ws_all_accounts ws. length a = ADDRESS_SIZE) \<and>
     (\<forall>key \<in> ws_all_storage_slots ws. length (wsk_addr key) = ADDRESS_SIZE)"

definition base_snapshot :: "ws_env \<Rightarrow> world_state_t \<Rightarrow> address_t \<Rightarrow> account_snapshot_t" where
  "base_snapshot env ws a = \<lparr>snap_address = a, snap_balance = acc_balance (account_of (account_at env ws a)),
     snap_nonce = acc_nonce (account_of (account_at env ws a)), snap_code = bytes_contents (ws_get_code env ws a),
     snap_storage = [], snap_storage_count = 0\<rparr>"

definition slot_entries :: "ws_env \<Rightarrow> world_state_t \<Rightarrow> warm_slot_key_t list \<Rightarrow> address_t \<Rightarrow> storage_entry_t list" where
  "slot_entries env ws keys a = map (\<lambda>key. \<lparr>entry_slot = wsk_slot key, entry_value = storage_at env ws a (wsk_slot key)\<rparr>)
     (filter (\<lambda>key. wsk_addr key = a \<and> storage_at env ws a (wsk_slot key) \<noteq> uint256_zero) keys)"

definition with_entries :: "ws_env \<Rightarrow> world_state_t \<Rightarrow> warm_slot_key_t list \<Rightarrow> account_snapshot_t \<Rightarrow> account_snapshot_t" where
  "with_entries env ws keys s = s\<lparr>snap_storage := slot_entries env ws keys (snap_address s),
     snap_storage_count := length (slot_entries env ws keys (snap_address s))\<rparr>"

lemma snapshot_accounts_eq:
  assumes "ws_ok env ws" "alloc_total arena"
  shows "snapshot_accounts env arena ws addrs accounts =
    Some (accounts @ map (base_snapshot env ws) (filter (\<lambda>a. account_at env ws a \<noteq> None) addrs))"
proof (induction addrs arbitrary: accounts)
  case (Cons addr addrs)
  have a: "arena n \<noteq> None" for n using assms(2) by (simp add: alloc_total_def)
  have "(case ws_code_store ws addr of
      Some code \<Rightarrow> if bytes_size code > 0 then map_option (\<lambda>_. bytes_contents code) (arena (bytes_size code)) else Some []
    | None \<Rightarrow> Some []) = Some (bytes_contents (ws_get_code env ws addr))"
    using a by (auto simp: ws_get_code_def bytes_contents_def bytes_init_def split: option.split)
  then show ?case
    using Cons.IH by (cases "account_at env ws addr")
      (simp_all add: get_account_eq [OF assms(1)] Let_def base_snapshot_def account_of_def)
qed simp

lemma find_account_eq:
  assumes "distinct (map snap_address ss)" "\<forall>s \<in> set ss. length (snap_address s) = ADDRESS_SIZE" "length a = ADDRESS_SIZE"
  shows "(\<forall>i. find_account ss a = Some i \<longrightarrow> i < length ss \<and> snap_address (ss ! i) = a) \<and>
    (find_account ss a = None \<longrightarrow> a \<notin> snap_address ` set ss)"
  using assms(1,2)
proof (induction ss)
  case (Cons s ss)
  have "address_equal a (snap_address s) \<longleftrightarrow> a = snap_address s"
    using Cons.prems(2) assms(3) by (auto simp: address_equal_def)
  then show ?case using Cons by (auto simp: less_Suc_eq_0_disj)
qed simp

lemma find_account_cong:
  "map snap_address ss = map snap_address ts \<Longrightarrow> find_account ss a = find_account ts a"
proof (induction ss arbitrary: ts)
  case (Cons s ss)
  then show ?case by (cases ts) auto
qed simp

lemma count_slots_eq:
  assumes "distinct (map snap_address ss)" "\<forall>s \<in> set ss. length (snap_address s) = ADDRESS_SIZE"
    "\<forall>key \<in> set keys. length (wsk_addr key) = ADDRESS_SIZE"
  shows "foldl (count_slot ss) (replicate (length ss) 0) keys =
    map (\<lambda>s. length (filter (\<lambda>key. wsk_addr key = snap_address s) keys)) ss"
  using assms(3)
proof (induction keys rule: rev_induct)
  case Nil
  then show ?case by (simp add: map_replicate_const)
next
  case (snoc key keys)
  have f: "(\<forall>i. find_account ss (wsk_addr key) = Some i \<longrightarrow> i < length ss \<and> snap_address (ss ! i) = wsk_addr key) \<and>
      (find_account ss (wsk_addr key) = None \<longrightarrow> wsk_addr key \<notin> snap_address ` set ss)"
    using snoc.prems by (intro find_account_eq [OF assms(1,2)]) simp
  have ih: "foldl (count_slot ss) (replicate (length ss) 0) keys =
    map (\<lambda>s. length (filter (\<lambda>key. wsk_addr key = snap_address s) keys)) ss" using snoc by simp
  show ?case
  proof (cases "find_account ss (wsk_addr key)")
    case None
    then have "count_slot ss cs key = cs" for cs by (simp add: count_slot_def)
    then show ?thesis using f None ih by auto
  next
    case (Some i)
    then have i: "i < length ss" "snap_address (ss ! i) = wsk_addr key" using f by auto
    have "wsk_addr key = snap_address (ss ! j) \<longleftrightarrow> j = i" if "j < length ss" for j
      using assms(1) i that nth_eq_iff_index_eq [of "map snap_address ss" j i] by auto
    then have "(map (\<lambda>s. length (filter (\<lambda>key. wsk_addr key = snap_address s) keys)) ss)
        [i := Suc (map (\<lambda>s. length (filter (\<lambda>key. wsk_addr key = snap_address s) keys)) ss ! i)] =
        map (\<lambda>s. length (filter (\<lambda>key. wsk_addr key = snap_address s) (keys @ [key]))) ss"
      using i by (intro nth_equalityI) (auto simp: nth_list_update)
    moreover have "count_slot ss cs key = cs[i := Suc (cs ! i)]" for cs by (simp add: count_slot_def Some)
    ultimately show ?thesis using ih by simp
  qed
qed

lemma with_entries_address [simp]: "snap_address (with_entries env ws keys s) = snap_address s"
  by (simp add: with_entries_def)

lemma populate_storage_eq:
  assumes "ws_ok env ws" "distinct (map snap_address ss)" "\<forall>s \<in> set ss. length (snap_address s) = ADDRESS_SIZE"
    "\<forall>key \<in> set keys. length (wsk_addr key) = ADDRESS_SIZE"
    "\<forall>i < length ss. length (filter (\<lambda>key. wsk_addr key = snap_address (ss ! i)) (written @ keys)) \<le> capacity ! i"
  shows "populate_storage env ws capacity keys (map (with_entries env ws written) ss) =
    Some (map (with_entries env ws (written @ keys)) ss)"
  using assms(4,5)
proof (induction keys arbitrary: written)
  case (Cons key keys)
  have f: "(\<forall>i. find_account ss (wsk_addr key) = Some i \<longrightarrow> i < length ss \<and> snap_address (ss ! i) = wsk_addr key) \<and>
      (find_account ss (wsk_addr key) = None \<longrightarrow> wsk_addr key \<notin> snap_address ` set ss)"
    using Cons.prems(1) by (intro find_account_eq [OF assms(2,3)]) simp
  have fe: "find_account (map (with_entries env ws written) ss) (wsk_addr key) = find_account ss (wsk_addr key)"
    by (rule find_account_cong) simp
  have ih: "populate_storage env ws capacity keys (map (with_entries env ws (written @ [key])) ss) =
      Some (map (with_entries env ws (written @ key # keys)) ss)"
    using Cons.IH [of "written @ [key]"] Cons.prems by simp
  have skip: "map (with_entries env ws written) ss = map (with_entries env ws (written @ [key])) ss"
    if "wsk_addr key \<notin> snap_address ` set ss \<or> storage_at env ws (wsk_addr key) (wsk_slot key) = uint256_zero"
    using that by (auto simp: with_entries_def slot_entries_def)
  show ?case
  proof (cases "find_account ss (wsk_addr key)")
    case None
    then have "populate_storage env ws capacity (key # keys) (map (with_entries env ws written) ss) =
        populate_storage env ws capacity keys (map (with_entries env ws written) ss)" using fe by simp
    then show ?thesis using f None skip ih by metis
  next
    case (Some i)
    then have i: "i < length ss" "snap_address (ss ! i) = wsk_addr key" using f by auto
    let ?v = "storage_at env ws (wsk_addr key) (wsk_slot key)"
    let ?a = "with_entries env ws written (ss ! i)"
    show ?thesis
    proof (cases "?v = uint256_zero")
      case True
      then have "populate_storage env ws capacity (key # keys) (map (with_entries env ws written) ss) =
          populate_storage env ws capacity keys (map (with_entries env ws written) ss)"
        using Some fe i by (simp add: Let_def get_storage_eq [OF assms(1)])
      then show ?thesis using True skip ih by metis
    next
      case False
      have "length (filter (\<lambda>k. wsk_addr k = wsk_addr key \<and> storage_at env ws (wsk_addr key) (wsk_slot k) \<noteq> uint256_zero) written) \<le>
          length (filter (\<lambda>k. wsk_addr k = wsk_addr key) written)"
        by (induction written) auto
      then have cap: "snap_storage_count ?a < capacity ! i"
        using Cons.prems(2) i by (auto simp: with_entries_def slot_entries_def dest!: spec [of _ i])
      have "wsk_addr key = snap_address (ss ! j) \<longleftrightarrow> j = i" if "j < length ss" for j
        using assms(2) i that nth_eq_iff_index_eq [of "map snap_address ss" j i] by auto
      then have "(map (with_entries env ws written) ss)[i := ?a\<lparr>snap_storage := snap_storage ?a @ [\<lparr>entry_slot = wsk_slot key, entry_value = ?v\<rparr>],
          snap_storage_count := snap_storage_count ?a + 1\<rparr>] = map (with_entries env ws (written @ [key])) ss"
        using i False by (intro nth_equalityI) (auto simp: nth_list_update with_entries_def slot_entries_def)
      moreover have "\<not> uint256_is_zero ?v" using False is_zero_iff by blast
      ultimately show ?thesis using Some fe i cap ih by (simp add: Let_def get_storage_eq [OF assms(1)])
    qed
  qed
qed simp

lemma world_state_snapshot_law:
  assumes "ws_ok env ws" "alloc_total arena" "known_addresses ws"
  defines "addrs \<equiv> filter (\<lambda>a. account_at env ws a \<noteq> None) (we_addresses env (ws_all_accounts ws))"
  defines "keys \<equiv> we_slots env (ws_all_storage_slots ws)"
  shows "world_state_snapshot env arena ws = Some (Some
    \<lparr>snap_accounts = map (with_entries env ws keys \<circ> base_snapshot env ws) addrs, snap_account_count = length addrs\<rparr>)"
proof -
  note e = ws_okD(1) [OF assms(1)]
  note it = ws_env_okD(3,4) [OF e ws_okD(6) [OF assms(1)]] ws_env_okD(5,6) [OF e ws_okD(7) [OF assms(1)]]
  have a: "arena n \<noteq> None" for n using assms(2) by (simp add: alloc_total_def)
  define ss where "ss = map (base_snapshot env ws) addrs"
  have addr: "map snap_address ss = addrs" by (simp add: ss_def base_snapshot_def comp_def)
  have ss: "distinct (map snap_address ss)" "\<forall>s \<in> set ss. length (snap_address s) = ADDRESS_SIZE"
    using it(1,2) assms(3) addr by (auto simp: addrs_def known_addresses_def ss_def base_snapshot_def)
  have k: "\<forall>key \<in> set keys. length (wsk_addr key) = ADDRESS_SIZE" using it(4) assms(3) by (simp add: keys_def known_addresses_def)
  define cs where "cs = map (\<lambda>s. length (filter (\<lambda>key. wsk_addr key = snap_address s) keys)) ss"
  have c: "foldl (count_slot ss) (replicate (length ss) 0) keys = cs" unfolding cs_def by (rule count_slots_eq [OF ss k])
  have p: "populate_storage env ws cs keys ss = Some (map (with_entries env ws keys) ss)"
  proof -
    have "map (with_entries env ws []) ss = ss"
      by (simp add: ss_def with_entries_def slot_entries_def base_snapshot_def comp_def)
    then show ?thesis using populate_storage_eq [OF assms(1) ss k, of "[]" cs] by (simp add: cs_def)
  qed
  have n: "(case arena x of None \<Rightarrow> q | Some _ \<Rightarrow> r) = r" for x and q r :: "state_snapshot_t option option"
    using a [of x] by auto
  have s: "snapshot_accounts env arena ws (we_addresses env (ws_all_accounts ws)) [] = Some ss"
    using snapshot_accounts_eq [OF assms(1,2)] by (simp add: ss_def addrs_def)
  have nil: "ss = [] \<longleftrightarrow> addrs = []" "length ss = length addrs" by (simp_all add: ss_def)
  have ex: "\<not> list_ex (\<lambda>n. n > 0 \<and> arena (n * we_sizeof env ''storage_entry_t'') = None) cs" using a by (simp add: list_ex_iff)
  have "we_addresses env (ws_all_accounts ws) = [] \<Longrightarrow> addrs = []" by (simp add: addrs_def)
  then show ?thesis
    unfolding world_state_snapshot_def Let_def keys_def [symmetric] n s option.case
    using nil c p ex by (auto simp: ss_def)
qed

section \<open>Creation\<close>

lemma world_state_create_law:
  assumes "ws_env_ok env" "no_failure nodes"
  shows "\<exists>ws. world_state_create (Some env) nodes = Some ws \<and> ws_ok env ws \<and>
    account_at env ws = Map.empty \<and> (\<forall>a s. storage_at env ws a s = uint256_zero) \<and> known_addresses ws"
proof -
  have y: "\<exists>y. we_alloc env n = Some y" for n using ws_env_okD(1) [OF assms(1)] by (simp add: alloc_total_def)
  have a: "we_alloc env n \<bind> f = f (the (we_alloc env n))" for n and f :: "u8 list \<Rightarrow> world_state_t option"
    using y [of n] by auto
  have b: "mpt_memory_backend_create (Some (we_alloc env)) n = Some \<lparr>mem_root = None\<rparr>" for n
    using y [of n] by (auto simp: mpt_memory_backend_create_def)
  have "mpt_map (mpt_init (Some \<lparr>mem_root = None\<rparr>)) = Map.empty" using new_trie_ok(2) by (simp add: new_trie_def)
  then show ?thesis
    using assms hash_trie_new [of env account_value]
    by (simp add: world_state_create_def a b ws_ok_def account_at_def storage_at_def known_addresses_def fun_eq_iff)
qed


section \<open>What the queries see of a changed account\<close>

lemma changed_account_at:
  assumes "ws_ok env ws" "changed_account env ws addr f ws'" "account_wf (f (account_of (account_at env ws addr)))"
    "acc_storage_root (f (account_of (account_at env ws addr))) = acc_storage_root (account_of (account_at env ws addr))"
  defines "acc \<equiv> f (account_of (account_at env ws addr))"
  shows "ws_get_balance env ws' a = (if we_keccak env a = we_keccak env addr then acc_balance acc else ws_get_balance env ws a)"
    "ws_get_nonce env ws' a = (if we_keccak env a = we_keccak env addr then acc_nonce acc else ws_get_nonce env ws a)"
    "ws_get_code_hash env ws' a = (if we_keccak env a = we_keccak env addr then acc_code_hash acc else ws_get_code_hash env ws a)"
    "ws_get_storage env ws' a s = ws_get_storage env ws a s" "ws_ok env ws'"
proof -
  have st: "stored_account env ws addr acc ws'" "account_wf acc" using assms(2,3) by (simp_all add: changed_account_def acc_def)
  show ok: "ws_ok env ws'" using stored_account_ok [OF st(1)] .
  have e: "acc_balance acc = uint256_zero \<and> acc_nonce acc = 0 \<and> acc_code_hash acc = EMPTY_CODE_HASH" if "account_is_empty acc"
    using account_is_empty_iff [OF st(2)] that by simp
  show "ws_get_balance env ws' a = (if we_keccak env a = we_keccak env addr then acc_balance acc else ws_get_balance env ws a)"
    "ws_get_nonce env ws' a = (if we_keccak env a = we_keccak env addr then acc_nonce acc else ws_get_nonce env ws a)"
    "ws_get_code_hash env ws' a = (if we_keccak env a = we_keccak env addr then acc_code_hash acc else ws_get_code_hash env ws a)"
    using e by (auto simp: get_balance_eq get_nonce_eq get_code_hash_eq ok assms(1) stored_account_at [OF st] account_of_def account_empty_def)
  show "ws_get_storage env ws' a s = ws_get_storage env ws a s"
    using stored_account_storage(1) [OF st(1)] by (simp add: get_storage_eq ok assms(1))
qed

text \<open>Addresses with the same hash have the same account.\<close>

lemma same_hash:
  "ws_ok env ws \<Longrightarrow> we_keccak env a = we_keccak env b \<Longrightarrow> ws_get_balance env ws a = ws_get_balance env ws b \<and>
    ws_get_nonce env ws a = ws_get_nonce env ws b \<and> ws_get_code_hash env ws a = ws_get_code_hash env ws b"
  by (simp add: get_balance_eq get_nonce_eq get_code_hash_eq account_at_def)

end
