(* ===== verification/World_State_Props.thy ===== *)
theory World_State_Props
  imports World_State_Laws "HOL-Library.List_Lexorder"
begin

text \<open>
  The properties of the world state: its invariant, the balances, the storage, the state root and the
  export, with a sample environment on which they are evaluated.
\<close>

section \<open>A sample\<close>

text \<open>An environment of the world state: hashes pad to 32 bytes, and sets are traversed in order.\<close>

definition slot_code :: "warm_slot_key_t \<Rightarrow> u8 list" where
  "slot_code key = uint256_to_bytes_be (wsk_slot key) @ wsk_addr key"

definition sample_env :: ws_env where
  "sample_env = \<lparr>we_alloc = \<lambda>n. Some (replicate n 0), we_keccak = \<lambda>xs. take 32 (xs @ replicate 32 0), we_sizeof = \<lambda>_. 8,
     we_addresses = sorted_list_of_set,
     we_slots = \<lambda>S. map (\<lambda>xs. \<lparr>wsk_addr = drop 32 xs, wsk_slot = uint256_from_bytes_be (take 32 xs)\<rparr>)
       (sorted_list_of_set (slot_code ` S))\<rparr>"

lemma sample_env_ok: "ws_env_ok sample_env"
proof -
  let ?d = "\<lambda>xs. \<lparr>wsk_addr = drop 32 xs, wsk_slot = uint256_from_bytes_be (take 32 xs)\<rparr> :: warm_slot_key_t"
  have d: "?d (slot_code key) = key" for key by (cases key) (simp add: slot_code_def from_to_bytes)
  have "inj_on ?d (slot_code ` S)" for S by (rule inj_on_inverseI [where g = slot_code]) (auto simp: d)
  moreover have "?d ` slot_code ` S = S" for S by (simp add: d image_image)
  ultimately show ?thesis
    by (simp add: ws_env_ok_def sample_env_def alloc_total_def alloc_sound_def HASH_SIZE_def distinct_map min_def)
qed

definition sample_world :: world_state_t where
  "sample_world = the (world_state_create (Some sample_env) [])"

lemma sample_world_ok: "ws_ok sample_env sample_world"
  using world_state_create_law [OF sample_env_ok, of "[]"] by (auto simp: sample_world_def no_failure_def)

lemma sample_world_known: "known_addresses sample_world" "account_at sample_env sample_world a = None"
  using world_state_create_law [OF sample_env_ok, of "[]"] by (auto simp: sample_world_def no_failure_def)

lemma sample_world_dirty: "ws_dirty_storage sample_world = {}"
  by (simp add: sample_world_def world_state_create_def sample_env_def mpt_memory_backend_create_def)


section \<open>Properties\<close>



text \<open>
  C6: the balances are a map from addresses, which are told apart by their hashes: setting, adding
  to and subtracting from the balance of an address changes no other balance, no nonce, no code hash
  and no storage; an addition fails exactly when the sum has more than 256 bits, a subtraction
  exactly when the balance is too small, and then nothing changes.
\<close>

theorem world_state_balances:
  assumes "ws_ok env ws"
  defines "b \<equiv> ws_get_balance env ws" and "changed \<equiv> \<lambda>addr v ws'. (\<forall>a. ws_get_balance env ws' a =
      (if we_keccak env a = we_keccak env addr then v else ws_get_balance env ws a) \<and>
    ws_get_nonce env ws' a = ws_get_nonce env ws a \<and> ws_get_code_hash env ws' a = ws_get_code_hash env ws a \<and>
    (\<forall>s. ws_get_storage env ws' a s = ws_get_storage env ws a s))"
  shows "(\<exists>ws'. ws_set_balance env ws addr v = Some ws' \<and> changed addr v ws') \<and>
    (if uval (b addr) + uval v < 2 ^ 256
     then \<exists>ws'. ws_add_balance env ws addr v = Some (True, ws') \<and> changed addr (uint256_add (b addr) v) ws'
     else ws_add_balance env ws addr v = Some (False, ws)) \<and>
    (if uval v \<le> uval (b addr)
     then \<exists>ws'. ws_sub_balance env ws addr v = Some (True, ws') \<and> changed addr (uint256_sub (b addr) v) ws'
     else ws_sub_balance env ws addr v = Some (False, ws))"
proof -
  have b: "b addr = acc_balance (account_of (account_at env ws addr))" by (simp add: b_def get_balance_eq [OF assms(1)])
  have ch: "changed addr x ws'" if "changed_account env ws addr (acc_balance_update (\<lambda>_. x)) ws'" for x ws'
  proof -
    have "account_wf ((account_of (account_at env ws addr))\<lparr>acc_balance := x\<rparr>)" using account_of_wf [OF assms(1)] by simp
    note c = changed_account_at [OF assms(1) that this, simplified]
    have "ws_get_balance env ws' a = (if we_keccak env a = we_keccak env addr then x else ws_get_balance env ws a) \<and>
        ws_get_nonce env ws' a = ws_get_nonce env ws a \<and> ws_get_code_hash env ws' a = ws_get_code_hash env ws a" for a
      using c(1-3) [of a] same_hash [OF assms(1), of a addr] get_nonce_eq [OF assms(1), of addr] get_code_hash_eq [OF assms(1), of addr] by auto
    then show ?thesis using c(4) by (simp add: changed_def)
  qed
  have none: "changed addr (uint256_sub (b addr) v) ws" if "account_at env ws addr = None" "uval v \<le> uval (b addr)"
  proof -
    have "uval (b addr) = 0" using that(1) b by (simp add: account_of_def account_empty_def)
    then have "uint256_sub (b addr) v = b addr" using that(2) uval_bounds [of v] by (simp add: uval_sub flip: uval_inject)
    moreover have "ws_get_balance env ws a = (if we_keccak env a = we_keccak env addr then b addr else ws_get_balance env ws a)" for a
      using same_hash [OF assms(1), of a addr] by (auto simp: b_def)
    ultimately show ?thesis by (simp add: changed_def)
  qed
  have "if uval v \<le> uval (b addr)
     then \<exists>ws'. ws_sub_balance env ws addr v = Some (True, ws') \<and> changed addr (uint256_sub (b addr) v) ws'
     else ws_sub_balance env ws addr v = Some (False, ws)"
    using sub_balance_law [OF assms(1) b, of v] ch none by (metis (full_types))
  moreover have "if uval (b addr) + uval v < 2 ^ 256
     then \<exists>ws'. ws_add_balance env ws addr v = Some (True, ws') \<and> changed addr (uint256_add (b addr) v) ws'
     else ws_add_balance env ws addr v = Some (False, ws)"
    using add_balance_law [OF assms(1) b, of v] ch by (metis (full_types))
  moreover have "\<exists>ws'. ws_set_balance env ws addr v = Some ws' \<and> changed addr v ws'"
    using set_balance_law [OF assms(1), of addr v] ch by blast
  ultimately show ?thesis by blast
qed

theorem world_state_balances_witness:
  "\<exists>ws. ws_add_balance sample_env sample_world (replicate 20 1) (uint256_from_u64 5) = Some (True, ws) \<and>
     ws_get_balance sample_env ws (replicate 20 1) = uint256_from_u64 5 \<and>
     ws_get_balance sample_env ws (replicate 20 2) = ws_get_balance sample_env sample_world (replicate 20 2)"
proof -
  have z: "ws_get_balance sample_env sample_world a = uint256_zero" for a
    using get_balance_eq [OF sample_world_ok, of a] world_state_create_law [OF sample_env_ok, of "[]"]
    by (auto simp: sample_world_def no_failure_def account_of_def account_empty_def)
  have k: "we_keccak sample_env (replicate 20 2) \<noteq> we_keccak sample_env (replicate 20 1)" by (simp add: sample_env_def)
  have "uint256_add uint256_zero (uint256_from_u64 5) = uint256_from_u64 5" "uval (uint256_from_u64 5) < 2 ^ 256" by code_simp+
  then show ?thesis using world_state_balances [OF sample_world_ok, of "replicate 20 1" "uint256_from_u64 5"] z k by auto
qed

text \<open>
  C13: writing a slot and reading it: the slot has the new value, every other slot of the address
  (with another hash) and of other addresses keeps its value, the value the slot had at the start of
  the transaction is the same before and after the write, and no balance changes.
\<close>

theorem world_state_storage:
  assumes "ws_ok env ws"
  shows "\<exists>ws'. ws_set_storage env ws addr s v = Some ws' \<and>
    (\<forall>a t. ws_get_storage env ws' a t =
      (if a = addr \<and> we_keccak env (uint256_to_bytes_be t) = we_keccak env (uint256_to_bytes_be s) then v else ws_get_storage env ws a t)) \<and>
    ws_get_original_storage env ws' addr s = ws_get_original_storage env ws addr s \<and>
    (\<forall>a. ws_get_balance env ws' a = ws_get_balance env ws a) \<and> addr \<in> ws_dirty_storage ws'"
proof -
  obtain ws' where ws': "ws_set_storage env ws addr s v = Some ws'" "stored_slot env ws addr s v ws'"
    using set_storage_law [OF assms] by blast
  have ok: "ws_ok env ws'" using ws'(2) by (simp add: stored_slot_def)
  have "ws_get_original_storage env ws' addr s = ws_get_original_storage env ws addr s" "addr \<in> ws_dirty_storage ws'"
    using ws'(2) by (auto simp: stored_slot_def ws_get_original_storage_def get_storage_eq [OF assms] split: option.split)
  then show ?thesis
    using ws' set_storage_accounts [OF ws'(2)]
    by (auto simp: get_storage_eq ok assms get_balance_eq stored_slot_def)
qed

theorem world_state_storage_witness:
  "\<exists>ws. ws_set_storage sample_env sample_world (replicate 20 1) uint256_zero (uint256_from_u64 5) = Some ws \<and>
     ws_get_storage sample_env ws (replicate 20 1) uint256_zero = uint256_from_u64 5"
  using world_state_storage [OF sample_world_ok, of "replicate 20 1" uint256_zero "uint256_from_u64 5"] by auto





text \<open>
  C40: a second call that sets the code of an address keeps the old code, because the insertion into
  the hash table does not replace a value, while the account gets the hash of the new code.
\<close>

theorem world_state_set_code_keeps_old:
  assumes "ws_ok env ws" "length code < 2 ^ 62" "ws_code_store ws addr = Some old" "code \<noteq> []"
  shows "\<exists>ws'. ws_set_code env ws addr code = Some ws' \<and> ws_get_code env ws' addr = old \<and>
    ws_get_code_hash env ws' addr = we_keccak env code"
proof -
  obtain ws' ws1 store where w: "ws_set_code env ws addr code = Some ws'"
      "changed_account env ws1 addr (acc_code_hash_update (\<lambda>_. we_keccak env code)) ws'" "ws1 = ws\<lparr>ws_code_store := store\<rparr>"
      "store = ws_code_store ws"
    using set_code_law [OF assms(1,2), of addr] assms(3,4) by auto
  have ws1: "ws1 = ws" using w(3,4) by simp
  have wf: "account_wf ((account_of (account_at env ws addr))\<lparr>acc_code_hash := we_keccak env code\<rparr>)"
    using account_of_wf [OF assms(1), of addr] ws_env_okD(2) [OF ws_okD(1) [OF assms(1)]] by (simp add: account_wf_def HASH_SIZE_def)
  note c = changed_account_at [OF assms(1) w(2) [unfolded ws1] wf]
  have "ws_code_store ws' = ws_code_store ws"
    using stored_account_storage(3) w(2) unfolding ws1 changed_account_def by blast
  then show ?thesis using w(1) c(3) [of addr] assms(3) by (auto simp: ws_get_code_def)
qed

theorem world_state_set_code_keeps_old_witness:
  "\<exists>ws'. ws_set_code sample_env (sample_world\<lparr>ws_code_store := [replicate 20 1 \<mapsto> bytes_init]\<rparr>) (replicate 20 1) [0x5B] = Some ws' \<and>
     ws_get_code sample_env ws' (replicate 20 1) = bytes_init"
proof -
  have "ws_ok sample_env (sample_world\<lparr>ws_code_store := [replicate 20 1 \<mapsto> bytes_init]\<rparr>)"
    using sample_world_ok by (auto simp: ws_ok_def bytes_init_def bytes_contents_def split: if_splits)
  from world_state_set_code_keeps_old [OF this, of "[0x5B]" "replicate 20 1" bytes_init] show ?thesis by auto
qed

end
