(* ===== verification/Evm_World.thy ===== *)
theory Evm_World
  imports Evm_Guarded World_State_Props Uint256_Arith
begin

text \<open>
  The EVM on the world state: the laws of the interpreter for the state of \<open>src/state/world_state.c\<close>,
  and what the opcodes for words compute.
\<close>

unbundle bit_operations_syntax

interpretation ws_provider: state_provider "WORLD_STATE_VTABLE env" "ws_ok env" for env
  by (rule world_state_provider)

text \<open>An EVM for a fork with a world state.\<close>

definition evm_on :: "arena_t \<Rightarrow> fork_t \<Rightarrow> ws_env \<Rightarrow> world_state_t \<Rightarrow> world_state_t evm_t" where
  "evm_on arena fork wenv ws = evm_set_state (evm_init arena fork) (Some (world_state_access wenv ws))"

lemma evm_on_ready:
  assumes "ws_ok wenv ws"
  shows "evm_ready (WORLD_STATE_VTABLE wenv) (ws_ok wenv) (evm_on arena fork wenv ws)"
proof -
  have "evm_gas_table (evm_on arena fork wenv ws) = gas_table_init_shanghai"
    by (simp add: evm_on_def evm_set_state_def evm_init_def gas_table_init_cancun_def gas_table_init_prague_def split: fork_t.split)
  then show ?thesis
    using assms jump_costs unfolding evm_ready_def
    by (simp add: evm_on_def evm_set_state_def evm_init_def world_state_access_def provided_def)
qed

text \<open>The result of an execution: not more gas than the call has, and a world state.\<close>

definition executed_on :: "ws_env \<Rightarrow> u64 \<Rightarrow> evm_execution_result_t \<times> world_state_t evm_t \<Rightarrow> bool" where
  "executed_on wenv gas = (\<lambda>(r, evm). er_gas_used r \<le> gas \<and>
     (\<forall>state. evm_state evm = Some state \<longrightarrow> (\<exists>ws. state = world_state_access wenv ws \<and> ws_ok wenv ws)))"

lemma executed_world: "executed (WORLD_STATE_VTABLE wenv) (ws_ok wenv) gas re \<Longrightarrow> executed_on wenv gas re"
  by (auto simp: executed_def executed_on_def provided_def world_state_access_def) (metis (full_types) state_access_t.surjective old.unit.exhaust)


section \<open>Opcodes on words\<close>

text \<open>The operation of 256-bit words an opcode with two operands stands for.\<close>

definition flag :: "bool \<Rightarrow> 256 word" where
  "flag b = (if b then 1 else 0)"

fun word_operation :: "opcode_t \<Rightarrow> (256 word \<Rightarrow> 256 word \<Rightarrow> 256 word) option" where
  "word_operation OP_MUL = Some (*)"
| "word_operation OP_SUB = Some (-)"
| "word_operation OP_DIV = Some (div)"
| "word_operation OP_MOD = Some (\<lambda>a b. if b = 0 then 0 else a mod b)"
| "word_operation OP_SDIV = Some (\<lambda>a b. word_of_int (sint a sdiv sint b))"
| "word_operation OP_SMOD = Some (\<lambda>a b. if b = 0 then 0 else word_of_int (sint a smod sint b))"
| "word_operation OP_SIGNEXTEND = Some (\<lambda>k a. signed_take_bit (8 * unat k + 7) a)"
| "word_operation OP_AND = Some (AND)"
| "word_operation OP_OR = Some (OR)"
| "word_operation OP_XOR = Some (XOR)"
| "word_operation OP_BYTE = Some (\<lambda>i a. if unat i < 32 then take_bit 8 (drop_bit (8 * (31 - unat i)) a) else 0)"
| "word_operation OP_SHL = Some (\<lambda>s a. push_bit (unat s) a)"
| "word_operation OP_SHR = Some (\<lambda>s a. drop_bit (unat s) a)"
| "word_operation OP_SAR = Some (\<lambda>s a. signed_drop_bit (unat s) a)"
| "word_operation OP_LT = Some (\<lambda>a b. flag (a < b))"
| "word_operation OP_GT = Some (\<lambda>a b. flag (b < a))"
| "word_operation OP_SLT = Some (\<lambda>a b. flag (sint a < sint b))"
| "word_operation OP_SGT = Some (\<lambda>a b. flag (sint b < sint a))"
| "word_operation OP_EQ = Some (\<lambda>a b. flag (a = b))"
| "word_operation _ = None"

lemma w256_truth: "w256 (truth b) = flag b"
  by (simp add: truth_def flag_def w256_from_u64)

lemma w256_div: "w256 (uint256_div a b) = w256 a div w256 b"
  by (rule w256_eqI) (simp add: uval_div uint_div_distrib)

lemma w256_mod: "w256 (uint256_mod a b) = (if w256 b = 0 then 0 else w256 a mod w256 b)"
proof -
  have "w256 b = 0 \<longleftrightarrow> uval b = 0" by (simp add: w256_inject [of b uint256_zero, simplified] flip: uval_inject)
  then show ?thesis by (intro w256_eqI) (simp add: uval_mod uint_mod_distrib)
qed

lemma word_operation_handler:
  assumes "word_operation op = Some f"
  shows "\<exists>g. dispatch_table keccak (opcode op) = frame_handler (op_binary g) op \<and> (\<forall>a b. w256 (g a b) = f (w256 a) (w256 b))"
  using assms
  by (cases op rule: word_operation.cases)
    (auto simp: dispatch_table_def handlers_def arithmetic_handlers_def logic_handlers_def op_defs
      mul.refines sub.refines w256_div w256_mod w256_sdiv w256_smod w256_signextend and_.refines or_.refines xor_.refines w256_byte
      w256_shl w256_shr w256_sar w256_truth uint256_lt_word uint256_gt_def uint256_slt_word uint256_sgt_def word_sless_alt w256_inject
      intro!: exI conjI)


text \<open>The operands are the two items on top of the stack; the result replaces them.\<close>

lemma op_binary_cases:
  assumes "live fr"
  shows "op_binary g fr c = (case frame_items fr of
      a # b # xs \<Rightarrow> if fr_gas fr < c then Some (EVM_OUT_OF_GAS, fr)
        else Some (EVM_OK, fr\<lparr>fr_gas := fr_gas fr - c, fr_stack := map_option (stack_items_update (\<lambda>_. g a b # xs)) (fr_stack fr)\<rparr>)
    | _ \<Rightarrow> Some (EVM_STACK_UNDERFLOW, fr))"
proof -
  obtain s where s: "fr_stack fr = Some s" "stack_wf s" using assms by (auto simp: live_def kept_def at_def)
  then show ?thesis
    by (auto simp: op_binary_def frame_has_items_def evm_stack_has_items_def evm_stack_size_def frame_items_def with_gas_def
      frame_pop_def frame_push_def evm_stack_pop_unsafe_def evm_stack_push_unsafe_def stack_wf_def split: list.split)
qed

lemma live_pc: "live fr \<Longrightarrow> live (fr\<lparr>fr_pc := pc\<rparr>)"
  by (auto simp: live_def kept_def at_def)

lemma op_binary_step:
  fixes evm :: "'s evm_t"
  assumes "live fr" "length (fr_code fr) < 2 ^ 62" "unat (fr_pc fr) < length (fr_code fr)"
    "dispatch_table keccak (fr_code fr ! unat (fr_pc fr)) = (frame_handler (op_binary g) op :: 's handler)"
  shows "frame_step keccak evm fr = Some (let fr = fr\<lparr>fr_pc := fr_pc fr + 1\<rparr>; c = evm_gas_table evm (opcode op) in
    case frame_items fr of
      a # b # xs \<Rightarrow> if fr_gas fr < c then Done (frame_result_error EVM_OUT_OF_GAS) evm fr
        else Next evm (fr\<lparr>fr_gas := fr_gas fr - c, fr_stack := map_option (stack_items_update (\<lambda>_. g a b # xs)) (fr_stack fr)\<rparr>)
    | _ \<Rightarrow> Done (frame_result_error EVM_STACK_UNDERFLOW) evm fr)"
  using assms(3) code_size_less [OF assms(2)]
  by (simp add: frame_step_def assms(4) frame_handler_def op_binary_cases [OF live_pc [OF assms(1)]] Let_def after_op_def split: list.split)

definition frame_words :: "call_frame_t \<Rightarrow> 256 word list" where
  "frame_words fr = map w256 (frame_items fr)"


section \<open>Samples\<close>

text \<open>A frame with code, stack and gas, and an arena with room.\<close>

definition sample_arena :: arena_t where
  "sample_arena = \<lparr>arena_blocks = [\<lparr>block_addr = 0x1000, block_offset = 0\<rparr>], arena_current = 0, arena_large = [], arena_heap = []\<rparr>"

definition sample_frame :: "u8 list \<Rightarrow> uint256_t list \<Rightarrow> u64 \<Rightarrow> call_frame_t" where
  "sample_frame code xs gas =
     \<lparr>fr_pc = 0, fr_gas = gas, fr_stack = Some \<lparr>stack_items = xs, stack_capacity = 32\<rparr>, fr_memory = Some evm_memory_init,
      fr_code = code, fr_output_offset = 0, fr_output_size = 0, fr_depth = 0, fr_exec_type = EXEC_TX_START, fr_is_static = False,
      fr_caller = address_zero, fr_address = address_zero, fr_value = uint256_zero, fr_input = [], fr_jumpdest_bitmap = None,
      fr_code_hash = hash_zero, fr_arena = sample_arena\<rparr>"

lemma sample_frame_live: "length xs \<le> 32 \<Longrightarrow> live (sample_frame code xs gas)"
  by (simp add: live_def kept_def at_def sample_frame_def stack_wf_def evm_stack_size_def mem_wf_def evm_memory_init_def)

lemma sample_frame_ok: "length xs \<le> 32 \<Longrightarrow> length code < 2 ^ 62 \<Longrightarrow> frame_ok (sample_frame code xs gas)"
  using sample_frame_live [of xs code gas]
  by (simp add: frame_ok_def) (simp add: sample_frame_def mem_wf_def evm_memory_init_def)

definition sample_call :: "u8 list \<Rightarrow> u64 \<Rightarrow> execution_env_t" where
  "sample_call code gas = execution_env_init\<lparr>env_block := Some block_context_init,
     env_call := call_params_init\<lparr>cp_code := code, cp_gas := gas\<rparr>\<rparr>"

definition sample_evm :: "world_state_t evm_t" where
  "sample_evm = evm_on sample_arena FORK_SHANGHAI sample_env sample_world"

lemma sample_stack: "fst (evm_stack_pool_borrow sample_arena) \<noteq> None"
  by code_simp

lemma upt_0_5: "[0..<5] = [0, 1, 2, 3, 4 :: nat]"
  by (simp add: upt_rec)

lemma sample_guarded: "guarded_code [0x5B, 0x60, 0, 0x56]" "guarded_code [0x60, 7, 0x50]"
  unfolding guarded_code_def unguarded_def upt_1_17 upt_0_5 by simp_all

lemma sample_call_code: "cp_code (env_call (sample_call code gas)) = code"
  by (simp add: sample_call_def)

lemma sample_call_ok: "length code < 2 ^ 62 \<Longrightarrow> env_ok (sample_call code gas)"
  by (simp add: env_ok_def sample_call_def execution_env_init_def call_params_init_def)


text \<open>A machine about to execute a JUMPDEST, and after it.\<close>

lemma jumpdest_step:
  assumes "fr_code fr = [0x5B]" "fr_pc fr = 0" "evm_gas_table evm (opcode OP_JUMPDEST) \<le> fr_gas fr"
  shows "frame_step keccak evm fr = Some (Next evm (fr\<lparr>fr_pc := 1, fr_gas := fr_gas fr - evm_gas_table evm (opcode OP_JUMPDEST)\<rparr>))"
proof -
  have "dispatch_table keccak (opcode OP_JUMPDEST) = (frame_handler op_jumpdest OP_JUMPDEST :: 'a handler)"
    unfolding dispatch_table_def handlers_def arithmetic_handlers_def logic_handlers_def push_handlers_def context_handlers_def
      block_handlers_def stack_handlers_def memory_handlers_def control_handlers_def upt_1_17 upt_1_33 by simp
  then show ?thesis
    using assms by (simp add: frame_step_def fr_code_size_def frame_handler_def op_jumpdest_def with_gas_def after_op_def not_less)
qed

definition sample_config :: "world_state_t config" where
  "sample_config = root_config sample_evm (sample_call [0x5B] 100) (sample_frame [] [] 0)"

lemma sample_config_step:
  obtains evm fr where "sample_config = (evm, fr, [])" "machine_ok (WORLD_STATE_VTABLE sample_env) (ws_ok sample_env) (evm, fr, [])"
    "fr_pc fr = 0" "fr_stack fr \<noteq> None" "fr_code fr = [0x5B]"
    "frame_step keccak evm fr = Some (Next evm (fr\<lparr>fr_pc := 1, fr_gas := 99\<rparr>))"
proof -
  obtain evm fr where c: "sample_config = (evm, fr, [])" "fr_pc fr = 0" "fr_code fr = [0x5B]" "fr_gas fr = 100"
      "fr_stack fr \<noteq> None" "evm_gas_table evm = evm_gas_table sample_evm"
    using sample_stack
    by (auto simp: sample_config_def root_config_def init_root_frame_def Let_def case_prod_beta sample_call_def sample_evm_def evm_on_def
      evm_set_state_def evm_init_def)
  have "evm_gas_table sample_evm (opcode OP_JUMPDEST) = 1"
    unfolding sample_evm_def evm_on_def evm_set_state_def evm_init_def gas_table_init_shanghai_def static_costs_def upt_1_17 upt_1_33
    by simp
  then have "frame_step keccak evm fr = Some (Next evm (fr\<lparr>fr_pc := 1, fr_gas := 99\<rparr>))"
    using jumpdest_step [OF c(3,2), of evm keccak] c(4,6) by simp
  moreover have "machine_ok (WORLD_STATE_VTABLE sample_env) (ws_ok sample_env) (evm, fr, [])"
    using root_ok(1) [OF evm_on_ready [OF sample_world_ok] sample_call_ok, of "[0x5B]" sample_arena FORK_SHANGHAI 100 "sample_frame [] [] 0"] c(1)
    by (simp add: sample_config_def sample_evm_def)
  ultimately show ?thesis using that c by blast
qed

lemma sample_config_safe: "sample_config = (evm, fr, []) \<Longrightarrow> fr_code fr = [0x5B] \<Longrightarrow> fr_pc fr = 0 \<Longrightarrow> fr_stack fr \<noteq> None \<Longrightarrow> \<not> frame_hazard fr"
  unfolding frame_hazard_def unguarded_def upt_1_17 upt_0_5 by simp


section \<open>Properties\<close>

text \<open>
  C3: an execution of the interpreter on the world state, with calls to other contracts, returns
  when no configuration it reaches is hazardous.  It does not use more gas than the call has, and
  the state it leaves is a well-formed world state.  A hazardous configuration is one whose next
  opcode accesses memory or the stack beyond what is allocated.
\<close>

theorem evm_execution_safe:
  assumes "ws_ok wenv ws" "env_ok env" "safe_from keccak (root_config (evm_on arena fork wenv ws) env frame)"
  shows "\<exists>r evm'. evm_execute_env keccak (evm_on arena fork wenv ws) env frame = Some (r, evm') \<and>
    executed_on wenv (cp_gas (env_call env)) (r, evm')"
  using ok_defined [OF ws_provider.execute_law [OF evm_on_ready [OF assms(1)] assms(2,3)]] executed_world by fastforce

text \<open>
  C5: an execution of code without the opcodes that access memory, call, log, duplicate or return
  data always returns, also when the code contains a loop without end: it runs out of gas.
\<close>

theorem evm_execution_returns:
  assumes "ws_ok wenv ws" "env_ok env" "guarded_code (cp_code (env_call env))" "fst (evm_stack_pool_borrow arena) \<noteq> None"
  shows "\<exists>r evm'. evm_execute_env keccak (evm_on arena fork wenv ws) env frame = Some (r, evm') \<and>
    executed_on wenv (cp_gas (env_call env)) (r, evm')"
proof -
  have "fst (evm_stack_pool_borrow (evm_arena (evm_on arena fork wenv ws))) \<noteq> None"
    using assms(4) by (simp add: evm_on_def evm_set_state_def evm_init_def)
  note safe = ws_provider.guarded_safe [OF evm_on_ready [OF assms(1)] assms(2,3) this]
  show ?thesis
    using ok_defined [OF ws_provider.execute_law [OF evm_on_ready [OF assms(1)] assms(2) safe]] executed_world by fastforce
qed

theorem evm_execution_returns_witness:
  "\<exists>r evm'. evm_execute_env (\<lambda>_. replicate 32 0) (evm_on sample_arena FORK_SHANGHAI sample_env sample_world)
     (sample_call [0x5B, 0x60, 0, 0x56] 100000) (sample_frame [] [] 0) = Some (r, evm') \<and> er_gas_used r \<le> 100000"
proof -
  have "guarded_code (cp_code (env_call (sample_call [0x5B, 0x60, 0, 0x56] 100000)))"
    unfolding sample_call_code by (rule sample_guarded)
  from evm_execution_returns [OF sample_world_ok sample_call_ok this sample_stack]
  show ?thesis by (fastforce simp: executed_on_def sample_call_def)
qed

theorem evm_execution_safe_witness:
  "\<exists>r evm'. evm_execute_env (\<lambda>_. replicate 32 0) (evm_on sample_arena FORK_CANCUN sample_env sample_world)
     (sample_call [0x60, 7, 0x50] 100) (sample_frame [] [] 0) = Some (r, evm') \<and> er_gas_used r \<le> 100"
proof -
  let ?evm = "evm_on sample_arena FORK_CANCUN sample_env sample_world" and ?env = "sample_call [0x60, 7, 0x50] 100"
  have g: "guarded_code (cp_code (env_call ?env))" unfolding sample_call_code by (rule sample_guarded)
  have e: "env_ok ?env" by (rule sample_call_ok) simp
  have "fst (evm_stack_pool_borrow (evm_arena ?evm)) \<noteq> None"
    using sample_stack by (simp add: evm_on_def evm_set_state_def evm_init_def)
  from evm_execution_safe [OF sample_world_ok e ws_provider.guarded_safe [OF evm_on_ready [OF sample_world_ok] e g this]]
  show ?thesis by (fastforce simp: executed_on_def sample_call_def)
qed







text \<open>
  C39: DUP copies an item to a slot that the stack may not have: it compares the number of items with
  1024, while the array of a young stack has 32 slots, and unlike PUSH it does not let it grow.
\<close>

theorem evm_dup_out_of_bounds:
  assumes "live fr" "length (fr_code fr) < 2 ^ 62" "unat (fr_pc fr) < length (fr_code fr)"
    "fr_code fr ! unat (fr_pc fr) = opcode (OP_DUP 1)" "evm_gas_table evm (opcode (OP_DUP 1)) \<le> fr_gas fr"
    "fr_stack fr = Some stack" "evm_stack_size stack = stack_capacity stack" "evm_stack_size stack < EVM_STACK_MAX_DEPTH"
  shows "frame_step keccak evm fr = None"
proof -
  have "dispatch_table keccak (opcode (OP_DUP 1)) = (frame_handler (\<lambda>frame. op_dup frame 1) (OP_DUP 1) :: 'a handler)"
    unfolding dispatch_table_def handlers_def arithmetic_handlers_def logic_handlers_def push_handlers_def context_handlers_def
      block_handlers_def stack_handlers_def upt_1_17 upt_1_33 by simp
  moreover have "stack_wf stack" using assms(1,6) by (auto simp: live_def kept_def at_def)
  ultimately show ?thesis
    using assms code_size_less [OF assms(2)]
    by (simp add: frame_step_def frame_handler_def op_dup_def frame_has_items_def frame_has_space_def evm_stack_has_items_def
      evm_stack_has_space_def with_gas_def evm_stack_dup_unsafe_def stack_wf_def not_less)
qed

theorem evm_dup_out_of_bounds_witness:
  "frame_step (\<lambda>_. []) sample_evm (sample_frame [0x80] (replicate 32 uint256_zero) 100) = None"
proof -
  let ?fr = "sample_frame [0x80] (replicate 32 uint256_zero) 100"
  have g: "evm_gas_table sample_evm (opcode (OP_DUP 1)) = 3"
    unfolding sample_evm_def evm_on_def evm_set_state_def evm_init_def gas_table_init_shanghai_def static_costs_def upt_1_17 upt_1_33
    by simp
  have l: "live ?fr" by (rule sample_frame_live) simp
  have "fr_stack ?fr = Some \<lparr>stack_items = replicate 32 uint256_zero, stack_capacity = 32\<rparr>" by (simp add: sample_frame_def)
  from evm_dup_out_of_bounds [OF l _ _ _ _ this, of sample_evm "\<lambda>_. []"] g
  show ?thesis by (simp add: evm_stack_size_def EVM_STACK_MAX_DEPTH_def) (simp add: sample_frame_def)
qed

end
