(* ===== verification/Transaction.thy ===== *)
theory Transaction
  imports Rlp_Decode
begin

text \<open>
  Transactions, \<open>include/div0/ethereum/transaction/*.h\<close>: the five kinds with their fields and the
  functions that read them.  An array with its count is a list; a pointer that may be null is an option.
  The tagged union \<open>transaction_t\<close> is a datatype with one constructor per tag.
\<close>

definition hash_from_bytes :: "u8 list \<Rightarrow> hash_t" where
  "hash_from_bytes d = take HASH_SIZE d"


section \<open>Access lists and authorizations\<close>

record access_list_entry_t =
  ale_address :: address_t
  ale_storage_keys :: "uint256_t list"

record access_list_t =
  al_entries :: "access_list_entry_t list"

definition access_list_init :: access_list_t where
  "access_list_init = \<lparr>al_entries = []\<rparr>"

definition access_list_total_keys :: "access_list_t \<Rightarrow> u64" where
  "access_list_total_keys list = foldl (\<lambda>total entry. total + of_nat (length (ale_storage_keys entry))) 0 (al_entries list)"

record authorization_t =
  au_chain_id :: u64
  au_address :: address_t
  au_nonce :: u64
  au_y_parity :: u8
  au_r :: uint256_t
  au_s :: uint256_t

record authorization_list_t =
  aul_entries :: "authorization_t list"

definition authorization_list_init :: authorization_list_t where
  "authorization_list_init = \<lparr>aul_entries = []\<rparr>"

definition authorization_recovery_id :: "authorization_t \<Rightarrow> int" where
  "authorization_recovery_id auth = uint (au_y_parity auth)"


section \<open>The kinds of transaction\<close>

record legacy_tx_t =
  lt_nonce :: u64
  lt_gas_price :: uint256_t
  lt_gas_limit :: u64
  lt_to :: "address_t option"
  lt_value :: uint256_t
  lt_data :: bytes_t
  lt_v :: u64
  lt_r :: uint256_t
  lt_s :: uint256_t

definition legacy_tx_init :: legacy_tx_t where
  "legacy_tx_init = \<lparr>lt_nonce = 0, lt_gas_price = uint256_zero, lt_gas_limit = 0, lt_to = None,
     lt_value = uint256_zero, lt_data = bytes_init, lt_v = 0, lt_r = uint256_zero, lt_s = uint256_zero\<rparr>"

text \<open>The chain id, if the signature has one.\<close>

definition legacy_tx_chain_id :: "legacy_tx_t \<Rightarrow> u64 option" where
  "legacy_tx_chain_id tx =
     (if lt_v tx = 27 \<or> lt_v tx = 28 then None
      else if lt_v tx \<ge> 35 then Some ((lt_v tx - 35) div 2)
      else None)"

definition legacy_tx_recovery_id :: "legacy_tx_t \<Rightarrow> int" where
  "legacy_tx_recovery_id tx =
     (if lt_v tx = 27 \<or> lt_v tx = 28 then uint (lt_v tx - 27) else uint ((lt_v tx - 35) mod 2))"

definition legacy_tx_is_create :: "legacy_tx_t \<Rightarrow> bool" where
  "legacy_tx_is_create tx \<longleftrightarrow> lt_to tx = None"

record eip2930_tx_t =
  t1_chain_id :: u64
  t1_nonce :: u64
  t1_gas_price :: uint256_t
  t1_gas_limit :: u64
  t1_to :: "address_t option"
  t1_value :: uint256_t
  t1_data :: bytes_t
  t1_access_list :: access_list_t
  t1_y_parity :: u8
  t1_r :: uint256_t
  t1_s :: uint256_t

definition eip2930_tx_init :: eip2930_tx_t where
  "eip2930_tx_init = \<lparr>t1_chain_id = 0, t1_nonce = 0, t1_gas_price = uint256_zero, t1_gas_limit = 0,
     t1_to = None, t1_value = uint256_zero, t1_data = bytes_init, t1_access_list = access_list_init,
     t1_y_parity = 0, t1_r = uint256_zero, t1_s = uint256_zero\<rparr>"

definition eip2930_tx_recovery_id :: "eip2930_tx_t \<Rightarrow> int" where
  "eip2930_tx_recovery_id tx = uint (t1_y_parity tx)"

definition eip2930_tx_is_create :: "eip2930_tx_t \<Rightarrow> bool" where
  "eip2930_tx_is_create tx \<longleftrightarrow> t1_to tx = None"

record eip1559_tx_t =
  t2_chain_id :: u64
  t2_nonce :: u64
  t2_max_priority_fee_per_gas :: uint256_t
  t2_max_fee_per_gas :: uint256_t
  t2_gas_limit :: u64
  t2_to :: "address_t option"
  t2_value :: uint256_t
  t2_data :: bytes_t
  t2_access_list :: access_list_t
  t2_y_parity :: u8
  t2_r :: uint256_t
  t2_s :: uint256_t

definition eip1559_tx_init :: eip1559_tx_t where
  "eip1559_tx_init = \<lparr>t2_chain_id = 0, t2_nonce = 0, t2_max_priority_fee_per_gas = uint256_zero,
     t2_max_fee_per_gas = uint256_zero, t2_gas_limit = 0, t2_to = None, t2_value = uint256_zero,
     t2_data = bytes_init, t2_access_list = access_list_init, t2_y_parity = 0, t2_r = uint256_zero,
     t2_s = uint256_zero\<rparr>"

definition eip1559_tx_recovery_id :: "eip1559_tx_t \<Rightarrow> int" where
  "eip1559_tx_recovery_id tx = uint (t2_y_parity tx)"

definition eip1559_tx_is_create :: "eip1559_tx_t \<Rightarrow> bool" where
  "eip1559_tx_is_create tx \<longleftrightarrow> t2_to tx = None"

definition eip1559_tx_effective_gas_price :: "eip1559_tx_t \<Rightarrow> uint256_t \<Rightarrow> uint256_t" where
  "eip1559_tx_effective_gas_price tx base_fee =
     (let priority_price = uint256_add base_fee (t2_max_priority_fee_per_gas tx)
      in if uint256_lt (t2_max_fee_per_gas tx) priority_price then t2_max_fee_per_gas tx
         else priority_price)"

definition GAS_PER_BLOB :: u64 where "GAS_PER_BLOB = 131072"

record eip4844_tx_t =
  t3_chain_id :: u64
  t3_nonce :: u64
  t3_max_priority_fee_per_gas :: uint256_t
  t3_max_fee_per_gas :: uint256_t
  t3_gas_limit :: u64
  t3_to :: address_t
  t3_value :: uint256_t
  t3_data :: bytes_t
  t3_access_list :: access_list_t
  t3_max_fee_per_blob_gas :: uint256_t
  t3_blob_versioned_hashes :: "hash_t list"
  t3_y_parity :: u8
  t3_r :: uint256_t
  t3_s :: uint256_t

definition eip4844_tx_init :: eip4844_tx_t where
  "eip4844_tx_init = \<lparr>t3_chain_id = 0, t3_nonce = 0, t3_max_priority_fee_per_gas = uint256_zero,
     t3_max_fee_per_gas = uint256_zero, t3_gas_limit = 0, t3_to = address_zero, t3_value = uint256_zero,
     t3_data = bytes_init, t3_access_list = access_list_init, t3_max_fee_per_blob_gas = uint256_zero,
     t3_blob_versioned_hashes = [], t3_y_parity = 0, t3_r = uint256_zero, t3_s = uint256_zero\<rparr>"

definition eip4844_tx_recovery_id :: "eip4844_tx_t \<Rightarrow> int" where
  "eip4844_tx_recovery_id tx = uint (t3_y_parity tx)"

definition eip4844_tx_blob_gas :: "eip4844_tx_t \<Rightarrow> u64" where
  "eip4844_tx_blob_gas tx = of_nat (length (t3_blob_versioned_hashes tx)) * GAS_PER_BLOB"

definition eip4844_tx_effective_gas_price :: "eip4844_tx_t \<Rightarrow> uint256_t \<Rightarrow> uint256_t" where
  "eip4844_tx_effective_gas_price tx base_fee =
     (let priority_price = uint256_add base_fee (t3_max_priority_fee_per_gas tx)
      in if uint256_lt (t3_max_fee_per_gas tx) priority_price then t3_max_fee_per_gas tx
         else priority_price)"

text \<open>The hashes of the new array are whatever the memory holds, 32 bytes each.\<close>

definition eip4844_tx_alloc_blob_hashes :: "allocator \<Rightarrow> eip4844_tx_t \<Rightarrow> nat \<Rightarrow> bool \<times> eip4844_tx_t" where
  "eip4844_tx_alloc_blob_hashes alloc tx count =
     (if count = 0 then (True, tx\<lparr>t3_blob_versioned_hashes := []\<rparr>)
      else case alloc (count * HASH_SIZE mod 2 ^ 64) of
        None \<Rightarrow> (False, tx\<lparr>t3_blob_versioned_hashes := []\<rparr>)
      | Some buf \<Rightarrow> (True, tx\<lparr>t3_blob_versioned_hashes :=
          map (\<lambda>i. take HASH_SIZE (drop (i * HASH_SIZE) buf)) [0..<count]\<rparr>))"

record eip7702_tx_t =
  t4_chain_id :: u64
  t4_nonce :: u64
  t4_max_priority_fee_per_gas :: uint256_t
  t4_max_fee_per_gas :: uint256_t
  t4_gas_limit :: u64
  t4_to :: address_t
  t4_value :: uint256_t
  t4_data :: bytes_t
  t4_access_list :: access_list_t
  t4_authorization_list :: authorization_list_t
  t4_y_parity :: u8
  t4_r :: uint256_t
  t4_s :: uint256_t

definition eip7702_tx_init :: eip7702_tx_t where
  "eip7702_tx_init = \<lparr>t4_chain_id = 0, t4_nonce = 0, t4_max_priority_fee_per_gas = uint256_zero,
     t4_max_fee_per_gas = uint256_zero, t4_gas_limit = 0, t4_to = address_zero, t4_value = uint256_zero,
     t4_data = bytes_init, t4_access_list = access_list_init,
     t4_authorization_list = authorization_list_init, t4_y_parity = 0, t4_r = uint256_zero,
     t4_s = uint256_zero\<rparr>"

definition eip7702_tx_recovery_id :: "eip7702_tx_t \<Rightarrow> int" where
  "eip7702_tx_recovery_id tx = uint (t4_y_parity tx)"

definition eip7702_tx_effective_gas_price :: "eip7702_tx_t \<Rightarrow> uint256_t \<Rightarrow> uint256_t" where
  "eip7702_tx_effective_gas_price tx base_fee =
     (let priority_price = uint256_add base_fee (t4_max_priority_fee_per_gas tx)
      in if uint256_lt (t4_max_fee_per_gas tx) priority_price then t4_max_fee_per_gas tx
         else priority_price)"


section \<open>Transactions\<close>

datatype tx_type_t = TX_TYPE_LEGACY | TX_TYPE_EIP2930 | TX_TYPE_EIP1559 | TX_TYPE_EIP4844 | TX_TYPE_EIP7702

datatype transaction_t =
    Tx_legacy legacy_tx_t
  | Tx_eip2930 eip2930_tx_t
  | Tx_eip1559 eip1559_tx_t
  | Tx_eip4844 eip4844_tx_t
  | Tx_eip7702 eip7702_tx_t

fun transaction_type :: "transaction_t \<Rightarrow> tx_type_t" where
  "transaction_type (Tx_legacy _) = TX_TYPE_LEGACY"
| "transaction_type (Tx_eip2930 _) = TX_TYPE_EIP2930"
| "transaction_type (Tx_eip1559 _) = TX_TYPE_EIP1559"
| "transaction_type (Tx_eip4844 _) = TX_TYPE_EIP4844"
| "transaction_type (Tx_eip7702 _) = TX_TYPE_EIP7702"

definition tx_type_code :: "tx_type_t \<Rightarrow> u8" where
  "tx_type_code t =
     (case t of TX_TYPE_LEGACY \<Rightarrow> 0 | TX_TYPE_EIP2930 \<Rightarrow> 1 | TX_TYPE_EIP1559 \<Rightarrow> 2
      | TX_TYPE_EIP4844 \<Rightarrow> 3 | TX_TYPE_EIP7702 \<Rightarrow> 4)"

definition transaction_init :: transaction_t where
  "transaction_init = Tx_legacy legacy_tx_init"

fun transaction_nonce :: "transaction_t \<Rightarrow> u64" where
  "transaction_nonce (Tx_legacy tx) = lt_nonce tx"
| "transaction_nonce (Tx_eip2930 tx) = t1_nonce tx"
| "transaction_nonce (Tx_eip1559 tx) = t2_nonce tx"
| "transaction_nonce (Tx_eip4844 tx) = t3_nonce tx"
| "transaction_nonce (Tx_eip7702 tx) = t4_nonce tx"

fun transaction_gas_limit :: "transaction_t \<Rightarrow> u64" where
  "transaction_gas_limit (Tx_legacy tx) = lt_gas_limit tx"
| "transaction_gas_limit (Tx_eip2930 tx) = t1_gas_limit tx"
| "transaction_gas_limit (Tx_eip1559 tx) = t2_gas_limit tx"
| "transaction_gas_limit (Tx_eip4844 tx) = t3_gas_limit tx"
| "transaction_gas_limit (Tx_eip7702 tx) = t4_gas_limit tx"

fun transaction_value :: "transaction_t \<Rightarrow> uint256_t" where
  "transaction_value (Tx_legacy tx) = lt_value tx"
| "transaction_value (Tx_eip2930 tx) = t1_value tx"
| "transaction_value (Tx_eip1559 tx) = t2_value tx"
| "transaction_value (Tx_eip4844 tx) = t3_value tx"
| "transaction_value (Tx_eip7702 tx) = t4_value tx"

fun transaction_to :: "transaction_t \<Rightarrow> address_t option" where
  "transaction_to (Tx_legacy tx) = lt_to tx"
| "transaction_to (Tx_eip2930 tx) = t1_to tx"
| "transaction_to (Tx_eip1559 tx) = t2_to tx"
| "transaction_to (Tx_eip4844 tx) = Some (t3_to tx)"
| "transaction_to (Tx_eip7702 tx) = Some (t4_to tx)"

fun transaction_is_create :: "transaction_t \<Rightarrow> bool" where
  "transaction_is_create (Tx_legacy tx) = legacy_tx_is_create tx"
| "transaction_is_create (Tx_eip2930 tx) = eip2930_tx_is_create tx"
| "transaction_is_create (Tx_eip1559 tx) = eip1559_tx_is_create tx"
| "transaction_is_create (Tx_eip4844 tx) = False"
| "transaction_is_create (Tx_eip7702 tx) = False"

fun transaction_data :: "transaction_t \<Rightarrow> bytes_t" where
  "transaction_data (Tx_legacy tx) = lt_data tx"
| "transaction_data (Tx_eip2930 tx) = t1_data tx"
| "transaction_data (Tx_eip1559 tx) = t2_data tx"
| "transaction_data (Tx_eip4844 tx) = t3_data tx"
| "transaction_data (Tx_eip7702 tx) = t4_data tx"

fun transaction_chain_id :: "transaction_t \<Rightarrow> u64 option" where
  "transaction_chain_id (Tx_legacy tx) = legacy_tx_chain_id tx"
| "transaction_chain_id (Tx_eip2930 tx) = Some (t1_chain_id tx)"
| "transaction_chain_id (Tx_eip1559 tx) = Some (t2_chain_id tx)"
| "transaction_chain_id (Tx_eip4844 tx) = Some (t3_chain_id tx)"
| "transaction_chain_id (Tx_eip7702 tx) = Some (t4_chain_id tx)"

fun transaction_recovery_id :: "transaction_t \<Rightarrow> int" where
  "transaction_recovery_id (Tx_legacy tx) = legacy_tx_recovery_id tx"
| "transaction_recovery_id (Tx_eip2930 tx) = eip2930_tx_recovery_id tx"
| "transaction_recovery_id (Tx_eip1559 tx) = eip1559_tx_recovery_id tx"
| "transaction_recovery_id (Tx_eip4844 tx) = eip4844_tx_recovery_id tx"
| "transaction_recovery_id (Tx_eip7702 tx) = eip7702_tx_recovery_id tx"

fun transaction_r :: "transaction_t \<Rightarrow> uint256_t" where
  "transaction_r (Tx_legacy tx) = lt_r tx"
| "transaction_r (Tx_eip2930 tx) = t1_r tx"
| "transaction_r (Tx_eip1559 tx) = t2_r tx"
| "transaction_r (Tx_eip4844 tx) = t3_r tx"
| "transaction_r (Tx_eip7702 tx) = t4_r tx"

fun transaction_s :: "transaction_t \<Rightarrow> uint256_t" where
  "transaction_s (Tx_legacy tx) = lt_s tx"
| "transaction_s (Tx_eip2930 tx) = t1_s tx"
| "transaction_s (Tx_eip1559 tx) = t2_s tx"
| "transaction_s (Tx_eip4844 tx) = t3_s tx"
| "transaction_s (Tx_eip7702 tx) = t4_s tx"

fun transaction_effective_gas_price :: "transaction_t \<Rightarrow> uint256_t \<Rightarrow> uint256_t" where
  "transaction_effective_gas_price (Tx_legacy tx) base_fee = lt_gas_price tx"
| "transaction_effective_gas_price (Tx_eip2930 tx) base_fee = t1_gas_price tx"
| "transaction_effective_gas_price (Tx_eip1559 tx) base_fee = eip1559_tx_effective_gas_price tx base_fee"
| "transaction_effective_gas_price (Tx_eip4844 tx) base_fee = eip4844_tx_effective_gas_price tx base_fee"
| "transaction_effective_gas_price (Tx_eip7702 tx) base_fee = eip7702_tx_effective_gas_price tx base_fee"

fun transaction_access_list :: "transaction_t \<Rightarrow> access_list_t option" where
  "transaction_access_list (Tx_legacy tx) = None"
| "transaction_access_list (Tx_eip2930 tx) = Some (t1_access_list tx)"
| "transaction_access_list (Tx_eip1559 tx) = Some (t2_access_list tx)"
| "transaction_access_list (Tx_eip4844 tx) = Some (t3_access_list tx)"
| "transaction_access_list (Tx_eip7702 tx) = Some (t4_access_list tx)"

end
