(* ===== verification/Tx_Decode.thy ===== *)
theory Tx_Decode
  imports Transaction
begin

text \<open>
  Reading transactions, the first half of \<open>src/ethereum/transaction/rlp.c\<close>.  Decoding fills the fields of a
  transaction one after the other and stops at the first error; the macros of the source are functions
  on the transaction and the decoder.  The growing vectors of the source are lists.  A result \<open>None\<close>
  is a loop that does not end.
\<close>

section \<open>Errors\<close>

datatype tx_decode_error_t =
    TX_DECODE_OK
  | TX_DECODE_EMPTY_INPUT
  | TX_DECODE_INVALID_TYPE
  | TX_DECODE_INVALID_RLP
  | TX_DECODE_INVALID_SIGNATURE
  | TX_DECODE_MISSING_FIELD
  | TX_DECODE_INVALID_FIELD
  | TX_DECODE_ALLOC_FAILED

record tx_decode_result_t =
  txr_error :: tx_decode_error_t
  txr_bytes_consumed :: nat

definition tx_decode_error_string :: "tx_decode_error_t \<Rightarrow> string" where
  "tx_decode_error_string err =
     (case err of
        TX_DECODE_OK \<Rightarrow> ''success''
      | TX_DECODE_EMPTY_INPUT \<Rightarrow> ''empty input''
      | TX_DECODE_INVALID_TYPE \<Rightarrow> ''invalid transaction type''
      | TX_DECODE_INVALID_RLP \<Rightarrow> ''invalid RLP encoding''
      | TX_DECODE_INVALID_SIGNATURE \<Rightarrow> ''invalid signature''
      | TX_DECODE_MISSING_FIELD \<Rightarrow> ''missing required field''
      | TX_DECODE_INVALID_FIELD \<Rightarrow> ''invalid field value''
      | TX_DECODE_ALLOC_FAILED \<Rightarrow> ''memory allocation failed'')"


section \<open>Decoding the fields\<close>

text \<open>A field that is decoded into a transaction, and the fields of a transaction in order.\<close>

type_synonym 't field = "'t \<Rightarrow> rlp_decoder_t \<Rightarrow> (tx_decode_error_t \<times> 't \<times> rlp_decoder_t) option"

definition DECODE_U64 :: "(u64 \<Rightarrow> 't \<Rightarrow> 't) \<Rightarrow> 't field" where
  "DECODE_U64 upd tx dec =
     (case rlp_decode_u64 dec of
        (Inl _, dec) \<Rightarrow> Some (TX_DECODE_INVALID_RLP, tx, dec)
      | (Inr (v, _), dec) \<Rightarrow> Some (TX_DECODE_OK, upd v tx, dec))"

definition DECODE_UINT256 :: "(uint256_t \<Rightarrow> 't \<Rightarrow> 't) \<Rightarrow> 't field" where
  "DECODE_UINT256 upd tx dec =
     (case rlp_decode_uint256 dec of
        (Inl _, dec) \<Rightarrow> Some (TX_DECODE_INVALID_RLP, tx, dec)
      | (Inr (v, _), dec) \<Rightarrow> Some (TX_DECODE_OK, upd v tx, dec))"

definition DECODE_YPARITY :: "(u8 \<Rightarrow> 't \<Rightarrow> 't) \<Rightarrow> 't field" where
  "DECODE_YPARITY upd tx dec =
     (case rlp_decode_u64 dec of
        (Inl _, dec) \<Rightarrow> Some (TX_DECODE_INVALID_RLP, tx, dec)
      | (Inr (v, _), dec) \<Rightarrow> Some (TX_DECODE_OK, upd (ucast v) tx, dec))"

definition CHECK_HELPER :: "('a \<Rightarrow> rlp_decoder_t \<Rightarrow> (tx_decode_error_t \<times> 'a \<times> rlp_decoder_t) option) \<Rightarrow>
    ('t \<Rightarrow> 'a) \<Rightarrow> ('a \<Rightarrow> 't \<Rightarrow> 't) \<Rightarrow> 't field" where
  "CHECK_HELPER helper get upd tx dec =
     do { (err, v, dec) \<leftarrow> helper (get tx) dec; Some (err, upd v tx, dec) }"

fun decode_fields :: "'t field list \<Rightarrow> 't field" where
  "decode_fields [] tx dec = Some (TX_DECODE_OK, tx, dec)"
| "decode_fields (f # fs) tx dec =
     do {
       (err, tx, dec) \<leftarrow> f tx dec;
       if err \<noteq> TX_DECODE_OK then Some (err, tx, dec) else decode_fields fs tx dec
     }"

definition decode_optional_address :: "allocator \<Rightarrow> address_t option \<Rightarrow> rlp_decoder_t \<Rightarrow>
    (tx_decode_error_t \<times> address_t option \<times> rlp_decoder_t) option" where
  "decode_optional_address alloc out dec =
     (case rlp_decode_bytes dec of
        (Inl _, dec) \<Rightarrow> Some (TX_DECODE_INVALID_RLP, out, dec)
      | (Inr (d, _), dec) \<Rightarrow>
          if length d = 0 then Some (TX_DECODE_OK, None, dec)
          else if length d \<noteq> ADDRESS_SIZE then Some (TX_DECODE_INVALID_FIELD, out, dec)
          else case alloc ADDRESS_SIZE of
            None \<Rightarrow> Some (TX_DECODE_ALLOC_FAILED, None, dec)
          | Some _ \<Rightarrow> Some (TX_DECODE_OK, Some d, dec))"

definition decode_required_address :: "address_t \<Rightarrow> rlp_decoder_t \<Rightarrow>
    (tx_decode_error_t \<times> address_t \<times> rlp_decoder_t) option" where
  "decode_required_address out dec =
     (case rlp_decode_address dec of
        (Inl _, dec) \<Rightarrow> Some (TX_DECODE_INVALID_RLP, out, dec)
      | (Inr (v, _), dec) \<Rightarrow> Some (TX_DECODE_OK, v, dec))"

definition decode_tx_data :: "allocator \<Rightarrow> bytes_t \<Rightarrow> rlp_decoder_t \<Rightarrow>
    (tx_decode_error_t \<times> bytes_t \<times> rlp_decoder_t) option" where
  "decode_tx_data alloc out dec =
     (case rlp_decode_bytes dec of
        (Inl _, dec) \<Rightarrow> Some (TX_DECODE_INVALID_RLP, out, dec)
      | (Inr (d, _), dec) \<Rightarrow>
          let out = bytes_init_arena
          in if length d > 0
             then do {
               (ok, out) \<leftarrow> bytes_reserve alloc out (length d);
               if \<not> ok then Some (TX_DECODE_ALLOC_FAILED, out, dec)
               else Some (TX_DECODE_OK,
                 out\<lparr>bytes_data := map_option (\<lambda>buf. memcpy_at buf 0 d) (bytes_data out), bytes_size := length d\<rparr>, dec)
             }
             else Some (TX_DECODE_OK, out, dec))"

text \<open>Every item that is decoded moves the decoder on, so the loops over the items of a list end.\<close>

lemma decode_length_pos: "decode_length d n = (r, d') \<Longrightarrow> dec_pos d \<le> dec_pos d'"
proof -
  have "dec_pos d \<le> dec_pos (snd (read_length n d v))" for n v d
  proof (induction n arbitrary: d v)
    case (Suc n)
    from Suc [of "d\<lparr>dec_pos := Suc (dec_pos d)\<rparr>"] show ?case by (auto simp: read_byte_def Let_def dest: Suc_leD)
  qed simp
  from this [of d n 0] show "decode_length d n = (r, d') \<Longrightarrow> dec_pos d \<le> dec_pos d'"
    by (auto simp: decode_length_def split: if_splits prod.splits)
qed

lemma decode_bytes_pos: "rlp_decode_bytes d = (Inr r, d') \<Longrightarrow> dec_pos d < dec_pos d'"
  by (auto simp: rlp_decode_bytes_def read_byte_def Let_def dest!: decode_length_pos split: if_splits prod.splits sum.splits)

lemma decode_uint256_pos: "rlp_decode_uint256 d = (Inr r, d') \<Longrightarrow> dec_pos d < dec_pos d'"
  by (auto simp: rlp_decode_uint256_def dest!: decode_bytes_pos split: if_splits prod.splits sum.splits)

lemma decode_u64_pos: "rlp_decode_u64 d = (Inr r, d') \<Longrightarrow> dec_pos d < dec_pos d'"
  by (auto simp: rlp_decode_u64_def dest!: decode_bytes_pos split: if_splits prod.splits sum.splits)

lemma decode_address_pos: "rlp_decode_address d = (Inr r, d') \<Longrightarrow> dec_pos d < dec_pos d'"
  by (auto simp: rlp_decode_address_def dest!: decode_bytes_pos split: if_splits prod.splits sum.splits)

lemma decode_list_header_pos: "rlp_decode_list_header d = (Inr r, d') \<Longrightarrow> dec_pos d < dec_pos d'"
  by (auto simp: rlp_decode_list_header_def read_byte_def Let_def dest!: decode_length_pos split: if_splits prod.splits sum.splits)

lemmas decode_pos = decode_uint256_pos decode_u64_pos decode_address_pos decode_list_header_pos

function decode_keys :: "nat \<Rightarrow> rlp_decoder_t \<Rightarrow> uint256_t list \<Rightarrow> (tx_decode_error_t + uint256_t list) \<times> rlp_decoder_t" where
  "decode_keys keys_end dec keys =
     (if dec_pos dec < keys_end
      then case rlp_decode_uint256 dec of
        (Inl _, dec) \<Rightarrow> (Inl TX_DECODE_INVALID_RLP, dec)
      | (Inr (key, _), dec) \<Rightarrow> decode_keys keys_end dec (keys @ [key])
      else (Inr keys, dec))"
  by pat_completeness auto
termination
  by (relation "measure (\<lambda>(e, dec, _). e - dec_pos dec)") (auto dest: decode_uint256_pos [OF sym])

declare decode_keys.simps [simp del]

definition decode_access_entry :: "rlp_decoder_t \<Rightarrow> (tx_decode_error_t + access_list_entry_t) \<times> rlp_decoder_t" where
  "decode_access_entry dec =
     (case rlp_decode_list_header dec of
        (Inl _, dec) \<Rightarrow> (Inl TX_DECODE_INVALID_RLP, dec)
      | (Inr _, dec) \<Rightarrow>
     (case rlp_decode_address dec of
        (Inl _, dec) \<Rightarrow> (Inl TX_DECODE_INVALID_RLP, dec)
      | (Inr (addr, _), dec) \<Rightarrow>
     (case rlp_decode_list_header dec of
        (Inl _, dec) \<Rightarrow> (Inl TX_DECODE_INVALID_RLP, dec)
      | (Inr (payload_length, _), dec) \<Rightarrow>
          if payload_length = 0 then (Inr \<lparr>ale_address = addr, ale_storage_keys = []\<rparr>, dec)
          else case decode_keys ((dec_pos dec + payload_length) mod 2 ^ 64) dec [] of
            (Inl e, dec) \<Rightarrow> (Inl e, dec)
          | (Inr keys, dec) \<Rightarrow> (Inr \<lparr>ale_address = addr, ale_storage_keys = keys\<rparr>, dec))))"

lemma decode_keys_pos: "decode_keys e d keys = (Inr r, d') \<Longrightarrow> dec_pos d \<le> dec_pos d'"
proof (induction e d keys rule: decode_keys.induct)
  case (1 e d keys)
  from 1(2) show ?case
    by (subst (asm) decode_keys.simps) (fastforce dest: decode_pos 1(1) split: if_splits prod.splits sum.splits)
qed

lemma decode_access_entry_pos: "decode_access_entry d = (Inr r, d') \<Longrightarrow> dec_pos d < dec_pos d'"
  by (auto simp: decode_access_entry_def dest!: decode_pos decode_keys_pos split: if_splits prod.splits sum.splits)

function decode_access_entries :: "nat \<Rightarrow> rlp_decoder_t \<Rightarrow> access_list_entry_t list \<Rightarrow>
    (tx_decode_error_t + access_list_entry_t list) \<times> rlp_decoder_t" where
  "decode_access_entries list_end dec entries =
     (if dec_pos dec < list_end
      then case decode_access_entry dec of
        (Inl e, dec) \<Rightarrow> (Inl e, dec)
      | (Inr entry, dec) \<Rightarrow> decode_access_entries list_end dec (entries @ [entry])
      else (Inr entries, dec))"
  by pat_completeness auto
termination
  by (relation "measure (\<lambda>(e, dec, _). e - dec_pos dec)") (auto dest: decode_access_entry_pos [OF sym])

declare decode_access_entries.simps [simp del]

definition decode_access_list :: "access_list_t \<Rightarrow> rlp_decoder_t \<Rightarrow> (tx_decode_error_t \<times> access_list_t \<times> rlp_decoder_t) option" where
  "decode_access_list list dec =
     (case rlp_decode_list_header dec of
        (Inl _, dec) \<Rightarrow> Some (TX_DECODE_INVALID_RLP, list, dec)
      | (Inr (payload_length, _), dec) \<Rightarrow>
          if payload_length = 0 then Some (TX_DECODE_OK, access_list_init, dec)
          else case decode_access_entries ((dec_pos dec + payload_length) mod 2 ^ 64) dec [] of
            (Inl e, dec) \<Rightarrow> Some (e, list, dec)
          | (Inr entries, dec) \<Rightarrow> Some (TX_DECODE_OK, list\<lparr>al_entries := entries\<rparr>, dec))"

definition decode_authorization :: "rlp_decoder_t \<Rightarrow> (tx_decode_error_t + authorization_t) \<times> rlp_decoder_t" where
  "decode_authorization dec =
     (case rlp_decode_list_header dec of
        (Inl _, dec) \<Rightarrow> (Inl TX_DECODE_INVALID_RLP, dec)
      | (Inr _, dec) \<Rightarrow>
     (case rlp_decode_u64 dec of
        (Inl _, dec) \<Rightarrow> (Inl TX_DECODE_INVALID_RLP, dec)
      | (Inr (chain_id, _), dec) \<Rightarrow>
     (case rlp_decode_address dec of
        (Inl _, dec) \<Rightarrow> (Inl TX_DECODE_INVALID_RLP, dec)
      | (Inr (addr, _), dec) \<Rightarrow>
     (case rlp_decode_u64 dec of
        (Inl _, dec) \<Rightarrow> (Inl TX_DECODE_INVALID_RLP, dec)
      | (Inr (nonce, _), dec) \<Rightarrow>
     (case rlp_decode_u64 dec of
        (Inl _, dec) \<Rightarrow> (Inl TX_DECODE_INVALID_RLP, dec)
      | (Inr (y_parity, _), dec) \<Rightarrow>
     (case rlp_decode_uint256 dec of
        (Inl _, dec) \<Rightarrow> (Inl TX_DECODE_INVALID_RLP, dec)
      | (Inr (r, _), dec) \<Rightarrow>
     (case rlp_decode_uint256 dec of
        (Inl _, dec) \<Rightarrow> (Inl TX_DECODE_INVALID_RLP, dec)
      | (Inr (s, _), dec) \<Rightarrow>
          (Inr \<lparr>au_chain_id = chain_id, au_address = addr, au_nonce = nonce, au_y_parity = ucast y_parity,
                au_r = r, au_s = s\<rparr>, dec))))))))"

lemma decode_authorization_pos: "decode_authorization d = (Inr r, d') \<Longrightarrow> dec_pos d < dec_pos d'"
  by (auto simp: decode_authorization_def dest!: decode_pos split: prod.splits sum.splits)

function decode_authorizations :: "nat \<Rightarrow> rlp_decoder_t \<Rightarrow> authorization_t list \<Rightarrow>
    (tx_decode_error_t + authorization_t list) \<times> rlp_decoder_t" where
  "decode_authorizations list_end dec auths =
     (if dec_pos dec < list_end
      then case decode_authorization dec of
        (Inl e, dec) \<Rightarrow> (Inl e, dec)
      | (Inr auth, dec) \<Rightarrow> decode_authorizations list_end dec (auths @ [auth])
      else (Inr auths, dec))"
  by pat_completeness auto
termination
  by (relation "measure (\<lambda>(e, dec, _). e - dec_pos dec)") (auto dest: decode_authorization_pos [OF sym])

declare decode_authorizations.simps [simp del]

definition decode_authorization_list :: "authorization_list_t \<Rightarrow> rlp_decoder_t \<Rightarrow>
    (tx_decode_error_t \<times> authorization_list_t \<times> rlp_decoder_t) option" where
  "decode_authorization_list list dec =
     (case rlp_decode_list_header dec of
        (Inl _, dec) \<Rightarrow> Some (TX_DECODE_INVALID_RLP, list, dec)
      | (Inr (payload_length, _), dec) \<Rightarrow>
          if payload_length = 0 then Some (TX_DECODE_OK, authorization_list_init, dec)
          else case decode_authorizations ((dec_pos dec + payload_length) mod 2 ^ 64) dec [] of
            (Inl e, dec) \<Rightarrow> Some (e, list, dec)
          | (Inr auths, dec) \<Rightarrow> Some (TX_DECODE_OK, list\<lparr>aul_entries := auths\<rparr>, dec))"

text \<open>
  The hashes of the blobs are first counted by skipping the items.  At the end of the input skipping
  does not move the decoder, so this loop need not end.
\<close>

partial_function (option) count_items :: "nat \<Rightarrow> rlp_decoder_t \<Rightarrow> nat \<Rightarrow> nat option" where
  "count_items hashes_end dec hash_count =
     (if dec_pos dec < hashes_end then count_items hashes_end (rlp_skip_item dec) (hash_count + 1)
      else Some hash_count)"

declare count_items.simps [code]

fun decode_hashes :: "nat list \<Rightarrow> eip4844_tx_t \<Rightarrow> rlp_decoder_t \<Rightarrow> tx_decode_error_t \<times> eip4844_tx_t \<times> rlp_decoder_t" where
  "decode_hashes [] tx dec = (TX_DECODE_OK, tx, dec)"
| "decode_hashes (i # is) tx dec =
     (case rlp_decode_bytes dec of
        (Inl _, dec) \<Rightarrow> (TX_DECODE_INVALID_FIELD, tx, dec)
      | (Inr (d, _), dec) \<Rightarrow>
          if length d \<noteq> HASH_SIZE then (TX_DECODE_INVALID_FIELD, tx, dec)
          else decode_hashes is (tx\<lparr>t3_blob_versioned_hashes := (t3_blob_versioned_hashes tx)[i := hash_from_bytes d]\<rparr>) dec)"

definition decode_blob_hashes :: "allocator \<Rightarrow> eip4844_tx_t \<Rightarrow> rlp_decoder_t \<Rightarrow>
    (tx_decode_error_t \<times> eip4844_tx_t \<times> rlp_decoder_t) option" where
  "decode_blob_hashes alloc tx dec =
     (case rlp_decode_list_header dec of
        (Inl _, dec) \<Rightarrow> Some (TX_DECODE_INVALID_RLP, tx, dec)
      | (Inr (payload_length, _), dec) \<Rightarrow>
          if payload_length = 0 then Some (TX_DECODE_OK, tx\<lparr>t3_blob_versioned_hashes := []\<rparr>, dec)
          else do {
            hash_count \<leftarrow> count_items ((dec_pos dec + payload_length) mod 2 ^ 64) dec 0;
            (case eip4844_tx_alloc_blob_hashes alloc tx hash_count of
               (False, tx) \<Rightarrow> Some (TX_DECODE_ALLOC_FAILED, tx, dec)
             | (True, tx) \<Rightarrow> Some (decode_hashes [0..<hash_count] tx dec))
          })"


section \<open>Decoding transactions\<close>

text \<open>
  What the decoders of the five kinds have in common: the transaction is initialised, the header of
  the list is read, and then the fields.  The second component of the result is the transaction as far
  as it has been written, nothing if the input was empty.
\<close>

definition decode_tx :: "'t \<Rightarrow> 't field list \<Rightarrow> u8 list \<Rightarrow> (tx_decode_result_t \<times> 't option) option" where
  "decode_tx init fs d =
     (if length d = 0 then Some (\<lparr>txr_error = TX_DECODE_EMPTY_INPUT, txr_bytes_consumed = 0\<rparr>, None)
      else case rlp_decode_list_header (rlp_decoder_init d) of
        (Inl _, _) \<Rightarrow> Some (\<lparr>txr_error = TX_DECODE_INVALID_RLP, txr_bytes_consumed = 0\<rparr>, Some init)
      | (Inr (payload_length, bytes_consumed), dec) \<Rightarrow> do {
          (err, tx, _) \<leftarrow> decode_fields fs init dec;
          if err \<noteq> TX_DECODE_OK then Some (\<lparr>txr_error = err, txr_bytes_consumed = 0\<rparr>, Some tx)
          else Some (\<lparr>txr_error = TX_DECODE_OK,
                     txr_bytes_consumed = (bytes_consumed + payload_length) mod 2 ^ 64\<rparr>, Some tx)
        })"

definition legacy_tx_decode :: "allocator \<Rightarrow> u8 list \<Rightarrow> (tx_decode_result_t \<times> legacy_tx_t option) option" where
  "legacy_tx_decode alloc = decode_tx legacy_tx_init
     [DECODE_U64 (\<lambda>v tx. tx\<lparr>lt_nonce := v\<rparr>),
      DECODE_UINT256 (\<lambda>v tx. tx\<lparr>lt_gas_price := v\<rparr>),
      DECODE_U64 (\<lambda>v tx. tx\<lparr>lt_gas_limit := v\<rparr>),
      CHECK_HELPER (decode_optional_address alloc) lt_to (\<lambda>v tx. tx\<lparr>lt_to := v\<rparr>),
      DECODE_UINT256 (\<lambda>v tx. tx\<lparr>lt_value := v\<rparr>),
      CHECK_HELPER (decode_tx_data alloc) lt_data (\<lambda>v tx. tx\<lparr>lt_data := v\<rparr>),
      DECODE_U64 (\<lambda>v tx. tx\<lparr>lt_v := v\<rparr>),
      DECODE_UINT256 (\<lambda>v tx. tx\<lparr>lt_r := v\<rparr>),
      DECODE_UINT256 (\<lambda>v tx. tx\<lparr>lt_s := v\<rparr>)]"

definition eip2930_tx_decode :: "allocator \<Rightarrow> u8 list \<Rightarrow> (tx_decode_result_t \<times> eip2930_tx_t option) option" where
  "eip2930_tx_decode alloc = decode_tx eip2930_tx_init
     [DECODE_U64 (\<lambda>v tx. tx\<lparr>t1_chain_id := v\<rparr>),
      DECODE_U64 (\<lambda>v tx. tx\<lparr>t1_nonce := v\<rparr>),
      DECODE_UINT256 (\<lambda>v tx. tx\<lparr>t1_gas_price := v\<rparr>),
      DECODE_U64 (\<lambda>v tx. tx\<lparr>t1_gas_limit := v\<rparr>),
      CHECK_HELPER (decode_optional_address alloc) t1_to (\<lambda>v tx. tx\<lparr>t1_to := v\<rparr>),
      DECODE_UINT256 (\<lambda>v tx. tx\<lparr>t1_value := v\<rparr>),
      CHECK_HELPER (decode_tx_data alloc) t1_data (\<lambda>v tx. tx\<lparr>t1_data := v\<rparr>),
      CHECK_HELPER decode_access_list t1_access_list (\<lambda>v tx. tx\<lparr>t1_access_list := v\<rparr>),
      DECODE_YPARITY (\<lambda>v tx. tx\<lparr>t1_y_parity := v\<rparr>),
      DECODE_UINT256 (\<lambda>v tx. tx\<lparr>t1_r := v\<rparr>),
      DECODE_UINT256 (\<lambda>v tx. tx\<lparr>t1_s := v\<rparr>)]"

definition eip1559_tx_decode :: "allocator \<Rightarrow> u8 list \<Rightarrow> (tx_decode_result_t \<times> eip1559_tx_t option) option" where
  "eip1559_tx_decode alloc = decode_tx eip1559_tx_init
     [DECODE_U64 (\<lambda>v tx. tx\<lparr>t2_chain_id := v\<rparr>),
      DECODE_U64 (\<lambda>v tx. tx\<lparr>t2_nonce := v\<rparr>),
      DECODE_UINT256 (\<lambda>v tx. tx\<lparr>t2_max_priority_fee_per_gas := v\<rparr>),
      DECODE_UINT256 (\<lambda>v tx. tx\<lparr>t2_max_fee_per_gas := v\<rparr>),
      DECODE_U64 (\<lambda>v tx. tx\<lparr>t2_gas_limit := v\<rparr>),
      CHECK_HELPER (decode_optional_address alloc) t2_to (\<lambda>v tx. tx\<lparr>t2_to := v\<rparr>),
      DECODE_UINT256 (\<lambda>v tx. tx\<lparr>t2_value := v\<rparr>),
      CHECK_HELPER (decode_tx_data alloc) t2_data (\<lambda>v tx. tx\<lparr>t2_data := v\<rparr>),
      CHECK_HELPER decode_access_list t2_access_list (\<lambda>v tx. tx\<lparr>t2_access_list := v\<rparr>),
      DECODE_YPARITY (\<lambda>v tx. tx\<lparr>t2_y_parity := v\<rparr>),
      DECODE_UINT256 (\<lambda>v tx. tx\<lparr>t2_r := v\<rparr>),
      DECODE_UINT256 (\<lambda>v tx. tx\<lparr>t2_s := v\<rparr>)]"

definition eip4844_tx_decode :: "allocator \<Rightarrow> u8 list \<Rightarrow> (tx_decode_result_t \<times> eip4844_tx_t option) option" where
  "eip4844_tx_decode alloc = decode_tx eip4844_tx_init
     [DECODE_U64 (\<lambda>v tx. tx\<lparr>t3_chain_id := v\<rparr>),
      DECODE_U64 (\<lambda>v tx. tx\<lparr>t3_nonce := v\<rparr>),
      DECODE_UINT256 (\<lambda>v tx. tx\<lparr>t3_max_priority_fee_per_gas := v\<rparr>),
      DECODE_UINT256 (\<lambda>v tx. tx\<lparr>t3_max_fee_per_gas := v\<rparr>),
      DECODE_U64 (\<lambda>v tx. tx\<lparr>t3_gas_limit := v\<rparr>),
      CHECK_HELPER decode_required_address t3_to (\<lambda>v tx. tx\<lparr>t3_to := v\<rparr>),
      DECODE_UINT256 (\<lambda>v tx. tx\<lparr>t3_value := v\<rparr>),
      CHECK_HELPER (decode_tx_data alloc) t3_data (\<lambda>v tx. tx\<lparr>t3_data := v\<rparr>),
      CHECK_HELPER decode_access_list t3_access_list (\<lambda>v tx. tx\<lparr>t3_access_list := v\<rparr>),
      DECODE_UINT256 (\<lambda>v tx. tx\<lparr>t3_max_fee_per_blob_gas := v\<rparr>),
      CHECK_HELPER (decode_blob_hashes alloc) id (\<lambda>v tx. v),
      DECODE_YPARITY (\<lambda>v tx. tx\<lparr>t3_y_parity := v\<rparr>),
      DECODE_UINT256 (\<lambda>v tx. tx\<lparr>t3_r := v\<rparr>),
      DECODE_UINT256 (\<lambda>v tx. tx\<lparr>t3_s := v\<rparr>)]"

definition eip7702_tx_decode :: "allocator \<Rightarrow> u8 list \<Rightarrow> (tx_decode_result_t \<times> eip7702_tx_t option) option" where
  "eip7702_tx_decode alloc = decode_tx eip7702_tx_init
     [DECODE_U64 (\<lambda>v tx. tx\<lparr>t4_chain_id := v\<rparr>),
      DECODE_U64 (\<lambda>v tx. tx\<lparr>t4_nonce := v\<rparr>),
      DECODE_UINT256 (\<lambda>v tx. tx\<lparr>t4_max_priority_fee_per_gas := v\<rparr>),
      DECODE_UINT256 (\<lambda>v tx. tx\<lparr>t4_max_fee_per_gas := v\<rparr>),
      DECODE_U64 (\<lambda>v tx. tx\<lparr>t4_gas_limit := v\<rparr>),
      CHECK_HELPER decode_required_address t4_to (\<lambda>v tx. tx\<lparr>t4_to := v\<rparr>),
      DECODE_UINT256 (\<lambda>v tx. tx\<lparr>t4_value := v\<rparr>),
      CHECK_HELPER (decode_tx_data alloc) t4_data (\<lambda>v tx. tx\<lparr>t4_data := v\<rparr>),
      CHECK_HELPER decode_access_list t4_access_list (\<lambda>v tx. tx\<lparr>t4_access_list := v\<rparr>),
      CHECK_HELPER decode_authorization_list t4_authorization_list (\<lambda>v tx. tx\<lparr>t4_authorization_list := v\<rparr>),
      DECODE_YPARITY (\<lambda>v tx. tx\<lparr>t4_y_parity := v\<rparr>),
      DECODE_UINT256 (\<lambda>v tx. tx\<lparr>t4_r := v\<rparr>),
      DECODE_UINT256 (\<lambda>v tx. tx\<lparr>t4_s := v\<rparr>)]"

text \<open>The result of the decoder of a kind, as a transaction; a type byte counts as consumed.\<close>

definition as_kind :: "('t \<Rightarrow> transaction_t) \<Rightarrow> tx_decode_result_t \<times> 't option \<Rightarrow> tx_decode_result_t \<times> transaction_t option" where
  "as_kind kind = (\<lambda>(result, tx).
     (if txr_error result = TX_DECODE_OK
      then result\<lparr>txr_bytes_consumed := (txr_bytes_consumed result + 1) mod 2 ^ 64\<rparr> else result,
      map_option kind tx))"

definition transaction_decode :: "allocator \<Rightarrow> u8 list \<Rightarrow> (tx_decode_result_t \<times> transaction_t option) option" where
  "transaction_decode alloc d =
     (if length d = 0 then Some (\<lparr>txr_error = TX_DECODE_EMPTY_INPUT, txr_bytes_consumed = 0\<rparr>, None)
      else let first_byte = d ! 0
      in if first_byte \<ge> 0xc0
         then map_option (\<lambda>(result, tx). (result, map_option Tx_legacy tx)) (legacy_tx_decode alloc d)
         else if first_byte = 0x00 \<or> first_byte > 0x04
         then Some (\<lparr>txr_error = TX_DECODE_INVALID_TYPE, txr_bytes_consumed = 0\<rparr>, None)
         else if first_byte = 0x01 then map_option (as_kind Tx_eip2930) (eip2930_tx_decode alloc (drop 1 d))
         else if first_byte = 0x02 then map_option (as_kind Tx_eip1559) (eip1559_tx_decode alloc (drop 1 d))
         else if first_byte = 0x03 then map_option (as_kind Tx_eip4844) (eip4844_tx_decode alloc (drop 1 d))
         else map_option (as_kind Tx_eip7702) (eip7702_tx_decode alloc (drop 1 d)))"


section \<open>The reference encoding\<close>

abbreviation number_bytes :: "nat \<Rightarrow> u8 list" where "number_bytes n \<equiv> rlp_string (be_digits n)"

abbreviation u64_bytes :: "u64 \<Rightarrow> u8 list" where "u64_bytes v \<equiv> number_bytes (unat v)"

abbreviation u256_bytes :: "uint256_t \<Rightarrow> u8 list" where "u256_bytes v \<equiv> number_bytes (nat (uval v))"

definition entry_bytes :: "access_list_entry_t \<Rightarrow> u8 list" where
  "entry_bytes e = rlp_list (rlp_string (ale_address e) @ rlp_list (concat (map u256_bytes (ale_storage_keys e))))"

definition access_list_bytes :: "access_list_t \<Rightarrow> u8 list" where
  "access_list_bytes l = rlp_list (concat (map entry_bytes (al_entries l)))"

definition authorization_bytes :: "authorization_t \<Rightarrow> u8 list" where
  "authorization_bytes a = rlp_list (u64_bytes (au_chain_id a) @ rlp_string (au_address a) @ u64_bytes (au_nonce a) @
     number_bytes (unat (au_y_parity a)) @ u256_bytes (au_r a) @ u256_bytes (au_s a))"

definition authorization_list_bytes :: "authorization_list_t \<Rightarrow> u8 list" where
  "authorization_list_bytes l = rlp_list (concat (map authorization_bytes (aul_entries l)))"

definition blob_hashes_bytes :: "hash_t list \<Rightarrow> u8 list" where
  "blob_hashes_bytes hs = rlp_list (concat (map rlp_string hs))"

definition access_list_wf :: "access_list_t \<Rightarrow> bool" where
  "access_list_wf l \<longleftrightarrow> (\<forall>e \<in> set (al_entries l). length (ale_address e) = ADDRESS_SIZE)"

definition authorization_list_wf :: "authorization_list_t \<Rightarrow> bool" where
  "authorization_list_wf l \<longleftrightarrow> (\<forall>a \<in> set (aul_entries l). length (au_address a) = ADDRESS_SIZE)"


section \<open>What a field reads\<close>

text \<open>A field that finds the given bytes turns the first transaction into the second.\<close>

definition reads :: "'t field \<Rightarrow> u8 list \<Rightarrow> 't \<Rightarrow> 't \<Rightarrow> bool" where
  "reads f bs tx tx' \<longleftrightarrow> (\<forall>dec rest. dec_wf dec \<longrightarrow> dec_rest dec = bs @ rest \<longrightarrow>
     f tx dec = Some (TX_DECODE_OK, tx', advance dec (length bs)))"

lemma reads_Nil: "reads (decode_fields []) [] tx tx"
  by (simp add: reads_def)

lemma reads_Cons:
  assumes "reads f bs tx tx1" "reads (decode_fields fs) cs tx1 tx'"
  shows "reads (decode_fields (f # fs)) (bs @ cs) tx tx'"
  unfolding reads_def
proof (intro allI impI)
  fix dec rest assume wf: "dec_wf dec" and r: "dec_rest dec = (bs @ cs) @ rest"
  have 1: "f tx dec = Some (TX_DECODE_OK, tx1, advance dec (length bs))" using assms(1) wf r by (simp add: reads_def)
  have "dec_wf (advance dec (length bs))" "dec_rest (advance dec (length bs)) = cs @ rest"
    using dec_wf_advance [OF wf, of "length bs"] r by simp_all
  then have "decode_fields fs tx1 (advance dec (length bs)) = Some (TX_DECODE_OK, tx', advance dec (length bs + length cs))"
    using assms(2) by (simp add: reads_def)
  then show "decode_fields (f # fs) tx dec = Some (TX_DECODE_OK, tx', advance dec (length (bs @ cs)))" using 1 by simp
qed

lemma reads_u64: "reads (DECODE_U64 upd) (u64_bytes v) tx (upd v tx)"
  using rlp_decode_u64_number by (auto simp: reads_def DECODE_U64_def)

lemma reads_uint256: "reads (DECODE_UINT256 upd) (u256_bytes v) tx (upd v tx)"
  using rlp_decode_uint256_number by (auto simp: reads_def DECODE_UINT256_def)

lemma to_u8_u8_to_u64: "to_u8 (u8_to_u64 v) = v"
  by (rule bit_word_eqI) (simp add: bit_ucast_iff)

lemma unat_byte: "unat (u8_to_u64 v) = unat v"
proof -
  have "unat v < 2 ^ 64" using unsigned_less [of v] by (rule order_less_le_trans) simp
  then show ?thesis by (simp add: unsigned_ucast_eq take_bit_nat_eq_self)
qed

lemma u8_number_reads:
  assumes "dec_wf d" "dec_rest d = number_bytes (unat (v :: u8)) @ rest"
  shows "rlp_decode_u64 d = (Inr (ucast v, length (number_bytes (unat v))), advance d (length (number_bytes (unat v))))"
  using rlp_decode_u64_number [of d "ucast v" rest] assms by (simp add: unat_byte)

lemma reads_yparity: "reads (DECODE_YPARITY upd) (number_bytes (unat (v :: u8))) tx (upd v tx)"
  using u8_number_reads by (auto simp: reads_def DECODE_YPARITY_def to_u8_u8_to_u64)

lemma reads_helper:
  assumes "\<And>dec rest. dec_wf dec \<Longrightarrow> dec_rest dec = bs @ rest \<Longrightarrow>
    helper (get tx) dec = Some (TX_DECODE_OK, v, advance dec (length bs))"
  shows "reads (CHECK_HELPER helper get upd) bs tx (upd v tx)"
  using assms by (auto simp: reads_def CHECK_HELPER_def)


section \<open>Addresses and data\<close>

lemma optional_address_reads:
  assumes "alloc_total alloc" "case a of None \<Rightarrow> True | Some addr \<Rightarrow> length addr = ADDRESS_SIZE"
    and "dec_wf dec" "dec_rest dec = rlp_string (case_option [] id a) @ rest"
  shows "decode_optional_address alloc out dec = Some (TX_DECODE_OK, a, advance dec (length (rlp_string (case_option [] id a))))"
proof -
  obtain buf where "alloc ADDRESS_SIZE = Some buf" using assms(1) by (auto simp: alloc_total_def)
  then show ?thesis
    using rlp_decode_string [OF assms(3,4)] assms(2)
    by (cases a) (auto simp: decode_optional_address_def ADDRESS_SIZE_def)
qed

lemma required_address_reads:
  assumes "length a = ADDRESS_SIZE" "dec_wf dec" "dec_rest dec = rlp_string a @ rest"
  shows "decode_required_address out dec = Some (TX_DECODE_OK, a, advance dec (length (rlp_string a)))"
  using rlp_decode_string [OF assms(2,3)] assms(1) by (simp add: decode_required_address_def rlp_decode_address_def)

text \<open>The copy of some bytes in an arena.\<close>

definition arena_copy :: "u8 list \<Rightarrow> bytes_t" where
  "arena_copy d = \<lparr>bytes_data = (if d = [] then None else Some d), bytes_size = length d, bytes_capacity = length d,
     bytes_arena = True\<rparr>"

lemma arena_copy_contents [simp]: "bytes_contents (arena_copy d) = d"
  by (simp add: bytes_contents_def arena_copy_def)

lemma tx_data_reads:
  assumes "alloc_total alloc" "dec_wf dec" "dec_rest dec = rlp_string d @ rest"
  shows "decode_tx_data alloc out dec = Some (TX_DECODE_OK, arena_copy d, advance dec (length (rlp_string d)))"
proof (cases "d = []")
  case True
  then show ?thesis
    using rlp_decode_string [OF assms(2,3)] by (simp add: decode_tx_data_def arena_copy_def bytes_init_arena_def)
next
  case False
  obtain buf where buf: "alloc (length d) = Some buf" "length buf = length d"
    using assms(1) unfolding alloc_total_def alloc_sound_def by (metis not_None_eq)
  then show ?thesis
    using False rlp_decode_string [OF assms(2,3)]
    by (simp add: decode_tx_data_def arena_copy_def bytes_init_arena_def bytes_reserve_def memcpy_at_def)
qed


section \<open>Lists\<close>

lemma rlp_string_nonempty [simp]: "rlp_string d \<noteq> []"
  by (auto simp: rlp_string_def rlp_header_def)

lemma rlp_list_nonempty [simp]: "rlp_list d \<noteq> []"
  by (simp add: rlp_list_def rlp_header_def)

text \<open>
  A list that is read item by item: if one item is read by \<open>item\<close>, the header is followed by a loop
  that reads them all.
\<close>

lemma advance_reads:
  assumes "dec_wf (advance dec m)" "dec_rest (advance dec m) = bs @ rest" "n = length bs"
  shows "dec_wf (advance dec (m + n))" "dec_rest (advance dec (m + n)) = rest"
proof -
  have "length bs \<le> length (dec_rest (advance dec m))" using assms(2) by simp
  from dec_wf_advance [OF assms(1) this] show "dec_wf (advance dec (m + n))" by (simp add: assms(3))
  have "dec_rest (advance (advance dec m) n) = rest" using assms(2,3) by (simp only: dec_rest_advance) simp
  then show "dec_rest (advance dec (m + n)) = rest" by (simp only: advance_advance)
qed

lemma list_header_reads:
  assumes "dec_wf dec" "dec_rest dec = rlp_list p @ rest"
  defines "h \<equiv> length (rlp_header 0xC0 (length p))"
  shows "rlp_decode_list_header dec = (Inr (length p, h), advance dec h)"
    "dec_wf (advance dec h)" "dec_rest (advance dec h) = p @ rest"
    "(dec_pos (advance dec h) + length p) mod 2 ^ 64 = dec_pos (advance dec h) + length p"
    "advance dec (h + length p) = advance dec (length (rlp_list p))"
    "length (rlp_list p) \<le> length (dec_rest dec)"
proof -
  have l: "length (dec_rest dec) < 2 ^ 64" "dec_pos dec + length (dec_rest dec) < 2 ^ 64"
    using assms(1) by (auto simp: dec_wf_def dec_rest_def)
  have r: "dec_rest dec = rlp_header 0xC0 (length p) @ p @ rest" using assms(2) by (simp add: rlp_list_def)
  then show "rlp_decode_list_header dec = (Inr (length p, h), advance dec h)"
    using rlp_decode_header [OF assms(1) r] l by (simp add: h_def)
  show "dec_wf (advance dec h)" using dec_wf_advance [OF assms(1), of h] r by (simp add: h_def)
  show "dec_rest (advance dec h) = p @ rest" using r by (simp add: h_def)
  show "(dec_pos (advance dec h) + length p) mod 2 ^ 64 = dec_pos (advance dec h) + length p"
    using l(2) r by (simp add: h_def)
  show "advance dec (h + length p) = advance dec (length (rlp_list p))" "length (rlp_list p) \<le> length (dec_rest dec)"
    using r by (simp_all add: h_def rlp_list_def)
qed

lemma decode_keys_reads:
  assumes "dec_wf dec" "dec_rest dec = concat (map u256_bytes ks) @ rest"
  shows "decode_keys (dec_pos dec + length (concat (map u256_bytes ks))) dec keys =
    (Inr (keys @ ks), advance dec (length (concat (map u256_bytes ks))))"
  using assms
proof (induction ks arbitrary: dec keys)
  case (Cons k ks)
  define n where "n = length (u256_bytes k)"
  have 1: "rlp_decode_uint256 dec = (Inr (k, n), advance dec n)"
    using rlp_decode_uint256_number [OF Cons.prems(1), of k] Cons.prems(2) by (simp add: n_def)
  have "dec_wf (advance dec n)" "dec_rest (advance dec n) = concat (map u256_bytes ks) @ rest"
    using dec_wf_advance [OF Cons.prems(1), of n] Cons.prems(2) by (simp_all add: n_def)
  from Cons.IH [OF this, of "keys @ [k]"] 1 show ?case
    by (subst decode_keys.simps) (simp add: n_def add.assoc)
qed (simp add: decode_keys.simps)

lemma decode_access_entry_reads:
  assumes "length (ale_address e) = ADDRESS_SIZE" "dec_wf dec" "dec_rest dec = entry_bytes e @ rest"
  shows "decode_access_entry dec = (Inr e, advance dec (length (entry_bytes e)))"
proof -
  define ks where "ks = concat (map u256_bytes (ale_storage_keys e))"
  define p where "p = rlp_string (ale_address e) @ rlp_list ks"
  define h a k where "h = length (rlp_header 0xC0 (length p))" and "a = length (rlp_string (ale_address e))"
    and "k = length (rlp_header 0xC0 (length ks))"
  have "dec_rest dec = rlp_list p @ rest" using assms(3) by (simp add: entry_bytes_def p_def ks_def)
  note H = list_header_reads [OF assms(2) this, folded h_def]
  have r1: "dec_rest (advance dec h) = rlp_string (ale_address e) @ rlp_list ks @ rest"
    unfolding H(3) by (simp add: p_def)
  have 1: "rlp_decode_address (advance dec h) = (Inr (ale_address e, a), advance dec (h + a))"
    using rlp_decode_string [OF H(2) r1] assms(1) by (simp add: rlp_decode_address_def a_def)
  note K = list_header_reads [OF advance_reads [OF H(2) r1 a_def], folded k_def, unfolded advance_advance]
  have key: "decode_keys (dec_pos (advance dec (h + a + k)) + length ks) (advance dec (h + a + k)) [] =
      (Inr (ale_storage_keys e), advance dec (length (entry_bytes e)))"
  proof -
    have "h + a + k + length ks = length (entry_bytes e)"
      by (simp add: entry_bytes_def ks_def [symmetric] p_def [symmetric] rlp_list_def h_def a_def k_def)
        (simp add: p_def rlp_list_def)
    then show ?thesis
      using decode_keys_reads [of "advance dec (h + a + k)" "ale_storage_keys e" rest "[]"] K(2,3) by (simp add: ks_def)
  qed
  have e0: "ks = [] \<longleftrightarrow> ale_storage_keys e = []" by (auto simp: ks_def)
  show ?thesis
  proof (cases "ks = []")
    case True
    then have "decode_access_entry dec = (Inr e, advance dec (h + a + k))"
      using H(1) 1 K(1) e0 by (simp add: decode_access_entry_def)
    then show ?thesis using key True by (simp add: decode_keys.simps)
  next
    case False
    then show ?thesis using H(1) 1 K(1,4) key by (simp add: decode_access_entry_def)
  qed
qed


lemma decode_access_entries_reads:
  assumes "\<forall>e \<in> set es. length (ale_address e) = ADDRESS_SIZE" "dec_wf dec" "dec_rest dec = concat (map entry_bytes es) @ rest"
  shows "decode_access_entries (dec_pos dec + length (concat (map entry_bytes es))) dec acc =
    (Inr (acc @ es), advance dec (length (concat (map entry_bytes es))))"
  using assms
proof (induction es arbitrary: dec acc)
  case (Cons e es)
  define n where "n = length (entry_bytes e)"
  have n0: "n \<noteq> 0" by (simp add: n_def entry_bytes_def)
  have r: "dec_rest dec = entry_bytes e @ concat (map entry_bytes es) @ rest" using Cons.prems(3) by simp
  have 1: "decode_access_entry dec = (Inr e, advance dec n)"
    using decode_access_entry_reads [OF _ Cons.prems(2) r] Cons.prems(1) by (simp add: n_def)
  note a = advance_reads [of dec 0, unfolded advance_0 add_0, OF Cons.prems(2) r n_def]
  from Cons.IH [OF _ a, of "acc @ [e]"] Cons.prems(1) 1 n0 show ?case
    by (subst decode_access_entries.simps) (simp add: n_def add.assoc)
qed (simp add: decode_access_entries.simps)

lemma access_list_reads:
  assumes "access_list_wf l" "dec_wf dec" "dec_rest dec = access_list_bytes l @ rest"
  shows "decode_access_list out dec = Some (TX_DECODE_OK, l, advance dec (length (access_list_bytes l)))"
proof -
  define p where "p = concat (map entry_bytes (al_entries l))"
  note H = list_header_reads [OF assms(2), of p rest, unfolded p_def, folded access_list_bytes_def, OF assms(3), folded p_def]
  show ?thesis
  proof (cases "al_entries l = []")
    case True
    then have "l = access_list_init" by (simp add: access_list_init_def)
    then show ?thesis using H(1,5) True by (simp add: decode_access_list_def p_def)
  next
    case False
    then have "length p \<noteq> 0" by (auto simp: p_def neq_Nil_conv entry_bytes_def)
    then show ?thesis
      using H(1,4,5) decode_access_entries_reads [of "al_entries l", OF _ H(2), folded p_def, OF _ H(3), of "[]"] assms(1)
      by (simp add: decode_access_list_def access_list_wf_def)
  qed
qed

lemma decode_authorization_reads:
  assumes "length (au_address a) = ADDRESS_SIZE" "dec_wf dec" "dec_rest dec = authorization_bytes a @ rest"
  shows "decode_authorization dec = (Inr a, advance dec (length (authorization_bytes a)))"
proof -
  define c ad n y r s where "c = u64_bytes (au_chain_id a)" and "ad = rlp_string (au_address a)" and "n = u64_bytes (au_nonce a)"
    and "y = number_bytes (unat (au_y_parity a))" and "r = u256_bytes (au_r a)" and "s = u256_bytes (au_s a)"
  define p where "p = c @ ad @ n @ y @ r @ s"
  have ab: "authorization_bytes a = rlp_list p" by (simp add: authorization_bytes_def p_def c_def ad_def n_def y_def r_def s_def)
  define h where "h = length (rlp_header 0xC0 (length p))"
  note H = list_header_reads [OF assms(2) assms(3) [unfolded ab], folded h_def]
  note r1 = H(3) [unfolded p_def append_assoc]
  note a1 = advance_reads [OF H(2) r1 refl]
  note a2 = advance_reads [OF a1 refl]
  note a3 = advance_reads [OF a2 refl]
  note a4 = advance_reads [OF a3 refl]
  note a5 = advance_reads [OF a4 refl]
  have "rlp_decode_u64 (advance dec h) = (Inr (au_chain_id a, length c), advance dec (h + length c))"
    using rlp_decode_u64_number [OF H(2) r1 [unfolded c_def]] by (simp add: c_def)
  moreover have "rlp_decode_address (advance dec (h + length c)) = (Inr (au_address a, length ad), advance dec (h + length c + length ad))"
    using rlp_decode_string [OF a1(1), of "au_address a"] a1(2) assms(1) by (simp add: rlp_decode_address_def ad_def)
  moreover have "rlp_decode_u64 (advance dec (h + length c + length ad)) =
      (Inr (au_nonce a, length n), advance dec (h + length c + length ad + length n))"
    using rlp_decode_u64_number [OF a2(1), of "au_nonce a"] a2(2) by (simp add: n_def)
  moreover have "rlp_decode_u64 (advance dec (h + length c + length ad + length n)) =
      (Inr (ucast (au_y_parity a), length y), advance dec (h + length c + length ad + length n + length y))"
    using u8_number_reads [OF a3(1), of "au_y_parity a"] a3(2) by (simp add: y_def)
  moreover have "rlp_decode_uint256 (advance dec (h + length c + length ad + length n + length y)) =
      (Inr (au_r a, length r), advance dec (h + length c + length ad + length n + length y + length r))"
    using rlp_decode_uint256_number [OF a4(1), of "au_r a"] a4(2) by (simp add: r_def)
  moreover have "rlp_decode_uint256 (advance dec (h + length c + length ad + length n + length y + length r)) =
      (Inr (au_s a, length s), advance dec (h + length c + length ad + length n + length y + length r + length s))"
    using rlp_decode_uint256_number [OF a5(1), of "au_s a"] a5(2) by (simp add: s_def)
  moreover have "h + length c + length ad + length n + length y + length r + length s = length (authorization_bytes a)"
    by (simp add: ab rlp_list_def h_def p_def)
  ultimately show ?thesis using H(1) by (simp add: decode_authorization_def to_u8_u8_to_u64)
qed

lemma decode_authorizations_reads:
  assumes "\<forall>a \<in> set as. length (au_address a) = ADDRESS_SIZE" "dec_wf dec" "dec_rest dec = concat (map authorization_bytes as) @ rest"
  shows "decode_authorizations (dec_pos dec + length (concat (map authorization_bytes as))) dec acc =
    (Inr (acc @ as), advance dec (length (concat (map authorization_bytes as))))"
  using assms
proof (induction as arbitrary: dec acc)
  case (Cons a as)
  define n where "n = length (authorization_bytes a)"
  have n0: "n \<noteq> 0" by (simp add: n_def authorization_bytes_def)
  have r: "dec_rest dec = authorization_bytes a @ concat (map authorization_bytes as) @ rest" using Cons.prems(3) by simp
  have 1: "decode_authorization dec = (Inr a, advance dec n)"
    using decode_authorization_reads [OF _ Cons.prems(2) r] Cons.prems(1) by (simp add: n_def)
  note a = advance_reads [of dec 0, unfolded advance_0 add_0, OF Cons.prems(2) r n_def]
  from Cons.IH [OF _ a, of "acc @ [a]"] Cons.prems(1) 1 n0 show ?case
    by (subst decode_authorizations.simps) (simp add: n_def add.assoc)
qed (simp add: decode_authorizations.simps)

lemma authorization_list_reads:
  assumes "authorization_list_wf l" "dec_wf dec" "dec_rest dec = authorization_list_bytes l @ rest"
  shows "decode_authorization_list out dec = Some (TX_DECODE_OK, l, advance dec (length (authorization_list_bytes l)))"
proof -
  define p where "p = concat (map authorization_bytes (aul_entries l))"
  note H = list_header_reads [OF assms(2), of p rest, unfolded p_def, folded authorization_list_bytes_def, OF assms(3), folded p_def]
  show ?thesis
  proof (cases "aul_entries l = []")
    case True
    then have "l = authorization_list_init" by (simp add: authorization_list_init_def)
    then show ?thesis using H(1,5) True by (simp add: decode_authorization_list_def p_def)
  next
    case False
    then have "length p \<noteq> 0" by (auto simp: p_def neq_Nil_conv authorization_bytes_def)
    then show ?thesis
      using H(1,4,5) decode_authorizations_reads [of "aul_entries l", OF _ H(2), folded p_def, OF _ H(3), of "[]"] assms(1)
      by (simp add: decode_authorization_list_def authorization_list_wf_def)
  qed
qed


section \<open>Blob hashes\<close>

lemma count_items_reads:
  assumes "dec_wf dec" "dec_rest dec = concat (map rlp_string hs) @ rest"
  shows "count_items (dec_pos dec + length (concat (map rlp_string hs))) dec n = Some (n + length hs)"
  using assms
proof (induction hs arbitrary: dec n)
  case (Cons h hs)
  define k where "k = length (rlp_string h)"
  have r: "dec_rest dec = rlp_string h @ concat (map rlp_string hs) @ rest" using Cons.prems(2) by simp
  have 1: "rlp_skip_item dec = advance dec k" "k \<noteq> 0" using skip_string [OF Cons.prems(1) r] by (simp_all add: k_def)
  note a = advance_reads [of dec 0, unfolded advance_0 add_0, OF Cons.prems(1) r k_def]
  from Cons.IH [OF a, of "n + 1"] 1 show ?case by (subst count_items.simps) (simp add: k_def add.assoc)
qed (simp add: count_items.simps)

lemma decode_hashes_reads:
  assumes "dec_wf dec" "dec_rest dec = concat (map rlp_string hs) @ rest" "\<forall>h \<in> set hs. length h = HASH_SIZE"
    and "t3_blob_versioned_hashes tx = xs @ ys" "length ys = length hs"
  shows "decode_hashes [length xs..<length xs + length hs] tx dec =
    (TX_DECODE_OK, tx\<lparr>t3_blob_versioned_hashes := xs @ hs\<rparr>, advance dec (length (concat (map rlp_string hs))))"
  using assms
proof (induction hs arbitrary: dec tx xs ys)
  case (Cons h hs)
  define k where "k = length (rlp_string h)"
  have r: "dec_rest dec = rlp_string h @ concat (map rlp_string hs) @ rest" using Cons.prems(2) by simp
  have 1: "rlp_decode_bytes dec = (Inr (h, k), advance dec k)" using rlp_decode_string [OF Cons.prems(1) r] by (simp add: k_def)
  note a = advance_reads [of dec 0, unfolded advance_0 add_0, OF Cons.prems(1) r k_def]
  obtain y ys' where ys: "ys = y # ys'" "length ys' = length hs" using Cons.prems(5) by (cases ys) auto
  define tx1 where "tx1 = tx\<lparr>t3_blob_versioned_hashes := (xs @ [h]) @ ys'\<rparr>"
  have "(t3_blob_versioned_hashes tx)[length xs := hash_from_bytes h] = (xs @ [h]) @ ys'"
    using Cons.prems(3,4) ys by (simp add: hash_from_bytes_def)
  moreover have up: "[length xs..<length xs + length (h # hs)] = length xs # [length (xs @ [h])..<length (xs @ [h]) + length hs]"
    by (subst upt_conv_Cons) simp_all
  ultimately have "decode_hashes [length xs..<length xs + length (h # hs)] tx dec =
      decode_hashes [length (xs @ [h])..<length (xs @ [h]) + length hs] tx1 (advance dec k)"
    unfolding up using 1 Cons.prems(3) by (simp add: tx1_def del: upt.simps)
  also have "\<dots> = (TX_DECODE_OK, tx\<lparr>t3_blob_versioned_hashes := xs @ h # hs\<rparr>,
      advance dec (length (concat (map rlp_string (h # hs)))))"
    using Cons.IH [OF a, of tx1 "xs @ [h]" ys'] Cons.prems(3) ys(2) by (simp add: tx1_def k_def)
  finally show ?case .
qed simp

lemma blob_hashes_reads:
  assumes "alloc_total alloc" "\<forall>h \<in> set hs. length h = HASH_SIZE" "dec_wf dec" "dec_rest dec = blob_hashes_bytes hs @ rest"
  shows "decode_blob_hashes alloc tx dec =
    Some (TX_DECODE_OK, tx\<lparr>t3_blob_versioned_hashes := hs\<rparr>, advance dec (length (blob_hashes_bytes hs)))"
proof -
  define p where "p = concat (map rlp_string hs)"
  define h where "h = length (rlp_header 0xC0 (length p))"
  have b: "blob_hashes_bytes hs = rlp_list p" by (simp add: blob_hashes_bytes_def p_def)
  note H = list_header_reads [OF assms(3) assms(4) [unfolded b], folded h_def]
  show ?thesis
  proof (cases "hs = []")
    case True
    then show ?thesis using H(1,5) b by (simp add: decode_blob_hashes_def p_def)
  next
    case False
    then have p0: "length p \<noteq> 0" by (auto simp: p_def neq_Nil_conv)
    obtain buf where "alloc (length hs * HASH_SIZE mod 2 ^ 64) = Some buf" using assms(1) by (auto simp: alloc_total_def)
    then obtain ys where al: "eip4844_tx_alloc_blob_hashes alloc tx (length hs) = (True, tx\<lparr>t3_blob_versioned_hashes := ys\<rparr>)"
        "length ys = length hs"
      using False by (auto simp: eip4844_tx_alloc_blob_hashes_def)
    from decode_hashes_reads [OF H(2) H(3) [unfolded p_def] assms(2), of "tx\<lparr>t3_blob_versioned_hashes := ys\<rparr>" "[]" ys] al(2)
    have "decode_hashes [0..<length hs] (tx\<lparr>t3_blob_versioned_hashes := ys\<rparr>) (advance dec h) =
        (TX_DECODE_OK, tx\<lparr>t3_blob_versioned_hashes := hs\<rparr>, advance dec (length (blob_hashes_bytes hs)))"
      using H(5) b by (simp add: p_def)
    then show ?thesis
      using H(1,4) p0 al(1) count_items_reads [OF H(2) H(3) [unfolded p_def], folded p_def, of 0]
      by (simp add: decode_blob_hashes_def)
  qed
qed


section \<open>Transactions\<close>

text \<open>The fields of a transaction that are signed, and the signature.\<close>

abbreviation to_bytes :: "address_t option \<Rightarrow> u8 list" where "to_bytes a \<equiv> rlp_string (case_option [] id a)"

abbreviation data_bytes :: "bytes_t \<Rightarrow> u8 list" where "data_bytes b \<equiv> rlp_string (bytes_contents b)"

abbreviation parity_bytes :: "u8 \<Rightarrow> u8 list" where "parity_bytes v \<equiv> number_bytes (unat v)"

fun signed_fields :: "transaction_t \<Rightarrow> u8 list" where
  "signed_fields (Tx_legacy tx) = u64_bytes (lt_nonce tx) @ u256_bytes (lt_gas_price tx) @ u64_bytes (lt_gas_limit tx) @
     to_bytes (lt_to tx) @ u256_bytes (lt_value tx) @ data_bytes (lt_data tx)"
| "signed_fields (Tx_eip2930 tx) = u64_bytes (t1_chain_id tx) @ u64_bytes (t1_nonce tx) @ u256_bytes (t1_gas_price tx) @
     u64_bytes (t1_gas_limit tx) @ to_bytes (t1_to tx) @ u256_bytes (t1_value tx) @ data_bytes (t1_data tx) @
     access_list_bytes (t1_access_list tx)"
| "signed_fields (Tx_eip1559 tx) = u64_bytes (t2_chain_id tx) @ u64_bytes (t2_nonce tx) @
     u256_bytes (t2_max_priority_fee_per_gas tx) @ u256_bytes (t2_max_fee_per_gas tx) @ u64_bytes (t2_gas_limit tx) @
     to_bytes (t2_to tx) @ u256_bytes (t2_value tx) @ data_bytes (t2_data tx) @ access_list_bytes (t2_access_list tx)"
| "signed_fields (Tx_eip4844 tx) = u64_bytes (t3_chain_id tx) @ u64_bytes (t3_nonce tx) @
     u256_bytes (t3_max_priority_fee_per_gas tx) @ u256_bytes (t3_max_fee_per_gas tx) @ u64_bytes (t3_gas_limit tx) @
     rlp_string (t3_to tx) @ u256_bytes (t3_value tx) @ data_bytes (t3_data tx) @ access_list_bytes (t3_access_list tx) @
     u256_bytes (t3_max_fee_per_blob_gas tx) @ blob_hashes_bytes (t3_blob_versioned_hashes tx)"
| "signed_fields (Tx_eip7702 tx) = u64_bytes (t4_chain_id tx) @ u64_bytes (t4_nonce tx) @
     u256_bytes (t4_max_priority_fee_per_gas tx) @ u256_bytes (t4_max_fee_per_gas tx) @ u64_bytes (t4_gas_limit tx) @
     rlp_string (t4_to tx) @ u256_bytes (t4_value tx) @ data_bytes (t4_data tx) @ access_list_bytes (t4_access_list tx) @
     authorization_list_bytes (t4_authorization_list tx)"

fun signature_fields :: "transaction_t \<Rightarrow> u8 list" where
  "signature_fields (Tx_legacy tx) = u64_bytes (lt_v tx) @ u256_bytes (lt_r tx) @ u256_bytes (lt_s tx)"
| "signature_fields (Tx_eip2930 tx) = parity_bytes (t1_y_parity tx) @ u256_bytes (t1_r tx) @ u256_bytes (t1_s tx)"
| "signature_fields (Tx_eip1559 tx) = parity_bytes (t2_y_parity tx) @ u256_bytes (t2_r tx) @ u256_bytes (t2_s tx)"
| "signature_fields (Tx_eip4844 tx) = parity_bytes (t3_y_parity tx) @ u256_bytes (t3_r tx) @ u256_bytes (t3_s tx)"
| "signature_fields (Tx_eip7702 tx) = parity_bytes (t4_y_parity tx) @ u256_bytes (t4_r tx) @ u256_bytes (t4_s tx)"

text \<open>The byte that tells the kind; a legacy transaction has none.\<close>

fun type_prefix :: "transaction_t \<Rightarrow> u8 list" where
  "type_prefix (Tx_legacy tx) = []"
| "type_prefix tx = [tx_type_code (transaction_type tx)]"

definition transaction_bytes :: "transaction_t \<Rightarrow> u8 list" where
  "transaction_bytes tx = type_prefix tx @ rlp_list (signed_fields tx @ signature_fields tx)"

text \<open>Addresses have 20 bytes and hashes 32.\<close>

definition to_wf :: "address_t option \<Rightarrow> bool" where
  "to_wf a \<longleftrightarrow> (case a of None \<Rightarrow> True | Some addr \<Rightarrow> length addr = ADDRESS_SIZE)"

fun transaction_wf :: "transaction_t \<Rightarrow> bool" where
  "transaction_wf (Tx_legacy tx) \<longleftrightarrow> to_wf (lt_to tx)"
| "transaction_wf (Tx_eip2930 tx) \<longleftrightarrow> to_wf (t1_to tx) \<and> access_list_wf (t1_access_list tx)"
| "transaction_wf (Tx_eip1559 tx) \<longleftrightarrow> to_wf (t2_to tx) \<and> access_list_wf (t2_access_list tx)"
| "transaction_wf (Tx_eip4844 tx) \<longleftrightarrow> length (t3_to tx) = ADDRESS_SIZE \<and> access_list_wf (t3_access_list tx) \<and>
     (\<forall>h \<in> set (t3_blob_versioned_hashes tx). length h = HASH_SIZE)"
| "transaction_wf (Tx_eip7702 tx) \<longleftrightarrow> length (t4_to tx) = ADDRESS_SIZE \<and> access_list_wf (t4_access_list tx) \<and>
     authorization_list_wf (t4_authorization_list tx)"

text \<open>The transaction with its data in a fresh buffer.\<close>

fun recopied :: "transaction_t \<Rightarrow> transaction_t" where
  "recopied (Tx_legacy tx) = Tx_legacy (tx\<lparr>lt_data := arena_copy (bytes_contents (lt_data tx))\<rparr>)"
| "recopied (Tx_eip2930 tx) = Tx_eip2930 (tx\<lparr>t1_data := arena_copy (bytes_contents (t1_data tx))\<rparr>)"
| "recopied (Tx_eip1559 tx) = Tx_eip1559 (tx\<lparr>t2_data := arena_copy (bytes_contents (t2_data tx))\<rparr>)"
| "recopied (Tx_eip4844 tx) = Tx_eip4844 (tx\<lparr>t3_data := arena_copy (bytes_contents (t3_data tx))\<rparr>)"
| "recopied (Tx_eip7702 tx) = Tx_eip7702 (tx\<lparr>t4_data := arena_copy (bytes_contents (t4_data tx))\<rparr>)"

lemma reads_single: "reads f bs tx tx' \<Longrightarrow> reads (decode_fields [f]) bs tx tx'"
  by (auto simp: reads_def)

lemma reads_cong: "reads f bs tx t \<Longrightarrow> t = t' \<Longrightarrow> reads f bs tx t'"
  by simp

lemma reads_optional_address:
  "alloc_total alloc \<Longrightarrow> to_wf a \<Longrightarrow> reads (CHECK_HELPER (decode_optional_address alloc) get upd) (to_bytes a) tx (upd a tx)"
  by (rule reads_helper, rule optional_address_reads) (auto simp: to_wf_def)

lemma reads_required_address:
  "length a = ADDRESS_SIZE \<Longrightarrow> reads (CHECK_HELPER decode_required_address get upd) (rlp_string a) tx (upd a tx)"
  by (rule reads_helper, rule required_address_reads)

lemma reads_data:
  "alloc_total alloc \<Longrightarrow> reads (CHECK_HELPER (decode_tx_data alloc) get upd) (rlp_string d) tx (upd (arena_copy d) tx)"
  by (rule reads_helper, rule tx_data_reads)

lemma reads_access_list:
  "access_list_wf l \<Longrightarrow> reads (CHECK_HELPER decode_access_list get upd) (access_list_bytes l) tx (upd l tx)"
  by (rule reads_helper, rule access_list_reads)

lemma reads_authorization_list:
  "authorization_list_wf l \<Longrightarrow>
    reads (CHECK_HELPER decode_authorization_list get upd) (authorization_list_bytes l) tx (upd l tx)"
  by (rule reads_helper, rule authorization_list_reads)

lemma reads_blob_hashes:
  "alloc_total alloc \<Longrightarrow> \<forall>h \<in> set hs. length h = HASH_SIZE \<Longrightarrow>
    reads (CHECK_HELPER (decode_blob_hashes alloc) id (\<lambda>v tx. v)) (blob_hashes_bytes hs) tx (tx\<lparr>t3_blob_versioned_hashes := hs\<rparr>)"
  by (rule reads_helper [of _ _ _ _ _ "\<lambda>v tx. v"]) (simp add: blob_hashes_reads)

lemma decode_tx_reads:
  assumes "reads (decode_fields fs) p init tx" "length (rlp_list p) < 2 ^ 64"
  shows "decode_tx init fs (rlp_list p) =
    Some (\<lparr>txr_error = TX_DECODE_OK, txr_bytes_consumed = length (rlp_list p)\<rparr>, Some tx)"
proof -
  define d h where "d = rlp_decoder_init (rlp_list p)" and "h = length (rlp_header 0xC0 (length p))"
  have "dec_wf d" "dec_rest d = rlp_list p @ []"
    using assms(2) by (simp_all add: d_def dec_wf_def dec_rest_def rlp_decoder_init_def)
  note H = list_header_reads [OF this, folded h_def]
  have "decode_fields fs init (advance d h) = Some (TX_DECODE_OK, tx, advance d (h + length p))"
    using assms(1) H(2,3) by (simp add: reads_def)
  moreover have "(h + length p) mod 2 ^ 64 = length (rlp_list p)" using assms(2) by (simp add: h_def rlp_list_def)
  ultimately show ?thesis using H(1) by (simp add: decode_tx_def d_def [symmetric])
qed

lemma legacy_tx_decode_reads:
  assumes "alloc_total alloc" "transaction_wf (Tx_legacy tx)"
  defines "p \<equiv> signed_fields (Tx_legacy tx) @ signature_fields (Tx_legacy tx)"
  assumes "length (rlp_list p) < 2 ^ 64"
  shows "legacy_tx_decode alloc (rlp_list p) = Some (\<lparr>txr_error = TX_DECODE_OK, txr_bytes_consumed = length (rlp_list p)\<rparr>,
    Some (tx\<lparr>lt_data := arena_copy (bytes_contents (lt_data tx))\<rparr>))"
proof -
  have w: "to_wf (lt_to tx)" using assms(2) by simp_all
  note R = reads_u64 reads_uint256 reads_yparity reads_data [OF assms(1)]
    reads_optional_address [OF assms(1) w]
  show ?thesis
    unfolding legacy_tx_decode_def
    apply (rule decode_tx_reads [OF _ assms(4)], rule reads_cong, unfold p_def signed_fields.simps signature_fields.simps append_assoc)
     apply ((rule reads_Cons, rule R)+, rule reads_single, rule R)
    apply simp
    done
qed

lemma eip2930_tx_decode_reads:
  assumes "alloc_total alloc" "transaction_wf (Tx_eip2930 tx)"
  defines "p \<equiv> signed_fields (Tx_eip2930 tx) @ signature_fields (Tx_eip2930 tx)"
  assumes "length (rlp_list p) < 2 ^ 64"
  shows "eip2930_tx_decode alloc (rlp_list p) = Some (\<lparr>txr_error = TX_DECODE_OK, txr_bytes_consumed = length (rlp_list p)\<rparr>,
    Some (tx\<lparr>t1_data := arena_copy (bytes_contents (t1_data tx))\<rparr>))"
proof -
  have w: "to_wf (t1_to tx)" "access_list_wf (t1_access_list tx)" using assms(2) by simp_all
  note R = reads_u64 reads_uint256 reads_yparity reads_data [OF assms(1)]
    reads_optional_address [OF assms(1) w(1)] reads_access_list [OF w(2)]
  show ?thesis
    unfolding eip2930_tx_decode_def
    apply (rule decode_tx_reads [OF _ assms(4)], rule reads_cong, unfold p_def signed_fields.simps signature_fields.simps append_assoc)
     apply ((rule reads_Cons, rule R)+, rule reads_single, rule R)
    apply simp
    done
qed

lemma eip1559_tx_decode_reads:
  assumes "alloc_total alloc" "transaction_wf (Tx_eip1559 tx)"
  defines "p \<equiv> signed_fields (Tx_eip1559 tx) @ signature_fields (Tx_eip1559 tx)"
  assumes "length (rlp_list p) < 2 ^ 64"
  shows "eip1559_tx_decode alloc (rlp_list p) = Some (\<lparr>txr_error = TX_DECODE_OK, txr_bytes_consumed = length (rlp_list p)\<rparr>,
    Some (tx\<lparr>t2_data := arena_copy (bytes_contents (t2_data tx))\<rparr>))"
proof -
  have w: "to_wf (t2_to tx)" "access_list_wf (t2_access_list tx)" using assms(2) by simp_all
  note R = reads_u64 reads_uint256 reads_yparity reads_data [OF assms(1)]
    reads_optional_address [OF assms(1) w(1)] reads_access_list [OF w(2)]
  show ?thesis
    unfolding eip1559_tx_decode_def
    apply (rule decode_tx_reads [OF _ assms(4)], rule reads_cong, unfold p_def signed_fields.simps signature_fields.simps append_assoc)
     apply ((rule reads_Cons, rule R)+, rule reads_single, rule R)
    apply simp
    done
qed

lemma eip4844_tx_decode_reads:
  assumes "alloc_total alloc" "transaction_wf (Tx_eip4844 tx)"
  defines "p \<equiv> signed_fields (Tx_eip4844 tx) @ signature_fields (Tx_eip4844 tx)"
  assumes "length (rlp_list p) < 2 ^ 64"
  shows "eip4844_tx_decode alloc (rlp_list p) = Some (\<lparr>txr_error = TX_DECODE_OK, txr_bytes_consumed = length (rlp_list p)\<rparr>,
    Some (tx\<lparr>t3_data := arena_copy (bytes_contents (t3_data tx))\<rparr>))"
proof -
  have w: "length (t3_to tx) = ADDRESS_SIZE" "access_list_wf (t3_access_list tx)" "\<forall>h \<in> set (t3_blob_versioned_hashes tx). length h = HASH_SIZE" using assms(2) by simp_all
  note R = reads_u64 reads_uint256 reads_yparity reads_data [OF assms(1)]
    reads_required_address [OF w(1)] reads_access_list [OF w(2)] reads_blob_hashes [OF assms(1) w(3)]
  show ?thesis
    unfolding eip4844_tx_decode_def
    apply (rule decode_tx_reads [OF _ assms(4)], rule reads_cong, unfold p_def signed_fields.simps signature_fields.simps append_assoc)
     apply ((rule reads_Cons, rule R)+, rule reads_single, rule R)
    apply simp
    done
qed

lemma eip7702_tx_decode_reads:
  assumes "alloc_total alloc" "transaction_wf (Tx_eip7702 tx)"
  defines "p \<equiv> signed_fields (Tx_eip7702 tx) @ signature_fields (Tx_eip7702 tx)"
  assumes "length (rlp_list p) < 2 ^ 64"
  shows "eip7702_tx_decode alloc (rlp_list p) = Some (\<lparr>txr_error = TX_DECODE_OK, txr_bytes_consumed = length (rlp_list p)\<rparr>,
    Some (tx\<lparr>t4_data := arena_copy (bytes_contents (t4_data tx))\<rparr>))"
proof -
  have w: "length (t4_to tx) = ADDRESS_SIZE" "access_list_wf (t4_access_list tx)" "authorization_list_wf (t4_authorization_list tx)" using assms(2) by simp_all
  note R = reads_u64 reads_uint256 reads_yparity reads_data [OF assms(1)]
    reads_required_address [OF w(1)] reads_access_list [OF w(2)] reads_authorization_list [OF w(3)]
  show ?thesis
    unfolding eip7702_tx_decode_def
    apply (rule decode_tx_reads [OF _ assms(4)], rule reads_cong, unfold p_def signed_fields.simps signature_fields.simps append_assoc)
     apply ((rule reads_Cons, rule R)+, rule reads_single, rule R)
    apply simp
    done
qed


lemma list_prefix_ge: "length p < 2 ^ 64 \<Longrightarrow> (0xc0 :: u8) \<le> hd (rlp_list p)"
proof -
  assume l: "length p < 2 ^ 64"
  have "(0xc0 :: u8) \<le> 0xC0 + of_nat n" if "n < 64" for n
  proof -
    have "unat (of_nat n :: u8) = n" using that by (simp add: unat_of_nat)
    then have "unat (0xC0 + of_nat n :: u8) = 192 + n" using that by (simp add: unat_word_ariths)
    then show ?thesis by (simp add: word_le_nat_alt)
  qed
  from this [of "length p"] this [of "55 + length (be_digits (length p))"] length_of_length(4) [OF _ l]
  show ?thesis by (auto simp: rlp_list_def rlp_header_def add.assoc)
qed

text \<open>Decoding the reference encoding gives the transaction.\<close>

lemma transaction_decode_bytes:
  assumes "alloc_total alloc" "transaction_wf tx" "length (transaction_bytes tx) < 2 ^ 64"
  shows "transaction_decode alloc (transaction_bytes tx) =
    Some (\<lparr>txr_error = TX_DECODE_OK, txr_bytes_consumed = length (transaction_bytes tx)\<rparr>, Some (recopied tx))"
proof -
  define p where "p = signed_fields tx @ signature_fields tx"
  have b: "transaction_bytes tx = type_prefix tx @ rlp_list p" by (simp add: transaction_bytes_def p_def)
  then have l: "length (rlp_list p) < 2 ^ 64" using assms(3) by simp
  then have "length p < 2 ^ 64" by (simp add: rlp_list_def)
  note pre = list_prefix_ge [OF this]
  note R = legacy_tx_decode_reads eip2930_tx_decode_reads eip1559_tx_decode_reads eip4844_tx_decode_reads eip7702_tx_decode_reads
  show ?thesis
  proof (cases tx)
    case (Tx_legacy t)
    then have "rlp_list p ! 0 \<ge> 0xc0" using pre by (simp add: hd_conv_nth)
    then show ?thesis
      using R(1) [OF assms(1) assms(2) [unfolded Tx_legacy], folded Tx_legacy, folded p_def, OF l] b Tx_legacy
      by (simp add: transaction_decode_def)
  next
    case (Tx_eip2930 t)
    then show ?thesis
      using R(2) [OF assms(1) assms(2) [unfolded Tx_eip2930], folded Tx_eip2930, folded p_def, OF l] b assms(3)
      by (simp add: transaction_decode_def as_kind_def tx_type_code_def word_le_nat_alt word_less_nat_alt)
  next
    case (Tx_eip1559 t)
    then show ?thesis
      using R(3) [OF assms(1) assms(2) [unfolded Tx_eip1559], folded Tx_eip1559, folded p_def, OF l] b assms(3)
      by (simp add: transaction_decode_def as_kind_def tx_type_code_def word_le_nat_alt word_less_nat_alt)
  next
    case (Tx_eip4844 t)
    then show ?thesis
      using R(4) [OF assms(1) assms(2) [unfolded Tx_eip4844], folded Tx_eip4844, folded p_def, OF l] b assms(3)
      by (simp add: transaction_decode_def as_kind_def tx_type_code_def word_le_nat_alt word_less_nat_alt)
  next
    case (Tx_eip7702 t)
    then show ?thesis
      using R(5) [OF assms(1) assms(2) [unfolded Tx_eip7702], folded Tx_eip7702, folded p_def, OF l] b assms(3)
      by (simp add: transaction_decode_def as_kind_def tx_type_code_def word_le_nat_alt word_less_nat_alt)
  qed
qed

end
