(* ===== verification/Secp256k1.thy ===== *)
theory Secp256k1
  imports Rlp_Decode
begin

text \<open>
  Recovery of the signer of a message, \<open>src/crypto/secp256k1.c\<close>.  The library \<open>libsecp256k1\<close> is a
  parameter: for a message of 32 bytes, a recovery id and a signature of 64 bytes it gives the public
  key in the uncompressed form of 65 bytes, or fails.  A null context is \<open>None\<close>.
\<close>

type_synonym secp256k1_ctx_t = "(u8 list \<Rightarrow> int \<Rightarrow> u8 list \<Rightarrow> u8 list option) option"

record pubkey_result_t =
  pk_success :: bool
  pk_pubkey :: "u8 list"

record ecrecover_result_t =
  ec_success :: bool
  ec_address :: address_t

definition secp256k1_recover_pubkey :: "secp256k1_ctx_t \<Rightarrow> u8 list \<Rightarrow> int \<Rightarrow> u8 list \<Rightarrow> pubkey_result_t" where
  "secp256k1_recover_pubkey ctx message_hash recovery_id signature =
     (let failed = \<lparr>pk_success = False, pk_pubkey = replicate 64 0\<rparr>
      in case ctx of
           None \<Rightarrow> failed
         | Some recover \<Rightarrow>
             if recovery_id < 0 \<or> recovery_id > 3 then failed
             else case recover message_hash recovery_id signature of
               None \<Rightarrow> failed
             | Some serialized \<Rightarrow> \<lparr>pk_success = True, pk_pubkey = take 64 (drop 1 serialized)\<rparr>)"

text \<open>The recovery id that \<open>v\<close> stands for, if any.\<close>

definition decode_recovery_id :: "u64 \<Rightarrow> u64 \<Rightarrow> int option" where
  "decode_recovery_id v chain_id =
     (if v = 0 \<or> v = 1 then Some (uint v)
      else if v = 27 \<or> v = 28 then Some (uint (v - 27))
      else if chain_id > 0
      then let expected_base = chain_id * 2 + 35
           in if v \<noteq> expected_base \<and> v \<noteq> expected_base + 1 then None
              else Some (uint (v - expected_base))
      else if v \<ge> 35 then Some (uint ((v - 35) mod 2))
      else None)"

definition secp256k1_ecrecover :: "(u8 list \<Rightarrow> hash_t) \<Rightarrow> secp256k1_ctx_t \<Rightarrow> uint256_t \<Rightarrow> u64 \<Rightarrow> uint256_t \<Rightarrow> uint256_t \<Rightarrow>
    u64 \<Rightarrow> ecrecover_result_t" where
  "secp256k1_ecrecover keccak ctx message_hash v r s chain_id =
     (let failed = \<lparr>ec_success = False, ec_address = address_zero\<rparr>
      in if ctx = None then failed
         else case decode_recovery_id v chain_id of
           None \<Rightarrow> failed
         | Some recovery_id \<Rightarrow>
             let hash_be = uint256_to_bytes_be message_hash;
                 sig_bytes = uint256_to_bytes_be r @ uint256_to_bytes_be s;
                 pk = secp256k1_recover_pubkey ctx hash_be recovery_id sig_bytes
             in if \<not> pk_success pk then failed
                else \<lparr>ec_success = True, ec_address = take ADDRESS_SIZE (drop 12 (keccak (pk_pubkey pk)))\<rparr>)"


section \<open>The recovery id\<close>

lemma decode_recovery_id_eip155:
  assumes "35 \<le> v"
  shows "decode_recovery_id v ((v - 35) div 2) = Some (uint ((v - 35) mod 2))"
proof -
  define w where "w = v - 35"
  have v: "v = w + 35" by (simp add: w_def)
  have m: "w div 2 * 2 + w mod 2 = w" by (rule div_mult_mod_eq)
  have r: "w mod 2 = 0 \<or> w mod 2 = 1"
  proof -
    have "uint (w mod 2) = uint w mod 2" by (simp add: uint_mod_distrib)
    then have "uint (w mod 2) = 0 \<or> uint (w mod 2) = 1" by presburger
    then show ?thesis by (auto simp: word_uint_eq_iff)
  qed
  have d: "v - (w div 2 * 2 + 35) = w mod 2" using m by (simp add: v algebra_simps)
  have "v = w div 2 * 2 + 35 \<or> v = w div 2 * 2 + 35 + 1"
    using r d by (metis add.commute add.left_neutral diff_add_cancel)
  moreover have "v \<noteq> 0" "v \<noteq> 1" "v \<noteq> 27" "v \<noteq> 28" using assms by (auto simp: word_le_nat_alt)
  ultimately show ?thesis
    using assms d by (auto simp: decode_recovery_id_def Let_def w_def [symmetric])
qed

lemma hash_to_uint256_bytes: "length h = HASH_SIZE \<Longrightarrow> uint256_to_bytes_be (hash_to_uint256 h) = h"
  by (simp add: hash_to_uint256_def HASH_SIZE_def to_from_bytes)

end
