(* ===== verification/Tx_Encode.thy ===== *)
theory Tx_Encode
  imports Tx_Decode Secp256k1
begin

text \<open>
  Writing transactions, the second half of \<open>src/ethereum/transaction/rlp.c\<close>, and what is signed,
  \<open>src/ethereum/transaction/signer.c\<close>.  The output is a buffer in an arena, which cannot grow: an item
  that does not fit is dropped without notice, and the header of a list that did not fit is written
  behind the buffer.  The latter is the result \<open>None\<close>.  The hash function and the recovery of the
  public key are parameters.
\<close>

section \<open>Items and lists\<close>

text \<open>Items that are encoded and appended one after the other.\<close>

fun put_items :: "allocator \<Rightarrow> bytes_t option list \<Rightarrow> bytes_t \<Rightarrow> bytes_t option" where
  "put_items alloc [] output = Some output"
| "put_items alloc (item # items) output =
     do { x \<leftarrow> item; output \<leftarrow> rlp_list_append alloc output x; put_items alloc items output }"

text \<open>The end of a list, with the accesses inside of the buffer.\<close>

definition list_end :: "nat \<Rightarrow> bytes_t \<Rightarrow> bytes_t option" where
  "list_end header_pos output =
     (let payload_len = (bytes_size output + 2 ^ 65 - header_pos - RLP_MAX_HEADER_SIZE) mod 2 ^ 64;
          header_size = length (list_header payload_len)
      in if header_pos + header_size \<le> bytes_capacity output \<and>
            (header_size < RLP_MAX_HEADER_SIZE \<longrightarrow> header_pos + RLP_MAX_HEADER_SIZE + payload_len \<le> bytes_capacity output)
         then Some (rlp_list_end header_pos output) else None)"

definition tx_encode_optional_address :: "allocator \<Rightarrow> address_t option \<Rightarrow> bytes_t option" where
  "tx_encode_optional_address alloc addr =
     (case addr of None \<Rightarrow> rlp_encode_bytes alloc [] | Some addr \<Rightarrow> rlp_encode_address alloc addr)"

fun encode_entries :: "allocator \<Rightarrow> access_list_entry_t list \<Rightarrow> bytes_t \<Rightarrow> bytes_t option" where
  "encode_entries alloc [] output = Some output"
| "encode_entries alloc (entry # entries) output =
     do {
       (entry_builder, output) \<leftarrow> rlp_list_start alloc output;
       output \<leftarrow> put_items alloc [rlp_encode_address alloc (ale_address entry)] output;
       (keys_builder, output) \<leftarrow> rlp_list_start alloc output;
       output \<leftarrow> put_items alloc (map (rlp_encode_uint256 alloc) (ale_storage_keys entry)) output;
       output \<leftarrow> list_end keys_builder output;
       output \<leftarrow> list_end entry_builder output;
       encode_entries alloc entries output
     }"

definition tx_encode_access_list :: "allocator \<Rightarrow> access_list_t \<Rightarrow> bytes_t \<Rightarrow> bytes_t option" where
  "tx_encode_access_list alloc list output =
     do {
       (list_builder, output) \<leftarrow> rlp_list_start alloc output;
       output \<leftarrow> encode_entries alloc (al_entries list) output;
       list_end list_builder output
     }"

fun encode_authorizations :: "allocator \<Rightarrow> authorization_t list \<Rightarrow> bytes_t \<Rightarrow> bytes_t option" where
  "encode_authorizations alloc [] output = Some output"
| "encode_authorizations alloc (auth # auths) output =
     do {
       (auth_builder, output) \<leftarrow> rlp_list_start alloc output;
       output \<leftarrow> put_items alloc
         [rlp_encode_u64 alloc (au_chain_id auth), rlp_encode_address alloc (au_address auth),
          rlp_encode_u64 alloc (au_nonce auth), rlp_encode_u64 alloc (ucast (au_y_parity auth)),
          rlp_encode_uint256 alloc (au_r auth), rlp_encode_uint256 alloc (au_s auth)] output;
       output \<leftarrow> list_end auth_builder output;
       encode_authorizations alloc auths output
     }"

definition tx_encode_authorization_list :: "allocator \<Rightarrow> authorization_list_t \<Rightarrow> bytes_t \<Rightarrow> bytes_t option" where
  "tx_encode_authorization_list alloc list output =
     do {
       (list_builder, output) \<leftarrow> rlp_list_start alloc output;
       output \<leftarrow> encode_authorizations alloc (aul_entries list) output;
       list_end list_builder output
     }"

definition encode_blob_hashes :: "allocator \<Rightarrow> hash_t list \<Rightarrow> bytes_t \<Rightarrow> bytes_t option" where
  "encode_blob_hashes alloc hashes output =
     do {
       (hashes_builder, output) \<leftarrow> rlp_list_start alloc output;
       output \<leftarrow> put_items alloc (map (rlp_encode_bytes alloc) hashes) output;
       list_end hashes_builder output
     }"


section \<open>Transactions\<close>

definition legacy_tx_encode :: "allocator \<Rightarrow> legacy_tx_t \<Rightarrow> bytes_t option" where
  "legacy_tx_encode alloc tx =
     do {
       (_, output) \<leftarrow> bytes_reserve alloc bytes_init_arena 256;
       (builder, output) \<leftarrow> rlp_list_start alloc output;
       output \<leftarrow> put_items alloc
         [rlp_encode_u64 alloc (lt_nonce tx),
          rlp_encode_uint256 alloc (lt_gas_price tx),
          rlp_encode_u64 alloc (lt_gas_limit tx),
          tx_encode_optional_address alloc (lt_to tx),
          rlp_encode_uint256 alloc (lt_value tx),
          rlp_encode_bytes alloc (bytes_contents (lt_data tx)),
          rlp_encode_u64 alloc (lt_v tx),
          rlp_encode_uint256 alloc (lt_r tx),
          rlp_encode_uint256 alloc (lt_s tx)] output;
       list_end builder output
     }"

definition eip2930_tx_encode :: "allocator \<Rightarrow> eip2930_tx_t \<Rightarrow> bytes_t option" where
  "eip2930_tx_encode alloc tx =
     do {
       (_, output) \<leftarrow> bytes_reserve alloc bytes_init_arena 512;
       (_, output) \<leftarrow> bytes_append_byte alloc output 0x01;
       (builder, output) \<leftarrow> rlp_list_start alloc output;
       output \<leftarrow> put_items alloc
         [rlp_encode_u64 alloc (t1_chain_id tx),
          rlp_encode_u64 alloc (t1_nonce tx),
          rlp_encode_uint256 alloc (t1_gas_price tx),
          rlp_encode_u64 alloc (t1_gas_limit tx),
          tx_encode_optional_address alloc (t1_to tx),
          rlp_encode_uint256 alloc (t1_value tx),
          rlp_encode_bytes alloc (bytes_contents (t1_data tx))] output;
       output \<leftarrow> tx_encode_access_list alloc (t1_access_list tx) output;
       output \<leftarrow> put_items alloc
         [rlp_encode_u64 alloc (ucast (t1_y_parity tx)),
          rlp_encode_uint256 alloc (t1_r tx),
          rlp_encode_uint256 alloc (t1_s tx)] output;
       list_end builder output
     }"

definition eip1559_tx_encode :: "allocator \<Rightarrow> eip1559_tx_t \<Rightarrow> bytes_t option" where
  "eip1559_tx_encode alloc tx =
     do {
       (_, output) \<leftarrow> bytes_reserve alloc bytes_init_arena 512;
       (_, output) \<leftarrow> bytes_append_byte alloc output 0x02;
       (builder, output) \<leftarrow> rlp_list_start alloc output;
       output \<leftarrow> put_items alloc
         [rlp_encode_u64 alloc (t2_chain_id tx),
          rlp_encode_u64 alloc (t2_nonce tx),
          rlp_encode_uint256 alloc (t2_max_priority_fee_per_gas tx),
          rlp_encode_uint256 alloc (t2_max_fee_per_gas tx),
          rlp_encode_u64 alloc (t2_gas_limit tx),
          tx_encode_optional_address alloc (t2_to tx),
          rlp_encode_uint256 alloc (t2_value tx),
          rlp_encode_bytes alloc (bytes_contents (t2_data tx))] output;
       output \<leftarrow> tx_encode_access_list alloc (t2_access_list tx) output;
       output \<leftarrow> put_items alloc
         [rlp_encode_u64 alloc (ucast (t2_y_parity tx)),
          rlp_encode_uint256 alloc (t2_r tx),
          rlp_encode_uint256 alloc (t2_s tx)] output;
       list_end builder output
     }"

definition eip4844_tx_encode :: "allocator \<Rightarrow> eip4844_tx_t \<Rightarrow> bytes_t option" where
  "eip4844_tx_encode alloc tx =
     do {
       (_, output) \<leftarrow> bytes_reserve alloc bytes_init_arena 1024;
       (_, output) \<leftarrow> bytes_append_byte alloc output 0x03;
       (builder, output) \<leftarrow> rlp_list_start alloc output;
       output \<leftarrow> put_items alloc
         [rlp_encode_u64 alloc (t3_chain_id tx),
          rlp_encode_u64 alloc (t3_nonce tx),
          rlp_encode_uint256 alloc (t3_max_priority_fee_per_gas tx),
          rlp_encode_uint256 alloc (t3_max_fee_per_gas tx),
          rlp_encode_u64 alloc (t3_gas_limit tx),
          rlp_encode_address alloc (t3_to tx),
          rlp_encode_uint256 alloc (t3_value tx),
          rlp_encode_bytes alloc (bytes_contents (t3_data tx))] output;
       output \<leftarrow> tx_encode_access_list alloc (t3_access_list tx) output;
       output \<leftarrow> put_items alloc [rlp_encode_uint256 alloc (t3_max_fee_per_blob_gas tx)] output;
       output \<leftarrow> encode_blob_hashes alloc (t3_blob_versioned_hashes tx) output;
       output \<leftarrow> put_items alloc
         [rlp_encode_u64 alloc (ucast (t3_y_parity tx)),
          rlp_encode_uint256 alloc (t3_r tx),
          rlp_encode_uint256 alloc (t3_s tx)] output;
       list_end builder output
     }"

definition eip7702_tx_encode :: "allocator \<Rightarrow> eip7702_tx_t \<Rightarrow> bytes_t option" where
  "eip7702_tx_encode alloc tx =
     do {
       (_, output) \<leftarrow> bytes_reserve alloc bytes_init_arena 1024;
       (_, output) \<leftarrow> bytes_append_byte alloc output 0x04;
       (builder, output) \<leftarrow> rlp_list_start alloc output;
       output \<leftarrow> put_items alloc
         [rlp_encode_u64 alloc (t4_chain_id tx),
          rlp_encode_u64 alloc (t4_nonce tx),
          rlp_encode_uint256 alloc (t4_max_priority_fee_per_gas tx),
          rlp_encode_uint256 alloc (t4_max_fee_per_gas tx),
          rlp_encode_u64 alloc (t4_gas_limit tx),
          rlp_encode_address alloc (t4_to tx),
          rlp_encode_uint256 alloc (t4_value tx),
          rlp_encode_bytes alloc (bytes_contents (t4_data tx))] output;
       output \<leftarrow> tx_encode_access_list alloc (t4_access_list tx) output;
       output \<leftarrow> tx_encode_authorization_list alloc (t4_authorization_list tx) output;
       output \<leftarrow> put_items alloc
         [rlp_encode_u64 alloc (ucast (t4_y_parity tx)),
          rlp_encode_uint256 alloc (t4_r tx),
          rlp_encode_uint256 alloc (t4_s tx)] output;
       list_end builder output
     }"

fun transaction_encode :: "allocator \<Rightarrow> transaction_t \<Rightarrow> bytes_t option" where
  "transaction_encode alloc (Tx_legacy tx) = legacy_tx_encode alloc tx"
| "transaction_encode alloc (Tx_eip2930 tx) = eip2930_tx_encode alloc tx"
| "transaction_encode alloc (Tx_eip1559 tx) = eip1559_tx_encode alloc tx"
| "transaction_encode alloc (Tx_eip4844 tx) = eip4844_tx_encode alloc tx"
| "transaction_encode alloc (Tx_eip7702 tx) = eip7702_tx_encode alloc tx"

definition transaction_hash :: "allocator \<Rightarrow> (u8 list \<Rightarrow> hash_t) \<Rightarrow> transaction_t \<Rightarrow> hash_t option" where
  "transaction_hash alloc keccak tx =
     do { encoded \<leftarrow> transaction_encode alloc tx; Some (keccak (bytes_contents encoded)) }"


section \<open>What is signed\<close>

definition legacy_tx_signing_hash :: "allocator \<Rightarrow> (u8 list \<Rightarrow> hash_t) \<Rightarrow> legacy_tx_t \<Rightarrow> hash_t option" where
  "legacy_tx_signing_hash alloc keccak tx =
     do {
       (_, output) \<leftarrow> bytes_reserve alloc bytes_init_arena 512;
       (builder, output) \<leftarrow> rlp_list_start alloc output;
       output \<leftarrow> put_items alloc
         [rlp_encode_u64 alloc (lt_nonce tx),
          rlp_encode_uint256 alloc (lt_gas_price tx),
          rlp_encode_u64 alloc (lt_gas_limit tx),
          tx_encode_optional_address alloc (lt_to tx),
          rlp_encode_uint256 alloc (lt_value tx),
          rlp_encode_bytes alloc (bytes_contents (lt_data tx))] output;
       output \<leftarrow> (case legacy_tx_chain_id tx of
         None \<Rightarrow> Some output
       | Some chain_id \<Rightarrow> put_items alloc
           [rlp_encode_u64 alloc chain_id,
            rlp_encode_uint256 alloc uint256_zero,
            rlp_encode_uint256 alloc uint256_zero] output);
       output \<leftarrow> list_end builder output;
       Some (keccak (bytes_contents output))
     }"

definition eip2930_tx_signing_hash :: "allocator \<Rightarrow> (u8 list \<Rightarrow> hash_t) \<Rightarrow> eip2930_tx_t \<Rightarrow> hash_t option" where
  "eip2930_tx_signing_hash alloc keccak tx =
     do {
       (_, output) \<leftarrow> bytes_reserve alloc bytes_init_arena 512;
       (_, output) \<leftarrow> bytes_append_byte alloc output 0x01;
       (builder, output) \<leftarrow> rlp_list_start alloc output;
       output \<leftarrow> put_items alloc
         [rlp_encode_u64 alloc (t1_chain_id tx),
          rlp_encode_u64 alloc (t1_nonce tx),
          rlp_encode_uint256 alloc (t1_gas_price tx),
          rlp_encode_u64 alloc (t1_gas_limit tx),
          tx_encode_optional_address alloc (t1_to tx),
          rlp_encode_uint256 alloc (t1_value tx),
          rlp_encode_bytes alloc (bytes_contents (t1_data tx))] output;
       output \<leftarrow> tx_encode_access_list alloc (t1_access_list tx) output;
       output \<leftarrow> list_end builder output;
       Some (keccak (bytes_contents output))
     }"

definition eip1559_tx_signing_hash :: "allocator \<Rightarrow> (u8 list \<Rightarrow> hash_t) \<Rightarrow> eip1559_tx_t \<Rightarrow> hash_t option" where
  "eip1559_tx_signing_hash alloc keccak tx =
     do {
       (_, output) \<leftarrow> bytes_reserve alloc bytes_init_arena 512;
       (_, output) \<leftarrow> bytes_append_byte alloc output 0x02;
       (builder, output) \<leftarrow> rlp_list_start alloc output;
       output \<leftarrow> put_items alloc
         [rlp_encode_u64 alloc (t2_chain_id tx),
          rlp_encode_u64 alloc (t2_nonce tx),
          rlp_encode_uint256 alloc (t2_max_priority_fee_per_gas tx),
          rlp_encode_uint256 alloc (t2_max_fee_per_gas tx),
          rlp_encode_u64 alloc (t2_gas_limit tx),
          tx_encode_optional_address alloc (t2_to tx),
          rlp_encode_uint256 alloc (t2_value tx),
          rlp_encode_bytes alloc (bytes_contents (t2_data tx))] output;
       output \<leftarrow> tx_encode_access_list alloc (t2_access_list tx) output;
       output \<leftarrow> list_end builder output;
       Some (keccak (bytes_contents output))
     }"

definition eip4844_tx_signing_hash :: "allocator \<Rightarrow> (u8 list \<Rightarrow> hash_t) \<Rightarrow> eip4844_tx_t \<Rightarrow> hash_t option" where
  "eip4844_tx_signing_hash alloc keccak tx =
     do {
       (_, output) \<leftarrow> bytes_reserve alloc bytes_init_arena 1024;
       (_, output) \<leftarrow> bytes_append_byte alloc output 0x03;
       (builder, output) \<leftarrow> rlp_list_start alloc output;
       output \<leftarrow> put_items alloc
         [rlp_encode_u64 alloc (t3_chain_id tx),
          rlp_encode_u64 alloc (t3_nonce tx),
          rlp_encode_uint256 alloc (t3_max_priority_fee_per_gas tx),
          rlp_encode_uint256 alloc (t3_max_fee_per_gas tx),
          rlp_encode_u64 alloc (t3_gas_limit tx),
          rlp_encode_address alloc (t3_to tx),
          rlp_encode_uint256 alloc (t3_value tx),
          rlp_encode_bytes alloc (bytes_contents (t3_data tx))] output;
       output \<leftarrow> tx_encode_access_list alloc (t3_access_list tx) output;
       output \<leftarrow> put_items alloc [rlp_encode_uint256 alloc (t3_max_fee_per_blob_gas tx)] output;
       output \<leftarrow> encode_blob_hashes alloc (t3_blob_versioned_hashes tx) output;
       output \<leftarrow> list_end builder output;
       Some (keccak (bytes_contents output))
     }"

definition eip7702_tx_signing_hash :: "allocator \<Rightarrow> (u8 list \<Rightarrow> hash_t) \<Rightarrow> eip7702_tx_t \<Rightarrow> hash_t option" where
  "eip7702_tx_signing_hash alloc keccak tx =
     do {
       (_, output) \<leftarrow> bytes_reserve alloc bytes_init_arena 1024;
       (_, output) \<leftarrow> bytes_append_byte alloc output 0x04;
       (builder, output) \<leftarrow> rlp_list_start alloc output;
       output \<leftarrow> put_items alloc
         [rlp_encode_u64 alloc (t4_chain_id tx),
          rlp_encode_u64 alloc (t4_nonce tx),
          rlp_encode_uint256 alloc (t4_max_priority_fee_per_gas tx),
          rlp_encode_uint256 alloc (t4_max_fee_per_gas tx),
          rlp_encode_u64 alloc (t4_gas_limit tx),
          rlp_encode_address alloc (t4_to tx),
          rlp_encode_uint256 alloc (t4_value tx),
          rlp_encode_bytes alloc (bytes_contents (t4_data tx))] output;
       output \<leftarrow> tx_encode_access_list alloc (t4_access_list tx) output;
       output \<leftarrow> tx_encode_authorization_list alloc (t4_authorization_list tx) output;
       output \<leftarrow> list_end builder output;
       Some (keccak (bytes_contents output))
     }"

fun transaction_signing_hash :: "allocator \<Rightarrow> (u8 list \<Rightarrow> hash_t) \<Rightarrow> transaction_t \<Rightarrow> hash_t option" where
  "transaction_signing_hash alloc keccak (Tx_legacy tx) = legacy_tx_signing_hash alloc keccak tx"
| "transaction_signing_hash alloc keccak (Tx_eip2930 tx) = eip2930_tx_signing_hash alloc keccak tx"
| "transaction_signing_hash alloc keccak (Tx_eip1559 tx) = eip1559_tx_signing_hash alloc keccak tx"
| "transaction_signing_hash alloc keccak (Tx_eip4844 tx) = eip4844_tx_signing_hash alloc keccak tx"
| "transaction_signing_hash alloc keccak (Tx_eip7702 tx) = eip7702_tx_signing_hash alloc keccak tx"

definition authorization_signing_hash :: "allocator \<Rightarrow> (u8 list \<Rightarrow> hash_t) \<Rightarrow> authorization_t \<Rightarrow> hash_t option" where
  "authorization_signing_hash alloc keccak auth =
     do {
       (_, output) \<leftarrow> bytes_reserve alloc bytes_init_arena 64;
       (_, output) \<leftarrow> bytes_append_byte alloc output 0x05;
       (builder, output) \<leftarrow> rlp_list_start alloc output;
       output \<leftarrow> put_items alloc
         [rlp_encode_u64 alloc (au_chain_id auth),
          rlp_encode_address alloc (au_address auth),
          rlp_encode_u64 alloc (au_nonce auth)] output;
       output \<leftarrow> list_end builder output;
       Some (keccak (bytes_contents output))
     }"

text \<open>Recovery of the sender: \<open>v\<close>, the signature and the chain id go to \<open>secp256k1_ecrecover\<close>.\<close>

fun signature_v :: "transaction_t \<Rightarrow> u64" where
  "signature_v (Tx_legacy tx) = lt_v tx"
| "signature_v (Tx_eip2930 tx) = ucast (t1_y_parity tx)"
| "signature_v (Tx_eip1559 tx) = ucast (t2_y_parity tx)"
| "signature_v (Tx_eip4844 tx) = ucast (t3_y_parity tx)"
| "signature_v (Tx_eip7702 tx) = ucast (t4_y_parity tx)"

definition transaction_recover_sender :: "allocator \<Rightarrow> (u8 list \<Rightarrow> hash_t) \<Rightarrow> secp256k1_ctx_t \<Rightarrow> transaction_t \<Rightarrow>
    ecrecover_result_t option" where
  "transaction_recover_sender alloc keccak ctx tx =
     do {
       signing_hash \<leftarrow> transaction_signing_hash alloc keccak tx;
       let chain_id = (case transaction_chain_id tx of None \<Rightarrow> 0 | Some c \<Rightarrow> c);
       Some (secp256k1_ecrecover keccak ctx (hash_to_uint256 signing_hash) (signature_v tx) (transaction_r tx)
         (transaction_s tx) chain_id)
     }"

definition authorization_recover_authority :: "allocator \<Rightarrow> (u8 list \<Rightarrow> hash_t) \<Rightarrow> secp256k1_ctx_t \<Rightarrow> authorization_t \<Rightarrow>
    ecrecover_result_t option" where
  "authorization_recover_authority alloc keccak ctx auth =
     do {
       signing_hash \<leftarrow> authorization_signing_hash alloc keccak auth;
       Some (secp256k1_ecrecover keccak ctx (hash_to_uint256 signing_hash) (ucast (au_y_parity auth)) (au_r auth)
         (au_s auth) (au_chain_id auth))
     }"


section \<open>Contract addresses\<close>

text \<open>The address of a new contract, \<open>src/executor/address.c\<close>: the last 20 bytes of a hash.\<close>

definition compute_create_address :: "allocator \<Rightarrow> (u8 list \<Rightarrow> hash_t) \<Rightarrow> address_t \<Rightarrow> u64 \<Rightarrow> address_t option" where
  "compute_create_address alloc keccak sender nonce =
     do {
       encoded_addr \<leftarrow> rlp_encode_address alloc sender;
       encoded_nonce \<leftarrow> rlp_encode_u64 alloc nonce;
       (_, list_data) \<leftarrow> bytes_reserve alloc bytes_init_arena 64;
       (builder, list_data) \<leftarrow> rlp_list_start alloc list_data;
       list_data \<leftarrow> rlp_list_append alloc list_data encoded_addr;
       list_data \<leftarrow> rlp_list_append alloc list_data encoded_nonce;
       list_data \<leftarrow> list_end builder list_data;
       Some (take 20 (drop 12 (keccak (bytes_contents list_data))))
     }"

definition compute_create2_address :: "(u8 list \<Rightarrow> hash_t) \<Rightarrow> address_t \<Rightarrow> hash_t \<Rightarrow> hash_t \<Rightarrow> address_t" where
  "compute_create2_address keccak sender salt init_code_hash =
     (let preimage = 0xff # take 20 sender @ take 32 salt @ take 32 init_code_hash
      in take 20 (drop 12 (keccak preimage)))"

end
