(* ===== verification/Tx_Encode_Laws.thy ===== *)
theory Tx_Encode_Laws
  imports Tx_Encode
begin

text \<open>
  What the encoders of transactions write: the reference encoding, as long as it fits into the buffer.
\<close>

section \<open>What a step writes\<close>

text \<open>
  A step that appends the given bytes to an arena buffer, if there is room for them and for some bytes
  more: the headers of open lists take nine bytes until the list is closed.
\<close>

definition writes :: "nat \<Rightarrow> (bytes_t \<Rightarrow> bytes_t option) \<Rightarrow> u8 list \<Rightarrow> bool" where
  "writes slack step ys \<longleftrightarrow> (\<forall>n xs b. arena_buf n xs b \<longrightarrow> length xs + length ys + slack \<le> n \<longrightarrow>
     (\<exists>b'. step b = Some b' \<and> arena_buf n (xs @ ys) b'))"

lemma writesD:
  "writes slack step ys \<Longrightarrow> arena_buf n xs b \<Longrightarrow> length xs + length ys + slack \<le> n \<Longrightarrow>
    \<exists>b'. step b = Some b' \<and> arena_buf n (xs @ ys) b'"
  by (simp add: writes_def)

lemma writes_mono: "writes k step ys \<Longrightarrow> k \<le> k' \<Longrightarrow> writes k' step ys"
  by (auto simp: writes_def)

lemma writes_Some: "writes k Some []"
  by (simp add: writes_def)

lemma writes_seq:
  assumes "writes k f ys" "writes k g zs"
  shows "writes k (\<lambda>b. f b \<bind> g) (ys @ zs)"
  unfolding writes_def
proof (intro allI impI)
  fix n xs b assume b: "arena_buf n xs b" "length xs + length (ys @ zs) + k \<le> n"
  obtain b1 where b1: "f b = Some b1" "arena_buf n (xs @ ys) b1" using writesD [OF assms(1) b(1)] b(2) by auto
  obtain b2 where "g b1 = Some b2" "arena_buf n ((xs @ ys) @ zs) b2" using writesD [OF assms(2) b1(2)] b(2) by auto
  then show "\<exists>b'. f b \<bind> g = Some b' \<and> arena_buf n (xs @ ys @ zs) b'" using b1(1) by simp
qed

lemma writes_items: "list_all2 returns yss items \<Longrightarrow> writes 0 (put_items alloc items) (concat yss)"
proof (induction yss items rule: list_all2_induct)
  case (Cons ys yss item items)
  show ?case
    unfolding writes_def
  proof (intro allI impI)
    fix n xs b assume b: "arena_buf n xs b" "length xs + length (concat (ys # yss)) + 0 \<le> n"
    obtain x where x: "item = Some x" "bytes_contents x = ys" using Cons.hyps(1) by (auto simp: returns_def)
    obtain b1 where b1: "bytes_append alloc b ys = Some (True, b1)" "arena_buf n (xs @ ys) b1"
      using append_fits [OF b(1), of ys alloc] b(2) by auto
    obtain b2 where "put_items alloc items b1 = Some b2" "arena_buf n ((xs @ ys) @ concat yss) b2"
      using writesD [OF Cons.IH b1(2)] b(2) by auto
    then show "\<exists>b'. put_items alloc (item # items) b = Some b' \<and> arena_buf n (xs @ concat (ys # yss)) b'"
      using x b1(1) by (simp add: rlp_list_append_def)
  qed
qed (simp add: writes_def)

text \<open>A list around what a step writes.\<close>

definition enclosed :: "allocator \<Rightarrow> (bytes_t \<Rightarrow> bytes_t option) \<Rightarrow> bytes_t \<Rightarrow> bytes_t option" where
  "enclosed alloc body output =
     rlp_list_start alloc output \<bind> (\<lambda>(builder, output). body output \<bind> list_end builder)"

lemma list_end_fits:
  assumes "arena_buf n (xs @ replicate 9 0 @ p) b"
  shows "\<exists>b'. list_end (length xs) b = Some b' \<and> arena_buf n (xs @ rlp_list p) b'"
proof -
  have b: "bytes_wf b" "bytes_arena b" "bytes_capacity b = n" "bytes_contents b = xs @ replicate 9 0 @ p"
    using assms by (simp_all add: arena_buf_def)
  have size: "bytes_size b = length xs + 9 + length p" using length_contents [OF b(1)] b(4) by simp
  have n: "length xs + 9 + length p \<le> n" "n < 2 ^ 64" using b size by (auto simp: bytes_wf_def)
  have "bytes_size b + 2 ^ 65 - length xs - RLP_MAX_HEADER_SIZE = length p + 2 * 2 ^ 64" by (simp add: size)
  then have pl: "(bytes_size b + 2 ^ 65 - length xs - RLP_MAX_HEADER_SIZE) mod 2 ^ 64 = length p"
    using n by (simp only: mod_mult_self1) simp
  have "length (list_header (length p)) \<le> 9" using list_header_eq(3) [of "length p"] n by simp
  then have "list_end (length xs) b = Some (rlp_list_end (length xs) b)"
    unfolding list_end_def pl Let_def using b(3) n by simp
  moreover have "bytes_arena (rlp_list_end (length xs) b)" "bytes_capacity (rlp_list_end (length xs) b) = n"
    using b(2,3) by (simp_all add: rlp_list_end_def Let_def)
  ultimately show ?thesis using rlp_list_end_contents [OF b(1,4)] by (simp add: arena_buf_def)
qed

lemma writes_enclosed:
  assumes "writes k body p" shows "writes (k + 9) (enclosed alloc body) (rlp_list p)"
  unfolding writes_def
proof (intro allI impI)
  fix n xs b assume b: "arena_buf n xs b" "length xs + length (rlp_list p) + (k + 9) \<le> n"
  have l: "length p \<le> length (rlp_list p)" by (simp add: rlp_list_def)
  obtain b1 where b1: "bytes_append alloc b (replicate 9 0) = Some (True, b1)" "arena_buf n (xs @ replicate 9 0) b1"
    using append_fits [OF b(1), of "replicate 9 0" alloc] b(2) by auto
  obtain b2 where b2: "body b1 = Some b2" "arena_buf n ((xs @ replicate 9 0) @ p) b2"
    using writesD [OF assms b1(2)] b(2) l by auto
  obtain b3 where b3: "list_end (length xs) b2 = Some b3" "arena_buf n (xs @ rlp_list p) b3"
    using list_end_fits [of n xs p b2] b2(2) by auto
  have "bytes_size b = length xs" using b(1) length_contents [of b] by (auto simp: arena_buf_def)
  then show "\<exists>b'. enclosed alloc body b = Some b' \<and> arena_buf n (xs @ rlp_list p) b'"
    using b1(1) b2(1) b3 by (simp add: enclosed_def rlp_list_start_def)
qed


section \<open>The lists of a transaction\<close>

lemma optional_address_returns:
  "alloc_total alloc \<Longrightarrow> to_wf a \<Longrightarrow> returns (to_bytes a) (tx_encode_optional_address alloc a)"
  using rlp_encode_bytes_returns [of alloc "[]"] rlp_encode_address_returns [of alloc]
  by (cases a) (auto simp: tx_encode_optional_address_def to_wf_def simp del: rlp_string_Nil)

lemma parity_returns: "alloc_total alloc \<Longrightarrow> returns (parity_bytes v) (rlp_encode_u64 alloc (ucast v))"
  using rlp_encode_u64_returns [of alloc "ucast v"] by (simp add: unat_byte)

lemma lists_enclosed:
  "tx_encode_access_list alloc l = enclosed alloc (encode_entries alloc (al_entries l))"
  "tx_encode_authorization_list alloc al = enclosed alloc (encode_authorizations alloc (aul_entries al))"
  "encode_blob_hashes alloc hs = enclosed alloc (put_items alloc (map (rlp_encode_bytes alloc) hs))"
  by (rule ext, simp add: tx_encode_access_list_def tx_encode_authorization_list_def encode_blob_hashes_def enclosed_def)+

lemmas item_returns = rlp_encode_u64_returns rlp_encode_uint256_returns parity_returns optional_address_returns
  rlp_encode_address_returns

lemma writes_entry:
  assumes "alloc_total alloc" "length (ale_address e) = ADDRESS_SIZE"
  shows "writes 18 (enclosed alloc (\<lambda>b. put_items alloc [rlp_encode_address alloc (ale_address e)] b \<bind>
    enclosed alloc (put_items alloc (map (rlp_encode_uint256 alloc) (ale_storage_keys e))))) (entry_bytes e)"
proof -
  have "list_all2 returns (map u256_bytes ks) (map (rlp_encode_uint256 alloc) ks)" for ks
    using assms(1) by (simp add: list_all2_map1 list_all2_map2 item_returns list.rel_refl)
  from writes_enclosed [OF writes_items [OF this], of alloc alloc]
  have k: "writes 9 (enclosed alloc (put_items alloc (map (rlp_encode_uint256 alloc) (ale_storage_keys e))))
      (rlp_list (concat (map u256_bytes (ale_storage_keys e))))" by simp
  have "writes 0 (put_items alloc [rlp_encode_address alloc (ale_address e)]) (concat [rlp_string (ale_address e)])"
    using assms by (intro writes_items) (simp add: item_returns)
  from writes_enclosed [OF writes_seq [OF writes_mono [OF this, of 9] k], of alloc] show ?thesis
    by (simp add: entry_bytes_def)
qed

lemma encode_entries_Cons:
  "encode_entries alloc (e # es) = (\<lambda>b. enclosed alloc (\<lambda>b. put_items alloc [rlp_encode_address alloc (ale_address e)] b \<bind>
    enclosed alloc (put_items alloc (map (rlp_encode_uint256 alloc) (ale_storage_keys e)))) b \<bind> encode_entries alloc es)"
  by (rule ext) (simp add: enclosed_def split_def)

lemma writes_access_list:
  assumes "alloc_total alloc" "access_list_wf l"
  shows "writes 27 (tx_encode_access_list alloc l) (access_list_bytes l)"
proof -
  have "writes 18 (encode_entries alloc es) (concat (map entry_bytes es))"
    if "\<forall>e \<in> set es. length (ale_address e) = ADDRESS_SIZE" for es
    using that
  proof (induction es)
    case Nil
    show ?case using writes_Some by (simp add: writes_def)
  next
    case (Cons e es)
    then show ?case
      unfolding encode_entries_Cons using writes_seq [OF writes_entry [OF assms(1)]] by simp
  qed
  from writes_enclosed [OF this, of "al_entries l" alloc] assms(2) show ?thesis
    by (simp add: lists_enclosed access_list_bytes_def access_list_wf_def)
qed

lemma encode_authorizations_Cons:
  "encode_authorizations alloc (a # as) = (\<lambda>b. enclosed alloc (put_items alloc
    [rlp_encode_u64 alloc (au_chain_id a), rlp_encode_address alloc (au_address a), rlp_encode_u64 alloc (au_nonce a),
     rlp_encode_u64 alloc (ucast (au_y_parity a)), rlp_encode_uint256 alloc (au_r a), rlp_encode_uint256 alloc (au_s a)]) b \<bind>
    encode_authorizations alloc as)"
  by (rule ext) (simp add: enclosed_def split_def)

lemma writes_authorization:
  assumes "alloc_total alloc" "length (au_address a) = ADDRESS_SIZE"
  shows "writes 9 (enclosed alloc (put_items alloc
    [rlp_encode_u64 alloc (au_chain_id a), rlp_encode_address alloc (au_address a), rlp_encode_u64 alloc (au_nonce a),
     rlp_encode_u64 alloc (ucast (au_y_parity a)), rlp_encode_uint256 alloc (au_r a), rlp_encode_uint256 alloc (au_s a)]))
    (authorization_bytes a)"
proof -
  have "list_all2 returns [u64_bytes (au_chain_id a), rlp_string (au_address a), u64_bytes (au_nonce a),
      parity_bytes (au_y_parity a), u256_bytes (au_r a), u256_bytes (au_s a)]
    [rlp_encode_u64 alloc (au_chain_id a), rlp_encode_address alloc (au_address a), rlp_encode_u64 alloc (au_nonce a),
     rlp_encode_u64 alloc (ucast (au_y_parity a)), rlp_encode_uint256 alloc (au_r a), rlp_encode_uint256 alloc (au_s a)]"
    using assms by (simp add: item_returns)
  from writes_enclosed [OF writes_items [OF this], of alloc alloc] show ?thesis
    by (simp add: authorization_bytes_def)
qed

lemma writes_authorization_list:
  assumes "alloc_total alloc" "authorization_list_wf l"
  shows "writes 18 (tx_encode_authorization_list alloc l) (authorization_list_bytes l)"
proof -
  have "writes 9 (encode_authorizations alloc as) (concat (map authorization_bytes as))"
    if "\<forall>a \<in> set as. length (au_address a) = ADDRESS_SIZE" for as
    using that
  proof (induction as)
    case Nil
    show ?case using writes_Some by (simp add: writes_def)
  next
    case (Cons a as)
    then show ?case
      unfolding encode_authorizations_Cons using writes_seq [OF writes_authorization [OF assms(1)]] by simp
  qed
  from writes_enclosed [OF this, of "aul_entries l" alloc] assms(2) show ?thesis
    by (simp add: lists_enclosed authorization_list_bytes_def authorization_list_wf_def)
qed

lemma writes_blob_hashes:
  assumes "alloc_total alloc" "\<forall>h \<in> set hs. length h = HASH_SIZE"
  shows "writes 9 (encode_blob_hashes alloc hs) (blob_hashes_bytes hs)"
proof -
  have "list_all2 returns (map rlp_string hs) (map (rlp_encode_bytes alloc) hs)"
    using assms rlp_encode_bytes_returns [OF assms(1)]
    by (auto simp: list_all2_map1 list_all2_map2 HASH_SIZE_def intro!: list.rel_refl_strong)
  from writes_enclosed [OF writes_items [OF this], of alloc alloc] show ?thesis
    by (simp add: lists_enclosed blob_hashes_bytes_def)
qed


section \<open>Transactions\<close>

text \<open>The size of the buffer, which must also hold the headers of open lists.\<close>

fun encode_capacity :: "transaction_t \<Rightarrow> nat" where
  "encode_capacity (Tx_legacy _) = 256"
| "encode_capacity (Tx_eip2930 _) = 512"
| "encode_capacity (Tx_eip1559 _) = 512"
| "encode_capacity (Tx_eip4844 _) = 1024"
| "encode_capacity (Tx_eip7702 _) = 1024"

definition tx_fits :: "transaction_t \<Rightarrow> bool" where
  "tx_fits tx \<longleftrightarrow> length (transaction_bytes tx) + 36 \<le> encode_capacity tx"

text \<open>A list in a new buffer, after a type byte if there is one.\<close>

definition in_buffer :: "allocator \<Rightarrow> nat \<Rightarrow> u8 list \<Rightarrow> (bytes_t \<Rightarrow> bytes_t option) \<Rightarrow> bytes_t option" where
  "in_buffer alloc n prefix body =
     bytes_reserve alloc bytes_init_arena n \<bind> (\<lambda>(_, output). bytes_append alloc output prefix \<bind>
       (\<lambda>(_, output). enclosed alloc body output))"

lemma in_buffer_returns:
  assumes "alloc_total alloc" "writes 27 body p" "length prefix + length (rlp_list p) + 36 \<le> n" "n < 2 ^ 64"
  shows "returns (prefix @ rlp_list p) (in_buffer alloc n prefix body)"
  unfolding in_buffer_def
proof (rule reserve_bind [OF assms(1)])
  fix b assume b: "arena_buf n [] b"
  obtain b1 where b1: "bytes_append alloc b prefix = Some (True, b1)" "arena_buf n prefix b1"
    using append_fits [OF b, of prefix alloc] assms(3) by auto
  obtain b2 where "enclosed alloc body b1 = Some b2" "arena_buf n (prefix @ rlp_list p) b2"
    using writesD [OF writes_enclosed [OF assms(2)] b1(2), of alloc] assms(3) by auto
  then show "returns (prefix @ rlp_list p) (case (True, b) of
      (_, output) \<Rightarrow> bytes_append alloc output prefix \<bind> (\<lambda>(_, output). enclosed alloc body output))"
    using b1(1) by (simp add: returns_def arena_buf_def)
qed (use assms in simp_all)

text \<open>The steps that write the signed fields and the signature.\<close>

fun signed_steps :: "allocator \<Rightarrow> transaction_t \<Rightarrow> bytes_t \<Rightarrow> bytes_t option" where
  "signed_steps alloc (Tx_legacy tx) b = put_items alloc
     [rlp_encode_u64 alloc (lt_nonce tx), rlp_encode_uint256 alloc (lt_gas_price tx), rlp_encode_u64 alloc (lt_gas_limit tx),
      tx_encode_optional_address alloc (lt_to tx), rlp_encode_uint256 alloc (lt_value tx),
      rlp_encode_bytes alloc (bytes_contents (lt_data tx))] b"
| "signed_steps alloc (Tx_eip2930 tx) b = put_items alloc
     [rlp_encode_u64 alloc (t1_chain_id tx), rlp_encode_u64 alloc (t1_nonce tx), rlp_encode_uint256 alloc (t1_gas_price tx),
      rlp_encode_u64 alloc (t1_gas_limit tx), tx_encode_optional_address alloc (t1_to tx),
      rlp_encode_uint256 alloc (t1_value tx), rlp_encode_bytes alloc (bytes_contents (t1_data tx))] b \<bind>
     tx_encode_access_list alloc (t1_access_list tx)"
| "signed_steps alloc (Tx_eip1559 tx) b = put_items alloc
     [rlp_encode_u64 alloc (t2_chain_id tx), rlp_encode_u64 alloc (t2_nonce tx),
      rlp_encode_uint256 alloc (t2_max_priority_fee_per_gas tx), rlp_encode_uint256 alloc (t2_max_fee_per_gas tx),
      rlp_encode_u64 alloc (t2_gas_limit tx), tx_encode_optional_address alloc (t2_to tx),
      rlp_encode_uint256 alloc (t2_value tx), rlp_encode_bytes alloc (bytes_contents (t2_data tx))] b \<bind>
     tx_encode_access_list alloc (t2_access_list tx)"
| "signed_steps alloc (Tx_eip4844 tx) b = put_items alloc
     [rlp_encode_u64 alloc (t3_chain_id tx), rlp_encode_u64 alloc (t3_nonce tx),
      rlp_encode_uint256 alloc (t3_max_priority_fee_per_gas tx), rlp_encode_uint256 alloc (t3_max_fee_per_gas tx),
      rlp_encode_u64 alloc (t3_gas_limit tx), rlp_encode_address alloc (t3_to tx),
      rlp_encode_uint256 alloc (t3_value tx), rlp_encode_bytes alloc (bytes_contents (t3_data tx))] b \<bind>
     (\<lambda>b. tx_encode_access_list alloc (t3_access_list tx) b \<bind>
     (\<lambda>b. put_items alloc [rlp_encode_uint256 alloc (t3_max_fee_per_blob_gas tx)] b \<bind>
      encode_blob_hashes alloc (t3_blob_versioned_hashes tx)))"
| "signed_steps alloc (Tx_eip7702 tx) b = put_items alloc
     [rlp_encode_u64 alloc (t4_chain_id tx), rlp_encode_u64 alloc (t4_nonce tx),
      rlp_encode_uint256 alloc (t4_max_priority_fee_per_gas tx), rlp_encode_uint256 alloc (t4_max_fee_per_gas tx),
      rlp_encode_u64 alloc (t4_gas_limit tx), rlp_encode_address alloc (t4_to tx),
      rlp_encode_uint256 alloc (t4_value tx), rlp_encode_bytes alloc (bytes_contents (t4_data tx))] b \<bind>
     (\<lambda>b. tx_encode_access_list alloc (t4_access_list tx) b \<bind>
      tx_encode_authorization_list alloc (t4_authorization_list tx))"

definition signature_steps :: "allocator \<Rightarrow> transaction_t \<Rightarrow> bytes_t \<Rightarrow> bytes_t option" where
  "signature_steps alloc tx = put_items alloc
     [rlp_encode_u64 alloc (signature_v tx), rlp_encode_uint256 alloc (transaction_r tx), rlp_encode_uint256 alloc (transaction_s tx)]"

lemma transaction_encode_steps:
  "transaction_encode alloc tx =
    in_buffer alloc (encode_capacity tx) (type_prefix tx) (\<lambda>b. signed_steps alloc tx b \<bind> signature_steps alloc tx)"
  by (cases tx) (simp_all add: legacy_tx_encode_def eip2930_tx_encode_def eip1559_tx_encode_def eip4844_tx_encode_def
    eip7702_tx_encode_def in_buffer_def enclosed_def signature_steps_def bytes_append_byte_def append_nil tx_type_code_def
    split_def)

lemma data_returns:
  "alloc_total alloc \<Longrightarrow> length (data_bytes d) + 36 \<le> n \<Longrightarrow> n \<le> 1024 \<Longrightarrow> returns (data_bytes d) (rlp_encode_bytes alloc (bytes_contents d))"
proof -
  assume a: "alloc_total alloc" "length (data_bytes d) + 36 \<le> n" "n \<le> 1024"
  have "length (bytes_contents d) \<le> length (data_bytes d)" by (simp add: rlp_string_def)
  then have "length (bytes_contents d) < 2 ^ 64 - 9" using a(2,3) by simp
  then show ?thesis using rlp_encode_bytes_returns [OF a(1)] by blast
qed

lemma writes_signature:
  assumes "alloc_total alloc" shows "writes 27 (signature_steps alloc tx) (signature_fields tx)"
proof -
  have "list_all2 returns [u64_bytes (signature_v tx), u256_bytes (transaction_r tx), u256_bytes (transaction_s tx)]
      [rlp_encode_u64 alloc (signature_v tx), rlp_encode_uint256 alloc (transaction_r tx), rlp_encode_uint256 alloc (transaction_s tx)]"
    using assms by (simp add: item_returns)
  note w = writes_mono [OF writes_items [OF this], of 27 alloc]
  have "concat [u64_bytes (signature_v tx), u256_bytes (transaction_r tx), u256_bytes (transaction_s tx)] = signature_fields tx"
    by (cases tx) (simp_all add: unat_byte)
  then show ?thesis using w by (simp add: signature_steps_def)
qed


lemma writes_seq3:
  "writes 0 f xs \<Longrightarrow> writes 27 g ys \<Longrightarrow> writes 27 h zs \<Longrightarrow> writes 27 (\<lambda>b. f b \<bind> (\<lambda>b. g b \<bind> h)) (xs @ ys @ zs)"
  by (intro writes_seq) (rule writes_mono, assumption, simp)

lemma writes_seq2: "writes 0 f xs \<Longrightarrow> writes 27 g ys \<Longrightarrow> writes 27 (\<lambda>b. f b \<bind> g) (xs @ ys)"
  by (intro writes_seq) (rule writes_mono, assumption, simp)

lemma writes_signed:
  assumes "alloc_total alloc" "transaction_wf tx"
    and "returns (data_bytes (transaction_data tx)) (rlp_encode_bytes alloc (bytes_contents (transaction_data tx)))"
  shows "writes 27 (signed_steps alloc tx) (signed_fields tx)"
proof (cases tx)
  case (Tx_legacy t)
  have "list_all2 returns [u64_bytes (lt_nonce t), u256_bytes (lt_gas_price t), u64_bytes (lt_gas_limit t), to_bytes (lt_to t),
      u256_bytes (lt_value t), data_bytes (lt_data t)]
    [rlp_encode_u64 alloc (lt_nonce t), rlp_encode_uint256 alloc (lt_gas_price t), rlp_encode_u64 alloc (lt_gas_limit t),
      tx_encode_optional_address alloc (lt_to t), rlp_encode_uint256 alloc (lt_value t),
      rlp_encode_bytes alloc (bytes_contents (lt_data t))]"
    using assms Tx_legacy by (simp add: item_returns)
  from writes_mono [OF writes_items [OF this, of alloc], of 27] show ?thesis by (simp add: Tx_legacy writes_def)
next
  case (Tx_eip2930 t)
  have "list_all2 returns [u64_bytes (t1_chain_id t), u64_bytes (t1_nonce t), u256_bytes (t1_gas_price t),
      u64_bytes (t1_gas_limit t), to_bytes (t1_to t), u256_bytes (t1_value t), data_bytes (t1_data t)]
    [rlp_encode_u64 alloc (t1_chain_id t), rlp_encode_u64 alloc (t1_nonce t), rlp_encode_uint256 alloc (t1_gas_price t),
      rlp_encode_u64 alloc (t1_gas_limit t), tx_encode_optional_address alloc (t1_to t),
      rlp_encode_uint256 alloc (t1_value t), rlp_encode_bytes alloc (bytes_contents (t1_data t))]"
    using assms Tx_eip2930 by (simp add: item_returns)
  from writes_seq2 [OF writes_items [OF this, of alloc] writes_access_list [OF assms(1), of "t1_access_list t"]] assms(2)
  show ?thesis by (simp add: Tx_eip2930 writes_def)
next
  case (Tx_eip1559 t)
  have "list_all2 returns [u64_bytes (t2_chain_id t), u64_bytes (t2_nonce t), u256_bytes (t2_max_priority_fee_per_gas t),
      u256_bytes (t2_max_fee_per_gas t), u64_bytes (t2_gas_limit t), to_bytes (t2_to t), u256_bytes (t2_value t),
      data_bytes (t2_data t)]
    [rlp_encode_u64 alloc (t2_chain_id t), rlp_encode_u64 alloc (t2_nonce t),
      rlp_encode_uint256 alloc (t2_max_priority_fee_per_gas t), rlp_encode_uint256 alloc (t2_max_fee_per_gas t),
      rlp_encode_u64 alloc (t2_gas_limit t), tx_encode_optional_address alloc (t2_to t),
      rlp_encode_uint256 alloc (t2_value t), rlp_encode_bytes alloc (bytes_contents (t2_data t))]"
    using assms Tx_eip1559 by (simp add: item_returns)
  from writes_seq2 [OF writes_items [OF this, of alloc] writes_access_list [OF assms(1), of "t2_access_list t"]] assms(2)
  show ?thesis by (simp add: Tx_eip1559 writes_def)
next
  case (Tx_eip4844 t)
  have "list_all2 returns [u64_bytes (t3_chain_id t), u64_bytes (t3_nonce t), u256_bytes (t3_max_priority_fee_per_gas t),
      u256_bytes (t3_max_fee_per_gas t), u64_bytes (t3_gas_limit t), rlp_string (t3_to t), u256_bytes (t3_value t),
      data_bytes (t3_data t)]
    [rlp_encode_u64 alloc (t3_chain_id t), rlp_encode_u64 alloc (t3_nonce t),
      rlp_encode_uint256 alloc (t3_max_priority_fee_per_gas t), rlp_encode_uint256 alloc (t3_max_fee_per_gas t),
      rlp_encode_u64 alloc (t3_gas_limit t), rlp_encode_address alloc (t3_to t),
      rlp_encode_uint256 alloc (t3_value t), rlp_encode_bytes alloc (bytes_contents (t3_data t))]"
    using assms Tx_eip4844 by (simp add: item_returns)
  note items = writes_items [OF this, of alloc]
  have "list_all2 returns [u256_bytes (t3_max_fee_per_blob_gas t)] [rlp_encode_uint256 alloc (t3_max_fee_per_blob_gas t)]"
    using assms(1) by (simp add: item_returns)
  note blob = writes_seq2 [OF writes_items [OF this, of alloc]
    writes_mono [OF writes_blob_hashes [OF assms(1), of "t3_blob_versioned_hashes t"], of 27]]
  from writes_seq3 [OF items writes_access_list [OF assms(1), of "t3_access_list t"] blob] assms(2)
  show ?thesis by (simp add: Tx_eip4844 writes_def)
next
  case (Tx_eip7702 t)
  have "list_all2 returns [u64_bytes (t4_chain_id t), u64_bytes (t4_nonce t), u256_bytes (t4_max_priority_fee_per_gas t),
      u256_bytes (t4_max_fee_per_gas t), u64_bytes (t4_gas_limit t), rlp_string (t4_to t), u256_bytes (t4_value t),
      data_bytes (t4_data t)]
    [rlp_encode_u64 alloc (t4_chain_id t), rlp_encode_u64 alloc (t4_nonce t),
      rlp_encode_uint256 alloc (t4_max_priority_fee_per_gas t), rlp_encode_uint256 alloc (t4_max_fee_per_gas t),
      rlp_encode_u64 alloc (t4_gas_limit t), rlp_encode_address alloc (t4_to t),
      rlp_encode_uint256 alloc (t4_value t), rlp_encode_bytes alloc (bytes_contents (t4_data t))]"
    using assms Tx_eip7702 by (simp add: item_returns)
  from writes_seq3 [OF writes_items [OF this, of alloc] writes_access_list [OF assms(1), of "t4_access_list t"]
      writes_mono [OF writes_authorization_list [OF assms(1), of "t4_authorization_list t"], of 27]] assms(2)
  show ?thesis by (simp add: Tx_eip7702 writes_def)
qed

end
