(* ===== verification/Tx_Props.thy ===== *)
theory Tx_Props
  imports Tx_Encode_Laws
begin

text \<open>
  The properties of the encoding of transactions: what fits into the buffer is encoded, decoded and
  signed as it should; what does not fit is cut off, or written behind the buffer.
\<close>

section \<open>Encoding what fits\<close>

lemma fits_data:
  assumes "alloc_total alloc" "length (signed_fields tx) \<le> 1024"
  shows "returns (data_bytes (transaction_data tx)) (rlp_encode_bytes alloc (bytes_contents (transaction_data tx)))"
proof -
  have "length (data_bytes (transaction_data tx)) \<le> length (signed_fields tx)" by (cases tx) simp_all
  then have "length (bytes_contents (transaction_data tx)) < 2 ^ 64 - 9"
    using assms(2) by (simp add: rlp_string_def split: if_splits)
  then show ?thesis using rlp_encode_bytes_returns [OF assms(1)] by blast
qed

lemma transaction_encode_returns:
  assumes "alloc_total alloc" "transaction_wf tx" "tx_fits tx"
  shows "returns (transaction_bytes tx) (transaction_encode alloc tx)"
proof -
  have cap: "encode_capacity tx \<le> 1024" by (cases tx) simp_all
  have len: "length (type_prefix tx) + length (rlp_list (signed_fields tx @ signature_fields tx)) + 36 \<le> encode_capacity tx"
    using assms(3) by (simp add: tx_fits_def transaction_bytes_def)
  then have "length (signed_fields tx) \<le> 1024" using cap by (simp add: rlp_list_def)
  from writes_seq [OF writes_signed [OF assms(1,2) fits_data [OF assms(1) this]] writes_signature [OF assms(1)]]
  show ?thesis
    unfolding transaction_encode_steps transaction_bytes_def using in_buffer_returns [OF assms(1) _ len] cap by simp
qed

text \<open>The number of bytes of the buffer for what is signed, and the bytes.\<close>

fun signing_capacity :: "transaction_t \<Rightarrow> nat" where
  "signing_capacity (Tx_legacy _) = 512"
| "signing_capacity tx = encode_capacity tx"

fun chain_fields :: "transaction_t \<Rightarrow> u8 list" where
  "chain_fields (Tx_legacy tx) = (case legacy_tx_chain_id tx of None \<Rightarrow> [] | Some c \<Rightarrow> u64_bytes c @ [0x80, 0x80])"
| "chain_fields tx = []"

definition signing_bytes :: "transaction_t \<Rightarrow> u8 list" where
  "signing_bytes tx = type_prefix tx @ rlp_list (signed_fields tx @ chain_fields tx)"

fun chain_steps :: "allocator \<Rightarrow> transaction_t \<Rightarrow> bytes_t \<Rightarrow> bytes_t option" where
  "chain_steps alloc (Tx_legacy tx) b =
     (case legacy_tx_chain_id tx of
        None \<Rightarrow> Some b
      | Some c \<Rightarrow> put_items alloc
          [rlp_encode_u64 alloc c, rlp_encode_uint256 alloc uint256_zero, rlp_encode_uint256 alloc uint256_zero] b)"
| "chain_steps alloc tx b = Some b"

lemma writes_chain:
  assumes "alloc_total alloc" shows "writes 27 (chain_steps alloc tx) (chain_fields tx)"
proof -
  have "list_all2 returns [u64_bytes c, u256_bytes uint256_zero, u256_bytes uint256_zero]
      [rlp_encode_u64 alloc c, rlp_encode_uint256 alloc uint256_zero, rlp_encode_uint256 alloc uint256_zero]" for c
    using assms rlp_encode_uint256_returns [OF assms, of uint256_zero] by (simp add: item_returns)
  from writes_mono [OF writes_items [OF this], of 27 alloc] show ?thesis
    by (cases tx) (auto simp: writes_def split: option.splits)
qed

lemma transaction_signing_steps:
  "transaction_signing_hash alloc keccak tx =
    in_buffer alloc (signing_capacity tx) (type_prefix tx) (\<lambda>b. signed_steps alloc tx b \<bind> chain_steps alloc tx) \<bind>
    (\<lambda>output. Some (keccak (bytes_contents output)))"
  by (cases tx) (simp_all add: legacy_tx_signing_hash_def eip2930_tx_signing_hash_def eip1559_tx_signing_hash_def
    eip4844_tx_signing_hash_def eip7702_tx_signing_hash_def in_buffer_def enclosed_def bytes_append_byte_def append_nil
    tx_type_code_def split_def)

lemma transaction_signing_returns:
  assumes "alloc_total alloc" "transaction_wf tx" "length (signing_bytes tx) + 36 \<le> signing_capacity tx"
  shows "transaction_signing_hash alloc keccak tx = Some (keccak (signing_bytes tx))"
proof -
  have cap: "signing_capacity tx \<le> 1024" by (cases tx) simp_all
  have len: "length (type_prefix tx) + length (rlp_list (signed_fields tx @ chain_fields tx)) + 36 \<le> signing_capacity tx"
    using assms(3) by (simp add: signing_bytes_def)
  then have "length (signed_fields tx) \<le> 1024" using cap by (simp add: rlp_list_def)
  from writes_seq [OF writes_signed [OF assms(1,2) fits_data [OF assms(1) this]] writes_chain [OF assms(1)]]
  have "returns (signing_bytes tx) (in_buffer alloc (signing_capacity tx) (type_prefix tx)
      (\<lambda>b. signed_steps alloc tx b \<bind> chain_steps alloc tx))"
    unfolding signing_bytes_def using in_buffer_returns [OF assms(1) _ len] cap by simp
  then show ?thesis unfolding transaction_signing_steps by (auto simp: returns_def)
qed


section \<open>What does not fit\<close>

lemma append_too_long:
  assumes "arena_buf n xs b" "n < length xs + length d" "length d < 2 ^ 63" "n < 2 ^ 63"
  shows "bytes_append alloc b d = Some (False, b) \<or> bytes_data b = None"
proof -
  have b: "bytes_wf b" "bytes_arena b" "bytes_capacity b = n" "bytes_size b = length xs"
    using assms(1) length_contents [of b] by (auto simp: arena_buf_def)
  have "length xs \<le> n" using b by (simp add: bytes_wf_def)
  then have "(length xs + length d) mod 2 ^ 64 = length xs + length d" "d \<noteq> []" using assms(2-4) by auto
  then show ?thesis using b assms(2) by (auto simp: bytes_append_def bytes_reserve_def Let_def)
qed

lemma arena_buf_data: "arena_buf n xs b \<Longrightarrow> 0 < n \<Longrightarrow> bytes_data b \<noteq> None"
  by (cases "bytes_data b") (auto simp: arena_buf_def bytes_wf_def)

text \<open>An item that is too long for the buffer leaves it as it is.\<close>

lemma put_too_long:
  assumes "arena_buf n xs b" "0 < n" "n < 2 ^ 63" "returns ys item" "n < length ys" "length ys < 2 ^ 63"
  shows "put_items alloc [item] b = Some b"
proof -
  obtain x where x: "item = Some x" "bytes_contents x = ys" using assms(4) by (auto simp: returns_def)
  have "bytes_append alloc b ys = Some (False, b)"
    using append_too_long [OF assms(1) _ assms(6,3)] arena_buf_data [OF assms(1,2)] assms(5) by auto
  then show ?thesis using x by (simp add: rlp_list_append_def)
qed

lemma put_items_append: "put_items alloc (xs @ ys) b = put_items alloc xs b \<bind> put_items alloc ys"
proof (induction xs arbitrary: b)
  case (Cons x xs)
  then have "put_items alloc (xs @ ys) = (\<lambda>b. put_items alloc xs b \<bind> put_items alloc ys)" by blast
  then show ?case by simp
qed simp

lemma number_bytes_length: "n < 2 ^ 256 \<Longrightarrow> length (number_bytes n) \<le> 33"
proof -
  assume n: "n < 2 ^ 256"
  have "length (be_digits n) \<le> 32"
  proof (rule ccontr)
    assume l: "\<not> length (be_digits n) \<le> 32"
    then have ne: "be_digits n \<noteq> []" by auto
    have "(256 :: int) ^ 32 \<le> 256 ^ (length (be_digits n) - 1)" using l by (intro power_increasing) simp_all
    also have "\<dots> \<le> int n" using no_lead_bound [OF no_lead_be_digits ne] be_val_be_digits [of n] by simp
    finally have "int (256 ^ 32) \<le> int n" by simp
    then have "256 ^ 32 \<le> n" by (simp only: of_nat_le_iff)
    then show False using n by simp
  qed
  then show ?thesis by (simp add: rlp_string_def rlp_header_def)
qed


lemma u64_bytes_length: "length (u64_bytes v) \<le> 33"
proof -
  have "unat v < 2 ^ 64" using unsigned_less [of v] by simp
  then have "unat v < 2 ^ 256" by (rule order_less_le_trans) simp
  then show ?thesis by (rule number_bytes_length)
qed

lemma u256_bytes_length: "length (u256_bytes v) \<le> 33"
  using uval_bounds [of v] by (intro number_bytes_length) (simp add: nat_less_iff)

lemma to_bytes_length: "to_wf a \<Longrightarrow> length (to_bytes a) \<le> 21"
  by (cases a) (auto simp: to_wf_def ADDRESS_SIZE_def rlp_string_short)

lemma new_buffer:
  assumes "alloc_total alloc" "0 < n" "n < 2 ^ 64"
  obtains b where "bytes_reserve alloc bytes_init_arena n = Some (True, b)" "arena_buf n [] b"
proof -
  obtain buf where buf: "alloc n = Some buf" "length buf = n"
    using assms(1) unfolding alloc_total_def alloc_sound_def by (metis not_None_eq)
  then show ?thesis
    using that assms(2,3) by (simp add: bytes_reserve_def bytes_init_arena_def arena_buf_def bytes_wf_def bytes_contents_def)
qed

text \<open>In a buffer of a transaction an item that is too long is left out.\<close>

lemma in_buffer_drops:
  assumes "alloc_total alloc" "list_all2 returns yss items" "9 + length (concat yss) \<le> n" "n < 2 ^ 63"
    and "returns ys item" "n < length ys" "length ys < 2 ^ 63"
  shows "in_buffer alloc n [] (\<lambda>b. put_items alloc (items @ [item]) b \<bind> k) =
    in_buffer alloc n [] (\<lambda>b. put_items alloc items b \<bind> k)"
proof -
  obtain b0 where b0: "bytes_reserve alloc bytes_init_arena n = Some (True, b0)" "arena_buf n [] b0"
    using new_buffer [OF assms(1), of n] assms(3,4) by auto
  obtain b1 where b1: "bytes_append alloc b0 (replicate 9 0) = Some (True, b1)" "arena_buf n (replicate 9 0) b1"
    using append_fits [OF b0(2), of "replicate 9 0" alloc] assms(3) by auto
  obtain b2 where b2: "put_items alloc items b1 = Some b2" "arena_buf n (replicate 9 0 @ concat yss) b2"
    using writesD [OF writes_items [OF assms(2)] b1(2)] assms(3) by auto
  have "put_items alloc [item] b2 = Some b2"
    using put_too_long [OF b2(2) _ assms(4-7)] assms(3) by simp
  then show ?thesis
    using b0(1) b1(1) b2(1) unfolding in_buffer_def enclosed_def rlp_list_start_def put_items_append
    by (simp add: append_nil del: put_items.simps)
qed

text \<open>A list that starts when there is no room for its header is closed behind the buffer.\<close>

lemma enclosed_outside:
  assumes "arena_buf n xs b" "n < length xs + 9" "0 < n" "n < 2 ^ 63"
  shows "enclosed alloc Some b = None"
proof -
  have b: "bytes_wf b" "bytes_capacity b = n" "bytes_size b = length xs"
    using assms(1) length_contents [of b] by (auto simp: arena_buf_def)
  have "bytes_append alloc b (replicate 9 0) = Some (False, b)"
    using append_too_long [OF assms(1) _ _ assms(4), of "replicate 9 0" alloc] arena_buf_data [OF assms(1,3)] assms(2) by auto
  then have "enclosed alloc Some b = list_end (length xs) b" using b(3) by (simp add: enclosed_def rlp_list_start_def)
  also have "(bytes_size b + 2 ^ 65 - length xs - RLP_MAX_HEADER_SIZE) mod 2 ^ 64 = 2 ^ 64 - 9" using b(3) by simp
  then have "list_end (length xs) b = None"
  proof -
    have "length (be_digits (2 ^ 64 - 9)) = 8" by (simp add: be_digits.simps)
    then have "length (list_header (2 ^ 64 - 9)) = 9" by (simp add: list_header_eq rlp_header_def)
    then show ?thesis unfolding list_end_def \<open>_ mod _ = _\<close> using b(2) assms(2) by simp
  qed
  finally show ?thesis .
qed

text \<open>Counting the items of a list that is longer than the input does not end.\<close>

lemma skip_item_size: "dec_size (rlp_skip_item d) = dec_size d"
proof -
  have "dec_size (snd (skip_length n d v)) = dec_size d" for n d v
    by (induction n arbitrary: d v) (auto simp: read_byte_def Let_def)
  from this [of _ "d\<lparr>dec_pos := dec_pos d + 1\<rparr>"] show ?thesis
    by (auto simp: rlp_skip_item_def clamp_pos_def Let_def split: prod.splits) (metis rlp_decoder_t.select_convs snd_conv)+
qed

lemma count_items_diverges:
  assumes "dec_wf d" "dec_size d < e"
  shows "count_items e d n = None"
proof -
  have "\<not> (dec_wf d \<and> dec_size d < e)" if "count_items e d n = Some r" for r
    using that
  proof (rule count_items.raw_induct [of "\<lambda>e d n r. \<not> (dec_wf d \<and> dec_size d < e)", rotated])
    fix f e d n r
    assume ih: "\<And>e d n r. f e d n = Some r \<Longrightarrow> \<not> (dec_wf d \<and> dec_size d < e)"
      and eq: "(if dec_pos d < e then f e (rlp_skip_item d) (n + 1) else Some n) = Some r"
    show "\<not> (dec_wf d \<and> dec_size d < e)"
    proof
      assume h: "dec_wf d \<and> dec_size d < e"
      then have "dec_pos d < e" by (auto simp: dec_wf_def)
      then show False using ih [of e "rlp_skip_item d" "n + 1" r] eq h skip_item_wf [of d] skip_item_size [of d] by simp
    qed
  qed
  then show ?thesis using assms by (cases "count_items e d n") auto
qed


section \<open>The recovery id\<close>

text \<open>The values of \<open>v\<close> that a signature may have.\<close>

fun legal_v :: "transaction_t \<Rightarrow> bool" where
  "legal_v (Tx_legacy tx) \<longleftrightarrow> lt_v tx = 27 \<or> lt_v tx = 28 \<or> 35 \<le> lt_v tx"
| "legal_v (Tx_eip2930 tx) \<longleftrightarrow> t1_y_parity tx \<le> 1"
| "legal_v (Tx_eip1559 tx) \<longleftrightarrow> t2_y_parity tx \<le> 1"
| "legal_v (Tx_eip4844 tx) \<longleftrightarrow> t3_y_parity tx \<le> 1"
| "legal_v (Tx_eip7702 tx) \<longleftrightarrow> t4_y_parity tx \<le> 1"

lemma byte_le_1: "y \<le> (1 :: u8) \<Longrightarrow> y = 0 \<or> y = 1"
proof -
  assume "y \<le> 1"
  then have "unat y = 0 \<or> unat y = 1" by (auto simp: word_le_nat_alt)
  then show ?thesis by (auto simp: word_unat_eq_iff)
qed

lemma parity_recovery_id: "y \<le> (1 :: u8) \<Longrightarrow> decode_recovery_id (ucast y) c = Some (uint y) \<and> 0 \<le> uint y \<and> uint y \<le> 3"
  using byte_le_1 [of y] by (auto simp: decode_recovery_id_def)

lemma legacy_recovery_id:
  assumes "lt_v tx = 27 \<or> lt_v tx = 28 \<or> 35 \<le> lt_v tx"
  shows "decode_recovery_id (lt_v tx) (case_option 0 id (legacy_tx_chain_id tx)) = Some (legacy_tx_recovery_id tx) \<and>
    0 \<le> legacy_tx_recovery_id tx \<and> legacy_tx_recovery_id tx \<le> 3"
proof (cases "lt_v tx = 27 \<or> lt_v tx = 28")
  case True
  then show ?thesis by (auto simp: decode_recovery_id_def legacy_tx_recovery_id_def)
next
  case False
  then have "35 \<le> lt_v tx" using assms by blast
  moreover have "uint ((lt_v tx - 35) mod 2) < 2" by (simp add: uint_mod_distrib)
  ultimately show ?thesis
    using False decode_recovery_id_eip155 [of "lt_v tx"] by (simp add: legacy_tx_chain_id_def legacy_tx_recovery_id_def)
qed

lemma legal_v_recovery_id:
  assumes "legal_v tx"
  shows "decode_recovery_id (signature_v tx) (case_option 0 id (transaction_chain_id tx)) = Some (transaction_recovery_id tx) \<and>
    0 \<le> transaction_recovery_id tx \<and> transaction_recovery_id tx \<le> 3"
  using assms legacy_recovery_id parity_recovery_id
  by (cases tx) (simp_all add: eip2930_tx_recovery_id_def eip1559_tx_recovery_id_def eip4844_tx_recovery_id_def
    eip7702_tx_recovery_id_def)

lemma ecrecover_legal:
  assumes "decode_recovery_id v chain_id = Some i \<and> 0 \<le> i \<and> i \<le> 3" "\<And>m. length (keccak m) = HASH_SIZE"
    and "\<And>m i s pub. recover m i s = Some pub \<Longrightarrow> length pub = 65"
  shows "secp256k1_ecrecover keccak (Some recover) h v r s chain_id =
    (case recover (uint256_to_bytes_be h) i (uint256_to_bytes_be r @ uint256_to_bytes_be s) of
       None \<Rightarrow> \<lparr>ec_success = False, ec_address = address_zero\<rparr>
     | Some pub \<Rightarrow> \<lparr>ec_success = True, ec_address = drop 12 (keccak (tl pub))\<rparr>)"
  using assms by (auto simp: secp256k1_ecrecover_def secp256k1_recover_pubkey_def HASH_SIZE_def ADDRESS_SIZE_def drop_Suc
    split: option.splits)


section \<open>Properties\<close>

text \<open>
  C11: a transaction of any kind whose encoding fits into the buffer is encoded as the RLP list of its
  fields, after the byte of its type, and decoding gives the transaction back, with its data in a
  fresh buffer, and consumes all of the bytes.
\<close>

theorem transaction_roundtrip:
  assumes "alloc_total alloc" "transaction_wf tx" "tx_fits tx"
  shows "\<exists>b. transaction_encode alloc tx = Some b \<and> bytes_contents b = transaction_bytes tx \<and>
    transaction_decode alloc (bytes_contents b) =
      Some (\<lparr>txr_error = TX_DECODE_OK, txr_bytes_consumed = length (transaction_bytes tx)\<rparr>, Some (recopied tx))"
proof -
  have "encode_capacity tx \<le> 1024" by (cases tx) simp_all
  then have "length (transaction_bytes tx) < 2 ^ 64" using assms(3) by (simp add: tx_fits_def)
  then show ?thesis
    using transaction_encode_returns [OF assms] transaction_decode_bytes [OF assms(1,2)] by (auto simp: returns_def)
qed

definition sample_tx :: eip1559_tx_t where
  "sample_tx = eip1559_tx_init\<lparr>t2_chain_id := 1, t2_nonce := 7, t2_to := Some (replicate 20 1), t2_data := arena_copy [1, 2],
     t2_access_list := \<lparr>al_entries = [\<lparr>ale_address = replicate 20 2, ale_storage_keys = [uint256_zero]\<rparr>]\<rparr>\<rparr>"

lemma sample_tx_wf:
  "transaction_wf (Tx_eip1559 sample_tx)" "tx_fits (Tx_eip1559 sample_tx)" "length (signing_bytes (Tx_eip1559 sample_tx)) \<le> 100"
proof -
  have u: "rlp_string [1] = [1]" "rlp_string [7] = [7]" by (simp_all add: rlp_string_def)
  note size = sample_tx_def eip1559_tx_init_def u access_list_bytes_def entry_bytes_def rlp_list_def rlp_header_def
    rlp_string_short be_digits_single
  show "transaction_wf (Tx_eip1559 sample_tx)"
    by (simp add: sample_tx_def to_wf_def access_list_wf_def ADDRESS_SIZE_def)
  show "tx_fits (Tx_eip1559 sample_tx)" by (simp add: tx_fits_def transaction_bytes_def size)
  show "length (signing_bytes (Tx_eip1559 sample_tx)) \<le> 100" by (simp add: signing_bytes_def size)
qed

theorem transaction_roundtrip_witness:
  "\<exists>b. transaction_encode (\<lambda>n. Some (replicate n 0)) (Tx_eip1559 sample_tx) = Some b \<and>
    transaction_decode (\<lambda>n. Some (replicate n 0)) (bytes_contents b) =
      Some (\<lparr>txr_error = TX_DECODE_OK, txr_bytes_consumed = length (transaction_bytes (Tx_eip1559 sample_tx))\<rparr>,
        Some (Tx_eip1559 sample_tx))"
proof -
  have a: "alloc_total (\<lambda>n. Some (replicate n (0 :: u8)))" by (simp add: alloc_total_def alloc_sound_def)
  have "recopied (Tx_eip1559 sample_tx) = Tx_eip1559 sample_tx" by (simp add: sample_tx_def)
  then show ?thesis using transaction_roundtrip [OF a sample_tx_wf(1,2)] by auto
qed





text \<open>
  C37: a transaction with fee market whose fields up to the access list leave less than nine bytes of
  the buffer of 512 is written past its end: the header of the access list does not fit, and closing
  the list writes it nevertheless.
\<close>

theorem transaction_header_outside:
  assumes "alloc_total alloc" "to_wf (t2_to tx)" "al_entries (t2_access_list tx) = []"
  defines "p \<equiv> u64_bytes (t2_chain_id tx) @ u64_bytes (t2_nonce tx) @ u256_bytes (t2_max_priority_fee_per_gas tx) @
    u256_bytes (t2_max_fee_per_gas tx) @ u64_bytes (t2_gas_limit tx) @ to_bytes (t2_to tx) @ u256_bytes (t2_value tx) @
    data_bytes (t2_data tx)"
  assumes "512 < 10 + length p + 9" "10 + length p \<le> 512"
  shows "transaction_encode alloc (Tx_eip1559 tx) = None \<and> transaction_signing_hash alloc keccak (Tx_eip1559 tx) = None"
proof -
  define items where "items = [rlp_encode_u64 alloc (t2_chain_id tx), rlp_encode_u64 alloc (t2_nonce tx),
    rlp_encode_uint256 alloc (t2_max_priority_fee_per_gas tx), rlp_encode_uint256 alloc (t2_max_fee_per_gas tx),
    rlp_encode_u64 alloc (t2_gas_limit tx), tx_encode_optional_address alloc (t2_to tx),
    rlp_encode_uint256 alloc (t2_value tx), rlp_encode_bytes alloc (bytes_contents (t2_data tx))]"
  have "length (bytes_contents (t2_data tx)) < 2 ^ 64 - 9" using assms(6) by (simp add: p_def rlp_string_def split: if_splits)
  then have "list_all2 returns [u64_bytes (t2_chain_id tx), u64_bytes (t2_nonce tx), u256_bytes (t2_max_priority_fee_per_gas tx),
      u256_bytes (t2_max_fee_per_gas tx), u64_bytes (t2_gas_limit tx), to_bytes (t2_to tx), u256_bytes (t2_value tx),
      data_bytes (t2_data tx)] items"
    using assms(1,2) rlp_encode_bytes_returns [OF assms(1)] by (simp add: items_def item_returns)
  note w = writes_items [OF this, of alloc]
  have none: "in_buffer alloc 512 [2] (\<lambda>b. signed_steps alloc (Tx_eip1559 tx) b \<bind> k) = None" for k
  proof -
    obtain b0 where b0: "bytes_reserve alloc bytes_init_arena 512 = Some (True, b0)" "arena_buf 512 [] b0"
      using new_buffer [OF assms(1), of 512] by auto
    obtain b1 where b1: "bytes_append alloc b0 [2] = Some (True, b1)" "arena_buf 512 [2] b1"
      using append_fits [OF b0(2), of "[2]" alloc] by auto
    obtain b2 where b2: "bytes_append alloc b1 (replicate 9 0) = Some (True, b2)" "arena_buf 512 ([2] @ replicate 9 0) b2"
      using append_fits [OF b1(2), of "replicate 9 0" alloc] by auto
    obtain b3 where b3: "put_items alloc items b2 = Some b3" "arena_buf 512 (([2] @ replicate 9 0) @ p) b3"
      using writesD [OF w b2(2)] assms(6) by (auto simp: p_def)
    have "tx_encode_access_list alloc (t2_access_list tx) b3 = None"
      using enclosed_outside [OF b3(2), of alloc] assms(3,5) by (simp add: lists_enclosed(1) enclosed_def)
    then have "signed_steps alloc (Tx_eip1559 tx) b2 = None" using b3(1) by (simp add: items_def)
    then show ?thesis
      using b0(1) b1(1) b2(1) by (simp add: in_buffer_def enclosed_def rlp_list_start_def del: signed_steps.simps)
  qed
  show ?thesis
    unfolding transaction_encode_steps transaction_signing_steps using none by (simp add: tx_type_code_def del: signed_steps.simps)
qed


theorem transaction_header_outside_witness:
  "transaction_encode (\<lambda>n. Some (replicate n 0)) (Tx_eip1559 (eip1559_tx_init\<lparr>t2_data := arena_copy (replicate 490 7)\<rparr>)) = None"
proof -
  have a: "alloc_total (\<lambda>n. Some (replicate n (0 :: u8)))" by (simp add: alloc_total_def alloc_sound_def)
  define tx where "tx = eip1559_tx_init\<lparr>t2_data := arena_copy (replicate 490 7)\<rparr>"
  have "length (data_bytes (t2_data tx)) = 493" by (simp add: tx_def rlp_string_def rlp_header_def be_digits.simps)
  moreover have "to_wf (t2_to tx)" "al_entries (t2_access_list tx) = []"
    by (simp_all add: tx_def eip1559_tx_init_def to_wf_def access_list_init_def)
  ultimately show ?thesis
    using transaction_header_outside [OF a, of tx] by (simp add: tx_def eip1559_tx_init_def)
qed

text \<open>
  C38: the decoder of a blob transaction does not return if the list of its hashes claims to be longer
  than the input: it counts items up to the end of the list, and at the end of the input skipping an
  item does not move it any more.
\<close>

theorem transaction_blob_count_diverges:
  assumes "dec_wf dec" "rlp_decode_list_header dec = (Inr (payload_length, m), dec')"
    and "length (dec_rest dec') < payload_length" "dec_pos dec' + payload_length < 2 ^ 64"
  shows "decode_blob_hashes alloc tx dec = None"
proof -
  have wf: "dec_wf dec'" using decode_list_header_wf [OF assms(1)] assms(2) by simp
  then have "dec_size dec' < dec_pos dec' + payload_length" using assms(3) by (auto simp: dec_wf_def dec_rest_def)
  then show ?thesis using count_items_diverges [OF wf] assms(2-4) by (auto simp: decode_blob_hashes_def)
qed

theorem transaction_blob_count_diverges_witness:
  "decode_blob_hashes (\<lambda>n. Some (replicate n 0)) eip4844_tx_init (rlp_decoder_init [0xC2, 1]) = None"
proof -
  have "rlp_decode_list_header (rlp_decoder_init [0xC2, 1]) = (Inr (2, 1), (rlp_decoder_init [0xC2, 1])\<lparr>dec_pos := 1\<rparr>)"
    by (simp add: rlp_decode_list_header_def rlp_decoder_has_more_def rlp_decoder_init_def read_byte_def word_le_nat_alt)
  from transaction_blob_count_diverges [OF _ this] show ?thesis
    by (simp add: dec_wf_def dec_rest_def rlp_decoder_init_def)
qed

end
