(* ===== verification/Spec2Isabelle.thy ===== *)
theory Spec2Isabelle
  imports Rlp_Decode Mpt_Root Evm_World Tx_Props
begin

text \<open>
  A verification development for div0, an Ethereum virtual machine in C.  File names below are
  relative to the directory of the sources.

  \<^bold>\<open>The program.\<close>  The EVM (\<open>src/evm\<close>) executes the code of a contract frame by frame on 256-bit
  integers (\<open>src/types/uint256.c\<close>), with an operand stack and a memory that live in an arena
  (\<open>include/div0/mem/arena.h\<close>).  It reads and writes accounts through the interface
  \<open>include/div0/state/state_access.h\<close>, which \<open>src/state/world_state.c\<close> implements over Merkle Patricia
  Tries (\<open>src/trie\<close>).  Trie nodes, accounts and transactions are encoded in RLP (\<open>src/rlp\<close>) into byte
  buffers (\<open>src/types/bytes.c\<close>); transactions (\<open>src/ethereum/transaction\<close>) are decoded, hashed, and
  their senders recovered with \<open>src/crypto/secp256k1.c\<close>.

  \<^bold>\<open>The theories, by component.\<close>

  \<^item> \<open>Div0_Prelude\<close>: C integer types as words, casts, compiler builtins, the collections \<open>uint_simps\<close>
    and \<open>nowrap\<close>, values of arrays of limbs.
  \<^item> \<open>Uint256\<close>, \<open>Uint256_Div\<close>, \<open>Uint256_Arith\<close>: \<open>uint256.h\<close> and \<open>uint256.c\<close>, limb by limb.  The locale
    \<open>word_binop\<close> states that a function on limbs implements one on 256-bit words and is interpreted
    for every binary operation; \<open>digit_loop\<close> states what one quotient digit of Knuth's division gives
    and is interpreted for the loops of \<open>uint256_divmod\<close> and \<open>uint512_mod_256\<close>.
  \<^item> \<open>Hex\<close>: addresses, hashes, 32-byte words and hexadecimal text (\<open>hex.c\<close>, \<open>address.c\<close>, \<open>hash.c\<close>,
    \<open>bytes32.c\<close>); decoding inverts encoding.
  \<^item> \<open>Bytes\<close>: the buffers of \<open>bytes.c\<close>, when growing them returns and what appending keeps.
  \<^item> \<open>Arena\<close>: the allocator of \<open>arena.h\<close> over addresses.  The locale \<open>region_allocator\<close> derives that
    successive allocations lie apart from the law of one allocation.
  \<^item> \<open>Rlp_Encode\<close>, \<open>Rlp_Decode\<close>: \<open>encode.c\<close>, \<open>decode.c\<close> and \<open>helpers.c\<close> against the reference encodings
    \<open>rlp_string\<close> and \<open>rlp_list\<close>.  The locale \<open>codec\<close> is interpreted for each decoder.
  \<^item> \<open>Nibbles\<close>: \<open>nibbles.c\<close> and \<open>hex_prefix.c\<close>.
  \<^item> \<open>Mpt_Node\<close>, \<open>Mpt\<close>: \<open>node.c\<close>, \<open>mpt.c\<close>, \<open>mpt_memory.c\<close>.  \<open>Mpt_Map\<close> proves that a canonical trie
    implements a map, \<open>Mpt_Root\<close> that its root hash is the structural composition of the entries; the
    locale \<open>merkle_map\<close> concludes that the history of a trie does not matter.
  \<^item> \<open>Gas\<close>, \<open>Jumpdest\<close>, \<open>Evm_Stack\<close>, \<open>Evm_Memory\<close>: \<open>opcodes.h\<close>, the gas tables and cost functions,
    \<open>jumpdest.h\<close>, \<open>stack.h\<close>, \<open>memory.c\<close> and their pools.
  \<^item> \<open>State_Access\<close>: the table of functions of \<open>state_access.h\<close> as a record over the type of the state.
    \<open>State_Provider\<close> holds the locale \<open>state_provider\<close>, what the interpreter relies on of a state.
  \<^item> \<open>Call_Frame\<close>, \<open>Opcodes\<close>, \<open>Opcodes_Env\<close>, \<open>Call_Op\<close>, \<open>Evm\<close>: frames, contexts and logs, every opcode of
    \<open>src/evm/opcodes\<close>, the CALL family, and \<open>evm.c\<close> with its handlers, its dispatch table,
    \<open>execute_frame\<close> and \<open>evm_execute_env\<close>.
  \<^item> \<open>Frame_Logic\<close>, \<open>Opcode_Laws\<close>, \<open>Call_Laws\<close>, \<open>Evm_Safety\<close>, \<open>Evm_Machine\<close>, \<open>Evm_Guarded\<close>: a small
    program logic for frames, what each opcode keeps, one step of the interpreter, the machine of
    nested frames with its invariant and its well-founded order, and code that cannot reach a hazard.
  \<^item> \<open>Account\<close>, \<open>World_State\<close>, \<open>World_State_Laws\<close>, \<open>World_State_Props\<close>: \<open>account.c\<close> and \<open>world_state.c\<close>,
    the invariant \<open>ws_ok\<close>, the accounts and the storage a state stands for, its root and its export.
    \<open>Evm_World\<close> interprets \<open>state_provider\<close> on the world state and states the properties of the EVM.
  \<^item> \<open>Transaction\<close>, \<open>Tx_Decode\<close>, \<open>Tx_Encode\<close>, \<open>Secp256k1\<close>: the five kinds of transaction with their
    accessors, \<open>rlp.c\<close>, \<open>signer.c\<close>, \<open>secp256k1.c\<close> and \<open>src/executor/address.c\<close>.  \<open>Tx_Encode_Laws\<close> and
    \<open>Tx_Props\<close> relate encoders, decoders and signing hashes to the list of the fields.

  \<^bold>\<open>How C is represented.\<close>  Integers keep their width, or are natural numbers with the reduction
  modulo 2^64 written out; a pointer with a size is a list, a nullable pointer an option, an update
  in place a new value, since no object of the model is shared.  The result \<open>None\<close> of an operation
  stands for undefined behaviour (an access outside an object, a null pointer) or for a loop that
  does not end; loops that may not end are partial functions, and no definition has fuel.  The
  properties therefore state that a result exists.

  \<^bold>\<open>Parameters.\<close>  Code outside the sources is an argument of the definitions: the allocator \<open>alloc\<close> of
  the buffers (\<open>alloc_sound\<close>: a buffer has the size asked for; \<open>alloc_total\<close>: it never fails), the
  outcomes of node allocations \<open>node_mem\<close>, the answers of \<open>malloc\<close> to the arena, the hash function
  \<open>keccak\<close>, the recovery function of the secp256k1 library, and the order in which the hash tables of
  the STC library are traversed.  The hash tables themselves are maps and sets.  Where trie keys are
  hashes, the hypothesis \<open>no_collision\<close> says that the keys in use have different hashes.

  \<^bold>\<open>Bounds.\<close>  Lengths of byte strings are below 2^62 where the code adds to them without a check, or
  2^64 where it does not; the keys of a trie have at most as many nibbles.  The buffers of a transaction
  have 256, 512 or 1024 bytes as in the code and cannot grow: \<open>tx_fits\<close> leaves 36 bytes
  for the headers of lists, which are reserved before they are compacted.  What happens beyond the
  bounds is stated too: items are dropped, or a header is written outside the buffer.  The EVM
  theorems name the hazards: memory regions near the top of the address space, DUP on a stack whose
  array is full, and failed allocations for the regions of a call.

  \<^bold>\<open>Not modelled.\<close>  \<open>keccak256.c\<close>, a wrapper of the XKCP library; the block executor with its
  validation and intrinsic gas (\<open>src/executor\<close> other than \<open>address.c\<close>); the JSON reader and writer,
  the t8n tool and the command line (\<open>src/json\<close>, \<open>src/t8n\<close>, \<open>src/cli\<close>), which are input and output; the
  benchmarks.
\<close>

end
